(* ===== verification/Esc_Prelude.thy ===== *)
theory Esc_Prelude
  imports Main "HOL-Library.Word"
begin

text \<open>
  Shared vocabulary of the Escargot development: the machine-integer types the sources use,
  the collections of simplification facts the component theories extend, and the generic
  lemmas on lists and words that several components need (linear search returning an index,
  removal of one element, bit tests on tagged words).
\<close>

unbundle bit_operations_syntax

type_synonym u8 = "8 word"
type_synonym u16 = "16 word"
type_synonym u32 = "32 word"
type_synonym u64 = "64 word"

named_theorems name_simps \<open>facts on property names\<close>
named_theorems desc_simps \<open>facts on property descriptors\<close>
named_theorems heap_simps \<open>read-over-write facts of the structure heap\<close>
named_theorems coll_simps \<open>facts on keyed collections with tombstones\<close>

section \<open>Linear search\<close>

text \<open>
  \<open>find_index P xs\<close> is the loop
  \<^verbatim>\<open>for (size_t i = 0; i < size; i++) if (P(xs[i])) return i;\<close>
  with \<open>None\<close> for the fall-through (\<^verbatim>\<open>SIZE_MAX\<close> in the sources).
\<close>

fun find_index_from :: "nat \<Rightarrow> ('a \<Rightarrow> bool) \<Rightarrow> 'a list \<Rightarrow> nat option" where
  "find_index_from i P [] = None"
| "find_index_from i P (x # xs) = (if P x then Some i else find_index_from (Suc i) P xs)"

definition find_index :: "('a \<Rightarrow> bool) \<Rightarrow> 'a list \<Rightarrow> nat option" where
  "find_index P xs = find_index_from 0 P xs"

lemma find_index_from_shift:
  "find_index_from i P xs = map_option (\<lambda>j. i + j) (find_index_from 0 P xs)"
proof (induction xs arbitrary: i)
  case Nil
  then show ?case by simp
next
  case (Cons x xs)
  have "find_index_from (Suc i) P xs = map_option (\<lambda>j. Suc i + j) (find_index_from 0 P xs)"
    and "find_index_from (Suc 0) P xs = map_option (\<lambda>j. Suc 0 + j) (find_index_from 0 P xs)"
    by (rule Cons.IH)+
  then show ?case by (simp add: option.map_comp comp_def)
qed

lemma find_index_Nil [simp]: "find_index P [] = None"
  by (simp add: find_index_def)

lemma find_index_Cons:
  "find_index P (x # xs) = (if P x then Some 0 else map_option Suc (find_index P xs))"
  using find_index_from_shift [of "Suc 0" P xs] by (simp add: find_index_def)

lemma find_index_Some_iff:
  "find_index P xs = Some i \<longleftrightarrow> i < length xs \<and> P (xs ! i) \<and> (\<forall>j < i. \<not> P (xs ! j))"
proof (induction xs arbitrary: i)
  case Nil
  then show ?case by simp
next
  case (Cons x xs)
  show ?case
    by (cases i) (auto simp: find_index_Cons Cons.IH less_Suc_eq_0_disj)
qed

lemma find_index_None_iff: "find_index P xs = None \<longleftrightarrow> (\<forall>x \<in> set xs. \<not> P x)"
  by (induction xs) (auto simp: find_index_Cons)

lemma find_index_cong:
  assumes "\<And>x. x \<in> set xs \<Longrightarrow> P x = Q x"
  shows "find_index P xs = find_index Q xs"
  using assms by (induction xs) (auto simp: find_index_Cons)

lemma find_index_append:
  "find_index P (xs @ ys) =
     (case find_index P xs of Some i \<Rightarrow> Some i
      | None \<Rightarrow> map_option (\<lambda>j. length xs + j) (find_index P ys))"
proof (induction xs)
  case Nil
  show ?case by (cases "find_index P ys") simp_all
next
  case (Cons x xs)
  then show ?case
    by (cases "find_index P ys") (auto simp: find_index_Cons split: option.splits)
qed

lemma find_index_map: "find_index P (map f xs) = find_index (\<lambda>x. P (f x)) xs"
  by (induction xs) (auto simp: find_index_Cons)

section \<open>Removal of one element\<close>

definition remove_nth :: "nat \<Rightarrow> 'a list \<Rightarrow> 'a list" where
  "remove_nth i xs = take i xs @ drop (Suc i) xs"

lemma length_remove_nth [simp]:
  "i < length xs \<Longrightarrow> length (remove_nth i xs) = length xs - 1"
  by (simp add: remove_nth_def)

lemma remove_nth_nth:
  assumes "i < length xs" "j < length xs - 1"
  shows "remove_nth i xs ! j = (if j < i then xs ! j else xs ! Suc j)"
  using assms by (auto simp: remove_nth_def nth_append)

lemma map_remove_nth: "map f (remove_nth i xs) = remove_nth i (map f xs)"
  by (simp add: remove_nth_def take_map drop_map)

lemma set_remove_nth_subset: "set (remove_nth i xs) \<subseteq> set xs"
  by (auto simp: remove_nth_def dest: in_set_takeD in_set_dropD)

lemma distinct_remove_nth: "distinct xs \<Longrightarrow> distinct (remove_nth i xs)"
proof -
  assume d: "distinct xs"
  have "set (take i xs) \<inter> set (drop (Suc i) xs) = {}"
    using d by (rule set_take_disj_set_drop_if_distinct) simp
  with d show ?thesis by (simp add: remove_nth_def)
qed

lemma set_remove_nth:
  assumes "distinct xs" "i < length xs"
  shows "set (remove_nth i xs) = set xs - {xs ! i}"
proof -
  have eq: "xs = take i xs @ xs ! i # drop (Suc i) xs"
    using assms(2) by (rule id_take_nth_drop)
  then have "distinct (take i xs @ xs ! i # drop (Suc i) xs)"
    using assms(1) by simp
  moreover have "set xs = set (take i xs @ xs ! i # drop (Suc i) xs)"
    using eq by simp
  ultimately show ?thesis
    by (auto simp: remove_nth_def)
qed

section \<open>Tagged words\<close>

lemma word_and_one_eq: "(w AND (1 :: 'a::len word)) \<noteq> 0 \<longleftrightarrow> odd w"
  by (simp add: and_one_eq odd_iff_mod_2_eq_one)

lemma even_word_or_one: "even (w :: 'a::len word) \<Longrightarrow> w OR 1 = w + 1"
  by (simp add: or_one_eq)

lemma even_word_or_one_minus: "even (w :: 'a::len word) \<Longrightarrow> (w OR 1) - 1 = w"
  by (simp add: even_word_or_one)

lemma odd_word_or_one: "odd ((w :: 'a::len word) OR 1)"
  by (simp add: even_or_iff)

lemma and_pow2_cases: "w AND (2 ^ k :: 'a::len word) = 0 \<or> w AND (2 ^ k :: 'a::len word) = 2 ^ k"
proof (cases "bit w k")
  case True
  then have "w AND 2 ^ k = 2 ^ k" by (intro bit_eqI) (auto simp: bit_simps)
  then show ?thesis ..
next
  case False
  then have "w AND 2 ^ k = 0" by (intro bit_eqI) (auto simp: bit_simps)
  then show ?thesis ..
qed

end
