(* ===== verification/Atomic_String.thy ===== *)
theory Atomic_String
  imports Esc_Prelude
begin

text \<open>
  The interning table of \<^verbatim>\<open>runtime/AtomicString.{h,cpp}\<close>. Strings and symbols live at
  addresses of a pointer heap. A string cell holds its \<^verbatim>\<open>m_typeTag\<close>, its UTF-16 code units
  (the 8-bit and 16-bit buffers of the sources hold the same code units) and whether it is a
  \<^verbatim>\<open>StringView\<close>. \<open>at_map\<close> is the \<^verbatim>\<open>AtomicStringMap\<close>, a hash set of string pointers compared by
  content, kept as the list of its members. The address a fresh allocation returns is an
  argument of the operations, chosen by the collector: it is unused, even and not null.
\<close>

section \<open>State\<close>

datatype pointer_value =
    PString (m_typeTag: u64) (chars: "u16 list") (isStringView: bool)
  | PSymbol "u16 list option"

type_synonym pheap = "u64 \<Rightarrow> pointer_value option"

record atom_table =
  at_heap :: pheap
  at_map :: "u64 list"

definition getTypeTag :: "pheap \<Rightarrow> u64 \<Rightarrow> u64" where
  "getTypeTag h p = (case h p of Some (PString t _ _) \<Rightarrow> t | Some (PSymbol _) \<Rightarrow> 2 | None \<Rightarrow> 0)"

definition str_chars :: "pheap \<Rightarrow> u64 \<Rightarrow> u16 list" where
  "str_chars h p = (case h p of Some (PString _ cs _) \<Rightarrow> cs | _ \<Rightarrow> [])"

definition set_tag :: "pheap \<Rightarrow> u64 \<Rightarrow> u64 \<Rightarrow> pheap" where
  "set_tag h p t = (case h p of Some (PString _ cs v) \<Rightarrow> h(p \<mapsto> PString t cs v) | _ \<Rightarrow> h)"

definition is_view :: "pheap \<Rightarrow> u64 \<Rightarrow> bool" where
  "is_view h p = (case h p of Some (PString _ _ v) \<Rightarrow> v | _ \<Rightarrow> False)"

definition atom_find :: "atom_table \<Rightarrow> u16 list \<Rightarrow> u64 option" where
  "atom_find st cs = List.find (\<lambda>p. str_chars (at_heap st) p = cs) (at_map st)"

section \<open>Operations\<close>

text \<open>The three \<^verbatim>\<open>init\<close> overloads on raw characters: \<open>a\<close> is the address of the new string.\<close>

definition init_chars :: "atom_table \<Rightarrow> u64 \<Rightarrow> u16 list \<Rightarrow> atom_table \<times> u64" where
  "init_chars st a cs =
     (case atom_find st cs of
        None \<Rightarrow> (st\<lparr>at_heap := (at_heap st)(a \<mapsto> PString (1 OR a) cs False),
                    at_map := a # at_map st\<rparr>, a)
      | Some p \<Rightarrow> (st, p))"

text \<open>\<^verbatim>\<open>AtomicString::initStaticString\<close>; its assertion is that the content is not interned yet.\<close>

definition initStaticString :: "atom_table \<Rightarrow> u64 \<Rightarrow> atom_table \<times> u64" where
  "initStaticString st p =
     (st\<lparr>at_heap := set_tag (at_heap st) p (1 OR p), at_map := p # at_map st\<rparr>, p)"

text \<open>\<^verbatim>\<open>AtomicString::init(Context*, String*)\<close>.\<close>

definition init_string :: "atom_table \<Rightarrow> u64 \<Rightarrow> u64 \<Rightarrow> atom_table \<times> u64" where
  "init_string st a p =
     (let h = at_heap st; cs = str_chars h p in
      case atom_find st cs of
        None \<Rightarrow>
          (let (h', q) = (if is_view h p then (h(a \<mapsto> PString 1 cs False), a) else (h, p)) in
           (st\<lparr>at_heap := set_tag h' q (1 OR q), at_map := q # at_map st\<rparr>, q))
      | Some q \<Rightarrow> (st\<lparr>at_heap := set_tag h p (1 OR q)\<rparr>, q))"

text \<open>\<^verbatim>\<open>AtomicString::AtomicString(Context*, String*)\<close>: the tag of an atomized string is a fast path.\<close>

definition atomic_of_string :: "atom_table \<Rightarrow> u64 \<Rightarrow> u64 \<Rightarrow> atom_table \<times> u64" where
  "atomic_of_string st a p =
     (let v = getTypeTag (at_heap st) p in
      if v > 1 then (st, v AND NOT 1) else init_string st a p)"

text \<open>\<^verbatim>\<open>AtomicString::AtomicString(Context*, const StringView&)\<close>: the view is tagged, the new string is not.\<close>

definition atomic_of_view :: "atom_table \<Rightarrow> u64 \<Rightarrow> u64 \<Rightarrow> atom_table \<times> u64" where
  "atomic_of_view st a p =
     (let h = at_heap st; v = getTypeTag h p; cs = str_chars h p in
      if v > 1 then (st, v AND NOT 1)
      else case atom_find st cs of
        None \<Rightarrow> (st\<lparr>at_heap := set_tag (h(a \<mapsto> PString 1 cs False)) p (1 OR a),
                    at_map := a # at_map st\<rparr>, a)
      | Some q \<Rightarrow> (st\<lparr>at_heap := set_tag h p (1 OR q)\<rparr>, q))"

section \<open>Invariant\<close>

definition tag_ok :: "atom_table \<Rightarrow> u64 \<Rightarrow> u16 list \<Rightarrow> bool" where
  "tag_ok st t cs \<longleftrightarrow>
     t = 1 \<or> (\<exists>q \<in> set (at_map st). t = 1 OR q \<and> str_chars (at_heap st) q = cs)"

definition is_string :: "pheap \<Rightarrow> u64 \<Rightarrow> bool" where
  "is_string h p \<longleftrightarrow> (\<exists>t cs v. h p = Some (PString t cs v))"

definition atoms_ok :: "atom_table \<Rightarrow> bool" where
  "atoms_ok st \<longleftrightarrow>
     (\<forall>p. at_heap st p \<noteq> None \<longrightarrow> even p \<and> p \<noteq> 0) \<and>
     (\<forall>p \<in> set (at_map st). is_string (at_heap st) p) \<and>
     inj_on (str_chars (at_heap st)) (set (at_map st)) \<and>
     (\<forall>p t cs v. at_heap st p = Some (PString t cs v) \<longrightarrow> tag_ok st t cs)"

definition fresh_addr :: "atom_table \<Rightarrow> u64 \<Rightarrow> bool" where
  "fresh_addr st a \<longleftrightarrow> at_heap st a = None \<and> even a \<and> a \<noteq> 0"

text \<open>What every operation keeps of the strings already there: contents and interned pointers.\<close>

definition atoms_extend :: "atom_table \<Rightarrow> atom_table \<Rightarrow> bool" where
  "atoms_extend st st' \<longleftrightarrow>
     set (at_map st) \<subseteq> set (at_map st') \<and>
     (\<forall>p. is_string (at_heap st) p \<longrightarrow>
        is_string (at_heap st') p \<and> str_chars (at_heap st') p = str_chars (at_heap st) p) \<and>
     (\<forall>p d. at_heap st p = Some (PSymbol d) \<longrightarrow> at_heap st' p = Some (PSymbol d))"

section \<open>Word and heap lemmas\<close>

lemma tag_gt_one:
  fixes q :: "'a::len word"
  assumes "even q" "q \<noteq> 0"
  shows "1 < (1 OR q)"
proof -
  have eq: "1 OR q = q + 1" using assms(1) by (simp add: one_or_eq)
  have "q + 1 \<noteq> 0" using assms(1) by (metis add_eq_0_iff2 even_plus_one_iff even_zero)
  moreover have "q + 1 \<noteq> 1" using assms(2) by simp
  ultimately have "unat (q + 1) \<noteq> unat (0 :: 'a word)" "unat (q + 1) \<noteq> unat (1 :: 'a word)"
    by (simp_all only: word_unat_eq_iff [symmetric] not_False_eq_True)
  then show ?thesis by (simp add: eq word_less_nat_alt)
qed

lemma tag_and_not_one:
  fixes q :: "'a::len word"
  assumes "even q"
  shows "(1 OR q) AND NOT 1 = q"
proof (rule bit_eqI)
  fix n
  show "bit ((1 OR q) AND NOT 1) n \<longleftrightarrow> bit q n"
    using assms by (cases n) (auto simp: bit_simps bit_0 even_and_iff dest: bit_imp_le_length)
qed

lemma tag_inj:
  fixes p q :: "'a::len word"
  assumes "even p" "even q" "1 OR p = 1 OR q"
  shows "p = q"
  using assms tag_and_not_one by metis

lemma str_chars_upd: "str_chars (h(p \<mapsto> PString t cs v)) q = (if q = p then cs else str_chars h q)"
  by (simp add: str_chars_def)

lemma str_chars_set_tag [simp]: "str_chars (set_tag h p t) q = str_chars h q"
  by (auto simp: str_chars_def set_tag_def split: option.splits pointer_value.splits)

lemma set_tag_None [simp]: "set_tag h p t q = None \<longleftrightarrow> h q = None"
  by (auto simp: set_tag_def split: option.splits pointer_value.splits)

lemma is_string_set_tag [simp]: "is_string (set_tag h p t) q \<longleftrightarrow> is_string h q"
  by (auto simp: is_string_def set_tag_def split: option.splits pointer_value.splits)

lemma set_tag_Some:
  "set_tag h p t q = Some (PString t' cs v) \<Longrightarrow>
     (if q = p then t' = t \<and> (\<exists>u. h p = Some (PString u cs v)) else h q = Some (PString t' cs v))"
  by (auto simp: set_tag_def split: option.splits pointer_value.splits if_splits)

lemma set_tag_symbol [simp]: "set_tag h p t q = Some (PSymbol d) \<longleftrightarrow> h q = Some (PSymbol d)"
  by (auto simp: set_tag_def split: option.splits pointer_value.splits)

lemma is_string_upd: "is_string (h(p \<mapsto> PString t cs v)) q \<longleftrightarrow> q = p \<or> is_string h q"
  by (auto simp: is_string_def)

lemma str_chars_eq: "h p = Some (PString t cs v) \<Longrightarrow> str_chars h p = cs"
  by (simp add: str_chars_def)

lemma atom_find_SomeD:
  "atom_find st cs = Some q \<Longrightarrow> q \<in> set (at_map st) \<and> str_chars (at_heap st) q = cs"
  by (auto simp: atom_find_def find_Some_iff)

lemma atom_find_NoneD:
  "atom_find st cs = None \<Longrightarrow> q \<in> set (at_map st) \<Longrightarrow> str_chars (at_heap st) q \<noteq> cs"
  by (auto simp: atom_find_def find_None_iff)

lemma atoms_okD:
  assumes "atoms_ok st"
  shows "at_heap st p \<noteq> None \<Longrightarrow> even p" "at_heap st p \<noteq> None \<Longrightarrow> p \<noteq> 0"
    and "p \<in> set (at_map st) \<Longrightarrow> is_string (at_heap st) p"
    and "inj_on (str_chars (at_heap st)) (set (at_map st))"
    and "at_heap st p = Some (PString t cs v) \<Longrightarrow> tag_ok st t cs"
  using assms unfolding atoms_ok_def by blast+

lemma is_string_not_None: "is_string h p \<Longrightarrow> h p \<noteq> None"
  by (auto simp: is_string_def)

lemma atom_even:
  "atoms_ok st \<Longrightarrow> p \<in> set (at_map st) \<Longrightarrow> even p"
  "atoms_ok st \<Longrightarrow> p \<in> set (at_map st) \<Longrightarrow> p \<noteq> 0"
  by (auto dest: atoms_okD(3) is_string_not_None atoms_okD(1,2))

text \<open>Reading the tag of a string that was atomized before gives its interned pointer.\<close>

lemma tag_fast_path:
  assumes ok: "atoms_ok st" and s: "is_string (at_heap st) p" and v: "getTypeTag (at_heap st) p > 1"
  shows "(getTypeTag (at_heap st) p AND NOT 1) \<in> set (at_map st)"
    and "str_chars (at_heap st) (getTypeTag (at_heap st) p AND NOT 1) = str_chars (at_heap st) p"
proof -
  from s obtain t cs w where cell: "at_heap st p = Some (PString t cs w)"
    by (auto simp: is_string_def)
  with v have "t \<noteq> 1" by (auto simp: getTypeTag_def)
  with atoms_okD(5) [OF ok cell] obtain q where q: "q \<in> set (at_map st)" "t = 1 OR q"
      "str_chars (at_heap st) q = cs"
    by (auto simp: tag_ok_def)
  have "t AND NOT 1 = q"
    using q(2) atom_even(1) [OF ok q(1)] by (simp only: tag_and_not_one)
  with q cell show "(getTypeTag (at_heap st) p AND NOT 1) \<in> set (at_map st)"
    and "str_chars (at_heap st) (getTypeTag (at_heap st) p AND NOT 1) = str_chars (at_heap st) p"
    by (simp_all add: getTypeTag_def str_chars_def)
qed

section \<open>Every operation keeps the invariant\<close>

text \<open>
  The operations are compositions of three changes of the table: a string is allocated, a
  string whose content is not interned joins the map, the tag of a string is set to an
  interned string of the same content.
\<close>

definition alloc_string :: "atom_table \<Rightarrow> u64 \<Rightarrow> u16 list \<Rightarrow> atom_table" where
  "alloc_string st a cs = st\<lparr>at_heap := (at_heap st)(a \<mapsto> PString 1 cs False)\<rparr>"

definition insert_atom :: "atom_table \<Rightarrow> u64 \<Rightarrow> atom_table" where
  "insert_atom st p = st\<lparr>at_map := p # at_map st\<rparr>"

definition tag_string :: "atom_table \<Rightarrow> u64 \<Rightarrow> u64 \<Rightarrow> atom_table" where
  "tag_string st p q = st\<lparr>at_heap := set_tag (at_heap st) p (1 OR q)\<rparr>"

definition good_ext :: "atom_table \<Rightarrow> atom_table \<Rightarrow> bool" where
  "good_ext st st' \<longleftrightarrow> atoms_ok st' \<and> atoms_extend st st'"

lemma atoms_extend_refl [simp]: "atoms_extend st st"
  by (simp add: atoms_extend_def)

lemma atoms_extend_trans: "atoms_extend a b \<Longrightarrow> atoms_extend b c \<Longrightarrow> atoms_extend a c"
  unfolding atoms_extend_def by (metis subset_trans)

lemma good_ext_trans: "good_ext a b \<Longrightarrow> good_ext b c \<Longrightarrow> good_ext a c"
  unfolding good_ext_def by (blast intro: atoms_extend_trans)

lemma good_ext_refl: "atoms_ok st \<Longrightarrow> good_ext st st"
  by (simp add: good_ext_def)

lemma fresh_not_atom: "atoms_ok st \<Longrightarrow> fresh_addr st a \<Longrightarrow> a \<notin> set (at_map st)"
  using atoms_okD(3) [of st a] by (auto simp: is_string_def fresh_addr_def)

lemma alloc_string_good:
  assumes ok: "atoms_ok st" and fr: "fresh_addr st a"
  shows "good_ext st (alloc_string st a cs)"
proof -
  have a: "at_heap st a = None" "even a" "a \<noteq> 0" using fr by (auto simp: fresh_addr_def)
  have notin: "a \<notin> set (at_map st)" by (rule fresh_not_atom [OF ok fr])
  have keep: "str_chars ((at_heap st)(a \<mapsto> PString 1 cs False)) q = str_chars (at_heap st) q"
    if "q \<noteq> a" for q
    using that by (simp add: str_chars_upd)
  have inj: "inj_on (str_chars ((at_heap st)(a \<mapsto> PString 1 cs False))) (set (at_map st))"
    using atoms_okD(4) [OF ok] notin keep by (metis inj_on_cong)
  have tags: "tag_ok (alloc_string st a cs) t c"
    if "at_heap (alloc_string st a cs) p = Some (PString t c v)" for p t c v
  proof (cases "p = a")
    case True
    with that show ?thesis by (simp add: alloc_string_def tag_ok_def)
  next
    case False
    with that have "tag_ok st t c" by (auto simp: alloc_string_def intro: atoms_okD(5) [OF ok])
    then show ?thesis using notin keep unfolding tag_ok_def alloc_string_def by simp metis
  qed
  have "atoms_ok (alloc_string st a cs)"
    unfolding atoms_ok_def
  proof (intro conjI allI impI ballI)
    fix p assume "at_heap (alloc_string st a cs) p \<noteq> None"
    then show "even p" "p \<noteq> 0"
      using a atoms_okD(1,2) [OF ok, of p] by (auto simp: alloc_string_def split: if_splits)
  qed (use inj tags atoms_okD(3) [OF ok] in
      \<open>auto simp: alloc_string_def is_string_upd\<close>)
  moreover have "atoms_extend st (alloc_string st a cs)"
    using a(1) keep by (auto simp: atoms_extend_def alloc_string_def is_string_def)
  ultimately show ?thesis by (simp add: good_ext_def)
qed

lemma insert_atom_good:
  assumes ok: "atoms_ok st" and s: "is_string (at_heap st) p"
    and new: "atom_find st (str_chars (at_heap st) p) = None"
  shows "good_ext st (insert_atom st p)"
proof -
  have "str_chars (at_heap st) p \<notin> str_chars (at_heap st) ` set (at_map st)"
    using atom_find_NoneD [OF new] by (metis imageE)
  then have "inj_on (str_chars (at_heap st)) (insert p (set (at_map st)))"
    using atoms_okD(4) [OF ok] by (auto simp: inj_on_insert)
  moreover have "tag_ok (insert_atom st p) t cs" if "tag_ok st t cs" for t cs
    using that by (auto simp: tag_ok_def insert_atom_def)
  ultimately have "atoms_ok (insert_atom st p)"
    using ok s unfolding atoms_ok_def insert_atom_def by auto
  then show ?thesis by (auto simp: good_ext_def atoms_extend_def insert_atom_def)
qed

lemma tag_string_good:
  assumes ok: "atoms_ok st" and q: "q \<in> set (at_map st)"
    and same: "str_chars (at_heap st) q = str_chars (at_heap st) p"
  shows "good_ext st (tag_string st p q)"
proof -
  have tags: "tag_ok (tag_string st p q) t cs"
    if c: "at_heap (tag_string st p q) r = Some (PString t cs v)" for r t cs v
  proof (cases "r = p")
    case True
    with c obtain u where "t = 1 OR q" "at_heap st p = Some (PString u cs v)"
      using set_tag_Some [of "at_heap st" p "1 OR q" r t cs v] by (auto simp: tag_string_def)
    with q same show ?thesis
      by (auto simp: tag_ok_def tag_string_def str_chars_eq)
  next
    case False
    with c have "at_heap st r = Some (PString t cs v)"
      using set_tag_Some [of "at_heap st" p "1 OR q" r t cs v] by (auto simp: tag_string_def)
    from atoms_okD(5) [OF ok this] show ?thesis
      by (simp add: tag_ok_def tag_string_def)
  qed
  have "atoms_ok (tag_string st p q)"
    unfolding atoms_ok_def
  proof (intro conjI allI impI ballI)
    fix r assume "at_heap (tag_string st p q) r \<noteq> None"
    then show "even r" "r \<noteq> 0"
      using atoms_okD(1,2) [OF ok, of r] by (auto simp: tag_string_def)
  next
    show "inj_on (str_chars (at_heap (tag_string st p q))) (set (at_map (tag_string st p q)))"
      using atoms_okD(4) [OF ok] by (simp add: tag_string_def inj_on_def)
  qed (use tags atoms_okD(3) [OF ok] in \<open>auto simp: tag_string_def\<close>)
  moreover have "atoms_extend st (tag_string st p q)"
    by (simp add: atoms_extend_def tag_string_def)
  ultimately show ?thesis by (simp add: good_ext_def)
qed

section \<open>Interning as an interface\<close>

text \<open>
  What the clients of \<^verbatim>\<open>AtomicString\<close> rely on, for every constructor: the result is an interned
  pointer that carries the characters of the source, and the table only grows.
\<close>

locale string_interner =
  fixes intern :: "atom_table \<Rightarrow> u64 \<Rightarrow> 'x \<Rightarrow> atom_table \<times> u64"
    and pre :: "atom_table \<Rightarrow> 'x \<Rightarrow> bool"
    and source_text :: "atom_table \<Rightarrow> 'x \<Rightarrow> u16 list"
  assumes interned: "atoms_ok st \<Longrightarrow> fresh_addr st a \<Longrightarrow> pre st x \<Longrightarrow> intern st a x = (st', q) \<Longrightarrow>
      good_ext st st' \<and> q \<in> set (at_map st') \<and>
      str_chars (at_heap st') q = source_text st x"
begin

lemma intern_pointer_eq:
  assumes 1: "atoms_ok st" "fresh_addr st a" "pre st x" "intern st a x = (st1, q1)"
    and 2: "good_ext st1 st2" "fresh_addr st2 b" "pre st2 y" "intern st2 b y = (st3, q2)"
  shows "q1 = q2 \<longleftrightarrow> source_text st x = source_text st2 y"
proof -
  from interned [OF 1] have q1: "q1 \<in> set (at_map st1)"
      "str_chars (at_heap st1) q1 = source_text st x" and ok1: "atoms_ok st1"
    by (auto simp: good_ext_def)
  have ok2: "atoms_ok st2" using 2(1) by (simp add: good_ext_def)
  from interned [OF ok2 2(2-4)] have g: "good_ext st2 st3" and q2: "q2 \<in> set (at_map st3)"
      "str_chars (at_heap st3) q2 = source_text st2 y" by auto
  from good_ext_trans [OF 2(1) g] have ext: "atoms_extend st1 st3" and ok3: "atoms_ok st3"
    by (auto simp: good_ext_def)
  have "q1 \<in> set (at_map st3)" "str_chars (at_heap st3) q1 = source_text st x"
    using ext q1 atoms_okD(3) [OF ok1 q1(1)] by (auto simp: atoms_extend_def)
  with q2 atoms_okD(4) [OF ok3] show ?thesis by (metis inj_onD)
qed

end

lemma atom_find_alloc:
  assumes "atoms_ok st" "fresh_addr st a"
  shows "atom_find (alloc_string st a cs) c = None \<longleftrightarrow> atom_find st c = None"
  using fresh_not_atom [OF assms]
  by (auto simp: atom_find_def find_None_iff alloc_string_def str_chars_upd)

text \<open>Interning a string that is already allocated: insert it and tag it with itself.\<close>

lemma insert_and_tag:
  assumes ok: "atoms_ok st" and s: "is_string (at_heap st) p"
    and new: "atom_find st (str_chars (at_heap st) p) = None"
  shows "good_ext st (tag_string (insert_atom st p) p p)"
proof -
  have g: "good_ext st (insert_atom st p)" by (rule insert_atom_good [OF ok s new])
  have "good_ext (insert_atom st p) (tag_string (insert_atom st p) p p)"
    using g by (intro tag_string_good) (auto simp: good_ext_def insert_atom_def)
  with g show ?thesis by (rule good_ext_trans)
qed

lemma alloc_then:
  assumes ok: "atoms_ok st" and fr: "fresh_addr st a" and new: "atom_find st cs = None"
  shows "good_ext st (alloc_string st a cs)" "is_string (at_heap (alloc_string st a cs)) a"
    and "str_chars (at_heap (alloc_string st a cs)) a = cs"
    and "atom_find (alloc_string st a cs) cs = None"
  using alloc_string_good [OF ok fr] atom_find_alloc [OF ok fr] new
  by (auto simp: alloc_string_def is_string_def str_chars_def)

lemma init_chars_interned:
  assumes ok: "atoms_ok st" and fr: "fresh_addr st a" and r: "init_chars st a cs = (st', q)"
  shows "good_ext st st' \<and> q \<in> set (at_map st') \<and> str_chars (at_heap st') q = cs"
proof (cases "atom_find st cs")
  case None
  note al = alloc_then [OF ok fr None]
  have g: "good_ext (alloc_string st a cs) (tag_string (insert_atom (alloc_string st a cs) a) a a)"
    using al by (intro insert_and_tag) (auto simp: good_ext_def)
  have "st' = tag_string (insert_atom (alloc_string st a cs) a) a a" "q = a"
    using r None by (auto simp: init_chars_def tag_string_def insert_atom_def alloc_string_def
        set_tag_def)
  with good_ext_trans [OF al(1) g] show ?thesis
    by (simp add: tag_string_def insert_atom_def alloc_string_def str_chars_upd)
next
  case (Some p)
  with r have "st' = st" "q = p" by (auto simp: init_chars_def)
  with atom_find_SomeD [OF Some] show ?thesis by (simp add: good_ext_refl [OF ok])
qed

lemma init_string_interned:
  assumes ok: "atoms_ok st" and fr: "fresh_addr st a" and s: "is_string (at_heap st) p"
    and r: "init_string st a p = (st', q)"
  shows "good_ext st st' \<and> q \<in> set (at_map st') \<and>
    str_chars (at_heap st') q = str_chars (at_heap st) p"
proof (cases "atom_find st (str_chars (at_heap st) p)")
  case None
  let ?cs = "str_chars (at_heap st) p"
  show ?thesis
  proof (cases "is_view (at_heap st) p")
    case True
    note al = alloc_then [OF ok fr None]
    have g: "good_ext (alloc_string st a ?cs)
        (tag_string (insert_atom (alloc_string st a ?cs) a) a a)"
      using al by (intro insert_and_tag) (auto simp: good_ext_def)
    have "st' = tag_string (insert_atom (alloc_string st a ?cs) a) a a" "q = a"
      using r None True by (auto simp: init_string_def Let_def tag_string_def insert_atom_def
          alloc_string_def)
    with good_ext_trans [OF al(1) g] show ?thesis
      by (simp add: tag_string_def insert_atom_def alloc_string_def str_chars_upd)
  next
    case False
    have "st' = tag_string (insert_atom st p) p p" "q = p"
      using r None False by (auto simp: init_string_def Let_def tag_string_def insert_atom_def)
    with insert_and_tag [OF ok s None] show ?thesis
      by (simp add: tag_string_def insert_atom_def)
  qed
next
  case (Some p')
  with r have "st' = tag_string st p p'" "q = p'"
    by (auto simp: init_string_def Let_def tag_string_def)
  with tag_string_good [OF ok, of p' p] atom_find_SomeD [OF Some] show ?thesis
    by (simp add: tag_string_def)
qed

lemma atomic_of_string_interned:
  assumes ok: "atoms_ok st" and fr: "fresh_addr st a" and s: "is_string (at_heap st) p"
    and r: "atomic_of_string st a p = (st', q)"
  shows "good_ext st st' \<and> q \<in> set (at_map st') \<and>
    str_chars (at_heap st') q = str_chars (at_heap st) p"
proof (cases "getTypeTag (at_heap st) p > 1")
  case True
  with r have "st' = st" "q = getTypeTag (at_heap st) p AND NOT 1"
    by (auto simp: atomic_of_string_def Let_def)
  with tag_fast_path [OF ok s True] show ?thesis by (simp add: good_ext_refl [OF ok])
next
  case False
  with r show ?thesis
    by (intro init_string_interned [OF ok fr s]) (simp add: atomic_of_string_def Let_def)
qed

lemma atomic_of_view_interned:
  assumes ok: "atoms_ok st" and fr: "fresh_addr st a" and s: "is_string (at_heap st) p"
    and r: "atomic_of_view st a p = (st', q)"
  shows "good_ext st st' \<and> q \<in> set (at_map st') \<and>
    str_chars (at_heap st') q = str_chars (at_heap st) p"
proof (cases "getTypeTag (at_heap st) p > 1")
  case True
  with r have "st' = st" "q = getTypeTag (at_heap st) p AND NOT 1"
    by (auto simp: atomic_of_view_def Let_def)
  with tag_fast_path [OF ok s True] show ?thesis by (simp add: good_ext_refl [OF ok])
next
  case slow: False
  let ?cs = "str_chars (at_heap st) p"
  show ?thesis
  proof (cases "atom_find st ?cs")
    case None
    let ?s1 = "alloc_string st a ?cs"
    note al = alloc_then [OF ok fr None]
    have ne: "p \<noteq> a" using s fr by (auto simp: is_string_def fresh_addr_def)
    have g2: "good_ext ?s1 (insert_atom ?s1 a)"
      using al by (intro insert_atom_good) (auto simp: good_ext_def)
    have g3: "good_ext (insert_atom ?s1 a) (tag_string (insert_atom ?s1 a) p a)"
      using g2 al(3) ne by (intro tag_string_good)
        (auto simp: good_ext_def insert_atom_def alloc_string_def str_chars_upd)
    have "st' = tag_string (insert_atom ?s1 a) p a" "q = a"
      using r None slow by (auto simp: atomic_of_view_def Let_def tag_string_def insert_atom_def
          alloc_string_def)
    with good_ext_trans [OF good_ext_trans [OF al(1) g2] g3] show ?thesis
      by (simp add: tag_string_def insert_atom_def alloc_string_def str_chars_upd)
  next
    case (Some p')
    with r slow have "st' = tag_string st p p'" "q = p'"
      by (auto simp: atomic_of_view_def Let_def tag_string_def)
    with tag_string_good [OF ok, of p' p] atom_find_SomeD [OF Some] show ?thesis
      by (simp add: tag_string_def)
  qed
qed

text \<open>
  All constructors of \<^verbatim>\<open>AtomicString\<close> behind one entry point, so that the interface speaks of
  mixed sequences of calls.
\<close>

datatype atom_source = FromChars "u16 list" | FromString u64 | FromView u64

fun atomize :: "atom_table \<Rightarrow> u64 \<Rightarrow> atom_source \<Rightarrow> atom_table \<times> u64" where
  "atomize st a (FromChars cs) = init_chars st a cs"
| "atomize st a (FromString p) = atomic_of_string st a p"
| "atomize st a (FromView p) = atomic_of_view st a p"

fun source_ok :: "atom_table \<Rightarrow> atom_source \<Rightarrow> bool" where
  "source_ok st (FromChars cs) = True"
| "source_ok st (FromString p) = is_string (at_heap st) p"
| "source_ok st (FromView p) = is_string (at_heap st) p"

fun source_chars :: "atom_table \<Rightarrow> atom_source \<Rightarrow> u16 list" where
  "source_chars st (FromChars cs) = cs"
| "source_chars st (FromString p) = str_chars (at_heap st) p"
| "source_chars st (FromView p) = str_chars (at_heap st) p"

interpretation atomize: string_interner atomize source_ok source_chars
proof
  fix st st' a q and x :: atom_source
  assume "atoms_ok st" "fresh_addr st a" "source_ok st x" "atomize st a x = (st', q)"
  then show "good_ext st st' \<and> q \<in> set (at_map st') \<and>
      str_chars (at_heap st') q = source_chars st x"
    by (cases x) (auto dest: init_chars_interned atomic_of_string_interned
        atomic_of_view_interned)
qed

lemma initStaticString_good:
  assumes "atoms_ok st" "is_string (at_heap st) p"
    and "atom_find st (str_chars (at_heap st) p) = None"
    and "initStaticString st p = (st', q)"
  shows "good_ext st st' \<and> q = p"
proof -
  have "st' = tag_string (insert_atom st p) p p" "q = p"
    using assms(4) by (auto simp: initStaticString_def tag_string_def insert_atom_def)
  with insert_and_tag [OF assms(1-3)] show ?thesis by simp
qed

section \<open>Interning is sound and complete\<close>

text \<open>A table with one interned string, one copy of its text and one other string.\<close>

definition sample_table :: atom_table where
  "sample_table = \<lparr>at_heap = [16 \<mapsto> PString 17 [97, 98] False, 32 \<mapsto> PString 1 [97, 98] False,
     48 \<mapsto> PString 1 [99] True], at_map = [16]\<rparr>"

lemma sample_table_ok: "atoms_ok sample_table"
  by (auto simp: atoms_ok_def sample_table_def is_string_def tag_ok_def str_chars_def
      split: if_splits)

text \<open>
  C8. Interning. Run any two atomizations, from raw characters, from a string or from a string
  view, the second in any later state of the table: the two resulting pointers are equal
  exactly when the characters of the two sources are equal. So comparing atomic strings by
  pointer (\<^verbatim>\<open>operator==\<close> of \<^verbatim>\<open>AtomicString\<close>) is comparing their contents.
\<close>

theorem atomize_pointer_eq_iff_text_eq:
  assumes "atoms_ok st" "fresh_addr st a" "source_ok st x" "atomize st a x = (st1, q1)"
    and "good_ext st1 st2" "fresh_addr st2 b" "source_ok st2 y" "atomize st2 b y = (st3, q2)"
  shows "q1 = q2 \<longleftrightarrow> source_chars st x = source_chars st2 y"
  by (rule atomize.intern_pointer_eq [OF assms])

theorem atomize_pointer_eq_witness:
  "let (st1, q1) = atomize sample_table 64 (FromString 32);
       (st3, q2) = atomize st1 80 (FromChars [97, 98]);
       (st5, q3) = atomize st1 96 (FromView 48)
   in q1 = q2 \<and> q1 \<noteq> q3 \<and> q1 = 16"
proof -
  obtain st1 q1 where 1: "atomize sample_table 64 (FromString 32) = (st1, q1)" by force
  obtain st3 q2 where 2: "atomize st1 80 (FromChars [97, 98]) = (st3, q2)" by force
  obtain st5 q3 where 3: "atomize st1 96 (FromView 48) = (st5, q3)" by force
  have st1: "st1 = sample_table\<lparr>at_heap := (at_heap sample_table)(32 \<mapsto> PString 17 [97, 98] False)\<rparr>"
    and q1: "q1 = 16"
    using 1 by (auto simp: Let_def atomic_of_string_def getTypeTag_def sample_table_def init_string_def
        atom_find_def str_chars_def set_tag_def)
  have pre: "fresh_addr sample_table 64" "source_ok sample_table (FromString 32)"
    by (auto simp: fresh_addr_def sample_table_def is_string_def)
  have g1: "good_ext st1 st1"
    using atomize.interned [OF sample_table_ok pre 1] by (auto simp: good_ext_def)
  have f: "fresh_addr st1 80" "fresh_addr st1 96" "source_ok st1 (FromView 48)"
    by (auto simp: st1 fresh_addr_def sample_table_def is_string_def)
  have "q1 = q2"
    using atomize_pointer_eq_iff_text_eq [OF sample_table_ok pre 1 g1 f(1) _ 2]
    by (simp add: sample_table_def str_chars_def)
  moreover have "q1 \<noteq> q3"
    using atomize_pointer_eq_iff_text_eq [OF sample_table_ok pre 1 g1 f(2,3) 3]
    by (simp add: st1 sample_table_def str_chars_def)
  ultimately show ?thesis using 1 2 3 q1 by simp
qed

end
