(* ===== verification/Property_Name.thy ===== *)
theory Property_Name
  imports Atomic_String
begin

text \<open>
  Property names of \<^verbatim>\<open>runtime/ObjectStructurePropertyName.h\<close>: one machine word that is either
  the address of an interned string with its lowest bit set, or the plain address of a string
  or of a symbol. The theory models the constructors, the predicates, the two \<^verbatim>\<open>operator==\<close> and
  \<^verbatim>\<open>hashValue\<close>, and shows that equality of names is equality of the property keys they denote.
\<close>

section \<open>Operations\<close>

type_synonym pname = u64

definition hasAtomicString :: "pname \<Rightarrow> bool" where
  "hasAtomicString d \<longleftrightarrow> d AND 1 \<noteq> 0"

definition pv_isSymbol :: "pheap \<Rightarrow> u64 \<Rightarrow> bool" where
  "pv_isSymbol h p \<longleftrightarrow> getTypeTag h p = 2"

definition name_isSymbol :: "pheap \<Rightarrow> pname \<Rightarrow> bool" where
  "name_isSymbol h d \<longleftrightarrow> (if hasAtomicString d then False else pv_isSymbol h d)"

definition isPlainString :: "pheap \<Rightarrow> pname \<Rightarrow> bool" where
  "isPlainString h d \<longleftrightarrow>
     (if hasAtomicString d then True else if pv_isSymbol h d then False else True)"

definition plainString :: "pname \<Rightarrow> u64" where
  "plainString d = (if hasAtomicString d then d - 1 else d)"

definition asAtomicString :: "pname \<Rightarrow> u64" where
  "asAtomicString d = d - 1"

definition name_of_atomic :: "u64 \<Rightarrow> pname" where
  "name_of_atomic p = p OR 1"

definition name_of_symbol :: "u64 \<Rightarrow> pname" where
  "name_of_symbol p = p"

text \<open>
  The index test on string contents. On the empty string the source reads \<^verbatim>\<open>charAt(0)\<close>, one
  unit past the end of the buffer; the read is taken to give NUL.
\<close>

definition charAt :: "u16 list \<Rightarrow> nat \<Rightarrow> u16" where
  "charAt s i = (if i < length s then s ! i else 0)"

definition isIndexString :: "u16 list \<Rightarrow> bool" where
  "isIndexString s =
     (if length s = 1 then \<not> (charAt s 0 < 0x30 \<or> charAt s 0 > 0x39)
      else if charAt s 0 < 0x31 \<or> charAt s 0 > 0x39 then False
      else (\<forall>i \<in> set [1..<length s]. \<not> (charAt s i < 0x30 \<or> charAt s i > 0x39)))"

definition name_isIndexString :: "pheap \<Rightarrow> pname \<Rightarrow> bool" where
  "name_isIndexString h d \<longleftrightarrow> isPlainString h d \<and> isIndexString (str_chars h (plainString d))"

text \<open>\<^verbatim>\<open>operator==(ObjectStructurePropertyName, ObjectStructurePropertyName)\<close>.\<close>

definition name_eq :: "pheap \<Rightarrow> pname \<Rightarrow> pname \<Rightarrow> bool" where
  "name_eq h a b =
     (let aa = hasAtomicString a; ab = hasAtomicString b in
      if aa \<and> ab then a = b
      else let sa = \<not> aa \<and> pv_isSymbol h a; sb = \<not> ab \<and> pv_isSymbol h b in
        if sa \<and> sb then a = b
        else if \<not> sa \<and> \<not> sb then str_chars h (plainString a) = str_chars h (plainString b)
        else False)"

text \<open>\<^verbatim>\<open>operator==(ObjectStructurePropertyName, AtomicString)\<close>.\<close>

definition name_eq_atomic :: "pheap \<Rightarrow> pname \<Rightarrow> u64 \<Rightarrow> bool" where
  "name_eq_atomic h a b =
     (if hasAtomicString a then asAtomicString a = b
      else if \<not> pv_isSymbol h a then str_chars h (plainString a) = str_chars h b
      else False)"

text \<open>\<^verbatim>\<open>String::stringHash\<close> and \<^verbatim>\<open>String::hashValue\<close>, with the wrap-around of \<^verbatim>\<open>size_t\<close>.\<close>

definition stringHash :: "u16 list \<Rightarrow> u64" where
  "stringHash cs = fold (\<lambda>c hash. hash * 131 + ucast c) cs 0xc70f6907"

definition string_hashValue :: "u16 list \<Rightarrow> u64" where
  "string_hashValue cs = (let hash = stringHash cs in if hash mod 8 = 0 then hash + 1 else hash)"

text \<open>\<^verbatim>\<open>hashValue\<close>; \<open>ptr_hash\<close> is \<^verbatim>\<open>std::hash<size_t*>\<close>.\<close>

definition name_hashValue :: "(u64 \<Rightarrow> u64) \<Rightarrow> pheap \<Rightarrow> pname \<Rightarrow> u64" where
  "name_hashValue ptr_hash h d =
     (if hasAtomicString d then ptr_hash (asAtomicString d)
      else if pv_isSymbol h d then d
      else string_hashValue (str_chars h d))"

text \<open>
  \<^verbatim>\<open>ObjectStructurePropertyName(ExecutionState&, const Value&)\<close> on a string or a symbol, the
  results of \<^verbatim>\<open>ToPrimitive\<close>. \<open>empty_str\<close> is \<^verbatim>\<open>String::emptyString\<close>, \<open>ascii\<close> the table of interned
  one-character strings and \<open>a\<close> the address of a string allocated on the way.
\<close>

definition name_of_value ::
    "u64 \<Rightarrow> (u16 \<Rightarrow> u64) \<Rightarrow> atom_table \<Rightarrow> u64 \<Rightarrow> u64 \<Rightarrow> atom_table \<times> pname" where
  "name_of_value empty_str ascii st a p =
     (let h = at_heap st in
      if pv_isSymbol h p then (st, p)
      else let v = getTypeTag h p in
        if v > 1 then (st, v)
        else let cs = str_chars h p in
          if length cs = 0 then (st, empty_str OR 1)
          else let c = cs ! 0 in
            if (c = 0x2E \<or> c \<ge> 0x30 \<and> c \<le> 0x39) \<and> length cs > 16 then (st, p)
            else if c < 256 \<and> length cs = 1 then (st, ascii c OR 1)
            else let (st', q) = atomic_of_string st a p in (st', q OR 1))"

section \<open>Keys\<close>

text \<open>What a name stands for: a string by content or a symbol by identity.\<close>

datatype property_key = KString "u16 list" | KSymbol u64

definition key_of :: "pheap \<Rightarrow> pname \<Rightarrow> property_key" where
  "key_of h d = (if isPlainString h d then KString (str_chars h (plainString d)) else KSymbol d)"

definition name_ok :: "atom_table \<Rightarrow> pname \<Rightarrow> bool" where
  "name_ok st d \<longleftrightarrow> atoms_ok st \<and>
     (if hasAtomicString d then d - 1 \<in> set (at_map st) else at_heap st d \<noteq> None)"

lemma hasAtomicString_odd [name_simps]: "hasAtomicString d \<longleftrightarrow> odd d"
  by (simp add: hasAtomicString_def word_and_one_eq)

lemma pv_isSymbol_iff:
  assumes "atoms_ok st" "at_heap st p \<noteq> None"
  shows "pv_isSymbol (at_heap st) p \<longleftrightarrow> (\<exists>d. at_heap st p = Some (PSymbol d))"
proof (cases "at_heap st p")
  case (Some c)
  show ?thesis
  proof (cases c)
    case (PString t cs v)
    have "odd t"
      using atoms_okD(5) [OF assms(1), of p t cs v] Some PString
      by (auto simp: tag_ok_def even_or_iff)
    then have "t \<noteq> 2" by auto
    with Some PString show ?thesis by (simp add: pv_isSymbol_def getTypeTag_def)
  qed (use Some in \<open>simp add: pv_isSymbol_def getTypeTag_def\<close>)
qed (use assms in simp)

lemma key_of_atomic [name_simps]:
  "hasAtomicString d \<Longrightarrow> key_of h d = KString (str_chars h (d - 1))"
  by (simp add: key_of_def isPlainString_def plainString_def)

lemma key_of_plain [name_simps]:
  "\<not> hasAtomicString d \<Longrightarrow>
     key_of h d = (if pv_isSymbol h d then KSymbol d else KString (str_chars h d))"
  by (simp add: key_of_def isPlainString_def plainString_def)

lemma name_eq_key:
  assumes a: "name_ok st a" and b: "name_ok st b"
  shows "name_eq (at_heap st) a b \<longleftrightarrow> key_of (at_heap st) a = key_of (at_heap st) b"
proof (cases "hasAtomicString a \<and> hasAtomicString b")
  case True
  with a b have "a - 1 \<in> set (at_map st)" "b - 1 \<in> set (at_map st)" "atoms_ok st"
    by (auto simp: name_ok_def)
  then have "str_chars (at_heap st) (a - 1) = str_chars (at_heap st) (b - 1) \<longleftrightarrow> a - 1 = b - 1"
    using atoms_okD(4) by (metis inj_onD)
  with True show ?thesis by (simp add: name_eq_def key_of_atomic)
next
  case False
  then show ?thesis
    by (auto simp: name_eq_def Let_def key_of_def isPlainString_def plainString_def)
qed

lemma name_eq_atomic_key:
  assumes a: "name_ok st a" and b: "name_ok st b" and at: "hasAtomicString b"
  shows "name_eq_atomic (at_heap st) a (asAtomicString b) \<longleftrightarrow>
    key_of (at_heap st) a = key_of (at_heap st) b"
proof (cases "hasAtomicString a")
  case True
  with name_eq_key [OF a b] at show ?thesis
    by (simp add: name_eq_atomic_def asAtomicString_def name_eq_def)
next
  case False
  with at show ?thesis
    by (auto simp: name_eq_atomic_def asAtomicString_def key_of_def isPlainString_def plainString_def)
qed

section \<open>The interface the object structures use\<close>

locale property_names =
  fixes eq :: "'n \<Rightarrow> 'n \<Rightarrow> bool"
    and eq_atomic :: "'n \<Rightarrow> 'n \<Rightarrow> bool"
    and atomic :: "'n \<Rightarrow> bool"
    and symbol :: "'n \<Rightarrow> bool"
    and key :: "'n \<Rightarrow> 'k"
    and ok :: "'n \<Rightarrow> bool"
  assumes eq_key: "ok a \<Longrightarrow> ok b \<Longrightarrow> eq a b \<longleftrightarrow> key a = key b"
    and eq_atomic_key: "ok a \<Longrightarrow> ok b \<Longrightarrow> atomic b \<Longrightarrow> eq_atomic a b \<longleftrightarrow> key a = key b"
    and raw_key: "ok a \<Longrightarrow> ok b \<Longrightarrow> atomic a \<Longrightarrow> atomic b \<Longrightarrow> a = b \<longleftrightarrow> key a = key b"
    and symbol_key: "ok a \<Longrightarrow> ok b \<Longrightarrow> key a = key b \<Longrightarrow> symbol a \<longleftrightarrow> symbol b"
begin

text \<open>
  The search of \<^verbatim>\<open>findProperty\<close> over a list of names, with its flags: pointer comparison when
  every name is atomic, no search at all for a symbol when no name is a symbol.
\<close>

definition fast_find :: "bool \<Rightarrow> bool \<Rightarrow> 'n list \<Rightarrow> 'n \<Rightarrow> nat option" where
  "fast_find has_non_atomic has_symbol xs s =
     (if atomic s then
        if \<not> has_non_atomic then find_index (\<lambda>x. x = s) xs
        else find_index (\<lambda>x. eq_atomic x s) xs
      else if symbol s then
        if has_symbol then find_index (\<lambda>x. eq x s) xs else None
      else find_index (\<lambda>x. eq x s) xs)"

lemma fast_find_eq_key_search:
  assumes s: "ok s" and xs: "\<forall>x \<in> set xs. ok x"
    and na: "\<not> has_non_atomic \<Longrightarrow> \<forall>x \<in> set xs. atomic x"
    and sy: "\<not> has_symbol \<Longrightarrow> \<forall>x \<in> set xs. \<not> symbol x"
  shows "fast_find has_non_atomic has_symbol xs s = find_index (\<lambda>x. key x = key s) xs"
proof -
  have eq: "find_index (\<lambda>x. eq x s) xs = find_index (\<lambda>x. key x = key s) xs"
    using xs s by (intro find_index_cong) (auto simp: eq_key)
  have "find_index (\<lambda>x. key x = key s) xs = None" if "symbol s" "\<not> has_symbol"
    unfolding find_index_None_iff using that sy xs s symbol_key by blast
  moreover have "find_index (\<lambda>x. x = s) xs = find_index (\<lambda>x. key x = key s) xs"
    if "atomic s" "\<not> has_non_atomic"
  proof (rule find_index_cong)
    fix x assume "x \<in> set xs"
    then have "ok x" "atomic x" using xs na that(2) by auto
    then show "(x = s) = (key x = key s)" using s that(1) raw_key by blast
  qed
  moreover have "find_index (\<lambda>x. eq_atomic x s) xs = find_index (\<lambda>x. key x = key s) xs"
    if "atomic s"
    using that xs s by (intro find_index_cong) (simp add: eq_atomic_key)
  ultimately show ?thesis by (simp add: fast_find_def eq)
qed

end

interpretation pname: property_names
  "name_eq (at_heap st)" "\<lambda>a b. name_eq_atomic (at_heap st) a (asAtomicString b)"
  hasAtomicString "name_isSymbol (at_heap st)" "key_of (at_heap st)" "name_ok st"
  for st
proof
  fix a b assume ab: "name_ok st a" "name_ok st b"
  show "name_eq (at_heap st) a b \<longleftrightarrow> key_of (at_heap st) a = key_of (at_heap st) b"
    using ab by (rule name_eq_key)
  show "hasAtomicString b \<Longrightarrow> name_eq_atomic (at_heap st) a (asAtomicString b) \<longleftrightarrow>
      key_of (at_heap st) a = key_of (at_heap st) b"
    using ab by (rule name_eq_atomic_key)
  show "a = b \<longleftrightarrow> key_of (at_heap st) a = key_of (at_heap st) b"
    if "hasAtomicString a" "hasAtomicString b"
    using name_eq_key [OF ab] that by (simp add: name_eq_def)
  show "name_isSymbol (at_heap st) a \<longleftrightarrow> name_isSymbol (at_heap st) b"
    if "key_of (at_heap st) a = key_of (at_heap st) b"
    using that by (auto simp: key_of_def name_isSymbol_def isPlainString_def split: if_splits)
qed

section \<open>Names made from values\<close>

text \<open>
  The static strings a context sets up: the empty string and the one-character strings are
  interned.
\<close>

definition statics_ok :: "u64 \<Rightarrow> (u16 \<Rightarrow> u64) \<Rightarrow> atom_table \<Rightarrow> bool" where
  "statics_ok empty_str ascii st \<longleftrightarrow>
     empty_str \<in> set (at_map st) \<and> str_chars (at_heap st) empty_str = [] \<and>
     (\<forall>c < 256. ascii c \<in> set (at_map st) \<and> str_chars (at_heap st) (ascii c) = [c])"

text \<open>
  \<^verbatim>\<open>StaticStrings::initStaticStrings\<close> fills the table of one-character strings: the lower half
  through \<^verbatim>\<open>AtomicString::init\<close>, the upper half through \<^verbatim>\<open>initStaticString\<close> on new Latin-1
  strings. \<open>addr i\<close> is the address the collector gives the \<open>i\<close>-th string.
\<close>

definition init_ascii_entry ::
    "(nat \<Rightarrow> u64) \<Rightarrow> nat \<Rightarrow> atom_table \<times> (u16 \<Rightarrow> u64) \<Rightarrow> atom_table \<times> (u16 \<Rightarrow> u64)" where
  "init_ascii_entry addr i s =
     (let (st', q) = (if i < 128 then init_chars (fst s) (addr i) [of_nat i]
                      else initStaticString (alloc_string (fst s) (addr i) [of_nat i]) (addr i))
      in (st', (snd s)(of_nat i := q)))"

definition init_asciiTable ::
    "(nat \<Rightarrow> u64) \<Rightarrow> atom_table \<Rightarrow> (u16 \<Rightarrow> u64) \<Rightarrow> atom_table \<times> (u16 \<Rightarrow> u64)" where
  "init_asciiTable addr st tbl = fold (init_ascii_entry addr) [0..<256] (st, tbl)"

definition ascii_inv :: "(nat \<Rightarrow> u64) \<Rightarrow> atom_table \<Rightarrow> nat \<Rightarrow> atom_table \<times> (u16 \<Rightarrow> u64) \<Rightarrow> bool" where
  "ascii_inv addr st n s \<longleftrightarrow>
     good_ext st (fst s) \<and>
     (\<forall>p. at_heap (fst s) p \<noteq> None \<longrightarrow> at_heap st p \<noteq> None \<or> p \<in> addr ` {0..<n}) \<and>
     (\<forall>q \<in> set (at_map (fst s)). q \<in> set (at_map st) \<or>
        (\<exists>i < n. str_chars (at_heap (fst s)) q = [of_nat i])) \<and>
     (\<forall>i < n. snd s (of_nat i) \<in> set (at_map (fst s)) \<and>
        str_chars (at_heap (fst s)) (snd s (of_nat i)) = [of_nat i])"

definition ascii_pre :: "(nat \<Rightarrow> u64) \<Rightarrow> atom_table \<Rightarrow> bool" where
  "ascii_pre addr st \<longleftrightarrow> atoms_ok st \<and> inj_on addr {0..<256} \<and>
     (\<forall>i < 256. fresh_addr st (addr i)) \<and>
     (\<forall>i. 128 \<le> i \<longrightarrow> i < 256 \<longrightarrow> atom_find st [of_nat i] = None)"

lemma of_nat_u16_inj: "i < 256 \<Longrightarrow> j < 256 \<Longrightarrow> (of_nat i :: u16) = of_nat j \<longleftrightarrow> i = j"
  by (simp add: word_of_nat_eq_iff take_bit_nat_eq_self)

lemma ascii_fresh:
  assumes pre: "ascii_pre addr st" and inv: "ascii_inv addr st n s" and n: "n < 256"
  shows "fresh_addr (fst s) (addr n)"
proof -
  have f: "fresh_addr st (addr n)" using pre n by (simp add: ascii_pre_def)
  have "addr n \<notin> addr ` {0..<n}"
    using pre n unfolding ascii_pre_def inj_on_def by fastforce
  with inv f show ?thesis by (auto simp: ascii_inv_def fresh_addr_def)
qed

lemma ascii_not_interned:
  assumes pre: "ascii_pre addr st" and inv: "ascii_inv addr st n s" and n: "128 \<le> n" "n < 256"
  shows "atom_find (fst s) [of_nat n] = None"
proof -
  have "str_chars (at_heap (fst s)) q \<noteq> [of_nat n]" if q: "q \<in> set (at_map (fst s))" for q
  proof (cases "q \<in> set (at_map st)")
    case True
    have "atom_find st [of_nat n] = None" "is_string (at_heap st) q"
      using pre n True by (auto simp: ascii_pre_def dest: atoms_okD(3))
    then show ?thesis
      using inv atom_find_NoneD [OF _ True] by (auto simp: ascii_inv_def good_ext_def atoms_extend_def)
  next
    case False
    with inv q obtain i where "i < n" "str_chars (at_heap (fst s)) q = [of_nat i]"
      by (auto simp: ascii_inv_def)
    with n show ?thesis by (simp add: of_nat_u16_inj)
  qed
  then show ?thesis by (auto simp: atom_find_def find_None_iff)
qed

text \<open>What one entry adds: its string at its address, in the map when it was not there.\<close>

lemma init_chars_frame:
  assumes "init_chars st a cs = (st', q)"
  shows "at_heap st' p \<noteq> None \<Longrightarrow> at_heap st p \<noteq> None \<or> p = a"
    and "r \<in> set (at_map st') \<Longrightarrow> r \<in> set (at_map st) \<or> r = q"
  using assms by (auto simp: init_chars_def split: option.splits if_splits)

lemma init_static_alloc:
  assumes "atoms_ok st" "fresh_addr st a" "atom_find st cs = None"
    and r: "initStaticString (alloc_string st a cs) a = (st', q)"
  shows "good_ext st st' \<and> q \<in> set (at_map st') \<and> str_chars (at_heap st') q = cs"
    and "at_heap st' p \<noteq> None \<Longrightarrow> at_heap st p \<noteq> None \<or> p = a"
    and "r' \<in> set (at_map st') \<Longrightarrow> r' \<in> set (at_map st) \<or> r' = q"
proof -
  note al = alloc_then [OF assms(1-3)]
  have "atoms_ok (alloc_string st a cs)" using al(1) by (simp add: good_ext_def)
  from initStaticString_good [OF this al(2) _ r] al(3,4)
  have "good_ext (alloc_string st a cs) st'" "q = a" by auto
  moreover have "str_chars (at_heap st') a = cs" "a \<in> set (at_map st')"
    using r by (auto simp: initStaticString_def alloc_string_def str_chars_upd)
  ultimately show "good_ext st st' \<and> q \<in> set (at_map st') \<and> str_chars (at_heap st') q = cs"
    using good_ext_trans [OF al(1)] by simp
  show "at_heap st' p \<noteq> None \<Longrightarrow> at_heap st p \<noteq> None \<or> p = a"
    and "r' \<in> set (at_map st') \<Longrightarrow> r' \<in> set (at_map st) \<or> r' = q"
    using r by (auto simp: initStaticString_def alloc_string_def set_tag_def split: if_splits)
qed

lemma init_ascii_entry_inv:
  assumes pre: "ascii_pre addr st" and inv: "ascii_inv addr st n s" and n: "n < 256"
  shows "ascii_inv addr st (Suc n) (init_ascii_entry addr n s)"
proof -
  obtain st' q where e: "init_ascii_entry addr n s = (st', (snd s)(of_nat n := q))"
    and step: "(if n < 128 then init_chars (fst s) (addr n) [of_nat n]
        else initStaticString (alloc_string (fst s) (addr n) [of_nat n]) (addr n)) = (st', q)"
    by (cases "if n < 128 then init_chars (fst s) (addr n) [of_nat n]
        else initStaticString (alloc_string (fst s) (addr n) [of_nat n]) (addr n)")
      (simp add: init_ascii_entry_def)
  have ok: "atoms_ok (fst s)" using inv by (simp add: ascii_inv_def good_ext_def)
  note fr = ascii_fresh [OF assms]
  have main: "good_ext (fst s) st' \<and> q \<in> set (at_map st') \<and>
      str_chars (at_heap st') q = [of_nat n] \<and>
      (\<forall>p. at_heap st' p \<noteq> None \<longrightarrow> at_heap (fst s) p \<noteq> None \<or> p = addr n) \<and>
      (\<forall>r \<in> set (at_map st'). r \<in> set (at_map (fst s)) \<or> r = q)"
  proof (cases "n < 128")
    case True
    with step show ?thesis
      using init_chars_interned [OF ok fr] init_chars_frame by simp
  next
    case False
    with step have r: "initStaticString (alloc_string (fst s) (addr n) [of_nat n]) (addr n) = (st', q)"
      by simp
    have "atom_find (fst s) [of_nat n] = None"
      using False n by (intro ascii_not_interned [OF pre inv]) auto
    from init_static_alloc [OF ok fr this r] show ?thesis by blast
  qed
  have keep: "x \<in> set (at_map st') \<and> str_chars (at_heap st') x = str_chars (at_heap (fst s)) x"
    if "x \<in> set (at_map (fst s))" for x
    using main that atoms_okD(3) [OF ok that] by (auto simp: good_ext_def atoms_extend_def)
  have "good_ext st st'" using inv main good_ext_trans by (auto simp: ascii_inv_def)
  moreover have "at_heap st p \<noteq> None \<or> p \<in> addr ` {0..<Suc n}" if "at_heap st' p \<noteq> None" for p
  proof -
    have "at_heap (fst s) p \<noteq> None \<or> p = addr n" using main that by blast
    then show ?thesis using inv unfolding ascii_inv_def by fastforce
  qed
  moreover have "r \<in> set (at_map st) \<or> (\<exists>i < Suc n. str_chars (at_heap st') r = [of_nat i])"
    if r: "r \<in> set (at_map st')" for r
  proof -
    consider "r \<in> set (at_map (fst s))" | "r = q" using main r by blast
    then show ?thesis
      using inv keep main unfolding ascii_inv_def by cases (metis less_Suc_eq)+
  qed
  moreover have "((snd s)(of_nat n := q)) (of_nat i) \<in> set (at_map st') \<and>
      str_chars (at_heap st') (((snd s)(of_nat n := q)) (of_nat i)) = [of_nat i]" if "i < Suc n" for i
    using that main keep inv n by (auto simp: ascii_inv_def less_Suc_eq of_nat_u16_inj)
  ultimately show ?thesis by (simp add: ascii_inv_def e)
qed

lemma init_asciiTable_inv:
  assumes pre: "ascii_pre addr st" and n: "n \<le> 256"
  shows "ascii_inv addr st n (fold (init_ascii_entry addr) [0..<n] (st, tbl))"
  using n
proof (induction n)
  case 0
  show ?case using pre by (simp add: ascii_inv_def ascii_pre_def good_ext_refl)
next
  case (Suc n)
  then show ?case using init_ascii_entry_inv [OF pre] by simp
qed

lemma ascii_inv_heap:
  assumes "ascii_pre addr st" "init_asciiTable addr st tbl = (st', ascii)"
    and "at_heap st' p \<noteq> None"
  shows "at_heap st p \<noteq> None \<or> p \<in> addr ` {0..<256}"
  using init_asciiTable_inv [OF assms(1), of 256 tbl] assms(2,3)
  by (simp add: init_asciiTable_def ascii_inv_def)

lemma init_asciiTable_ok:
  assumes pre: "ascii_pre addr st" and r: "init_asciiTable addr st tbl = (st', ascii)"
  shows "good_ext st st' \<and>
    (\<forall>c < 256. ascii c \<in> set (at_map st') \<and> str_chars (at_heap st') (ascii c) = [c])"
proof -
  have inv: "ascii_inv addr st 256 (st', ascii)"
    using init_asciiTable_inv [OF pre, of 256 tbl] r by (simp add: init_asciiTable_def)
  have "ascii c \<in> set (at_map st') \<and> str_chars (at_heap st') (ascii c) = [c]" if "c < 256" for c
  proof -
    have "c = of_nat (unat c)" "unat c < 256" using that by (simp_all add: word_less_nat_alt)
    then show ?thesis using inv unfolding ascii_inv_def by (metis fst_conv snd_conv)
  qed
  with inv show ?thesis by (auto simp: ascii_inv_def)
qed

lemma name_of_atomic_ok:
  assumes "atoms_ok st" "q \<in> set (at_map st)"
  shows "name_ok st (q OR 1) \<and> key_of (at_heap st) (q OR 1) = KString (str_chars (at_heap st) q)"
  using atom_even(1) [OF assms] assms
  by (simp add: name_ok_def hasAtomicString_odd odd_word_or_one key_of_atomic even_word_or_one)

lemma name_of_plain_ok:
  assumes "atoms_ok st" "at_heap st p \<noteq> None"
  shows "name_ok st p \<and> key_of (at_heap st) p =
    (if pv_isSymbol (at_heap st) p then KSymbol p else KString (str_chars (at_heap st) p))"
  using atoms_okD(1) [OF assms] assms
  by (auto simp: name_ok_def hasAtomicString_odd key_of_plain)

lemma name_of_tag_ok:
  assumes "atoms_ok st" "is_string (at_heap st) p" "getTypeTag (at_heap st) p > 1"
  shows "name_ok st (getTypeTag (at_heap st) p) \<and>
    key_of (at_heap st) (getTypeTag (at_heap st) p) = KString (str_chars (at_heap st) p)"
proof -
  let ?t = "getTypeTag (at_heap st) p"
  note q = tag_fast_path [OF assms]
  obtain t cs v where cell: "at_heap st p = Some (PString t cs v)"
    using assms(2) by (auto simp: is_string_def)
  with assms(3) have "t \<noteq> 1" "?t = t" by (auto simp: getTypeTag_def)
  with atoms_okD(5) [OF assms(1) cell] obtain r where r: "r \<in> set (at_map st)" "?t = 1 OR r"
    by (auto simp: tag_ok_def)
  then have "(?t AND NOT 1) OR 1 = ?t"
    using tag_and_not_one [OF atom_even(1) [OF assms(1) r(1)]] by (simp only: or.commute)
  with name_of_atomic_ok [OF assms(1) q(1)] q(2) show ?thesis by simp
qed

lemma name_of_value_string:
  assumes ok: "atoms_ok st" and fr: "fresh_addr st a" and s: "is_string (at_heap st) p"
    and stat: "statics_ok empty_str ascii st"
    and r: "name_of_value empty_str ascii st a p = (st', d)"
  shows "good_ext st st' \<and> name_ok st' d \<and>
    key_of (at_heap st') d = KString (str_chars (at_heap st) p)"
proof -
  let ?h = "at_heap st" let ?cs = "str_chars ?h p"
  have nosym: "\<not> pv_isSymbol ?h p"
    using pv_isSymbol_iff [OF ok is_string_not_None [OF s]] s by (auto simp: is_string_def)
  note refl = good_ext_refl [OF ok]
  show ?thesis
  proof (cases "getTypeTag ?h p > 1")
    case True
    with r nosym have "st' = st" "d = getTypeTag ?h p" by (auto simp: name_of_value_def Let_def)
    with name_of_tag_ok [OF ok s True] refl show ?thesis by simp
  next
    case slow: False
    consider (empty) "length ?cs = 0"
      | (keep) "length ?cs \<noteq> 0" "(?cs ! 0 = 0x2E \<or> ?cs ! 0 \<ge> 0x30 \<and> ?cs ! 0 \<le> 0x39) \<and> length ?cs > 16"
      | (ascii) "length ?cs \<noteq> 0" "\<not> ((?cs ! 0 = 0x2E \<or> ?cs ! 0 \<ge> 0x30 \<and> ?cs ! 0 \<le> 0x39) \<and> length ?cs > 16)"
          "?cs ! 0 < 256 \<and> length ?cs = 1"
      | (atomize) "length ?cs \<noteq> 0" "\<not> ((?cs ! 0 = 0x2E \<or> ?cs ! 0 \<ge> 0x30 \<and> ?cs ! 0 \<le> 0x39) \<and> length ?cs > 16)"
          "\<not> (?cs ! 0 < 256 \<and> length ?cs = 1)"
      by blast
    then show ?thesis
    proof cases
      case empty
      with r nosym slow have "st' = st" "d = empty_str OR 1"
        by (auto simp: name_of_value_def Let_def)
      with name_of_atomic_ok [OF ok, of empty_str] stat empty refl show ?thesis
        by (simp add: statics_ok_def)
    next
      case keep
      with r nosym slow have "st' = st" "d = p" by (auto simp: name_of_value_def Let_def)
      with name_of_plain_ok [OF ok is_string_not_None [OF s]] nosym refl show ?thesis by simp
    next
      case ascii
      with r nosym slow have d: "st' = st" "d = ascii (?cs ! 0) OR 1"
        by (auto simp: name_of_value_def Let_def split: if_splits)
      have "?cs = [?cs ! 0]" using ascii(3) by (auto simp: length_Suc_conv)
      with name_of_atomic_ok [OF ok, of "ascii (?cs ! 0)"] stat ascii(3) d refl show ?thesis
        by (auto simp: statics_ok_def)
    next
      case atomize
      obtain q where q: "atomic_of_string st a p = (st', q)" "d = q OR 1"
        using r nosym slow atomize
        by (auto simp: name_of_value_def Let_def split: prod.splits)
      note i = atomic_of_string_interned [OF ok fr s q(1)]
      then have "atoms_ok st'" by (simp add: good_ext_def)
      with name_of_atomic_ok [of st' q] i q(2) show ?thesis by simp
    qed
  qed
qed

text \<open>
  The only strings that \<^verbatim>\<open>ObjectStructurePropertyName(state, value)\<close> does not intern are long texts that
  begin like a number.
\<close>

definition long_number :: "u16 list \<Rightarrow> bool" where
  "long_number cs \<longleftrightarrow> length cs > 16 \<and> (cs ! 0 = 0x2E \<or> cs ! 0 \<ge> 0x30 \<and> cs ! 0 \<le> 0x39)"

lemma name_of_value_plain:
  assumes ok: "atoms_ok st" and s: "is_string (at_heap st) p"
    and r: "name_of_value empty_str ascii st a p = (st', d)" and d: "\<not> hasAtomicString d"
  shows "long_number (str_chars (at_heap st) p)"
proof -
  obtain t cs v where cell: "at_heap st p = Some (PString t cs v)" using s by (auto simp: is_string_def)
  have "odd t" using atoms_okD(5) [OF ok cell] by (auto simp: tag_ok_def even_or_iff)
  then have t: "t \<noteq> 2" "hasAtomicString t" by (auto simp: hasAtomicString_odd)
  have odd: "hasAtomicString (q OR 1)" for q by (simp add: hasAtomicString_odd even_or_iff)
  show ?thesis
    using r d t cell odd
    by (auto simp: name_of_value_def Let_def pv_isSymbol_def getTypeTag_def long_number_def
        split: if_splits prod.splits)
qed

text \<open>The key a value asks for: a string by its characters, a symbol by its address.\<close>

definition value_key :: "pheap \<Rightarrow> u64 \<Rightarrow> property_key" where
  "value_key h p = (if is_string h p then KString (str_chars h p) else KSymbol p)"

lemma name_of_value_symbol:
  assumes ok: "atoms_ok st" and s: "at_heap st p \<noteq> None" "\<not> is_string (at_heap st) p"
    and r: "name_of_value empty_str ascii st a p = (st', d)"
  shows "good_ext st st' \<and> name_ok st' d \<and> key_of (at_heap st') d = KSymbol p"
proof -
  obtain y where "at_heap st p = Some (PSymbol y)"
    using s by (cases "at_heap st p"; cases "the (at_heap st p)") (auto simp: is_string_def)
  then have y: "pv_isSymbol (at_heap st) p" using pv_isSymbol_iff [OF ok s(1)] by blast
  then have "st' = st" "d = p" using r by (auto simp: name_of_value_def Let_def)
  with name_of_plain_ok [OF ok s(1)] y good_ext_refl [OF ok] show ?thesis by simp
qed

text \<open>
  C9. Names denote keys. The name that \<^verbatim>\<open>ObjectStructurePropertyName(state, value)\<close> builds for a
  string, whichever of its five paths it takes, compares equal (\<^verbatim>\<open>operator==\<close>) to any valid name
  exactly when that name denotes a string with the same characters, and the name it builds for a
  symbol exactly when that name denotes the same symbol; and building it leaves the key of every
  name that was valid before unchanged.
\<close>

theorem name_of_value_denotes_key:
  assumes ok: "atoms_ok st" and fr: "fresh_addr st a" and p: "at_heap st p \<noteq> None"
    and stat: "statics_ok empty_str ascii st"
    and r: "name_of_value empty_str ascii st a p = (st', d)"
  shows "(\<forall>n. name_ok st' n \<longrightarrow>
        (name_eq (at_heap st') d n \<longleftrightarrow> key_of (at_heap st') n = value_key (at_heap st) p)) \<and>
    (\<forall>n. name_ok st n \<longrightarrow> name_ok st' n \<and> key_of (at_heap st') n = key_of (at_heap st) n)"
proof -
  have v: "good_ext st st' \<and> name_ok st' d \<and> key_of (at_heap st') d = value_key (at_heap st) p"
    using name_of_value_string [OF ok fr _ stat r] name_of_value_symbol [OF ok p _ r] by (auto simp: value_key_def)
  then have ok': "atoms_ok st'" and ext: "atoms_extend st st'" by (auto simp: good_ext_def)
  have "name_ok st' n \<and> key_of (at_heap st') n = key_of (at_heap st) n" if n: "name_ok st n" for n
  proof (cases "hasAtomicString n")
    case True
    with n have m: "n - 1 \<in> set (at_map st)" by (simp add: name_ok_def)
    with ext atoms_okD(3) [OF ok m] True ok' show ?thesis
      by (auto simp: atoms_extend_def name_ok_def key_of_atomic)
  next
    case False
    with n have d: "at_heap st n \<noteq> None" by (simp add: name_ok_def)
    show ?thesis
    proof (cases "is_string (at_heap st) n")
      case True
      with ext have s': "is_string (at_heap st') n"
        "str_chars (at_heap st') n = str_chars (at_heap st) n" by (auto simp: atoms_extend_def)
      have "\<not> pv_isSymbol (at_heap st) n" "\<not> pv_isSymbol (at_heap st') n"
        using True s'(1) pv_isSymbol_iff [OF ok d]
          pv_isSymbol_iff [OF ok' is_string_not_None [OF s'(1)]]
        by (auto simp: is_string_def)
      with False s' ok' show ?thesis
        by (simp add: name_ok_def key_of_plain is_string_not_None)
    next
      case ns: False
      then obtain y where "at_heap st n = Some (PSymbol y)"
        using d by (cases "at_heap st n"; cases "the (at_heap st n)") (auto simp: is_string_def)
      moreover with ext have "at_heap st' n = Some (PSymbol y)" by (auto simp: atoms_extend_def)
      ultimately show ?thesis
        using False ok' by (simp add: name_ok_def key_of_plain pv_isSymbol_def getTypeTag_def)
    qed
  qed
  with v show ?thesis by (auto simp: name_eq_key)
qed

text \<open>A context whose static strings were set up by the code, with one dynamic string.\<close>

definition boot_table :: atom_table where
  "boot_table = \<lparr>at_heap = [16 \<mapsto> PString 17 [] False, 32 \<mapsto> PString 1 [97, 98, 99] False],
     at_map = [16]\<rparr>"

lemma boot_addr_unat:
  assumes "i < 256"
  shows "unat (1024 + 8 * of_nat i :: u64) = 1024 + 8 * i"
proof -
  have "(1024 + 8 * of_nat i :: u64) = of_nat (1024 + 8 * i)" by simp
  also have "unat \<dots> = 1024 + 8 * i"
    using assms by (simp add: unat_of_nat del: of_nat_add of_nat_mult)
  finally show ?thesis .
qed

lemma boot_addr_ne:
  fixes c :: u64
  assumes "i < 256" "unat c < 1024"
  shows "1024 + 8 * of_nat i \<noteq> c"
  using boot_addr_unat [OF assms(1)] assms(2) by (metis not_add_less1)

lemma boot_addr_inj: "inj_on (\<lambda>i. 1024 + 8 * of_nat i :: u64) {0..<256}"
proof (rule inj_onI)
  fix i j :: nat
  assume "i \<in> {0..<256}" "j \<in> {0..<256}" and e: "1024 + 8 * of_nat i = (1024 + 8 * of_nat j :: u64)"
  then have "1024 + 8 * i = 1024 + 8 * j"
    by (metis atLeastLessThan_iff boot_addr_unat)
  then show "i = j" by simp
qed

lemma boot_table_pre: "ascii_pre (\<lambda>i. 1024 + 8 * of_nat i) boot_table"
proof -
  have "atoms_ok boot_table"
    by (auto simp: atoms_ok_def boot_table_def is_string_def tag_ok_def str_chars_def
        split: if_splits)
  moreover note boot_addr_inj
  moreover have "fresh_addr boot_table (1024 + 8 * of_nat i)" if "i < 256" for i
  proof -
    have "1024 + 8 * of_nat i \<noteq> (16 :: u64)" "1024 + 8 * of_nat i \<noteq> (32 :: u64)"
      "1024 + 8 * of_nat i \<noteq> (0 :: u64)"
      by (rule boot_addr_ne [OF that], simp)+
    moreover have "even (1024 + 8 * of_nat i :: u64)" by simp
    ultimately show ?thesis by (simp add: fresh_addr_def boot_table_def)
  qed
  moreover have "atom_find boot_table [c] = None" for c
    by (simp add: atom_find_def boot_table_def str_chars_def)
  ultimately show ?thesis unfolding ascii_pre_def by blast
qed

theorem name_of_value_denotes_key_witness:
  "let (st, ascii) = init_asciiTable (\<lambda>i. 1024 + 8 * of_nat i) boot_table (\<lambda>_. 0);
       (st', d) = name_of_value 16 ascii st 64 32
   in \<forall>n. name_ok st' n \<longrightarrow>
        (name_eq (at_heap st') d n \<longleftrightarrow> key_of (at_heap st') n = KString [97, 98, 99])"
proof -
  obtain st ascii where 1: "init_asciiTable (\<lambda>i. 1024 + 8 * of_nat i) boot_table (\<lambda>_. 0) = (st, ascii)"
    by force
  note t = init_asciiTable_ok [OF boot_table_pre 1]
  then have ok: "atoms_ok st" and ext: "atoms_extend boot_table st" by (auto simp: good_ext_def)
  have b: "is_string (at_heap boot_table) 16" "is_string (at_heap boot_table) 32"
    "str_chars (at_heap boot_table) 16 = []" "str_chars (at_heap boot_table) 32 = [97, 98, 99]"
    by (auto simp: boot_table_def is_string_def str_chars_def)
  have s: "is_string (at_heap st) 32" "str_chars (at_heap st) 32 = [97, 98, 99]"
    "str_chars (at_heap st) 16 = []" "16 \<in> set (at_map st)"
    using ext b by (auto simp: atoms_extend_def boot_table_def)
  have stat: "statics_ok 16 ascii st" using t s by (simp add: statics_ok_def)
  have "(64 :: u64) \<notin> (\<lambda>i. 1024 + 8 * of_nat i) ` {0..<256}"
    using boot_addr_ne [of _ 64] by fastforce
  with ascii_inv_heap [OF boot_table_pre 1, of 64] have fr: "fresh_addr st 64"
    by (auto simp: fresh_addr_def boot_table_def)
  obtain st' d where 2: "name_of_value 16 ascii st 64 32 = (st', d)" by force
  from name_of_value_denotes_key [OF ok fr is_string_not_None [OF s(1)] stat 2] show ?thesis
    by (simp add: 1 2 s(1,2) value_key_def)
qed

section \<open>Hashing disagrees with equality\<close>

text \<open>
  A defect of \<^verbatim>\<open>ObjectStructurePropertyName\<close>: the hash of an interned name is the hash of its
  pointer, the hash of a name that stayed a plain string is the hash of its characters, and
  \<^verbatim>\<open>operator==\<close> compares the two by characters. With the identity as pointer hash, there are two
  valid names that are equal and hash differently, so that the names are not usable as keys of the hash map of \<^verbatim>\<open>ObjectStructureWithMap\<close>. The equal
  names are an interned and a plain string of the same seventeen digits.
\<close>

theorem name_hash_disagrees_with_eq:
  "\<exists>st a b. name_ok st a \<and> name_ok st b \<and> name_eq (at_heap st) a b \<and>
     name_hashValue id (at_heap st) a \<noteq> name_hashValue id (at_heap st) b"
proof -
  define cs :: "u16 list" where "cs = replicate 17 0x31"
  define p :: u64 where "p = (if string_hashValue cs = 16 then 48 else 16)"
  define st where "st = \<lparr>at_heap = [p \<mapsto> PString (1 OR p) cs False, 32 \<mapsto> PString 1 cs False],
     at_map = [p]\<rparr>"
  have p: "p = 16 \<or> p = 48" "p \<noteq> string_hashValue cs" by (auto simp: p_def)
  have ok: "atoms_ok st"
    using p(1) by (auto simp: atoms_ok_def st_def is_string_def tag_ok_def str_chars_def
        split: if_splits)
  have a: "name_ok st (p OR 1)" "key_of (at_heap st) (p OR 1) = KString cs"
    using name_of_atomic_ok [OF ok, of p] p(1) by (auto simp: st_def str_chars_def)
  have b: "name_ok st 32" "key_of (at_heap st) 32 = KString cs"
    using name_of_plain_ok [OF ok, of 32] p(1)
    by (auto simp: st_def str_chars_def pv_isSymbol_def getTypeTag_def)
  have "name_eq (at_heap st) (p OR 1) 32" using name_eq_key [OF a(1) b(1)] a(2) b(2) by simp
  moreover have "name_hashValue id (at_heap st) (p OR 1) = p"
    using p(1) by (auto simp: name_hashValue_def hasAtomicString_odd asAtomicString_def)
  moreover have "name_hashValue id (at_heap st) 32 = string_hashValue cs"
    using p(1) by (auto simp: name_hashValue_def hasAtomicString_odd pv_isSymbol_def getTypeTag_def
        st_def str_chars_def)
  ultimately show ?thesis using a(1) b(1) p(2) by metis
qed

end
