(* ===== verification/Property_Descriptor.thy ===== *)
theory Property_Descriptor
  imports Esc_Prelude
begin

text \<open>
  Descriptors of \<^verbatim>\<open>runtime/ObjectStructurePropertyDescriptor.h\<close>: one machine word that is either
  a set of attribute flags (lowest bit set) or the address of a record with a native getter and
  setter. \<open>nheap\<close> gives the native records by address. Enumerators are their integer values.
\<close>

section \<open>Definitions\<close>

record native_gs =
  m_presentAttributes :: u64
  m_actsLikeJSGetterSetter :: bool
  m_getter :: nat
  m_setter :: nat

type_synonym nheap = "u64 \<Rightarrow> native_gs"
type_synonym pdesc = u64

abbreviation (input) NotPresent :: u64 where "NotPresent \<equiv> 0"
abbreviation (input) WritablePresent :: u64 where "WritablePresent \<equiv> 2"
abbreviation (input) EnumerablePresent :: u64 where "EnumerablePresent \<equiv> 4"
abbreviation (input) ConfigurablePresent :: u64 where "ConfigurablePresent \<equiv> 8"
abbreviation (input) HasJSGetter :: u64 where "HasJSGetter \<equiv> 16"
abbreviation (input) HasJSSetter :: u64 where "HasJSSetter \<equiv> 32"
abbreviation (input) PlainDataMode :: u64 where "PlainDataMode \<equiv> 0"
abbreviation (input) HasJSGetterSetter :: u64 where "HasJSGetterSetter \<equiv> 1"
abbreviation (input) HasDataButHasNativeGetterSetter :: u64
  where "HasDataButHasNativeGetterSetter \<equiv> 2"

text \<open>The flag-set constructor of \<^verbatim>\<open>ObjectStructurePropertyDescriptorData\<close>.\<close>

definition descriptor_data :: "u64 \<Rightarrow> u64 \<Rightarrow> pdesc" where
  "descriptor_data attribute md =
     1 OR (if attribute AND WritablePresent \<noteq> 0 then 2 else 0)
       OR (if attribute AND EnumerablePresent \<noteq> 0 then 4 else 0)
       OR (if attribute AND ConfigurablePresent \<noteq> 0 then 8 else 0)
       OR (if attribute AND HasJSGetter \<noteq> 0 then 16 else 0)
       OR (if attribute AND HasJSSetter \<noteq> 0 then 32 else 0)
       OR (if md \<noteq> 0 then 64 else 0)"

definition presentAttribute :: "nheap \<Rightarrow> pdesc \<Rightarrow> u64 \<Rightarrow> bool" where
  "presentAttribute nh d a \<longleftrightarrow>
     (if d AND 1 \<noteq> 0 then a AND d \<noteq> 0 else m_presentAttributes (nh d) AND a \<noteq> 0)"

definition presentAttributes :: "nheap \<Rightarrow> pdesc \<Rightarrow> u64" where
  "presentAttributes nh d = (if d AND 1 \<noteq> 0 then d else m_presentAttributes (nh d))"

definition desc_mode :: "pdesc \<Rightarrow> u64" where
  "desc_mode d = (if d AND 1 \<noteq> 0 then d AND 64 else HasDataButHasNativeGetterSetter)"

definition desc_isWritable :: "nheap \<Rightarrow> pdesc \<Rightarrow> bool" where
  "desc_isWritable nh d = presentAttribute nh d WritablePresent"

definition desc_isEnumerable :: "nheap \<Rightarrow> pdesc \<Rightarrow> bool" where
  "desc_isEnumerable nh d = presentAttribute nh d EnumerablePresent"

definition desc_isConfigurable :: "nheap \<Rightarrow> pdesc \<Rightarrow> bool" where
  "desc_isConfigurable nh d = presentAttribute nh d ConfigurablePresent"

definition desc_isDataProperty :: "pdesc \<Rightarrow> bool" where
  "desc_isDataProperty d \<longleftrightarrow> desc_mode d \<le> HasDataButHasNativeGetterSetter"

definition desc_isAccessorProperty :: "pdesc \<Rightarrow> bool" where
  "desc_isAccessorProperty d \<longleftrightarrow> \<not> desc_isDataProperty d"

definition desc_hasJSGetter :: "nheap \<Rightarrow> pdesc \<Rightarrow> bool" where
  "desc_hasJSGetter nh d = presentAttribute nh d HasJSGetter"

definition desc_hasJSSetter :: "nheap \<Rightarrow> pdesc \<Rightarrow> bool" where
  "desc_hasJSSetter nh d = presentAttribute nh d HasJSSetter"

definition desc_isPlainDataProperty :: "pdesc \<Rightarrow> bool" where
  "desc_isPlainDataProperty d \<longleftrightarrow> desc_mode d = PlainDataMode"

definition desc_isNativeAccessorProperty :: "pdesc \<Rightarrow> bool" where
  "desc_isNativeAccessorProperty d \<longleftrightarrow> desc_mode d = HasDataButHasNativeGetterSetter"

text \<open>
  The private constructor. Its second test compares \<^verbatim>\<open>mode()\<close>, whose values are 0 and 64 on a
  flag set, with the enumerator \<^verbatim>\<open>HasJSGetterSetter\<close>, which is 1.
\<close>

definition make_descriptor :: "u64 \<Rightarrow> u64 \<Rightarrow> pdesc" where
  "make_descriptor attribute md =
     (let d = descriptor_data attribute md in
      if desc_mode d = HasJSGetterSetter \<and> attribute AND HasJSSetter \<noteq> 0
      then descriptor_data (WritablePresent OR attribute) md else d)"

definition createDataDescriptor :: "u64 \<Rightarrow> pdesc" where
  "createDataDescriptor attribute = descriptor_data attribute PlainDataMode"

definition createAccessorDescriptor :: "u64 \<Rightarrow> pdesc" where
  "createAccessorDescriptor attribute = make_descriptor attribute HasJSGetterSetter"

definition createDataButHasNativeGetterSetterDescriptor :: "u64 \<Rightarrow> pdesc" where
  "createDataButHasNativeGetterSetterDescriptor p = p"

definition native_getter_setter_data :: "bool \<Rightarrow> bool \<Rightarrow> bool \<Rightarrow> nat \<Rightarrow> nat \<Rightarrow> bool \<Rightarrow> native_gs" where
  "native_getter_setter_data isWritable isEnumerable isConfigurable getter setter acts =
     \<lparr>m_presentAttributes =
        (if isWritable then WritablePresent else 0) OR
        (if isEnumerable then EnumerablePresent else 0) OR
        (if isConfigurable then ConfigurablePresent else 0),
      m_actsLikeJSGetterSetter = acts, m_getter = getter, m_setter = setter\<rparr>"

lemmas desc_unfold = desc_isWritable_def desc_isEnumerable_def desc_isConfigurable_def
  desc_isDataProperty_def desc_isAccessorProperty_def desc_hasJSGetter_def desc_hasJSSetter_def
  desc_isPlainDataProperty_def desc_isNativeAccessorProperty_def

section \<open>Reading back what a constructor wrote\<close>

lemma descriptor_data_odd [desc_simps]: "descriptor_data a m AND 1 = 1"
  by (simp add: descriptor_data_def and_one_eq even_or_iff mod_2_eq_odd)

lemma descriptor_data_flags [desc_simps]:
  "2 AND descriptor_data a m = a AND 2" "4 AND descriptor_data a m = a AND 4"
  "8 AND descriptor_data a m = a AND 8" "16 AND descriptor_data a m = a AND 16"
  "32 AND descriptor_data a m = a AND 32"
  "descriptor_data a m AND 64 = (if m = 0 then 0 else 64)"
proof -
  note f = and_pow2_cases [of a 1] and_pow2_cases [of a 2] and_pow2_cases [of a 3] and_pow2_cases [of a 4]
    and_pow2_cases [of a 5]
  show "2 AND descriptor_data a m = a AND 2" "4 AND descriptor_data a m = a AND 4"
    "8 AND descriptor_data a m = a AND 8" "16 AND descriptor_data a m = a AND 16"
    "32 AND descriptor_data a m = a AND 32"
    "descriptor_data a m AND 64 = (if m = 0 then 0 else 64)"
    using f by (auto simp: descriptor_data_def)
qed

lemma odd_data [desc_simps]: "odd (descriptor_data a m)"
  using descriptor_data_odd [of a m] by (simp add: and_one_eq mod_2_eq_odd split: if_splits)

lemma mode_data [desc_simps]: "desc_mode (descriptor_data a m) = (if m = 0 then 0 else 64)"
  by (simp add: desc_mode_def desc_simps)

lemma make_descriptor_eq [desc_simps]: "make_descriptor a m = descriptor_data a m"
  by (simp add: make_descriptor_def Let_def mode_data)

lemma present_data [desc_simps]:
  "presentAttribute nh (descriptor_data a m) b = (b AND descriptor_data a m \<noteq> 0)"
  by (simp add: presentAttribute_def desc_simps)

lemmas create_defs = createDataDescriptor_def createAccessorDescriptor_def
  createDataButHasNativeGetterSetterDescriptor_def

lemma data_descriptor_reads:
  "desc_isWritable nh (createDataDescriptor a) = (a AND WritablePresent \<noteq> 0)"
  "desc_isEnumerable nh (createDataDescriptor a) = (a AND EnumerablePresent \<noteq> 0)"
  "desc_isConfigurable nh (createDataDescriptor a) = (a AND ConfigurablePresent \<noteq> 0)"
  "desc_isDataProperty (createDataDescriptor a)" "desc_isPlainDataProperty (createDataDescriptor a)"
  "\<not> desc_isNativeAccessorProperty (createDataDescriptor a)"
  by (simp_all add: create_defs desc_unfold desc_simps)

lemma accessor_descriptor_reads:
  "desc_isWritable nh (createAccessorDescriptor a) = (a AND WritablePresent \<noteq> 0)"
  "desc_isEnumerable nh (createAccessorDescriptor a) = (a AND EnumerablePresent \<noteq> 0)"
  "desc_isConfigurable nh (createAccessorDescriptor a) = (a AND ConfigurablePresent \<noteq> 0)"
  "desc_hasJSGetter nh (createAccessorDescriptor a) = (a AND HasJSGetter \<noteq> 0)"
  "desc_hasJSSetter nh (createAccessorDescriptor a) = (a AND HasJSSetter \<noteq> 0)"
  "desc_isAccessorProperty (createAccessorDescriptor a)"
  "\<not> desc_isPlainDataProperty (createAccessorDescriptor a)"
  "\<not> desc_isNativeAccessorProperty (createAccessorDescriptor a)"
  by (simp_all add: create_defs desc_unfold desc_simps)

lemma native_descriptor_reads:
  assumes "even p" "nh p = native_getter_setter_data w e c g s acts"
  shows "desc_isWritable nh (createDataButHasNativeGetterSetterDescriptor p) = w"
    "desc_isEnumerable nh (createDataButHasNativeGetterSetterDescriptor p) = e"
    "desc_isConfigurable nh (createDataButHasNativeGetterSetterDescriptor p) = c"
    "desc_isDataProperty (createDataButHasNativeGetterSetterDescriptor p)"
    "desc_isNativeAccessorProperty (createDataButHasNativeGetterSetterDescriptor p)"
    "\<not> desc_isPlainDataProperty (createDataButHasNativeGetterSetterDescriptor p)"
proof -
  have z: "p AND 1 = 0" using assms(1) by (simp add: and_one_eq even_iff_mod_2_eq_zero)
  show "desc_isWritable nh (createDataButHasNativeGetterSetterDescriptor p) = w"
    "desc_isEnumerable nh (createDataButHasNativeGetterSetterDescriptor p) = e"
    "desc_isConfigurable nh (createDataButHasNativeGetterSetterDescriptor p) = c"
    "desc_isDataProperty (createDataButHasNativeGetterSetterDescriptor p)"
    "desc_isNativeAccessorProperty (createDataButHasNativeGetterSetterDescriptor p)"
    "\<not> desc_isPlainDataProperty (createDataButHasNativeGetterSetterDescriptor p)"
    by (simp_all only: create_defs desc_unfold presentAttribute_def desc_mode_def z assms(2)
        native_getter_setter_data_def) (cases w; cases e; cases c; simp)+
qed

text \<open>
  Descriptor words carry what they were made from. A data descriptor reads back exactly the
  writable, enumerable and configurable flags it was built from and is a plain data property; an
  accessor descriptor reads back its getter and setter flags and is an accessor property; a
  native descriptor (an even address) reads back the three booleans of its native record and is a
  data property with native accessors. The three kinds exclude one another.
\<close>

theorem descriptor_roundtrip:
  assumes "even p" "nh p = native_getter_setter_data w e c g s acts"
  shows "(let d = createDataDescriptor a in
      desc_isWritable nh d = (a AND WritablePresent \<noteq> 0) \<and>
      desc_isEnumerable nh d = (a AND EnumerablePresent \<noteq> 0) \<and>
      desc_isConfigurable nh d = (a AND ConfigurablePresent \<noteq> 0) \<and>
      desc_isDataProperty d \<and> desc_isPlainDataProperty d \<and> \<not> desc_isNativeAccessorProperty d) \<and>
   (let d = createAccessorDescriptor a in
      desc_isEnumerable nh d = (a AND EnumerablePresent \<noteq> 0) \<and>
      desc_isConfigurable nh d = (a AND ConfigurablePresent \<noteq> 0) \<and>
      desc_hasJSGetter nh d = (a AND HasJSGetter \<noteq> 0) \<and>
      desc_hasJSSetter nh d = (a AND HasJSSetter \<noteq> 0) \<and>
      desc_isAccessorProperty d \<and> \<not> desc_isPlainDataProperty d \<and>
      \<not> desc_isNativeAccessorProperty d) \<and>
   (let d = createDataButHasNativeGetterSetterDescriptor p in
      desc_isWritable nh d = w \<and> desc_isEnumerable nh d = e \<and> desc_isConfigurable nh d = c \<and>
      desc_isDataProperty d \<and> desc_isNativeAccessorProperty d \<and> \<not> desc_isPlainDataProperty d)"
  using native_descriptor_reads [of p nh w e c g s acts] assms
  by (simp add: Let_def data_descriptor_reads accessor_descriptor_reads)

theorem descriptor_roundtrip_witness:
  "let nh = (\<lambda>_. native_getter_setter_data True False True 1 2 False);
       d = createDataButHasNativeGetterSetterDescriptor 64
   in desc_isWritable nh d \<and> \<not> desc_isEnumerable nh d \<and> desc_isConfigurable nh d"
  using descriptor_roundtrip [of 64 "\<lambda>_. native_getter_setter_data True False True 1 2 False"
      True False True 1 2 False 0]
  by (simp add: Let_def)

text \<open>
  A defect of the private constructor of \<^verbatim>\<open>ObjectStructurePropertyDescriptor\<close>: the branch that
  is to set the writable flag of an accessor with a setter ("set writable flag for checking
  fast") is never taken, because \<^verbatim>\<open>mode()\<close> of an accessor is 64 and not the enumerator it is
  compared with. So an accessor descriptor is writable only if its attributes already said so,
  and never when it is built as the assertion in the constructor demands.
\<close>

theorem accessor_writable_flag_never_set:
  "desc_isWritable nh (createAccessorDescriptor a) = (a AND WritablePresent \<noteq> 0) \<and>
   \<not> desc_isWritable nh (createAccessorDescriptor (EnumerablePresent OR HasJSGetter OR HasJSSetter))"
  by (simp add: accessor_descriptor_reads)

end
