(* ===== verification/Object_Structure.thy ===== *)
theory Object_Structure
  imports Property_Name Property_Descriptor
begin

text \<open>
  Hidden classes: \<^verbatim>\<open>runtime/ObjectStructure.{h,cpp}\<close>. Structures, property vectors and name maps
  live at addresses of a heap, because structures are shared between objects, vectors are handed
  from one structure to the next, and the code relies on who may change which of them.
  \<open>None\<close> as the result of an operation is the dereference of a null or dangling pointer or an
  index past the end of a vector.
\<close>

section \<open>State\<close>

record structure_item =
  m_propertyName :: pname
  m_descriptor :: pdesc

record structure_flags =
  m_hasIndexPropertyName :: bool
  m_hasSymbolPropertyName :: bool
  m_hasNonAtomicPropertyName :: bool
  m_hasEnumerableProperty :: bool
  m_isReferencedByInlineCache :: bool

record transition_item =
  t_propertyName :: pname
  t_descriptor :: pdesc
  t_structure :: nat

text \<open>The transition table: a vector with its 8-bit capacity, or a hash map.\<close>

datatype transition_table =
    TransitionVector (tt_items: "transition_item list") (tt_capacity: nat)
  | TransitionMap (tt_items: "transition_item list")

datatype object_structure =
    WithoutTransition structure_flags "nat option"
  | WithTransition structure_flags "structure_item list" transition_table
  | WithMap structure_flags "nat option" "nat option"

record structure_heap =
  h_structs :: "nat \<Rightarrow> object_structure option"
  h_vecs :: "nat \<Rightarrow> structure_item list option"
  h_maps :: "nat \<Rightarrow> (pname \<times> nat) list option"
  h_next :: nat

text \<open>
  What the operations read besides the heap: the string table and native records, the hash of
  pointers that \<^verbatim>\<open>ObjectStructurePropertyName::hashValue\<close> takes from the standard library
  (\<^verbatim>\<open>std::hash<size_t*>\<close>), and the two configurable sizes
  \<^verbatim>\<open>ESCARGOT_OBJECT_STRUCTURE_ACCESS_CACHE_BUILD_MIN_SIZE\<close> (96, or 256 in the small configuration)
  and \<^verbatim>\<open>ESCARGOT_OBJECT_STRUCTURE_TRANSITION_MODE_MAX_SIZE\<close> (48, or 12).
\<close>

record senv =
  e_atoms :: atom_table
  e_native :: nheap
  e_ptr_hash :: "u64 \<Rightarrow> u64"
  e_cacheBuildMin :: nat
  e_transitionMax :: nat

abbreviation e_heap :: "senv \<Rightarrow> pheap" where "e_heap e \<equiv> at_heap (e_atoms e)"

definition e_hash :: "senv \<Rightarrow> pname \<Rightarrow> u64" where
  "e_hash e n = name_hashValue (e_ptr_hash e) (e_heap e) n"

abbreviation TRANSITION_MAP_MIN_SIZE :: nat where "TRANSITION_MAP_MIN_SIZE \<equiv> 32"

section \<open>Allocation and reads\<close>

definition new_vec :: "structure_heap \<Rightarrow> structure_item list \<Rightarrow> structure_heap \<times> nat" where
  "new_vec hp ps =
     (hp\<lparr>h_vecs := (h_vecs hp)(h_next hp \<mapsto> ps), h_next := Suc (h_next hp)\<rparr>, h_next hp)"

definition new_map :: "structure_heap \<Rightarrow> (pname \<times> nat) list \<Rightarrow> structure_heap \<times> nat" where
  "new_map hp m =
     (hp\<lparr>h_maps := (h_maps hp)(h_next hp \<mapsto> m), h_next := Suc (h_next hp)\<rparr>, h_next hp)"

definition new_struct :: "structure_heap \<Rightarrow> object_structure \<Rightarrow> structure_heap \<times> nat" where
  "new_struct hp x =
     (hp\<lparr>h_structs := (h_structs hp)(h_next hp \<mapsto> x), h_next := Suc (h_next hp)\<rparr>, h_next hp)"

definition set_struct :: "structure_heap \<Rightarrow> nat \<Rightarrow> object_structure \<Rightarrow> structure_heap" where
  "set_struct hp s x = hp\<lparr>h_structs := (h_structs hp)(s \<mapsto> x)\<rparr>"

definition set_vec :: "structure_heap \<Rightarrow> nat \<Rightarrow> structure_item list \<Rightarrow> structure_heap" where
  "set_vec hp v ps = hp\<lparr>h_vecs := (h_vecs hp)(v \<mapsto> ps)\<rparr>"

definition set_map :: "structure_heap \<Rightarrow> nat \<Rightarrow> (pname \<times> nat) list \<Rightarrow> structure_heap" where
  "set_map hp v m = hp\<lparr>h_maps := (h_maps hp)(v \<mapsto> m)\<rparr>"

fun flags_of :: "object_structure \<Rightarrow> structure_flags" where
  "flags_of (WithoutTransition f _) = f"
| "flags_of (WithTransition f _ _) = f"
| "flags_of (WithMap f _ _) = f"

fun struct_items :: "structure_heap \<Rightarrow> object_structure \<Rightarrow> structure_item list option" where
  "struct_items hp (WithoutTransition _ v) = Option.bind v (h_vecs hp)"
| "struct_items hp (WithTransition _ ps _) = Some ps"
| "struct_items hp (WithMap _ v _) = Option.bind v (h_vecs hp)"

text \<open>\<^verbatim>\<open>properties()\<close>, \<^verbatim>\<open>readProperty\<close> and \<^verbatim>\<open>propertyCount\<close> of the three classes.\<close>

definition properties :: "structure_heap \<Rightarrow> nat \<Rightarrow> structure_item list option" where
  "properties hp s = Option.bind (h_structs hp s) (struct_items hp)"

definition readProperty :: "structure_heap \<Rightarrow> nat \<Rightarrow> nat \<Rightarrow> structure_item option" where
  "readProperty hp s idx =
     Option.bind (properties hp s) (\<lambda>ps. if idx < length ps then Some (ps ! idx) else None)"

definition propertyCount :: "structure_heap \<Rightarrow> nat \<Rightarrow> nat option" where
  "propertyCount hp s = map_option length (properties hp s)"

fun inTransitionMode :: "object_structure \<Rightarrow> bool" where
  "inTransitionMode (WithTransition _ _ _) = True"
| "inTransitionMode _ = False"

definition markReferencedByInlineCache :: "structure_heap \<Rightarrow> nat \<Rightarrow> structure_heap option" where
  "markReferencedByInlineCache hp s =
     map_option (\<lambda>x. set_struct hp s (case x of
         WithoutTransition f v \<Rightarrow> WithoutTransition (f\<lparr>m_isReferencedByInlineCache := True\<rparr>) v
       | WithTransition f ps t \<Rightarrow> WithTransition (f\<lparr>m_isReferencedByInlineCache := True\<rparr>) ps t
       | WithMap f v m \<Rightarrow> WithMap (f\<lparr>m_isReferencedByInlineCache := True\<rparr>) v m))
       (h_structs hp s)"

section \<open>Searching\<close>

text \<open>The loop of \<^verbatim>\<open>findProperty\<close> in the two vector classes, with its fast paths.\<close>

definition find_in_items ::
    "senv \<Rightarrow> structure_flags \<Rightarrow> structure_item list \<Rightarrow> pname \<Rightarrow> nat option" where
  "find_in_items e f ps s =
     (if hasAtomicString s then
        if \<not> m_hasNonAtomicPropertyName f then find_index (\<lambda>x. m_propertyName x = s) ps
        else find_index (\<lambda>x. name_eq_atomic (e_heap e) (m_propertyName x) (asAtomicString s)) ps
      else if name_isSymbol (e_heap e) s then
        if m_hasSymbolPropertyName f then find_index (\<lambda>x. name_eq (e_heap e) (m_propertyName x) s) ps
        else None
      else find_index (\<lambda>x. name_eq (e_heap e) (m_propertyName x) s) ps)"

text \<open>
  \<^verbatim>\<open>PropertyNameMap\<close>: a hash map from names to indices. A lookup returns the entry whose key has
  the hash of the argument and is equal to it; \<^verbatim>\<open>insert\<close> keeps an entry that is already there.
\<close>

definition nmap_find :: "senv \<Rightarrow> (pname \<times> nat) list \<Rightarrow> pname \<Rightarrow> nat option" where
  "nmap_find e m s =
     map_option snd (List.find (\<lambda>(k, i). e_hash e k = e_hash e s \<and> name_eq (e_heap e) k s) m)"

definition nmap_insert :: "senv \<Rightarrow> (pname \<times> nat) list \<Rightarrow> pname \<Rightarrow> nat \<Rightarrow> (pname \<times> nat) list" where
  "nmap_insert e m s i = (if nmap_find e m s = None then m @ [(s, i)] else m)"

fun createPropertyNameMap_loop ::
    "senv \<Rightarrow> nat \<Rightarrow> structure_item list \<Rightarrow> (pname \<times> nat) list \<Rightarrow> (pname \<times> nat) list" where
  "createPropertyNameMap_loop e i [] m = m"
| "createPropertyNameMap_loop e i (x # xs) m =
     createPropertyNameMap_loop e (Suc i) xs (nmap_insert e m (m_propertyName x) i)"

definition createPropertyNameMap :: "senv \<Rightarrow> structure_item list \<Rightarrow> (pname \<times> nat) list" where
  "createPropertyNameMap e ps = createPropertyNameMap_loop e 0 ps []"

text \<open>
  \<^verbatim>\<open>findProperty\<close> of the three classes: the outer \<open>None\<close> is a null dereference, the inner one
  "not found".
\<close>

definition find_without_transition ::
    "senv \<Rightarrow> structure_heap \<Rightarrow> structure_flags \<Rightarrow> nat option \<Rightarrow> pname \<Rightarrow> nat option option" where
  "find_without_transition e hp f v n =
     map_option (\<lambda>ps. find_in_items e f ps n) (Option.bind v (h_vecs hp))"

definition find_with_transition ::
    "senv \<Rightarrow> structure_flags \<Rightarrow> structure_item list \<Rightarrow> pname \<Rightarrow> nat option option" where
  "find_with_transition e f ps n = Some (find_in_items e f ps n)"

definition find_with_map ::
    "senv \<Rightarrow> structure_heap \<Rightarrow> nat option \<Rightarrow> nat option \<Rightarrow> pname \<Rightarrow> nat option option" where
  "find_with_map e hp v m n =
     (case (Option.bind v (h_vecs hp), Option.bind m (h_maps hp)) of
        (Some ps, Some mp) \<Rightarrow> Some (nmap_find e mp n)
      | _ \<Rightarrow> None)"

definition findProperty :: "senv \<Rightarrow> structure_heap \<Rightarrow> nat \<Rightarrow> pname \<Rightarrow> nat option option" where
  "findProperty e hp s n =
     (case h_structs hp s of
        None \<Rightarrow> None
      | Some (WithoutTransition f v) \<Rightarrow> find_without_transition e hp f v n
      | Some (WithTransition f ps t) \<Rightarrow> find_with_transition e f ps n
      | Some (WithMap f v m) \<Rightarrow> find_with_map e hp v m n)"

section \<open>Adding a property\<close>

definition make_flags :: "bool \<Rightarrow> bool \<Rightarrow> bool \<Rightarrow> bool \<Rightarrow> structure_flags" where
  "make_flags hasIndex hasSymbol hasNonAtomic hasEnumerable =
     \<lparr>m_hasIndexPropertyName = hasIndex, m_hasSymbolPropertyName = hasSymbol,
      m_hasNonAtomicPropertyName = hasNonAtomic, m_hasEnumerableProperty = hasEnumerable,
      m_isReferencedByInlineCache = False\<rparr>"

definition flag_index :: "senv \<Rightarrow> structure_flags \<Rightarrow> pname \<Rightarrow> bool" where
  "flag_index e f n = (if m_hasIndexPropertyName f then True else name_isIndexString (e_heap e) n)"

definition flag_symbol :: "senv \<Rightarrow> structure_flags \<Rightarrow> pname \<Rightarrow> bool" where
  "flag_symbol e f n = (if m_hasSymbolPropertyName f then True else name_isSymbol (e_heap e) n)"

definition flag_non_atomic :: "structure_flags \<Rightarrow> pname \<Rightarrow> bool" where
  "flag_non_atomic f n = (if m_hasNonAtomicPropertyName f then True else \<not> hasAtomicString n)"

definition flag_enumerable :: "senv \<Rightarrow> structure_flags \<Rightarrow> pdesc \<Rightarrow> bool" where
  "flag_enumerable e f d =
     (if m_hasEnumerableProperty f then True else desc_isEnumerable (e_native e) d)"

text \<open>\<^verbatim>\<open>ObjectStructureWithoutTransition::addProperty\<close>.\<close>

definition add_without_transition ::
    "senv \<Rightarrow> structure_heap \<Rightarrow> nat \<Rightarrow> structure_flags \<Rightarrow> nat option \<Rightarrow> pname \<Rightarrow> pdesc \<Rightarrow>
     (structure_heap \<times> nat) option" where
  "add_without_transition e hp s f v n d =
     (case v of None \<Rightarrow> None | Some va \<Rightarrow>
      case h_vecs hp va of None \<Rightarrow> None | Some ps \<Rightarrow>
        let ps' = ps @ [\<lparr>m_propertyName = n, m_descriptor = d\<rparr>];
            (hp1, va') = (if m_isReferencedByInlineCache f then new_vec hp ps'
                          else (set_struct (set_vec hp va ps') s (WithoutTransition f None), va)) in
        if length ps' > e_cacheBuildMin e then
          let (hp2, ma) = new_map hp1 (createPropertyNameMap e ps') in
          Some (new_struct hp2 (WithMap (make_flags (flag_index e f n) (flag_symbol e f n) False
            (flag_enumerable e f d)) (Some va') (Some ma)))
        else
          Some (new_struct hp1 (WithoutTransition (make_flags (flag_index e f n) (flag_symbol e f n)
            (flag_non_atomic f n) (flag_enumerable e f d)) (Some va'))))"

text \<open>\<^verbatim>\<open>ObjectStructureWithMap::addProperty\<close>.\<close>

definition add_with_map ::
    "senv \<Rightarrow> structure_heap \<Rightarrow> nat \<Rightarrow> structure_flags \<Rightarrow> nat option \<Rightarrow> nat option \<Rightarrow> pname \<Rightarrow> pdesc \<Rightarrow>
     (structure_heap \<times> nat) option" where
  "add_with_map e hp s f v m n d =
     (case (v, m) of (Some va, Some ma) \<Rightarrow>
      (case (h_vecs hp va, h_maps hp ma) of (Some ps, Some mp) \<Rightarrow>
        let ps' = ps @ [\<lparr>m_propertyName = n, m_descriptor = d\<rparr>];
            mp' = nmap_insert e mp n (length ps);
            (hp2, va', ma') =
              (if m_isReferencedByInlineCache f then
                 let (hp1, va') = new_vec hp ps'; (hp2, ma') = new_map hp1 mp' in (hp2, va', ma')
               else (set_struct (set_map (set_vec hp va ps') ma mp') s (WithMap f None None), va, ma)) in
        Some (new_struct hp2 (WithMap (make_flags (flag_index e f n) (flag_symbol e f n) False
            (flag_enumerable e f d)) (Some va') (Some ma')))
      | _ \<Rightarrow> None)
     | _ \<Rightarrow> None)"

fun fast_log2 :: "nat \<Rightarrow> nat" where
  "fast_log2 n = (if n < 2 then 0 else Suc (fast_log2 (n div 2)))"

declare fast_log2.simps [simp del]

definition computeVectorAllocateSize :: "nat \<Rightarrow> nat" where
  "computeVectorAllocateSize newSize = (if newSize = 0 then 1 else 2 ^ (fast_log2 newSize + 1))"

text \<open>
  The lookup in the transition table. The hash of a map entry is the hash of its name plus the
  descriptor word.
\<close>

definition find_transition :: "senv \<Rightarrow> transition_table \<Rightarrow> pname \<Rightarrow> pdesc \<Rightarrow> nat option" where
  "find_transition e t n d =
     map_option t_structure (case t of
       TransitionMap items \<Rightarrow>
         List.find (\<lambda>x. e_hash e (t_propertyName x) + t_descriptor x = e_hash e n + d \<and>
                        t_descriptor x = d \<and> name_eq (e_heap e) (t_propertyName x) n) items
     | TransitionVector items _ \<Rightarrow>
         List.find (\<lambda>x. t_descriptor x = d \<and> name_eq (e_heap e) (t_propertyName x) n) items)"

text \<open>Recording a transition; a vector that would exceed the limit becomes a map.\<close>

definition add_transition :: "transition_table \<Rightarrow> transition_item \<Rightarrow> transition_table" where
  "add_transition t x =
     (case t of
        TransitionMap items \<Rightarrow> TransitionMap (items @ [x])
      | TransitionVector items cap \<Rightarrow>
          if length items + 1 > TRANSITION_MAP_MIN_SIZE then TransitionMap (items @ [x])
          else TransitionVector (items @ [x])
                 (if cap \<le> length items + 1
                  then min (computeVectorAllocateSize (length items + 1)) 255 else cap))"

text \<open>\<^verbatim>\<open>ObjectStructureWithTransition::addProperty\<close>.\<close>

definition add_with_transition ::
    "senv \<Rightarrow> structure_heap \<Rightarrow> nat \<Rightarrow> structure_flags \<Rightarrow> structure_item list \<Rightarrow> transition_table \<Rightarrow>
     pname \<Rightarrow> pdesc \<Rightarrow> (structure_heap \<times> nat) option" where
  "add_with_transition e hp s f ps t n d =
     (case find_transition e t n d of
        Some s' \<Rightarrow> Some (hp, s')
      | None \<Rightarrow>
          let ps' = ps @ [\<lparr>m_propertyName = n, m_descriptor = d\<rparr>];
              ix = flag_index e f n; sy = flag_symbol e f n; na = flag_non_atomic f n;
              en = flag_enumerable e f d in
          if length ps + 1 > e_cacheBuildMin e then
            let (hp1, va) = new_vec hp ps'; (hp2, ma) = new_map hp1 (createPropertyNameMap e ps') in
            Some (new_struct hp2 (WithMap (make_flags ix sy False en) (Some va) (Some ma)))
          else if length ps + 1 > e_transitionMax e \<or> ix then
            let (hp1, va) = new_vec hp ps' in
            Some (new_struct hp1 (WithoutTransition (make_flags ix sy na en) (Some va)))
          else
            let (hp1, s') = new_struct hp
                  (WithTransition (make_flags ix sy na en) ps' (TransitionVector [] 0)) in
            Some (set_struct hp1 s (WithTransition f ps (add_transition t
              \<lparr>t_propertyName = n, t_descriptor = d, t_structure = s'\<rparr>)), s'))"

definition addProperty ::
    "senv \<Rightarrow> structure_heap \<Rightarrow> nat \<Rightarrow> pname \<Rightarrow> pdesc \<Rightarrow> (structure_heap \<times> nat) option" where
  "addProperty e hp s n d =
     (case h_structs hp s of
        None \<Rightarrow> None
      | Some (WithoutTransition f v) \<Rightarrow> add_without_transition e hp s f v n d
      | Some (WithTransition f ps t) \<Rightarrow> add_with_transition e hp s f ps t n d
      | Some (WithMap f v m) \<Rightarrow> add_with_map e hp s f v m n d)"

section \<open>Removing and redefining a property\<close>

text \<open>The flags the removal loop recomputes over the items that stay.\<close>

definition recompute_flags :: "senv \<Rightarrow> bool \<Rightarrow> structure_item list \<Rightarrow> structure_flags" where
  "recompute_flags e keep_non_atomic ps =
     make_flags (list_ex (\<lambda>x. name_isIndexString (e_heap e) (m_propertyName x)) ps)
       (list_ex (\<lambda>x. name_isSymbol (e_heap e) (m_propertyName x)) ps)
       (keep_non_atomic \<and> list_ex (\<lambda>x. \<not> hasAtomicString (m_propertyName x)) ps)
       (list_ex (\<lambda>x. desc_isEnumerable (e_native e) (m_descriptor x)) ps)"

text \<open>
  \<^verbatim>\<open>removeProperty\<close> of the three classes. A structure no inline cache refers to drops its vector
  (and map) afterwards.
\<close>

definition remove_without_transition ::
    "senv \<Rightarrow> structure_heap \<Rightarrow> nat \<Rightarrow> structure_flags \<Rightarrow> nat option \<Rightarrow> nat \<Rightarrow> (structure_heap \<times> nat) option" where
  "remove_without_transition e hp s f v pIndex =
     (case Option.bind v (h_vecs hp) of None \<Rightarrow> None | Some ps \<Rightarrow>
        if pIndex \<ge> length ps then None
        else
          let ps' = remove_nth pIndex ps;
              x' = WithoutTransition f (if m_isReferencedByInlineCache f then v else None);
              (hp1, va) = new_vec (set_struct hp s x') ps' in
          Some (new_struct hp1 (WithoutTransition (recompute_flags e True ps') (Some va))))"

definition remove_with_transition ::
    "senv \<Rightarrow> structure_heap \<Rightarrow> structure_item list \<Rightarrow> nat \<Rightarrow> (structure_heap \<times> nat) option" where
  "remove_with_transition e hp ps pIndex =
     (if pIndex \<ge> length ps then None
      else
        let ps' = remove_nth pIndex ps; (hp1, va) = new_vec hp ps' in
        Some (new_struct hp1 (WithoutTransition (recompute_flags e True ps') (Some va))))"

definition remove_with_map ::
    "senv \<Rightarrow> structure_heap \<Rightarrow> nat \<Rightarrow> structure_flags \<Rightarrow> nat option \<Rightarrow> nat option \<Rightarrow> nat \<Rightarrow>
     (structure_heap \<times> nat) option" where
  "remove_with_map e hp s f v m pIndex =
     (case Option.bind v (h_vecs hp) of None \<Rightarrow> None | Some ps \<Rightarrow>
        if pIndex \<ge> length ps then None
        else
          let ps' = remove_nth pIndex ps;
              x' = (if m_isReferencedByInlineCache f then WithMap f v m else WithMap f None None);
              (hp1, va) = new_vec (set_struct hp s x') ps' in
          if length ps' > e_cacheBuildMin e then
            let (hp2, ma) = new_map hp1 (createPropertyNameMap e ps') in
            Some (new_struct hp2 (WithMap (recompute_flags e False ps') (Some va) (Some ma)))
          else Some (new_struct hp1 (WithoutTransition (recompute_flags e True ps') (Some va))))"

definition removeProperty ::
    "senv \<Rightarrow> structure_heap \<Rightarrow> nat \<Rightarrow> nat \<Rightarrow> (structure_heap \<times> nat) option" where
  "removeProperty e hp s pIndex =
     (case h_structs hp s of
        None \<Rightarrow> None
      | Some (WithoutTransition f v) \<Rightarrow> remove_without_transition e hp s f v pIndex
      | Some (WithTransition f ps t) \<Rightarrow> remove_with_transition e hp ps pIndex
      | Some (WithMap f v m) \<Rightarrow> remove_with_map e hp s f v m pIndex)"

text \<open>The flags of the new structure of \<^verbatim>\<open>replacePropertyDescriptor\<close>: the old ones, unmarked.\<close>

definition copy_flags :: "structure_flags \<Rightarrow> structure_flags" where
  "copy_flags f = f\<lparr>m_isReferencedByInlineCache := False\<rparr>"

definition replace_desc :: "structure_item list \<Rightarrow> nat \<Rightarrow> pdesc \<Rightarrow> structure_item list" where
  "replace_desc ps idx d = ps[idx := (ps ! idx)\<lparr>m_descriptor := d\<rparr>]"

definition replace_without_transition ::
    "structure_heap \<Rightarrow> nat \<Rightarrow> structure_flags \<Rightarrow> nat option \<Rightarrow> nat \<Rightarrow> pdesc \<Rightarrow> (structure_heap \<times> nat) option" where
  "replace_without_transition hp s f v idx d =
     (case v of None \<Rightarrow> None | Some va \<Rightarrow>
      case h_vecs hp va of None \<Rightarrow> None | Some ps \<Rightarrow>
        if idx \<ge> length ps then None
        else
          let (hp1, va') =
                (if m_isReferencedByInlineCache f then new_vec hp (replace_desc ps idx d)
                 else (set_struct (set_vec hp va (replace_desc ps idx d)) s (WithoutTransition f None), va)) in
          Some (new_struct hp1 (WithoutTransition (copy_flags f) (Some va'))))"

definition replace_with_transition ::
    "structure_heap \<Rightarrow> structure_flags \<Rightarrow> structure_item list \<Rightarrow> nat \<Rightarrow> pdesc \<Rightarrow> (structure_heap \<times> nat) option" where
  "replace_with_transition hp f ps idx d =
     (if idx \<ge> length ps then None
      else
        let (hp1, va) = new_vec hp (replace_desc ps idx d) in
        Some (new_struct hp1 (WithoutTransition (copy_flags f) (Some va))))"

definition replace_with_map ::
    "structure_heap \<Rightarrow> nat \<Rightarrow> structure_flags \<Rightarrow> nat option \<Rightarrow> nat option \<Rightarrow> nat \<Rightarrow> pdesc \<Rightarrow>
     (structure_heap \<times> nat) option" where
  "replace_with_map hp s f v m idx d =
     (case (v, m) of (Some va, Some ma) \<Rightarrow>
       (case (h_vecs hp va, h_maps hp ma) of (Some ps, Some mp) \<Rightarrow>
         if idx \<ge> length ps then None
         else
           let (hp2, va', ma') =
                 (if m_isReferencedByInlineCache f then
                    let (hp1, va') = new_vec hp (replace_desc ps idx d);
                        (hp2, ma') = new_map hp1 mp in (hp2, va', ma')
                  else (set_struct (set_vec hp va (replace_desc ps idx d)) s (WithMap f None None), va, ma)) in
           Some (new_struct hp2 (WithMap ((copy_flags f)\<lparr>m_hasNonAtomicPropertyName := False\<rparr>)
             (Some va') (Some ma')))
       | _ \<Rightarrow> None)
      | _ \<Rightarrow> None)"

definition replacePropertyDescriptor ::
    "senv \<Rightarrow> structure_heap \<Rightarrow> nat \<Rightarrow> nat \<Rightarrow> pdesc \<Rightarrow> (structure_heap \<times> nat) option" where
  "replacePropertyDescriptor e hp s idx d =
     (case h_structs hp s of
        None \<Rightarrow> None
      | Some (WithoutTransition f v) \<Rightarrow> replace_without_transition hp s f v idx d
      | Some (WithTransition f ps t) \<Rightarrow> replace_with_transition hp f ps idx d
      | Some (WithMap f v m) \<Rightarrow> replace_with_map hp s f v m idx d)"

definition convert_with_transition ::
    "structure_heap \<Rightarrow> structure_flags \<Rightarrow> structure_item list \<Rightarrow> (structure_heap \<times> nat) option" where
  "convert_with_transition hp f ps =
     (let (hp1, va) = new_vec hp ps in
      Some (new_struct hp1 (WithoutTransition (copy_flags f) (Some va))))"

definition convertToNonTransitionStructure ::
    "structure_heap \<Rightarrow> nat \<Rightarrow> (structure_heap \<times> nat) option" where
  "convertToNonTransitionStructure hp s =
     (case h_structs hp s of
        None \<Rightarrow> None
      | Some (WithTransition f ps t) \<Rightarrow> convert_with_transition hp f ps
      | Some _ \<Rightarrow> Some (hp, s))"

end
