(* ===== verification/Structure_Invariant.thy ===== *)
theory Structure_Invariant
  imports Object_Structure
begin

text \<open>
  The invariant of the heap of hidden classes and its preservation by the primitive heap changes
  (allocation, hand-over of a vector, publication of a new structure). It says that the items of
  a structure have valid, pairwise different names, that the flags the searches rely on are
  sound, that a name map indexes its vector, that a transition leads to a structure with one
  more item, and that every vector and every name map belongs to one structure only.
\<close>

section \<open>Invariant\<close>

abbreviation item_key :: "senv \<Rightarrow> structure_item \<Rightarrow> property_key" where
  "item_key e x \<equiv> key_of (e_heap e) (m_propertyName x)"

definition items_ok :: "senv \<Rightarrow> structure_item list \<Rightarrow> bool" where
  "items_ok e ps \<longleftrightarrow>
     (\<forall>x \<in> set ps. name_ok (e_atoms e) (m_propertyName x)) \<and> distinct (map (item_key e) ps)"

definition flags_ok :: "senv \<Rightarrow> structure_flags \<Rightarrow> structure_item list \<Rightarrow> bool" where
  "flags_ok e f ps \<longleftrightarrow>
     (\<not> m_hasIndexPropertyName f \<longrightarrow> (\<forall>x \<in> set ps. \<not> name_isIndexString (e_heap e) (m_propertyName x))) \<and>
     (\<not> m_hasSymbolPropertyName f \<longrightarrow> (\<forall>x \<in> set ps. \<not> name_isSymbol (e_heap e) (m_propertyName x)))"

definition atomic_flag_ok :: "structure_flags \<Rightarrow> structure_item list \<Rightarrow> bool" where
  "atomic_flag_ok f ps \<longleftrightarrow>
     (\<not> m_hasNonAtomicPropertyName f \<longrightarrow> (\<forall>x \<in> set ps. hasAtomicString (m_propertyName x)))"

definition nmap_ok :: "(pname \<times> nat) list \<Rightarrow> structure_item list \<Rightarrow> bool" where
  "nmap_ok mp ps \<longleftrightarrow> mp = zip (map m_propertyName ps) [0..<length ps]"

fun capacity_ok :: "transition_table \<Rightarrow> bool" where
  "capacity_ok (TransitionMap _) = True"
| "capacity_ok (TransitionVector items cap) =
     (length items \<le> TRANSITION_MAP_MIN_SIZE \<and> cap \<le> 255 \<and>
      (items = [] \<and> cap = 0 \<or> length items < cap))"

definition targets_ok ::
    "senv \<Rightarrow> structure_heap \<Rightarrow> structure_item list \<Rightarrow> transition_table \<Rightarrow> bool" where
  "targets_ok e hp ps t \<longleftrightarrow>
     (\<forall>x \<in> set (tt_items t). name_ok (e_atoms e) (t_propertyName x) \<and>
        (\<exists>f' t'. h_structs hp (t_structure x) = Some (WithTransition f'
           (ps @ [\<lparr>m_propertyName = t_propertyName x, m_descriptor = t_descriptor x\<rparr>]) t')))"

fun struct_ok :: "senv \<Rightarrow> structure_heap \<Rightarrow> object_structure \<Rightarrow> bool" where
  "struct_ok e hp (WithoutTransition f None) = True"
| "struct_ok e hp (WithoutTransition f (Some va)) =
     (\<exists>ps. h_vecs hp va = Some ps \<and> items_ok e ps \<and> flags_ok e f ps \<and> atomic_flag_ok f ps)"
| "struct_ok e hp (WithTransition f ps t) =
     (items_ok e ps \<and> flags_ok e f ps \<and> atomic_flag_ok f ps \<and> capacity_ok t \<and> targets_ok e hp ps t)"
| "struct_ok e hp (WithMap f v m) =
     (v = None \<and> m = None \<or>
      (\<exists>va ma ps mp. v = Some va \<and> m = Some ma \<and> h_vecs hp va = Some ps \<and> h_maps hp ma = Some mp \<and>
         items_ok e ps \<and> flags_ok e f ps \<and> nmap_ok mp ps))"

fun vec_ptr :: "object_structure \<Rightarrow> nat option" where
  "vec_ptr (WithoutTransition f v) = v"
| "vec_ptr (WithTransition f ps t) = None"
| "vec_ptr (WithMap f v m) = v"

fun map_ptr :: "object_structure \<Rightarrow> nat option" where
  "map_ptr (WithMap f v m) = m"
| "map_ptr _ = None"

definition owners_ok :: "(nat \<Rightarrow> object_structure option) \<Rightarrow> bool" where
  "owners_ok S \<longleftrightarrow>
     (\<forall>s t x y. S s = Some x \<longrightarrow> S t = Some y \<longrightarrow>
        (\<forall>v. vec_ptr x = Some v \<longrightarrow> vec_ptr y = Some v \<longrightarrow> s = t) \<and>
        (\<forall>m. map_ptr x = Some m \<longrightarrow> map_ptr y = Some m \<longrightarrow> s = t))"

definition heap_ok :: "senv \<Rightarrow> structure_heap \<Rightarrow> bool" where
  "heap_ok e hp \<longleftrightarrow>
     (\<forall>s x. h_structs hp s = Some x \<longrightarrow> s < h_next hp \<and> struct_ok e hp x) \<and>
     owners_ok (h_structs hp) \<and>
     (\<forall>v. h_vecs hp v \<noteq> None \<longrightarrow> v < h_next hp) \<and>
     (\<forall>m. h_maps hp m \<noteq> None \<longrightarrow> m < h_next hp)"

definition unowned_vec :: "structure_heap \<Rightarrow> nat \<Rightarrow> bool" where
  "unowned_vec hp va \<longleftrightarrow> (\<forall>s x. h_structs hp s = Some x \<longrightarrow> vec_ptr x \<noteq> Some va)"

definition unowned_map :: "structure_heap \<Rightarrow> nat \<Rightarrow> bool" where
  "unowned_map hp ma \<longleftrightarrow> (\<forall>s x. h_structs hp s = Some x \<longrightarrow> map_ptr x \<noteq> Some ma)"

text \<open>
  The frame of a change: every structure but those in \<open>S\<close> keeps its items, its class and its flags.
\<close>

definition same_struct :: "structure_heap \<Rightarrow> structure_heap \<Rightarrow> nat \<Rightarrow> bool" where
  "same_struct hp hp' t \<longleftrightarrow>
     properties hp' t = properties hp t \<and>
     map_option flags_of (h_structs hp' t) = map_option flags_of (h_structs hp t) \<and>
     map_option inTransitionMode (h_structs hp' t) = map_option inTransitionMode (h_structs hp t)"

definition frame :: "nat set \<Rightarrow> structure_heap \<Rightarrow> structure_heap \<Rightarrow> bool" where
  "frame S hp hp' \<longleftrightarrow> h_next hp \<le> h_next hp' \<and>
     (\<forall>t. t \<notin> S \<longrightarrow> h_structs hp t \<noteq> None \<longrightarrow> same_struct hp hp' t)"

lemma frame_refl [simp]: "frame S hp hp"
  by (simp add: frame_def same_struct_def)

lemma same_struct_alive:
  "same_struct hp hp' t \<Longrightarrow> h_structs hp t \<noteq> None \<Longrightarrow> h_structs hp' t \<noteq> None"
  by (auto simp: same_struct_def)

lemma same_struct_trans: "same_struct a b t \<Longrightarrow> same_struct b c t \<Longrightarrow> same_struct a c t"
  by (simp add: same_struct_def)

lemma frame_trans:
  assumes "frame S a b" "frame S b c"
  shows "frame S a c"
  unfolding frame_def
proof (intro conjI allI impI)
  show "h_next a \<le> h_next c" using assms by (auto simp: frame_def)
  fix t assume t: "t \<notin> S" "h_structs a t \<noteq> None"
  with assms(1) have 1: "same_struct a b t" by (simp add: frame_def)
  with t have "h_structs b t \<noteq> None" by (auto dest: same_struct_alive)
  with assms(2) t(1) have "same_struct b c t" by (simp add: frame_def)
  with 1 show "same_struct a c t" by (rule same_struct_trans)
qed

lemma heap_okD:
  assumes "heap_ok e hp"
  shows "h_structs hp s = Some x \<Longrightarrow> s < h_next hp" "h_structs hp s = Some x \<Longrightarrow> struct_ok e hp x"
    and "owners_ok (h_structs hp)"
    and "h_vecs hp v = Some ps \<Longrightarrow> v < h_next hp" "h_maps hp m = Some mp \<Longrightarrow> m < h_next hp"
  using assms unfolding heap_ok_def by auto

lemma heap_okI:
  assumes "\<And>s x. h_structs hp s = Some x \<Longrightarrow> s < h_next hp"
    and "\<And>s x. h_structs hp s = Some x \<Longrightarrow> struct_ok e hp x"
    and "owners_ok (h_structs hp)"
    and "\<And>v ps. h_vecs hp v = Some ps \<Longrightarrow> v < h_next hp"
    and "\<And>m mp. h_maps hp m = Some mp \<Longrightarrow> m < h_next hp"
  shows "heap_ok e hp"
  using assms unfolding heap_ok_def by blast

lemma owners_okD:
  assumes "owners_ok S" "S s = Some x" "S t = Some y"
  shows "vec_ptr x = Some v \<Longrightarrow> vec_ptr y = Some v \<Longrightarrow> s = t"
    and "map_ptr x = Some m \<Longrightarrow> map_ptr y = Some m \<Longrightarrow> s = t"
  using assms unfolding owners_ok_def by blast+

text \<open>The pointers of a structure of a good heap point to allocated vectors and maps.\<close>

lemma vec_ptr_alive:
  "struct_ok e hp x \<Longrightarrow> vec_ptr x = Some v \<Longrightarrow> h_vecs hp v \<noteq> None"
  by (cases "(e, hp, x)" rule: struct_ok.cases) auto

lemma map_ptr_alive:
  "struct_ok e hp x \<Longrightarrow> map_ptr x = Some m \<Longrightarrow> h_maps hp m \<noteq> None"
  by (cases "(e, hp, x)" rule: struct_ok.cases) auto

lemma struct_items_ok:
  "struct_ok e hp x \<Longrightarrow> struct_items hp x = Some ps \<Longrightarrow> items_ok e ps \<and> flags_ok e (flags_of x) ps"
  by (cases "(e, hp, x)" rule: struct_ok.cases) auto

section \<open>Primitive changes\<close>

text \<open>
  When a structure reads only cells that did not change, it stays good. \<open>v\<close> and \<open>m\<close> are the
  pointers it holds.
\<close>

lemma struct_ok_cong:
  assumes "struct_ok e hp x"
    and "\<And>v. vec_ptr x = Some v \<Longrightarrow> h_vecs hp' v = h_vecs hp v"
    and "\<And>m. map_ptr x = Some m \<Longrightarrow> h_maps hp' m = h_maps hp m"
    and "\<And>s f ps t. h_structs hp s = Some (WithTransition f ps t) \<Longrightarrow>
           \<exists>f' t'. h_structs hp' s = Some (WithTransition f' ps t')"
  shows "struct_ok e hp' x"
proof (cases x)
  case (WithoutTransition f v)
  with assms show ?thesis by (cases v) auto
next
  case (WithTransition f ps t)
  have "targets_ok e hp ps t \<Longrightarrow> targets_ok e hp' ps t"
    unfolding targets_ok_def using assms(4) by meson
  with WithTransition assms(1) show ?thesis by simp
next
  case (WithMap f v m)
  with assms show ?thesis by auto
qed

lemma struct_items_cong:
  "(\<And>v. vec_ptr x = Some v \<Longrightarrow> h_vecs hp' v = h_vecs hp v) \<Longrightarrow> struct_items hp' x = struct_items hp x"
  by (cases x) (auto split: bind_splits simp: bind_eq_Some_conv)

lemma new_vec_ok:
  assumes ok: "heap_ok e hp" and r: "new_vec hp ps = (hp', va)"
  shows "heap_ok e hp'" "frame S hp hp'" "unowned_vec hp' va" "h_vecs hp' va = Some ps"
    and "h_structs hp' = h_structs hp" "h_maps hp' = h_maps hp" "h_next hp' = Suc (h_next hp)"
    and "\<And>v. h_vecs hp v \<noteq> None \<Longrightarrow> h_vecs hp' v = h_vecs hp v"
proof -
  have eqs: "h_structs hp' = h_structs hp" "h_maps hp' = h_maps hp" "h_next hp' = Suc (h_next hp)"
    "h_vecs hp' = (h_vecs hp)(h_next hp \<mapsto> ps)" "va = h_next hp"
    using r by (auto simp: new_vec_def)
  have same: "h_vecs hp' v = h_vecs hp v" if "h_vecs hp v \<noteq> None" for v
    using that heap_okD(4) [OF ok] eqs by auto
  have good: "struct_ok e hp' x" if "h_structs hp s = Some x" for s x
    using heap_okD(2) [OF ok that] vec_ptr_alive [OF heap_okD(2) [OF ok that]] same eqs
    by (intro struct_ok_cong [of e hp x hp']) auto
  show "heap_ok e hp'"
    using heap_okD [OF ok] good unfolding eqs
    by (intro heap_okI) (auto simp: eqs less_Suc_eq split: if_splits)
  have "struct_items hp' x = struct_items hp x" if "h_structs hp s = Some x" for s x
    using vec_ptr_alive [OF heap_okD(2) [OF ok that]] same by (intro struct_items_cong) auto
  then show "frame S hp hp'"
    by (auto simp: frame_def same_struct_def properties_def eqs)
  show "unowned_vec hp' va"
    unfolding unowned_vec_def eqs using vec_ptr_alive heap_okD(2,4) [OF ok]
    by (metis less_irrefl option.exhaust)
qed (use r in \<open>auto simp: new_vec_def dest: heap_okD(4) [OF ok]\<close>)

lemma new_map_ok:
  assumes ok: "heap_ok e hp" and r: "new_map hp mp = (hp', ma)"
  shows "heap_ok e hp'" "frame S hp hp'" "unowned_map hp' ma" "h_maps hp' ma = Some mp"
    and "h_structs hp' = h_structs hp" "h_vecs hp' = h_vecs hp" "h_next hp' = Suc (h_next hp)"
proof -
  have eqs: "h_structs hp' = h_structs hp" "h_vecs hp' = h_vecs hp" "h_next hp' = Suc (h_next hp)"
    "h_maps hp' = (h_maps hp)(h_next hp \<mapsto> mp)" "ma = h_next hp"
    using r by (auto simp: new_map_def)
  have same: "h_maps hp' v = h_maps hp v" if "h_maps hp v \<noteq> None" for v
    using that heap_okD(5) [OF ok] eqs by auto
  have good: "struct_ok e hp' x" if "h_structs hp s = Some x" for s x
    using heap_okD(2) [OF ok that] map_ptr_alive [OF heap_okD(2) [OF ok that]] same eqs
    by (intro struct_ok_cong [of e hp x hp']) auto
  show "heap_ok e hp'"
    using heap_okD [OF ok] good unfolding eqs
    by (intro heap_okI) (auto simp: eqs less_Suc_eq split: if_splits)
  have "struct_items hp' x = struct_items hp x" for x
    using eqs by (intro struct_items_cong) auto
  then show "frame S hp hp'"
    by (auto simp: frame_def same_struct_def properties_def eqs)
  show "unowned_map hp' ma"
    unfolding unowned_map_def eqs using map_ptr_alive heap_okD(2,5) [OF ok]
    by (metis less_irrefl option.exhaust)
qed (use r in \<open>auto simp: new_map_def\<close>)

lemma set_vec_ok:
  assumes ok: "heap_ok e hp" and u: "unowned_vec hp va" and a: "h_vecs hp va \<noteq> None"
  shows "heap_ok e (set_vec hp va ps)" "frame S hp (set_vec hp va ps)"
proof -
  let ?hp = "set_vec hp va ps"
  have same: "h_vecs ?hp v = h_vecs hp v" if "h_structs hp s = Some x" "vec_ptr x = Some v" for s x v
    using u that by (auto simp: unowned_vec_def set_vec_def)
  have good: "struct_ok e ?hp x" if "h_structs hp s = Some x" for s x
    using heap_okD(2) [OF ok that] same [OF that]
    by (intro struct_ok_cong [of e hp x ?hp]) (auto simp: set_vec_def)
  show "heap_ok e ?hp"
    using heap_okD [OF ok] good a by (intro heap_okI) (auto simp: set_vec_def split: if_splits)
  have "struct_items ?hp x = struct_items hp x" if "h_structs hp s = Some x" for s x
    using same [OF that] by (intro struct_items_cong) auto
  then show "frame S hp ?hp"
    by (auto simp: frame_def same_struct_def properties_def set_vec_def)
qed

lemma set_map_ok:
  assumes ok: "heap_ok e hp" and u: "unowned_map hp ma" and a: "h_maps hp ma \<noteq> None"
  shows "heap_ok e (set_map hp ma mp)" "frame S hp (set_map hp ma mp)"
proof -
  let ?hp = "set_map hp ma mp"
  have same: "h_maps ?hp v = h_maps hp v" if "h_structs hp s = Some x" "map_ptr x = Some v" for s x v
    using u that by (auto simp: unowned_map_def set_map_def)
  have good: "struct_ok e ?hp x" if "h_structs hp s = Some x" for s x
    using heap_okD(2) [OF ok that] same [OF that]
    by (intro struct_ok_cong [of e hp x ?hp]) (auto simp: set_map_def)
  show "heap_ok e ?hp"
    using heap_okD [OF ok] good a by (intro heap_okI) (auto simp: set_map_def split: if_splits)
  have "struct_items ?hp x = struct_items hp x" for x
    by (intro struct_items_cong) (auto simp: set_map_def)
  then show "frame S hp ?hp"
    by (auto simp: frame_def same_struct_def properties_def set_map_def)
qed

text \<open>Overwriting a structure by one that holds no other pointers and keeps its transitions.\<close>

lemma set_struct_ok:
  assumes ok: "heap_ok e hp" and x: "h_structs hp s = Some x"
    and y: "struct_ok e (set_struct hp s y) y"
    and tr: "\<And>f ps t. x = WithTransition f ps t \<Longrightarrow> \<exists>f' t'. y = WithTransition f' ps t'"
    and ptr: "vec_ptr y = None \<or> vec_ptr y = vec_ptr x" "map_ptr y = None \<or> map_ptr y = map_ptr x"
  shows "heap_ok e (set_struct hp s y)" "frame {s} hp (set_struct hp s y)"
proof -
  let ?hp = "set_struct hp s y"
  have good: "struct_ok e ?hp z" if "h_structs hp t = Some z" for t z
    using heap_okD(2) [OF ok that] tr x
    by (intro struct_ok_cong [of e hp z ?hp]) (auto simp: set_struct_def)
  have "owners_ok ((h_structs hp)(s \<mapsto> y))"
    using heap_okD(3) [OF ok] x ptr unfolding owners_ok_def
    by (auto split: if_splits) (metis option.distinct(1))+
  then show "heap_ok e ?hp"
    using heap_okD [OF ok] good y x by (intro heap_okI) (auto simp: set_struct_def split: if_splits)
  have "struct_items ?hp z = struct_items hp z" for z
    by (intro struct_items_cong) (auto simp: set_struct_def)
  then show "frame {s} hp ?hp"
    by (auto simp: frame_def same_struct_def properties_def set_struct_def)
qed

text \<open>A structure that gives its vector and map away.\<close>

fun detached :: "object_structure \<Rightarrow> object_structure" where
  "detached (WithoutTransition f v) = WithoutTransition f None"
| "detached (WithTransition f ps t) = WithTransition f ps t"
| "detached (WithMap f v m) = WithMap f None None"

lemma set_struct_triv: "h_structs hp s = Some x \<Longrightarrow> set_struct hp s x = hp"
  by (simp add: set_struct_def fun_upd_idem)

lemma detach_ok:
  assumes ok: "heap_ok e hp" and x: "h_structs hp s = Some x"
  shows "heap_ok e (set_struct hp s (detached x))" "frame {s} hp (set_struct hp s (detached x))"
    and "vec_ptr x = Some v \<Longrightarrow> unowned_vec (set_struct hp s (detached x)) v"
    and "map_ptr x = Some m \<Longrightarrow> unowned_map (set_struct hp s (detached x)) m"
proof -
  have d: "struct_ok e (set_struct hp s (detached x)) (detached x)"
  proof (cases x)
    case (WithTransition f ps t)
    then have "detached x = x" by simp
    then show ?thesis using heap_okD(2) [OF ok x] set_struct_triv [OF x] by simp
  qed simp_all
  have tr: "\<exists>f' t'. detached x = WithTransition f' ps t'" if "x = WithTransition f ps t" for f ps t
    using that by simp
  have ptr: "vec_ptr (detached x) = None" "map_ptr (detached x) = None"
    by (cases x; simp)+
  note r = set_struct_ok [OF ok x d tr]
  show "heap_ok e (set_struct hp s (detached x))" "frame {s} hp (set_struct hp s (detached x))"
    by (rule r; simp add: ptr)+
  show "unowned_vec (set_struct hp s (detached x)) v" if v: "vec_ptr x = Some v"
    unfolding unowned_vec_def
  proof (intro allI impI)
    fix t y assume y: "h_structs (set_struct hp s (detached x)) t = Some y"
    show "vec_ptr y \<noteq> Some v"
    proof (cases "t = s")
      case True
      with y ptr show ?thesis by (simp add: set_struct_def)
    next
      case False
      with y have "h_structs hp t = Some y" by (simp add: set_struct_def)
      with False owners_okD(1) [OF heap_okD(3) [OF ok] x _ v] show ?thesis by blast
    qed
  qed
  show "unowned_map (set_struct hp s (detached x)) m" if m: "map_ptr x = Some m"
    unfolding unowned_map_def
  proof (intro allI impI)
    fix t y assume y: "h_structs (set_struct hp s (detached x)) t = Some y"
    show "map_ptr y \<noteq> Some m"
    proof (cases "t = s")
      case True
      with y ptr show ?thesis by (simp add: set_struct_def)
    next
      case False
      with y have "h_structs hp t = Some y" by (simp add: set_struct_def)
      with False owners_okD(2) [OF heap_okD(3) [OF ok] x _ m] show ?thesis by blast
    qed
  qed
qed

lemma new_struct_ok:
  assumes ok: "heap_ok e hp" and y: "struct_ok e hp y" and r: "new_struct hp y = (hp', s')"
    and v: "\<And>v. vec_ptr y = Some v \<Longrightarrow> unowned_vec hp v"
    and m: "\<And>m. map_ptr y = Some m \<Longrightarrow> unowned_map hp m"
  shows "heap_ok e hp'" "frame S hp hp'" "h_structs hp' s' = Some y"
    and "properties hp' s' = struct_items hp y" "h_structs hp s' = None" "h_next hp' = Suc (h_next hp)"
    and "s' = h_next hp"
proof -
  have eqs: "h_structs hp' = (h_structs hp)(h_next hp \<mapsto> y)" "h_vecs hp' = h_vecs hp"
    "h_maps hp' = h_maps hp" "h_next hp' = Suc (h_next hp)" "s' = h_next hp"
    using r by (auto simp: new_struct_def)
  have fresh: "h_structs hp (h_next hp) = None"
    using heap_okD(1) [OF ok] by (cases "h_structs hp (h_next hp)") auto
  have good: "struct_ok e hp' z" if "struct_ok e hp z" for z
    using that fresh eqs by (intro struct_ok_cong [of e hp z hp']) auto
  have "owners_ok ((h_structs hp)(h_next hp \<mapsto> y))"
    using heap_okD(3) [OF ok] v m fresh
    unfolding owners_ok_def unowned_vec_def unowned_map_def by (auto split: if_splits)
  then show "heap_ok e hp'"
    using heap_okD [OF ok] good y
    by (intro heap_okI) (auto simp: eqs less_Suc_eq split: if_splits)
  have items: "struct_items hp' z = struct_items hp z" for z
    by (intro struct_items_cong) (auto simp: eqs)
  then show "frame S hp hp'"
    using fresh by (auto simp: frame_def same_struct_def properties_def eqs)
  show "h_structs hp' s' = Some y" "properties hp' s' = struct_items hp y" "h_structs hp s' = None"
    "h_next hp' = Suc (h_next hp)" "s' = h_next hp"
    using items fresh by (auto simp: eqs properties_def)
qed

section \<open>Items, flags and maps\<close>

lemma items_ok_append:
  "items_ok e ps \<Longrightarrow> name_ok (e_atoms e) n \<Longrightarrow> \<forall>x \<in> set ps. item_key e x \<noteq> key_of (e_heap e) n \<Longrightarrow>
   items_ok e (ps @ [\<lparr>m_propertyName = n, m_descriptor = d\<rparr>])"
  by (auto simp: items_ok_def)

lemma items_ok_remove: "items_ok e ps \<Longrightarrow> items_ok e (remove_nth i ps)"
  using set_remove_nth_subset [of i ps] distinct_remove_nth [of "map (item_key e) ps" i]
  by (auto simp: items_ok_def map_remove_nth)

lemma replace_desc_names:
  "i < length ps \<Longrightarrow> map m_propertyName (replace_desc ps i d) = map m_propertyName ps"
  by (simp add: replace_desc_def map_update) (metis list_update_id nth_map)

lemma replace_desc_length [simp]: "length (replace_desc ps i d) = length ps"
  by (simp add: replace_desc_def)

text \<open>Validity, flags and name maps depend on the names only.\<close>

lemma names_only:
  assumes "map m_propertyName ps' = map m_propertyName ps"
  shows "items_ok e ps' = items_ok e ps" "flags_ok e f ps' = flags_ok e f ps"
    "atomic_flag_ok f ps' = atomic_flag_ok f ps" "nmap_ok mp ps' = nmap_ok mp ps"
proof -
  have sets: "m_propertyName ` set ps' = m_propertyName ` set ps"
    using assms by (metis set_map)
  have all: "(\<forall>x \<in> set ps'. P (m_propertyName x)) = (\<forall>x \<in> set ps. P (m_propertyName x))" for P
    using sets by (metis (mono_tags, lifting) imageE imageI)
  have "map (item_key e) qs = map (key_of (e_heap e)) (map m_propertyName qs)" for qs
    by simp
  then have keys: "map (item_key e) ps' = map (item_key e) ps" using assms by metis
  have len: "length ps' = length ps" using assms by (metis length_map)
  show "items_ok e ps' = items_ok e ps" using all keys by (simp add: items_ok_def)
  show "flags_ok e f ps' = flags_ok e f ps"
    using all [of "\<lambda>n. \<not> name_isIndexString (e_heap e) n"] all [of "\<lambda>n. \<not> name_isSymbol (e_heap e) n"]
    by (simp add: flags_ok_def)
  show "atomic_flag_ok f ps' = atomic_flag_ok f ps"
    using all [of hasAtomicString] by (simp add: atomic_flag_ok_def)
  show "nmap_ok mp ps' = nmap_ok mp ps" using assms len by (simp add: nmap_ok_def)
qed

lemma flags_ok_append:
  assumes "flags_ok e f ps"
  shows "flags_ok e (make_flags (flag_index e f n) (flag_symbol e f n) na en)
      (ps @ [\<lparr>m_propertyName = n, m_descriptor = d\<rparr>])"
  using assms by (auto simp: flags_ok_def make_flags_def flag_index_def flag_symbol_def)

lemma atomic_flag_append:
  assumes "atomic_flag_ok f ps"
  shows "atomic_flag_ok (make_flags ix sy (flag_non_atomic f n) en)
      (ps @ [\<lparr>m_propertyName = n, m_descriptor = d\<rparr>])"
  using assms by (auto simp: atomic_flag_ok_def make_flags_def flag_non_atomic_def)

lemma recompute_flags_ok: "flags_ok e (recompute_flags e b ps) ps"
  by (auto simp: flags_ok_def recompute_flags_def make_flags_def list_ex_iff)

lemma recompute_atomic_ok: "atomic_flag_ok (recompute_flags e True ps) ps"
  by (auto simp: atomic_flag_ok_def recompute_flags_def make_flags_def list_ex_iff)

lemma copy_flags_ok [simp]:
  "flags_ok e (copy_flags f) ps = flags_ok e f ps"
  "atomic_flag_ok (copy_flags f) ps = atomic_flag_ok f ps"
  "flags_ok e (f\<lparr>m_hasNonAtomicPropertyName := b\<rparr>) ps = flags_ok e f ps"
  by (simp_all add: flags_ok_def atomic_flag_ok_def copy_flags_def)

end
