(* ===== verification/Hidden_Class.thy ===== *)
theory Hidden_Class
  imports Structure_Invariant
begin

text \<open>
  Correctness of the operations on hidden classes: the three classes with their searches, flags,
  transition tables, name maps and vector hand-over refine one specification, an ordered list of
  property keys with their descriptors. The section on clients states the contract as a locale
  and proves, for any number of objects that share structures and any inline caches, that no
  operation ever meets a null vector.
\<close>

section \<open>Specification\<close>

definition abs_items :: "senv \<Rightarrow> structure_heap \<Rightarrow> nat \<Rightarrow> (property_key \<times> pdesc) list option" where
  "abs_items e hp s = map_option (map (\<lambda>x. (item_key e x, m_descriptor x))) (properties hp s)"

definition spec_find :: "(property_key \<times> pdesc) list \<Rightarrow> property_key \<Rightarrow> nat option" where
  "spec_find qs k = find_index (\<lambda>(k', d). k' = k) qs"

definition in_transition :: "structure_heap \<Rightarrow> nat \<Rightarrow> bool" where
  "in_transition hp s \<longleftrightarrow> (\<exists>x. h_structs hp s = Some x \<and> inTransitionMode x)"

text \<open>A structure that several objects or an inline cache may refer to.\<close>

definition pinned :: "structure_heap \<Rightarrow> nat \<Rightarrow> bool" where
  "pinned hp s \<longleftrightarrow>
     (\<exists>x. h_structs hp s = Some x \<and> (inTransitionMode x \<or> m_isReferencedByInlineCache (flags_of x)))"

definition op_ok ::
    "senv \<Rightarrow> structure_heap \<Rightarrow> nat \<Rightarrow> (structure_heap \<times> nat) option \<Rightarrow>
     (property_key \<times> pdesc) list \<Rightarrow> bool" where
  "op_ok e hp s r qs \<longleftrightarrow>
     (\<exists>hp' s'. r = Some (hp', s') \<and> heap_ok e hp' \<and> abs_items e hp' s' = Some qs \<and>
        frame (if pinned hp s then {} else {s}) hp hp' \<and>
        (h_structs hp s' = None \<or> in_transition hp' s'))"

text \<open>
  The requirement of the hash maps on their keys, for the names of one vector and one name that
  is looked up: equal names have equal hashes.
\<close>

definition hash_agrees :: "senv \<Rightarrow> structure_item list \<Rightarrow> pname \<Rightarrow> bool" where
  "hash_agrees e ps n \<longleftrightarrow>
     (\<forall>x \<in> set ps. item_key e x = key_of (e_heap e) n \<longrightarrow> e_hash e (m_propertyName x) = e_hash e n)"

text \<open>
  \<^verbatim>\<open>hashValue\<close> gives equal names equal hashes when both are interned or neither is, and in general
  only then (\<^verbatim>\<open>name_hash_disagrees_with_eq\<close>).
\<close>

lemma same_form_hash:
  assumes "name_ok (e_atoms e) a" "name_ok (e_atoms e) b" "key_of (e_heap e) a = key_of (e_heap e) b"
    and "hasAtomicString a = hasAtomicString b"
  shows "e_hash e a = e_hash e b"
proof (cases "hasAtomicString a")
  case True
  with name_eq_key [OF assms(1,2)] assms(3,4) have "a = b" by (simp add: name_eq_def)
  then show ?thesis by simp
next
  case False
  with assms(3,4) show ?thesis
    by (auto simp: e_hash_def name_hashValue_def key_of_plain split: if_splits)
qed

section \<open>Searching\<close>

lemma find_in_items_eq:
  "find_in_items e f ps s =
     pname.fast_find (e_atoms e) (m_hasNonAtomicPropertyName f) (m_hasSymbolPropertyName f)
       (map m_propertyName ps) s"
  by (simp add: find_in_items_def pname.fast_find_def find_index_map)

lemma find_in_items_key:
  assumes "items_ok e ps" "flags_ok e f ps" "atomic_flag_ok f ps" "name_ok (e_atoms e) n"
  shows "find_in_items e f ps n = find_index (\<lambda>x. item_key e x = key_of (e_heap e) n) ps"
proof -
  have "find_in_items e f ps n =
      find_index (\<lambda>m. key_of (e_heap e) m = key_of (e_heap e) n) (map m_propertyName ps)"
    unfolding find_in_items_eq
    by (rule pname.fast_find_eq_key_search)
      (use assms in \<open>auto simp: items_ok_def flags_ok_def atomic_flag_ok_def\<close>)
  then show ?thesis by (simp add: find_index_map)
qed

lemma nmap_find_zip:
  assumes "hash_agrees e ps n" "\<forall>x \<in> set ps. name_ok (e_atoms e) (m_propertyName x)"
    and "name_ok (e_atoms e) n"
  shows "nmap_find e (zip (map m_propertyName ps) [i..<i + length ps]) n =
     map_option (\<lambda>j. i + j) (find_index (\<lambda>x. item_key e x = key_of (e_heap e) n) ps)"
  using assms(1,2)
proof (induction ps arbitrary: i)
  case Nil
  then show ?case by (simp add: nmap_find_def)
next
  case (Cons x xs)
  let ?k = "m_propertyName x"
  have ok: "name_ok (e_atoms e) ?k" using Cons.prems by simp
  have test: "(e_hash e ?k = e_hash e n \<and> name_eq (e_heap e) ?k n) \<longleftrightarrow>
      item_key e x = key_of (e_heap e) n"
    using name_eq_key [OF ok assms(3)] Cons.prems(1) by (auto simp: hash_agrees_def)
  have zip: "zip (map m_propertyName (x # xs)) [i..<i + length (x # xs)] =
      (?k, i) # zip (map m_propertyName xs) [Suc i..<Suc i + length xs]"
    by (simp add: upt_conv_Cons del: upt_Suc)
  have IH: "nmap_find e (zip (map m_propertyName xs) [Suc i..<Suc i + length xs]) n =
      map_option (\<lambda>j. Suc i + j) (find_index (\<lambda>x. item_key e x = key_of (e_heap e) n) xs)"
    using Cons.prems by (intro Cons.IH) (simp_all add: hash_agrees_def)
  show ?case
  proof (cases "item_key e x = key_of (e_heap e) n")
    case True
    with test show ?thesis unfolding zip nmap_find_def find_index_Cons by simp
  next
    case False
    then have "nmap_find e ((?k, i) # zip (map m_propertyName xs) [Suc i..<Suc i + length xs]) n =
        nmap_find e (zip (map m_propertyName xs) [Suc i..<Suc i + length xs]) n"
      using test unfolding nmap_find_def List.find.simps by (simp only: split if_False)
    with False IH show ?thesis
      unfolding zip by (simp only: find_index_Cons if_False option.map_comp comp_def add_Suc add_Suc_right)
  qed
qed

lemma nmap_find_key:
  assumes "hash_agrees e ps n" "items_ok e ps" "nmap_ok mp ps" "name_ok (e_atoms e) n"
  shows "nmap_find e mp n = find_index (\<lambda>x. item_key e x = key_of (e_heap e) n) ps"
  using nmap_find_zip [OF assms(1) _ assms(4), of 0] assms(2,3)
  by (simp add: items_ok_def nmap_ok_def option.map_ident)

text \<open>A name whose key is absent is not found, whatever the hashes are.\<close>

lemma nmap_find_absent:
  assumes "\<forall>x \<in> set ps. name_ok (e_atoms e) (m_propertyName x) \<and> item_key e x \<noteq> key_of (e_heap e) n"
    and "name_ok (e_atoms e) n" "nmap_ok mp ps"
  shows "nmap_find e mp n = None"
proof -
  have "\<not> name_eq (e_heap e) k n" if "(k, i) \<in> set mp" for k i
  proof -
    have "k \<in> set (map m_propertyName ps)"
      using that assms(3) by (auto simp: nmap_ok_def dest: set_zip_leftD)
    then show ?thesis using assms(1,2) name_eq_key by auto
  qed
  then have "List.find (\<lambda>(k, i). e_hash e k = e_hash e n \<and> name_eq (e_heap e) k n) mp = None"
    unfolding find_None_iff by blast
  then show ?thesis unfolding nmap_find_def by (simp only: option.map)
qed

lemma zip_snoc:
  "zip (map f (xs @ [x])) [0..<length (xs @ [x])] = zip (map f xs) [0..<length xs] @ [(f x, length xs)]"
  by (simp add: zip_append1)

lemma nmap_insert_ok:
  assumes "items_ok e ps" "name_ok (e_atoms e) n" "nmap_ok mp ps"
    and "\<forall>x \<in> set ps. item_key e x \<noteq> key_of (e_heap e) n"
  shows "nmap_ok (nmap_insert e mp n (length ps)) (ps @ [\<lparr>m_propertyName = n, m_descriptor = d\<rparr>])"
proof -
  have "nmap_find e mp n = None"
    using assms by (intro nmap_find_absent [of ps]) (auto simp: items_ok_def)
  then have ins: "nmap_insert e mp n (length ps) = mp @ [(n, length ps)]"
    unfolding nmap_insert_def by (rule if_P)
  from assms(3) show ?thesis unfolding ins nmap_ok_def zip_snoc by (simp only: structure_item.simps)
qed

lemma items_ok_split:
  assumes "items_ok e (ps @ q # qs)"
  shows "items_ok e ps \<and> name_ok (e_atoms e) (m_propertyName q) \<and>
     (\<forall>x \<in> set ps. item_key e x \<noteq> item_key e q)"
proof -
  have "item_key e q \<notin> set (map (item_key e) ps)"
    using assms by (auto simp: items_ok_def)
  then have "\<forall>x \<in> set ps. item_key e x \<noteq> item_key e q" by (metis imageI set_map)
  moreover have "items_ok e ps" "name_ok (e_atoms e) (m_propertyName q)"
    using assms unfolding items_ok_def by simp_all
  ultimately show ?thesis by blast
qed

lemma createPropertyNameMap_loop_ok:
  assumes "items_ok e (ps @ qs)" "nmap_ok mp ps"
  shows "nmap_ok (createPropertyNameMap_loop e (length ps) qs mp) (ps @ qs)"
  using assms
proof (induction qs arbitrary: ps mp)
  case Nil
  then show ?case by simp
next
  case (Cons q qs)
  have q: "\<lparr>m_propertyName = m_propertyName q, m_descriptor = m_descriptor q\<rparr> = q" by simp
  have i: "items_ok e ((ps @ [q]) @ qs)" using Cons.prems(1) by (simp only: append.simps append_assoc)
  have "items_ok e ps \<and> name_ok (e_atoms e) (m_propertyName q) \<and>
      (\<forall>x \<in> set ps. item_key e x \<noteq> item_key e q)"
    by (rule items_ok_split [OF Cons.prems(1)])
  then have "nmap_ok (nmap_insert e mp (m_propertyName q) (length ps)) (ps @ [q])"
    using nmap_insert_ok [OF _ _ Cons.prems(2), of e "m_propertyName q" "m_descriptor q"]
    unfolding q by blast
  from Cons.IH [OF i this] show ?case by (simp only: createPropertyNameMap_loop.simps length_append_singleton append.simps append_assoc)
qed

lemma createPropertyNameMap_ok: "items_ok e ps \<Longrightarrow> nmap_ok (createPropertyNameMap e ps) ps"
  using createPropertyNameMap_loop_ok [of e "[]" ps "[]"]
  by (simp add: createPropertyNameMap_def nmap_ok_def)

lemma findProperty_key:
  assumes ok: "heap_ok e hp" and n: "name_ok (e_atoms e) n" and ps: "properties hp s = Some ps"
    and h: "\<forall>f v m. h_structs hp s = Some (WithMap f v m) \<longrightarrow> hash_agrees e ps n"
  shows "findProperty e hp s n = Some (find_index (\<lambda>x. item_key e x = key_of (e_heap e) n) ps)"
proof -
  obtain x where x: "h_structs hp s = Some x" "struct_items hp x = Some ps"
    using ps by (auto simp: properties_def bind_eq_Some_conv)
  note sok = heap_okD(2) [OF ok x(1)]
  note i = struct_items_ok [OF sok x(2)]
  show ?thesis
  proof (cases x)
    case (WithoutTransition f v)
    then have "atomic_flag_ok f ps" using sok x(2) by (cases v) auto
    with WithoutTransition i x n show ?thesis
      by (simp add: findProperty_def find_without_transition_def find_in_items_key)
  next
    case (WithTransition f ps' t)
    with sok i x n show ?thesis by (simp add: findProperty_def find_with_transition_def find_in_items_key)
  next
    case (WithMap f v m)
    with sok x(2) obtain va ma mp where "v = Some va" "m = Some ma" "h_vecs hp va = Some ps"
      "h_maps hp ma = Some mp" "nmap_ok mp ps" by auto
    with WithMap x i n h show ?thesis by (simp add: findProperty_def find_with_map_def nmap_find_key)
  qed
qed

section \<open>Publishing a new structure\<close>

text \<open>
  Every operation that makes a structure ends in the same way: the heap is good, the structures
  others see are as before, and a structure is allocated that owns its vector and its map.
\<close>

lemma publish:
  assumes ok: "heap_ok e hp" and ok1: "heap_ok e hp1"
    and fr: "frame (if pinned hp s then {} else {s}) hp hp1"
    and y: "struct_ok e hp1 y" "\<And>v. vec_ptr y = Some v \<Longrightarrow> unowned_vec hp1 v"
      "\<And>m. map_ptr y = Some m \<Longrightarrow> unowned_map hp1 m"
    and items: "struct_items hp1 y = Some ps'"
    and qs: "qs = map (\<lambda>x. (item_key e x, m_descriptor x)) ps'"
  shows "op_ok e hp s (Some (new_struct hp1 y)) qs"
proof -
  obtain hp' s' where r: "new_struct hp1 y = (hp', s')" by force
  note n = new_struct_ok [OF ok1 y(1) r y(2,3)]
  have "h_next hp \<le> s'" using fr n(7) by (simp add: frame_def)
  then have "h_structs hp s' = None"
    using heap_okD(1) [OF ok, of s'] by (cases "h_structs hp s'") auto
  moreover have "abs_items e hp' s' = Some qs" using n(4) items qs by (simp add: abs_items_def)
  ultimately show ?thesis
    using n(1) frame_trans [OF fr n(2)] r unfolding op_ok_def by blast
qed

text \<open>A structure that is not referenced by a cache hands its changed vector over.\<close>

lemma hand_over:
  fixes ps' :: "structure_item list"
  assumes ok: "heap_ok e hp" and x: "h_structs hp s = Some x" and v: "vec_ptr x = Some va"
  defines "hp1 \<equiv> set_struct (set_vec hp va ps') s (detached x)"
  shows "heap_ok e hp1" "frame {s} hp hp1" "unowned_vec hp1 va" "h_vecs hp1 va = Some ps'"
    and "h_maps hp1 = h_maps hp" "map_ptr x = Some m \<Longrightarrow> unowned_map hp1 m"
proof -
  let ?hp0 = "set_struct hp s (detached x)"
  note d = detach_ok [OF ok x]
  have a: "h_vecs ?hp0 va \<noteq> None"
    using vec_ptr_alive [OF heap_okD(2) [OF ok x] v] by (simp add: set_struct_def)
  have eq: "hp1 = set_vec ?hp0 va ps'" by (simp add: hp1_def set_vec_def set_struct_def)
  note w = set_vec_ok [OF d(1) d(3) [OF v] a]
  show "heap_ok e hp1" unfolding eq by (rule w(1))
  show "frame {s} hp hp1" unfolding eq using d(2) w(2) by (rule frame_trans)
  show "unowned_vec hp1 va" using d(3) [OF v] by (simp add: eq unowned_vec_def set_vec_def)
  show "h_vecs hp1 va = Some ps'" "h_maps hp1 = h_maps hp"
    by (simp_all add: hp1_def set_vec_def set_struct_def)
  show "unowned_map hp1 m" if "map_ptr x = Some m"
    using d(4) [OF that] by (simp add: eq unowned_map_def set_vec_def)
qed

lemma hand_over_map:
  fixes ps' :: "structure_item list" and mp' :: "(pname \<times> nat) list"
  assumes ok: "heap_ok e hp" and x: "h_structs hp s = Some x"
    and v: "vec_ptr x = Some va" and m: "map_ptr x = Some ma"
  defines "hp1 \<equiv> set_struct (set_map (set_vec hp va ps') ma mp') s (detached x)"
  shows "heap_ok e hp1" "frame {s} hp hp1" "unowned_vec hp1 va" "h_vecs hp1 va = Some ps'"
    and "unowned_map hp1 ma" "h_maps hp1 ma = Some mp'"
proof -
  let ?hp0 = "set_struct (set_vec hp va ps') s (detached x)"
  note d = hand_over [OF ok x v, where ps' = ps']
  have a: "h_maps ?hp0 ma \<noteq> None"
    using map_ptr_alive [OF heap_okD(2) [OF ok x] m] d(5) by simp
  have eq: "hp1 = set_map ?hp0 ma mp'" by (simp add: hp1_def set_map_def set_vec_def set_struct_def)
  note w = set_map_ok [OF d(1) d(6) [OF m] a]
  show "heap_ok e hp1" unfolding eq by (rule w(1))
  show "frame {s} hp hp1" unfolding eq using d(2) w(2) by (rule frame_trans)
  show "unowned_vec hp1 va" using d(3) by (simp add: eq unowned_vec_def set_map_def)
  show "unowned_map hp1 ma" using d(6) [OF m] by (simp add: eq unowned_map_def set_map_def)
  show "h_vecs hp1 va = Some ps'" "h_maps hp1 ma = Some mp'"
    by (simp_all add: hp1_def set_map_def set_vec_def set_struct_def)
qed

section \<open>Operations\<close>

lemma createPropertyNameMap_vec_ok:
  assumes ok: "heap_ok e hp" and v: "h_vecs hp va = Some ps" "unowned_vec hp va"
    and i: "items_ok e ps" "flags_ok e f ps" and m: "new_map hp (createPropertyNameMap e ps) = (hp', ma)"
  defines "y \<equiv> WithMap f (Some va) (Some ma)"
  shows "struct_ok e hp' y" "\<And>v. vec_ptr y = Some v \<Longrightarrow> unowned_vec hp' v"
    "\<And>m. map_ptr y = Some m \<Longrightarrow> unowned_map hp' m" "struct_items hp' y = Some ps"
proof -
  note n = new_map_ok [OF ok m]
  show "struct_ok e hp' y" "struct_items hp' y = Some ps"
    using n(4,6) v i createPropertyNameMap_ok [OF i(1)] by (simp_all add: y_def)
  show "\<And>v. vec_ptr y = Some v \<Longrightarrow> unowned_vec hp' v"
    using v(2) n(5) by (simp add: y_def unowned_vec_def)
  show "\<And>m. map_ptr y = Some m \<Longrightarrow> unowned_map hp' m"
    using n(3) by (simp add: y_def)
qed

text \<open>A structure over a vector nobody owns, with or without a name map.\<close>

lemma publish_vec:
  assumes ok: "heap_ok e hp" and ok1: "heap_ok e hp1"
    and fr: "frame (if pinned hp s then {} else {s}) hp hp1"
    and v: "h_vecs hp1 va = Some ps'" "unowned_vec hp1 va"
    and i: "items_ok e ps'" "flags_ok e f ps'" "atomic_flag_ok f ps'"
    and qs: "qs = map (\<lambda>x. (item_key e x, m_descriptor x)) ps'"
  shows "op_ok e hp s (Some (new_struct hp1 (WithoutTransition f (Some va)))) qs"
  by (rule publish [OF ok ok1 fr _ _ _ _ qs]) (use v i in simp_all)

lemma publish_map:
  assumes ok: "heap_ok e hp" and ok1: "heap_ok e hp1"
    and fr: "frame (if pinned hp s then {} else {s}) hp hp1"
    and v: "h_vecs hp1 va = Some ps'" "unowned_vec hp1 va"
    and i: "items_ok e ps'" "flags_ok e f ps'"
    and m: "new_map hp1 (createPropertyNameMap e ps') = (hp2, ma)"
    and qs: "qs = map (\<lambda>x. (item_key e x, m_descriptor x)) ps'"
  shows "op_ok e hp s (Some (new_struct hp2 (WithMap f (Some va) (Some ma)))) qs"
proof -
  note n = new_map_ok [OF ok1 m]
  note c = createPropertyNameMap_vec_ok [OF ok1 v i m]
  show ?thesis by (rule publish [OF ok n(1) frame_trans [OF fr n(2)] c qs])
qed

lemma add_without_transition_ok:
  assumes ok: "heap_ok e hp" and x: "h_structs hp s = Some (WithoutTransition f v)"
    and ps: "properties hp s = Some ps" and n: "name_ok (e_atoms e) n"
    and new: "\<forall>x \<in> set ps. item_key e x \<noteq> key_of (e_heap e) n"
  shows "op_ok e hp s (add_without_transition e hp s f v n d)
     (map (\<lambda>x. (item_key e x, m_descriptor x)) ps @ [(key_of (e_heap e) n, d)])"
proof -
  let ?item = "\<lparr>m_propertyName = n, m_descriptor = d\<rparr>"
  let ?q = "map (\<lambda>x. (item_key e x, m_descriptor x)) (ps @ [?item])"
  obtain va where v: "v = Some va" "h_vecs hp va = Some ps"
    using ps x by (auto simp: properties_def bind_eq_Some_conv)
  have sok: "items_ok e ps" "flags_ok e f ps" "atomic_flag_ok f ps"
    using heap_okD(2) [OF ok x] v by auto
  have i: "items_ok e (ps @ [?item])" using items_ok_append [OF sok(1) n new] .
  have pin: "pinned hp s = m_isReferencedByInlineCache f" using x by (simp add: pinned_def)
  obtain hp1 va' where r: "(if m_isReferencedByInlineCache f then new_vec hp (ps @ [?item])
      else (set_struct (set_vec hp va (ps @ [?item])) s (WithoutTransition f None), va)) = (hp1, va')"
    by force
  have h: "heap_ok e hp1 \<and> frame (if pinned hp s then {} else {s}) hp hp1 \<and>
      h_vecs hp1 va' = Some (ps @ [?item]) \<and> unowned_vec hp1 va'"
  proof (cases "m_isReferencedByInlineCache f")
    case True
    with r new_vec_ok [OF ok, of "ps @ [?item]" hp1 va'] show ?thesis by simp
  next
    case False
    with r hand_over [OF ok x, where ps' = "ps @ [?item]" and va = va] v pin show ?thesis by auto
  qed
  obtain hp2 ma where m: "new_map hp1 (createPropertyNameMap e (ps @ [?item])) = (hp2, ma)" by force
  note fl = flags_ok_append [OF sok(2), of n _ _ d] atomic_flag_append [OF sok(3), of _ _ n _ d]
  have "op_ok e hp s (add_without_transition e hp s f v n d) ?q"
    unfolding add_without_transition_def v option.case Let_def r split m
    by (rule if_split [THEN iffD2]) (use h fl m i in
      \<open>auto intro!: publish_map [OF ok, where ps' = "ps @ [?item]"]
                    publish_vec [OF ok, where ps' = "ps @ [?item]"]\<close>)
  then show ?thesis by simp
qed

text \<open>The same for a structure over a vector and a map that are both already there.\<close>

lemma publish_both:
  assumes ok: "heap_ok e hp" and ok1: "heap_ok e hp1"
    and fr: "frame (if pinned hp s then {} else {s}) hp hp1"
    and v: "h_vecs hp1 va = Some ps'" "unowned_vec hp1 va" "h_maps hp1 ma = Some mp'" "unowned_map hp1 ma"
    and i: "items_ok e ps'" "flags_ok e f ps'" "nmap_ok mp' ps'"
    and qs: "qs = map (\<lambda>x. (item_key e x, m_descriptor x)) ps'"
  shows "op_ok e hp s (Some (new_struct hp1 (WithMap f (Some va) (Some ma)))) qs"
  by (rule publish [OF ok ok1 fr _ _ _ _ qs]) (use v i in simp_all)

text \<open>A fresh vector and a fresh map, as an inline-cached structure needs.\<close>

lemma copy_both:
  assumes ok: "heap_ok e hp" and r: "new_vec hp ps' = (hp1, va)" "new_map hp1 mp' = (hp2, ma)"
  shows "heap_ok e hp2 \<and> frame S hp hp2 \<and> h_vecs hp2 va = Some ps' \<and> unowned_vec hp2 va \<and>
    h_maps hp2 ma = Some mp' \<and> unowned_map hp2 ma"
proof -
  note a = new_vec_ok [OF ok r(1)]
  note b = new_map_ok [OF a(1) r(2)]
  show ?thesis using a b frame_trans [OF a(2) b(2)] by (simp add: unowned_vec_def)
qed

lemma with_map_parts:
  assumes ok: "heap_ok e hp" and x: "h_structs hp s = Some (WithMap f v m)"
    and ps: "properties hp s = Some ps"
  obtains va ma mp where "v = Some va" "m = Some ma" "h_vecs hp va = Some ps" "h_maps hp ma = Some mp"
    "items_ok e ps" "flags_ok e f ps" "nmap_ok mp ps"
  using heap_okD(2) [OF ok x] ps x by (auto simp: properties_def)

lemma add_with_map_ok:
  assumes ok: "heap_ok e hp" and x: "h_structs hp s = Some (WithMap f v m)"
    and ps: "properties hp s = Some ps" and n: "name_ok (e_atoms e) n"
    and new: "\<forall>x \<in> set ps. item_key e x \<noteq> key_of (e_heap e) n"
  shows "op_ok e hp s (add_with_map e hp s f v m n d)
     (map (\<lambda>x. (item_key e x, m_descriptor x)) ps @ [(key_of (e_heap e) n, d)])"
proof -
  let ?ps = "ps @ [\<lparr>m_propertyName = n, m_descriptor = d\<rparr>]"
  obtain va ma mp where v: "v = Some va" "m = Some ma" "h_vecs hp va = Some ps" "h_maps hp ma = Some mp"
    and sok: "items_ok e ps" "flags_ok e f ps" "nmap_ok mp ps"
    using with_map_parts [OF ok x ps] .
  let ?mp = "nmap_insert e mp n (length ps)"
  have i: "items_ok e ?ps" "nmap_ok ?mp ?ps"
    using items_ok_append [OF sok(1) n new] nmap_insert_ok [OF sok(1) n sok(3) new] by auto
  have pin: "pinned hp s = m_isReferencedByInlineCache f" using x by (simp add: pinned_def)
  obtain hp2 va' ma' where r: "(if m_isReferencedByInlineCache f
      then let (hp1, va') = new_vec hp ?ps; (hp2, ma') = new_map hp1 ?mp in (hp2, va', ma')
      else (set_struct (set_map (set_vec hp va ?ps) ma ?mp) s (WithMap f None None), va, ma)) =
      (hp2, va', ma')"
    by (rule prod_cases3)
  have h: "heap_ok e hp2 \<and> frame (if pinned hp s then {} else {s}) hp hp2 \<and>
      h_vecs hp2 va' = Some ?ps \<and> unowned_vec hp2 va' \<and> h_maps hp2 ma' = Some ?mp \<and>
      unowned_map hp2 ma'"
  proof (cases "m_isReferencedByInlineCache f")
    case True
    obtain hp1 va1 where r1: "new_vec hp ?ps = (hp1, va1)" by force
    obtain hp3 ma1 where r2: "new_map hp1 ?mp = (hp3, ma1)" by force
    from True r r1 r2 have "hp3 = hp2" "va1 = va'" "ma1 = ma'" by (simp_all add: Let_def)
    with copy_both [OF ok r1 r2] show ?thesis by simp
  next
    case False
    with r hand_over_map [OF ok x, where ps' = ?ps and mp' = ?mp and va = va and ma = ma] v pin
    show ?thesis by auto
  qed
  have "op_ok e hp s (add_with_map e hp s f v m n d)
      (map (\<lambda>x. (item_key e x, m_descriptor x)) ?ps)"
    unfolding add_with_map_def v option.case prod.case Let_def [of ?mp] Let_def [of ?ps] r
    by (simp only: Let_def prod.case) (use h i flags_ok_append [OF sok(2)] in
      \<open>blast intro: publish_both [OF ok, where ps' = ?ps and mp' = ?mp]\<close>)
  then show ?thesis by simp
qed

text \<open>Growing the transition table keeps its bounds and changes nothing a client can see.\<close>

lemma fast_log2_bounds: "n \<noteq> 0 \<Longrightarrow> 2 ^ fast_log2 n \<le> n \<and> n < 2 ^ Suc (fast_log2 n)"
proof (induction n rule: fast_log2.induct)
  case (1 n)
  show ?case
  proof (cases "n < 2")
    case True
    with 1 show ?thesis by (simp add: fast_log2.simps [of n])
  next
    case False
    with 1 have "2 ^ fast_log2 (n div 2) \<le> n div 2 \<and> n div 2 < 2 ^ Suc (fast_log2 (n div 2))" by simp
    with False show ?thesis by (simp add: fast_log2.simps [of n]) linarith
  qed
qed

lemma computeVectorAllocateSize_grows:
  "n < computeVectorAllocateSize n" "n \<noteq> 0 \<Longrightarrow> computeVectorAllocateSize n \<le> 2 * n"
  using fast_log2_bounds [of n] by (auto simp: computeVectorAllocateSize_def)

lemma capacity_ok_add: "capacity_ok t \<Longrightarrow> capacity_ok (add_transition t x)"
  using computeVectorAllocateSize_grows [of "length (tt_items t) + 1"]
  by (cases t) (auto simp: add_transition_def)

lemma add_transition_items [simp]: "tt_items (add_transition t x) = tt_items t @ [x]"
  by (cases t) (auto simp: add_transition_def)

lemma find_transition_Some:
  assumes "find_transition e t n d = Some s'"
  obtains x where "x \<in> set (tt_items t)" "t_structure x = s'" "t_descriptor x = d"
    "name_eq (e_heap e) (t_propertyName x) n"
  using assms
  by (cases t) (fastforce simp: find_transition_def find_Some_iff set_conv_nth)+

lemma record_transition_ok:
  assumes ok: "heap_ok e hp" and x: "h_structs hp s = Some (WithTransition f ps t)"
    and n: "name_ok (e_atoms e) n"
    and s': "h_structs hp s' = Some (WithTransition f' (ps @ [\<lparr>m_propertyName = n, m_descriptor = d\<rparr>]) t')"
  defines "y \<equiv> WithTransition f ps (add_transition t \<lparr>t_propertyName = n, t_descriptor = d, t_structure = s'\<rparr>)"
  shows "heap_ok e (set_struct hp s y)" "frame {} hp (set_struct hp s y)"
    "properties (set_struct hp s y) s' = properties hp s'" "in_transition (set_struct hp s y) s'"
proof -
  let ?hp = "set_struct hp s y"
  have sok: "struct_ok e hp (WithTransition f ps t)" using heap_okD(2) [OF ok x] .
  have ne: "s' \<noteq> s" using x s' by auto
  have keep: "\<exists>f' t'. h_structs ?hp u = Some (WithTransition f' qs t')"
    if "h_structs hp u = Some (WithTransition f'' qs t'')" for u f'' qs t''
    using that x by (auto simp: set_struct_def y_def)
  have "targets_ok e hp ps (add_transition t \<lparr>t_propertyName = n, t_descriptor = d, t_structure = s'\<rparr>)"
    using sok n s' by (auto simp: targets_ok_def)
  then have "targets_ok e ?hp ps (add_transition t \<lparr>t_propertyName = n, t_descriptor = d, t_structure = s'\<rparr>)"
    unfolding targets_ok_def using keep by meson
  then have yok: "struct_ok e ?hp y" using sok capacity_ok_add by (simp add: y_def)
  have "heap_ok e ?hp \<and> frame {s} hp ?hp"
    by (intro conjI set_struct_ok [OF ok x yok]) (simp_all add: y_def)
  moreover have "same_struct hp ?hp s"
    using x by (simp add: same_struct_def properties_def set_struct_def y_def)
  ultimately show "heap_ok e ?hp" "frame {} hp ?hp" by (auto simp: frame_def)
  show "properties ?hp s' = properties hp s'"
    using ne s' by (simp add: properties_def set_struct_def)
  show "in_transition ?hp s'" using ne s' by (simp add: in_transition_def set_struct_def)
qed

lemma find_transition_ok:
  assumes ok: "heap_ok e hp" and x: "h_structs hp s = Some (WithTransition f ps t)"
    and n: "name_ok (e_atoms e) n" and r: "find_transition e t n d = Some s'"
  shows "op_ok e hp s (Some (hp, s'))
     (map (\<lambda>x. (item_key e x, m_descriptor x)) ps @ [(key_of (e_heap e) n, d)])"
proof -
  obtain i where i: "i \<in> set (tt_items t)" "t_structure i = s'" "t_descriptor i = d"
    "name_eq (e_heap e) (t_propertyName i) n" using find_transition_Some [OF r] .
  have "targets_ok e hp ps t" using heap_okD(2) [OF ok x] by simp
  with i obtain f' t' where i': "name_ok (e_atoms e) (t_propertyName i)" and s': "h_structs hp s' =
      Some (WithTransition f' (ps @ [\<lparr>m_propertyName = t_propertyName i, m_descriptor = d\<rparr>]) t')"
    unfolding targets_ok_def by blast
  have "key_of (e_heap e) (t_propertyName i) = key_of (e_heap e) n"
    using name_eq_key [OF i' n] i(4) by simp
  with s' ok show ?thesis
    by (simp add: op_ok_def abs_items_def properties_def in_transition_def)
qed

lemma add_with_transition_ok:
  assumes ok: "heap_ok e hp" and x: "h_structs hp s = Some (WithTransition f ps t)"
    and n: "name_ok (e_atoms e) n" and new: "\<forall>x \<in> set ps. item_key e x \<noteq> key_of (e_heap e) n"
  shows "op_ok e hp s (add_with_transition e hp s f ps t n d)
     (map (\<lambda>x. (item_key e x, m_descriptor x)) ps @ [(key_of (e_heap e) n, d)])"
proof (cases "find_transition e t n d")
  case (Some s')
  with find_transition_ok [OF ok x n Some] show ?thesis by (simp add: add_with_transition_def)
next
  case None
  let ?ps = "ps @ [\<lparr>m_propertyName = n, m_descriptor = d\<rparr>]"
  let ?fl = "\<lambda>na. make_flags (flag_index e f n) (flag_symbol e f n) na (flag_enumerable e f d)"
  let ?q = "map (\<lambda>x. (item_key e x, m_descriptor x)) ?ps"
  have sok: "items_ok e ps" "flags_ok e f ps" "atomic_flag_ok f ps" using heap_okD(2) [OF ok x] by auto
  have i: "items_ok e ?ps" using items_ok_append [OF sok(1) n new] .
  have fl: "flags_ok e (?fl na) ?ps" for na using flags_ok_append [OF sok(2)] .
  have at: "atomic_flag_ok (?fl (flag_non_atomic f n)) ?ps" using atomic_flag_append [OF sok(3)] .
  obtain hp1 va where r1: "new_vec hp ?ps = (hp1, va)" by force
  note v = new_vec_ok [OF ok r1]
  obtain hp2 ma where r2: "new_map hp1 (createPropertyNameMap e ?ps) = (hp2, ma)" by force
  have A: "op_ok e hp s (Some (new_struct hp2 (WithMap (?fl False) (Some va) (Some ma)))) ?q"
    by (rule publish_map [OF ok v(1,2,4,3) i fl r2 refl])
  have B: "op_ok e hp s (Some (new_struct hp1
      (WithoutTransition (?fl (flag_non_atomic f n)) (Some va)))) ?q"
    by (rule publish_vec [OF ok v(1,2,4,3) i fl at refl])
  let ?y = "WithTransition (?fl (flag_non_atomic f n)) ?ps (TransitionVector [] 0)"
  obtain hp3 s' where r3: "new_struct hp ?y = (hp3, s')" by force
  have yok: "struct_ok e hp ?y" using i fl at by (simp add: targets_ok_def)
  note w = new_struct_ok [OF ok yok r3, simplified]
  have x3: "h_structs hp3 s = Some (WithTransition f ps t)"
    using r3 x heap_okD(1) [OF ok x] by (auto simp: new_struct_def)
  note z = record_transition_ok [OF w(1) x3 n w(3)]
  have C: "op_ok e hp s (Some (set_struct hp3 s (WithTransition f ps (add_transition t
      \<lparr>t_propertyName = n, t_descriptor = d, t_structure = s'\<rparr>)), s')) ?q"
    unfolding op_ok_def
    using z frame_trans [OF w(2) [of "{}"] z(2)] w(4,5) x by (auto simp: abs_items_def pinned_def)
  have "op_ok e hp s (add_with_transition e hp s f ps t n d) ?q"
    unfolding add_with_transition_def None option.case Let_def r1 r2 r3 split
    using A B C by (simp only: split: if_split) blast
  then show ?thesis by simp
qed

lemma addProperty_ok:
  assumes ok: "heap_ok e hp" and n: "name_ok (e_atoms e) n" and qs: "abs_items e hp s = Some qs"
    and new: "spec_find qs (key_of (e_heap e) n) = None"
  shows "op_ok e hp s (addProperty e hp s n d) (qs @ [(key_of (e_heap e) n, d)])"
proof -
  obtain ps where ps: "properties hp s = Some ps"
    and q: "qs = map (\<lambda>x. (item_key e x, m_descriptor x)) ps"
    using qs by (auto simp: abs_items_def)
  have new': "\<forall>x \<in> set ps. item_key e x \<noteq> key_of (e_heap e) n"
    using new by (auto simp: spec_find_def q find_index_None_iff)
  obtain x where x: "h_structs hp s = Some x" using ps by (auto simp: properties_def bind_eq_Some_conv)
  show ?thesis
  proof (cases x)
    case (WithoutTransition f v)
    with x add_without_transition_ok [OF ok _ ps n new'] show ?thesis by (simp add: addProperty_def q)
  next
    case (WithTransition f ps' t)
    then have "ps' = ps" using ps x by (simp add: properties_def)
    with WithTransition x add_with_transition_ok [OF ok _ n new'] show ?thesis
      by (simp add: addProperty_def q)
  next
    case (WithMap f v m)
    with x add_with_map_ok [OF ok _ ps n new'] show ?thesis by (simp add: addProperty_def q)
  qed
qed

text \<open>What \<^verbatim>\<open>removeProperty\<close> leaves of the old structure.\<close>

fun release :: "object_structure \<Rightarrow> object_structure" where
  "release (WithoutTransition f v) =
     WithoutTransition f (if m_isReferencedByInlineCache f then v else None)"
| "release (WithTransition f ps t) = WithTransition f ps t"
| "release (WithMap f v m) =
     (if m_isReferencedByInlineCache f then WithMap f v m else WithMap f None None)"

lemma release_eq:
  "release x = (if m_isReferencedByInlineCache (flags_of x) then x else detached x)"
  by (cases x) auto

lemma abs_itemsE:
  assumes "abs_items e hp s = Some qs"
  obtains x ps where "h_structs hp s = Some x" "struct_items hp x = Some ps" "properties hp s = Some ps"
    "qs = map (\<lambda>x. (item_key e x, m_descriptor x)) ps"
  using assms by (auto simp: abs_items_def properties_def bind_eq_Some_conv)

lemma release_ok:
  assumes ok: "heap_ok e hp" and x: "h_structs hp s = Some x"
  shows "heap_ok e (set_struct hp s (release x))"
    "frame (if pinned hp s then {} else {s}) hp (set_struct hp s (release x))"
proof -
  have "release x = x" if "pinned hp s" using that x by (cases x) (auto simp: pinned_def)
  then show "heap_ok e (set_struct hp s (release x))"
    "frame (if pinned hp s then {} else {s}) hp (set_struct hp s (release x))"
    using detach_ok(1,2) [OF ok x] ok set_struct_triv [OF x] by (simp_all add: release_eq)
qed

lemma removeProperty_ok:
  assumes ok: "heap_ok e hp" and qs: "abs_items e hp s = Some qs" and i: "i < length qs"
  shows "op_ok e hp s (removeProperty e hp s i) (remove_nth i qs)"
proof -
  obtain x ps where x: "h_structs hp s = Some x" "struct_items hp x = Some ps"
    and q: "qs = map (\<lambda>x. (item_key e x, m_descriptor x)) ps" using abs_itemsE [OF qs] .
  let ?ps = "remove_nth i ps"
  have len: "\<not> length ps \<le> i" using i q by simp
  have it: "items_ok e ?ps" using struct_items_ok [OF heap_okD(2) [OF ok x(1)] x(2)] items_ok_remove by blast
  note rel = release_ok [OF ok x(1)]
  obtain hp1 va where r1: "new_vec (set_struct hp s (release x)) ?ps = (hp1, va)" by force
  note v = new_vec_ok [OF rel(1) r1]
  obtain hp2 ma where r2: "new_map hp1 (createPropertyNameMap e ?ps) = (hp2, ma)" by force
  note fr = frame_trans [OF rel(2) v(2)]
  have q': "remove_nth i qs = map (\<lambda>x. (item_key e x, m_descriptor x)) ?ps"
    by (simp add: q map_remove_nth)
  have A: "op_ok e hp s (Some (new_struct hp2 (WithMap (recompute_flags e False ?ps) (Some va) (Some ma))))
      (remove_nth i qs)"
    by (rule publish_map [OF ok v(1) fr v(4,3) it recompute_flags_ok r2 q'])
  have B: "op_ok e hp s (Some (new_struct hp1 (WithoutTransition (recompute_flags e True ?ps) (Some va))))
      (remove_nth i qs)"
    by (rule publish_vec [OF ok v(1) fr v(4,3) it recompute_flags_ok recompute_atomic_ok q'])
  show ?thesis
  proof (cases x)
    case (WithoutTransition f v)
    with A B x len r1 show ?thesis
      by (simp add: removeProperty_def remove_without_transition_def Let_def)
  next
    case (WithTransition f ps' t)
    with B x len r1 set_struct_triv [OF x(1)] show ?thesis
      by (simp add: removeProperty_def remove_with_transition_def Let_def)
  next
    case (WithMap f v m)
    with A B x len r1 r2 show ?thesis by (simp add: removeProperty_def remove_with_map_def Let_def)
  qed
qed

lemma replace_desc_ok:
  assumes "i < length ps"
  shows "items_ok e (replace_desc ps i d) = items_ok e ps"
    "flags_ok e f (replace_desc ps i d) = flags_ok e f ps"
    "atomic_flag_ok f (replace_desc ps i d) = atomic_flag_ok f ps"
    "nmap_ok mp (replace_desc ps i d) = nmap_ok mp ps"
    "map (\<lambda>x. (item_key e x, m_descriptor x)) (replace_desc ps i d) =
      (map (\<lambda>x. (item_key e x, m_descriptor x)) ps)[i := (item_key e (ps ! i), d)]"
  using names_only [OF replace_desc_names [OF assms]] by (simp_all add: replace_desc_def map_update)

lemma replace_with_map_ok:
  assumes ok: "heap_ok e hp" and x: "h_structs hp s = Some (WithMap f v m)"
    and ps: "properties hp s = Some ps" and i: "i < length ps"
  shows "op_ok e hp s (replacePropertyDescriptor e hp s i d)
     (map (\<lambda>x. (item_key e x, m_descriptor x)) (replace_desc ps i d))"
proof -
  let ?ps = "replace_desc ps i d"
  obtain va ma mp where v: "v = Some va" "m = Some ma" "h_vecs hp va = Some ps" "h_maps hp ma = Some mp"
    and sok: "items_ok e ps" "flags_ok e f ps" "nmap_ok mp ps"
    using with_map_parts [OF ok x ps] .
  have pin: "pinned hp s = m_isReferencedByInlineCache f" using x by (simp add: pinned_def)
  obtain hp2 va' ma' where r: "(if m_isReferencedByInlineCache f
      then let (hp1, va') = new_vec hp ?ps; (hp2, ma') = new_map hp1 mp in (hp2, va', ma')
      else (set_struct (set_vec hp va ?ps) s (WithMap f None None), va, ma)) = (hp2, va', ma')"
    by (rule prod_cases3)
  have h: "heap_ok e hp2 \<and> frame (if pinned hp s then {} else {s}) hp hp2 \<and>
      h_vecs hp2 va' = Some ?ps \<and> unowned_vec hp2 va' \<and> h_maps hp2 ma' = Some mp \<and> unowned_map hp2 ma'"
  proof (cases "m_isReferencedByInlineCache f")
    case True
    obtain hp1 va1 where r1: "new_vec hp ?ps = (hp1, va1)" by force
    obtain hp3 ma1 where r2: "new_map hp1 mp = (hp3, ma1)" by force
    from True r r1 r2 have "hp3 = hp2" "va1 = va'" "ma1 = ma'" by (simp_all add: Let_def)
    with copy_both [OF ok r1 r2] show ?thesis by simp
  next
    case False
    with r hand_over [OF ok x, where ps' = ?ps and va = va] v pin show ?thesis by auto
  qed
  have guard: "\<not> length ps \<le> i" using i by simp
  show ?thesis
    unfolding replacePropertyDescriptor_def replace_with_map_def x option.case object_structure.case v prod.case
      if_not_P [OF guard] r
    by (simp only: Let_def prod.case) (use h sok in \<open>auto intro!: publish_both [OF ok, where ps' = ?ps and mp' = mp]
         simp: replace_desc_ok [OF i]\<close>)
qed

lemma replace_without_transition_ok:
  assumes ok: "heap_ok e hp" and x: "h_structs hp s = Some (WithoutTransition f v)"
    and ps: "properties hp s = Some ps" and i: "i < length ps"
  shows "op_ok e hp s (replacePropertyDescriptor e hp s i d)
     (map (\<lambda>x. (item_key e x, m_descriptor x)) (replace_desc ps i d))"
proof -
  let ?ps = "replace_desc ps i d"
  obtain va where v: "v = Some va" "h_vecs hp va = Some ps"
    using ps x by (auto simp: properties_def bind_eq_Some_conv)
  have sok: "items_ok e ps" "flags_ok e f ps" "atomic_flag_ok f ps"
    using heap_okD(2) [OF ok x] v by auto
  have pin: "pinned hp s = m_isReferencedByInlineCache f" using x by (simp add: pinned_def)
  obtain hp1 va' where r: "(if m_isReferencedByInlineCache f then new_vec hp ?ps
      else (set_struct (set_vec hp va ?ps) s (WithoutTransition f None), va)) = (hp1, va')"
    by force
  have h: "heap_ok e hp1 \<and> frame (if pinned hp s then {} else {s}) hp hp1 \<and>
      h_vecs hp1 va' = Some ?ps \<and> unowned_vec hp1 va'"
  proof (cases "m_isReferencedByInlineCache f")
    case True
    with r new_vec_ok [OF ok, of ?ps hp1 va'] show ?thesis by simp
  next
    case False
    with r hand_over [OF ok x, where ps' = ?ps and va = va] v pin show ?thesis by auto
  qed
  have guard: "\<not> length ps \<le> i" using i by simp
  show ?thesis
    unfolding replacePropertyDescriptor_def replace_without_transition_def x option.case
      object_structure.case v if_not_P [OF guard] r
    by (simp only: Let_def prod.case) (use h sok in \<open>auto intro!: publish_vec [OF ok, where ps' = ?ps] simp: replace_desc_ok [OF i]\<close>)
qed

lemma replacePropertyDescriptor_ok:
  assumes ok: "heap_ok e hp" and qs: "abs_items e hp s = Some qs" and i: "i < length qs"
  shows "op_ok e hp s (replacePropertyDescriptor e hp s i d) (qs[i := (fst (qs ! i), d)])"
proof -
  obtain x ps where x: "h_structs hp s = Some x" "struct_items hp x = Some ps" "properties hp s = Some ps"
    and q: "qs = map (\<lambda>x. (item_key e x, m_descriptor x)) ps" using abs_itemsE [OF qs] .
  have i': "i < length ps" using i q by simp
  have q': "qs[i := (fst (qs ! i), d)] = map (\<lambda>x. (item_key e x, m_descriptor x)) (replace_desc ps i d)"
    using i' by (simp add: q replace_desc_ok(5))
  show ?thesis
  proof (cases x)
    case (WithoutTransition f v)
    with x(1) replace_without_transition_ok [OF ok _ x(3) i'] q' show ?thesis by simp
  next
    case (WithTransition f ps' t)
    obtain hp1 va where r1: "new_vec hp (replace_desc ps i d) = (hp1, va)" by force
    note v = new_vec_ok [OF ok r1]
    have eq: "ps' = ps" using WithTransition x by simp
    have "items_ok e ps" "flags_ok e f ps" "atomic_flag_ok f ps"
      using heap_okD(2) [OF ok x(1)] eq WithTransition by auto
    then have "op_ok e hp s (Some (new_struct hp1 (WithoutTransition (copy_flags f) (Some va))))
        (qs[i := (fst (qs ! i), d)])"
      by (intro publish_vec [OF ok v(1,2,4,3) _ _ _ q']) (simp_all add: replace_desc_ok [OF i'])
    with WithTransition eq x i' r1 show ?thesis
      by (simp add: replacePropertyDescriptor_def replace_with_transition_def)
  next
    case (WithMap f v m)
    with x(1) replace_with_map_ok [OF ok _ x(3) i'] q' show ?thesis by simp
  qed
qed

lemma convertToNonTransitionStructure_ok:
  assumes ok: "heap_ok e hp" and qs: "abs_items e hp s = Some qs"
  shows "\<exists>hp' s'. convertToNonTransitionStructure hp s = Some (hp', s') \<and> heap_ok e hp' \<and>
     abs_items e hp' s' = Some qs \<and> frame {} hp hp' \<and> \<not> in_transition hp' s' \<and>
     (h_structs hp s' = None \<or> s' = s)"
proof -
  obtain x ps where x: "h_structs hp s = Some x" "struct_items hp x = Some ps" "properties hp s = Some ps"
    and q: "qs = map (\<lambda>x. (item_key e x, m_descriptor x)) ps" using abs_itemsE [OF qs] .
  show ?thesis
  proof (cases x)
    case (WithTransition f ps' t)
    obtain hp1 va where r1: "new_vec hp ps = (hp1, va)" by force
    note v = new_vec_ok [OF ok r1]
    have eq: "ps' = ps" using WithTransition x by simp
    have i: "items_ok e ps" "flags_ok e (copy_flags f) ps" "atomic_flag_ok (copy_flags f) ps"
      using heap_okD(2) [OF ok x(1)] eq WithTransition by auto
    let ?y = "WithoutTransition (copy_flags f) (Some va)"
    obtain hp' s' where r2: "new_struct hp1 ?y = (hp', s')" by force
    have yok: "struct_ok e hp1 ?y" using v(4) i by simp
    have u: "\<And>w. vec_ptr ?y = Some w \<Longrightarrow> unowned_vec hp1 w" using v(3) by simp
    note n = new_struct_ok [OF v(1) yok r2 u, simplified]
    have "convertToNonTransitionStructure hp s = Some (hp', s')"
      using WithTransition eq x(1) r1 r2 by (simp add: convertToNonTransitionStructure_def convert_with_transition_def)
    moreover have "abs_items e hp' s' = Some qs" using n(4) v(4) q by (simp add: abs_items_def)
    moreover have "h_structs hp s' = None" using n(5) v(5) by simp
    moreover have "\<not> in_transition hp' s'" using n(3) by (simp add: in_transition_def)
    ultimately show ?thesis using n(1) frame_trans [OF v(2) n(2)] by blast
  qed (use ok qs x in \<open>auto simp: convertToNonTransitionStructure_def in_transition_def\<close>)
qed

lemma markReferencedByInlineCache_ok:
  assumes ok: "heap_ok e hp" and x: "h_structs hp s = Some x"
  shows "\<exists>hp'. markReferencedByInlineCache hp s = Some hp' \<and> heap_ok e hp' \<and>
     (\<forall>t. properties hp' t = properties hp t) \<and> pinned hp' s \<and> (\<forall>t. pinned hp t \<longrightarrow> pinned hp' t) \<and>
     (\<forall>t. in_transition hp' t = in_transition hp t)"
proof -
  define y where "y = (case x of
         WithoutTransition f v \<Rightarrow> WithoutTransition (f\<lparr>m_isReferencedByInlineCache := True\<rparr>) v
       | WithTransition f ps t \<Rightarrow> WithTransition (f\<lparr>m_isReferencedByInlineCache := True\<rparr>) ps t
       | WithMap f v m \<Rightarrow> WithMap (f\<lparr>m_isReferencedByInlineCache := True\<rparr>) v m)"
  let ?hp = "set_struct hp s y"
  have ptr: "vec_ptr y = vec_ptr x" "map_ptr y = map_ptr x" "inTransitionMode y = inTransitionMode x"
    "m_isReferencedByInlineCache (flags_of y)" "\<And>h. struct_items h y = struct_items h x"
    by (cases x; simp add: y_def)+
  have keep: "\<exists>f' t'. h_structs ?hp u = Some (WithTransition f' qs t')"
    if "h_structs hp u = Some (WithTransition f qs t)" for u f qs t
    using that x by (auto simp: set_struct_def y_def)
  have flags: "flags_ok e (f\<lparr>m_isReferencedByInlineCache := b\<rparr>) ps = flags_ok e f ps"
    "atomic_flag_ok (f\<lparr>m_isReferencedByInlineCache := b\<rparr>) ps = atomic_flag_ok f ps" for f b ps
    by (simp_all add: flags_ok_def atomic_flag_ok_def)
  have "struct_ok e ?hp x"
    using keep by (intro struct_ok_cong [OF heap_okD(2) [OF ok x]]) (auto simp: set_struct_def)
  then have yok: "struct_ok e ?hp y"
  proof (cases x)
    case (WithoutTransition f v)
    with \<open>struct_ok e ?hp x\<close> show ?thesis by (cases v) (auto simp: y_def flags)
  qed (auto simp: y_def flags)
  have "heap_ok e ?hp \<and> frame {s} hp ?hp"
    using ptr by (intro conjI set_struct_ok [OF ok x yok]) (auto simp: y_def)
  moreover have "markReferencedByInlineCache hp s = Some ?hp"
    using x by (simp add: markReferencedByInlineCache_def y_def)
  moreover have "struct_items ?hp z = struct_items hp z" for z
    by (intro struct_items_cong) (simp add: set_struct_def)
  then have "properties ?hp t = properties hp t" for t
    using x ptr(5) by (cases "h_structs hp t") (auto simp: properties_def set_struct_def)
  moreover have "pinned ?hp s" "\<And>t. pinned hp t \<Longrightarrow> pinned ?hp t"
    "\<And>t. in_transition ?hp t = in_transition hp t"
    using x ptr by (auto simp: pinned_def in_transition_def set_struct_def)
  ultimately show ?thesis by blast
qed

section \<open>Clients\<close>

text \<open>
  The contract between hidden classes and their users. \<open>run\<close> are the operations on a shape,
  \<open>spec\<close> their meaning on what the shape describes (\<open>None\<close>: the caller breaks the precondition),
  \<open>shared\<close> holds of the shapes that may be referred to from several places, and \<open>mark\<close> makes a
  shape shared.
\<close>

locale shape_store =
  fixes ok :: "'h \<Rightarrow> bool"
    and items :: "'h \<Rightarrow> nat \<Rightarrow> 'q option"
    and shared :: "'h \<Rightarrow> nat \<Rightarrow> bool"
    and run :: "'op \<Rightarrow> 'h \<Rightarrow> nat \<Rightarrow> ('h \<times> nat) option"
    and spec :: "'op \<Rightarrow> 'q \<Rightarrow> 'q option"
    and mark :: "'h \<Rightarrow> nat \<Rightarrow> 'h option"
  assumes run_ok: "ok h \<Longrightarrow> items h s = Some q \<Longrightarrow> spec a q = Some q' \<Longrightarrow>
      \<exists>h' s'. run a h s = Some (h', s') \<and> ok h' \<and> items h' s' = Some q' \<and>
        (\<forall>t. items h t \<noteq> None \<longrightarrow> t \<noteq> s \<or> shared h s \<longrightarrow>
           items h' t = items h t \<and> (shared h t \<longrightarrow> shared h' t)) \<and>
        (items h s' = None \<or> shared h' s' \<or> s' = s)"
    and mark_ok: "ok h \<Longrightarrow> items h s = Some q \<Longrightarrow>
      \<exists>h'. mark h s = Some h' \<and> ok h' \<and> (\<forall>t. items h' t = items h t) \<and> shared h' s \<and>
        (\<forall>t. shared h t \<longrightarrow> shared h' t)"

text \<open>
  What users do: an operation on the shape of one object, taking the shape of an object into an
  inline cache, giving an object a cached shape, and creating an object with a cached shape (the
  default shapes are cached from the start). A state is the heap, the shape of every object and
  the cached shapes; \<open>None\<close> is a crash.
\<close>

datatype 'op shape_action = Act nat 'op | Cache nat | Hit nat nat | NewObject nat

fun shape_exec ::
    "('op \<Rightarrow> 'h \<Rightarrow> nat \<Rightarrow> ('h \<times> nat) option) \<Rightarrow> ('h \<Rightarrow> nat \<Rightarrow> 'h option) \<Rightarrow> 'op shape_action \<Rightarrow>
     'h \<times> nat list \<times> nat list \<Rightarrow> ('h \<times> nat list \<times> nat list) option" where
  "shape_exec run mark (Act i a) (h, os, cs) = map_option (\<lambda>(h', s'). (h', os[i := s'], cs)) (run a h (os ! i))"
| "shape_exec run mark (Cache i) (h, os, cs) = map_option (\<lambda>h'. (h', os, cs @ [os ! i])) (mark h (os ! i))"
| "shape_exec run mark (Hit i j) (h, os, cs) = Some (h, os[i := cs ! j], cs)"
| "shape_exec run mark (NewObject j) (h, os, cs) = Some (h, os @ [cs ! j], cs)"

text \<open>The meaning: every object and every cache has a list of its own.\<close>

fun shape_spec ::
    "('op \<Rightarrow> 'q \<Rightarrow> 'q option) \<Rightarrow> 'op shape_action \<Rightarrow> 'q list \<times> 'q list \<Rightarrow> ('q list \<times> 'q list) option" where
  "shape_spec spec (Act i a) (qs, rs) =
     (if i < length qs then map_option (\<lambda>q. (qs[i := q], rs)) (spec a (qs ! i)) else None)"
| "shape_spec spec (Cache i) (qs, rs) = (if i < length qs then Some (qs, rs @ [qs ! i]) else None)"
| "shape_spec spec (Hit i j) (qs, rs) =
     (if i < length qs \<and> j < length rs then Some (qs[i := rs ! j], rs) else None)"
| "shape_spec spec (NewObject j) (qs, rs) = (if j < length rs then Some (qs @ [rs ! j], rs) else None)"

fun exec_all :: "('a \<Rightarrow> 's \<Rightarrow> 's option) \<Rightarrow> 'a list \<Rightarrow> 's \<Rightarrow> 's option" where
  "exec_all f [] s = Some s"
| "exec_all f (a # as) s = Option.bind (f a s) (exec_all f as)"

context shape_store
begin

definition rel :: "'h \<times> nat list \<times> nat list \<Rightarrow> 'q list \<times> 'q list \<Rightarrow> bool" where
  "rel = (\<lambda>(h, os, cs) (qs, rs). ok h \<and> map (items h) os = map Some qs \<and> map (items h) cs = map Some rs \<and>
     (\<forall>c \<in> set cs. shared h c) \<and>
     (\<forall>i < length os. \<forall>j < length os. i \<noteq> j \<longrightarrow> os ! i = os ! j \<longrightarrow> shared h (os ! i)))"

lemma relD:
  assumes "rel (h, os, cs) (qs, rs)"
  shows "ok h" "length os = length qs" "length cs = length rs"
    "i < length qs \<Longrightarrow> items h (os ! i) = Some (qs ! i)"
    "j < length rs \<Longrightarrow> items h (cs ! j) = Some (rs ! j)" "j < length rs \<Longrightarrow> shared h (cs ! j)"
    "i < length qs \<Longrightarrow> k < length qs \<Longrightarrow> i \<noteq> k \<Longrightarrow> os ! i = os ! k \<Longrightarrow> shared h (os ! i)"
proof -
  show "ok h" using assms by (simp add: rel_def)
  have m: "map (items h) os = map Some qs" "map (items h) cs = map Some rs" using assms by (auto simp: rel_def)
  show l: "length os = length qs" "length cs = length rs" using m map_eq_imp_length_eq by blast+
  show "i < length qs \<Longrightarrow> items h (os ! i) = Some (qs ! i)" using m(1) l by (metis nth_map)
  show "j < length rs \<Longrightarrow> items h (cs ! j) = Some (rs ! j)" using m(2) l by (metis nth_map)
  show "j < length rs \<Longrightarrow> shared h (cs ! j)" using assms l by (simp add: rel_def)
  show "i < length qs \<Longrightarrow> k < length qs \<Longrightarrow> i \<noteq> k \<Longrightarrow> os ! i = os ! k \<Longrightarrow> shared h (os ! i)"
    using assms l by (simp add: rel_def)
qed

lemma relI:
  assumes "ok h" "length os = length qs" "length cs = length rs"
    and "\<And>i. i < length qs \<Longrightarrow> items h (os ! i) = Some (qs ! i)"
    and "\<And>j. j < length rs \<Longrightarrow> items h (cs ! j) = Some (rs ! j) \<and> shared h (cs ! j)"
    and "\<And>i k. i < length qs \<Longrightarrow> k < length qs \<Longrightarrow> i \<noteq> k \<Longrightarrow> os ! i = os ! k \<Longrightarrow> shared h (os ! i)"
  shows "rel (h, os, cs) (qs, rs)"
  using assms by (auto simp: rel_def intro!: nth_equalityI) (auto simp: in_set_conv_nth)

lemma step_act:
  assumes r: "rel (h, os, cs) (qs, rs)" and i: "i < length qs" and q: "spec a (qs ! i) = Some q'"
  shows "\<exists>h' s'. run a h (os ! i) = Some (h', s') \<and> rel (h', os[i := s'], cs) (qs[i := q'], rs)"
proof -
  note D = relD [OF r]
  let ?s = "os ! i"
  obtain h' s' where h: "run a h ?s = Some (h', s')" "ok h'" "items h' s' = Some q'"
    and keep: "\<And>t. items h t \<noteq> None \<Longrightarrow> t \<noteq> ?s \<or> shared h ?s \<Longrightarrow>
           items h' t = items h t \<and> (shared h t \<longrightarrow> shared h' t)"
    and fresh: "items h s' = None \<or> shared h' s' \<or> s' = ?s"
    using run_ok [OF D(1) D(4) [OF i] q] by blast
  have obj: "items h' (os ! j) = Some (qs ! j) \<and> (shared h (os ! j) \<longrightarrow> shared h' (os ! j))"
    if j: "j < length qs" "j \<noteq> i" for j
    using keep [of "os ! j"] D(4) [OF j(1)] D(7) [OF i j(1)] j(2) by auto
  have cache: "items h' (cs ! j) = Some (rs ! j) \<and> shared h' (cs ! j)" if j: "j < length rs" for j
  proof -
    have "cs ! j \<noteq> ?s \<or> shared h ?s" using D(6) [OF j] by (cases "cs ! j = ?s") auto
    with keep [of "cs ! j"] D(5,6) [OF j] show ?thesis by simp
  qed
  have new: "shared h' s'" if j: "j < length qs" "j \<noteq> i" "os ! j = s'" for j
    using fresh D(4) [OF j(1)] obj [OF j(1,2)] D(7) [OF i j(1)] j by auto
  have "rel (h', os[i := s'], cs) (qs[i := q'], rs)"
  proof (rule relI)
    fix j k assume jk: "j < length (qs[i := q'])" "k < length (qs[i := q'])" "j \<noteq> k"
      "os[i := s'] ! j = os[i := s'] ! k"
    consider "j = i" | "k = i" | "j \<noteq> i" "k \<noteq> i" by blast
    then show "shared h' (os[i := s'] ! j)"
    proof cases
      case 1
      with jk i D(2) new [of k] show ?thesis by simp
    next
      case 2
      with jk i D(2) new [of j] show ?thesis by simp
    next
      case 3
      with jk obj [of j] D(7) [of j k] show ?thesis by simp
    qed
  qed (use D(2,3) h obj cache i in \<open>auto simp: nth_list_update\<close>)
  with h(1) show ?thesis by blast
qed

lemma step_cache:
  assumes r: "rel (h, os, cs) (qs, rs)" and i: "i < length qs"
  shows "\<exists>h'. mark h (os ! i) = Some h' \<and> rel (h', os, cs @ [os ! i]) (qs, rs @ [qs ! i])"
proof -
  note D = relD [OF r]
  obtain h' where h: "mark h (os ! i) = Some h'" "ok h'" "\<And>t. items h' t = items h t" "shared h' (os ! i)"
    "\<And>t. shared h t \<Longrightarrow> shared h' t"
    using mark_ok [OF D(1) D(4) [OF i]] by blast
  have "rel (h', os, cs @ [os ! i]) (qs, rs @ [qs ! i])"
    by (rule relI) (use D h i in \<open>auto simp: nth_append\<close>)
  with h(1) show ?thesis by blast
qed

lemma step:
  assumes r: "rel st ab" and q: "shape_spec spec a ab = Some ab'"
  shows "\<exists>st'. shape_exec run mark a st = Some st' \<and> rel st' ab'"
proof -
  obtain h os cs qs rs where st: "st = (h, os, cs)" "ab = (qs, rs)" by (metis prod.exhaust)
  note r' = r [unfolded st]
  note D = relD [OF r']
  show ?thesis
  proof (cases a)
    case (Act i b)
    with q st obtain q' where i: "i < length qs" "spec b (qs ! i) = Some q'" and ab': "ab' = (qs[i := q'], rs)"
      by (auto split: if_splits)
    from step_act [OF r' i] Act st ab' show ?thesis by fastforce
  next
    case (Cache i)
    with q st step_cache [OF r'] show ?thesis by (auto split: if_splits)
  next
    case (Hit i j)
    then have ij: "i < length qs" "j < length rs" and ab': "ab' = (qs[i := rs ! j], rs)"
      using q st by (auto split: if_splits)
    have "rel (h, os[i := cs ! j], cs) (qs[i := rs ! j], rs)"
    proof (rule relI)
      fix k l assume kl: "k < length (qs[i := rs ! j])" "l < length (qs[i := rs ! j])" "k \<noteq> l"
        "os[i := cs ! j] ! k = os[i := cs ! j] ! l"
      consider "k = i" | "l = i" | "k \<noteq> i" "l \<noteq> i" by blast
      then show "shared h (os[i := cs ! j] ! k)"
        by cases (use kl ij D(2) D(6) [of j] D(7) [of k l] in simp_all)
    qed (use D ij in \<open>auto simp: nth_list_update\<close>)
    with Hit st ab' show ?thesis by simp
  next
    case (NewObject j)
    then have j: "j < length rs" and ab': "ab' = (qs @ [rs ! j], rs)"
      using q st by (auto split: if_splits)
    have "rel (h, os @ [cs ! j], cs) (qs @ [rs ! j], rs)"
    proof (rule relI)
      fix k l assume kl: "k < length (qs @ [rs ! j])" "l < length (qs @ [rs ! j])" "k \<noteq> l"
        "(os @ [cs ! j]) ! k = (os @ [cs ! j]) ! l"
      consider "k = length qs" | "l = length qs" | "k < length qs" "l < length qs" using kl by fastforce
      then show "shared h ((os @ [cs ! j]) ! k)"
        by cases (use kl j D(2) D(6) [of j] D(7) [of k l] in \<open>simp_all add: nth_append split: if_splits\<close>)
    qed (use D j in \<open>auto simp: nth_append\<close>)
    with NewObject st ab' show ?thesis by simp
  qed
qed

lemma run_all:
  "rel st ab \<Longrightarrow> exec_all (shape_spec spec) as ab = Some ab' \<Longrightarrow>
   \<exists>st'. exec_all (shape_exec run mark) as st = Some st' \<and> rel st' ab'"
proof (induction as arbitrary: st ab)
  case Nil
  then show ?case by simp
next
  case (Cons a as)
  then obtain ab1 where 1: "shape_spec spec a ab = Some ab1" "exec_all (shape_spec spec) as ab1 = Some ab'"
    by (auto simp: bind_eq_Some_conv)
  from step [OF Cons.prems(1) 1(1)] obtain st1 where "shape_exec run mark a st = Some st1" "rel st1 ab1"
    by blast
  with Cons.IH [OF _ 1(2)] show ?case by auto
qed

end

section \<open>The operations as a store\<close>

datatype structure_op = AddOp pname pdesc | RemoveOp nat | ReplaceOp nat pdesc | DetachOp

fun structure_run :: "senv \<Rightarrow> structure_op \<Rightarrow> structure_heap \<Rightarrow> nat \<Rightarrow> (structure_heap \<times> nat) option" where
  "structure_run e (AddOp n d) hp s = addProperty e hp s n d"
| "structure_run e (RemoveOp i) hp s = removeProperty e hp s i"
| "structure_run e (ReplaceOp i d) hp s = replacePropertyDescriptor e hp s i d"
| "structure_run e DetachOp hp s = convertToNonTransitionStructure hp s"

text \<open>The preconditions: a valid name that is not there yet, or an index in range.\<close>

fun structure_spec ::
    "senv \<Rightarrow> structure_op \<Rightarrow> (property_key \<times> pdesc) list \<Rightarrow> (property_key \<times> pdesc) list option" where
  "structure_spec e (AddOp n d) qs =
     (if name_ok (e_atoms e) n \<and> spec_find qs (key_of (e_heap e) n) = None
      then Some (qs @ [(key_of (e_heap e) n, d)]) else None)"
| "structure_spec e (RemoveOp i) qs = (if i < length qs then Some (remove_nth i qs) else None)"
| "structure_spec e (ReplaceOp i d) qs =
     (if i < length qs then Some (qs[i := (fst (qs ! i), d)]) else None)"
| "structure_spec e DetachOp qs = Some qs"

lemma frame_items:
  assumes "frame S hp hp'" "t \<notin> S" "abs_items e hp t \<noteq> None"
  shows "abs_items e hp' t = abs_items e hp t" "pinned hp t \<Longrightarrow> pinned hp' t"
proof -
  have "h_structs hp t \<noteq> None"
    using assms(3) by (auto simp: abs_items_def properties_def bind_eq_Some_conv)
  then have same: "same_struct hp hp' t" using assms(1,2) by (simp add: frame_def)
  then show "abs_items e hp' t = abs_items e hp t" by (simp add: same_struct_def abs_items_def)
  show "pinned hp' t" if "pinned hp t"
    using that same by (auto simp: pinned_def same_struct_def)
qed

lemma op_ok_store:
  assumes "op_ok e hp s r q'"
  shows "\<exists>h' s'. r = Some (h', s') \<and> heap_ok e h' \<and> abs_items e h' s' = Some q' \<and>
     (\<forall>t. abs_items e hp t \<noteq> None \<longrightarrow> t \<noteq> s \<or> pinned hp s \<longrightarrow>
        abs_items e h' t = abs_items e hp t \<and> (pinned hp t \<longrightarrow> pinned h' t)) \<and>
     (abs_items e hp s' = None \<or> pinned h' s' \<or> s' = s)"
proof -
  obtain h' s' where h: "r = Some (h', s')" "heap_ok e h'" "abs_items e h' s' = Some q'"
    and fr: "frame (if pinned hp s then {} else {s}) hp h'"
    and s': "h_structs hp s' = None \<or> in_transition h' s'"
    using assms by (auto simp: op_ok_def)
  have "abs_items e h' t = abs_items e hp t \<and> (pinned hp t \<longrightarrow> pinned h' t)"
    if "abs_items e hp t \<noteq> None" "t \<noteq> s \<or> pinned hp s" for t
    using frame_items [OF fr _ that(1)] that(2) by auto
  moreover have "abs_items e hp s' = None \<or> pinned h' s'"
    using s' by (auto simp: abs_items_def properties_def in_transition_def pinned_def)
  ultimately show ?thesis using h by blast
qed

lemma structure_run_ok:
  assumes ok: "heap_ok e h" and q: "abs_items e h s = Some q" and q': "structure_spec e a q = Some q'"
    and a: "a \<noteq> DetachOp"
  shows "op_ok e h s (structure_run e a h s) q'"
  using addProperty_ok [OF ok _ q] removeProperty_ok [OF ok q] replacePropertyDescriptor_ok [OF ok q] q' a
  by (cases a) (auto split: if_splits)

interpretation structure_store:
  shape_store "heap_ok e" "abs_items e" pinned "structure_run e" "structure_spec e"
    markReferencedByInlineCache for e
proof
  fix h s q a q'
  assume ok: "heap_ok e h" and q: "abs_items e h s = Some q" and q': "structure_spec e a q = Some q'"
  show "\<exists>h' s'. structure_run e a h s = Some (h', s') \<and> heap_ok e h' \<and> abs_items e h' s' = Some q' \<and>
      (\<forall>t. abs_items e h t \<noteq> None \<longrightarrow> t \<noteq> s \<or> pinned h s \<longrightarrow>
         abs_items e h' t = abs_items e h t \<and> (pinned h t \<longrightarrow> pinned h' t)) \<and>
      (abs_items e h s' = None \<or> pinned h' s' \<or> s' = s)"
  proof (cases a)
    case DetachOp
    obtain hp' s' where r: "convertToNonTransitionStructure h s = Some (hp', s')" "heap_ok e hp'"
      "abs_items e hp' s' = Some q" "frame {} h hp'" "h_structs h s' = None \<or> s' = s"
      using convertToNonTransitionStructure_ok [OF ok q] by blast
    moreover have "abs_items e h s' = None \<or> s' = s"
      using r(5) by (auto simp: abs_items_def properties_def)
    ultimately show ?thesis using frame_items [OF r(4)] DetachOp q' by auto
  qed (rule op_ok_store, rule structure_run_ok [OF ok q q'], simp)+
next
  fix h s q
  assume ok: "heap_ok e h" and q: "abs_items e h s = Some q"
  obtain x where x: "h_structs h s = Some x" using abs_itemsE [OF q] .
  from markReferencedByInlineCache_ok [OF ok x]
  show "\<exists>h'. markReferencedByInlineCache h s = Some h' \<and> heap_ok e h' \<and>
      (\<forall>t. abs_items e h' t = abs_items e h t) \<and> pinned h' s \<and> (\<forall>t. pinned h t \<longrightarrow> pinned h' t)"
    by (auto simp: abs_items_def)
qed

end
