(* ===== verification/Structure_Properties.thy ===== *)
theory Structure_Properties
  imports Hidden_Class
begin

text \<open>
  The properties of the hidden classes: what each operation of
  \<^verbatim>\<open>runtime/ObjectStructure.cpp\<close> does, on every class and whatever is shared.
\<close>

section \<open>A small heap\<close>

text \<open>
  One interned name, the default structure of plain objects at address 0 and the configuration
  of a full build.
\<close>

definition small_atoms :: atom_table where
  "small_atoms = \<lparr>at_heap = [16 \<mapsto> PString (1 OR 16) [0x61] False], at_map = [16]\<rparr>"

definition small_env :: senv where
  "small_env = \<lparr>e_atoms = small_atoms, e_native = (\<lambda>_. \<lparr>m_presentAttributes = 0, m_actsLikeJSGetterSetter = False, m_getter = 0, m_setter = 0\<rparr>), 
     e_ptr_hash = (\<lambda>p. p), e_cacheBuildMin = 96,
     e_transitionMax = 48\<rparr>"

definition small_heap :: structure_heap where
  "small_heap = \<lparr>h_structs = [0 \<mapsto> WithTransition (make_flags False False False False) []
     (TransitionVector [] 0)], h_vecs = (\<lambda>_. None), h_maps = (\<lambda>_. None), h_next = 1\<rparr>"

lemma small_name: "name_ok (e_atoms small_env) 17" "key_of (e_heap small_env) 17 = KString [0x61]"
proof -
  have ok: "atoms_ok small_atoms"
    by (auto simp: atoms_ok_def small_atoms_def is_string_def tag_ok_def str_chars_def split: if_splits)
  from name_of_atomic_ok [OF ok, of 16]
  show "name_ok (e_atoms small_env) 17" "key_of (e_heap small_env) 17 = KString [0x61]"
    by (auto simp: small_env_def small_atoms_def str_chars_def)
qed

lemma small_heap_ok: "heap_ok small_env small_heap"
  by (rule heap_okI) (auto simp: small_heap_def owners_ok_def items_ok_def flags_ok_def
      atomic_flag_ok_def targets_ok_def split: if_splits)

lemma small_items: "abs_items e small_heap 0 = Some []" "pinned small_heap 0" "in_transition small_heap 0"
  by (simp_all add: abs_items_def properties_def small_heap_def pinned_def in_transition_def)

section \<open>Searching\<close>

text \<open>
  \<^verbatim>\<open>findProperty\<close> of all three classes returns the index of the property with the given key
  (the first and only one), or nothing when there is none: the pointer comparison of interned
  names, the symbol shortcut and the hash map find exactly what a search by key finds. The hash
  map needs equal names to have equal hashes.
\<close>

theorem findProperty_searches_by_key:
  assumes "heap_ok e hp" "name_ok (e_atoms e) n" "properties hp s = Some ps"
    and "\<forall>f v m. h_structs hp s = Some (WithMap f v m) \<longrightarrow> hash_agrees e ps n"
  shows "findProperty e hp s n =
     Some (spec_find (map (\<lambda>x. (item_key e x, m_descriptor x)) ps) (key_of (e_heap e) n))"
  using findProperty_key [OF assms] by (simp add: spec_find_def find_index_map)

theorem findProperty_searches_by_key_witness:
  "findProperty small_env small_heap 0 17 = Some None"
proof -
  have "\<forall>f v m. h_structs small_heap 0 = Some (WithMap f v m) \<longrightarrow> hash_agrees small_env [] 17"
    by (simp add: small_heap_def)
  from findProperty_searches_by_key [OF small_heap_ok small_name(1) _ this]
  show ?thesis by (simp add: properties_def small_heap_def spec_find_def)
qed

section \<open>Operations\<close>

text \<open>
  \<^verbatim>\<open>addProperty\<close> with a name that is not there yet never meets a null pointer; the structure
  it returns describes the old properties followed by the new one, whichever class the old and
  the new structure have and whether the new one is found in the transition table or made; and
  no other structure changes, nor does the old one when a cache or several objects refer to it.
\<close>

theorem addProperty_appends:
  assumes "heap_ok e hp" "name_ok (e_atoms e) n" "abs_items e hp s = Some qs"
    and "spec_find qs (key_of (e_heap e) n) = None"
  shows "op_ok e hp s (addProperty e hp s n d) (qs @ [(key_of (e_heap e) n, d)])"
  using assms by (rule addProperty_ok)

theorem addProperty_appends_witness:
  "op_ok small_env small_heap 0 (addProperty small_env small_heap 0 17 3) [(KString [0x61], 3)]"
  using addProperty_appends [OF small_heap_ok small_name(1) small_items(1), of 3] small_name(2)
  by (simp add: spec_find_def)

text \<open>A heap with one more structure, which has the one property.\<close>

definition one_heap :: structure_heap where
  "one_heap = fst (the (addProperty small_env small_heap 0 17 (createDataDescriptor 0)))"

lemma one_heap_items: "heap_ok small_env one_heap \<and> abs_items small_env one_heap 1 = Some [(KString [0x61], createDataDescriptor 0)]"
proof -
  have "op_ok small_env small_heap 0 (addProperty small_env small_heap 0 17 (createDataDescriptor 0)) [(KString [0x61], createDataDescriptor 0)]"
    using addProperty_ok [OF small_heap_ok small_name(1) small_items(1), of "createDataDescriptor 0"] small_name(2)
    by (simp add: spec_find_def)
  moreover have "snd (the (addProperty small_env small_heap 0 17 (createDataDescriptor 0))) = 1"
    by (simp add: addProperty_def small_heap_def add_with_transition_def find_transition_def small_env_def
        flag_index_def small_atoms_def name_isIndexString_def hasAtomicString_def asAtomicString_def
        isIndexString_def charAt_def make_flags_def new_struct_def str_chars_def Let_def)
  ultimately show ?thesis unfolding op_ok_def one_heap_def by auto
qed

text \<open>
  \<^verbatim>\<open>removeProperty\<close> of an index in range: the structure it returns describes the properties
  without the removed one, in order; the same frame holds.
\<close>

theorem removeProperty_deletes:
  assumes "heap_ok e hp" "abs_items e hp s = Some qs" "i < length qs"
  shows "op_ok e hp s (removeProperty e hp s i) (remove_nth i qs)"
  using assms by (rule removeProperty_ok)

theorem removeProperty_deletes_witness:
  "op_ok small_env one_heap 1 (removeProperty small_env one_heap 1 0) []"
  using removeProperty_deletes [of small_env one_heap 1 "[(KString [0x61], createDataDescriptor 0)]" 0] one_heap_items
  by (simp add: remove_nth_def)

text \<open>
  \<^verbatim>\<open>replacePropertyDescriptor\<close> of an index in range: the structure it returns has the new
  descriptor at that index and is otherwise the same list; the same frame holds.
\<close>

theorem replacePropertyDescriptor_replaces:
  assumes "heap_ok e hp" "abs_items e hp s = Some qs" "i < length qs"
  shows "op_ok e hp s (replacePropertyDescriptor e hp s i d) (qs[i := (fst (qs ! i), d)])"
  using assms by (rule replacePropertyDescriptor_ok)

theorem replacePropertyDescriptor_replaces_witness:
  "op_ok small_env one_heap 1 (replacePropertyDescriptor small_env one_heap 1 0 3) [(KString [0x61], 3)]"
  using replacePropertyDescriptor_replaces [of small_env one_heap 1 "[(KString [0x61], createDataDescriptor 0)]" 0 3] one_heap_items
  by simp

section \<open>Sharing\<close>

lemma find_add_transition:
  assumes t: "find_transition e t n d = None" and eq: "e_hash e n' = e_hash e n"
    and names: "\<And>x. x \<in> set (tt_items t) \<Longrightarrow>
       name_eq (e_heap e) (t_propertyName x) n' = name_eq (e_heap e) (t_propertyName x) n"
    and n: "name_eq (e_heap e) n n'"
  shows "find_transition e (add_transition t \<lparr>t_propertyName = n, t_descriptor = d, t_structure = s'\<rparr>) n' d = Some s'"
proof -
  let ?x = "\<lparr>t_propertyName = n, t_descriptor = d, t_structure = s'\<rparr>"
  have find: "List.find P (xs @ [x]) = Some x" if "\<forall>y \<in> set xs. \<not> P y" "P x"
    for P and xs :: "transition_item list" and x
    using that by (induction xs) auto
  show ?thesis
  proof (cases t)
    case (TransitionMap items)
    with t names eq have "\<forall>y \<in> set items. \<not> (e_hash e (t_propertyName y) + t_descriptor y = e_hash e n' + d \<and>
        t_descriptor y = d \<and> name_eq (e_heap e) (t_propertyName y) n')"
      by (auto simp: find_transition_def find_None_iff)
    with TransitionMap eq n find [of items _ ?x] show ?thesis
      by (simp add: find_transition_def add_transition_def)
  next
    case (TransitionVector items cap)
    with t names have v: "\<forall>y \<in> set items. \<not> (t_descriptor y = d \<and> name_eq (e_heap e) (t_propertyName y) n')"
      by (auto simp: find_transition_def find_None_iff)
    then have m: "\<forall>y \<in> set items. \<not> (e_hash e (t_propertyName y) + t_descriptor y = e_hash e n' + d \<and>
        t_descriptor y = d \<and> name_eq (e_heap e) (t_propertyName y) n')" by blast
    from TransitionVector eq n find [OF v, of ?x] find [OF m, of ?x] show ?thesis
      by (simp add: find_transition_def add_transition_def)
  qed
qed

text \<open>
  C20. Hidden classes are shared: when \<^verbatim>\<open>addProperty\<close> on a structure in transition mode yields a
  structure in transition mode, adding the same property (a name with the same key, interned if
  and only if the first was, and the same descriptor) once more yields the same structure and
  changes nothing, also when the first addition turned the transition vector into a map. A name
  that is an index, or a structure that has reached the largest size of the transition mode, leads
  out of the transition mode, and such structures are not shared.
\<close>

theorem addProperty_shares:
  assumes ok: "heap_ok e hp" and tr: "in_transition hp s" "in_transition hp1 s1"
    and n: "name_ok (e_atoms e) n" "name_ok (e_atoms e) n'" "key_of (e_heap e) n' = key_of (e_heap e) n"
    and form: "hasAtomicString n' = hasAtomicString n" and add: "addProperty e hp s n d = Some (hp1, s1)"
  shows "addProperty e hp1 s n' d = Some (hp1, s1)"
proof -
  have h: "e_hash e n' = e_hash e n" using same_form_hash [OF n(2,1,3) form] .
  obtain f ps t where x: "h_structs hp s = Some (WithTransition f ps t)"
    using tr(1) by (auto simp: in_transition_def elim: inTransitionMode.elims)
  have names: "name_eq (e_heap e) (t_propertyName y) n' = name_eq (e_heap e) (t_propertyName y) n"
    if "y \<in> set (tt_items t)" for y
    using that heap_okD(2) [OF ok x] n by (auto simp: targets_ok_def name_eq_key)
  show ?thesis
  proof (cases "find_transition e t n d")
    case (Some s')
    then have eq: "hp1 = hp" "s1 = s'" using add x by (auto simp: addProperty_def add_with_transition_def)
    have "find_transition e t n' d = find_transition e t n d"
      unfolding find_transition_def using names h
      by (cases t) (auto intro!: arg_cong [of _ _ "map_option t_structure"] find_cong)
    with Some eq x show ?thesis by (simp add: addProperty_def add_with_transition_def)
  next
    case None
    let ?x = "\<lparr>t_propertyName = n, t_descriptor = d, t_structure = s1\<rparr>"
    have "h_structs hp1 s = Some (WithTransition f ps (add_transition t ?x))"
      using add x None tr(2)
      by (auto simp: addProperty_def add_with_transition_def new_struct_def new_vec_def new_map_def
          set_struct_def in_transition_def Let_def split: if_splits)
    moreover have "name_eq (e_heap e) n n'" using n name_eq_key by simp
    ultimately show ?thesis
      using find_add_transition [OF None h names] by (simp add: addProperty_def add_with_transition_def)
  qed
qed

lemma one_heap_add: "addProperty small_env small_heap 0 17 (createDataDescriptor 0) = Some (one_heap, 1)" "in_transition one_heap 1"
  by (simp_all add: addProperty_def small_heap_def add_with_transition_def find_transition_def small_env_def
        flag_index_def small_atoms_def name_isIndexString_def hasAtomicString_def asAtomicString_def
        isIndexString_def charAt_def make_flags_def new_struct_def str_chars_def Let_def one_heap_def
        in_transition_def set_struct_def)

theorem addProperty_shares_witness:
  "addProperty small_env one_heap 0 17 (createDataDescriptor 0) = Some (one_heap, 1)"
  using addProperty_shares [OF small_heap_ok small_items(3) one_heap_add(2) small_name(1) small_name(1)
      refl refl one_heap_add(1)] .

text \<open>
  C21. The transition vector: its 8-bit size and capacity never overflow. Recording a transition
  keeps the vector within 32 entries and strictly below its capacity, which stays below 256, so
  the entry is written inside the buffer; past 32 entries the table is a map with all of them.
\<close>

theorem add_transition_in_bounds:
  assumes "capacity_ok t"
  shows "capacity_ok (add_transition t x) \<and> tt_items (add_transition t x) = tt_items t @ [x] \<and>
     (\<forall>items cap. add_transition t x = TransitionVector items cap \<longrightarrow> length (tt_items t) < cap \<and> cap < 2 ^ 8)"
  using assms capacity_ok_add [OF assms, of x] add_transition_items [of t x]
  by (cases "add_transition t x") auto

theorem add_transition_in_bounds_witness:
  "\<exists>items cap. add_transition (TransitionVector [] 0) \<lparr>t_propertyName = 17, t_descriptor = 0, t_structure = 1\<rparr> =
     TransitionVector items cap \<and> 0 < cap \<and> cap < 2 ^ 8"
  using add_transition_in_bounds [of "TransitionVector [] 0" "\<lparr>t_propertyName = 17, t_descriptor = 0, t_structure = 1\<rparr>"]
  by (auto simp: add_transition_def)

text \<open>
  C1. Objects that share structures do not interfere and nothing is ever read through a null
  vector. Start with any good heap and some default structures that are in transition mode or
  marked. Let users perform any sequence of actions: create objects, add, remove and redefine
  properties, detach an object from the transition table, put the structure of an object into an
  inline cache (marking it) and assign a cached structure to an object. As long as every action
  meets its precondition on the plain lists, the heap model does not crash, and the structure of
  every object and every cached structure describes exactly the list that the object or cache
  would have if nothing were shared.
\<close>

theorem structures_behave_as_private_lists:
  assumes "heap_ok e hp" "map (abs_items e hp) cs = map Some rs" "\<forall>c \<in> set cs. pinned hp c"
    and "exec_all (shape_spec (structure_spec e)) as ([], rs) = Some (qs', rs')"
  shows "\<exists>hp' os' cs'.
     exec_all (shape_exec (structure_run e) markReferencedByInlineCache) as (hp, [], cs) = Some (hp', os', cs') \<and>
     heap_ok e hp' \<and> map (abs_items e hp') os' = map Some qs' \<and> map (abs_items e hp') cs' = map Some rs'"
proof -
  have "structure_store.rel e (hp, [], cs) ([], rs)" using assms by (simp add: structure_store.rel_def)
  from structure_store.run_all [OF this assms(4)] show ?thesis by (auto simp: structure_store.rel_def)
qed

theorem structures_behave_as_private_lists_witness:
  "\<exists>hp' os' cs'.
     exec_all (shape_exec (structure_run small_env) markReferencedByInlineCache)
       [NewObject 0, NewObject 0, Act 0 (AddOp 17 3), Act 1 (AddOp 17 3), Cache 0, Act 0 (ReplaceOp 0 1),
        Act 0 (RemoveOp 0), Hit 0 1] (small_heap, [], [0]) = Some (hp', os', cs') \<and>
     heap_ok small_env hp' \<and>
     map (abs_items small_env hp') os' = map Some [[(KString [0x61], 3)], [(KString [0x61], 3)]] \<and>
     map (abs_items small_env hp') cs' = map Some [[], [(KString [0x61], 3)]]"
  by (rule structures_behave_as_private_lists [where rs = "[[]]"])
    (simp_all add: small_heap_ok small_items small_name spec_find_def remove_nth_def)

section \<open>A stale flag\<close>

text \<open>
  A defect: \<^verbatim>\<open>replacePropertyDescriptor\<close> copies \<^verbatim>\<open>m_hasEnumerableProperty\<close> from the old
  structure whatever the new descriptor is. A structure all of whose properties were not
  enumerable keeps the flag false when a property becomes enumerable, and for-in, which asks the
  flag of the structures on the prototype chain, skips that property.
\<close>

theorem replacePropertyDescriptor_keeps_enumerable_flag:
  assumes "replacePropertyDescriptor e hp s i d = Some (hp', s')"
  shows "map_option (\<lambda>x. m_hasEnumerableProperty (flags_of x)) (h_structs hp' s') =
     map_option (\<lambda>x. m_hasEnumerableProperty (flags_of x)) (h_structs hp s)"
  using assms
  by (auto simp: replacePropertyDescriptor_def replace_without_transition_def replace_with_transition_def
      replace_with_map_def new_vec_def new_map_def new_struct_def set_struct_def set_vec_def
      copy_flags_def Let_def split: option.splits object_structure.splits if_splits prod.splits)

theorem replacePropertyDescriptor_keeps_enumerable_flag_witness:
  "\<exists>hp' s'. replacePropertyDescriptor small_env one_heap 1 0 (createDataDescriptor EnumerablePresent) = Some (hp', s') \<and>
     map_option (\<lambda>x. m_hasEnumerableProperty (flags_of x)) (h_structs hp' s') = Some False \<and>
     map_option (\<lambda>qs. map (\<lambda>(k, d). desc_isEnumerable (e_native small_env) d) qs) (abs_items small_env hp' s') = Some [True]"
proof -
  let ?d = "createDataDescriptor EnumerablePresent"
  obtain hp' s' where r: "replacePropertyDescriptor small_env one_heap 1 0 ?d = Some (hp', s')"
    "abs_items small_env hp' s' = Some [(KString [0x61], ?d)]"
    using replacePropertyDescriptor_ok [of small_env one_heap 1 "[(KString [0x61], createDataDescriptor 0)]" 0 ?d] one_heap_items
    by (auto simp: op_ok_def)
  moreover have "map_option (\<lambda>x. m_hasEnumerableProperty (flags_of x)) (h_structs one_heap 1) = Some False"
    by (simp add: addProperty_def small_heap_def add_with_transition_def find_transition_def small_env_def
        flag_index_def small_atoms_def name_isIndexString_def hasAtomicString_def asAtomicString_def
        isIndexString_def charAt_def make_flags_def new_struct_def str_chars_def Let_def one_heap_def
        set_struct_def flag_enumerable_def data_descriptor_reads)
  ultimately show ?thesis
    using replacePropertyDescriptor_keeps_enumerable_flag [OF r(1)] by (auto simp: data_descriptor_reads)
qed

end
