(* ===== verification/Js_Value.thy ===== *)
theory Js_Value
  imports Esc_Prelude
begin

text \<open>
  Values of the language and their three equalities (\<^verbatim>\<open>runtime/Value.cpp\<close>): strict equality,
  \<^verbatim>\<open>SameValue\<close> and \<^verbatim>\<open>SameValueZero\<close>. A double is its IEEE-754 bit pattern; \<^verbatim>\<open>==\<close>, \<^verbatim>\<open>isnan\<close> and
  \<^verbatim>\<open>signbit\<close> of C are spelled out on it.
\<close>

section \<open>Doubles\<close>

definition is_nan :: "u64 \<Rightarrow> bool" where
  "is_nan w \<longleftrightarrow> w AND 0x7FFFFFFFFFFFFFFF > 0x7FF0000000000000"

definition is_zero :: "u64 \<Rightarrow> bool" where
  "is_zero w \<longleftrightarrow> w = 0 \<or> w = 0x8000000000000000"

definition signbit :: "u64 \<Rightarrow> bool" where
  "signbit w = bit w 63"

definition double_eq :: "u64 \<Rightarrow> u64 \<Rightarrow> bool" where
  "double_eq a b \<longleftrightarrow> \<not> is_nan a \<and> \<not> is_nan b \<and> (a = b \<or> is_zero a \<and> is_zero b)"

section \<open>Values\<close>

text \<open>
  A string is its UTF-16 units and a BigInt its integer, because the equalities compare them by
  content. \<open>VGetterSetter\<close> is a pointer to a \<^verbatim>\<open>JSGetterSetter\<close> with \<open>None\<close> for the empty value; it
  lives in property slots only and is never a value of the language.
\<close>

datatype jsval =
    VUndefined
  | VNull
  | VBool bool
  | VNumber u64
  | VString "u16 list"
  | VSymbol u64
  | VBigInt int
  | VObject nat
  | VGetterSetter "jsval option" "jsval option"

fun is_gs :: "jsval \<Rightarrow> bool" where
  "is_gs (VGetterSetter _ _) = True"
| "is_gs _ = False"

text \<open>\<^verbatim>\<open>equalsToSlowCase\<close>, \<^verbatim>\<open>equalsToByTheSameValueAlgorithm\<close>, \<^verbatim>\<open>equalsToByTheSameValueZeroAlgorithm\<close>.\<close>

fun equalsTo :: "jsval \<Rightarrow> jsval \<Rightarrow> bool" where
  "equalsTo (VNumber a) (VNumber b) = (if is_nan a \<or> is_nan b then False else double_eq a b)"
| "equalsTo a b = (a = b)"

fun same_value :: "jsval \<Rightarrow> jsval \<Rightarrow> bool" where
  "same_value (VNumber a) (VNumber b) =
     (if is_nan a \<or> is_nan b then is_nan a \<and> is_nan b else double_eq a b \<and> signbit a = signbit b)"
| "same_value a b = (a = b)"

fun same_value_zero :: "jsval \<Rightarrow> jsval \<Rightarrow> bool" where
  "same_value_zero (VNumber a) (VNumber b) =
     (if is_nan a \<or> is_nan b then is_nan a \<and> is_nan b else double_eq a b)"
| "same_value_zero a b = (a = b)"

section \<open>Laws\<close>

lemma zero_not_nan: "is_zero w \<Longrightarrow> \<not> is_nan w"
  by (auto simp: is_zero_def is_nan_def)

lemma zero_sign: "is_zero a \<Longrightarrow> is_zero b \<Longrightarrow> signbit a = signbit b \<Longrightarrow> a = b"
  by (auto simp: is_zero_def signbit_def)

lemma double_eq_sign: "double_eq a b \<and> signbit a = signbit b \<longleftrightarrow> \<not> is_nan a \<and> a = b"
  using zero_sign by (auto simp: double_eq_def)

lemma same_value_number:
  "same_value (VNumber a) (VNumber b) \<longleftrightarrow> a = b \<or> is_nan a \<and> is_nan b"
  by (auto simp: double_eq_sign)

lemma same_value_refl [simp]: "same_value a a"
  by (cases a) (simp_all add: double_eq_def)

lemma same_value_zero_refl [simp]: "same_value_zero a a"
  by (cases a) (simp_all add: double_eq_def)

lemma same_value_zero_sym: "same_value_zero a b = same_value_zero b a"
  by (cases a; cases b) (auto simp: double_eq_def)

lemma same_value_zero_trans: "same_value_zero a b \<Longrightarrow> same_value_zero b c \<Longrightarrow> same_value_zero a c"
  by (cases a; cases b; cases c) (auto simp: double_eq_def split: if_splits)

lemma same_value_sym: "same_value a b = same_value b a"
  by (cases a; cases b) (auto simp: double_eq_def)

lemma same_value_trans: "same_value a b \<Longrightarrow> same_value b c \<Longrightarrow> same_value a c"
  by (cases a; cases b; cases c) (auto simp: same_value_number simp del: same_value.simps(1))

lemma equality_strength:
  "same_value a b \<Longrightarrow> same_value_zero a b" "equalsTo a b \<Longrightarrow> same_value_zero a b"
  by (cases a; cases b; auto split: if_splits)+

text \<open>
  The equalities of \<^verbatim>\<open>Value\<close>: \<^verbatim>\<open>SameValueZero\<close> and \<^verbatim>\<open>SameValue\<close> are equivalence relations,
  \<^verbatim>\<open>SameValue\<close> is \<^verbatim>\<open>SameValueZero\<close> without the pair of zeros of different sign, and strict
  equality is \<^verbatim>\<open>SameValueZero\<close> without NaN (so it is not reflexive).
\<close>

theorem equalities_of_values:
  "equivp same_value_zero \<and> equivp same_value \<and>
   (\<forall>a b. same_value a b \<longleftrightarrow> same_value_zero a b \<and>
      (\<nexists>x y. a = VNumber x \<and> b = VNumber y \<and> is_zero x \<and> is_zero y \<and> x \<noteq> y)) \<and>
   (\<forall>a b. equalsTo a b \<longleftrightarrow> same_value_zero a b \<and> (\<nexists>x. a = VNumber x \<and> is_nan x))"
proof (intro conjI allI)
  show "equivp same_value_zero"
    by (rule equivpI) (auto simp: reflp_def symp_def transp_def same_value_zero_sym intro: same_value_zero_trans)
  show "equivp same_value"
    by (rule equivpI) (auto simp: reflp_def symp_def transp_def same_value_sym intro: same_value_trans)
  fix a b
  show "same_value a b \<longleftrightarrow> same_value_zero a b \<and>
      (\<nexists>x y. a = VNumber x \<and> b = VNumber y \<and> is_zero x \<and> is_zero y \<and> x \<noteq> y)"
    by (cases a; cases b) (auto simp: same_value_number double_eq_def zero_not_nan simp del: same_value.simps(1))
  show "equalsTo a b \<longleftrightarrow> same_value_zero a b \<and> (\<nexists>x. a = VNumber x \<and> is_nan x)"
    by (cases a; cases b) (auto simp: double_eq_def)
qed

end
