(* ===== verification/Property_Request.thy ===== *)
theory Property_Request
  imports Property_Descriptor Js_Value
begin

text \<open>
  \<^verbatim>\<open>ObjectPropertyDescriptor\<close> (\<^verbatim>\<open>runtime/Object.h\<close>, \<^verbatim>\<open>runtime/Object.cpp\<close>): the descriptor a
  caller passes to \<^verbatim>\<open>defineOwnProperty\<close>. Every attribute is present as true, present as false
  or absent, coded in a bit set; value and getter/setter share storage.
\<close>

section \<open>The class\<close>

abbreviation pb_Writable :: nat where "pb_Writable \<equiv> 1"
abbreviation pb_Enumerable :: nat where "pb_Enumerable \<equiv> 2"
abbreviation pb_Configurable :: nat where "pb_Configurable \<equiv> 3"
abbreviation pb_NonWritable :: nat where "pb_NonWritable \<equiv> 4"
abbreviation pb_NonEnumerable :: nat where "pb_NonEnumerable \<equiv> 5"
abbreviation pb_NonConfigurable :: nat where "pb_NonConfigurable \<equiv> 6"
abbreviation pb_Value :: nat where "pb_Value \<equiv> 7"

text \<open>The storage shared by \<^verbatim>\<open>m_value\<close> and \<^verbatim>\<open>m_getterSetter\<close>, told apart by \<^verbatim>\<open>m_isDataProperty\<close>.\<close>

datatype request_payload = ValuePayload jsval | GetterSetterPayload "jsval option" "jsval option"

record prop_request =
  pr_property :: u8
  pr_payload :: request_payload

definition pr_isDataProperty :: "prop_request \<Rightarrow> bool" where
  "pr_isDataProperty d = (case pr_payload d of ValuePayload _ \<Rightarrow> True | GetterSetterPayload _ _ \<Rightarrow> False)"

definition pr_value :: "prop_request \<Rightarrow> jsval" where
  "pr_value d = (case pr_payload d of ValuePayload v \<Rightarrow> v | GetterSetterPayload _ _ \<Rightarrow> VUndefined)"

definition pr_getter :: "prop_request \<Rightarrow> jsval option" where
  "pr_getter d = (case pr_payload d of GetterSetterPayload g _ \<Rightarrow> g | ValuePayload _ \<Rightarrow> None)"

definition pr_setter :: "prop_request \<Rightarrow> jsval option" where
  "pr_setter d = (case pr_payload d of GetterSetterPayload _ s \<Rightarrow> s | ValuePayload _ \<Rightarrow> None)"

definition data_request :: "jsval \<Rightarrow> u8 \<Rightarrow> prop_request" where
  "data_request v attribute = \<lparr>pr_property = set_bit pb_Value attribute, pr_payload = ValuePayload v\<rparr>"

definition accessor_request :: "jsval option \<Rightarrow> jsval option \<Rightarrow> u8 \<Rightarrow> prop_request" where
  "accessor_request g s attribute = \<lparr>pr_property = attribute, pr_payload = GetterSetterPayload g s\<rparr>"

definition generic_request :: "u8 \<Rightarrow> prop_request" where
  "generic_request attribute = \<lparr>pr_property = attribute, pr_payload = ValuePayload VUndefined\<rparr>"

definition pr_isWritablePresent :: "prop_request \<Rightarrow> bool" where
  "pr_isWritablePresent d \<longleftrightarrow> bit (pr_property d) pb_Writable \<or> bit (pr_property d) pb_NonWritable"

definition pr_isEnumerablePresent :: "prop_request \<Rightarrow> bool" where
  "pr_isEnumerablePresent d \<longleftrightarrow> bit (pr_property d) pb_Enumerable \<or> bit (pr_property d) pb_NonEnumerable"

definition pr_isConfigurablePresent :: "prop_request \<Rightarrow> bool" where
  "pr_isConfigurablePresent d \<longleftrightarrow>
     bit (pr_property d) pb_Configurable \<or> bit (pr_property d) pb_NonConfigurable"

definition pr_isValuePresent :: "prop_request \<Rightarrow> bool" where
  "pr_isValuePresent d = bit (pr_property d) pb_Value"

definition pr_isWritable :: "prop_request \<Rightarrow> bool" where
  "pr_isWritable d = bit (pr_property d) pb_Writable"

definition pr_isEnumerable :: "prop_request \<Rightarrow> bool" where
  "pr_isEnumerable d = bit (pr_property d) pb_Enumerable"

definition pr_isConfigurable :: "prop_request \<Rightarrow> bool" where
  "pr_isConfigurable d = bit (pr_property d) pb_Configurable"

definition pr_isDataDescriptor :: "prop_request \<Rightarrow> bool" where
  "pr_isDataDescriptor d \<longleftrightarrow> pr_isValuePresent d \<or> pr_isWritablePresent d"

definition pr_isAccessorDescriptor :: "prop_request \<Rightarrow> bool" where
  "pr_isAccessorDescriptor d \<longleftrightarrow> \<not> pr_isDataProperty d"

definition pr_isGenericDescriptor :: "prop_request \<Rightarrow> bool" where
  "pr_isGenericDescriptor d \<longleftrightarrow> \<not> pr_isDataDescriptor d \<and> \<not> pr_isAccessorDescriptor d"

definition setEnumerable :: "bool \<Rightarrow> prop_request \<Rightarrow> prop_request" where
  "setEnumerable b d = d\<lparr>pr_property :=
     (if b then unset_bit pb_NonEnumerable (set_bit pb_Enumerable (pr_property d))
      else unset_bit pb_Enumerable (set_bit pb_NonEnumerable (pr_property d)))\<rparr>"

definition setConfigurable :: "bool \<Rightarrow> prop_request \<Rightarrow> prop_request" where
  "setConfigurable b d = d\<lparr>pr_property :=
     (if b then unset_bit pb_NonConfigurable (set_bit pb_Configurable (pr_property d))
      else unset_bit pb_Configurable (set_bit pb_NonConfigurable (pr_property d)))\<rparr>"

definition setWritable :: "bool \<Rightarrow> prop_request \<Rightarrow> prop_request" where
  "setWritable b d = d\<lparr>pr_property :=
     (if b then unset_bit pb_NonWritable (set_bit pb_Writable (pr_property d))
      else unset_bit pb_Writable (set_bit pb_NonWritable (pr_property d)))\<rparr>"

definition setValue :: "jsval \<Rightarrow> prop_request \<Rightarrow> prop_request" where
  "setValue v d = d\<lparr>pr_property := set_bit pb_Value (pr_property d), pr_payload := ValuePayload v\<rparr>"

definition toObjectStructurePropertyDescriptor :: "prop_request \<Rightarrow> pdesc" where
  "toObjectStructurePropertyDescriptor d =
     (if pr_isDataProperty d then
        createDataDescriptor
          ((if pr_isWritable d then WritablePresent else 0) OR
           (if pr_isConfigurable d then ConfigurablePresent else 0) OR
           (if pr_isEnumerable d then EnumerablePresent else 0))
      else
        createAccessorDescriptor
          ((if pr_isConfigurable d then ConfigurablePresent else 0) OR
           (if pr_isEnumerable d then EnumerablePresent else 0) OR
           (if pr_getter d \<noteq> None then HasJSGetter else 0) OR
           (if pr_setter d \<noteq> None then HasJSSetter else 0)))"

text \<open>
  \<^verbatim>\<open>fromObjectStructurePropertyDescriptor\<close>; the slot of an accessor property holds its
  getter/setter pair (any other value is the failed cast \<open>None\<close>).
\<close>

definition fromObjectStructurePropertyDescriptor :: "nheap \<Rightarrow> pdesc \<Rightarrow> jsval \<Rightarrow> prop_request option" where
  "fromObjectStructurePropertyDescriptor nh d v =
     (if desc_isDataProperty d then
        Some (setConfigurable (desc_isConfigurable nh d) (setEnumerable (desc_isEnumerable nh d)
          (setWritable (desc_isWritable nh d) (data_request v 0))))
      else case v of
        VGetterSetter g s \<Rightarrow>
          Some (setConfigurable (desc_isConfigurable nh d) (setEnumerable (desc_isEnumerable nh d)
            (accessor_request g s 0)))
      | _ \<Rightarrow> None)"

definition completePropertyDescriptor :: "prop_request \<Rightarrow> prop_request" where
  "completePropertyDescriptor d =
     (let d1 =
        (if pr_isGenericDescriptor d \<or> pr_isDataDescriptor d then
           let d' = (if \<not> pr_isValuePresent d then setValue VUndefined d else d) in
           if \<not> pr_isWritablePresent d' then setWritable False d' else d'
         else
           d\<lparr>pr_payload := GetterSetterPayload
              (if pr_getter d = None then Some VUndefined else pr_getter d)
              (if pr_setter d = None then Some VUndefined else pr_setter d)\<rparr>);
        d2 = (if \<not> pr_isEnumerablePresent d1 then setEnumerable False d1 else d1) in
      if \<not> pr_isConfigurablePresent d2 then setConfigurable False d2 else d2)"

text \<open>
  \<^verbatim>\<open>checkProperty\<close>, the assertion every constructor ends with; a request also has a value of the
  language, or a getter or a setter, each an object or undefined.
\<close>

definition checkProperty :: "prop_request \<Rightarrow> bool" where
  "checkProperty d \<longleftrightarrow>
     \<not> (bit (pr_property d) pb_Writable \<and> bit (pr_property d) pb_NonWritable) \<and>
     \<not> (bit (pr_property d) pb_Enumerable \<and> bit (pr_property d) pb_NonEnumerable) \<and>
     \<not> (bit (pr_property d) pb_Configurable \<and> bit (pr_property d) pb_NonConfigurable) \<and>
     (pr_isDataProperty d \<or> \<not> (bit (pr_property d) pb_Writable \<or> bit (pr_property d) pb_NonWritable \<or>
        bit (pr_property d) pb_Value))"

definition accessor_part :: "jsval option \<Rightarrow> bool" where
  "accessor_part p = (case p of None \<Rightarrow> True | Some VUndefined \<Rightarrow> True | Some (VObject _) \<Rightarrow> True | _ \<Rightarrow> False)"

definition request_ok :: "prop_request \<Rightarrow> bool" where
  "request_ok d \<longleftrightarrow> checkProperty d \<and>
     (case pr_payload d of
        ValuePayload v \<Rightarrow> \<not> is_gs v
      | GetterSetterPayload g s \<Rightarrow> (g \<noteq> None \<or> s \<noteq> None) \<and> accessor_part g \<and> accessor_part s)"

section \<open>Reading after writing\<close>

lemmas request_defs = pr_isDataProperty_def pr_value_def pr_getter_def pr_setter_def
  pr_isWritablePresent_def pr_isEnumerablePresent_def pr_isConfigurablePresent_def pr_isValuePresent_def
  pr_isWritable_def pr_isEnumerable_def pr_isConfigurable_def

lemma set_attribute_reads [desc_simps]:
  "pr_isEnumerable (setEnumerable b d) = b" "pr_isEnumerablePresent (setEnumerable b d)"
  "pr_isConfigurable (setConfigurable b d) = b" "pr_isConfigurablePresent (setConfigurable b d)"
  "pr_isWritable (setWritable b d) = b" "pr_isWritablePresent (setWritable b d)"
  "pr_value (setValue v d) = v" "pr_isValuePresent (setValue v d)" "pr_isDataProperty (setValue v d)"
  by (simp_all add: request_defs setEnumerable_def setConfigurable_def setWritable_def setValue_def bit_simps)

lemma set_attribute_frame [desc_simps]:
  "pr_isWritable (setEnumerable b d) = pr_isWritable d"
  "pr_isWritablePresent (setEnumerable b d) = pr_isWritablePresent d"
  "pr_isConfigurable (setEnumerable b d) = pr_isConfigurable d"
  "pr_isConfigurablePresent (setEnumerable b d) = pr_isConfigurablePresent d"
  "pr_isValuePresent (setEnumerable b d) = pr_isValuePresent d"
  "pr_payload (setEnumerable b d) = pr_payload d"
  "pr_isWritable (setConfigurable b d) = pr_isWritable d"
  "pr_isWritablePresent (setConfigurable b d) = pr_isWritablePresent d"
  "pr_isEnumerable (setConfigurable b d) = pr_isEnumerable d"
  "pr_isEnumerablePresent (setConfigurable b d) = pr_isEnumerablePresent d"
  "pr_isValuePresent (setConfigurable b d) = pr_isValuePresent d"
  "pr_payload (setConfigurable b d) = pr_payload d"
  "pr_isConfigurable (setWritable b d) = pr_isConfigurable d"
  "pr_isConfigurablePresent (setWritable b d) = pr_isConfigurablePresent d"
  "pr_isEnumerable (setWritable b d) = pr_isEnumerable d"
  "pr_isEnumerablePresent (setWritable b d) = pr_isEnumerablePresent d"
  "pr_isValuePresent (setWritable b d) = pr_isValuePresent d"
  "pr_payload (setWritable b d) = pr_payload d"
  "pr_isWritable (setValue v d) = pr_isWritable d"
  "pr_isWritablePresent (setValue v d) = pr_isWritablePresent d"
  "pr_isConfigurable (setValue v d) = pr_isConfigurable d"
  "pr_isConfigurablePresent (setValue v d) = pr_isConfigurablePresent d"
  "pr_isEnumerable (setValue v d) = pr_isEnumerable d"
  "pr_isEnumerablePresent (setValue v d) = pr_isEnumerablePresent d"
  "pr_payload (setValue v d) = ValuePayload v"
  by (simp_all add: request_defs setEnumerable_def setConfigurable_def setWritable_def setValue_def bit_simps)

lemma payload_reads [desc_simps]:
  "pr_isDataProperty (setEnumerable b d) = pr_isDataProperty d" "pr_value (setEnumerable b d) = pr_value d"
  "pr_getter (setEnumerable b d) = pr_getter d" "pr_setter (setEnumerable b d) = pr_setter d"
  "pr_isDataProperty (setConfigurable b d) = pr_isDataProperty d"
  "pr_value (setConfigurable b d) = pr_value d"
  "pr_getter (setConfigurable b d) = pr_getter d" "pr_setter (setConfigurable b d) = pr_setter d"
  "pr_isDataProperty (setWritable b d) = pr_isDataProperty d" "pr_value (setWritable b d) = pr_value d"
  "pr_getter (setWritable b d) = pr_getter d" "pr_setter (setWritable b d) = pr_setter d"
  by (simp_all add: pr_isDataProperty_def pr_value_def pr_getter_def pr_setter_def desc_simps)

lemma new_request_reads [desc_simps]:
  "pr_isDataProperty (data_request v a)" "pr_value (data_request v a) = v"
  "pr_isValuePresent (data_request v a)"
  "pr_isWritable (data_request v a) = bit a pb_Writable"
  "pr_isEnumerable (data_request v a) = bit a pb_Enumerable"
  "pr_isConfigurable (data_request v a) = bit a pb_Configurable"
  "pr_isWritablePresent (data_request v a) = (bit a pb_Writable \<or> bit a pb_NonWritable)"
  "pr_isEnumerablePresent (data_request v a) = (bit a pb_Enumerable \<or> bit a pb_NonEnumerable)"
  "pr_isConfigurablePresent (data_request v a) = (bit a pb_Configurable \<or> bit a pb_NonConfigurable)"
  "\<not> pr_isDataProperty (accessor_request g s a)" "pr_getter (accessor_request g s a) = g"
  "pr_setter (accessor_request g s a) = s"
  "pr_isValuePresent (accessor_request g s a) = bit a pb_Value"
  "pr_isWritable (accessor_request g s a) = bit a pb_Writable"
  "pr_isEnumerable (accessor_request g s a) = bit a pb_Enumerable"
  "pr_isConfigurable (accessor_request g s a) = bit a pb_Configurable"
  "pr_isWritablePresent (accessor_request g s a) = (bit a pb_Writable \<or> bit a pb_NonWritable)"
  "pr_isEnumerablePresent (accessor_request g s a) = (bit a pb_Enumerable \<or> bit a pb_NonEnumerable)"
  "pr_isConfigurablePresent (accessor_request g s a) = (bit a pb_Configurable \<or> bit a pb_NonConfigurable)"
  by (simp_all add: request_defs data_request_def accessor_request_def bit_simps)

text \<open>The structure descriptor a request becomes has the attributes of the request.\<close>

lemma to_structure_reads [desc_simps]:
  "desc_isDataProperty (toObjectStructurePropertyDescriptor d) = pr_isDataProperty d"
  "desc_isNativeAccessorProperty (toObjectStructurePropertyDescriptor d) = False"
  "desc_isPlainDataProperty (toObjectStructurePropertyDescriptor d) = pr_isDataProperty d"
  "desc_isEnumerable nh (toObjectStructurePropertyDescriptor d) = pr_isEnumerable d"
  "desc_isConfigurable nh (toObjectStructurePropertyDescriptor d) = pr_isConfigurable d"
  "pr_isDataProperty d \<Longrightarrow> desc_isWritable nh (toObjectStructurePropertyDescriptor d) = pr_isWritable d"
proof -
  have a: "\<not> desc_isDataProperty (createAccessorDescriptor b)" for b
    using accessor_descriptor_reads(6) [of b] by (simp add: desc_isAccessorProperty_def)
  show "desc_isDataProperty (toObjectStructurePropertyDescriptor d) = pr_isDataProperty d"
    "desc_isNativeAccessorProperty (toObjectStructurePropertyDescriptor d) = False"
    "desc_isPlainDataProperty (toObjectStructurePropertyDescriptor d) = pr_isDataProperty d"
    "desc_isEnumerable nh (toObjectStructurePropertyDescriptor d) = pr_isEnumerable d"
    "desc_isConfigurable nh (toObjectStructurePropertyDescriptor d) = pr_isConfigurable d"
    "pr_isDataProperty d \<Longrightarrow> desc_isWritable nh (toObjectStructurePropertyDescriptor d) = pr_isWritable d"
    by (simp_all add: toObjectStructurePropertyDescriptor_def data_descriptor_reads accessor_descriptor_reads a)
qed

end
