(* ===== verification/Plain_Object.thy ===== *)
theory Plain_Object
  imports Structure_Properties Property_Request
begin

text \<open>
  Ordinary objects (\<^verbatim>\<open>runtime/Object.{h,cpp}\<close>): a hidden class, a vector with one slot per
  property, and a prototype. An object heap holds all objects and the heap of structures they
  share. As there, \<open>None\<close> as a result is a null dereference, an index out of range or a failed
  cast of a slot; the result of an operation that may run user code is an exception or a value.
\<close>

section \<open>State\<close>

record js_object =
  m_structure :: nat
  m_values :: "jsval list"
  m_prototype :: "nat option"
  m_isExtensible :: bool
  m_isInlineCacheable :: bool
  m_isOrdinary :: bool

record obj_state =
  os_structs :: structure_heap
  os_objs :: "nat \<Rightarrow> js_object option"

type_synonym 'a outcome = "(obj_state \<times> (jsval + 'a)) option"

text \<open>
  The code outside: the getters and setters of native data properties, given by the index
  stored in the property, and the call of a function object.
\<close>

record oenv =
  k_env :: senv
  k_native_get :: "nat \<Rightarrow> obj_state \<Rightarrow> nat \<Rightarrow> jsval \<Rightarrow> jsval \<Rightarrow> jsval"
  k_native_set :: "nat \<Rightarrow> obj_state \<Rightarrow> nat \<Rightarrow> jsval \<Rightarrow> nat \<Rightarrow> jsval \<Rightarrow> obj_state \<times> (jsval + bool)"
  k_isCallable :: "jsval \<Rightarrow> bool"
  k_call :: "obj_state \<Rightarrow> jsval \<Rightarrow> jsval \<Rightarrow> jsval list \<Rightarrow> obj_state \<times> (jsval + jsval)"

abbreviation k_native :: "oenv \<Rightarrow> nheap" where "k_native k \<equiv> e_native (k_env k)"

definition set_obj :: "obj_state \<Rightarrow> nat \<Rightarrow> js_object \<Rightarrow> obj_state" where
  "set_obj st ob x = st\<lparr>os_objs := (os_objs st)(ob \<mapsto> x)\<rparr>"

definition set_slot :: "obj_state \<Rightarrow> nat \<Rightarrow> nat \<Rightarrow> jsval \<Rightarrow> obj_state option" where
  "set_slot st ob idx v =
     (case os_objs st ob of None \<Rightarrow> None
      | Some x \<Rightarrow> if idx < length (m_values x) then Some (set_obj st ob (x\<lparr>m_values := (m_values x)[idx := v]\<rparr>))
                  else None)"

text \<open>A new structure for an object, with the heap in which it was made.\<close>

definition set_structure :: "obj_state \<Rightarrow> nat \<Rightarrow> js_object \<Rightarrow> structure_heap \<times> nat \<Rightarrow> obj_state" where
  "set_structure st ob x r = set_obj (st\<lparr>os_structs := fst r\<rparr>) ob (x\<lparr>m_structure := snd r\<rparr>)"

section \<open>Reading\<close>

text \<open>\<^verbatim>\<open>ObjectGetResult\<close> with its four constructors.\<close>

datatype get_result =
    NoProperty
  | DataResult jsval bool bool bool
  | NativeResult native_gs nat jsval bool bool bool
  | AccessorResult "jsval option" "jsval option" bool bool

fun gr_hasValue :: "get_result \<Rightarrow> bool" where
  "gr_hasValue NoProperty = False"
| "gr_hasValue _ = True"

fun gr_isConfigurable :: "get_result \<Rightarrow> bool" where
  "gr_isConfigurable NoProperty = False"
| "gr_isConfigurable (DataResult _ _ _ c) = c"
| "gr_isConfigurable (NativeResult _ _ _ _ _ c) = c"
| "gr_isConfigurable (AccessorResult _ _ _ c) = c"

text \<open>The result for the property at an index.\<close>

definition read_own :: "oenv \<Rightarrow> nat \<Rightarrow> structure_item \<Rightarrow> jsval \<Rightarrow> get_result option" where
  "read_own k ob item v =
     (let d = m_descriptor item; nh = k_native k;
          w = desc_isWritable nh d; en = desc_isEnumerable nh d; c = desc_isConfigurable nh d in
      if desc_isDataProperty d then
        if \<not> desc_isNativeAccessorProperty d then Some (DataResult v w en c)
        else Some (NativeResult (nh d) ob v w en c)
      else case v of VGetterSetter g s \<Rightarrow> Some (AccessorResult g s en c) | _ \<Rightarrow> None)"

text \<open>
  \<^verbatim>\<open>Object::getOwnProperty\<close>; \<open>isUInt\<close> says that the name was given as an integer, for which a
  structure without index names is not searched.
\<close>

definition getOwnProperty :: "oenv \<Rightarrow> obj_state \<Rightarrow> nat \<Rightarrow> bool \<Rightarrow> pname \<Rightarrow> get_result option" where
  "getOwnProperty k st ob isUInt n =
     (case os_objs st ob of None \<Rightarrow> None | Some x \<Rightarrow>
      case h_structs (os_structs st) (m_structure x) of None \<Rightarrow> None | Some sx \<Rightarrow>
      if isUInt \<and> \<not> m_hasIndexPropertyName (flags_of sx) then Some NoProperty
      else case findProperty (k_env k) (os_structs st) (m_structure x) n of
        None \<Rightarrow> None
      | Some None \<Rightarrow> Some NoProperty
      | Some (Some idx) \<Rightarrow>
          (case readProperty (os_structs st) (m_structure x) idx of
             None \<Rightarrow> None
           | Some item \<Rightarrow> if idx < length (m_values x) then read_own k ob item (m_values x ! idx) else None))"

text \<open>\<^verbatim>\<open>ObjectGetResult::value\<close>: a native property calls its getter, an accessor its function.\<close>

fun gr_value :: "oenv \<Rightarrow> obj_state \<Rightarrow> jsval \<Rightarrow> get_result \<Rightarrow> obj_state \<times> (jsval + jsval)" where
  "gr_value k st receiver NoProperty = (st, Inr VUndefined)"
| "gr_value k st receiver (DataResult v _ _ _) = (st, Inr v)"
| "gr_value k st receiver (NativeResult gs ob v _ _ _) = (st, Inr (k_native_get k (m_getter gs) st ob receiver v))"
| "gr_value k st receiver (AccessorResult g s _ _) =
     (case g of
        Some f \<Rightarrow> if k_isCallable k f then k_call k st f receiver [] else (st, Inr VUndefined)
      | None \<Rightarrow> (st, Inr VUndefined))"

section \<open>Defining\<close>

text \<open>The value a new property gets in its slot.\<close>

definition slot_of_request :: "prop_request \<Rightarrow> jsval" where
  "slot_of_request d =
     (if pr_isDataProperty d then if pr_isValuePresent d then pr_value d else VUndefined
      else VGetterSetter (pr_getter d) (pr_setter d))"

definition add_own_property :: "oenv \<Rightarrow> obj_state \<Rightarrow> nat \<Rightarrow> js_object \<Rightarrow> pname \<Rightarrow> prop_request \<Rightarrow> obj_state option" where
  "add_own_property k st ob x n d =
     (case addProperty (k_env k) (os_structs st) (m_structure x) n (toObjectStructurePropertyDescriptor d) of
        None \<Rightarrow> None
      | Some r \<Rightarrow> Some (set_structure st ob (x\<lparr>m_values := m_values x @ [slot_of_request d]\<rparr>) r))"

text \<open>\<^verbatim>\<open>setOwnDataPropertyUtilForObjectInner\<close>.\<close>

definition setOwnDataPropertyUtilForObjectInner ::
    "oenv \<Rightarrow> obj_state \<Rightarrow> nat \<Rightarrow> nat \<Rightarrow> pdesc \<Rightarrow> jsval \<Rightarrow> jsval \<Rightarrow> bool outcome" where
  "setOwnDataPropertyUtilForObjectInner k st ob idx d v receiver =
     (if desc_isPlainDataProperty d then map_option (\<lambda>st'. (st', Inr True)) (set_slot st ob idx v)
      else Some (k_native_set k (m_setter (k_native k d)) st ob receiver idx v))"

text \<open>
  The parts of \<^verbatim>\<open>defineOwnPropertyMethod\<close> for a property that is there already: the two groups of
  rejections, the descriptor the request is merged into, and the test whether the structure has
  to change.
\<close>

definition reject_attributes :: "nheap \<Rightarrow> pdesc \<Rightarrow> prop_request \<Rightarrow> bool" where
  "reject_attributes nh current d \<longleftrightarrow>
     \<not> desc_isConfigurable nh current \<and>
     (pr_isConfigurable d \<or>
      pr_isEnumerablePresent d \<and> pr_isEnumerable d \<noteq> desc_isEnumerable nh current)"

definition kind_changes :: "pdesc \<Rightarrow> prop_request \<Rightarrow> bool" where
  "kind_changes current d \<longleftrightarrow>
     \<not> pr_isGenericDescriptor d \<and> desc_isDataProperty current \<noteq> pr_isDataDescriptor d"

definition reject_accessor :: "jsval option \<Rightarrow> jsval option \<Rightarrow> prop_request \<Rightarrow> bool" where
  "reject_accessor g s d \<longleftrightarrow>
     (\<exists>f. pr_setter d = Some f \<and> f \<noteq> (case s of Some f' \<Rightarrow> f' | None \<Rightarrow> VUndefined)) \<or>
     (\<exists>f. pr_getter d = Some f \<and> f \<noteq> (case g of Some f' \<Rightarrow> f' | None \<Rightarrow> VUndefined))"

text \<open>\<open>own\<close> is the current value of a data property, \<open>slot\<close> the content of the slot.\<close>

definition reject_kind :: "nheap \<Rightarrow> pdesc \<Rightarrow> prop_request \<Rightarrow> jsval \<Rightarrow> jsval \<Rightarrow> bool" where
  "reject_kind nh current d own slot \<longleftrightarrow>
     \<not> pr_isGenericDescriptor d \<and> \<not> desc_isConfigurable nh current \<and>
     (if desc_isDataProperty current \<noteq> pr_isDataDescriptor d then True
      else if desc_isDataProperty current \<and> pr_isDataDescriptor d then
        \<not> desc_isWritable nh current \<and>
        (pr_isWritable d \<or> pr_isValuePresent d \<and> \<not> same_value (pr_value d) own)
      else case slot of VGetterSetter g s \<Rightarrow> reject_accessor g s d | _ \<Rightarrow> True)"

definition changed_kind_request :: "nheap \<Rightarrow> pdesc \<Rightarrow> prop_request \<Rightarrow> prop_request" where
  "changed_kind_request nh current d =
     (let f = set_bit (if desc_isConfigurable nh current then pb_Configurable else pb_NonConfigurable)
                (set_bit (if desc_isEnumerable nh current then pb_Enumerable else pb_NonEnumerable) 0) in
      if desc_isDataProperty current then accessor_request (pr_getter d) (pr_setter d) f
      else data_request (if pr_isValuePresent d then pr_value d else VUndefined) f)"

definition merge_request :: "prop_request \<Rightarrow> prop_request \<Rightarrow> prop_request" where
  "merge_request nd d =
     (let d1 =
        (if pr_isDataDescriptor nd then
           let d' = (if pr_isValuePresent d then setValue (pr_value d) nd
                     else if \<not> pr_isValuePresent nd then setValue VUndefined nd else nd) in
           if pr_isWritablePresent d then setWritable (pr_isWritable d) d' else d'
         else if pr_isAccessorDescriptor d then
           nd\<lparr>pr_payload := GetterSetterPayload
                (if pr_getter d \<noteq> None then pr_getter d else pr_getter nd)
                (if pr_setter d \<noteq> None then pr_setter d else pr_setter nd)\<rparr>
         else nd);
        d2 = (if pr_isConfigurablePresent d then setConfigurable (pr_isConfigurable d) d1 else d1) in
      if pr_isEnumerablePresent d then setEnumerable (pr_isEnumerable d) d2 else d2)"

definition attributes_change :: "nheap \<Rightarrow> pdesc \<Rightarrow> prop_request \<Rightarrow> bool" where
  "attributes_change nh current nd \<longleftrightarrow>
     pr_isDataDescriptor nd \<and> pr_isWritablePresent nd \<and> pr_isWritable nd \<noteq> desc_isWritable nh current \<or>
     pr_isEnumerablePresent nd \<and> pr_isEnumerable nd \<noteq> desc_isEnumerable nh current \<or>
     pr_isConfigurablePresent nd \<and> pr_isConfigurable nd \<noteq> desc_isConfigurable nh current"

text \<open>
  Storing the merged descriptor. \<open>fresh\<close> is the address of the getter/setter record allocated
  for a native property whose attributes change.
\<close>

definition store_request ::
    "oenv \<Rightarrow> obj_state \<Rightarrow> nat \<Rightarrow> js_object \<Rightarrow> nat \<Rightarrow> pdesc \<Rightarrow> prop_request \<Rightarrow> prop_request \<Rightarrow> bool \<Rightarrow> pdesc \<Rightarrow>
     bool outcome" where
  "store_request k st ob x idx current d nd shouldDelete fresh =
     (if \<not> shouldDelete then
        if pr_isDataDescriptor nd then
          if pr_isValuePresent d
          then setOwnDataPropertyUtilForObjectInner k st ob idx current (pr_value nd) (VObject ob)
          else Some (st, Inr True)
        else map_option (\<lambda>st'. (st', Inr True)) (set_slot st ob idx (VGetterSetter (pr_getter nd) (pr_setter nd)))
      else
        let d' = (if pr_isDataDescriptor nd \<and> desc_isNativeAccessorProperty current
                  then createDataButHasNativeGetterSetterDescriptor fresh
                  else toObjectStructurePropertyDescriptor nd) in
        case replacePropertyDescriptor (k_env k) (os_structs st) (m_structure x) idx d' of
          None \<Rightarrow> None
        | Some r \<Rightarrow>
            let st1 = set_structure st ob x r in
            if pr_isDataDescriptor nd
            then setOwnDataPropertyUtilForObjectInner k st1 ob idx d' (pr_value nd) (VObject ob)
            else map_option (\<lambda>st'. (st', Inr True)) (set_slot st1 ob idx (VGetterSetter (pr_getter nd) (pr_setter nd))))"

text \<open>\<^verbatim>\<open>Object::defineOwnPropertyMethod\<close>.\<close>

definition defineOwnPropertyMethod ::
    "oenv \<Rightarrow> obj_state \<Rightarrow> nat \<Rightarrow> pname \<Rightarrow> prop_request \<Rightarrow> pdesc \<Rightarrow> bool outcome" where
  "defineOwnPropertyMethod k st ob n d fresh =
     (case os_objs st ob of None \<Rightarrow> None | Some x \<Rightarrow>
      case findProperty (k_env k) (os_structs st) (m_structure x) n of
        None \<Rightarrow> None
      | Some None \<Rightarrow>
          if \<not> m_isExtensible x then Some (st, Inr False)
          else map_option (\<lambda>st'. (st', Inr True)) (add_own_property k st ob x n d)
      | Some (Some idx) \<Rightarrow>
          (case readProperty (os_structs st) (m_structure x) idx of None \<Rightarrow> None | Some item \<Rightarrow>
           if idx \<ge> length (m_values x) then None
           else
             let current = m_descriptor item; nh = k_native k; slot = m_values x ! idx;
                 own = (if desc_isNativeAccessorProperty current
                        then k_native_get k (m_getter (nh current)) st ob (VObject ob) slot else slot) in
             if reject_attributes nh current d then Some (st, Inr False)
             else case fromObjectStructurePropertyDescriptor nh current own of
               None \<Rightarrow> None
             | Some old \<Rightarrow>
                 if reject_kind nh current d own slot then Some (st, Inr False)
                 else
                   let base = (if kind_changes current d then changed_kind_request nh current d else old);
                       nd = merge_request base d;
                       shouldDelete = (kind_changes current d \<or> attributes_change nh current nd) in
                   store_request k st ob x idx current d nd shouldDelete fresh))"

text \<open>\<^verbatim>\<open>Object::directDefineOwnProperty\<close>: the caller knows that the property is not there.\<close>

definition directDefineOwnProperty :: "oenv \<Rightarrow> obj_state \<Rightarrow> nat \<Rightarrow> pname \<Rightarrow> prop_request \<Rightarrow> obj_state option" where
  "directDefineOwnProperty k st ob n d =
     (case os_objs st ob of None \<Rightarrow> None | Some x \<Rightarrow> add_own_property k st ob x n d)"

section \<open>Deleting and restricting\<close>

text \<open>\<^verbatim>\<open>Object::deleteOwnProperty(state, idx)\<close>.\<close>

definition delete_index :: "oenv \<Rightarrow> obj_state \<Rightarrow> nat \<Rightarrow> js_object \<Rightarrow> nat \<Rightarrow> obj_state option" where
  "delete_index k st ob x idx =
     (case removeProperty (k_env k) (os_structs st) (m_structure x) idx of
        None \<Rightarrow> None
      | Some r \<Rightarrow> Some (set_structure st ob (x\<lparr>m_values := remove_nth idx (m_values x)\<rparr>) r))"

definition deleteOwnProperty :: "oenv \<Rightarrow> obj_state \<Rightarrow> nat \<Rightarrow> bool \<Rightarrow> pname \<Rightarrow> (obj_state \<times> bool) option" where
  "deleteOwnProperty k st ob isUInt n =
     (case getOwnProperty k st ob isUInt n of
        None \<Rightarrow> None
      | Some r \<Rightarrow>
          if gr_hasValue r \<and> gr_isConfigurable r then
            (case os_objs st ob of None \<Rightarrow> None | Some x \<Rightarrow>
             case findProperty (k_env k) (os_structs st) (m_structure x) n of
               Some (Some idx) \<Rightarrow> map_option (\<lambda>st'. (st', True)) (delete_index k st ob x idx)
             | _ \<Rightarrow> None)
          else if gr_hasValue r \<and> \<not> gr_isConfigurable r then Some (st, False)
          else Some (st, True))"

text \<open>\<^verbatim>\<open>markThisObjectDontNeedStructureTransitionTable\<close> and \<^verbatim>\<open>preventExtensions\<close>.\<close>

definition markThisObjectDontNeedStructureTransitionTable :: "obj_state \<Rightarrow> nat \<Rightarrow> obj_state option" where
  "markThisObjectDontNeedStructureTransitionTable st ob =
     (case os_objs st ob of None \<Rightarrow> None | Some x \<Rightarrow>
      case convertToNonTransitionStructure (os_structs st) (m_structure x) of
        None \<Rightarrow> None
      | Some r \<Rightarrow> Some (set_structure st ob x r))"

definition preventExtensions :: "obj_state \<Rightarrow> nat \<Rightarrow> obj_state option" where
  "preventExtensions st ob =
     (case markThisObjectDontNeedStructureTransitionTable st ob of None \<Rightarrow> None | Some st' \<Rightarrow>
      case os_objs st' ob of None \<Rightarrow> None
      | Some x \<Rightarrow> Some (set_obj st' ob (x\<lparr>m_isExtensible := False\<rparr>)))"

end
