(* ===== verification/Define_Own_Property.thy ===== *)
theory Define_Own_Property
  imports Plain_Object
begin

text \<open>
  \<^verbatim>\<open>Object::defineOwnPropertyMethod\<close> against the standard: the specification is
  \<^emph>\<open>ValidateAndApplyPropertyDescriptor\<close> of ECMA-262 (10.1.6.3) on one property, and the refinement
  says that the object heap changes in that property of that object only.
\<close>

section \<open>Specification\<close>

datatype js_prop =
    DataProp jsval bool bool bool
  | AccProp jsval jsval bool bool
  | NativeProp pdesc jsval

record spec_desc =
  sd_value :: "jsval option"
  sd_writable :: "bool option"
  sd_get :: "jsval option"
  sd_set :: "jsval option"
  sd_enumerable :: "bool option"
  sd_configurable :: "bool option"

definition dflt :: "'a \<Rightarrow> 'a option \<Rightarrow> 'a" where
  "dflt a p = (case p of Some b \<Rightarrow> b | None \<Rightarrow> a)"

lemma dflt_simps [simp]: "dflt a None = a" "dflt a (Some b) = b"
  by (simp_all add: dflt_def)

definition sd_isAccessor :: "spec_desc \<Rightarrow> bool" where
  "sd_isAccessor sd \<longleftrightarrow> sd_get sd \<noteq> None \<or> sd_set sd \<noteq> None"

definition sd_isData :: "spec_desc \<Rightarrow> bool" where
  "sd_isData sd \<longleftrightarrow> sd_value sd \<noteq> None \<or> sd_writable sd \<noteq> None"

definition keeps :: "jsval option \<Rightarrow> jsval \<Rightarrow> bool" where
  "keeps p v = (case p of None \<Rightarrow> True | Some u \<Rightarrow> same_value u v)"

text \<open>Steps 3 to 6: is the change compatible with the current property?\<close>

fun compatible :: "js_prop \<Rightarrow> spec_desc \<Rightarrow> bool" where
  "compatible (DataProp v w en c) sd \<longleftrightarrow>
     c \<or> (sd_configurable sd \<noteq> Some True \<and> dflt en (sd_enumerable sd) = en \<and> \<not> sd_isAccessor sd \<and>
          (w \<or> sd_writable sd \<noteq> Some True \<and> keeps (sd_value sd) v))"
| "compatible (AccProp g s en c) sd \<longleftrightarrow>
     c \<or> (sd_configurable sd \<noteq> Some True \<and> dflt en (sd_enumerable sd) = en \<and> \<not> sd_isData sd \<and>
          keeps (sd_get sd) g \<and> keeps (sd_set sd) s)"
| "compatible (NativeProp d v) sd = True"

text \<open>Step 7: the property afterwards.\<close>

fun apply_desc :: "js_prop \<Rightarrow> spec_desc \<Rightarrow> js_prop" where
  "apply_desc (DataProp v w en c) sd =
     (if sd_isAccessor sd
      then AccProp (dflt VUndefined (sd_get sd)) (dflt VUndefined (sd_set sd))
             (dflt en (sd_enumerable sd)) (dflt c (sd_configurable sd))
      else DataProp (dflt v (sd_value sd)) (dflt w (sd_writable sd))
             (dflt en (sd_enumerable sd)) (dflt c (sd_configurable sd)))"
| "apply_desc (AccProp g s en c) sd =
     (if sd_isData sd
      then DataProp (dflt VUndefined (sd_value sd)) (dflt False (sd_writable sd))
             (dflt en (sd_enumerable sd)) (dflt c (sd_configurable sd))
      else AccProp (dflt g (sd_get sd)) (dflt s (sd_set sd))
             (dflt en (sd_enumerable sd)) (dflt c (sd_configurable sd)))"
| "apply_desc (NativeProp d v) sd = NativeProp d v"

definition create_desc :: "spec_desc \<Rightarrow> js_prop" where
  "create_desc sd =
     (if sd_isAccessor sd
      then AccProp (dflt VUndefined (sd_get sd)) (dflt VUndefined (sd_set sd))
             (dflt False (sd_enumerable sd)) (dflt False (sd_configurable sd))
      else DataProp (dflt VUndefined (sd_value sd)) (dflt False (sd_writable sd))
             (dflt False (sd_enumerable sd)) (dflt False (sd_configurable sd)))"

fun validate_and_apply :: "bool \<Rightarrow> js_prop option \<Rightarrow> spec_desc \<Rightarrow> bool \<times> js_prop option" where
  "validate_and_apply extensible None sd =
     (if extensible then (True, Some (create_desc sd)) else (False, None))"
| "validate_and_apply extensible (Some p) sd =
     (if compatible p sd then (True, Some (apply_desc p sd)) else (False, Some p))"

section \<open>What the code's data mean\<close>

definition spec_of_request :: "prop_request \<Rightarrow> spec_desc" where
  "spec_of_request d =
     \<lparr>sd_value = (if pr_isDataProperty d \<and> pr_isValuePresent d then Some (pr_value d) else None),
      sd_writable = (if pr_isWritablePresent d then Some (pr_isWritable d) else None),
      sd_get = pr_getter d, sd_set = pr_setter d,
      sd_enumerable = (if pr_isEnumerablePresent d then Some (pr_isEnumerable d) else None),
      sd_configurable = (if pr_isConfigurablePresent d then Some (pr_isConfigurable d) else None)\<rparr>"

definition prop_of :: "nheap \<Rightarrow> pdesc \<Rightarrow> jsval \<Rightarrow> js_prop" where
  "prop_of nh d v =
     (if desc_isNativeAccessorProperty d then NativeProp d v
      else if desc_isDataProperty d
      then DataProp v (desc_isWritable nh d) (desc_isEnumerable nh d) (desc_isConfigurable nh d)
      else case v of
        VGetterSetter g s \<Rightarrow> AccProp (dflt VUndefined g) (dflt VUndefined s)
          (desc_isEnumerable nh d) (desc_isConfigurable nh d)
      | _ \<Rightarrow> AccProp VUndefined VUndefined (desc_isEnumerable nh d) (desc_isConfigurable nh d))"

text \<open>The property a request with all fields describes.\<close>

definition prop_of_request :: "prop_request \<Rightarrow> js_prop" where
  "prop_of_request d =
     (if pr_isDataProperty d
      then DataProp (pr_value d) (pr_isWritable d) (pr_isEnumerable d) (pr_isConfigurable d)
      else AccProp (dflt VUndefined (pr_getter d)) (dflt VUndefined (pr_setter d))
             (pr_isEnumerable d) (pr_isConfigurable d))"

section \<open>One property\<close>

lemma request_okD:
  assumes "request_ok d"
  shows "pr_isDataProperty d \<Longrightarrow> pr_getter d = None \<and> pr_setter d = None \<and> \<not> is_gs (pr_value d)"
    and "\<not> pr_isDataProperty d \<Longrightarrow> \<not> pr_isValuePresent d \<and> \<not> pr_isWritablePresent d \<and>
           (pr_getter d \<noteq> None \<or> pr_setter d \<noteq> None)"
    and "accessor_part (pr_getter d)" "accessor_part (pr_setter d)"
    and "pr_isWritable d \<Longrightarrow> pr_isWritablePresent d" "pr_isEnumerable d \<Longrightarrow> pr_isEnumerablePresent d"
      "pr_isConfigurable d \<Longrightarrow> pr_isConfigurablePresent d"
  using assms by (auto simp: request_ok_def checkProperty_def request_defs accessor_part_def
      split: request_payload.splits)

lemma request_kinds:
  assumes "request_ok d"
  shows "sd_isAccessor (spec_of_request d) = pr_isAccessorDescriptor d"
    "sd_isData (spec_of_request d) = pr_isDataDescriptor d"
    "pr_isAccessorDescriptor d \<Longrightarrow> \<not> pr_isDataDescriptor d"
  using request_okD [OF assms]
  by (auto simp: sd_isAccessor_def sd_isData_def spec_of_request_def pr_isAccessorDescriptor_def
      pr_isDataDescriptor_def)

lemma keeps_part:
  "accessor_part p \<Longrightarrow> (\<exists>f. p = Some f \<and> f \<noteq> v) \<longleftrightarrow> \<not> keeps p v"
  by (auto simp: keeps_def accessor_part_def split: option.splits jsval.splits)

lemma dflt_None_Some: "(case s of Some f' \<Rightarrow> f' | None \<Rightarrow> VUndefined) = dflt VUndefined s"
  by (simp add: dflt_def)

text \<open>The rejections of the code are the incompatibilities of the standard.\<close>

lemma rejections:
  assumes ok: "request_ok d" and n: "\<not> desc_isNativeAccessorProperty cur"
    and gs: "desc_isDataProperty cur = (\<not> is_gs v)"
  shows "(reject_attributes nh cur d \<or> reject_kind nh cur d v v) \<longleftrightarrow>
     \<not> compatible (prop_of nh cur v) (spec_of_request d)"
proof (cases "desc_isDataProperty cur")
  case True
  show ?thesis
    using True n request_okD [OF ok] request_kinds [OF ok]
    by (auto simp: prop_of_def reject_attributes_def reject_kind_def spec_of_request_def keeps_def
        pr_isGenericDescriptor_def pr_isDataDescriptor_def pr_isAccessorDescriptor_def)
next
  case False
  then obtain g s where v: "v = VGetterSetter g s" using gs by (cases v) auto
  have acc: "reject_accessor g s d \<longleftrightarrow>
      \<not> (keeps (pr_getter d) (dflt VUndefined g) \<and> keeps (pr_setter d) (dflt VUndefined s))"
    using keeps_part [OF request_okD(3) [OF ok]] keeps_part [OF request_okD(4) [OF ok]]
    by (auto simp: reject_accessor_def dflt_None_Some)
  have keep: "keeps (pr_getter d) (dflt VUndefined g) \<and> keeps (pr_setter d) (dflt VUndefined s)"
    if "pr_isDataProperty d" using request_okD(1) [OF ok that] by (simp add: keeps_def)
  show ?thesis
    using False n v acc keep request_okD [OF ok] request_kinds [OF ok]
    by (auto simp: prop_of_def reject_attributes_def reject_kind_def spec_of_request_def
        pr_isGenericDescriptor_def pr_isDataDescriptor_def pr_isAccessorDescriptor_def)
qed

text \<open>The merged descriptor describes the property the standard asks for.\<close>

lemma attributes_complete:
  assumes ok: "request_ok d" and b: "pr_isEnumerablePresent b" "pr_isConfigurablePresent b"
  shows "pr_isEnumerable (merge_request b d) = dflt (pr_isEnumerable b) (sd_enumerable (spec_of_request d))"
    "pr_isConfigurable (merge_request b d) = dflt (pr_isConfigurable b) (sd_configurable (spec_of_request d))"
    "pr_isEnumerablePresent (merge_request b d)" "pr_isConfigurablePresent (merge_request b d)"
proof -
  have p: "pr_isEnumerable (x\<lparr>pr_payload := y\<rparr>) = pr_isEnumerable x"
    "pr_isConfigurable (x\<lparr>pr_payload := y\<rparr>) = pr_isConfigurable x"
    "pr_isEnumerablePresent (x\<lparr>pr_payload := y\<rparr>) = pr_isEnumerablePresent x"
    "pr_isConfigurablePresent (x\<lparr>pr_payload := y\<rparr>) = pr_isConfigurablePresent x" for x y
    by (simp_all add: request_defs)
  show "pr_isEnumerable (merge_request b d) = dflt (pr_isEnumerable b) (sd_enumerable (spec_of_request d))"
    "pr_isConfigurable (merge_request b d) = dflt (pr_isConfigurable b) (sd_configurable (spec_of_request d))"
    "pr_isEnumerablePresent (merge_request b d)" "pr_isConfigurablePresent (merge_request b d)"
    using b by (simp_all add: merge_request_def Let_def spec_of_request_def desc_simps p)
qed

lemma merge_data:
  assumes ok: "request_ok d" and b: "pr_isDataProperty b" "pr_isValuePresent b"
    and a: "\<not> pr_isAccessorDescriptor d"
  shows "pr_isDataProperty (merge_request b d)" "pr_isValuePresent (merge_request b d)"
    "pr_value (merge_request b d) = dflt (pr_value b) (sd_value (spec_of_request d))"
    "pr_isWritable (merge_request b d) = dflt (pr_isWritable b) (sd_writable (spec_of_request d))"
    "pr_isWritablePresent (merge_request b d) = (pr_isWritablePresent b \<or> pr_isWritablePresent d)"
proof -
  have "pr_isDataDescriptor b" using b by (simp add: pr_isDataDescriptor_def)
  with b a show "pr_isDataProperty (merge_request b d)" "pr_isValuePresent (merge_request b d)"
    "pr_value (merge_request b d) = dflt (pr_value b) (sd_value (spec_of_request d))"
    "pr_isWritable (merge_request b d) = dflt (pr_isWritable b) (sd_writable (spec_of_request d))"
    "pr_isWritablePresent (merge_request b d) = (pr_isWritablePresent b \<or> pr_isWritablePresent d)"
    by (simp_all add: merge_request_def Let_def spec_of_request_def desc_simps pr_isAccessorDescriptor_def)
qed

lemma merge_accessor:
  assumes ok: "request_ok d" and b: "\<not> pr_isDataProperty b" "\<not> pr_isDataDescriptor b"
    and a: "\<not> pr_isDataDescriptor d"
  shows "\<not> pr_isDataProperty (merge_request b d)" "\<not> pr_isDataDescriptor (merge_request b d)"
    "pr_getter (merge_request b d) = (case sd_get (spec_of_request d) of None \<Rightarrow> pr_getter b | Some f \<Rightarrow> Some f)"
    "pr_setter (merge_request b d) = (case sd_set (spec_of_request d) of None \<Rightarrow> pr_setter b | Some f \<Rightarrow> Some f)"
proof -
  have p: "pr_isDataDescriptor (x\<lparr>pr_payload := y\<rparr>) = pr_isDataDescriptor x"
    "pr_isDataDescriptor (setConfigurable c x) = pr_isDataDescriptor x"
    "pr_isDataDescriptor (setEnumerable c x) = pr_isDataDescriptor x" for x y c
    by (simp_all add: pr_isDataDescriptor_def pr_isValuePresent_def pr_isWritablePresent_def desc_simps)
      (simp_all add: request_defs setConfigurable_def setEnumerable_def bit_simps)
  have q: "\<not> pr_isDataProperty (x\<lparr>pr_payload := GetterSetterPayload g s\<rparr>)"
    "pr_getter (x\<lparr>pr_payload := GetterSetterPayload g s\<rparr>) = g"
    "pr_setter (x\<lparr>pr_payload := GetterSetterPayload g s\<rparr>) = s" for x g s
    by (simp_all add: request_defs)
  have n: "pr_getter d = None \<and> pr_setter d = None" if "\<not> pr_isAccessorDescriptor d"
    using that request_okD(1) [OF ok] by (simp add: pr_isAccessorDescriptor_def)
  show "\<not> pr_isDataProperty (merge_request b d)" "\<not> pr_isDataDescriptor (merge_request b d)"
    "pr_getter (merge_request b d) = (case sd_get (spec_of_request d) of None \<Rightarrow> pr_getter b | Some f \<Rightarrow> Some f)"
    "pr_setter (merge_request b d) = (case sd_set (spec_of_request d) of None \<Rightarrow> pr_setter b | Some f \<Rightarrow> Some f)"
    using b n by (auto simp: merge_request_def Let_def spec_of_request_def desc_simps p q split: option.splits)
qed

text \<open>The request the merge starts from, and what it describes.\<close>

definition base_request :: "nheap \<Rightarrow> pdesc \<Rightarrow> prop_request \<Rightarrow> prop_request \<Rightarrow> prop_request" where
  "base_request nh cur d old = (if kind_changes cur d then changed_kind_request nh cur d else old)"

lemma old_request_exists:
  "desc_isDataProperty cur = (\<not> is_gs v) \<Longrightarrow> \<exists>old. fromObjectStructurePropertyDescriptor nh cur v = Some old"
  by (cases v) (auto simp: fromObjectStructurePropertyDescriptor_def)

lemma old_request:
  assumes "fromObjectStructurePropertyDescriptor nh cur v = Some old"
  shows "pr_isDataProperty old = desc_isDataProperty cur" "pr_isDataDescriptor old = desc_isDataProperty cur"
    "pr_isValuePresent old = desc_isDataProperty cur"
    "pr_isEnumerablePresent old" "pr_isConfigurablePresent old"
    "pr_isEnumerable old = desc_isEnumerable nh cur" "pr_isConfigurable old = desc_isConfigurable nh cur"
    "desc_isDataProperty cur \<Longrightarrow> pr_value old = v \<and> pr_isWritable old = desc_isWritable nh cur \<and> pr_isWritablePresent old"
    "\<not> desc_isDataProperty cur \<Longrightarrow> v = VGetterSetter (pr_getter old) (pr_setter old)"
  using assms
  by (auto simp: fromObjectStructurePropertyDescriptor_def desc_simps pr_isDataDescriptor_def
      split: if_splits jsval.splits)

lemma changed_request:
  "pr_isEnumerablePresent (changed_kind_request nh cur d)"
  "pr_isConfigurablePresent (changed_kind_request nh cur d)"
  "pr_isEnumerable (changed_kind_request nh cur d) = desc_isEnumerable nh cur"
  "pr_isConfigurable (changed_kind_request nh cur d) = desc_isConfigurable nh cur"
  "pr_isDataProperty (changed_kind_request nh cur d) = (\<not> desc_isDataProperty cur)"
  "pr_isDataDescriptor (changed_kind_request nh cur d) = (\<not> desc_isDataProperty cur)"
  "\<not> desc_isDataProperty cur \<Longrightarrow> pr_isValuePresent (changed_kind_request nh cur d) \<and>
     \<not> pr_isWritable (changed_kind_request nh cur d) \<and>
     pr_value (changed_kind_request nh cur d) = (if pr_isValuePresent d then pr_value d else VUndefined)"
  "desc_isDataProperty cur \<Longrightarrow> pr_getter (changed_kind_request nh cur d) = pr_getter d \<and>
     pr_setter (changed_kind_request nh cur d) = pr_setter d"
  by (simp_all add: changed_kind_request_def Let_def desc_simps pr_isDataDescriptor_def bit_simps)

lemma base_reads:
  assumes old: "fromObjectStructurePropertyDescriptor nh cur v = Some old"
  shows "pr_isEnumerablePresent (base_request nh cur d old)" "pr_isConfigurablePresent (base_request nh cur d old)"
    "pr_isEnumerable (base_request nh cur d old) = desc_isEnumerable nh cur"
    "pr_isConfigurable (base_request nh cur d old) = desc_isConfigurable nh cur"
  using old_request [OF old] changed_request [where nh = nh and cur = cur and d = d] by (simp_all add: base_request_def)

lemma merged_prop:
  assumes ok: "request_ok d" and n: "\<not> desc_isNativeAccessorProperty cur"
    and gs: "desc_isDataProperty cur = (\<not> is_gs v)"
    and old: "fromObjectStructurePropertyDescriptor nh cur v = Some old"
  defines "nd \<equiv> merge_request (base_request nh cur d old) d"
  shows "prop_of_request nd = apply_desc (prop_of nh cur v) (spec_of_request d)"
    and "pr_isDataDescriptor nd = pr_isDataProperty nd"
    and "\<not> kind_changes cur d \<Longrightarrow> pr_isDataProperty nd = desc_isDataProperty cur"
    and "\<not> kind_changes cur d \<Longrightarrow> pr_isDataProperty nd \<Longrightarrow> pr_isWritablePresent nd"
    and "pr_isDataProperty nd \<Longrightarrow> \<not> is_gs (pr_value nd)"
    and "\<not> kind_changes cur d \<Longrightarrow> pr_isDataProperty nd \<Longrightarrow> \<not> pr_isValuePresent d \<Longrightarrow> pr_value nd = v"
proof -
  let ?b = "base_request nh cur d old"
  note D = request_okD [OF ok] and K = request_kinds [OF ok] and O = old_request [OF old]
    and C = changed_request [where nh = nh and cur = cur and d = d] and B = base_reads [OF old, of d]
  note at = attributes_complete [OF ok B(1,2), unfolded B(3,4), folded nd_def]
  have "prop_of_request nd = apply_desc (prop_of nh cur v) (spec_of_request d) \<and>
    pr_isDataDescriptor nd = pr_isDataProperty nd \<and>
    (\<not> kind_changes cur d \<longrightarrow> pr_isDataProperty nd = desc_isDataProperty cur) \<and>
    (\<not> kind_changes cur d \<longrightarrow> pr_isDataProperty nd \<longrightarrow> pr_isWritablePresent nd) \<and>
    (pr_isDataProperty nd \<longrightarrow> \<not> is_gs (pr_value nd)) \<and>
    (\<not> kind_changes cur d \<longrightarrow> pr_isDataProperty nd \<longrightarrow> \<not> pr_isValuePresent d \<longrightarrow> pr_value nd = v)"
  proof (cases "pr_isAccessorDescriptor d \<or> \<not> desc_isDataProperty cur \<and> \<not> pr_isDataDescriptor d")
    case True
    then have a: "\<not> pr_isDataDescriptor d" using K(3) by blast
    have b: "\<not> pr_isDataProperty ?b" "\<not> pr_isDataDescriptor ?b"
      using True a C O by (auto simp: base_request_def kind_changes_def pr_isGenericDescriptor_def)
    note M = merge_accessor [OF ok b a, folded nd_def]
    have v: "v = VGetterSetter (pr_getter ?b) (pr_setter ?b)" if "\<not> desc_isDataProperty cur"
      using that a O(9) by (simp add: base_request_def kind_changes_def)
    have g: "pr_getter ?b = pr_getter d" "pr_setter ?b = pr_setter d" if "desc_isDataProperty cur"
      using that True a C(8) by (auto simp: base_request_def kind_changes_def pr_isGenericDescriptor_def)
    have "sd_isAccessor (spec_of_request d)" if "desc_isDataProperty cur" using that True K(1) by simp
    then have "prop_of_request nd = apply_desc (prop_of nh cur v) (spec_of_request d)"
      using M at v g n K(2) a
      by (cases "desc_isDataProperty cur")
        (auto simp: prop_of_request_def prop_of_def spec_of_request_def split: option.splits)
    moreover have "kind_changes cur d \<or> \<not> desc_isDataProperty cur"
      using True a by (auto simp: kind_changes_def pr_isGenericDescriptor_def)
    ultimately show ?thesis using M by auto
  next
    case False
    then have a: "\<not> pr_isAccessorDescriptor d" by blast
    then have dp: "pr_isDataProperty d" by (simp add: pr_isAccessorDescriptor_def)
    have b: "pr_isDataProperty ?b" "pr_isValuePresent ?b"
      using False C O by (auto simp: base_request_def kind_changes_def pr_isGenericDescriptor_def)
    note M = merge_data [OF ok b a, folded nd_def]
    have v: "pr_value ?b = v \<and> pr_isWritable ?b = desc_isWritable nh cur \<and> pr_isWritablePresent ?b \<and> \<not> kind_changes cur d"
      if "desc_isDataProperty cur"
      using that a O(8) False by (auto simp: base_request_def kind_changes_def pr_isGenericDescriptor_def)
    have w: "pr_value ?b = dflt VUndefined (sd_value (spec_of_request d)) \<and> \<not> pr_isWritable ?b \<and> kind_changes cur d"
      if "\<not> desc_isDataProperty cur"
      using that False C(7) dp by (auto simp: base_request_def kind_changes_def pr_isGenericDescriptor_def spec_of_request_def)
    have acc: "\<not> sd_isAccessor (spec_of_request d)" using a K(1) by simp
    have sd: "sd_isData (spec_of_request d)" if "\<not> desc_isDataProperty cur" using that False K(2) by simp
    have vv: "\<exists>g s. v = VGetterSetter g s" if "\<not> desc_isDataProperty cur" using that gs by (cases v) auto
    have "prop_of_request nd = apply_desc (prop_of nh cur v) (spec_of_request d)"
    proof (cases "desc_isDataProperty cur")
      case True
      with M at v n acc show ?thesis by (simp add: prop_of_request_def prop_of_def)
    next
      case nodata: False
      then obtain g s where "v = VGetterSetter g s" using vv by blast
      with nodata M at w n sd show ?thesis
        by (auto simp: prop_of_request_def prop_of_def dflt_def split: option.splits)
    qed
    moreover have "\<not> is_gs (pr_value nd)"
      using M(3) v w gs D(1) [OF dp] by (cases "desc_isDataProperty cur") (auto simp: dflt_def spec_of_request_def split: option.splits if_splits)
    moreover have "pr_value nd = v" if "\<not> kind_changes cur d" "\<not> pr_isValuePresent d"
      using that M(3) v w by (cases "desc_isDataProperty cur") (auto simp: spec_of_request_def)
    ultimately show ?thesis using M v w by (auto simp: pr_isDataDescriptor_def)
  qed
  then show "prop_of_request nd = apply_desc (prop_of nh cur v) (spec_of_request d)"
    "pr_isDataDescriptor nd = pr_isDataProperty nd"
    "\<not> kind_changes cur d \<Longrightarrow> pr_isDataProperty nd = desc_isDataProperty cur"
    "\<not> kind_changes cur d \<Longrightarrow> pr_isDataProperty nd \<Longrightarrow> pr_isWritablePresent nd"
    "pr_isDataProperty nd \<Longrightarrow> \<not> is_gs (pr_value nd)"
    "\<not> kind_changes cur d \<Longrightarrow> pr_isDataProperty nd \<Longrightarrow> \<not> pr_isValuePresent d \<Longrightarrow> pr_value nd = v"
    by blast+
qed

end
