(* ===== verification/Object_Invariant.thy ===== *)
theory Object_Invariant
  imports Define_Own_Property
begin

text \<open>
  The invariant of the object heap and its preservation: every object has one slot per property
  of its structure, a slot holds a getter/setter pair exactly when the property is an accessor
  (the casts of \<^verbatim>\<open>Object.cpp\<close> rely on it), objects share a structure only when it is pinned, and
  the structure of an object that is not extensible is not in transition mode (the inline caches
  rely on it).
\<close>

section \<open>Invariant\<close>

definition slots_ok :: "(property_key \<times> pdesc) list \<Rightarrow> jsval list \<Rightarrow> bool" where
  "slots_ok qs vs \<longleftrightarrow> length vs = length qs \<and>
     (\<forall>i < length qs. desc_isDataProperty (snd (qs ! i)) = (\<not> is_gs (vs ! i)))"

definition obj_ok :: "senv \<Rightarrow> structure_heap \<Rightarrow> js_object \<Rightarrow> bool" where
  "obj_ok e hp x \<longleftrightarrow>
     (\<exists>qs. abs_items e hp (m_structure x) = Some qs \<and> slots_ok qs (m_values x)) \<and>
     (m_isExtensible x \<or> \<not> in_transition hp (m_structure x))"

definition state_ok :: "oenv \<Rightarrow> obj_state \<Rightarrow> bool" where
  "state_ok k st \<longleftrightarrow> heap_ok (k_env k) (os_structs st) \<and>
     (\<forall>a x. os_objs st a = Some x \<longrightarrow> obj_ok (k_env k) (os_structs st) x) \<and>
     (\<forall>a b x y. os_objs st a = Some x \<longrightarrow> os_objs st b = Some y \<longrightarrow> a \<noteq> b \<longrightarrow>
        m_structure x = m_structure y \<longrightarrow> pinned (os_structs st) (m_structure x))"

text \<open>
  What a search for a name by hash relies on. Only structures with a name map hash, and only a
  property of the object with the key that is looked up matters: it must be stored in the form of
  the name that is looked up, both interned or neither. \<^verbatim>\<open>ObjectStructurePropertyName(state, value)\<close>
  leaves only long texts that begin with a digit or a dot as they are and interns all others, so
  that a key can have both forms only if such a text has been interned elsewhere.
\<close>

definition same_form :: "oenv \<Rightarrow> obj_state \<Rightarrow> nat \<Rightarrow> pname \<Rightarrow> bool" where
  "same_form k st a n \<longleftrightarrow>
     (\<forall>x f v m ps i. os_objs st a = Some x \<longrightarrow> h_structs (os_structs st) (m_structure x) = Some (WithMap f v m) \<longrightarrow>
        properties (os_structs st) (m_structure x) = Some ps \<longrightarrow> i \<in> set ps \<longrightarrow>
        item_key (k_env k) i = key_of (e_heap (k_env k)) n \<longrightarrow> hasAtomicString (m_propertyName i) = hasAtomicString n)"

lemma same_form_short:
  assumes "hasAtomicString n" "key_of (e_heap (k_env k)) n = KString cs" "\<not> long_number cs"
    and plain: "\<And>x ps i cs'. os_objs st a = Some x \<Longrightarrow> properties (os_structs st) (m_structure x) = Some ps \<Longrightarrow> i \<in> set ps \<Longrightarrow>
      \<not> hasAtomicString (m_propertyName i) \<Longrightarrow> item_key (k_env k) i = KString cs' \<Longrightarrow> long_number cs'"
  shows "same_form k st a n"
  unfolding same_form_def
proof (intro allI impI)
  fix x f v m ps i
  assume "os_objs st a = Some x" "properties (os_structs st) (m_structure x) = Some ps" "i \<in> set ps"
    "item_key (k_env k) i = key_of (e_heap (k_env k)) n"
  with assms show "hasAtomicString (m_propertyName i) = hasAtomicString n" by metis
qed

text \<open>The properties of an object as the standard sees them.\<close>

definition obj_lookup :: "oenv \<Rightarrow> obj_state \<Rightarrow> nat \<Rightarrow> property_key \<Rightarrow> js_prop option" where
  "obj_lookup k st a key =
     (case os_objs st a of None \<Rightarrow> None | Some x \<Rightarrow>
      case abs_items (k_env k) (os_structs st) (m_structure x) of None \<Rightarrow> None | Some qs \<Rightarrow>
      map_option (\<lambda>i. prop_of (k_native k) (snd (qs ! i)) (m_values x ! i)) (spec_find qs key))"

definition items_lookup :: "nheap \<Rightarrow> (property_key \<times> pdesc) list \<Rightarrow> jsval list \<Rightarrow> property_key \<Rightarrow> js_prop option" where
  "items_lookup nh qs vs key = map_option (\<lambda>i. prop_of nh (snd (qs ! i)) (vs ! i)) (spec_find qs key)"

lemma obj_lookup_items:
  "os_objs st a = Some x \<Longrightarrow> abs_items (k_env k) (os_structs st) (m_structure x) = Some qs \<Longrightarrow>
   obj_lookup k st a key = items_lookup (k_native k) qs (m_values x) key"
  by (simp add: obj_lookup_def items_lookup_def)

lemma state_okD:
  assumes "state_ok k st"
  shows "heap_ok (k_env k) (os_structs st)"
    and "os_objs st a = Some x \<Longrightarrow> obj_ok (k_env k) (os_structs st) x"
    and "os_objs st a = Some x \<Longrightarrow> os_objs st b = Some y \<Longrightarrow> a \<noteq> b \<Longrightarrow>
       m_structure x = m_structure y \<Longrightarrow> pinned (os_structs st) (m_structure x)"
  using assms by (auto simp: state_ok_def)

lemma obj_okE:
  assumes "obj_ok e hp x"
  obtains qs where "abs_items e hp (m_structure x) = Some qs" "slots_ok qs (m_values x)"
  using assms by (auto simp: obj_ok_def)

section \<open>Searching lists of keys\<close>

lemma spec_find_Some: "spec_find qs key = Some i \<Longrightarrow> i < length qs \<and> fst (qs ! i) = key"
  by (auto simp: spec_find_def find_index_Some_iff split: prod.splits)

lemma spec_find_None: "spec_find qs key = None \<longleftrightarrow> (\<forall>x \<in> set qs. fst x \<noteq> key)"
  by (auto simp: spec_find_def find_index_None_iff split_beta)

lemma spec_find_append:
  "spec_find (qs @ [(key, d)]) key' =
     (case spec_find qs key' of Some i \<Rightarrow> Some i | None \<Rightarrow> if key = key' then Some (length qs) else None)"
  by (simp add: spec_find_def find_index_append find_index_Cons split: option.splits)

lemma find_index_upd:
  assumes "\<And>x. P x = Q (f x)"
  shows "find_index P xs = find_index Q (map f xs)"
  unfolding find_index_map by (rule find_index_cong) (rule assms)

lemma spec_find_update:
  assumes "i < length qs"
  shows "spec_find (qs[i := (fst (qs ! i), d)]) key = spec_find qs key"
proof -
  have eq: "spec_find rs key = find_index (\<lambda>k'. k' = key) (map fst rs)" for rs :: "(property_key \<times> pdesc) list"
    unfolding spec_find_def by (rule find_index_upd) auto
  have "map fst (qs[i := (fst (qs ! i), d)]) = map fst qs"
    using assms by (simp add: map_update) (metis list_update_id nth_map)
  then show ?thesis by (simp add: eq)
qed

lemma items_lookup_append:
  assumes "slots_ok qs vs" "spec_find qs key = None"
  shows "items_lookup nh (qs @ [(key, d)]) (vs @ [v]) key = Some (prop_of nh d v)"
    "key' \<noteq> key \<Longrightarrow> items_lookup nh (qs @ [(key, d)]) (vs @ [v]) key' = items_lookup nh qs vs key'"
proof -
  have len: "length vs = length qs" using assms(1) by (simp add: slots_ok_def)
  then show "items_lookup nh (qs @ [(key, d)]) (vs @ [v]) key = Some (prop_of nh d v)"
    using assms(2) by (simp add: items_lookup_def spec_find_append nth_append)
  assume ne: "key' \<noteq> key"
  show "items_lookup nh (qs @ [(key, d)]) (vs @ [v]) key' = items_lookup nh qs vs key'"
  proof (cases "spec_find qs key'")
    case None
    with ne show ?thesis by (simp add: items_lookup_def spec_find_append)
  next
    case (Some i)
    then have "i < length qs" using spec_find_Some by blast
    with Some len show ?thesis by (simp add: items_lookup_def spec_find_append nth_append)
  qed
qed

lemma items_lookup_update:
  assumes "slots_ok qs vs" "spec_find qs key = Some i"
  shows "items_lookup nh (qs[i := (fst (qs ! i), d)]) (vs[i := v]) key = Some (prop_of nh d v)"
    "key' \<noteq> key \<Longrightarrow> items_lookup nh (qs[i := (fst (qs ! i), d)]) (vs[i := v]) key' = items_lookup nh qs vs key'"
proof -
  have i: "i < length qs" "i < length vs" using assms spec_find_Some by (auto simp: slots_ok_def)
  then show "items_lookup nh (qs[i := (fst (qs ! i), d)]) (vs[i := v]) key = Some (prop_of nh d v)"
    using assms(2) by (simp add: items_lookup_def spec_find_update)
  assume ne: "key' \<noteq> key"
  have "j \<noteq> i" if "spec_find qs key' = Some j" for j
    using that ne spec_find_Some [OF that] spec_find_Some [OF assms(2)] by auto
  with i show "items_lookup nh (qs[i := (fst (qs ! i), d)]) (vs[i := v]) key' = items_lookup nh qs vs key'"
    by (cases "spec_find qs key'") (auto simp: items_lookup_def spec_find_update)
qed

lemma slots_ok_append:
  "slots_ok qs vs \<Longrightarrow> desc_isDataProperty d = (\<not> is_gs v) \<Longrightarrow> slots_ok (qs @ [(key, d)]) (vs @ [v])"
  by (auto simp: slots_ok_def nth_append less_Suc_eq)

lemma slots_ok_update:
  "slots_ok qs vs \<Longrightarrow> desc_isDataProperty d = (\<not> is_gs v) \<Longrightarrow> slots_ok (qs[i := (key, d)]) (vs[i := v])"
  by (cases "i < length qs") (auto simp: slots_ok_def nth_list_update)

lemma slots_ok_remove: "slots_ok qs vs \<Longrightarrow> i < length qs \<Longrightarrow> slots_ok (remove_nth i qs) (remove_nth i vs)"
  by (auto simp: slots_ok_def remove_nth_nth)

section \<open>Changing one object\<close>

text \<open>
  An object gets a new structure with matching slots. \<open>op_ok\<close> is what the operations of
  \<^verbatim>\<open>ObjectStructure\<close> guarantee.
\<close>

lemma set_structure_ok:
  assumes ok: "state_ok k st" and x: "os_objs st a = Some x"
    and op: "op_ok (k_env k) (os_structs st) (m_structure x) (Some r) qs'"
    and slots: "slots_ok qs' (m_values x')"
    and ext: "m_isExtensible x' \<or> \<not> in_transition (fst r) (snd r)"
  defines "st' \<equiv> set_structure st a x' r"
  shows "state_ok k st'" "os_objs st' a = Some (x'\<lparr>m_structure := snd r\<rparr>)"
    "abs_items (k_env k) (os_structs st') (snd r) = Some qs'"
    "b \<noteq> a \<Longrightarrow> os_objs st' b = os_objs st b" "b \<noteq> a \<Longrightarrow> obj_lookup k st' b key = obj_lookup k st b key"
proof -
  let ?e = "k_env k" and ?hp = "os_structs st" and ?s = "m_structure x"
  obtain hp' s' where r: "r = (hp', s')" by force
  from op r have hp': "heap_ok ?e hp'" "abs_items ?e hp' s' = Some qs'"
    and fr: "frame (if pinned ?hp ?s then {} else {?s}) ?hp hp'"
    and new: "h_structs ?hp s' = None \<or> in_transition hp' s'"
    by (auto simp: op_ok_def)
  have st': "os_structs st' = hp'" "os_objs st' = (os_objs st)(a \<mapsto> x'\<lparr>m_structure := s'\<rparr>)"
    by (simp_all add: st'_def set_structure_def set_obj_def r)
  have other: "abs_items ?e hp' (m_structure y) = abs_items ?e ?hp (m_structure y) \<and>
      (pinned ?hp (m_structure y) \<longrightarrow> pinned hp' (m_structure y)) \<and>
      in_transition hp' (m_structure y) = in_transition ?hp (m_structure y) \<and>
      (m_structure y = s' \<longrightarrow> pinned hp' s')"
    if y: "os_objs st b = Some y" "b \<noteq> a" for b y
  proof -
    obtain qs where q: "abs_items ?e ?hp (m_structure y) = Some qs"
      using obj_okE [OF state_okD(2) [OF ok y(1)]] .
    have out: "m_structure y \<notin> (if pinned ?hp ?s then {} else {?s})"
      using state_okD(3) [OF ok y(1) x y(2)] by auto
    have alive: "h_structs ?hp (m_structure y) \<noteq> None"
      using q by (auto simp: abs_items_def properties_def bind_eq_Some_conv)
    with fr out have "same_struct ?hp hp' (m_structure y)" by (simp add: frame_def)
    then have "in_transition hp' (m_structure y) = in_transition ?hp (m_structure y)"
      using alive by (cases "h_structs ?hp (m_structure y)") (auto simp: in_transition_def same_struct_def)
    moreover have "m_structure y = s' \<longrightarrow> pinned hp' s'"
      using new alive by (auto simp: in_transition_def pinned_def)
    ultimately show ?thesis using frame_items [OF fr out] q by auto
  qed
  have obj: "obj_ok ?e hp' (x'\<lparr>m_structure := s'\<rparr>)"
    using hp' slots ext r by (auto simp: obj_ok_def)
  have objs: "obj_ok ?e hp' y" if "os_objs st b = Some y" "b \<noteq> a" for b y
    using state_okD(2) [OF ok that(1)] other [OF that] by (auto simp: obj_ok_def)
  show "state_ok k st'"
    unfolding state_ok_def st'
  proof (intro conjI allI impI)
    show "heap_ok ?e hp'" by fact
    show "obj_ok ?e hp' y" if "((os_objs st)(a \<mapsto> x'\<lparr>m_structure := s'\<rparr>)) b = Some y" for b y
      using that obj objs by (auto split: if_splits)
    show "pinned hp' (m_structure y)"
      if "((os_objs st)(a \<mapsto> x'\<lparr>m_structure := s'\<rparr>)) b = Some y"
        "((os_objs st)(a \<mapsto> x'\<lparr>m_structure := s'\<rparr>)) c = Some z" "b \<noteq> c" "m_structure y = m_structure z"
      for b c y z
      using that other state_okD(3) [OF ok, of b y c z] by (auto split: if_splits)
  qed
  show "os_objs st' a = Some (x'\<lparr>m_structure := snd r\<rparr>)"
    "abs_items ?e (os_structs st') (snd r) = Some qs'" "b \<noteq> a \<Longrightarrow> os_objs st' b = os_objs st b"
    using hp' r by (simp_all add: st')
  show "b \<noteq> a \<Longrightarrow> obj_lookup k st' b key = obj_lookup k st b key"
    using other [of b] by (cases "os_objs st b") (auto simp: obj_lookup_def st')
qed

text \<open>An object keeps its structure and gets new slots.\<close>

lemma set_values_ok:
  assumes ok: "state_ok k st" and x: "os_objs st a = Some x"
    and qs: "abs_items (k_env k) (os_structs st) (m_structure x) = Some qs" and slots: "slots_ok qs vs"
  defines "st' \<equiv> set_obj st a (x\<lparr>m_values := vs\<rparr>)"
  shows "state_ok k st'" "os_objs st' a = Some (x\<lparr>m_values := vs\<rparr>)" "os_structs st' = os_structs st"
    "b \<noteq> a \<Longrightarrow> os_objs st' b = os_objs st b" "b \<noteq> a \<Longrightarrow> obj_lookup k st' b key = obj_lookup k st b key"
proof -
  have st': "os_structs st' = os_structs st" "os_objs st' = (os_objs st)(a \<mapsto> x\<lparr>m_values := vs\<rparr>)"
    by (simp_all add: st'_def set_obj_def)
  have obj: "obj_ok (k_env k) (os_structs st) (x\<lparr>m_values := vs\<rparr>)"
    using state_okD(2) [OF ok x] qs slots by (auto simp: obj_ok_def)
  show "state_ok k st'"
    unfolding state_ok_def st'
  proof (intro conjI allI impI)
    show "heap_ok (k_env k) (os_structs st)" using state_okD(1) [OF ok] .
    show "obj_ok (k_env k) (os_structs st) y" if "((os_objs st)(a \<mapsto> x\<lparr>m_values := vs\<rparr>)) b = Some y" for b y
      using that obj state_okD(2) [OF ok] by (auto split: if_splits)
    show "pinned (os_structs st) (m_structure y)"
      if "((os_objs st)(a \<mapsto> x\<lparr>m_values := vs\<rparr>)) b = Some y"
        "((os_objs st)(a \<mapsto> x\<lparr>m_values := vs\<rparr>)) c = Some z" "b \<noteq> c" "m_structure y = m_structure z" for b c y z
      using that state_okD(3) [OF ok] x by (auto split: if_splits)
  qed
  show "os_objs st' a = Some (x\<lparr>m_values := vs\<rparr>)" "os_structs st' = os_structs st"
    "b \<noteq> a \<Longrightarrow> os_objs st' b = os_objs st b" "b \<noteq> a \<Longrightarrow> obj_lookup k st' b key = obj_lookup k st b key"
    by (cases "os_objs st b"; simp add: st' obj_lookup_def)+
qed

section \<open>Searching an object\<close>

lemma find_own:
  assumes ok: "state_ok k st" and x: "os_objs st a = Some x" and n: "name_ok (e_atoms (k_env k)) n"
    and qs: "abs_items (k_env k) (os_structs st) (m_structure x) = Some qs"
    and form: "spec_find qs (key_of (e_heap (k_env k)) n) = None \<or> same_form k st a n"
  shows "findProperty (k_env k) (os_structs st) (m_structure x) n =
     Some (spec_find qs (key_of (e_heap (k_env k)) n))"
proof -
  let ?e = "k_env k" and ?hp = "os_structs st" and ?s = "m_structure x" and ?key = "key_of (e_heap (k_env k)) n"
  obtain y ps where ps: "properties ?hp ?s = Some ps" and q: "qs = map (\<lambda>x. (item_key ?e x, m_descriptor x)) ps"
    using abs_itemsE [OF qs] by metis
  obtain z where "h_structs ?hp ?s = Some z" "struct_items ?hp z = Some ps"
    using ps by (auto simp: properties_def bind_eq_Some_conv)
  then have items: "items_ok ?e ps"
    using struct_items_ok heap_okD(2) [OF state_okD(1) [OF ok]] by blast
  have "hash_agrees ?e ps n" if map: "h_structs ?hp ?s = Some (WithMap f v m)" for f v m
    unfolding hash_agrees_def
  proof (intro ballI impI)
    fix i assume i: "i \<in> set ps" "item_key ?e i = ?key"
    then have "spec_find qs ?key \<noteq> None" by (auto simp: q spec_find_def find_index_None_iff)
    with form x map ps i have "hasAtomicString (m_propertyName i) = hasAtomicString n" unfolding same_form_def by blast
    then show "e_hash ?e (m_propertyName i) = e_hash ?e n"
      using same_form_hash [OF _ n i(2)] items i(1) by (simp add: items_ok_def)
  qed
  with findProperty_key [OF state_okD(1) [OF ok] n ps] q show ?thesis
    by (simp add: spec_find_def find_index_map)
qed

lemma read_index:
  assumes "abs_items e hp s = Some qs" "i < length qs"
  obtains item where "readProperty hp s i = Some item" "m_descriptor item = snd (qs ! i)"
  using assms by (auto simp: abs_items_def readProperty_def)

lemma not_transition_after:
  "replacePropertyDescriptor e hp s i d = Some r \<Longrightarrow> \<not> in_transition (fst r) (snd r)"
  "removeProperty e hp s i = Some r \<Longrightarrow> \<not> in_transition (fst r) (snd r)"
  by (auto simp: replacePropertyDescriptor_def replace_without_transition_def replace_with_transition_def
      replace_with_map_def removeProperty_def remove_without_transition_def remove_with_transition_def
      remove_with_map_def new_vec_def new_map_def new_struct_def in_transition_def Let_def
      split: option.splits object_structure.splits if_splits prod.splits)

section \<open>Defining a property\<close>

text \<open>What an operation on one property of one object guarantees.\<close>

definition own_change ::
    "oenv \<Rightarrow> obj_state \<Rightarrow> nat \<Rightarrow> property_key \<Rightarrow> obj_state \<Rightarrow> js_prop option \<Rightarrow> bool" where
  "own_change k st a key st' p \<longleftrightarrow> state_ok k st' \<and> obj_lookup k st' a key = p \<and>
     (\<forall>key'. key' \<noteq> key \<longrightarrow> obj_lookup k st' a key' = obj_lookup k st a key') \<and>
     (\<forall>b key'. b \<noteq> a \<longrightarrow> obj_lookup k st' b key' = obj_lookup k st b key')"

lemma own_change_refl: "state_ok k st \<Longrightarrow> own_change k st a key st (obj_lookup k st a key)"
  by (simp add: own_change_def)

lemma add_own_property_ok:
  assumes ok: "state_ok k st" and x: "os_objs st a = Some x" "m_isExtensible x"
    and n: "name_ok (e_atoms (k_env k)) n" and d: "request_ok d"
    and new: "obj_lookup k st a (key_of (e_heap (k_env k)) n) = None"
  shows "\<exists>st'. add_own_property k st a x n d = Some st' \<and>
     own_change k st a (key_of (e_heap (k_env k)) n) st' (Some (create_desc (spec_of_request d)))"
proof -
  let ?e = "k_env k" and ?hp = "os_structs st" and ?d = "toObjectStructurePropertyDescriptor d"
  let ?key = "key_of (e_heap ?e) n"
  obtain qs where qs: "abs_items ?e ?hp (m_structure x) = Some qs" "slots_ok qs (m_values x)"
    using obj_okE [OF state_okD(2) [OF ok x(1)]] .
  have none: "spec_find qs ?key = None"
    using new obj_lookup_items [OF x(1) qs(1)] by (simp add: items_lookup_def)
  have op: "op_ok ?e ?hp (m_structure x) (addProperty ?e ?hp (m_structure x) n ?d) (qs @ [(?key, ?d)])"
    by (rule addProperty_ok [OF state_okD(1) [OF ok] n qs(1) none])
  then obtain r where r: "addProperty ?e ?hp (m_structure x) n ?d = Some r" by (auto simp: op_ok_def)
  let ?x = "x\<lparr>m_values := m_values x @ [slot_of_request d]\<rparr>"
  have gs: "desc_isDataProperty ?d = (\<not> is_gs (slot_of_request d))"
    using request_okD [OF d] by (auto simp: slot_of_request_def desc_simps)
  have slots: "slots_ok (qs @ [(?key, ?d)]) (m_values ?x)" using slots_ok_append [OF qs(2) gs] by simp
  have ext: "m_isExtensible ?x \<or> \<not> in_transition (fst r) (snd r)" using x(2) by simp
  note S = set_structure_ok [OF ok x(1) op [unfolded r] slots ext]
  let ?st = "set_structure st a ?x r"
  have L: "obj_lookup k ?st a key' = items_lookup (k_native k) (qs @ [(?key, ?d)]) (m_values x @ [slot_of_request d]) key'" for key'
    using obj_lookup_items [OF S(2), of k _ key'] S(3) by simp
  have "prop_of (k_native k) ?d (slot_of_request d) = create_desc (spec_of_request d)"
    using request_okD [OF d] request_kinds [OF d]
    by (auto simp: prop_of_def slot_of_request_def create_desc_def desc_simps spec_of_request_def
        pr_isAccessorDescriptor_def)
  then have "own_change k st a ?key ?st (Some (create_desc (spec_of_request d)))"
    using S(1,5) L items_lookup_append [OF qs(2) none] obj_lookup_items [OF x(1) qs(1)]
    by (simp add: own_change_def)
  with r show ?thesis by (simp add: add_own_property_def)
qed

lemma prop_of_stored:
  assumes "pr_isDataProperty nd \<Longrightarrow> v = pr_value nd"
    and "\<not> pr_isDataProperty nd \<Longrightarrow> v = VGetterSetter (pr_getter nd) (pr_setter nd)"
  shows "prop_of nh (toObjectStructurePropertyDescriptor nd) v = prop_of_request nd"
  using assms by (auto simp: prop_of_def prop_of_request_def desc_simps)

text \<open>Without a change of attributes the old structure descriptor already describes the result.\<close>

lemma prop_of_kept:
  assumes n: "\<not> desc_isNativeAccessorProperty cur" and same: "\<not> attributes_change nh cur nd"
    and kind: "pr_isDataProperty nd = desc_isDataProperty cur" "pr_isDataDescriptor nd = pr_isDataProperty nd"
    and p: "pr_isEnumerablePresent nd" "pr_isConfigurablePresent nd" "pr_isDataProperty nd \<Longrightarrow> pr_isWritablePresent nd"
    and v: "pr_isDataProperty nd \<Longrightarrow> v = pr_value nd"
      "\<not> pr_isDataProperty nd \<Longrightarrow> v = VGetterSetter (pr_getter nd) (pr_setter nd)"
  shows "prop_of nh cur v = prop_of_request nd"
  using assms by (auto simp: prop_of_def prop_of_request_def attributes_change_def)

lemma native_or_plain: "desc_isDataProperty d \<Longrightarrow> \<not> desc_isNativeAccessorProperty d \<Longrightarrow> desc_isPlainDataProperty d"
  using and_pow2_cases [of d 6] unfolding desc_unfold desc_mode_def by (auto split: if_splits)

lemma set_slot_ok:
  assumes ok: "state_ok k st" and x: "os_objs st a = Some x"
    and qs: "abs_items (k_env k) (os_structs st) (m_structure x) = Some qs"
    and i: "spec_find qs key = Some i" and gs: "desc_isDataProperty (snd (qs ! i)) = (\<not> is_gs v)"
  shows "\<exists>st'. set_slot st a i v = Some st' \<and>
     own_change k st a key st' (Some (prop_of (k_native k) (snd (qs ! i)) v))"
proof -
  have slots: "slots_ok qs (m_values x)" using obj_okE [OF state_okD(2) [OF ok x]] qs by auto
  have il: "i < length qs" "i < length (m_values x)" using spec_find_Some [OF i] slots by (auto simp: slots_ok_def)
  have self: "qs[i := (fst (qs ! i), snd (qs ! i))] = qs" by simp
  have "slots_ok qs ((m_values x)[i := v])"
    using slots_ok_update [OF slots gs, of i "fst (qs ! i)"] self by simp
  note S = set_values_ok [OF ok x qs this]
  let ?st = "set_obj st a (x\<lparr>m_values := (m_values x)[i := v]\<rparr>)"
  have L: "obj_lookup k ?st a key' = items_lookup (k_native k) qs ((m_values x)[i := v]) key'" for key'
    using obj_lookup_items [OF S(2), of k qs key'] S(3) qs by simp
  have "own_change k st a key ?st (Some (prop_of (k_native k) (snd (qs ! i)) v))"
    using S(1,5) L items_lookup_update [OF slots i, where d = "snd (qs ! i)", unfolded self] obj_lookup_items [OF x qs]
    by (simp add: own_change_def)
  with il x show ?thesis by (simp add: set_slot_def)
qed

lemma replace_slot_ok:
  assumes ok: "state_ok k st" and x: "os_objs st a = Some x"
    and qs: "abs_items (k_env k) (os_structs st) (m_structure x) = Some qs"
    and i: "spec_find qs key = Some i" and gs: "desc_isDataProperty d' = (\<not> is_gs v)"
  shows "\<exists>r st'. replacePropertyDescriptor (k_env k) (os_structs st) (m_structure x) i d' = Some r \<and>
     set_slot (set_structure st a x r) a i v = Some st' \<and>
     own_change k st a key st' (Some (prop_of (k_native k) d' v))"
proof -
  let ?e = "k_env k" and ?hp = "os_structs st" and ?q = "qs[i := (fst (qs ! i), d')]"
  have slots: "slots_ok qs (m_values x)" using obj_okE [OF state_okD(2) [OF ok x]] qs by auto
  have il: "i < length qs" "i < length (m_values x)" using spec_find_Some [OF i] slots by (auto simp: slots_ok_def)
  have op: "op_ok ?e ?hp (m_structure x) (replacePropertyDescriptor ?e ?hp (m_structure x) i d') ?q"
    by (rule replacePropertyDescriptor_ok [OF state_okD(1) [OF ok] qs il(1)])
  then obtain r where r: "replacePropertyDescriptor ?e ?hp (m_structure x) i d' = Some r" by (auto simp: op_ok_def)
  let ?x = "x\<lparr>m_values := (m_values x)[i := v]\<rparr>"
  have s: "slots_ok ?q (m_values ?x)" using slots_ok_update [OF slots gs] by simp
  have ext: "m_isExtensible ?x \<or> \<not> in_transition (fst r) (snd r)" using not_transition_after(1) [OF r] by simp
  note S = set_structure_ok [OF ok x op [unfolded r] s ext]
  have eq: "set_slot (set_structure st a x r) a i v = Some (set_structure st a ?x r)"
    using il by (cases x) (simp add: set_slot_def set_structure_def set_obj_def)
  have L: "obj_lookup k (set_structure st a ?x r) a key' = items_lookup (k_native k) ?q ((m_values x)[i := v]) key'" for key'
    using obj_lookup_items [OF S(2), of k ?q key'] S(3) by simp
  have "own_change k st a key (set_structure st a ?x r) (Some (prop_of (k_native k) d' v))"
    using S(1,5) L items_lookup_update [OF slots i] obj_lookup_items [OF x qs] by (simp add: own_change_def)
  with r eq show ?thesis by blast
qed

lemma redefine_ok:
  assumes ok: "state_ok k st" and x: "os_objs st a = Some x" and d: "request_ok d"
    and qs: "abs_items (k_env k) (os_structs st) (m_structure x) = Some qs" and i: "spec_find qs key = Some i"
    and n: "\<not> desc_isNativeAccessorProperty (snd (qs ! i))"
    and old: "fromObjectStructurePropertyDescriptor (k_native k) (snd (qs ! i)) (m_values x ! i) = Some old"
  defines "nd \<equiv> merge_request (base_request (k_native k) (snd (qs ! i)) d old) d"
  shows "\<exists>st'. store_request k st a x i (snd (qs ! i)) d nd
       (kind_changes (snd (qs ! i)) d \<or> attributes_change (k_native k) (snd (qs ! i)) nd) fresh = Some (st', Inr True) \<and>
     own_change k st a key st'
       (Some (apply_desc (prop_of (k_native k) (snd (qs ! i)) (m_values x ! i)) (spec_of_request d)))"
proof -
  let ?nh = "k_native k" and ?cur = "snd (qs ! i)" and ?v = "m_values x ! i"
  have slots: "slots_ok qs (m_values x)" using obj_okE [OF state_okD(2) [OF ok x]] qs by auto
  have gs: "desc_isDataProperty ?cur = (\<not> is_gs ?v)"
    using slots spec_find_Some [OF i] by (simp add: slots_ok_def)
  note M = merged_prop [OF d n gs old, folded nd_def]
  note A = attributes_complete [OF d base_reads(1,2) [OF old, of d], folded nd_def]
  let ?delete = "kind_changes ?cur d \<or> attributes_change ?nh ?cur nd"
  show ?thesis
  proof (cases ?delete)
    case True
    let ?d' = "toObjectStructurePropertyDescriptor nd"
    define v' where "v' = (if pr_isDataProperty nd then pr_value nd else VGetterSetter (pr_getter nd) (pr_setter nd))"
    have gs': "desc_isDataProperty ?d' = (\<not> is_gs v')" using M(5) by (auto simp: v'_def desc_simps)
    from replace_slot_ok [OF ok x qs i gs'] obtain r st' where
      r: "replacePropertyDescriptor (k_env k) (os_structs st) (m_structure x) i ?d' = Some r"
        "set_slot (set_structure st a x r) a i v' = Some st'"
        "own_change k st a key st' (Some (prop_of ?nh ?d' v'))" by blast
    moreover have "prop_of ?nh ?d' v' = prop_of_request nd" by (rule prop_of_stored) (simp_all add: v'_def)
    ultimately show ?thesis
      using True n M(1,2)
      by (auto simp: store_request_def setOwnDataPropertyUtilForObjectInner_def desc_simps v'_def Let_def
          split: if_splits)
  next
    case False
    then have F: "\<not> kind_changes ?cur d" "\<not> attributes_change ?nh ?cur nd" by auto
    note K = prop_of_kept [OF n F(2) M(3) [OF F(1)] M(2) A(3,4) M(4) [OF F(1)]]
    show ?thesis
    proof (cases "pr_isDataProperty nd")
      case True
      then have plain: "desc_isPlainDataProperty ?cur" using native_or_plain n M(3) [OF F(1)] by simp
      show ?thesis
      proof (cases "pr_isValuePresent d")
        case present: True
        from set_slot_ok [OF ok x qs i, of "pr_value nd"] True M(3) [OF F(1)] M(5)
        obtain st' where "set_slot st a i (pr_value nd) = Some st'"
          "own_change k st a key st' (Some (prop_of ?nh ?cur (pr_value nd)))" by auto
        then show ?thesis
          using F True present plain K [of "pr_value nd"] M(1,2)
          by (simp add: store_request_def setOwnDataPropertyUtilForObjectInner_def)
      next
        case absent: False
        have "obj_lookup k st a key = Some (prop_of ?nh ?cur ?v)"
          using obj_lookup_items [OF x qs] i by (simp add: items_lookup_def)
        moreover have "pr_value nd = ?v" using M(6) [OF F(1) True absent] .
        ultimately show ?thesis
          using F True absent K [of ?v] M(1,2) own_change_refl [OF ok, of a key]
          by (simp add: store_request_def)
      qed
    next
      case acc: False
      let ?g = "VGetterSetter (pr_getter nd) (pr_setter nd)"
      from set_slot_ok [OF ok x qs i, of ?g] acc M(3) [OF F(1)]
      obtain st' where "set_slot st a i ?g = Some st'" "own_change k st a key st' (Some (prop_of ?nh ?cur ?g))"
        by auto
      then show ?thesis using F acc K [of ?g] M(1,2) by (simp add: store_request_def)
    qed
  qed
qed

end
