(* ===== verification/Object_Properties.thy ===== *)
theory Object_Properties
  imports Object_Invariant
begin

text \<open>
  The properties of ordinary objects: \<^verbatim>\<open>[[GetOwnProperty]]\<close>, \<^verbatim>\<open>[[DefineOwnProperty]]\<close>,
  \<^verbatim>\<open>[[Delete]]\<close> and \<^verbatim>\<open>[[PreventExtensions]]\<close> of \<^verbatim>\<open>Object.cpp\<close>.
\<close>

section \<open>A small object heap\<close>

definition small_k :: oenv where
  "small_k = \<lparr>k_env = small_env, k_native_get = (\<lambda>_ _ _ _ v. v), k_native_set = (\<lambda>_ st _ _ _ _. (st, Inr False)),
     k_isCallable = (\<lambda>_. False), k_call = (\<lambda>st _ _ _. (st, Inr VUndefined))\<rparr>"

definition small_object :: js_object where
  "small_object = \<lparr>m_structure = 0, m_values = [], m_prototype = None, m_isExtensible = True,
     m_isInlineCacheable = True, m_isOrdinary = True\<rparr>"

definition small_state :: obj_state where
  "small_state = \<lparr>os_structs = small_heap, os_objs = [0 \<mapsto> small_object, 1 \<mapsto> small_object]\<rparr>"

lemma small_state_ok: "state_ok small_k small_state"
  using small_heap_ok small_items
  by (auto simp: state_ok_def small_k_def small_state_def obj_ok_def slots_ok_def small_object_def
      small_env_def split: if_splits)

lemma small_state_lookup: "obj_lookup small_k small_state 0 key = None"
  using small_items(1) by (simp add: obj_lookup_def small_state_def small_object_def small_k_def spec_find_def)

text \<open>
  Two objects: object 2 is empty and inherits from object 0, which has the one property \<open>a\<close> in a
  structure that searches by hash.
\<close>

definition map_heap :: structure_heap where
  "map_heap = \<lparr>h_structs = [0 \<mapsto> WithTransition (make_flags False False False False) [] (TransitionVector [] 0),
       3 \<mapsto> WithMap (make_flags False False False True) (Some 1) (Some 2)],
     h_vecs = [1 \<mapsto> [\<lparr>m_propertyName = 17, m_descriptor = createDataDescriptor 14\<rparr>]], h_maps = [2 \<mapsto> [(17, 0)]], h_next = 4\<rparr>"

definition map_state :: obj_state where
  "map_state = \<lparr>os_structs = map_heap, os_objs = [2 \<mapsto> small_object\<lparr>m_prototype := Some 0\<rparr>,
     0 \<mapsto> small_object\<lparr>m_structure := 3, m_values := [VNull]\<rparr>]\<rparr>"

lemma map_heap_ok: "heap_ok small_env map_heap"
proof (rule heap_okI)
  have n: "\<not> name_isIndexString (e_heap small_env) 17" "\<not> name_isSymbol (e_heap small_env) 17"
    by (simp_all add: name_isIndexString_def name_isSymbol_def isPlainString_def hasAtomicString_def plainString_def
        small_env_def small_atoms_def str_chars_def isIndexString_def charAt_def)
  show "struct_ok small_env map_heap x" if "h_structs map_heap s = Some x" for s x
    using that small_name(1) n
    by (auto simp: map_heap_def items_ok_def flags_ok_def atomic_flag_ok_def targets_ok_def nmap_ok_def make_flags_def
        split: if_splits)
  show "owners_ok (h_structs map_heap)" by (auto simp: owners_ok_def map_heap_def split: if_splits)
qed (auto simp: map_heap_def split: if_splits)

lemma map_items: "abs_items small_env map_heap 0 = Some []"
  "abs_items small_env map_heap 3 = Some [(KString [0x61], createDataDescriptor 14)]"
  by (simp_all add: abs_items_def properties_def map_heap_def small_name(2))

lemma map_state_ok: "state_ok small_k map_state"
  using map_heap_ok map_items
  by (auto simp: state_ok_def small_k_def map_state_def obj_ok_def slots_ok_def small_object_def
      data_descriptor_reads split: if_splits)

lemma map_state_form: "same_form small_k map_state b 17"
  by (auto simp: same_form_def map_state_def map_heap_def properties_def small_object_def split: if_splits)

lemma map_state_lookup: "obj_lookup small_k map_state 0 (KString [0x61]) = Some (DataProp VNull True True True)"
  "obj_lookup small_k map_state 2 key = None"
  using map_items
  by (simp_all add: obj_lookup_def map_state_def small_object_def small_k_def spec_find_def find_index_def prop_of_def
      data_descriptor_reads)

lemma map_state_object: "os_objs map_state 0 = Some (small_object\<lparr>m_structure := 3, m_values := [VNull]\<rparr>)"
  by (simp add: map_state_def)

lemma small_k_name: "name_ok (e_atoms (k_env small_k)) 17" "key_of (e_heap (k_env small_k)) 17 = KString [0x61]"
  using small_name by (simp_all add: small_k_def)

section \<open>Defining\<close>

text \<open>
  C2. \<^verbatim>\<open>Object::defineOwnPropertyMethod\<close> refines \<^emph>\<open>ValidateAndApplyPropertyDescriptor\<close> of the
  standard. For every object of a good heap, every valid name whose property is not one of the
  native ones (and, on an object that searches by hash, is stored in the form of the name) and
  every valid request: the call neither crashes nor throws, it returns what the
  standard returns, the property becomes what the standard says, every other property of the
  object and every property of every other object stays as it was (also of those that share the
  hidden class), and the heap stays good.
\<close>

theorem defineOwnPropertyMethod_refines_standard:
  assumes ok: "state_ok k st" and x: "os_objs st a = Some x" and n: "name_ok (e_atoms (k_env k)) n"
    and form: "same_form k st a n" and d: "request_ok d"
    and native: "\<forall>p v. obj_lookup k st a (key_of (e_heap (k_env k)) n) \<noteq> Some (NativeProp p v)"
  shows "\<exists>st' b. defineOwnPropertyMethod k st a n d fresh = Some (st', Inr b) \<and>
     (b, obj_lookup k st' a (key_of (e_heap (k_env k)) n)) =
       validate_and_apply (m_isExtensible x) (obj_lookup k st a (key_of (e_heap (k_env k)) n)) (spec_of_request d) \<and>
     own_change k st a (key_of (e_heap (k_env k)) n) st' (obj_lookup k st' a (key_of (e_heap (k_env k)) n))"
proof -
  let ?e = "k_env k" and ?key = "key_of (e_heap (k_env k)) n" and ?nh = "k_native k"
  obtain qs where qs: "abs_items ?e (os_structs st) (m_structure x) = Some qs" "slots_ok qs (m_values x)"
    using obj_okE [OF state_okD(2) [OF ok x]] .
  note F = find_own [OF ok x n qs(1) disjI2 [OF form]] and L = obj_lookup_items [OF x qs(1), of ?key]
  show ?thesis
  proof (cases "spec_find qs ?key")
    case None
    then have none: "obj_lookup k st a ?key = None" using L by (simp add: items_lookup_def)
    show ?thesis
    proof (cases "m_isExtensible x")
      case True
      with add_own_property_ok [OF ok x True n d none] obtain st' where
        "add_own_property k st a x n d = Some st'" "own_change k st a ?key st' (Some (create_desc (spec_of_request d)))"
        by blast
      with F None none True x show ?thesis by (auto simp: defineOwnPropertyMethod_def own_change_def)
    next
      case False
      with F None none x own_change_refl [OF ok, of a ?key] show ?thesis
        by (auto simp: defineOwnPropertyMethod_def)
    qed
  next
    case (Some i)
    let ?cur = "snd (qs ! i)" and ?v = "m_values x ! i"
    have i: "i < length qs" "i < length (m_values x)" "desc_isDataProperty ?cur = (\<not> is_gs ?v)"
      using spec_find_Some [OF Some] qs(2) by (auto simp: slots_ok_def)
    have cur: "obj_lookup k st a ?key = Some (prop_of ?nh ?cur ?v)" using L Some by (simp add: items_lookup_def)
    have nn: "\<not> desc_isNativeAccessorProperty ?cur" using native cur by (auto simp: prop_of_def)
    obtain item where item: "readProperty (os_structs st) (m_structure x) i = Some item" "m_descriptor item = ?cur"
      using read_index [OF qs(1) i(1)] .
    obtain old where old: "fromObjectStructurePropertyDescriptor ?nh ?cur ?v = Some old"
      using old_request_exists [OF i(3)] by blast
    note R = rejections [OF d nn i(3), of ?nh]
    show ?thesis
    proof (cases "compatible (prop_of ?nh ?cur ?v) (spec_of_request d)")
      case True
      with R redefine_ok [OF ok x d qs(1) Some nn old, of fresh] F Some x item old i(2) nn cur show ?thesis
        by (auto simp: defineOwnPropertyMethod_def base_request_def own_change_def Let_def)
    next
      case False
      with R F Some x item old i(2) nn cur own_change_refl [OF ok, of a ?key] show ?thesis
        by (auto simp: defineOwnPropertyMethod_def Let_def)
    qed
  qed
qed

theorem defineOwnPropertyMethod_refines_standard_witness:
  "\<exists>st' b. defineOwnPropertyMethod small_k map_state 0 17 (data_request (VBool True) 0) 0 = Some (st', Inr b) \<and>
     (b, obj_lookup small_k st' 0 (KString [0x61])) = (True, Some (DataProp (VBool True) True True True))"
proof -
  let ?d = "data_request (VBool True) 0"
  have d: "request_ok ?d"
    by (simp add: request_ok_def checkProperty_def data_request_def bit_simps pr_isDataProperty_def)
  have s: "spec_of_request ?d = \<lparr>sd_value = Some (VBool True), sd_writable = None, sd_get = None, sd_set = None,
      sd_enumerable = None, sd_configurable = None\<rparr>"
    by (simp add: spec_of_request_def desc_simps) (simp add: data_request_def pr_getter_def pr_setter_def)
  from defineOwnPropertyMethod_refines_standard [OF map_state_ok map_state_object small_k_name(1) map_state_form d, of 0]
  show ?thesis
    by (auto simp: small_k_name(2) map_state_lookup s sd_isAccessor_def)
qed

section \<open>Reading\<close>

text \<open>What \<^verbatim>\<open>getOwnProperty\<close> returns for a property.\<close>

fun result_of :: "nheap \<Rightarrow> nat \<Rightarrow> js_prop option \<Rightarrow> get_result \<Rightarrow> bool" where
  "result_of nh a None r = (r = NoProperty)"
| "result_of nh a (Some (DataProp v w en c)) r = (r = DataResult v w en c)"
| "result_of nh a (Some (AccProp g s en c)) r =
     (\<exists>g' s'. r = AccessorResult g' s' en c \<and> dflt VUndefined g' = g \<and> dflt VUndefined s' = s)"
| "result_of nh a (Some (NativeProp d v)) r =
     (r = NativeResult (nh d) a v (desc_isWritable nh d) (desc_isEnumerable nh d) (desc_isConfigurable nh d))"

lemma index_name_key:
  "name_isIndexString h n \<longleftrightarrow> (case key_of h n of KString cs \<Rightarrow> isIndexString cs | KSymbol _ \<Rightarrow> False)"
  by (simp add: name_isIndexString_def key_of_def)

lemma no_index_names:
  assumes ok: "heap_ok e hp" and s: "h_structs hp s = Some sx" and qs: "abs_items e hp s = Some qs"
    and f: "\<not> m_hasIndexPropertyName (flags_of sx)" and n: "name_isIndexString (e_heap e) n"
  shows "spec_find qs (key_of (e_heap e) n) = None"
proof -
  obtain x ps where x: "h_structs hp s = Some x" "struct_items hp x = Some ps"
    and q: "qs = map (\<lambda>x. (item_key e x, m_descriptor x)) ps" using abs_itemsE [OF qs] .
  have "flags_ok e (flags_of sx) ps" using struct_items_ok [OF heap_okD(2) [OF ok x(1)] x(2)] x s by simp
  then have "\<not> name_isIndexString (e_heap e) (m_propertyName y)" if "y \<in> set ps" for y
    using that f by (simp add: flags_ok_def)
  then have "item_key e y \<noteq> key_of (e_heap e) n" if "y \<in> set ps" for y
    using that n index_name_key by metis
  then show ?thesis by (auto simp: spec_find_def q find_index_None_iff)
qed

lemma getOwnProperty_ok:
  assumes ok: "state_ok k st" and x: "os_objs st a = Some x" and n: "name_ok (e_atoms (k_env k)) n"
    and uint: "isUInt \<longrightarrow> name_isIndexString (e_heap (k_env k)) n"
    and form: "obj_lookup k st a (key_of (e_heap (k_env k)) n) = None \<or> same_form k st a n"
  shows "\<exists>r. getOwnProperty k st a isUInt n = Some r \<and>
     result_of (k_native k) a (obj_lookup k st a (key_of (e_heap (k_env k)) n)) r"
proof -
  let ?e = "k_env k" and ?key = "key_of (e_heap (k_env k)) n" and ?hp = "os_structs st"
  obtain qs where qs: "abs_items ?e ?hp (m_structure x) = Some qs" "slots_ok qs (m_values x)"
    using obj_okE [OF state_okD(2) [OF ok x]] .
  obtain sx where sx: "h_structs ?hp (m_structure x) = Some sx" using abs_itemsE [OF qs(1)] .
  note L = obj_lookup_items [OF x qs(1), of ?key]
  then have "spec_find qs ?key = None \<or> same_form k st a n" using form by (auto simp: items_lookup_def)
  note F = find_own [OF ok x n qs(1) this]
  show ?thesis
  proof (cases "spec_find qs ?key")
    case None
    with F L x sx show ?thesis by (simp add: getOwnProperty_def items_lookup_def)
  next
    case (Some i)
    let ?cur = "snd (qs ! i)" and ?v = "m_values x ! i"
    have i: "i < length qs" "i < length (m_values x)" "desc_isDataProperty ?cur = (\<not> is_gs ?v)"
      using spec_find_Some [OF Some] qs(2) by (auto simp: slots_ok_def)
    have uint': "isUInt \<longrightarrow> m_hasIndexPropertyName (flags_of sx)"
      using no_index_names [OF state_okD(1) [OF ok] sx qs(1), of n] uint Some by auto
    obtain item where item: "readProperty ?hp (m_structure x) i = Some item" "m_descriptor item = ?cur"
      using read_index [OF qs(1) i(1)] .
    have "desc_isNativeAccessorProperty ?cur \<Longrightarrow> desc_isDataProperty ?cur"
      by (simp add: desc_isNativeAccessorProperty_def desc_isDataProperty_def)
    then have "\<exists>r. read_own k a item ?v = Some r \<and> result_of (k_native k) a (Some (prop_of (k_native k) ?cur ?v)) r"
      using i(3) item(2) by (cases ?v) (auto simp: read_own_def prop_of_def Let_def)
    with F L x sx Some uint' item(1) i(2) show ?thesis
      by (auto simp: getOwnProperty_def items_lookup_def)
  qed
qed

text \<open>
  \<^verbatim>\<open>Object::getOwnProperty\<close> never crashes (in particular the cast of the slot of an accessor
  property to a getter/setter pair succeeds) and returns the property of the object; the shortcut
  for integer names on structures without index names answers what the search would. A property of
  an object that searches by hash has to be stored in the form of the name.
\<close>

theorem getOwnProperty_returns_property:
  assumes "state_ok k st" "os_objs st a = Some x" "name_ok (e_atoms (k_env k)) n"
    and "isUInt \<longrightarrow> name_isIndexString (e_heap (k_env k)) n"
    and "obj_lookup k st a (key_of (e_heap (k_env k)) n) = None \<or> same_form k st a n"
  shows "\<exists>r. getOwnProperty k st a isUInt n = Some r \<and>
     result_of (k_native k) a (obj_lookup k st a (key_of (e_heap (k_env k)) n)) r"
  using assms by (rule getOwnProperty_ok)

theorem getOwnProperty_returns_property_witness:
  "getOwnProperty small_k map_state 0 False 17 = Some (DataResult VNull True True True)"
  using getOwnProperty_returns_property [OF map_state_ok map_state_object small_k_name(1), of False] map_state_form [of 0]
  by (simp add: small_k_name(2) map_state_lookup)

section \<open>Deleting\<close>

lemma spec_find_remove:
  assumes d: "distinct (map fst qs)" and i: "i < length qs"
  shows "spec_find (remove_nth i qs) key =
     (case spec_find qs key of None \<Rightarrow> None
      | Some j \<Rightarrow> if j = i then None else Some (if j < i then j else j - 1))"
proof -
  have uniq: "spec_find rs key = Some j \<longleftrightarrow> j < length rs \<and> fst (rs ! j) = key" if "distinct (map fst rs)" for rs j
  proof
    assume j: "j < length rs \<and> fst (rs ! j) = key"
    have "fst (rs ! l) \<noteq> key" if "l < j" for l
      using j that \<open>distinct (map fst rs)\<close> by (auto simp: distinct_conv_nth)
    with j show "spec_find rs key = Some j"
      by (auto simp: spec_find_def find_index_Some_iff split_beta)
  qed (rule spec_find_Some)
  have d': "distinct (map fst (remove_nth i qs))" using d by (simp add: map_remove_nth distinct_remove_nth)
  show ?thesis
  proof (cases "spec_find qs key")
    case None
    then have "spec_find (remove_nth i qs) key = None"
      using set_remove_nth_subset [of i qs] unfolding spec_find_None by blast
    with None show ?thesis by simp
  next
    case (Some j)
    then have j: "j < length qs" "fst (qs ! j) = key" using spec_find_Some by auto
    show ?thesis
    proof (cases "j = i")
      case True
      have "map fst (remove_nth i qs) = remove_nth i (map fst qs)" by (rule map_remove_nth)
      then have "fst ` set (remove_nth i qs) = set (map fst qs) - {key}"
        using set_remove_nth [OF d, of i] i j(2) True by (metis length_map nth_map set_map)
      then have "spec_find (remove_nth i qs) key = None" unfolding spec_find_None by force
      with Some True show ?thesis by simp
    next
      case False
      let ?j = "if j < i then j else j - 1"
      have "?j < length qs - 1" using False i j(1) by auto
      moreover have "fst (remove_nth i qs ! ?j) = key"
        using remove_nth_nth [OF i \<open>?j < length qs - 1\<close>] False j by (cases "j < i") auto
      ultimately have "spec_find (remove_nth i qs) key = Some ?j"
        using i by (intro uniq [OF d', THEN iffD2]) simp
      with Some False show ?thesis by simp
    qed
  qed
qed

lemma items_lookup_remove:
  assumes d: "distinct (map fst qs)" and s: "slots_ok qs vs" and i: "spec_find qs key = Some i"
  shows "items_lookup nh (remove_nth i qs) (remove_nth i vs) key = None"
    "key' \<noteq> key \<Longrightarrow> items_lookup nh (remove_nth i qs) (remove_nth i vs) key' = items_lookup nh qs vs key'"
proof -
  have il: "i < length qs" "length vs = length qs" using spec_find_Some [OF i] s by (auto simp: slots_ok_def)
  show "items_lookup nh (remove_nth i qs) (remove_nth i vs) key = None"
    using i il by (simp add: items_lookup_def spec_find_remove [OF d])
  assume ne: "key' \<noteq> key"
  show "items_lookup nh (remove_nth i qs) (remove_nth i vs) key' = items_lookup nh qs vs key'"
  proof (cases "spec_find qs key'")
    case None
    with il show ?thesis by (simp add: items_lookup_def spec_find_remove [OF d])
  next
    case (Some j)
    then have j: "j < length qs" "j \<noteq> i" using ne spec_find_Some [OF Some] spec_find_Some [OF i] by auto
    with Some il show ?thesis
      by (auto simp: items_lookup_def spec_find_remove [OF d] remove_nth_nth)
  qed
qed

lemma abs_items_distinct: "heap_ok e hp \<Longrightarrow> abs_items e hp s = Some qs \<Longrightarrow> distinct (map fst qs)"
  by (erule abs_itemsE) (auto dest!: heap_okD(2) struct_items_ok simp: items_ok_def comp_def)

lemma delete_index_ok:
  assumes ok: "state_ok k st" and x: "os_objs st a = Some x"
    and qs: "abs_items (k_env k) (os_structs st) (m_structure x) = Some qs" and i: "spec_find qs key = Some i"
  shows "\<exists>st'. delete_index k st a x i = Some st' \<and> own_change k st a key st' None"
proof -
  let ?e = "k_env k" and ?hp = "os_structs st"
  have slots: "slots_ok qs (m_values x)" using obj_okE [OF state_okD(2) [OF ok x]] qs by auto
  have il: "i < length qs" using spec_find_Some [OF i] by simp
  have op: "op_ok ?e ?hp (m_structure x) (removeProperty ?e ?hp (m_structure x) i) (remove_nth i qs)"
    by (rule removeProperty_ok [OF state_okD(1) [OF ok] qs il])
  then obtain r where r: "removeProperty ?e ?hp (m_structure x) i = Some r" by (auto simp: op_ok_def)
  let ?x = "x\<lparr>m_values := remove_nth i (m_values x)\<rparr>"
  have s: "slots_ok (remove_nth i qs) (m_values ?x)" using slots_ok_remove [OF slots il] by simp
  have ext: "m_isExtensible ?x \<or> \<not> in_transition (fst r) (snd r)" using not_transition_after(2) [OF r] by simp
  note S = set_structure_ok [OF ok x op [unfolded r] s ext]
  have L: "obj_lookup k (set_structure st a ?x r) a key' =
      items_lookup (k_native k) (remove_nth i qs) (remove_nth i (m_values x)) key'" for key'
    using obj_lookup_items [OF S(2), of k "remove_nth i qs" key'] S(3) by simp
  have "own_change k st a key (set_structure st a ?x r) None"
    using S(1,5) L items_lookup_remove [OF abs_items_distinct [OF state_okD(1) [OF ok] qs] slots i]
      obj_lookup_items [OF x qs] by (simp add: own_change_def)
  with r show ?thesis by (simp add: delete_index_def)
qed

fun prop_configurable :: "nheap \<Rightarrow> js_prop \<Rightarrow> bool" where
  "prop_configurable nh (DataProp v w en c) = c"
| "prop_configurable nh (AccProp g s en c) = c"
| "prop_configurable nh (NativeProp d v) = desc_isConfigurable nh d"

lemma result_configurable:
  "result_of nh a (Some p) r \<Longrightarrow> gr_hasValue r \<and> gr_isConfigurable r = prop_configurable nh p"
  by (cases p) auto

lemma deleteOwnProperty_ok:
  assumes ok: "state_ok k st" and x: "os_objs st a = Some x" and n: "name_ok (e_atoms (k_env k)) n"
    and uint: "isUInt \<longrightarrow> name_isIndexString (e_heap (k_env k)) n" and form: "same_form k st a n"
  defines "key \<equiv> key_of (e_heap (k_env k)) n"
  shows "\<exists>st' b. deleteOwnProperty k st a isUInt n = Some (st', b) \<and>
     own_change k st a key st' (if b then None else obj_lookup k st a key) \<and>
     b = (case obj_lookup k st a key of None \<Rightarrow> True | Some p \<Rightarrow> prop_configurable (k_native k) p)"
proof -
  obtain qs where qs: "abs_items (k_env k) (os_structs st) (m_structure x) = Some qs"
    using obj_okE [OF state_okD(2) [OF ok x]] .
  note F = find_own [OF ok x n qs disjI2 [OF form], folded key_def] and L = obj_lookup_items [OF x qs, of key]
  obtain r where r: "getOwnProperty k st a isUInt n = Some r" "result_of (k_native k) a (obj_lookup k st a key) r"
    using getOwnProperty_ok [OF ok x n uint disjI2 [OF form]] unfolding key_def by blast
  show ?thesis
  proof (cases "obj_lookup k st a key")
    case None
    with r own_change_refl [OF ok, of a key] show ?thesis by (auto simp: deleteOwnProperty_def)
  next
    case (Some p)
    then obtain i where i: "spec_find qs key = Some i" using L by (auto simp: items_lookup_def)
    note c = result_configurable [OF r(2) [unfolded Some]]
    show ?thesis
    proof (cases "prop_configurable (k_native k) p")
      case True
      with c r(1) x F i delete_index_ok [OF ok x qs i] Some show ?thesis
        by (auto simp: deleteOwnProperty_def)
    next
      case False
      with c r(1) Some own_change_refl [OF ok, of a key] show ?thesis by (auto simp: deleteOwnProperty_def)
    qed
  qed
qed

text \<open>
  C22. \<^verbatim>\<open>Object::deleteOwnProperty\<close> follows \<^emph>\<open>OrdinaryDelete\<close>: it answers false and changes nothing
  when the property is there and not configurable, and otherwise answers true with the property
  gone; all other properties of all objects keep their values, although the slots behind the
  deleted one move. On an object that searches by hash the property has to be stored in the form of
  the name.
\<close>

theorem deleteOwnProperty_follows_standard:
  assumes "state_ok k st" "os_objs st a = Some x" "name_ok (e_atoms (k_env k)) n"
    and "isUInt \<longrightarrow> name_isIndexString (e_heap (k_env k)) n" "same_form k st a n"
  shows "\<exists>st' b. deleteOwnProperty k st a isUInt n = Some (st', b) \<and>
     own_change k st a (key_of (e_heap (k_env k)) n) st'
       (if b then None else obj_lookup k st a (key_of (e_heap (k_env k)) n)) \<and>
     b = (case obj_lookup k st a (key_of (e_heap (k_env k)) n) of
            None \<Rightarrow> True | Some p \<Rightarrow> prop_configurable (k_native k) p)"
  using assms by (rule deleteOwnProperty_ok)

theorem deleteOwnProperty_follows_standard_witness:
  "obj_lookup small_k map_state 0 (KString [0x61]) = Some (DataProp VNull True True True) \<and>
   (\<exists>st' b. deleteOwnProperty small_k map_state 0 False 17 = Some (st', b) \<and> b \<and>
     obj_lookup small_k st' 0 (KString [0x61]) = None)"
  using deleteOwnProperty_follows_standard [OF map_state_ok map_state_object small_k_name(1) _ map_state_form, of False]
  by (auto simp: small_k_name(2) map_state_lookup own_change_def)

section \<open>Preventing extensions\<close>

lemma preventExtensions_ok:
  assumes ok: "state_ok k st" and x: "os_objs st a = Some x"
  shows "\<exists>st' x'. preventExtensions st a = Some st' \<and> state_ok k st' \<and> os_objs st' a = Some x' \<and>
     \<not> m_isExtensible x' \<and> \<not> in_transition (os_structs st') (m_structure x') \<and>
     (\<forall>b key. obj_lookup k st' b key = obj_lookup k st b key)"
proof -
  let ?e = "k_env k" and ?hp = "os_structs st" and ?s = "m_structure x"
  obtain qs where qs: "abs_items ?e ?hp ?s = Some qs" "slots_ok qs (m_values x)"
    using obj_okE [OF state_okD(2) [OF ok x]] .
  obtain hp' s' where c: "convertToNonTransitionStructure ?hp ?s = Some (hp', s')" "heap_ok ?e hp'"
    "abs_items ?e hp' s' = Some qs" and fr: "frame {} ?hp hp'" and nt: "\<not> in_transition hp' s'"
    and s': "h_structs ?hp s' = None \<or> s' = ?s"
    using convertToNonTransitionStructure_ok [OF state_okD(1) [OF ok] qs(1)] by blast
  let ?x = "x\<lparr>m_structure := s', m_isExtensible := False\<rparr>"
  define st' where "st' = st\<lparr>os_structs := hp', os_objs := (os_objs st)(a \<mapsto> ?x)\<rparr>"
  have run: "preventExtensions st a = Some st'"
    using x c(1) by (simp add: preventExtensions_def markThisObjectDontNeedStructureTransitionTable_def
        set_structure_def set_obj_def st'_def)
  have other: "abs_items ?e hp' (m_structure y) = abs_items ?e ?hp (m_structure y) \<and>
      (pinned ?hp (m_structure y) \<longrightarrow> pinned hp' (m_structure y)) \<and>
      in_transition hp' (m_structure y) = in_transition ?hp (m_structure y) \<and> h_structs ?hp (m_structure y) \<noteq> None"
    if y: "os_objs st b = Some y" for b y
  proof -
    obtain ps where q: "abs_items ?e ?hp (m_structure y) = Some ps" using obj_okE [OF state_okD(2) [OF ok y]] .
    then have alive: "h_structs ?hp (m_structure y) \<noteq> None"
      by (auto simp: abs_items_def properties_def bind_eq_Some_conv)
    with fr have "same_struct ?hp hp' (m_structure y)" by (simp add: frame_def)
    then have "in_transition hp' (m_structure y) = in_transition ?hp (m_structure y)"
      using alive by (cases "h_structs ?hp (m_structure y)") (auto simp: in_transition_def same_struct_def)
    with alive frame_items [OF fr, of "m_structure y"] q show ?thesis by auto
  qed
  have eqs: "os_structs st' = hp'" "os_objs st' = (os_objs st)(a \<mapsto> ?x)" by (simp_all add: st'_def)
  have "state_ok k st'"
    unfolding state_ok_def eqs
  proof (intro conjI allI impI)
    show "heap_ok ?e hp'" by fact
    show "obj_ok ?e hp' y" if "((os_objs st)(a \<mapsto> ?x)) b = Some y" for b y
      using that c(3) qs nt state_okD(2) [OF ok, of b y] other [of b y]
      by (auto simp: obj_ok_def split: if_splits)
    show "pinned hp' (m_structure y)"
      if "((os_objs st)(a \<mapsto> ?x)) b = Some y" "((os_objs st)(a \<mapsto> ?x)) d = Some z" "b \<noteq> d"
        "m_structure y = m_structure z" for b d y z
    proof -
      have one: "pinned hp' s'" if "os_objs st b = Some y" "b \<noteq> a" "m_structure y = s'" for b y
        using that s' other [OF that(1)] state_okD(3) [OF ok that(1) x that(2)] by auto
      show ?thesis
        using that one other state_okD(3) [OF ok, of b y d z] by (auto split: if_splits)
    qed
  qed
  moreover have "obj_lookup k st' b key = obj_lookup k st b key" for b key
    using other [of b] x c(3) qs by (cases "os_objs st b") (auto simp: obj_lookup_def st'_def)
  moreover have "os_objs st' a = Some ?x" "os_structs st' = hp'" by (simp_all add: st'_def)
  ultimately show ?thesis using run nt by auto
qed

text \<open>
  C23. \<^verbatim>\<open>Object::preventExtensions\<close>: the object keeps its properties, as do all others, its
  structure leaves transition mode (so no cached transition applies to it any more), and from then
  on defining a property that is not there answers false and changes nothing.
\<close>

theorem preventExtensions_blocks_new_properties:
  assumes ok: "state_ok k st" and x: "os_objs st a = Some x"
  shows "\<exists>st' x'. preventExtensions st a = Some st' \<and> state_ok k st' \<and> os_objs st' a = Some x' \<and>
     \<not> in_transition (os_structs st') (m_structure x') \<and>
     (\<forall>b key. obj_lookup k st' b key = obj_lookup k st b key) \<and>
     (\<forall>n d fresh. name_ok (e_atoms (k_env k)) n \<longrightarrow> obj_lookup k st a (key_of (e_heap (k_env k)) n) = None \<longrightarrow>
        defineOwnPropertyMethod k st' a n d fresh = Some (st', Inr False))"
proof -
  obtain st' x' where p: "preventExtensions st a = Some st'" "state_ok k st'" "os_objs st' a = Some x'"
     "\<not> m_isExtensible x'" "\<not> in_transition (os_structs st') (m_structure x')"
     "\<forall>b key. obj_lookup k st' b key = obj_lookup k st b key"
    using preventExtensions_ok [OF ok x] by blast
  obtain qs where qs: "abs_items (k_env k) (os_structs st') (m_structure x') = Some qs"
    using obj_okE [OF state_okD(2) [OF p(2,3)]] .
  have "defineOwnPropertyMethod k st' a n d fresh = Some (st', Inr False)"
    if "name_ok (e_atoms (k_env k)) n" "obj_lookup k st a (key_of (e_heap (k_env k)) n) = None" for n d fresh
  proof -
    have "spec_find qs (key_of (e_heap (k_env k)) n) = None"
      using that(2) p(6) obj_lookup_items [OF p(3) qs, of "key_of (e_heap (k_env k)) n"]
      by (simp add: items_lookup_def)
    with find_own [OF p(2,3) that(1) qs disjI1] p(3,4) show ?thesis by (simp add: defineOwnPropertyMethod_def)
  qed
  with p show ?thesis by blast
qed

theorem preventExtensions_blocks_new_properties_witness:
  "\<exists>st'. preventExtensions small_state 0 = Some st' \<and>
     defineOwnPropertyMethod small_k st' 0 17 (data_request VNull 14) 0 = Some (st', Inr False)"
proof -
  have x: "os_objs small_state 0 = Some small_object" by (simp add: small_state_def)
  have n: "name_ok (e_atoms (k_env small_k)) 17" using small_name(1) by (simp add: small_k_def)
  from preventExtensions_blocks_new_properties [OF small_state_ok x] n small_state_lookup show ?thesis by blast
qed

end
