(* ===== verification/Prototype_Chain.thy ===== *)
theory Prototype_Chain
  imports Object_Properties
begin

text \<open>
  Prototype chains: \<^verbatim>\<open>Object::setPrototype\<close>, \<^verbatim>\<open>Object::get\<close>, \<^verbatim>\<open>Object::hasProperty\<close>. The loops of
  the source run as long as the chain lasts; they are partial functions here, with \<open>None\<close> for a
  loop that does not end, and the theorems prove that on the heaps the program builds they do end.
\<close>

section \<open>Operations\<close>

text \<open>
  The loop of \<^verbatim>\<open>setPrototype\<close>: does the chain from \<open>p\<close> reach the object itself? It stops early at
  an object that is not ordinary.
\<close>

partial_function (option) proto_reaches :: "obj_state \<Rightarrow> nat \<Rightarrow> nat option \<Rightarrow> bool option" where
  "proto_reaches st self p =
     (case p of
        None \<Rightarrow> Some False
      | Some q \<Rightarrow>
          if q = self then Some True
          else case os_objs st q of
            None \<Rightarrow> None
          | Some y \<Rightarrow> if \<not> m_isOrdinary y then Some False else proto_reaches st self (m_prototype y))"

definition setPrototype :: "obj_state \<Rightarrow> nat \<Rightarrow> nat option \<Rightarrow> (obj_state \<times> bool) option" where
  "setPrototype st a proto =
     (case os_objs st a of None \<Rightarrow> None | Some x \<Rightarrow>
      if proto = m_prototype x then Some (st, True)
      else if \<not> m_isExtensible x then Some (st, False)
      else case proto_reaches st a proto of
        None \<Rightarrow> None
      | Some True \<Rightarrow> Some (st, False)
      | Some False \<Rightarrow> Some (set_obj st a (x\<lparr>m_prototype := proto\<rparr>), True))"

text \<open>\<^verbatim>\<open>Object::get\<close> and \<^verbatim>\<open>Object::hasProperty\<close> on a chain of ordinary objects.\<close>

partial_function (option) object_get :: "oenv \<Rightarrow> obj_state \<Rightarrow> nat \<Rightarrow> bool \<Rightarrow> pname \<Rightarrow> get_result option" where
  "object_get k st iter isUInt n =
     (case getOwnProperty k st iter isUInt n of
        None \<Rightarrow> None
      | Some r \<Rightarrow>
          if gr_hasValue r then Some r
          else case os_objs st iter of
            None \<Rightarrow> None
          | Some x \<Rightarrow>
              (case m_prototype x of
                 None \<Rightarrow> Some NoProperty
               | Some p \<Rightarrow> object_get k st p isUInt n))"

definition hasProperty :: "oenv \<Rightarrow> obj_state \<Rightarrow> nat \<Rightarrow> bool \<Rightarrow> pname \<Rightarrow> bool option" where
  "hasProperty k st a isUInt n = map_option gr_hasValue (object_get k st a isUInt n)"

declare proto_reaches.simps [code] object_get.simps [code]

section \<open>Chains that end\<close>

inductive grounded :: "obj_state \<Rightarrow> nat \<Rightarrow> bool" for st where
  grounded_end: "os_objs st a = Some x \<Longrightarrow> m_prototype x = None \<Longrightarrow> grounded st a"
| grounded_step: "os_objs st a = Some x \<Longrightarrow> m_prototype x = Some p \<Longrightarrow> grounded st p \<Longrightarrow> grounded st a"

inductive_cases groundedE: "grounded st a"

definition all_grounded :: "obj_state \<Rightarrow> bool" where
  "all_grounded st \<longleftrightarrow> (\<forall>a. os_objs st a \<noteq> None \<longrightarrow> grounded st a)"

definition all_ordinary :: "obj_state \<Rightarrow> bool" where
  "all_ordinary st \<longleftrightarrow> (\<forall>a x. os_objs st a = Some x \<longrightarrow> m_isOrdinary x)"

text \<open>The objects on a chain, from the given one on.\<close>

inductive on_chain :: "obj_state \<Rightarrow> nat \<Rightarrow> nat \<Rightarrow> bool" for st where
  on_chain_refl: "on_chain st a a"
| on_chain_step: "os_objs st a = Some x \<Longrightarrow> m_prototype x = Some p \<Longrightarrow> on_chain st p b \<Longrightarrow> on_chain st a b"

lemma proto_reaches_grounded:
  assumes "grounded st q" "all_ordinary st"
  shows "\<exists>b. proto_reaches st self (Some q) = Some b \<and> (b \<or> \<not> on_chain st q self)"
  using assms
proof (induction rule: grounded.induct)
  case (grounded_end a x)
  have ord: "m_isOrdinary x" using grounded_end by (simp add: all_ordinary_def)
  have "on_chain st a self \<Longrightarrow> self = a"
    using grounded_end by (auto elim: on_chain.cases)
  with grounded_end ord show ?case
    by (subst proto_reaches.simps) (auto simp: proto_reaches.simps [of st self None])
next
  case (grounded_step a x p)
  then obtain b where b: "proto_reaches st self (Some p) = Some b" "b \<or> \<not> on_chain st p self" by blast
  have ord: "m_isOrdinary x" using grounded_step by (simp add: all_ordinary_def)
  have "on_chain st a self \<Longrightarrow> self = a \<or> on_chain st p self"
    using grounded_step by (auto elim: on_chain.cases)
  with grounded_step b ord show ?case by (subst proto_reaches.simps) auto
qed

text \<open>Replacing the prototype of an object that is not on the chain keeps the chain.\<close>

lemma grounded_update:
  assumes "grounded st b" "\<not> on_chain st b a"
  shows "grounded (set_obj st a y) b"
  using assms
proof (induction rule: grounded.induct)
  case (grounded_end b x)
  then have "b \<noteq> a" using on_chain_refl by blast
  with grounded_end show ?case by (intro grounded.grounded_end) (auto simp: set_obj_def)
next
  case (grounded_step b x p)
  then have "b \<noteq> a" "\<not> on_chain st p a" using on_chain_refl on_chain_step by blast+
  with grounded_step show ?case by (intro grounded.grounded_step [of _ b x p]) (auto simp: set_obj_def)
qed

lemma grounded_after:
  assumes new: "grounded (set_obj st a y) a" and b: "grounded st b"
  shows "grounded (set_obj st a y) b"
  using b
proof (induction rule: grounded.induct)
  case (grounded_end b x)
  show ?case
  proof (cases "b = a")
    case True
    with new show ?thesis by simp
  next
    case False
    with grounded_end show ?thesis by (intro grounded.grounded_end) (auto simp: set_obj_def)
  qed
next
  case (grounded_step b x p)
  show ?case
  proof (cases "b = a")
    case True
    with new show ?thesis by simp
  next
    case False
    with grounded_step show ?thesis by (intro grounded.grounded_step [of _ b x p]) (auto simp: set_obj_def)
  qed
qed

text \<open>
  C28. Prototype chains stay finite: on a heap of ordinary objects whose chains all end,
  \<^verbatim>\<open>setPrototype\<close> with any existing prototype or null terminates, and all chains of the resulting
  heap end again. (Its loop refuses exactly the cycles.)
\<close>

theorem setPrototype_keeps_chains_finite:
  assumes g: "all_grounded st" and o: "all_ordinary st" and a: "os_objs st a \<noteq> None"
    and p: "\<forall>q. proto = Some q \<longrightarrow> os_objs st q \<noteq> None"
  shows "\<exists>st' b. setPrototype st a proto = Some (st', b) \<and> all_grounded st' \<and> all_ordinary st'"
proof -
  obtain x where x: "os_objs st a = Some x" using a by auto
  show ?thesis
  proof (cases "proto = m_prototype x \<or> \<not> m_isExtensible x")
    case True
    with g o x show ?thesis by (auto simp: setPrototype_def)
  next
    case False
    let ?y = "x\<lparr>m_prototype := proto\<rparr>"
    have ord: "all_ordinary (set_obj st a ?y)" using o x by (auto simp: all_ordinary_def set_obj_def)
    have ok: "all_grounded (set_obj st a ?y)" if "\<forall>q. proto = Some q \<longrightarrow> \<not> on_chain st q a"
    proof -
      have "grounded (set_obj st a ?y) a"
      proof (cases proto)
        case None
        then show ?thesis by (intro grounded_end [of _ a ?y]) (auto simp: set_obj_def)
      next
        case (Some q)
        then have "grounded (set_obj st a ?y) q"
          using that p g by (intro grounded_update) (auto simp: all_grounded_def)
        with Some show ?thesis by (intro grounded_step [of _ a ?y q]) (auto simp: set_obj_def)
      qed
      then show ?thesis
        using g x grounded_after unfolding all_grounded_def by (auto simp: set_obj_def split: if_splits)
    qed
    show ?thesis
    proof (cases proto)
      case None
      with False x ok ord show ?thesis by (auto simp: setPrototype_def proto_reaches.simps)
    next
      case (Some q)
      then obtain b where b: "proto_reaches st a (Some q) = Some b" "b \<or> \<not> on_chain st q a"
        using proto_reaches_grounded [OF _ o, of q a] p g by (auto simp: all_grounded_def)
      with False x ok ord g o Some show ?thesis by (cases b) (auto simp: setPrototype_def)
    qed
  qed
qed

text \<open>A prototype pair: object 0 inherits from object 1.\<close>

definition pair_state :: obj_state where
  "pair_state = set_obj small_state 0 (small_object\<lparr>m_prototype := Some 1\<rparr>)"

lemma pair_grounded: "all_grounded pair_state" "all_ordinary pair_state"
proof -
  have "grounded pair_state 1"
    by (rule grounded_end [of _ _ small_object]) (auto simp: pair_state_def set_obj_def small_state_def small_object_def)
  moreover from this have "grounded pair_state 0"
    by (intro grounded_step [of _ 0 "small_object\<lparr>m_prototype := Some 1\<rparr>" 1])
      (auto simp: pair_state_def set_obj_def)
  ultimately show "all_grounded pair_state" "all_ordinary pair_state"
    by (auto simp: all_grounded_def all_ordinary_def pair_state_def set_obj_def small_state_def small_object_def
        split: if_splits)
qed

theorem setPrototype_keeps_chains_finite_witness:
  "\<exists>st' b. setPrototype pair_state 1 (Some 0) = Some (st', b) \<and> all_grounded st' \<and> \<not> b"
proof -
  have objs: "os_objs pair_state 1 \<noteq> None" "\<forall>q. Some 0 = Some q \<longrightarrow> os_objs pair_state q \<noteq> None"
    by (auto simp: pair_state_def set_obj_def small_state_def)
  have "setPrototype pair_state 1 (Some 0) = Some (pair_state, False)"
    by (simp add: setPrototype_def pair_state_def set_obj_def small_state_def small_object_def proto_reaches.simps)
  with setPrototype_keeps_chains_finite [OF pair_grounded objs] show ?thesis by auto
qed

section \<open>Lookup along the chain\<close>

text \<open>The first property with the key on a chain, with the object that has it.\<close>

inductive chain_lookup :: "oenv \<Rightarrow> obj_state \<Rightarrow> nat \<Rightarrow> property_key \<Rightarrow> (nat \<times> js_prop) option \<Rightarrow> bool" for k st where
  chain_own: "obj_lookup k st a key = Some p \<Longrightarrow> chain_lookup k st a key (Some (a, p))"
| chain_none: "obj_lookup k st a key = None \<Longrightarrow> os_objs st a = Some x \<Longrightarrow> m_prototype x = None \<Longrightarrow>
     chain_lookup k st a key None"
| chain_parent: "obj_lookup k st a key = None \<Longrightarrow> os_objs st a = Some x \<Longrightarrow> m_prototype x = Some q \<Longrightarrow>
     chain_lookup k st q key r \<Longrightarrow> chain_lookup k st a key r"

fun chain_result :: "nheap \<Rightarrow> (nat \<times> js_prop) option \<Rightarrow> get_result \<Rightarrow> bool" where
  "chain_result nh None r = (r = NoProperty)"
| "chain_result nh (Some (b, p)) r = result_of nh b (Some p) r"

lemma result_hasValue: "result_of nh a p r \<Longrightarrow> gr_hasValue r = (p \<noteq> None)"
  by (cases "(nh, a, p, r)" rule: result_of.cases) auto

lemma object_get_ok:
  assumes ok: "state_ok k st" and n: "name_ok (e_atoms (k_env k)) n" and form: "\<forall>b. same_form k st b n"
    and uint: "isUInt \<longrightarrow> name_isIndexString (e_heap (k_env k)) n" and g: "grounded st a"
  shows "\<exists>r c. object_get k st a isUInt n = Some r \<and> chain_lookup k st a (key_of (e_heap (k_env k)) n) c \<and>
     chain_result (k_native k) c r"
  using g
proof (induction rule: grounded.induct)
  case (grounded_end a x)
  obtain r where r: "getOwnProperty k st a isUInt n = Some r"
    "result_of (k_native k) a (obj_lookup k st a (key_of (e_heap (k_env k)) n)) r"
    using getOwnProperty_ok [OF ok grounded_end(1) n uint] form by blast
  note h = result_hasValue [OF r(2)]
  show ?case
  proof (cases "obj_lookup k st a (key_of (e_heap (k_env k)) n)")
    case None
    with h r grounded_end show ?thesis
      by (subst object_get.simps) (auto intro: chain_none)
  next
    case (Some p)
    with h r grounded_end show ?thesis
      by (subst object_get.simps) (auto intro!: exI [of _ "Some (a, p)"] chain_own)
  qed
next
  case (grounded_step a x q)
  obtain r where r: "getOwnProperty k st a isUInt n = Some r"
    "result_of (k_native k) a (obj_lookup k st a (key_of (e_heap (k_env k)) n)) r"
    using getOwnProperty_ok [OF ok grounded_step(1) n uint] form by blast
  note h = result_hasValue [OF r(2)]
  show ?case
  proof (cases "obj_lookup k st a (key_of (e_heap (k_env k)) n)")
    case None
    from grounded_step.IH obtain r' c where "object_get k st q isUInt n = Some r'"
      "chain_lookup k st q (key_of (e_heap (k_env k)) n) c" "chain_result (k_native k) c r'" by blast
    with None h r grounded_step show ?thesis
      by (subst object_get.simps) (auto intro: chain_parent)
  next
    case (Some p)
    with h r grounded_step show ?thesis
      by (subst object_get.simps) (auto intro!: exI [of _ "Some (a, p)"] chain_own)
  qed
qed

text \<open>
  C29. \<^verbatim>\<open>Object::get\<close> terminates on every finite chain of a good heap of ordinary objects and returns
  the property of the first object on the chain that has one, or nothing when none has. On objects
  that search by hash the property has to be stored in the form of the name.
\<close>

theorem object_get_returns_first_on_chain:
  assumes "state_ok k st" "name_ok (e_atoms (k_env k)) n" "\<forall>b. same_form k st b n"
    and "isUInt \<longrightarrow> name_isIndexString (e_heap (k_env k)) n" "grounded st a"
  shows "\<exists>r c. object_get k st a isUInt n = Some r \<and> chain_lookup k st a (key_of (e_heap (k_env k)) n) c \<and>
     chain_result (k_native k) c r"
  using assms by (rule object_get_ok)

theorem object_get_returns_first_on_chain_witness:
  "object_get small_k map_state 2 False 17 = Some (DataResult VNull True True True)"
proof -
  have o: "os_objs map_state 2 = Some (small_object\<lparr>m_prototype := Some 0\<rparr>)" by (simp add: map_state_def)
  have "grounded map_state 0"
    by (rule grounded_end [OF map_state_object]) (simp add: small_object_def)
  then have g: "grounded map_state 2" using grounded_step [OF o] by simp
  obtain r c where r: "object_get small_k map_state 2 False 17 = Some r"
    "chain_lookup small_k map_state 2 (KString [0x61]) c" "chain_result (k_native small_k) c r"
    using object_get_returns_first_on_chain [OF map_state_ok small_k_name(1) _ _ g, of False] map_state_form
    by (auto simp: small_k_name(2))
  have "chain_lookup small_k map_state 0 (KString [0x61]) c"
    using r(2) o by (cases rule: chain_lookup.cases) (auto simp: map_state_lookup)
  then have "c = Some (0, DataProp VNull True True True)"
    by (cases rule: chain_lookup.cases) (auto simp: map_state_lookup)
  with r(1,3) show ?thesis by simp
qed

end
