(* ===== verification/Inline_Cache.thy ===== *)
theory Inline_Cache
  imports Prototype_Chain
begin

text \<open>
  The inline caches of property reads: \<^verbatim>\<open>GetObjectPreComputedCase\<close> with
  \<^verbatim>\<open>GetObjectInlineCacheData\<close> (\<^verbatim>\<open>interpreter/ByteCode.h\<close>) and
  \<^verbatim>\<open>getObjectPrecomputedCaseOperation\<close> (\<^verbatim>\<open>interpreter/ByteCodeInterpreter.cpp\<close>), for receivers
  that are objects and not arrays. An instruction remembers the hidden classes of the objects on
  the chain up to the one that has the property, and the index of the slot there. Small fields
  are kept at their width.
\<close>

section \<open>State\<close>

abbreviation inlineCacheProtoTraverseMaxCount :: nat where "inlineCacheProtoTraverseMaxCount \<equiv> 12"
abbreviation inlineCacheCachedIndexMax :: nat where "inlineCacheCachedIndexMax \<equiv> 65535"

record get_item =
  gi_chain :: "nat list"
  gi_isPlain :: bool
  gi_index :: u16

datatype get_cache =
    CacheNone
  | CacheSimple "(nat \<times> u8) list"
  | CacheComplex "get_item list"

record get_code =
  g_name :: pname
  g_cache :: get_cache
  g_maxIndex :: u8
  g_missCount :: u16

text \<open>
  What the instruction puts into its register: the content of a slot, what the getter behind a
  slot returns, undefined, or the result of the general lookup.
\<close>

datatype ic_result = SlotOf nat nat | NonPlainOf nat nat | UndefinedRead | GeneralGet

section \<open>Hits\<close>

text \<open>The loop that collects the objects of the chain with their structures.\<close>

fun ic_walk :: "obj_state \<Rightarrow> nat \<Rightarrow> nat option \<Rightarrow> (nat \<times> nat) list option" where
  "ic_walk st 0 obj = Some []"
| "ic_walk st (Suc c) None = Some []"
| "ic_walk st (Suc c) (Some a) =
     (case os_objs st a of None \<Rightarrow> None
      | Some x \<Rightarrow> map_option (\<lambda>ws. (a, m_structure x) # ws) (ic_walk st c (m_prototype x)))"

text \<open>Filling the two arrays on the stack; \<open>None\<close> is a write past their end.\<close>

definition ic_collect :: "obj_state \<Rightarrow> nat \<Rightarrow> nat \<Rightarrow> (nat \<times> nat) list option" where
  "ic_collect st maxIndex a =
     (case ic_walk st (Suc maxIndex) (Some a) of
        None \<Rightarrow> None
      | Some ws \<Rightarrow> if length ws \<le> inlineCacheProtoTraverseMaxCount then Some ws else None)"

definition get_item_matches :: "(nat \<times> nat) list \<Rightarrow> get_item \<Rightarrow> bool" where
  "get_item_matches ws i \<longleftrightarrow>
     length (gi_chain i) \<le> length ws \<and> map snd (take (length (gi_chain i)) ws) = gi_chain i"

definition get_item_result :: "(nat \<times> nat) list \<Rightarrow> get_item \<Rightarrow> ic_result" where
  "get_item_result ws i =
     (if unat (gi_index i) \<noteq> inlineCacheCachedIndexMax then
        let a = fst (ws ! (length (gi_chain i) - 1)) in
        if gi_isPlain i then SlotOf a (unat (gi_index i)) else NonPlainOf a (unat (gi_index i))
      else UndefinedRead)"

text \<open>
  The lookup in the cache: the opcode with the simple cache compares one structure with three
  entries, the complex cache compares whole chains. The inner \<open>None\<close> is a miss.
\<close>

definition get_hit :: "obj_state \<Rightarrow> get_code \<Rightarrow> nat \<Rightarrow> ic_result option option" where
  "get_hit st code a =
     (case os_objs st a of None \<Rightarrow> None | Some x \<Rightarrow>
      case g_cache code of
        CacheNone \<Rightarrow> Some None
      | CacheSimple es \<Rightarrow>
          Some (map_option (\<lambda>(s, i). SlotOf a (unat i)) (List.find (\<lambda>(s, i). s = m_structure x) es))
      | CacheComplex its \<Rightarrow>
          map_option (\<lambda>ws. map_option (get_item_result ws) (List.find (get_item_matches ws) its))
            (ic_collect st (unat (g_maxIndex code)) a))"

section \<open>Misses\<close>

datatype get_search =
    FoundAt "nat list" nat nat bool
  | FoundNone "nat list"
  | GiveUp

text \<open>The loop that searches the chain, marks its structures and records them.\<close>

partial_function (option) get_search_chain ::
    "oenv \<Rightarrow> obj_state \<Rightarrow> nat \<Rightarrow> pname \<Rightarrow> nat list \<Rightarrow> (obj_state \<times> get_search) option" where
  "get_search_chain k st obj n chain =
     (case os_objs st obj of None \<Rightarrow> None | Some x \<Rightarrow>
      case markReferencedByInlineCache (os_structs st) (m_structure x) of None \<Rightarrow> None | Some hp \<Rightarrow>
      case findProperty (k_env k) hp (m_structure x) n of
        None \<Rightarrow> None
      | Some (Some idx) \<Rightarrow>
          (if idx > inlineCacheCachedIndexMax then Some (st\<lparr>os_structs := hp\<rparr>, GiveUp)
           else case readProperty hp (m_structure x) idx of
             None \<Rightarrow> None
           | Some item \<Rightarrow> Some (st\<lparr>os_structs := hp\<rparr>,
               FoundAt (chain @ [m_structure x]) obj idx (desc_isPlainDataProperty (m_descriptor item))))
      | Some None \<Rightarrow>
          (case m_prototype x of
             None \<Rightarrow> Some (st\<lparr>os_structs := hp\<rparr>, FoundNone (chain @ [m_structure x]))
           | Some p \<Rightarrow>
               (case os_objs st p of None \<Rightarrow> None
                | Some y \<Rightarrow>
                    if \<not> m_isInlineCacheable y then Some (st\<lparr>os_structs := hp\<rparr>, GiveUp)
                    else get_search_chain k (st\<lparr>os_structs := hp\<rparr>) p n (chain @ [m_structure x]))))"

declare get_search_chain.simps [code]

text \<open>Entering into the simple cache (three entries, the newest in front when it is full).\<close>

definition simple_insert :: "(nat \<times> u8) list \<Rightarrow> nat \<times> u8 \<Rightarrow> (nat \<times> u8) list" where
  "simple_insert es x = (if length es < 3 then es @ [x] else x # take 2 es)"

text \<open>Entering into the complex cache (25 entries at most, the newest in front).\<close>

definition complex_insert :: "get_item list \<Rightarrow> get_item \<Rightarrow> get_item list" where
  "complex_insert its x = (if length its > 24 then x # take (length its - 1) its else x # its)"

definition simple_to_complex :: "(nat \<times> u8) list \<Rightarrow> get_item list" where
  "simple_to_complex es = map (\<lambda>(s, i). \<lparr>gi_chain = [s], gi_isPlain = True, gi_index = ucast i\<rparr>) es"

definition give_up :: "get_code \<Rightarrow> get_code" where
  "give_up code = code\<lparr>g_cache := CacheNone, g_missCount := 33\<rparr>"

text \<open>The part after the search: which cache is filled, and the value read.\<close>

definition get_fill :: "get_code \<Rightarrow> get_search \<Rightarrow> get_code \<times> ic_result" where
  "get_fill code r =
     (case r of
        GiveUp \<Rightarrow> (give_up code, GeneralGet)
      | FoundNone chain \<Rightarrow>
          if length chain > inlineCacheProtoTraverseMaxCount \<or> length chain = 1 then (give_up code, GeneralGet)
          else
            let its = (case g_cache code of CacheNone \<Rightarrow> [] | CacheSimple es \<Rightarrow> simple_to_complex es
                      | CacheComplex its \<Rightarrow> its) in
            (code\<lparr>g_cache := CacheComplex (complex_insert its
                    \<lparr>gi_chain = chain, gi_isPlain = False, gi_index = of_nat inlineCacheCachedIndexMax\<rparr>),
                  g_maxIndex := max (of_nat (length chain - 1)) (g_maxIndex code)\<rparr>, UndefinedRead)
      | FoundAt chain obj idx plain \<Rightarrow>
          if length chain > inlineCacheProtoTraverseMaxCount then (give_up code, GeneralGet)
          else if length chain = 1 \<and> idx = inlineCacheCachedIndexMax then (give_up code, GeneralGet)
          else if plain \<and> length chain = 1 \<and> idx \<le> 255 \<and> (case g_cache code of CacheComplex _ \<Rightarrow> False | _ \<Rightarrow> True) then
            (code\<lparr>g_cache := CacheSimple (simple_insert
                    (case g_cache code of CacheSimple es \<Rightarrow> es | _ \<Rightarrow> []) (chain ! 0, of_nat idx))\<rparr>, SlotOf obj idx)
          else
            let its = (case g_cache code of CacheNone \<Rightarrow> [] | CacheSimple es \<Rightarrow> simple_to_complex es
                      | CacheComplex its \<Rightarrow> its) in
            (code\<lparr>g_cache := CacheComplex (complex_insert its
                    \<lparr>gi_chain = chain, gi_isPlain = plain, gi_index = of_nat idx\<rparr>),
                  g_maxIndex := max (of_nat (length chain - 1)) (g_maxIndex code)\<rparr>,
             if idx \<noteq> inlineCacheCachedIndexMax then if plain then SlotOf obj idx else NonPlainOf obj idx
             else UndefinedRead))"

text \<open>\<^verbatim>\<open>getObjectPrecomputedCaseOperation\<close> behind the opcode with the simple cache.\<close>

definition getObjectPrecomputedCaseOperation ::
    "oenv \<Rightarrow> obj_state \<Rightarrow> get_code \<Rightarrow> nat \<Rightarrow> (obj_state \<times> get_code \<times> ic_result) option" where
  "getObjectPrecomputedCaseOperation k st code a =
     (case get_hit st code a of
        None \<Rightarrow> None
      | Some (Some r) \<Rightarrow> Some (st, code, r)
      | Some None \<Rightarrow>
          (case os_objs st a of None \<Rightarrow> None | Some x \<Rightarrow>
           if unat (g_missCount code) > 32 then Some (st, code, GeneralGet)
           else
             let code1 = code\<lparr>g_missCount := g_missCount code + 1\<rparr> in
             if unat (g_missCount code1) \<le> 4 then Some (st, code1, GeneralGet)
             else if \<not> m_isInlineCacheable x then Some (st, code1\<lparr>g_missCount := 33\<rparr>, GeneralGet)
             else if unat (g_missCount code1) = 32 then Some (st, code1, GeneralGet)
             else case get_search_chain k st a (g_name code) [] of
               None \<Rightarrow> None
             | Some (st', r) \<Rightarrow> let (code2, res) = get_fill code1 r in Some (st', code2, res)))"

section \<open>Meaning of a result\<close>

text \<open>
  \<^verbatim>\<open>getOwnNonPlainDataPropertyUtilForObject\<close> with \<^verbatim>\<open>getOwnPropertyUtilForObjectAccCase\<close>.
\<close>

definition getOwnNonPlainDataPropertyUtilForObject ::
    "oenv \<Rightarrow> obj_state \<Rightarrow> nat \<Rightarrow> nat \<Rightarrow> jsval \<Rightarrow> jsval outcome" where
  "getOwnNonPlainDataPropertyUtilForObject k st a idx receiver =
     (case os_objs st a of None \<Rightarrow> None | Some x \<Rightarrow>
      case readProperty (os_structs st) (m_structure x) idx of None \<Rightarrow> None | Some item \<Rightarrow>
      if idx \<ge> length (m_values x) then None
      else if desc_isDataProperty (m_descriptor item) then
        Some (st, Inr (k_native_get k (m_getter (k_native k (m_descriptor item))) st a receiver (m_values x ! idx)))
      else case m_values x ! idx of
        VGetterSetter (Some f) _ \<Rightarrow>
          if k_isCallable k f then Some (k_call k st f receiver []) else Some (st, Inr VUndefined)
      | VGetterSetter None _ \<Rightarrow> Some (st, Inr VUndefined)
      | _ \<Rightarrow> None)"

fun ic_outcome :: "oenv \<Rightarrow> obj_state \<Rightarrow> jsval \<Rightarrow> nat \<Rightarrow> pname \<Rightarrow> ic_result \<Rightarrow> jsval outcome" where
  "ic_outcome k st receiver a n (SlotOf b i) =
     (case os_objs st b of None \<Rightarrow> None
      | Some x \<Rightarrow> if i < length (m_values x) then Some (st, Inr (m_values x ! i)) else None)"
| "ic_outcome k st receiver a n (NonPlainOf b i) = getOwnNonPlainDataPropertyUtilForObject k st b i receiver"
| "ic_outcome k st receiver a n UndefinedRead = Some (st, Inr VUndefined)"
| "ic_outcome k st receiver a n GeneralGet = map_option (gr_value k st receiver) (object_get k st a False n)"

end
