(* ===== verification/Inline_Cache_Proof.thy ===== *)
theory Inline_Cache_Proof
  imports Inline_Cache
begin

text \<open>
  Correctness of the read caches: what a valid cache entry says, why entries stay valid, and that
  a cached read gives what the general lookup gives.
\<close>

section \<open>Valid entries\<close>

text \<open>Where a structure has a key: nowhere, or at an index with a descriptor.\<close>

definition shape_find :: "senv \<Rightarrow> structure_heap \<Rightarrow> nat \<Rightarrow> property_key \<Rightarrow> (nat \<times> pdesc) option option" where
  "shape_find e hp s key =
     map_option (\<lambda>qs. map_option (\<lambda>i. (i, snd (qs ! i))) (spec_find qs key)) (abs_items e hp s)"

text \<open>The chain of structures leads to the property at \<open>target\<close>, or (\<open>None\<close>) to nothing.\<close>

definition chain_says :: "senv \<Rightarrow> structure_heap \<Rightarrow> property_key \<Rightarrow> nat list \<Rightarrow> (nat \<times> pdesc) option \<Rightarrow> bool" where
  "chain_says e hp key ss target \<longleftrightarrow> ss \<noteq> [] \<and> (\<forall>s \<in> set ss. pinned hp s) \<and>
     (\<forall>s \<in> set (butlast ss). shape_find e hp s key = Some None) \<and>
     shape_find e hp (last ss) key = Some target"

definition get_item_ok :: "senv \<Rightarrow> structure_heap \<Rightarrow> property_key \<Rightarrow> get_item \<Rightarrow> bool" where
  "get_item_ok e hp key i \<longleftrightarrow>
     (if unat (gi_index i) = inlineCacheCachedIndexMax then chain_says e hp key (gi_chain i) None
      else \<exists>d. chain_says e hp key (gi_chain i) (Some (unat (gi_index i), d)) \<and>
             gi_isPlain i = desc_isPlainDataProperty d)"

fun cache_items :: "get_cache \<Rightarrow> get_item list" where
  "cache_items CacheNone = []"
| "cache_items (CacheSimple es) = simple_to_complex es"
| "cache_items (CacheComplex its) = its"

definition get_code_ok :: "senv \<Rightarrow> structure_heap \<Rightarrow> get_code \<Rightarrow> bool" where
  "get_code_ok e hp code \<longleftrightarrow> name_ok (e_atoms e) (g_name code) \<and>
     unat (g_maxIndex code) < inlineCacheProtoTraverseMaxCount \<and>
     (\<forall>i \<in> set (cache_items (g_cache code)). get_item_ok e hp (key_of (e_heap e) (g_name code)) i)"

text \<open>Entries stay valid as long as pinned structures stay as they are, which every operation guarantees.\<close>

definition pins_kept :: "senv \<Rightarrow> structure_heap \<Rightarrow> structure_heap \<Rightarrow> bool" where
  "pins_kept e hp hp' \<longleftrightarrow>
     (\<forall>s. pinned hp s \<longrightarrow> abs_items e hp s \<noteq> None \<longrightarrow> pinned hp' s \<and> abs_items e hp' s = abs_items e hp s)"

lemma chain_says_kept:
  assumes "chain_says e hp key ss t" "pins_kept e hp hp'"
  shows "chain_says e hp' key ss t"
proof -
  have ne: "ss \<noteq> []" using assms(1) by (simp add: chain_says_def)
  have all: "pinned hp' s \<and> shape_find e hp' s key = shape_find e hp s key" if "s \<in> set ss" for s
  proof -
    have "s \<in> set (butlast ss) \<or> s = last ss"
      using that ne by (metis UnE append_butlast_last_id empty_iff insertE list.set(1,2) set_append)
    then have "shape_find e hp s key \<noteq> None" using assms(1) by (auto simp: chain_says_def)
    then have "abs_items e hp s \<noteq> None" by (auto simp: shape_find_def)
    with that assms show ?thesis by (auto simp: pins_kept_def chain_says_def shape_find_def)
  qed
  show ?thesis
    using assms(1) all ne unfolding chain_says_def by (metis in_set_butlastD last_in_set)
qed

lemma get_item_ok_kept: "get_item_ok e hp key i \<Longrightarrow> pins_kept e hp hp' \<Longrightarrow> get_item_ok e hp' key i"
  using chain_says_kept [of e hp key "gi_chain i" _ hp'] unfolding get_item_ok_def by (auto split: if_splits)

lemma get_code_ok_kept: "get_code_ok e hp code \<Longrightarrow> pins_kept e hp hp' \<Longrightarrow> get_code_ok e hp' code"
  using get_item_ok_kept unfolding get_code_ok_def by blast

lemma op_ok_pins_kept: "op_ok e hp s (Some r) qs \<Longrightarrow> pins_kept e hp (fst r)"
  unfolding pins_kept_def
proof (intro allI impI)
  fix t assume op: "op_ok e hp s (Some r) qs" and t: "pinned hp t" "abs_items e hp t \<noteq> None"
  from op have fr: "frame (if pinned hp s then {} else {s}) hp (fst r)" by (auto simp: op_ok_def)
  have "t \<notin> (if pinned hp s then {} else {s})" using t by auto
  from frame_items [OF fr this t(2)] t show "pinned (fst r) t \<and> abs_items e (fst r) t = abs_items e hp t" by simp
qed

section \<open>Walking the chain\<close>

lemma own_absent:
  assumes ok: "state_ok k st" and x: "os_objs st a = Some x" and n: "name_ok (e_atoms (k_env k)) n"
    and f: "shape_find (k_env k) (os_structs st) (m_structure x) (key_of (e_heap (k_env k)) n) = Some None"
  shows "getOwnProperty k st a False n = Some NoProperty"
proof -
  obtain qs where qs: "abs_items (k_env k) (os_structs st) (m_structure x) = Some qs"
    using f by (auto simp: shape_find_def)
  with f have "obj_lookup k st a (key_of (e_heap (k_env k)) n) = None"
    using x by (auto simp: shape_find_def obj_lookup_def)
  with getOwnProperty_ok [OF ok x n, of False] show ?thesis by auto
qed

lemma walk_to_last:
  assumes ok: "state_ok k st" and n: "name_ok (e_atoms (k_env k)) n"
  shows "ic_walk st c (Some a) = Some ws \<Longrightarrow> length ss \<le> length ws \<Longrightarrow> map snd (take (length ss) ws) = ss \<Longrightarrow>
    ss \<noteq> [] \<Longrightarrow>
    (\<forall>s \<in> set (butlast ss). shape_find (k_env k) (os_structs st) s (key_of (e_heap (k_env k)) n) = Some None) \<Longrightarrow>
    \<exists>x. os_objs st (fst (ws ! (length ss - 1))) = Some x \<and> m_structure x = last ss \<and>
      object_get k st a False n = object_get k st (fst (ws ! (length ss - 1))) False n"
proof (induction ss arbitrary: c a ws)
  case Nil
  then show ?case by simp
next
  case (Cons s ss)
  then obtain w ws' where w: "ws = w # ws'" by (cases ws) auto
  then obtain c' x where c: "c = Suc c'" and x: "os_objs st a = Some x" "w = (a, m_structure x)"
    and rest: "ic_walk st c' (m_prototype x) = Some ws'"
    using Cons.prems(1) by (cases c) (auto split: option.splits)
  have s: "m_structure x = s" using Cons.prems(3) w x by simp
  show ?case
  proof (cases "ss = []")
    case True
    with x s w show ?thesis by simp
  next
    case False
    then have "ws' \<noteq> []" using Cons.prems(2) w by (cases ss) auto
    with rest obtain p where p: "m_prototype x = Some p" by (cases c'; cases "m_prototype x") auto
    have none: "shape_find (k_env k) (os_structs st) s (key_of (e_heap (k_env k)) n) = Some None"
      using Cons.prems(5) False by simp
    have get: "object_get k st a False n = object_get k st p False n"
      using own_absent [OF ok x(1) n] none s x(1) p by (subst object_get.simps) simp
    have "\<exists>y. os_objs st (fst (ws' ! (length ss - 1))) = Some y \<and> m_structure y = last ss \<and>
        object_get k st p False n = object_get k st (fst (ws' ! (length ss - 1))) False n"
    proof (rule Cons.IH)
      show "ic_walk st c' (Some p) = Some ws'" using rest p by simp
      show "\<forall>s\<in>set (butlast ss). shape_find (k_env k) (os_structs st) s (key_of (e_heap (k_env k)) n) = Some None"
        using Cons.prems(5) False by simp
    qed (use Cons.prems w False in auto)
    with get w False show ?thesis by (cases ss) auto
  qed
qed

text \<open>Reading the slot of a property that is known to be there.\<close>

lemma own_read:
  assumes ok: "state_ok k st" and x: "os_objs st b = Some x" and n: "name_ok (e_atoms (k_env k)) n"
    and form: "same_form k st b n" and f: "shape_find (k_env k) (os_structs st) (m_structure x) (key_of (e_heap (k_env k)) n) = Some (Some (i, d))"
  shows "ic_outcome k st rcv a n (if desc_isPlainDataProperty d then SlotOf b i else NonPlainOf b i) =
     map_option (gr_value k st rcv) (object_get k st b False n)"
proof -
  let ?e = "k_env k"
  obtain qs where qs: "abs_items ?e (os_structs st) (m_structure x) = Some qs" "slots_ok qs (m_values x)"
    using obj_okE [OF state_okD(2) [OF ok x]] .
  have i: "spec_find qs (key_of (e_heap ?e) n) = Some i" "d = snd (qs ! i)"
    using f qs(1) by (auto simp: shape_find_def)
  have il: "i < length qs" "i < length (m_values x)" "desc_isDataProperty d = (\<not> is_gs (m_values x ! i))"
    using spec_find_Some [OF i(1)] qs(2) i(2) by (auto simp: slots_ok_def)
  obtain item where item: "readProperty (os_structs st) (m_structure x) i = Some item" "m_descriptor item = d"
    using read_index [OF qs(1) il(1)] i(2) by metis
  obtain sx where sx: "h_structs (os_structs st) (m_structure x) = Some sx" using abs_itemsE [OF qs(1)] .
  have native: "desc_isNativeAccessorProperty d \<Longrightarrow> desc_isDataProperty d \<and> \<not> desc_isPlainDataProperty d"
    "desc_isPlainDataProperty d \<Longrightarrow> desc_isDataProperty d"
    by (simp_all add: desc_isNativeAccessorProperty_def desc_isDataProperty_def desc_isPlainDataProperty_def)
  have own: "getOwnProperty k st b False n = read_own k b item (m_values x ! i)"
    using x sx find_own [OF ok x n qs(1) disjI2 [OF form]] i(1) item(1) il(2) by (simp add: getOwnProperty_def)
  show ?thesis
  proof (cases "desc_isDataProperty d")
    case True
    show ?thesis
    proof (cases "desc_isNativeAccessorProperty d")
      case nat: True
      then show ?thesis
        using True native own x item il by (subst object_get.simps)
          (simp add: read_own_def Let_def getOwnNonPlainDataPropertyUtilForObject_def)
    next
      case False
      then show ?thesis
        using True native_or_plain own x item il by (subst object_get.simps) (simp add: read_own_def Let_def)
    qed
  next
    case False
    then obtain g s where v: "m_values x ! i = VGetterSetter g s" using il(3) by (cases "m_values x ! i") auto
    with False native own x item il show ?thesis
      by (subst object_get.simps)
        (auto simp: read_own_def Let_def getOwnNonPlainDataPropertyUtilForObject_def split: option.splits)
  qed
qed

lemma item_read:
  assumes ok: "state_ok k st" and n: "name_ok (e_atoms (k_env k)) n" and form: "\<forall>b. same_form k st b n"
    and w: "ic_walk st c (Some a) = Some ws" "get_item_matches ws i"
    and i: "get_item_ok (k_env k) (os_structs st) (key_of (e_heap (k_env k)) n) i"
    and stale: "unat (gi_index i) = inlineCacheCachedIndexMax \<Longrightarrow>
       \<forall>x. os_objs st (fst (ws ! (length (gi_chain i) - 1))) = Some x \<longrightarrow> m_prototype x = None"
  shows "ic_outcome k st rcv a n (get_item_result ws i) = ic_outcome k st rcv a n GeneralGet"
proof -
  let ?e = "k_env k" and ?key = "key_of (e_heap (k_env k)) n" and ?ss = "gi_chain i"
  let ?b = "fst (ws ! (length ?ss - 1))"
  obtain t where c: "chain_says ?e (os_structs st) ?key ?ss t"
    using i by (auto simp: get_item_ok_def split: if_splits)
  obtain x where x: "os_objs st ?b = Some x" "m_structure x = last ?ss"
    "object_get k st a False n = object_get k st ?b False n"
    using walk_to_last [OF ok n w(1), of ?ss] w(2) c by (auto simp: get_item_matches_def chain_says_def)
  show ?thesis
  proof (cases "unat (gi_index i) = inlineCacheCachedIndexMax")
    case True
    then have "shape_find ?e (os_structs st) (m_structure x) ?key = Some None"
      using i x(2) by (simp add: get_item_ok_def chain_says_def)
    from own_absent [OF ok x(1) n this] stale [OF True] x have "object_get k st ?b False n = Some NoProperty"
      by (subst object_get.simps) simp
    with True x(3) show ?thesis by (simp add: get_item_result_def)
  next
    case False
    then obtain d where d: "shape_find ?e (os_structs st) (m_structure x) ?key = Some (Some (unat (gi_index i), d))"
      "gi_isPlain i = desc_isPlainDataProperty d"
      using i x(2) by (auto simp: get_item_ok_def chain_says_def)
    from own_read [OF ok x(1) n form [rule_format] d(1), of rcv a] False x(3) d(2) show ?thesis
      by (auto simp: get_item_result_def Let_def)
  qed
qed

section \<open>Hits\<close>

lemma ic_walk_total:
  "grounded st a \<Longrightarrow> \<exists>ws. ic_walk st c (Some a) = Some ws \<and> length ws \<le> c"
proof (induction arbitrary: c rule: grounded.induct)
  case (grounded_end a x)
  then show ?case by (cases c; cases "c - 1") auto
next
  case (grounded_step a x p)
  show ?case
  proof (cases c)
    case (Suc c')
    from grounded_step.IH [of c'] obtain ws where "ic_walk st c' (Some p) = Some ws" "length ws \<le> c'" by blast
    with Suc grounded_step show ?thesis by auto
  qed simp
qed

lemma ic_collect_total:
  assumes "grounded st a" "m < inlineCacheProtoTraverseMaxCount"
  shows "\<exists>ws. ic_collect st m a = Some ws"
  using ic_walk_total [OF assms(1), of "Suc m"] assms(2) by (auto simp: ic_collect_def simp del: ic_walk.simps)

text \<open>A hit is a hit of some entry on the chain walked.\<close>

lemma get_hit_item:
  assumes "get_hit st code a = Some (Some r)"
  obtains c ws i where "ic_walk st c (Some a) = Some ws" "i \<in> set (cache_items (g_cache code))"
    "get_item_matches ws i" "r = get_item_result ws i"
proof (cases "g_cache code")
  case CacheNone
  with assms show ?thesis by (auto simp: get_hit_def split: option.splits)
next
  case (CacheSimple es)
  with assms obtain x s j where x: "os_objs st a = Some x" and e: "(s, j) \<in> set es" "s = m_structure x"
    "r = SlotOf a (unat j)"
    by (auto simp: get_hit_def find_Some_iff split: option.splits) (metis nth_mem)
  let ?i = "\<lparr>gi_chain = [s], gi_isPlain = True, gi_index = ucast j\<rparr>"
  have small: "unat j < 256" using unsigned_less [of j] by simp
  then have u: "unat (ucast j :: u16) = unat j" by (simp add: unsigned_ucast_eq take_bit_nat_eq_self)
  from small have "r = get_item_result [(a, s)] ?i" using e(3) by (simp add: get_item_result_def u)
  moreover have "ic_walk st (Suc 0) (Some a) = Some [(a, s)]" using x e(2) by simp
  moreover have "get_item_matches [(a, s)] ?i" by (simp add: get_item_matches_def)
  moreover have "?i \<in> set (cache_items (g_cache code))" using e(1) CacheSimple by (force simp: simple_to_complex_def)
  ultimately show ?thesis using that by blast
next
  case (CacheComplex its)
  with assms obtain ws i where w: "ic_collect st (unat (g_maxIndex code)) a = Some ws" "i \<in> set its"
    "get_item_matches ws i" "r = get_item_result ws i"
    by (auto simp: get_hit_def find_Some_iff split: option.splits) (metis nth_mem)
  with that [of "Suc (unat (g_maxIndex code))" ws i] CacheComplex show ?thesis
    by (auto simp: ic_collect_def simp del: ic_walk.simps split: option.splits if_splits)
qed

text \<open>
  C3. A hit in the read cache of an instruction. For every object of a good heap with a finite
  prototype chain and every cache whose entries are valid (they stay valid while the program
  runs, whatever happens to the objects), where objects that search by hash have the property
  stored in the form of the name the instruction reads: looking at the cache stays within the two arrays of
  twelve entries on the stack and meets no null pointer, and when an entry with a slot matches,
  reading that slot of that object on the chain, or calling the getter behind it, gives the
  outcome of the general lookup \<^verbatim>\<open>get(...).value(receiver)\<close>.
\<close>

theorem get_hit_equals_general_get:
  assumes ok: "state_ok k st" and g: "grounded st a" and code: "get_code_ok (k_env k) (os_structs st) code"
    and form: "\<forall>b. same_form k st b (g_name code)"
  shows "\<exists>h. get_hit st code a = Some h \<and>
     (\<forall>r. h = Some r \<longrightarrow> r \<noteq> UndefinedRead \<longrightarrow>
        ic_outcome k st rcv a (g_name code) r = ic_outcome k st rcv a (g_name code) GeneralGet)"
proof -
  have n: "name_ok (e_atoms (k_env k)) (g_name code)" using code by (simp add: get_code_ok_def)
  obtain x where x: "os_objs st a = Some x" using g by (auto elim: grounded.cases)
  obtain ws where "ic_collect st (unat (g_maxIndex code)) a = Some ws"
    using ic_collect_total [OF g] code by (auto simp: get_code_ok_def)
  then obtain h where h: "get_hit st code a = Some h" using x by (cases "g_cache code") (auto simp: get_hit_def)
  have "ic_outcome k st rcv a (g_name code) r = ic_outcome k st rcv a (g_name code) GeneralGet"
    if r: "h = Some r" "r \<noteq> UndefinedRead" for r
  proof -
    obtain c ws i where w: "ic_walk st c (Some a) = Some ws" "i \<in> set (cache_items (g_cache code))"
      "get_item_matches ws i" "r = get_item_result ws i"
      using get_hit_item h r(1) by metis
    have idx: "unat (gi_index i) \<noteq> inlineCacheCachedIndexMax"
      using r(2) w(4) by (auto simp: get_item_result_def)
    have i: "get_item_ok (k_env k) (os_structs st) (key_of (e_heap (k_env k)) (g_name code)) i"
      using code w(2) by (simp add: get_code_ok_def)
    from item_read [OF ok n form w(1,3) i, of rcv] idx w(4) show ?thesis by simp
  qed
  with h show ?thesis by blast
qed

text \<open>An object with one property, \<open>a\<close>, in a state of its own.\<close>

definition one_state :: obj_state where
  "one_state = \<lparr>os_structs = one_heap, os_objs = [0 \<mapsto> small_object\<lparr>m_structure := 1, m_values := [VNull]\<rparr>]\<rparr>"

definition one_code :: get_code where
  "one_code = \<lparr>g_name = 17, g_cache = CacheSimple [(1, 0)], g_maxIndex = 0, g_missCount = 5\<rparr>"

lemma one_state_ok: "state_ok small_k one_state" "grounded one_state 0"
proof -
  show "state_ok small_k one_state"
    using one_heap_items
    by (auto simp: state_ok_def small_k_def one_state_def obj_ok_def slots_ok_def small_object_def
        small_env_def data_descriptor_reads split: if_splits)
  show "grounded one_state 0"
    by (rule grounded_end) (auto simp: one_state_def small_object_def)
qed

lemma one_heap_map: "h_structs one_heap s \<noteq> Some (WithMap f v m)"
  by (auto simp: one_heap_def addProperty_def small_heap_def add_with_transition_def find_transition_def small_env_def
        flag_index_def small_atoms_def name_isIndexString_def hasAtomicString_def asAtomicString_def
        isIndexString_def charAt_def make_flags_def new_struct_def str_chars_def Let_def set_struct_def split: if_splits)

lemma one_state_form: "\<forall>b. same_form small_k one_state b n"
  by (simp add: same_form_def one_state_def one_heap_map)

lemma one_code_ok: "get_code_ok (k_env small_k) (os_structs one_state) one_code"
proof -
  have "pinned one_heap 1" using one_heap_add(2) by (auto simp: pinned_def in_transition_def split: option.splits)
  then show ?thesis
    using small_name one_heap_items
    by (auto simp: get_code_ok_def one_code_def small_k_def one_state_def simple_to_complex_def get_item_ok_def
        chain_says_def shape_find_def spec_find_def find_index_def data_descriptor_reads)
qed

theorem get_hit_equals_general_get_witness:
  "get_hit one_state one_code 0 = Some (Some (SlotOf 0 0)) \<and>
   ic_outcome small_k one_state (VObject 0) 0 17 GeneralGet = Some (one_state, Inr VNull)"
proof -
  have h: "get_hit one_state one_code 0 = Some (Some (SlotOf 0 0))"
    by (simp add: get_hit_def one_state_def one_code_def)
  with get_hit_equals_general_get [OF one_state_ok one_code_ok one_state_form, of "VObject 0"]
  have "ic_outcome small_k one_state (VObject 0) 0 17 (SlotOf 0 0) = ic_outcome small_k one_state (VObject 0) 0 17 GeneralGet"
    by (simp add: one_code_def del: ic_outcome.simps)
  with h show ?thesis by (simp add: one_state_def)
qed

section \<open>Misses\<close>

lemma mark_state:
  assumes ok: "state_ok k st" and x: "os_objs st a = Some x"
  shows "\<exists>hp. markReferencedByInlineCache (os_structs st) (m_structure x) = Some hp \<and>
     state_ok k (st\<lparr>os_structs := hp\<rparr>) \<and> pinned hp (m_structure x) \<and>
     (\<forall>s. abs_items (k_env k) hp s = abs_items (k_env k) (os_structs st) s) \<and>
     (\<forall>s. pinned (os_structs st) s \<longrightarrow> pinned hp s) \<and>
     (\<forall>b n. same_form k st b n \<longrightarrow> same_form k (st\<lparr>os_structs := hp\<rparr>) b n)"
proof -
  obtain qs where qs: "abs_items (k_env k) (os_structs st) (m_structure x) = Some qs"
    using obj_okE [OF state_okD(2) [OF ok x]] .
  obtain sx where sx: "h_structs (os_structs st) (m_structure x) = Some sx" using abs_itemsE [OF qs] .
  from markReferencedByInlineCache_ok [OF state_okD(1) [OF ok] this] obtain hp where
    m: "markReferencedByInlineCache (os_structs st) (m_structure x) = Some hp" "heap_ok (k_env k) hp"
    "pinned hp (m_structure x)" and p: "\<forall>t. properties hp t = properties (os_structs st) t"
    "\<forall>t. pinned (os_structs st) t \<longrightarrow> pinned hp t" "\<forall>t. in_transition hp t = in_transition (os_structs st) t"
    by blast
  have items: "abs_items (k_env k) hp s = abs_items (k_env k) (os_structs st) s" for s
    using p(1) by (simp add: abs_items_def)
  have "state_ok k (st\<lparr>os_structs := hp\<rparr>)"
    using ok m(2) items p(2,3) by (auto simp: state_ok_def obj_ok_def)
  moreover have "same_form k (st\<lparr>os_structs := hp\<rparr>) b n" if "same_form k st b n" for b n
  proof -
    have "\<exists>f'. h_structs (os_structs st) t = Some (WithMap f' v l)" if "h_structs hp t = Some (WithMap f v l)" for t f v l
      using that m(1) sx by (cases sx) (auto simp: markReferencedByInlineCache_def set_struct_def split: if_splits)
    with \<open>same_form k st b n\<close> p(1) show ?thesis unfolding same_form_def by simp blast
  qed
  ultimately show ?thesis using m items p by blast
qed

text \<open>What the search along the chain establishes; \<open>ss\<close> are the structures it adds to the chain.\<close>

definition search_ok ::
    "oenv \<Rightarrow> obj_state \<Rightarrow> nat \<Rightarrow> pname \<Rightarrow> nat list \<Rightarrow> get_search \<Rightarrow> bool" where
  "search_ok k st a n chain r =
     (case r of
        GiveUp \<Rightarrow> True
      | FoundNone cs \<Rightarrow> \<exists>ss. cs = chain @ ss \<and>
          chain_says (k_env k) (os_structs st) (key_of (e_heap (k_env k)) n) ss None \<and>
          object_get k st a False n = Some NoProperty
      | FoundAt cs b i plain \<Rightarrow> i \<le> inlineCacheCachedIndexMax \<and> (\<exists>ss d. cs = chain @ ss \<and>
          chain_says (k_env k) (os_structs st) (key_of (e_heap (k_env k)) n) ss (Some (i, d)) \<and>
          plain = desc_isPlainDataProperty d \<and>
          (\<exists>x. os_objs st b = Some x \<and> m_structure x = last ss) \<and>
          object_get k st a False n = object_get k st b False n))"

lemma chain_says_Cons:
  "chain_says e hp key ss t \<Longrightarrow> pinned hp s \<Longrightarrow> shape_find e hp s key = Some None \<Longrightarrow> chain_says e hp key (s # ss) t"
  by (auto simp: chain_says_def)

lemma search_step:
  assumes ok: "state_ok k st" and x: "os_objs st a = Some x" and n: "name_ok (e_atoms (k_env k)) n"
    and f: "shape_find (k_env k) (os_structs st) (m_structure x) (key_of (e_heap (k_env k)) n) = Some None"
    and pin: "pinned (os_structs st) (m_structure x)" and p: "m_prototype x = Some q"
    and r: "search_ok k st q n (chain @ [m_structure x]) r"
  shows "search_ok k st a n chain r"
proof -
  have get: "object_get k st a False n = object_get k st q False n"
    using own_absent [OF ok x n f] x p by (subst object_get.simps) simp
  show ?thesis
  proof (cases r)
    case (FoundAt cs b i plain)
    with r obtain ss d where ss: "cs = (chain @ [m_structure x]) @ ss"
      "chain_says (k_env k) (os_structs st) (key_of (e_heap (k_env k)) n) ss (Some (i, d))"
      "plain = desc_isPlainDataProperty d" "\<exists>x. os_objs st b = Some x \<and> m_structure x = last ss"
      "object_get k st q False n = object_get k st b False n" "i \<le> inlineCacheCachedIndexMax"
      by (auto simp: search_ok_def)
    moreover have "last (m_structure x # ss) = last ss" using ss(2) by (simp add: chain_says_def)
    ultimately show ?thesis
      using FoundAt get chain_says_Cons [OF ss(2) pin f]
      by (auto simp: search_ok_def intro!: exI [of _ "m_structure x # ss"] exI [of _ d])
  next
    case (FoundNone cs)
    with r obtain ss where ss: "cs = (chain @ [m_structure x]) @ ss"
      "chain_says (k_env k) (os_structs st) (key_of (e_heap (k_env k)) n) ss None"
      "object_get k st q False n = Some NoProperty" by (auto simp: search_ok_def)
    with FoundNone get chain_says_Cons [OF ss(2) pin f] show ?thesis
      by (auto simp: search_ok_def intro!: exI [of _ "m_structure x # ss"])
  qed (simp add: search_ok_def)
qed

lemma get_search_ok:
  assumes g: "grounded st a" and n: "name_ok (e_atoms (k_env k)) n"
  shows "state_ok k st1 \<Longrightarrow> os_objs st1 = os_objs st \<Longrightarrow> \<forall>b. same_form k st1 b n \<Longrightarrow>
    \<exists>st2 r. get_search_chain k st1 a n chain = Some (st2, r) \<and> os_objs st2 = os_objs st \<and> state_ok k st2 \<and>
      (\<forall>s. abs_items (k_env k) (os_structs st2) s = abs_items (k_env k) (os_structs st1) s) \<and>
      (\<forall>s. pinned (os_structs st1) s \<longrightarrow> pinned (os_structs st2) s) \<and> (\<forall>b. same_form k st2 b n) \<and>
      search_ok k st2 a n chain r"
  using g
proof (induction arbitrary: st1 chain rule: grounded.induct)
  case (grounded_end a x)
  have x: "os_objs st1 a = Some x" using grounded_end by simp
  let ?key = "key_of (e_heap (k_env k)) n" and ?s = "m_structure x"
  obtain hp where m: "markReferencedByInlineCache (os_structs st1) ?s = Some hp"
    and ok2: "state_ok k (st1\<lparr>os_structs := hp\<rparr>)" and pin: "pinned hp ?s"
    and keep: "\<forall>s. abs_items (k_env k) hp s = abs_items (k_env k) (os_structs st1) s"
      "\<forall>s. pinned (os_structs st1) s \<longrightarrow> pinned hp s"
    and form: "\<forall>b. same_form k (st1\<lparr>os_structs := hp\<rparr>) b n"
    using mark_state [OF grounded_end(3) x] grounded_end(5) by blast
  let ?st = "st1\<lparr>os_structs := hp\<rparr>"
  have x2: "os_objs ?st a = Some x" using x by simp
  obtain qs where qs: "abs_items (k_env k) hp ?s = Some qs"
    using obj_okE [OF state_okD(2) [OF ok2 x2]] by auto
  have F: "findProperty (k_env k) hp ?s n = Some (spec_find qs ?key)" using find_own [OF ok2 x2 n] qs form by simp
  have sf: "shape_find (k_env k) hp ?s ?key = Some (map_option (\<lambda>i. (i, snd (qs ! i))) (spec_find qs ?key))"
    using qs by (simp add: shape_find_def)
  show ?case
  proof (cases "spec_find qs ?key")
    case None
    have "object_get k ?st a False n = Some NoProperty"
      using own_absent [OF ok2 x2 n] sf None x2 grounded_end(2) by (subst object_get.simps) simp
    then have "search_ok k ?st a n chain (FoundNone (chain @ [?s]))"
      using sf None pin by (auto simp: search_ok_def chain_says_def)
    with None F m x grounded_end keep ok2 form show ?thesis by (subst get_search_chain.simps) auto
  next
    case (Some i)
    have il: "i < length qs" using spec_find_Some [OF Some] by simp
    obtain item where item: "readProperty hp ?s i = Some item" "m_descriptor item = snd (qs ! i)"
      using read_index [OF qs il] .
    have "search_ok k ?st a n chain (FoundAt (chain @ [?s]) a i (desc_isPlainDataProperty (snd (qs ! i))))"
      if "i \<le> inlineCacheCachedIndexMax"
      using that sf Some pin x2 by (auto simp: search_ok_def chain_says_def intro!: exI [of _ "[?s]"])
    with Some F m x grounded_end keep ok2 form item show ?thesis
      by (subst get_search_chain.simps) (auto simp: search_ok_def)
  qed
next
  case (grounded_step a x p)
  have x: "os_objs st1 a = Some x" using grounded_step by simp
  let ?key = "key_of (e_heap (k_env k)) n" and ?s = "m_structure x"
  obtain hp where m: "markReferencedByInlineCache (os_structs st1) ?s = Some hp"
    and ok2: "state_ok k (st1\<lparr>os_structs := hp\<rparr>)" and pin: "pinned hp ?s"
    and keep: "\<forall>s. abs_items (k_env k) hp s = abs_items (k_env k) (os_structs st1) s"
      "\<forall>s. pinned (os_structs st1) s \<longrightarrow> pinned hp s"
    and form: "\<forall>b. same_form k (st1\<lparr>os_structs := hp\<rparr>) b n"
    using mark_state [OF grounded_step(5) x] grounded_step(7) by blast
  let ?st = "st1\<lparr>os_structs := hp\<rparr>"
  have x2: "os_objs ?st a = Some x" using x by simp
  obtain qs where qs: "abs_items (k_env k) hp ?s = Some qs"
    using obj_okE [OF state_okD(2) [OF ok2 x2]] by auto
  have F: "findProperty (k_env k) hp ?s n = Some (spec_find qs ?key)" using find_own [OF ok2 x2 n] qs form by simp
  have sf: "shape_find (k_env k) hp ?s ?key = Some (map_option (\<lambda>i. (i, snd (qs ! i))) (spec_find qs ?key))"
    using qs by (simp add: shape_find_def)
  show ?case
  proof (cases "spec_find qs ?key")
    case None
    obtain y where y: "os_objs st1 p = Some y" using grounded_step by (auto elim: grounded.cases)
    show ?thesis
    proof (cases "m_isInlineCacheable y")
      case False
      with None F m x y grounded_step keep ok2 form show ?thesis
        by (subst get_search_chain.simps) (auto simp: search_ok_def)
    next
      case True
      from grounded_step.IH [OF ok2, of "chain @ [?s]"] grounded_step(6) obtain st2 r where
        I: "get_search_chain k ?st p n (chain @ [?s]) = Some (st2, r)" "os_objs st2 = os_objs st" "state_ok k st2"
        "\<forall>s. abs_items (k_env k) (os_structs st2) s = abs_items (k_env k) hp s"
        "\<forall>s. pinned hp s \<longrightarrow> pinned (os_structs st2) s" "search_ok k st2 p n (chain @ [?s]) r"
        "\<forall>b. same_form k st2 b n"
        using form by auto
      have x3: "os_objs st2 a = Some x" using I(2) grounded_step by simp
      have "shape_find (k_env k) (os_structs st2) ?s ?key = Some None"
        using sf None I(4) by (simp add: shape_find_def)
      from search_step [OF I(3) x3 n this _ grounded_step(2) I(6)] I(5) pin
      have "search_ok k st2 a n chain r" by blast
      with None True F m x y grounded_step keep I show ?thesis by (subst get_search_chain.simps) auto
    qed
  next
    case (Some i)
    have il: "i < length qs" using spec_find_Some [OF Some] by simp
    obtain item where item: "readProperty hp ?s i = Some item" "m_descriptor item = snd (qs ! i)"
      using read_index [OF qs il] .
    have "search_ok k ?st a n chain (FoundAt (chain @ [?s]) a i (desc_isPlainDataProperty (snd (qs ! i))))"
      if "i \<le> inlineCacheCachedIndexMax"
      using that sf Some pin x2 by (auto simp: search_ok_def chain_says_def intro!: exI [of _ "[?s]"])
    with Some F m x grounded_step keep ok2 form item show ?thesis
      by (subst get_search_chain.simps) (auto simp: search_ok_def)
  qed
qed

lemma get_hit_total:
  assumes g: "grounded st a" and code: "get_code_ok e hp code"
  shows "\<exists>h. get_hit st code a = Some h"
proof -
  obtain x where x: "os_objs st a = Some x" using g by (auto elim: grounded.cases)
  obtain ws where "ic_collect st (unat (g_maxIndex code)) a = Some ws"
    using ic_collect_total [OF g] code by (auto simp: get_code_ok_def)
  with x show ?thesis by (cases "g_cache code") (auto simp: get_hit_def)
qed

lemma max_index_bound:
  assumes "unat (m :: u8) < 12" "length cs \<le> 12" "cs \<noteq> []"
  shows "unat (max (of_nat (length cs - 1)) m) < 12"
proof -
  have "unat (of_nat (length cs - 1) :: u8) \<le> length cs - 1"
    by (simp add: unsigned_of_nat take_bit_nat_eq_self)
  with assms show ?thesis by (cases cs) (auto simp: max_def)
qed

lemma set_simple_insert: "set (simple_insert es x) \<subseteq> insert x (set es)"
  by (auto simp: simple_insert_def dest: in_set_takeD)

lemma set_complex_insert: "set (complex_insert es x) \<subseteq> insert x (set es)"
  by (auto simp: complex_insert_def dest: in_set_takeD)

lemma of_nat_index: "i \<le> 65535 \<Longrightarrow> unat (of_nat i :: u16) = i"
  by (simp add: unsigned_of_nat take_bit_nat_eq_self)

lemma of_nat_index8: "i \<le> 255 \<Longrightarrow> unat (ucast (of_nat i :: u8) :: u16) = i"
  by (simp add: unsigned_ucast_eq unsigned_of_nat take_bit_nat_eq_self)

lemma cache_to_complex:
  "(case c of CacheNone \<Rightarrow> [] | CacheSimple es \<Rightarrow> simple_to_complex es | CacheComplex its \<Rightarrow> its) = cache_items c"
  by (cases c) auto

text \<open>Filling the complex cache.\<close>

lemma fill_complex_ok:
  assumes "get_code_ok e hp code" "get_item_ok e hp (key_of (e_heap e) (g_name code)) i"
    "gi_chain i = cs" "length cs \<le> 12" "cs \<noteq> []"
  shows "get_code_ok e hp (code\<lparr>g_cache := CacheComplex (complex_insert (cache_items (g_cache code)) i),
    g_maxIndex := max (of_nat (length cs - 1)) (g_maxIndex code)\<rparr>)"
  using assms set_complex_insert [of "cache_items (g_cache code)" i] max_index_bound [of "g_maxIndex code" cs]
  by (auto simp: get_code_ok_def)

lemma fill_simple_ok:
  assumes "get_code_ok e hp code" "chain_says e hp (key_of (e_heap e) (g_name code)) [s] (Some (i, d))"
    "desc_isPlainDataProperty d" "i \<le> 255" "case g_cache code of CacheComplex _ \<Rightarrow> False | _ \<Rightarrow> True"
  shows "get_code_ok e hp (code\<lparr>g_cache := CacheSimple (simple_insert
     (case g_cache code of CacheSimple es \<Rightarrow> es | _ \<Rightarrow> []) (s, of_nat i))\<rparr>)"
proof -
  let ?es = "case g_cache code of CacheSimple es \<Rightarrow> es | _ \<Rightarrow> []"
  have items: "cache_items (g_cache code) = simple_to_complex ?es"
    using assms(5) by (cases "g_cache code") (auto simp: simple_to_complex_def)
  have new: "get_item_ok e hp (key_of (e_heap e) (g_name code))
      \<lparr>gi_chain = [s], gi_isPlain = True, gi_index = ucast (of_nat i :: u8)\<rparr>"
    using assms(2-4) by (auto simp: get_item_ok_def of_nat_index8 simp del: of_nat_eq_iff)
  have "set (simple_to_complex (simple_insert ?es (s, of_nat i))) \<subseteq>
      insert \<lparr>gi_chain = [s], gi_isPlain = True, gi_index = ucast (of_nat i :: u8)\<rparr> (set (simple_to_complex ?es))"
    using set_simple_insert [of ?es "(s, of_nat i)"] by (auto simp: simple_to_complex_def)
  with new assms(1) items show ?thesis by (auto simp: get_code_ok_def)
qed

text \<open>Every outcome of the search is entered as a valid entry, and the value delivered is right.\<close>

lemma get_fill_ok:
  assumes ok: "state_ok k st" and form: "\<forall>b. same_form k st b (g_name code)" and code: "get_code_ok (k_env k) (os_structs st) code"
    and r: "search_ok k st a (g_name code) [] r"
    and small: "\<And>cs b i p. r = FoundAt cs b i p \<Longrightarrow> i < 65535"
    and fill: "get_fill code r = (code', res)"
  shows "get_code_ok (k_env k) (os_structs st) code' \<and> g_name code' = g_name code \<and>
    ic_outcome k st rcv a (g_name code) res = ic_outcome k st rcv a (g_name code) GeneralGet"
proof -
  let ?key = "key_of (e_heap (k_env k)) (g_name code)" and ?e = "k_env k" and ?hp = "os_structs st"
  have gu: "get_code_ok ?e ?hp (give_up code)" using code by (simp add: get_code_ok_def give_up_def)
  have n: "name_ok (e_atoms ?e) (g_name code)" using code by (simp add: get_code_ok_def)
  show ?thesis
  proof (cases r)
    case GiveUp
    with fill gu show ?thesis by (auto simp: get_fill_def give_up_def)
  next
    case (FoundNone cs)
    have cs: "chain_says ?e ?hp ?key cs None" "object_get k st a False (g_name code) = Some NoProperty" "cs \<noteq> []"
      using r FoundNone by (auto simp: search_ok_def chain_says_def)
    have "get_item_ok ?e ?hp ?key \<lparr>gi_chain = cs, gi_isPlain = False, gi_index = of_nat inlineCacheCachedIndexMax\<rparr>"
      using cs by (simp add: get_item_ok_def)
    from fill_complex_ok [OF code this _ _ cs(3)] cs gu fill FoundNone show ?thesis
      by (auto simp: get_fill_def cache_to_complex Let_def give_up_def split: if_splits)
  next
    case (FoundAt cs b i p)
    then obtain d x where cs: "chain_says ?e ?hp ?key cs (Some (i, d))" "p = desc_isPlainDataProperty d"
      and x: "os_objs st b = Some x" "m_structure x = last cs"
      and get: "object_get k st a False (g_name code) = object_get k st b False (g_name code)"
      using r by (auto simp: search_ok_def)
    have i: "i < 65535" "cs \<noteq> []" using small [OF FoundAt] cs(1) by (auto simp: chain_says_def)
    have "shape_find ?e ?hp (m_structure x) ?key = Some (Some (i, d))" using cs(1) x(2) by (simp add: chain_says_def)
    from own_read [OF ok x(1) n form [rule_format] this, of rcv a] get
    have read: "ic_outcome k st rcv a (g_name code) (if p then SlotOf b i else NonPlainOf b i) =
        ic_outcome k st rcv a (g_name code) GeneralGet" using cs(2) by simp
    have "get_item_ok ?e ?hp ?key \<lparr>gi_chain = cs, gi_isPlain = p, gi_index = of_nat i\<rparr>"
      using cs i by (auto simp: get_item_ok_def of_nat_index simp del: of_nat_eq_iff)
    note complex = fill_complex_ok [OF code this _ _ i(2)]
    have single: "length cs = 1 \<Longrightarrow> cs = [cs ! 0]" by (cases cs) auto
    show ?thesis
    proof (cases "p \<and> length cs = 1 \<and> i \<le> 255 \<and> (case g_cache code of CacheComplex _ \<Rightarrow> False | _ \<Rightarrow> True)")
      case True
      with fill_simple_ok [OF code, of "cs ! 0" i d] cs single read fill FoundAt show ?thesis
        by (auto simp: get_fill_def)
    next
      case False
      with complex gu i read fill FoundAt show ?thesis
        by (auto simp: get_fill_def cache_to_complex Let_def give_up_def simp del: ic_outcome.simps split: if_splits)
    qed
  qed
qed


definition small_shapes :: "senv \<Rightarrow> structure_heap \<Rightarrow> bool" where
  "small_shapes e hp \<longleftrightarrow> (\<forall>s qs. abs_items e hp s = Some qs \<longrightarrow> length qs \<le> inlineCacheCachedIndexMax)"

lemma search_index_small:
  assumes "search_ok k st a n chain (FoundAt cs b i p)" "small_shapes (k_env k) (os_structs st)"
  shows "i < inlineCacheCachedIndexMax"
proof -
  obtain ss d where "shape_find (k_env k) (os_structs st) (last ss) (key_of (e_heap (k_env k)) n) = Some (Some (i, d))"
    using assms(1) by (auto simp: search_ok_def chain_says_def)
  then obtain qs where qs: "abs_items (k_env k) (os_structs st) (last ss) = Some qs"
    "spec_find qs (key_of (e_heap (k_env k)) n) = Some i" by (auto simp: shape_find_def)
  from spec_find_Some [OF qs(2)] qs(1) assms(2) show ?thesis unfolding small_shapes_def by fastforce
qed

lemma code_miss_ok:
  "get_code_ok e hp code \<Longrightarrow> get_code_ok e hp (code\<lparr>g_missCount := c\<rparr>)"
  by (simp add: get_code_ok_def)

text \<open>
  C4. A miss of the read cache. On a good heap whose hidden classes have at most 65535
  properties and an object with a finite chain, \<^verbatim>\<open>getObjectPrecomputedCaseOperation\<close> ends
  without a null pointer and without a write past its arrays, whatever the cache holds; the
  heap stays good and no property of any object changes; the cache it leaves holds valid entries
  only (with the index of the longest chain below twelve, as a hit needs it); and if the cache was
  missed, where objects that search by hash have the property stored in the form of the name, the value delivered is that of the general lookup, on each of the paths: below the fill
  count, past the miss count, given up, found own, found inherited, absent.
\<close>

theorem getObjectPrecomputedCase_miss_is_general_get:
  assumes ok: "state_ok k st" and g: "grounded st a" and code: "get_code_ok (k_env k) (os_structs st) code"
    and form: "\<forall>b. same_form k st b (g_name code)" and small: "small_shapes (k_env k) (os_structs st)"
  shows "\<exists>st' code' r. getObjectPrecomputedCaseOperation k st code a = Some (st', code', r) \<and>
     state_ok k st' \<and> os_objs st' = os_objs st \<and>
     (\<forall>s. abs_items (k_env k) (os_structs st') s = abs_items (k_env k) (os_structs st) s) \<and>
     get_code_ok (k_env k) (os_structs st') code' \<and> g_name code' = g_name code \<and>
     (get_hit st code a = Some None \<longrightarrow>
        ic_outcome k st' rcv a (g_name code) r = ic_outcome k st' rcv a (g_name code) GeneralGet)"
proof -
  let ?c = "code\<lparr>g_missCount := g_missCount code + 1\<rparr>"
  have n: "name_ok (e_atoms (k_env k)) (g_name code)" using code by (simp add: get_code_ok_def)
  obtain x where x: "os_objs st a = Some x" using g by (auto elim: grounded.cases)
  obtain h where h: "get_hit st code a = Some h" using get_hit_total [OF g code] by blast
  obtain st2 r where s: "get_search_chain k st a (g_name code) [] = Some (st2, r)" "os_objs st2 = os_objs st"
    "state_ok k st2" "search_ok k st2 a (g_name code) [] r" "\<forall>b. same_form k st2 b (g_name code)"
    and keep: "\<forall>s. abs_items (k_env k) (os_structs st2) s = abs_items (k_env k) (os_structs st) s"
      "\<forall>s. pinned (os_structs st) s \<longrightarrow> pinned (os_structs st2) s"
    using get_search_ok [OF g n ok refl form, of "[]"] by auto
  have pk: "pins_kept (k_env k) (os_structs st) (os_structs st2)" using keep by (auto simp: pins_kept_def)
  have c2: "get_code_ok (k_env k) (os_structs st2) ?c"
    using code_miss_ok [OF get_code_ok_kept [OF code pk]] .
  have sm: "small_shapes (k_env k) (os_structs st2)" using small keep(1) by (simp add: small_shapes_def)
  obtain code' res where f: "get_fill ?c r = (code', res)" by (cases "get_fill ?c r") auto
  have lt: "\<And>cs b i p. r = FoundAt cs b i p \<Longrightarrow> i < 65535" using s(4) search_index_small [OF _ sm] by blast
  from get_fill_ok [where a = a and rcv = rcv, OF s(3) _ c2 _ lt f] s(4,5)
  have fok: "get_code_ok (k_env k) (os_structs st2) code'" "g_name code' = g_name code"
    "ic_outcome k st2 rcv a (g_name code) res = ic_outcome k st2 rcv a (g_name code) GeneralGet" by simp_all
  have c1: "get_code_ok (k_env k) (os_structs st) (code\<lparr>g_missCount := c\<rparr>)" for c by (rule code_miss_ok [OF code])
  show ?thesis
  proof (cases h)
    case (Some r')
    with h ok code show ?thesis by (auto simp: getObjectPrecomputedCaseOperation_def)
  next
    case None
    consider (search) "\<not> unat (g_missCount code) > 32" "\<not> unat (g_missCount ?c) \<le> 4" "m_isInlineCacheable x"
        "unat (g_missCount ?c) \<noteq> 32"
      | (past) "unat (g_missCount code) > 32"
      | (general) "\<not> unat (g_missCount code) > 32"
          "unat (g_missCount ?c) \<le> 4 \<or> \<not> m_isInlineCacheable x \<or> unat (g_missCount ?c) = 32"
      by blast
    then show ?thesis
    proof cases
      case search
      then have "getObjectPrecomputedCaseOperation k st code a = Some (st2, code', res)"
        using None h x s(1) f by (simp add: getObjectPrecomputedCaseOperation_def Let_def)
      with s keep(1) fok show ?thesis by blast
    next
      case past
      with None h x ok code show ?thesis by (simp add: getObjectPrecomputedCaseOperation_def)
    next
      case general
      then have "\<exists>c. getObjectPrecomputedCaseOperation k st code a = Some (st, code\<lparr>g_missCount := c\<rparr>, GeneralGet)"
        using None h x
        by (cases "unat (g_missCount ?c) \<le> 4"; cases "m_isInlineCacheable x")
          (simp_all add: getObjectPrecomputedCaseOperation_def Let_def, blast+)
      then obtain c where "getObjectPrecomputedCaseOperation k st code a = Some (st, code\<lparr>g_missCount := c\<rparr>, GeneralGet)" ..
      with ok c1 [of c] show ?thesis by simp
    qed
  qed
qed


lemma one_heap_eq: "h_structs one_heap 0 \<noteq> None" "h_structs one_heap s = Some x \<Longrightarrow> s = 0 \<or> s = 1"
  by (auto simp: one_heap_def addProperty_def small_heap_def add_with_transition_def find_transition_def small_env_def
        flag_index_def small_atoms_def name_isIndexString_def hasAtomicString_def asAtomicString_def
        isIndexString_def charAt_def make_flags_def new_struct_def str_chars_def Let_def set_struct_def split: if_splits)

lemma one_heap_empty: "abs_items small_env one_heap 0 = Some []" "pinned one_heap 0"
proof -
  have "op_ok small_env small_heap 0 (Some (one_heap, 1)) [(KString [0x61], createDataDescriptor 0)]"
    using addProperty_ok [OF small_heap_ok small_name(1) small_items(1), of "createDataDescriptor 0"] small_name(2)
      one_heap_add(1) by (simp add: spec_find_def)
  from op_ok_pins_kept [OF this] small_items show "abs_items small_env one_heap 0 = Some []" "pinned one_heap 0"
    by (auto simp: pins_kept_def)
qed

lemma one_heap_small: "small_shapes (k_env small_k) one_heap"
  unfolding small_shapes_def
proof (intro allI impI)
  fix s qs assume s: "abs_items (k_env small_k) one_heap s = Some qs"
  then obtain x where "h_structs one_heap s = Some x" using abs_itemsE by blast
  then have "s = 0 \<or> s = 1" by (rule one_heap_eq(2))
  with s one_heap_items one_heap_empty show "length qs \<le> inlineCacheCachedIndexMax" by (auto simp: small_k_def)
qed

theorem getObjectPrecomputedCase_miss_is_general_get_witness:
  "\<exists>st' code' r. getObjectPrecomputedCaseOperation small_k one_state (one_code\<lparr>g_cache := CacheNone\<rparr>) 0 = Some (st', code', r) \<and>
     get_code_ok (k_env small_k) (os_structs st') code' \<and>
     ic_outcome small_k st' (VObject 0) 0 17 r = ic_outcome small_k st' (VObject 0) 0 17 GeneralGet"
proof -
  have "get_code_ok (k_env small_k) (os_structs one_state) (one_code\<lparr>g_cache := CacheNone\<rparr>)"
    using one_code_ok by (simp add: get_code_ok_def)
  moreover have "get_hit one_state (one_code\<lparr>g_cache := CacheNone\<rparr>) 0 = Some None"
    by (simp add: get_hit_def one_state_def)
  moreover have "small_shapes (k_env small_k) (os_structs one_state)"
    using one_heap_small by (simp add: one_state_def)
  ultimately show ?thesis
    using getObjectPrecomputedCase_miss_is_general_get [OF one_state_ok _ one_state_form, of "one_code\<lparr>g_cache := CacheNone\<rparr>" "VObject 0"]
    by (auto simp: one_code_def)
qed

section \<open>Defects\<close>

text \<open>Object 0 inherits from 1, which ends its chain; object 2 has the property \<open>a\<close>.\<close>

definition stale_state :: obj_state where
  "stale_state = \<lparr>os_structs = one_heap, os_objs = [0 \<mapsto> small_object\<lparr>m_prototype := Some 1\<rparr>, 1 \<mapsto> small_object,
     2 \<mapsto> small_object\<lparr>m_structure := 1, m_values := [VNull]\<rparr>]\<rparr>"

definition stale_code :: get_code where
  "stale_code = \<lparr>g_name = 17, g_cache = CacheNone, g_maxIndex = 0, g_missCount = 4\<rparr>"

lemma stale_state_ok: "state_ok small_k stale_state"
  using one_heap_items one_heap_empty
  by (auto simp: state_ok_def small_k_def stale_state_def obj_ok_def slots_ok_def small_object_def
        small_env_def data_descriptor_reads split: if_splits)



text \<open>One step of the search over an object without the property.\<close>

lemma search_absent:
  assumes ok: "state_ok k st" and x: "os_objs st a = Some x" and n: "name_ok (e_atoms (k_env k)) n"
    and qs: "abs_items (k_env k) (os_structs st) (m_structure x) = Some qs"
      "spec_find qs (key_of (e_heap (k_env k)) n) = None"
  obtains hp where "state_ok k (st\<lparr>os_structs := hp\<rparr>)"
    "\<forall>s. abs_items (k_env k) hp s = abs_items (k_env k) (os_structs st) s"
    "\<forall>b m. same_form k st b m \<longrightarrow> same_form k (st\<lparr>os_structs := hp\<rparr>) b m"
    "get_search_chain k st a n chain =
       (case m_prototype x of
          None \<Rightarrow> Some (st\<lparr>os_structs := hp\<rparr>, FoundNone (chain @ [m_structure x]))
        | Some p \<Rightarrow>
            (case os_objs st p of None \<Rightarrow> None
             | Some y \<Rightarrow>
                 if \<not> m_isInlineCacheable y then Some (st\<lparr>os_structs := hp\<rparr>, GiveUp)
                 else get_search_chain k (st\<lparr>os_structs := hp\<rparr>) p n (chain @ [m_structure x])))"
proof -
  obtain hp where m: "markReferencedByInlineCache (os_structs st) (m_structure x) = Some hp"
    and ok2: "state_ok k (st\<lparr>os_structs := hp\<rparr>)"
    and keep: "\<forall>s. abs_items (k_env k) hp s = abs_items (k_env k) (os_structs st) s"
    and form: "\<forall>b m. same_form k st b m \<longrightarrow> same_form k (st\<lparr>os_structs := hp\<rparr>) b m"
    using mark_state [OF ok x] by blast
  have x2: "os_objs (st\<lparr>os_structs := hp\<rparr>) a = Some x" using x by simp
  have "findProperty (k_env k) hp (m_structure x) n = Some None"
    using find_own [OF ok2 x2 n] keep qs by simp
  with m x have "get_search_chain k st a n chain =
       (case m_prototype x of
          None \<Rightarrow> Some (st\<lparr>os_structs := hp\<rparr>, FoundNone (chain @ [m_structure x]))
        | Some p \<Rightarrow>
            (case os_objs st p of None \<Rightarrow> None
             | Some y \<Rightarrow>
                 if \<not> m_isInlineCacheable y then Some (st\<lparr>os_structs := hp\<rparr>, GiveUp)
                 else get_search_chain k (st\<lparr>os_structs := hp\<rparr>) p n (chain @ [m_structure x])))"
    by (subst get_search_chain.simps) simp
  with that ok2 keep form show ?thesis by blast
qed

lemma set_prototype_ok:
  assumes ok: "state_ok k st" and x: "os_objs st a = Some x"
  shows "state_ok k (set_obj st a (x\<lparr>m_prototype := q\<rparr>))" (is "state_ok k ?st")
proof -
  have same: "\<exists>y'. os_objs st b = Some y' \<and> m_structure y = m_structure y' \<and> obj_ok (k_env k) (os_structs st) y"
    if "os_objs ?st b = Some y" for b y
    using that x state_okD(2) [OF ok x] state_okD(2) [OF ok, of b] by (auto simp: set_obj_def obj_ok_def split: if_splits)
  have st: "os_structs ?st = os_structs st" by (simp add: set_obj_def)
  have "pinned (os_structs st) (m_structure y)"
    if yz: "os_objs ?st b = Some y" "os_objs ?st c = Some z" "b \<noteq> c" "m_structure y = m_structure z" for b c y z
  proof -
    obtain y' z' where "os_objs st b = Some y'" "os_objs st c = Some z'" "m_structure y = m_structure y'"
      "m_structure z = m_structure z'" using same [OF yz(1)] same [OF yz(2)] by blast
    with yz(3,4) ok show ?thesis unfolding state_ok_def by metis
  qed
  with state_okD(1) [OF ok] same show ?thesis unfolding state_ok_def st by blast
qed

lemma stale_fill:
  obtains hp where "state_ok small_k (stale_state\<lparr>os_structs := hp\<rparr>)"
    "\<forall>b. same_form small_k (stale_state\<lparr>os_structs := hp\<rparr>) b 17"
    "\<forall>s. abs_items small_env hp s = abs_items small_env one_heap s"
    "get_search_chain small_k stale_state 0 17 [] = Some (stale_state\<lparr>os_structs := hp\<rparr>, FoundNone [0, 0])"
proof -
  have n: "name_ok (e_atoms (k_env small_k)) 17" using small_name by (simp add: small_k_def)
  have e: "k_env small_k = small_env" "os_structs stale_state = one_heap" by (simp_all add: small_k_def stale_state_def)
  have x: "os_objs stale_state 0 = Some (small_object\<lparr>m_prototype := Some 1\<rparr>)" "os_objs stale_state 1 = Some small_object"
    by (simp_all add: stale_state_def)
  have s0: "m_structure small_object = 0" by (simp add: small_object_def)
  have form: "same_form small_k stale_state b 17" for b by (simp add: same_form_def stale_state_def one_heap_map)
  obtain hp where hp: "state_ok small_k (stale_state\<lparr>os_structs := hp\<rparr>)"
    "\<forall>s. abs_items small_env hp s = abs_items small_env one_heap s"
    "\<forall>b m. same_form small_k stale_state b m \<longrightarrow> same_form small_k (stale_state\<lparr>os_structs := hp\<rparr>) b m"
    "get_search_chain small_k stale_state 0 17 [] = get_search_chain small_k (stale_state\<lparr>os_structs := hp\<rparr>) 1 17 [0]"
    using search_absent [OF stale_state_ok x(1) n, of "[]" "[]"] one_heap_empty x s0
    by (auto simp: e spec_find_def small_object_def)
  have x1: "os_objs (stale_state\<lparr>os_structs := hp\<rparr>) 1 = Some small_object" using x by simp
  obtain hp' where "state_ok small_k (stale_state\<lparr>os_structs := hp'\<rparr>)"
    "\<forall>s. abs_items small_env hp' s = abs_items small_env hp s"
    "\<forall>b m. same_form small_k (stale_state\<lparr>os_structs := hp\<rparr>) b m \<longrightarrow> same_form small_k (stale_state\<lparr>os_structs := hp'\<rparr>) b m"
    "get_search_chain small_k (stale_state\<lparr>os_structs := hp\<rparr>) 1 17 [0] =
       Some (stale_state\<lparr>os_structs := hp'\<rparr>, FoundNone [0, 0])"
    using search_absent [OF hp(1) x1 n, of "[]" "[0]"] one_heap_empty hp(2) s0
    by (auto simp: e spec_find_def small_object_def)
  with hp form that show ?thesis by auto
qed

text \<open>
  C40. A defect: an entry for an absent property names the structures of the chain only up to its
  last object and says nothing about that object still being the last. Object 0 inherits from
  object 1 and has no property \<open>a\<close>; the read is cached as absent. After
  \<^verbatim>\<open>setPrototype\<close> has put object 2, which has the property \<open>a\<close>, behind object 1, whose structure
  stays the same, the instruction still delivers undefined, while the general lookup finds the
  property.
\<close>

theorem cached_absence_survives_setPrototype:
  "\<exists>st1 code1 st2. getObjectPrecomputedCaseOperation small_k stale_state stale_code 0 = Some (st1, code1, UndefinedRead) \<and>
     setPrototype st1 1 (Some 2) = Some (st2, True) \<and> get_hit st2 code1 0 = Some (Some UndefinedRead) \<and>
     ic_outcome small_k st2 rcv 0 17 UndefinedRead = Some (st2, Inr VUndefined) \<and>
     ic_outcome small_k st2 rcv 0 17 GeneralGet = Some (st2, Inr VNull)"
proof -
  obtain hp where hp: "state_ok small_k (stale_state\<lparr>os_structs := hp\<rparr>)"
    "\<forall>s. abs_items small_env hp s = abs_items small_env one_heap s"
    "get_search_chain small_k stale_state 0 17 [] = Some (stale_state\<lparr>os_structs := hp\<rparr>, FoundNone [0, 0])"
    and form1: "\<forall>b. same_form small_k (stale_state\<lparr>os_structs := hp\<rparr>) b 17"
    using stale_fill .
  let ?st1 = "stale_state\<lparr>os_structs := hp\<rparr>"
  let ?code1 = "\<lparr>g_name = 17, g_cache = CacheComplex [\<lparr>gi_chain = [0, 0], gi_isPlain = False, gi_index = 65535\<rparr>],
    g_maxIndex = 1, g_missCount = 5\<rparr>"
  let ?st2 = "set_obj ?st1 1 (small_object\<lparr>m_prototype := Some 2\<rparr>)"
  have 1: "getObjectPrecomputedCaseOperation small_k stale_state stale_code 0 = Some (?st1, ?code1, UndefinedRead)"
    using hp(3) by (simp add: getObjectPrecomputedCaseOperation_def get_hit_def stale_state_def stale_code_def
        small_object_def get_fill_def complex_insert_def Let_def)
  have 2: "setPrototype ?st1 1 (Some 2) = Some (?st2, True)"
    by (simp add: setPrototype_def stale_state_def small_object_def proto_reaches.simps)
  have 3: "get_hit ?st2 ?code1 0 = Some (Some UndefinedRead)"
    by (simp add: get_hit_def ic_collect_def stale_state_def set_obj_def small_object_def get_item_matches_def
        get_item_result_def)
  have n: "name_ok (e_atoms (k_env small_k)) 17" "key_of (e_heap (k_env small_k)) 17 = KString [97]"
    using small_name by (simp_all add: small_k_def)
  have ok2: "state_ok small_k ?st2"
    by (rule set_prototype_ok [OF hp(1)]) (simp add: stale_state_def)
  have sh: "shape_find (k_env small_k) (os_structs ?st2) 0 (KString [97]) = Some None"
    "shape_find (k_env small_k) (os_structs ?st2) 1 (KString [97]) = Some (Some (0, createDataDescriptor 0))"
    using hp(2) one_heap_items one_heap_empty
    by (auto simp: shape_find_def set_obj_def small_k_def spec_find_def find_index_def)
  have x: "os_objs ?st2 0 = Some (small_object\<lparr>m_prototype := Some 1\<rparr>)"
    "os_objs ?st2 1 = Some (small_object\<lparr>m_prototype := Some 2\<rparr>)"
    "os_objs ?st2 2 = Some (small_object\<lparr>m_structure := 1, m_values := [VNull]\<rparr>)"
    by (simp_all add: stale_state_def set_obj_def)
  have form: "same_form small_k ?st2 2 17" using form1 [rule_format, of 2] by (simp add: same_form_def set_obj_def)
  have s0: "m_structure small_object = 0" by (simp add: small_object_def)
  have "object_get small_k ?st2 0 False 17 = object_get small_k ?st2 1 False 17"
    using own_absent [OF ok2 x(1) n(1)] sh n(2) s0 x(1) by (subst object_get.simps) simp
  also have "\<dots> = object_get small_k ?st2 2 False 17"
    using own_absent [OF ok2 x(2) n(1)] sh n(2) s0 x(2) by (subst object_get.simps) simp
  finally have get: "object_get small_k ?st2 0 False 17 = object_get small_k ?st2 2 False 17" .
  have "ic_outcome small_k ?st2 rcv 0 17 GeneralGet = Some (?st2, Inr VNull)"
    using own_read [OF ok2 x(3) n(1) form, of 0 "createDataDescriptor 0" rcv 0] sh(2) n(2) x(3) get
    by (simp add: data_descriptor_reads)
  with 1 2 3 show ?thesis by auto
qed

text \<open>
  A defect: \<open>65535\<close> is both the largest index the fill accepts and the mark of an absent
  property. An inherited property in slot 65535 is found by the search and then delivered, and
  cached, as undefined.
\<close>

theorem inherited_slot_65535_reads_undefined:
  assumes "1 < length cs" "length cs \<le> inlineCacheProtoTraverseMaxCount"
  shows "\<exists>code'. get_fill code (FoundAt cs b inlineCacheCachedIndexMax plain) = (code', UndefinedRead) \<and>
     (\<exists>i its. g_cache code' = CacheComplex (i # its) \<and> (\<forall>ws. get_item_result ws i = UndefinedRead))"
  using assms by (auto simp: get_fill_def Let_def complex_insert_def get_item_result_def)

theorem inherited_slot_65535_reads_undefined_witness:
  "\<exists>code'. get_fill stale_code (FoundAt [0, 1] 2 inlineCacheCachedIndexMax True) = (code', UndefinedRead)"
  using inherited_slot_65535_reads_undefined [of "[0, 1]" stale_code 2 True] by auto

end
