(* ===== verification/Ordered_Store.thy ===== *)
theory Ordered_Store
  imports Js_Value
begin

text \<open>
  What \<^verbatim>\<open>MapObject\<close> and \<^verbatim>\<open>SetObject\<close> share: a vector of entries in insertion order in which a
  deleted entry leaves an empty one behind, so that positions never shift under an iterator. The
  theory gives the abstract view (the live entries with their positions), the effect of each
  change on it, and the lemma that lifts a simulation of single events to sequences.
\<close>

section \<open>Sequences of events\<close>

fun run_events :: "('e \<Rightarrow> 's \<Rightarrow> 's \<times> 'r) \<Rightarrow> 'e list \<Rightarrow> 's \<Rightarrow> 's \<times> 'r list" where
  "run_events step [] s = (s, [])"
| "run_events step (e # es) s =
     (let (s1, r) = step e s; (s2, rs) = run_events step es s1 in (s2, r # rs))"

locale event_simulation =
  fixes cstep :: "'e \<Rightarrow> 's \<Rightarrow> 's \<times> 'r"
    and astep :: "'e \<Rightarrow> 'a \<Rightarrow> 'a \<times> 'r"
    and abst :: "'s \<Rightarrow> 'a"
    and inv :: "'s \<Rightarrow> bool"
  assumes step_inv: "inv s \<Longrightarrow> inv (fst (cstep e s))"
    and step_sim: "inv s \<Longrightarrow> astep e (abst s) = map_prod abst id (cstep e s)"
begin

lemma run_inv: "inv s \<Longrightarrow> inv (fst (run_events cstep es s))"
proof (induction es arbitrary: s)
  case (Cons e es)
  then show ?case using step_inv [OF Cons.prems, of e] by (simp add: split_beta)
qed simp

lemma run_sim: "inv s \<Longrightarrow> run_events astep es (abst s) = map_prod abst id (run_events cstep es s)"
proof (induction es arbitrary: s)
  case (Cons e es)
  obtain s1 r where c: "cstep e s = (s1, r)" by (cases "cstep e s")
  have "inv s1" using step_inv [OF Cons.prems, of e] c by simp
  with Cons.IH [of s1] step_sim [OF Cons.prems, of e] c show ?case by (simp add: split_beta)
qed simp

end

section \<open>Vectors with empty entries\<close>

fun live :: "nat \<Rightarrow> 'e option list \<Rightarrow> (nat \<times> 'e) list" where
  "live n [] = []"
| "live n (None # xs) = live (Suc n) xs"
| "live n (Some e # xs) = (n, e) # live (Suc n) xs"

lemma live_append: "live n (xs @ ys) = live n xs @ live (n + length xs) ys"
  by (induction n xs rule: live.induct) auto

lemma live_bounds: "(i, e) \<in> set (live n xs) \<longleftrightarrow> n \<le> i \<and> i < n + length xs \<and> xs ! (i - n) = Some e"
proof (induction n xs rule: live.induct)
  case (2 n xs)
  then show ?case by (cases "i = n") (auto simp: nth_Cons' )
next
  case (3 n e' xs)
  then show ?case by (cases "i = n") (auto simp: nth_Cons')
qed simp

lemma live_sorted: "sorted_wrt (<) (map fst (live n xs))"
  by (induction n xs rule: live.induct) (auto simp: live_bounds)

lemma live_erase: "live n (xs[i := None]) = filter (\<lambda>p. fst p \<noteq> n + i) (live n xs)"
proof (induction n xs arbitrary: i rule: live.induct)
  case (2 n xs)
  then show ?case using live_bounds [of n _ "Suc n" xs] by (cases i) (auto intro!: filter_True [symmetric])
next
  case (3 n e xs)
  then show ?case using live_bounds [of n _ "Suc n" xs] by (cases i) (auto intro!: filter_True [symmetric])
qed simp

lemma live_update:
  "i < length xs \<Longrightarrow> xs ! i = Some e \<Longrightarrow>
   live n (xs[i := Some e']) = map (\<lambda>p. if fst p = n + i then (n + i, e') else p) (live n xs)"
proof (induction n xs arbitrary: i rule: live.induct)
  case (2 n xs)
  then show ?case by (cases i) auto
next
  case (3 n e xs)
  then show ?case using live_bounds [of n _ "Suc n" xs] by (cases i) (auto intro!: map_idI [symmetric])
qed simp

lemma live_none: "(\<forall>x \<in> set xs. x = None) \<Longrightarrow> live n xs = []"
  by (induction n xs rule: live.induct) auto

lemma live_count: "length (live n xs) = length (filter (\<lambda>x. x \<noteq> None) xs)"
  by (induction n xs rule: live.induct) auto

text \<open>The loop of the iterators: from an index on, skip empty entries.\<close>

function advance_from :: "'e option list \<Rightarrow> nat \<Rightarrow> ('e \<times> nat) option" where
  "advance_from d index =
     (if index < length d then
        case d ! index of None \<Rightarrow> advance_from d (index + 1) | Some e \<Rightarrow> Some (e, index + 1)
      else None)"
  by pat_completeness auto
termination by (relation "measure (\<lambda>(d, i). length d - i)") auto

declare advance_from.simps [simp del]

text \<open>The first live entry at or after a position.\<close>

definition next_live :: "(nat \<times> 'e) list \<Rightarrow> nat \<Rightarrow> ('e \<times> nat) option" where
  "next_live ps index = map_option (\<lambda>(i, e). (e, i + 1)) (List.find (\<lambda>(i, e). index \<le> i) ps)"

lemma next_live_skip: "index < n \<Longrightarrow> next_live (live n xs) index = map_option (\<lambda>(i, e). (e, i + 1)) (List.find (\<lambda>_. True) (live n xs))"
  by (induction n xs rule: live.induct) (auto simp: next_live_def)

lemma find_append_miss: "\<forall>p \<in> set ps. \<not> P p \<Longrightarrow> List.find P (ps @ qs) = List.find P qs"
  by (induction ps) auto

lemma advance_from_live: "advance_from d index = next_live (live 0 d) index"
proof (induction d index rule: advance_from.induct)
  case (1 d index)
  show ?case
  proof (cases "index < length d")
    case False
    then have "\<forall>p \<in> set (live 0 d). \<not> index \<le> fst p" by (auto simp: live_bounds)
    with False show ?thesis by (subst advance_from.simps) (auto simp: next_live_def find_None_iff)
  next
    case True
    define ys where "ys = drop (Suc index) d"
    have d: "d = take index d @ d ! index # ys" using True by (simp add: ys_def id_take_nth_drop)
    have "live 0 d = live 0 (take index d) @ live index (d ! index # ys)"
      using True by (subst (1) d) (simp add: live_append del: live.simps)
    moreover have "\<forall>p \<in> set (live 0 (take index d)). \<not> index \<le> fst p" by (auto simp: live_bounds)
    note before = this
    from calculation have skip: "List.find (\<lambda>(i, e). index' \<le> i) (live 0 d) = List.find (\<lambda>(i, e). index' \<le> i) (live index (d ! index # ys))"
      if "index \<le> index'" for index'
      using that before by (simp add: find_append_miss split_beta del: live.simps) (subst find_append_miss, auto)
    show ?thesis
    proof (cases "d ! index")
      case None
      have "List.find (\<lambda>(i, e). Suc index \<le> i) (live (Suc index) ys) = List.find (\<lambda>(i, e). index \<le> i) (live (Suc index) ys)"
        by (rule find_cong) (auto simp: live_bounds)
      with 1 [OF True None] True None skip [of index] skip [of "Suc index"] show ?thesis
        by (subst advance_from.simps) (simp add: next_live_def)
    next
      case (Some e)
      with True skip [of index] show ?thesis by (subst advance_from.simps) (simp add: next_live_def)
    qed
  qed
qed

section \<open>Entries with keys\<close>

text \<open>
  The interface of the search: \<open>seek d k\<close> is the index of the first entry whose key is the same
  value as \<open>k\<close>.
\<close>

definition keys_distinct :: "('e \<Rightarrow> jsval) \<Rightarrow> 'e option list \<Rightarrow> bool" where
  "keys_distinct key d \<longleftrightarrow>
     (\<forall>(i, x) \<in> set (live 0 d). \<forall>(j, y) \<in> set (live 0 d). i \<noteq> j \<longrightarrow> \<not> same_value_zero (key x) (key y))"

locale keyed_vector =
  fixes key :: "'e \<Rightarrow> jsval"
    and seek :: "'e option list \<Rightarrow> jsval \<Rightarrow> nat option"
  assumes seek_Some: "seek d k = Some i \<Longrightarrow> i < length d \<and> (\<exists>x. d ! i = Some x \<and> same_value_zero (key x) k)"
    and seek_None: "seek d k = None \<Longrightarrow> i < length d \<Longrightarrow> d ! i = Some x \<Longrightarrow> \<not> same_value_zero (key x) k"
begin

lemma seek_member:
  assumes "seek d k = Some i"
  obtains x where "(i, x) \<in> set (live 0 d)" "d ! i = Some x" "i < length d" "same_value_zero (key x) k"
  using seek_Some [OF assms] by (auto simp: live_bounds)

lemma live_key_unique:
  assumes "keys_distinct key d" "seek d k = Some i" "(j, y) \<in> set (live 0 d)" "same_value_zero (key y) k"
  shows "j = i"
proof (rule ccontr)
  assume ne: "j \<noteq> i"
  obtain x where x: "(i, x) \<in> set (live 0 d)" "same_value_zero (key x) k" using seek_member [OF assms(2)] by blast
  have "same_value_zero (key y) (key x)"
    using x(2) assms(4) same_value_zero_trans same_value_zero_sym by blast
  with ne x assms(1,3) show False unfolding keys_distinct_def by fastforce
qed

lemma live_key_index: "seek d k = Some i \<Longrightarrow> (i, y) \<in> set (live 0 d) \<Longrightarrow> same_value_zero (key y) k"
  using seek_Some by (fastforce simp: live_bounds)

lemma live_absent: "seek d k = None \<Longrightarrow> (j, y) \<in> set (live 0 d) \<Longrightarrow> \<not> same_value_zero (key y) k"
  using seek_None by (auto simp: live_bounds)

lemma erase_live:
  assumes "keys_distinct key d" "seek d k = Some i"
  shows "live 0 (d[i := None]) = filter (\<lambda>p. \<not> same_value_zero (key (snd p)) k) (live 0 d)"
proof -
  have "(fst p \<noteq> i) = (\<not> same_value_zero (key (snd p)) k)" if "p \<in> set (live 0 d)" for p
    using that live_key_unique [OF assms, of "fst p" "snd p"] live_key_index [OF assms(2), of "snd p"] by auto
  then have "filter (\<lambda>p. fst p \<noteq> i) (live 0 d) = filter (\<lambda>p. \<not> same_value_zero (key (snd p)) k) (live 0 d)"
    by (rule filter_cong [OF refl])
  then show ?thesis by (simp add: live_erase)
qed

lemma update_live:
  assumes "keys_distinct key d" "seek d k = Some i" "\<And>x. d ! i = Some x \<Longrightarrow> f x = e'"
  shows "live 0 (d[i := Some e']) =
    map (\<lambda>p. (fst p, if same_value_zero (key (snd p)) k then f (snd p) else snd p)) (live 0 d)"
proof -
  obtain x where x: "i < length d" "d ! i = Some x" using seek_Some [OF assms(2)] by blast
  have "(if fst p = i then (i, e') else p) = (fst p, if same_value_zero (key (snd p)) k then f (snd p) else snd p)"
    if "p \<in> set (live 0 d)" for p
  proof (cases "fst p = i")
    case True
    then have "snd p = x" using that x by (cases p) (auto simp: live_bounds)
    with True x assms(3) live_key_index [OF assms(2), of "snd p"] that show ?thesis by (cases p) auto
  next
    case False
    with that live_key_unique [OF assms(1,2), of "fst p" "snd p"] show ?thesis by (cases p) auto
  qed
  then have "map (\<lambda>p. if fst p = i then (i, e') else p) (live 0 d) =
      map (\<lambda>p. (fst p, if same_value_zero (key (snd p)) k then f (snd p) else snd p)) (live 0 d)"
    by (rule map_cong [OF refl])
  then show ?thesis unfolding live_update [OF x, of 0 e', unfolded add_0] .
qed

lemma seek_live: "seek d k = None \<longleftrightarrow> (\<forall>(j, y) \<in> set (live 0 d). \<not> same_value_zero (key y) k)"
proof (cases "seek d k")
  case None
  with live_absent show ?thesis by auto
next
  case (Some i)
  then obtain x where "i < length d" "d ! i = Some x" "same_value_zero (key x) k" using seek_Some by blast
  with Some show ?thesis by (fastforce simp: live_bounds)
qed

lemma seek_find:
  assumes "keys_distinct key d" "seek d k = Some i" "d ! i = Some x"
  shows "List.find (\<lambda>(j, y). same_value_zero (key y) k) (live 0 d) = Some (i, x)"
proof -
  have ix: "(i, x) \<in> set (live 0 d)" "same_value_zero (key x) k"
    using seek_Some [OF assms(2)] assms(3) by (auto simp: live_bounds)
  then obtain p where p: "List.find (\<lambda>(j, y). same_value_zero (key y) k) (live 0 d) = Some p"
    by (cases "List.find (\<lambda>(j, y). same_value_zero (key y) k) (live 0 d)") (auto simp: find_None_iff)
  then have "p \<in> set (live 0 d)" "same_value_zero (key (snd p)) k"
    by (auto simp: find_Some_iff split_beta)
  with live_key_unique [OF assms(1,2), of "fst p" "snd p"] assms(3) p show ?thesis
    by (cases p) (auto simp: live_bounds)
qed

lemma keys_distinct_erase: "keys_distinct key d \<Longrightarrow> keys_distinct key (d[i := None])"
  unfolding keys_distinct_def by (auto simp: live_erase)

lemma keys_distinct_update:
  assumes "keys_distinct key d" "i < length d" "d ! i = Some x" "key x' = key x"
  shows "keys_distinct key (d[i := Some x'])"
proof -
  have "\<exists>z. (j, z) \<in> set (live 0 d) \<and> key y = key z" if "(j, y) \<in> set (live 0 (d[i := Some x']))" for j y
    using that assms(2-4) by (cases "j = i") (auto simp: live_bounds)
  note orig = this
  have "\<not> same_value_zero (key y) (key z)"
    if yz: "(j, y) \<in> set (live 0 (d[i := Some x']))" "(l, z) \<in> set (live 0 (d[i := Some x']))" "j \<noteq> l" for j y l z
  proof -
    obtain y' z' where "(j, y') \<in> set (live 0 d)" "key y = key y'" "(l, z') \<in> set (live 0 d)" "key z = key z'"
      using orig [OF yz(1)] orig [OF yz(2)] by blast
    with assms(1) yz(3) show ?thesis unfolding keys_distinct_def by fastforce
  qed
  then show ?thesis unfolding keys_distinct_def by blast
qed

lemma keys_distinct_append:
  assumes "keys_distinct key d" "seek d k = None" "same_value_zero (key e) k"
  shows "keys_distinct key (d @ [Some e])"
proof -
  have "\<not> same_value_zero (key y) (key e) \<and> \<not> same_value_zero (key e) (key y)" if "(j, y) \<in> set (live 0 d)" for j y
    using live_absent [OF assms(2) that] assms(3) same_value_zero_trans same_value_zero_sym by blast
  with assms(1) show ?thesis unfolding keys_distinct_def by (auto simp: live_append)
qed

end

lemma keys_distinct_none: "(\<forall>x \<in> set d. x = None) \<Longrightarrow> keys_distinct key d"
  by (simp add: keys_distinct_def live_none)


section \<open>Iterators and the abstract dictionary\<close>

text \<open>The three kinds of iterators, and what \<^verbatim>\<open>advance\<close> returns: a value, or an array of two.\<close>

datatype iter_type = TypeKey | TypeValue | TypeKeyValue

datatype iter_item = PlainItem jsval | PairItem jsval jsval

datatype store_output = NoOut | BoolOut bool | ValueOut jsval | SizeOut nat | ItemOut iter_item bool

text \<open>\<open>it_attached\<close> says that the pointer to the collection is not null.\<close>

record store_iterator =
  it_attached :: bool
  it_index :: nat
  it_type :: iter_type

text \<open>
  The dictionary the standard describes: entries in insertion order, each with the number it got
  when it was inserted, and iterators that know from which number on they continue, or that they
  are finished.
\<close>

record 'e ordered_dict =
  od_entries :: "(nat \<times> 'e) list"
  od_next :: nat
  od_iters :: "(iter_type \<times> nat option) list"

definition abs_iter :: "store_iterator \<Rightarrow> iter_type \<times> nat option" where
  "abs_iter it = (it_type it, if it_attached it then Some (it_index it) else None)"

definition abs_store :: "'e option list \<times> store_iterator list \<Rightarrow> 'e ordered_dict" where
  "abs_store s = \<lparr>od_entries = live 0 (fst s), od_next = length (fst s), od_iters = map abs_iter (snd s)\<rparr>"

text \<open>The next step of an iterator of the dictionary, with the item made by \<open>f\<close>.\<close>

definition dict_next :: "(iter_type \<Rightarrow> 'e \<Rightarrow> iter_item) \<Rightarrow> nat \<Rightarrow> 'e ordered_dict \<Rightarrow> 'e ordered_dict \<times> store_output" where
  "dict_next f j D =
     (if j < length (od_iters D) then
        case od_iters D ! j of
          (ty, None) \<Rightarrow> (D, ItemOut (PlainItem VUndefined) True)
        | (ty, Some pos) \<Rightarrow>
            (case next_live (od_entries D) pos of
               None \<Rightarrow> (D\<lparr>od_iters := (od_iters D)[j := (ty, None)]\<rparr>, ItemOut (PlainItem VUndefined) True)
             | Some (e, pos') \<Rightarrow> (D\<lparr>od_iters := (od_iters D)[j := (ty, Some pos')]\<rparr>, ItemOut (f ty e) False))
      else (D, NoOut))"

text \<open>\<^verbatim>\<open>advance\<close> of both iterator classes; they differ in the item they make.\<close>

definition store_advance ::
    "(iter_type \<Rightarrow> 'e \<Rightarrow> iter_item) \<Rightarrow> 'e option list \<Rightarrow> store_iterator \<Rightarrow> store_iterator \<times> iter_item \<times> bool" where
  "store_advance f d it =
     (if \<not> it_attached it then (it, PlainItem VUndefined, True)
      else case advance_from d (it_index it) of
        None \<Rightarrow> (it\<lparr>it_index := max (it_index it) (length d), it_attached := False\<rparr>, PlainItem VUndefined, True)
      | Some (e, i) \<Rightarrow> (it\<lparr>it_index := i\<rparr>, f (it_type it) e, False))"

definition next_event ::
    "(iter_type \<Rightarrow> 'e \<Rightarrow> iter_item) \<Rightarrow> nat \<Rightarrow> 'e option list \<times> store_iterator list \<Rightarrow>
     ('e option list \<times> store_iterator list) \<times> store_output" where
  "next_event f j s =
     (if j < length (snd s) then
        let (it, v, fin) = store_advance f (fst s) (snd s ! j) in ((fst s, (snd s)[j := it]), ItemOut v fin)
      else (s, NoOut))"

lemma next_event_sim: "dict_next f j (abs_store s) = map_prod abs_store id (next_event f j s)"
proof (cases "j < length (snd s)")
  case True
  let ?it = "snd s ! j"
  have upd: "map abs_iter ((snd s)[j := it']) = (map abs_iter (snd s))[j := abs_iter it']" for it'
    by (simp add: map_update)
  show ?thesis
  proof (cases "it_attached ?it")
    case False
    with True show ?thesis
      by (simp add: dict_next_def next_event_def store_advance_def abs_store_def abs_iter_def)
  next
    case att: True
    show ?thesis
    proof (cases "advance_from (fst s) (it_index ?it)")
      case None
      with True att show ?thesis
        by (simp add: dict_next_def next_event_def store_advance_def abs_store_def advance_from_live upd)
          (simp add: abs_iter_def)
    next
      case (Some r)
      then obtain e i where r: "next_live (live 0 (fst s)) (it_index ?it) = Some (e, i)"
        by (cases r) (simp add: advance_from_live)
      with True att show ?thesis
        by (simp add: dict_next_def next_event_def store_advance_def abs_store_def advance_from_live upd)
          (simp add: abs_iter_def)
    qed
  qed
qed (simp add: dict_next_def next_event_def abs_store_def)

lemma next_event_keeps: "fst (fst (next_event f j s)) = fst s"
  by (simp add: next_event_def split_beta)

end
