(* ===== verification/Map_Object.thy ===== *)
theory Map_Object
  imports Ordered_Store
begin

text \<open>
  \<^verbatim>\<open>MapObject\<close> and \<^verbatim>\<open>MapIteratorObject\<close> (\<^verbatim>\<open>runtime/MapObject.{h,cpp}\<close>). The storage is a vector of
  pairs in which the pair of two empty values (\<open>None\<close>) marks a deleted entry. The main result is
  that every sequence of operations on a map and any number of its iterators, in any
  interleaving, delivers what the ordered dictionary of the standard delivers.
\<close>

section \<open>Operations\<close>

type_synonym map_data = "(jsval \<times> jsval) option list"

text \<open>The search loop of \<^verbatim>\<open>get\<close>, \<^verbatim>\<open>has\<close>, \<^verbatim>\<open>set\<close> and \<^verbatim>\<open>deleteOperation\<close>.\<close>

definition map_seek :: "map_data \<Rightarrow> jsval \<Rightarrow> nat option" where
  "map_seek d key = find_index (\<lambda>e. case e of None \<Rightarrow> False | Some (k, v) \<Rightarrow> same_value_zero k key) d"

definition map_clear :: "map_data \<Rightarrow> map_data" where
  "map_clear d = map (\<lambda>e. None) d"

fun map_size :: "map_data \<Rightarrow> nat" where
  "map_size [] = 0"
| "map_size (None # d) = map_size d"
| "map_size (Some e # d) = Suc (map_size d)"

definition map_deleteOperation :: "map_data \<Rightarrow> jsval \<Rightarrow> map_data \<times> bool" where
  "map_deleteOperation d key =
     (case map_seek d key of Some i \<Rightarrow> (d[i := None], True) | None \<Rightarrow> (d, False))"

definition map_get :: "map_data \<Rightarrow> jsval \<Rightarrow> jsval" where
  "map_get d key =
     (case map_seek d key of
        Some i \<Rightarrow> (case d ! i of Some (k, v) \<Rightarrow> v | None \<Rightarrow> VUndefined)
      | None \<Rightarrow> VUndefined)"

definition map_has :: "map_data \<Rightarrow> jsval \<Rightarrow> bool" where
  "map_has d key = (map_seek d key \<noteq> None)"

text \<open>A key that is negative zero is stored as zero.\<close>

fun normalize_key :: "jsval \<Rightarrow> jsval" where
  "normalize_key (VNumber w) = (if is_zero w \<and> signbit w then VNumber 0 else VNumber w)"
| "normalize_key k = k"

definition map_set :: "map_data \<Rightarrow> jsval \<Rightarrow> jsval \<Rightarrow> map_data" where
  "map_set d key v =
     (case map_seek d key of
        Some i \<Rightarrow> (case d ! i of Some (k, w) \<Rightarrow> d[i := Some (k, v)] | None \<Rightarrow> d)
      | None \<Rightarrow> d @ [Some (normalize_key key, v)])"

text \<open>\<^verbatim>\<open>values\<close>, \<^verbatim>\<open>keys\<close>, \<^verbatim>\<open>entries\<close>, and the item an iterator makes of an entry.\<close>

definition new_iterator :: "iter_type \<Rightarrow> store_iterator" where
  "new_iterator ty = \<lparr>it_attached = True, it_index = 0, it_type = ty\<rparr>"

definition map_values :: store_iterator where "map_values = new_iterator TypeValue"
definition map_keys :: store_iterator where "map_keys = new_iterator TypeKey"
definition map_entries :: store_iterator where "map_entries = new_iterator TypeKeyValue"

fun map_item :: "iter_type \<Rightarrow> jsval \<times> jsval \<Rightarrow> iter_item" where
  "map_item TypeKey (k, v) = PlainItem k"
| "map_item TypeValue (k, v) = PlainItem v"
| "map_item TypeKeyValue (k, v) = PairItem k v"

definition map_advance :: "map_data \<Rightarrow> store_iterator \<Rightarrow> store_iterator \<times> iter_item \<times> bool" where
  "map_advance = store_advance map_item"

section \<open>Events\<close>

datatype map_event =
    MapSet jsval jsval | MapGet jsval | MapHas jsval | MapDelete jsval | MapClear | MapSize
  | MapIterate store_iterator | MapNext nat

fun map_step :: "map_event \<Rightarrow> map_data \<times> store_iterator list \<Rightarrow> (map_data \<times> store_iterator list) \<times> store_output" where
  "map_step (MapSet k v) (d, its) = ((map_set d k v, its), NoOut)"
| "map_step (MapGet k) (d, its) = ((d, its), ValueOut (map_get d k))"
| "map_step (MapHas k) (d, its) = ((d, its), BoolOut (map_has d k))"
| "map_step (MapDelete k) (d, its) = (let (d', b) = map_deleteOperation d k in ((d', its), BoolOut b))"
| "map_step MapClear (d, its) = ((map_clear d, its), NoOut)"
| "map_step MapSize (d, its) = ((d, its), SizeOut (map_size d))"
| "map_step (MapIterate it) (d, its) = ((d, its @ [it]), NoOut)"
| "map_step (MapNext j) (d, its) =
     (if j < length its then let (it, v, fin) = map_advance d (its ! j) in ((d, its[j := it]), ItemOut v fin)
      else ((d, its), NoOut))"

text \<open>The same events on the dictionary of the standard.\<close>

definition dict_find :: "(jsval \<times> jsval) ordered_dict \<Rightarrow> jsval \<Rightarrow> (nat \<times> jsval \<times> jsval) option" where
  "dict_find D k = List.find (\<lambda>(i, e). same_value_zero (fst e) k) (od_entries D)"

fun dict_map_step :: "map_event \<Rightarrow> (jsval \<times> jsval) ordered_dict \<Rightarrow> (jsval \<times> jsval) ordered_dict \<times> store_output" where
  "dict_map_step (MapSet k v) D =
     ((if dict_find D k = None
       then D\<lparr>od_entries := od_entries D @ [(od_next D, normalize_key k, v)], od_next := Suc (od_next D)\<rparr>
       else D\<lparr>od_entries := map (\<lambda>p. (fst p, if same_value_zero (fst (snd p)) k then (fst (snd p), v) else snd p))
                              (od_entries D)\<rparr>), NoOut)"
| "dict_map_step (MapGet k) D = (D, ValueOut (case dict_find D k of None \<Rightarrow> VUndefined | Some (i, k', v) \<Rightarrow> v))"
| "dict_map_step (MapHas k) D = (D, BoolOut (dict_find D k \<noteq> None))"
| "dict_map_step (MapDelete k) D =
     (D\<lparr>od_entries := filter (\<lambda>p. \<not> same_value_zero (fst (snd p)) k) (od_entries D)\<rparr>, BoolOut (dict_find D k \<noteq> None))"
| "dict_map_step MapClear D = (D\<lparr>od_entries := []\<rparr>, NoOut)"
| "dict_map_step MapSize D = (D, SizeOut (length (od_entries D)))"
| "dict_map_step (MapIterate it) D = (D\<lparr>od_iters := od_iters D @ [abs_iter it]\<rparr>, NoOut)"
| "dict_map_step (MapNext j) D = dict_next map_item j D"

section \<open>Refinement\<close>

lemma normalize_key_same [simp]: "same_value_zero (normalize_key k) k"
  by (cases k) (auto simp: double_eq_def zero_not_nan, auto simp: is_zero_def is_nan_def)

interpretation mapv: keyed_vector fst map_seek
proof
  fix d :: map_data and k i
  assume "map_seek d k = Some i"
  then show "i < length d \<and> (\<exists>x. d ! i = Some x \<and> same_value_zero (fst x) k)"
    by (auto simp: map_seek_def find_index_Some_iff split: option.splits)
next
  fix d :: map_data and k i x
  assume "map_seek d k = None" "i < length d" "d ! i = Some x"
  then show "\<not> same_value_zero (fst x) k"
    using nth_mem [of i d] by (cases x) (fastforce simp: map_seek_def find_index_None_iff)
qed

lemma map_size_live: "map_size d = length (live n d)"
  by (induction n d rule: live.induct) auto

definition map_ok :: "map_data \<times> store_iterator list \<Rightarrow> bool" where
  "map_ok s \<longleftrightarrow> keys_distinct fst (fst s)"


lemma dict_find_seek:
  assumes "keys_distinct fst d"
  shows "dict_find (abs_store (d, its)) k =
    (case map_seek d k of None \<Rightarrow> None | Some i \<Rightarrow> (case d ! i of Some e \<Rightarrow> Some (i, e) | None \<Rightarrow> None))"
proof (cases "map_seek d k")
  case None
  then have "List.find (\<lambda>(i, e). same_value_zero (fst e) k) (live 0 d) = None"
    using mapv.live_absent [OF None] by (auto simp: find_None_iff)
  with None show ?thesis by (simp add: dict_find_def abs_store_def)
next
  case (Some i)
  then obtain x where "d ! i = Some x" using mapv.seek_Some by blast
  with mapv.seek_find [OF assms Some this] Some show ?thesis
    by (simp add: dict_find_def abs_store_def)
qed

lemma map_set_ok:
  assumes d: "keys_distinct fst d"
  shows "keys_distinct fst (map_set d k v)" (is ?keys)
    and "abs_store (map_set d k v, its) = fst (dict_map_step (MapSet k v) (abs_store (d, its)))" (is ?sim)
proof -
  have "?keys \<and> ?sim"
  proof (cases "map_seek d k")
    case None
    with mapv.keys_distinct_append [OF d None, of "(normalize_key k, v)"] dict_find_seek [OF d] show ?thesis
      by (simp add: map_set_def abs_store_def live_append)
  next
    case (Some i)
    then obtain k0 w where x: "d ! i = Some (k0, w)" "i < length d" using mapv.seek_Some by fastforce
    have keys: "keys_distinct fst (d[i := Some (k0, v)])"
      using mapv.keys_distinct_update [OF d x(2,1), of "(k0, v)"] by simp
    have "live 0 (d[i := Some (k0, v)]) =
        map (\<lambda>p. (fst p, if same_value_zero (fst (snd p)) k then (fst (snd p), v) else snd p)) (live 0 d)"
      using mapv.update_live [OF d Some, of "\<lambda>e. (fst e, v)" "(k0, v)"] x by simp
    with Some x keys dict_find_seek [OF d] show ?thesis by (simp add: map_set_def abs_store_def)
  qed
  then show ?keys ?sim by blast+
qed

lemma map_delete_ok:
  assumes d: "keys_distinct fst d"
  shows "keys_distinct fst (fst (map_deleteOperation d k))" (is ?keys)
    and "(abs_store (fst (map_deleteOperation d k), its), BoolOut (snd (map_deleteOperation d k))) =
      dict_map_step (MapDelete k) (abs_store (d, its))" (is ?sim)
proof -
  have "?keys \<and> ?sim"
  proof (cases "map_seek d k")
    case None
    with mapv.live_absent [OF None] dict_find_seek [OF d] d show ?thesis
      by (auto simp: map_deleteOperation_def abs_store_def intro!: filter_True [symmetric])
  next
    case (Some i)
    then obtain x where x: "d ! i = Some x" using mapv.seek_Some by blast
    with mapv.keys_distinct_erase [OF d] mapv.erase_live [OF d Some] Some dict_find_seek [OF d] show ?thesis
      by (simp add: map_deleteOperation_def abs_store_def)
  qed
  then show ?keys ?sim by blast+
qed

lemma map_step_next: "map_step (MapNext j) s = next_event map_item j s"
  by (cases s) (simp add: next_event_def map_advance_def)

interpretation map_sim: event_simulation map_step dict_map_step abs_store map_ok
proof
  fix s e assume ok: "map_ok s"
  obtain d its where s: "s = (d, its)" by (cases s)
  have d: "keys_distinct fst d" using ok s by (simp add: map_ok_def)
  show "map_ok (fst (map_step e s))"
  proof (cases e)
    case (MapNext j)
    then show ?thesis using d s by (simp add: map_step_next map_ok_def next_event_keeps del: map_step.simps)
  qed (use d s map_set_ok(1) [OF d] map_delete_ok(1) [OF d] in
      \<open>auto simp: map_ok_def split_beta map_clear_def intro: keys_distinct_none\<close>)
  show "dict_map_step e (abs_store s) = map_prod abs_store id (map_step e s)"
  proof (cases e)
    case (MapNext j)
    then show ?thesis by (simp add: map_step_next next_event_sim del: map_step.simps)
  next
    case (MapSet k v)
    then show ?thesis using s map_set_ok(2) [OF d, of k v its] by simp
  next
    case (MapDelete k)
    then show ?thesis using s map_delete_ok(2) [OF d, of k its] by (simp add: split_beta)
  next
    case (MapGet k)
    then show ?thesis using s dict_find_seek [OF d] mapv.seek_Some [of d k]
      by (auto simp: map_get_def split: option.splits)
  next
    case (MapHas k)
    then show ?thesis using s dict_find_seek [OF d] mapv.seek_Some [of d k]
      by (auto simp: map_has_def split: option.splits)
  qed (use s in \<open>auto simp: abs_store_def map_clear_def live_none map_size_live [of d 0]\<close>)
qed

text \<open>
  C6. Maps are the ordered dictionaries of the standard. Take a map with pairwise different keys
  (an empty one, say) and any of its iterators, and run any sequence of set, get, has, delete,
  clear and size operations, creations of iterators and iterator steps. All results, those of
  the iterator steps included, are those of the dictionary that keeps its live entries in
  insertion order and lets an iterator continue at the first live entry at or after its position:
  entries deleted before they are reached are not visited, entries added behind are, none is
  visited twice, and a finished iterator stays finished.
\<close>

theorem map_refines_ordered_dictionary:
  assumes "keys_distinct fst d"
  shows "run_events dict_map_step es (abs_store (d, its)) = map_prod abs_store id (run_events map_step es (d, its)) \<and>
     keys_distinct fst (fst (fst (run_events map_step es (d, its))))"
  using map_sim.run_sim [of "(d, its)" es] map_sim.run_inv [of "(d, its)" es] assms by (simp add: map_ok_def)

theorem map_refines_ordered_dictionary_witness:
  "snd (run_events map_step [MapSet VNull (VBool True), MapSet (VNumber 0x8000000000000000) VNull, MapIterate map_keys, MapNext 0,
      MapDelete VNull, MapSet VNull (VBool False), MapNext 0, MapNext 0, MapNext 0] ([], [])) =
   [NoOut, NoOut, NoOut, ItemOut (PlainItem VNull) False, BoolOut True, NoOut, ItemOut (PlainItem (VNumber 0)) False,
      ItemOut (PlainItem VNull) False, ItemOut (PlainItem VUndefined) True]"
proof -
  let ?es = "[MapSet VNull (VBool True), MapSet (VNumber 0x8000000000000000) VNull, MapIterate map_keys, MapNext 0,
      MapDelete VNull, MapSet VNull (VBool False), MapNext 0, MapNext 0, MapNext 0]"
  have "keys_distinct fst ([] :: map_data)" by (simp add: keys_distinct_none)
  from map_refines_ordered_dictionary [OF this, of ?es "[]"]
  have "snd (run_events map_step ?es ([], [])) = snd (run_events dict_map_step ?es (abs_store ([], [])))" by simp
  then show ?thesis
    by (simp add: abs_store_def dict_find_def dict_next_def next_live_def abs_iter_def map_keys_def new_iterator_def
        is_zero_def signbit_def is_nan_def double_eq_def)
qed

lemma map_has_live: "map_has d k \<longleftrightarrow> (\<exists>p \<in> set (live 0 d). same_value_zero (fst (snd p)) k)"
  using mapv.seek_live [of d k] by (auto simp: map_has_def split_beta)

lemma map_get_live:
  assumes d: "keys_distinct fst d" and p: "p \<in> set (live 0 d)" "same_value_zero (fst (snd p)) k"
  shows "map_get d k = snd (snd p)"
proof -
  have "map_seek d k \<noteq> None" using p map_has_live [of d k] by (auto simp: map_has_def)
  then obtain i where i: "map_seek d k = Some i" by blast
  with mapv.live_key_unique [OF d i, of "fst p" "snd p"] p have "d ! i = Some (snd p)"
    by (cases p) (auto simp: live_bounds)
  with i show ?thesis by (cases "snd p") (simp add: map_get_def)
qed

lemma map_get_absent: "\<not> map_has d k \<Longrightarrow> map_get d k = VUndefined"
  by (simp add: map_has_def map_get_def)

lemma live_map_set:
  assumes "keys_distinct fst d"
  shows "live 0 (map_set d k v) =
     (if map_has d k then map (\<lambda>p. (fst p, if same_value_zero (fst (snd p)) k then (fst (snd p), v) else snd p)) (live 0 d)
      else live 0 d @ [(length d, normalize_key k, v)])"
  using map_set_ok(2) [OF assms, of k v "[]"] dict_find_seek [OF assms, of "[]" k] mapv.seek_Some [of d k]
  by (auto simp: abs_store_def map_has_def split: option.splits if_splits)

lemma live_map_delete:
  assumes "keys_distinct fst d"
  shows "live 0 (fst (map_deleteOperation d k)) = filter (\<lambda>p. \<not> same_value_zero (fst (snd p)) k) (live 0 d)"
  using map_delete_ok(2) [OF assms, of k "[]"] by (auto simp: abs_store_def)

lemma same_key: "same_value_zero a k \<Longrightarrow> same_value_zero a k' = same_value_zero k k'"
  using same_value_zero_trans same_value_zero_sym by blast

text \<open>
  What a map returns after a change: after \<^verbatim>\<open>set\<close> the key (up to the sign of zero and the
  identity of NaNs) has the new value and all other keys have what they had, after
  \<^verbatim>\<open>deleteOperation\<close> the key is absent and nothing else is, and the size changes accordingly.
\<close>

theorem map_get_after_change:
  assumes d: "keys_distinct fst d"
  shows "map_get (map_set d k v) k' = (if same_value_zero k k' then v else map_get d k') \<and>
     map_has (map_set d k v) k' = (same_value_zero k k' \<or> map_has d k') \<and>
     map_has (fst (map_deleteOperation d k)) k' = (\<not> same_value_zero k k' \<and> map_has d k') \<and>
     map_size (map_set d k v) = (if map_has d k then map_size d else Suc (map_size d))"
proof -
  let ?d = "map_set d k v"
  have keys: "keys_distinct fst ?d" by (rule map_set_ok(1) [OF d])
  have has: "map_has ?d k' = (same_value_zero k k' \<or> map_has d k')"
  proof (cases "map_has d k")
    case True
    then obtain p where p: "p \<in> set (live 0 d)" "same_value_zero (fst (snd p)) k" by (auto simp: map_has_live)
    from True have "map_has ?d k' = map_has d k'" by (auto simp: map_has_live [of ?d] map_has_live [of d k'] live_map_set [OF d])
    moreover have "same_value_zero k k' \<Longrightarrow> map_has d k'" using p same_key [OF p(2), of k'] by (auto simp: map_has_live)
    ultimately show ?thesis by blast
  next
    case False
    then show ?thesis
      using same_key [OF normalize_key_same, of k k'] by (auto simp: map_has_live [of ?d] map_has_live [of d k'] live_map_set [OF d])
  qed
  have get: "map_get ?d k' = (if same_value_zero k k' then v else map_get d k')"
  proof (cases "map_has ?d k'")
    case False
    with has show ?thesis by (simp add: map_get_absent)
  next
    case True
    then obtain p where p: "p \<in> set (live 0 ?d)" "same_value_zero (fst (snd p)) k'" by (auto simp: map_has_live)
    have get: "map_get ?d k' = snd (snd p)" by (rule map_get_live [OF keys p])
    have kk: "same_value_zero k k' = same_value_zero (fst (snd p)) k"
      using same_key [OF p(2), of k] same_value_zero_sym by blast
    consider (new) "\<not> map_has d k" "p = (length d, normalize_key k, v)"
      | (old) q where "q \<in> set (live 0 d)" "fst (snd q) = fst (snd p)"
        "snd (snd p) = (if same_value_zero (fst (snd q)) k then v else snd (snd q))"
    proof (cases "map_has d k")
      case True
      with p(1) that(2) show ?thesis by (auto simp: live_map_set [OF d] split: if_splits)
    next
      case False
      with p(1) have "p \<in> set (live 0 d) \<or> p = (length d, normalize_key k, v)" by (auto simp: live_map_set [OF d])
      with False that(1) that(2) [of p] map_has_live [of d k] show ?thesis by auto
    qed
    then show ?thesis
    proof cases
      case new
      with get kk show ?thesis by simp
    next
      case old
      with map_get_live [OF d old(1), of k'] p(2) get kk show ?thesis by auto
    qed
  qed
  have del: "map_has (fst (map_deleteOperation d k)) k' = (\<not> same_value_zero k k' \<and> map_has d k')"
  proof -
    have "same_value_zero a k = same_value_zero k k'" if "same_value_zero a k'" for a
      using same_key [OF that, of k] same_value_zero_sym [of k k'] by simp
    then show ?thesis unfolding map_has_live live_map_delete [OF d] set_filter by blast
  qed
  have "map_size ?d = (if map_has d k then map_size d else Suc (map_size d))"
    by (simp add: map_size_live [of _ 0] live_map_set [OF d])
  with has get del show ?thesis by blast
qed

theorem map_get_after_change_witness:
  "map_get (map_set [None, Some (VNull, VBool True)] VNull (VBool False)) VNull = VBool False"
  using map_get_after_change [of "[None, Some (VNull, VBool True)]" VNull "VBool False" VNull]
  by (simp add: keys_distinct_def)

end
