(* ===== verification/Set_Object.thy ===== *)
theory Set_Object
  imports Map_Object
begin

text \<open>
  \<^verbatim>\<open>SetObject\<close> and \<^verbatim>\<open>SetIteratorObject\<close> (\<^verbatim>\<open>runtime/SetObject.{h,cpp}\<close>): the same vector with empty
  entries, holding the elements themselves.
\<close>

section \<open>Operations\<close>

type_synonym set_data = "jsval option list"

definition set_seek :: "set_data \<Rightarrow> jsval \<Rightarrow> nat option" where
  "set_seek d key = find_index (\<lambda>e. case e of None \<Rightarrow> False | Some k \<Rightarrow> same_value_zero k key) d"

definition set_clear :: "set_data \<Rightarrow> set_data" where
  "set_clear d = map (\<lambda>e. None) d"

fun set_size :: "set_data \<Rightarrow> nat" where
  "set_size [] = 0"
| "set_size (None # d) = set_size d"
| "set_size (Some e # d) = Suc (set_size d)"

definition set_deleteOperation :: "set_data \<Rightarrow> jsval \<Rightarrow> set_data \<times> bool" where
  "set_deleteOperation d key =
     (case set_seek d key of Some i \<Rightarrow> (d[i := None], True) | None \<Rightarrow> (d, False))"

definition set_has :: "set_data \<Rightarrow> jsval \<Rightarrow> bool" where
  "set_has d key = (set_seek d key \<noteq> None)"

definition set_add :: "set_data \<Rightarrow> jsval \<Rightarrow> set_data" where
  "set_add d key = (case set_seek d key of Some i \<Rightarrow> d | None \<Rightarrow> d @ [Some (normalize_key key)])"

text \<open>\<^verbatim>\<open>values\<close> and \<^verbatim>\<open>keys\<close> make the same iterator.\<close>

definition set_values :: store_iterator where "set_values = new_iterator TypeValue"
definition set_keys :: store_iterator where "set_keys = new_iterator TypeValue"
definition set_entries :: store_iterator where "set_entries = new_iterator TypeKeyValue"

definition set_item :: "iter_type \<Rightarrow> jsval \<Rightarrow> iter_item" where
  "set_item ty e = (if ty = TypeKeyValue then PairItem e e else PlainItem e)"

definition set_advance :: "set_data \<Rightarrow> store_iterator \<Rightarrow> store_iterator \<times> iter_item \<times> bool" where
  "set_advance = store_advance set_item"

section \<open>Events\<close>

datatype set_event =
    SetAdd jsval | SetHas jsval | SetDelete jsval | SetClear | SetSize | SetIterate store_iterator | SetNext nat

fun set_step :: "set_event \<Rightarrow> set_data \<times> store_iterator list \<Rightarrow> (set_data \<times> store_iterator list) \<times> store_output" where
  "set_step (SetAdd k) (d, its) = ((set_add d k, its), NoOut)"
| "set_step (SetHas k) (d, its) = ((d, its), BoolOut (set_has d k))"
| "set_step (SetDelete k) (d, its) = (let (d', b) = set_deleteOperation d k in ((d', its), BoolOut b))"
| "set_step SetClear (d, its) = ((set_clear d, its), NoOut)"
| "set_step SetSize (d, its) = ((d, its), SizeOut (set_size d))"
| "set_step (SetIterate it) (d, its) = ((d, its @ [it]), NoOut)"
| "set_step (SetNext j) (d, its) =
     (if j < length its then let (it, v, fin) = set_advance d (its ! j) in ((d, its[j := it]), ItemOut v fin)
      else ((d, its), NoOut))"

definition dict_has :: "jsval ordered_dict \<Rightarrow> jsval \<Rightarrow> bool" where
  "dict_has D k \<longleftrightarrow> (\<exists>p \<in> set (od_entries D). same_value_zero (snd p) k)"

fun dict_set_step :: "set_event \<Rightarrow> jsval ordered_dict \<Rightarrow> jsval ordered_dict \<times> store_output" where
  "dict_set_step (SetAdd k) D =
     ((if dict_has D k then D
       else D\<lparr>od_entries := od_entries D @ [(od_next D, normalize_key k)], od_next := Suc (od_next D)\<rparr>), NoOut)"
| "dict_set_step (SetHas k) D = (D, BoolOut (dict_has D k))"
| "dict_set_step (SetDelete k) D =
     (D\<lparr>od_entries := filter (\<lambda>p. \<not> same_value_zero (snd p) k) (od_entries D)\<rparr>, BoolOut (dict_has D k))"
| "dict_set_step SetClear D = (D\<lparr>od_entries := []\<rparr>, NoOut)"
| "dict_set_step SetSize D = (D, SizeOut (length (od_entries D)))"
| "dict_set_step (SetIterate it) D = (D\<lparr>od_iters := od_iters D @ [abs_iter it]\<rparr>, NoOut)"
| "dict_set_step (SetNext j) D = dict_next set_item j D"

section \<open>Refinement\<close>

interpretation setv: keyed_vector "\<lambda>x. x" set_seek
proof
  fix d :: set_data and k i
  assume "set_seek d k = Some i"
  then show "i < length d \<and> (\<exists>x. d ! i = Some x \<and> same_value_zero x k)"
    by (auto simp: set_seek_def find_index_Some_iff split: option.splits)
next
  fix d :: set_data and k i x
  assume "set_seek d k = None" "i < length d" "d ! i = Some x"
  then show "\<not> same_value_zero x k"
    using nth_mem [of i d] by (fastforce simp: set_seek_def find_index_None_iff)
qed

lemma set_size_live: "set_size d = length (live n d)"
  by (induction n d rule: live.induct) auto

definition set_ok :: "set_data \<times> store_iterator list \<Rightarrow> bool" where
  "set_ok s \<longleftrightarrow> keys_distinct (\<lambda>x. x) (fst s)"

lemma dict_has_seek: "dict_has (abs_store (d, its)) k = (set_seek d k \<noteq> None)"
  using setv.seek_live [of d k] by (auto simp: dict_has_def abs_store_def split_beta)

lemma set_step_next: "set_step (SetNext j) s = next_event set_item j s"
  by (cases s) (simp add: next_event_def set_advance_def)

lemma set_add_ok: "keys_distinct (\<lambda>x. x) d \<Longrightarrow> keys_distinct (\<lambda>x. x) (set_add d k)"
  using setv.keys_distinct_append [of d k "normalize_key k"] by (auto simp: set_add_def split: option.splits)

lemma set_delete_ok:
  assumes d: "keys_distinct (\<lambda>x. x) d"
  shows "keys_distinct (\<lambda>x. x) (fst (set_deleteOperation d k))"
    and "live 0 (fst (set_deleteOperation d k)) = filter (\<lambda>p. \<not> same_value_zero (snd p) k) (live 0 d)"
  using d setv.keys_distinct_erase [OF d] setv.erase_live [OF d, of k] setv.live_absent [of d k]
  by (auto simp: set_deleteOperation_def split: option.splits intro!: filter_True [symmetric])

interpretation set_sim: event_simulation set_step dict_set_step abs_store set_ok
proof
  fix s e assume ok: "set_ok s"
  obtain d its where s: "s = (d, its)" by (cases s)
  have d: "keys_distinct (\<lambda>x. x) d" using ok s by (simp add: set_ok_def)
  show "set_ok (fst (set_step e s))"
  proof (cases e)
    case (SetNext j)
    then show ?thesis using d s by (simp add: set_step_next set_ok_def next_event_keeps del: set_step.simps)
  qed (use d s set_add_ok [OF d] set_delete_ok(1) [OF d] in
      \<open>auto simp: set_ok_def split_beta set_clear_def intro: keys_distinct_none\<close>)
  show "dict_set_step e (abs_store s) = map_prod abs_store id (set_step e s)"
  proof (cases e)
    case (SetNext j)
    then show ?thesis by (simp add: set_step_next next_event_sim del: set_step.simps)
  next
    case (SetAdd k)
    then show ?thesis using s dict_has_seek [of d its k]
      by (cases "set_seek d k") (auto simp: set_add_def abs_store_def live_append)
  next
    case (SetDelete k)
    then show ?thesis using s set_delete_ok(2) [OF d, of k]
      by (auto simp: split_beta dict_has_seek) (auto simp: abs_store_def set_deleteOperation_def split: option.splits)
  next
    case (SetHas k)
    then show ?thesis using s by (auto simp: set_has_def dict_has_seek)
  qed (use s in \<open>auto simp: abs_store_def set_clear_def live_none set_size_live [of d 0]\<close>)
qed

text \<open>
  C33. Sets are the ordered sets of the standard: every sequence of add, has, delete, clear and
  size operations, creations of iterators and iterator steps gives the results of the ordered
  dictionary, in any interleaving.
\<close>

theorem set_refines_ordered_dictionary:
  assumes "keys_distinct (\<lambda>x. x) d"
  shows "run_events dict_set_step es (abs_store (d, its)) = map_prod abs_store id (run_events set_step es (d, its)) \<and>
     keys_distinct (\<lambda>x. x) (fst (fst (run_events set_step es (d, its))))"
  using set_sim.run_sim [of "(d, its)" es] set_sim.run_inv [of "(d, its)" es] assms by (simp add: set_ok_def)

theorem set_refines_ordered_dictionary_witness:
  "snd (run_events set_step [SetAdd VNull, SetIterate set_entries, SetClear, SetAdd (VBool True), SetAdd (VBool True),
      SetSize, SetNext 0, SetNext 0] ([], [])) =
   [NoOut, NoOut, NoOut, NoOut, NoOut, SizeOut 1, ItemOut (PairItem (VBool True) (VBool True)) False,
      ItemOut (PlainItem VUndefined) True]"
proof -
  let ?es = "[SetAdd VNull, SetIterate set_entries, SetClear, SetAdd (VBool True), SetAdd (VBool True),
      SetSize, SetNext 0, SetNext 0]"
  have "keys_distinct (\<lambda>x. x) ([] :: set_data)" by (simp add: keys_distinct_none)
  from set_refines_ordered_dictionary [OF this, of ?es "[]"]
  have "snd (run_events set_step ?es ([], [])) = snd (run_events dict_set_step ?es (abs_store ([], [])))" by simp
  then show ?thesis
    by (simp add: abs_store_def dict_has_def dict_next_def next_live_def abs_iter_def set_entries_def new_iterator_def
        set_item_def)
qed

end
