(* ===== verification/Promise_Object.thy ===== *)
theory Promise_Object
  imports Js_Value
begin

text \<open>
  Promises and their jobs: \<^verbatim>\<open>runtime/PromiseObject.{h,cpp}\<close>, \<^verbatim>\<open>runtime/Job.cpp\<close>,
  \<^verbatim>\<open>runtime/JobQueue.{h,cpp}\<close>, the queue operations of \<^verbatim>\<open>runtime/VMInstance.cpp\<close> and the constructor
  in \<^verbatim>\<open>builtins/BuiltinPromise.cpp\<close>. Functions written by the user are arguments of the model
  (\<open>env\<close>); they may do to the promises whatever the operations below allow. Hooks of the embedder
  and of the debugger are not registered.
\<close>

section \<open>State\<close>

datatype promise_state = Pending | FulFilled | Rejected

text \<open>A capability; \<open>None\<close> is the null pointer.\<close>

record capability =
  c_promise :: "nat option"
  c_resolve :: "nat option"
  c_reject :: "nat option"

text \<open>The handlers \<^verbatim>\<open>(Object*)1\<close> and \<^verbatim>\<open>(Object*)2\<close>, or a function object.\<close>

datatype handler = Identity | Thrower | Handler nat

record reaction =
  r_capability :: capability
  r_handler :: handler

record promise =
  p_state :: promise_state
  p_result :: jsval
  p_fulfillReactions :: "reaction list"
  p_rejectReactions :: "reaction list"

datatype job =
    ReactionJob (j_context: nat) reaction jsval
  | ThenableJob (j_context: nat) nat nat nat

text \<open>
  A call of \<^verbatim>\<open>createResolvingFunctions\<close> makes an entry of \<open>ps_resolvers\<close>: the promise and the flag
  that the two functions share. \<open>ps_fns\<close> gives for a function object the entry it belongs to and
  whether it is the rejecting one. \<open>ps_world\<close> is everything else user code can change.
\<close>

record 'w pstate =
  ps_promises :: "nat \<Rightarrow> promise option"
  ps_resolvers :: "(nat \<times> bool) list"
  ps_fns :: "nat \<Rightarrow> (nat \<times> bool) option"
  ps_jobs :: "job list"
  ps_next :: nat
  ps_world :: 'w

text \<open>
  Code of the user and of other components: calling a function object, reading the property
  \<^verbatim>\<open>then\<close>, whether a function object is callable, and the error objects made here.
\<close>

record 'w penv =
  env_call :: "'w pstate \<Rightarrow> nat \<Rightarrow> jsval \<Rightarrow> jsval list \<Rightarrow> 'w pstate \<times> (jsval + jsval)"
  env_get_then :: "'w pstate \<Rightarrow> nat \<Rightarrow> 'w pstate \<times> (jsval + jsval)"
  env_callable :: "nat \<Rightarrow> bool"
  env_typeError :: jsval
  env_context :: nat

type_synonym 'w presult = "('w pstate \<times> (jsval + jsval)) option"

section \<open>The queue of jobs\<close>

definition enqueueJob :: "'w pstate \<Rightarrow> job \<Rightarrow> 'w pstate" where
  "enqueueJob st j = st\<lparr>ps_jobs := ps_jobs st @ [j]\<rparr>"

definition hasNextJob :: "'w pstate \<Rightarrow> bool" where
  "hasNextJob st \<longleftrightarrow> ps_jobs st \<noteq> []"

definition nextJob :: "'w pstate \<Rightarrow> ('w pstate \<times> job) option" where
  "nextJob st = (case ps_jobs st of [] \<Rightarrow> None | j # js \<Rightarrow> Some (st\<lparr>ps_jobs := js\<rparr>, j))"

fun clear_jobs :: "nat \<Rightarrow> job list \<Rightarrow> job list" where
  "clear_jobs c [] = []"
| "clear_jobs c (j # js) = (if j_context j = c then clear_jobs c js else j # clear_jobs c js)"

definition clearJobRelatedWithSpecificContext :: "'w pstate \<Rightarrow> nat \<Rightarrow> 'w pstate" where
  "clearJobRelatedWithSpecificContext st c = st\<lparr>ps_jobs := clear_jobs c (ps_jobs st)\<rparr>"

section \<open>Settling\<close>

definition new_promise :: "'w pstate \<Rightarrow> 'w pstate \<times> nat" where
  "new_promise st =
     (st\<lparr>ps_promises := (ps_promises st)(ps_next st \<mapsto>
           \<lparr>p_state = Pending, p_result = VUndefined, p_fulfillReactions = [], p_rejectReactions = []\<rparr>),
         ps_next := ps_next st + 1\<rparr>, ps_next st)"

definition createResolvingFunctions :: "'w pstate \<Rightarrow> nat \<Rightarrow> 'w pstate \<times> capability" where
  "createResolvingFunctions st p =
     (let i = length (ps_resolvers st); f = ps_next st; g = ps_next st + 1 in
      (st\<lparr>ps_resolvers := ps_resolvers st @ [(p, False)],
          ps_fns := (ps_fns st)(f \<mapsto> (i, False), g \<mapsto> (i, True)),
          ps_next := ps_next st + 2\<rparr>,
       \<lparr>c_promise = Some p, c_resolve = Some f, c_reject = Some g\<rparr>))"

text \<open>\<^verbatim>\<open>newPromiseCapability\<close> for the constructor \<^verbatim>\<open>Promise\<close> itself.\<close>

definition newPromiseCapability :: "'w pstate \<Rightarrow> 'w pstate \<times> capability" where
  "newPromiseCapability st = (let (st1, p) = new_promise st in createResolvingFunctions st1 p)"

definition triggerPromiseReactions :: "nat \<Rightarrow> 'w pstate \<Rightarrow> reaction list \<Rightarrow> jsval \<Rightarrow> 'w pstate" where
  "triggerPromiseReactions c st rs v = fold (\<lambda>r s. enqueueJob s (ReactionJob c r v)) rs st"

definition settled_as :: "promise_state \<Rightarrow> jsval \<Rightarrow> promise \<Rightarrow> promise" where
  "settled_as s v x = x\<lparr>p_state := s, p_result := v, p_fulfillReactions := [], p_rejectReactions := []\<rparr>"

definition fulfill :: "nat \<Rightarrow> 'w pstate \<Rightarrow> nat \<Rightarrow> jsval \<Rightarrow> 'w pstate option" where
  "fulfill c st p v =
     (case ps_promises st p of
        None \<Rightarrow> None
      | Some x \<Rightarrow> let st1 = triggerPromiseReactions c st (p_fulfillReactions x) v in
          Some (st1\<lparr>ps_promises := (ps_promises st1)(p \<mapsto> settled_as FulFilled v x)\<rparr>))"

definition reject :: "nat \<Rightarrow> 'w pstate \<Rightarrow> nat \<Rightarrow> jsval \<Rightarrow> 'w pstate option" where
  "reject c st p v =
     (case ps_promises st p of
        None \<Rightarrow> None
      | Some x \<Rightarrow>
          let st1 = (if p_rejectReactions x \<noteq> [] then triggerPromiseReactions c st (p_rejectReactions x) v else st) in
          Some (st1\<lparr>ps_promises := (ps_promises st1)(p \<mapsto> settled_as Rejected v x)\<rparr>))"

definition is_callable :: "'w penv \<Rightarrow> 'w pstate \<Rightarrow> jsval \<Rightarrow> bool" where
  "is_callable env st v = (case v of VObject f \<Rightarrow> ps_fns st f \<noteq> None \<or> env_callable env f | _ \<Rightarrow> False)"

definition obj_of :: "jsval \<Rightarrow> nat" where
  "obj_of v = (case v of VObject f \<Rightarrow> f | _ \<Rightarrow> 0)"

definition set_resolved :: "'w pstate \<Rightarrow> nat \<Rightarrow> 'w pstate" where
  "set_resolved st i = st\<lparr>ps_resolvers := (ps_resolvers st)[i := (fst (ps_resolvers st ! i), True)]\<rparr>"

text \<open>A void operation as the result of a native function.\<close>

definition returns_undefined :: "'w pstate option \<Rightarrow> 'w presult" where
  "returns_undefined r = map_option (\<lambda>st. (st, Inr VUndefined)) r"

text \<open>The function behind the resolving half of a pair.\<close>

definition promiseResolveFunctions :: "'w penv \<Rightarrow> 'w pstate \<Rightarrow> nat \<Rightarrow> jsval \<Rightarrow> 'w presult" where
  "promiseResolveFunctions env st i v =
     (if i \<ge> length (ps_resolvers st) then None
      else let (p, resolved) = ps_resolvers st ! i; c = env_context env in
        if resolved then Some (st, Inr VUndefined)
        else let st1 = set_resolved st i in
          if v = VObject p then returns_undefined (reject c st1 p (env_typeError env))
          else case v of
            VObject r \<Rightarrow>
              (case env_get_then env st1 r of
                 (st2, Inl e) \<Rightarrow> returns_undefined (reject c st2 p e)
               | (st2, Inr t) \<Rightarrow>
                   if is_callable env st2 t
                   then Some (enqueueJob st2 (ThenableJob c p r (obj_of t)), Inr VUndefined)
                   else returns_undefined (fulfill c st2 p v))
          | _ \<Rightarrow> returns_undefined (fulfill c st1 p v))"

definition promiseRejectFunctions :: "'w penv \<Rightarrow> 'w pstate \<Rightarrow> nat \<Rightarrow> jsval \<Rightarrow> 'w presult" where
  "promiseRejectFunctions env st i v =
     (if i \<ge> length (ps_resolvers st) then None
      else let (p, resolved) = ps_resolvers st ! i in
        if resolved then Some (st, Inr VUndefined)
        else returns_undefined (reject (env_context env) (set_resolved st i) p v))"

text \<open>\<^verbatim>\<open>Object::call\<close> on a function pointer; missing arguments of a native function are undefined.\<close>

definition arg0 :: "jsval list \<Rightarrow> jsval" where
  "arg0 args = (case args of [] \<Rightarrow> VUndefined | v # _ \<Rightarrow> v)"

definition call_object :: "'w penv \<Rightarrow> 'w pstate \<Rightarrow> nat option \<Rightarrow> jsval \<Rightarrow> jsval list \<Rightarrow> 'w presult" where
  "call_object env st f this args =
     (case f of
        None \<Rightarrow> None
      | Some f \<Rightarrow>
          (case ps_fns st f of
             Some (i, rejecting) \<Rightarrow>
               if rejecting then promiseRejectFunctions env st i (arg0 args)
               else promiseResolveFunctions env st i (arg0 args)
           | None \<Rightarrow> Some (env_call env st f this args)))"

section \<open>Then\<close>

definition handler_of :: "'w penv \<Rightarrow> 'w pstate \<Rightarrow> handler \<Rightarrow> jsval \<Rightarrow> handler" where
  "handler_of env st dflt v = (if is_callable env st v then Handler (obj_of v) else dflt)"

definition no_capability :: capability where
  "no_capability = \<lparr>c_promise = None, c_resolve = None, c_reject = None\<rparr>"

definition promise_then ::
    "'w penv \<Rightarrow> 'w pstate \<Rightarrow> nat \<Rightarrow> jsval \<Rightarrow> jsval \<Rightarrow> capability option \<Rightarrow> ('w pstate \<times> nat option) option" where
  "promise_then env st p onFulfilled onRejected resultCapability =
     (case ps_promises st p of None \<Rightarrow> None | Some x \<Rightarrow>
      let hf = handler_of env st Identity onFulfilled; hr = handler_of env st Thrower onRejected;
          cap = (case resultCapability of Some k \<Rightarrow> k | None \<Rightarrow> no_capability);
          st1 = (case p_state x of
             Pending \<Rightarrow> st\<lparr>ps_promises := (ps_promises st)(p \<mapsto>
                 x\<lparr>p_fulfillReactions := p_fulfillReactions x @ [\<lparr>r_capability = cap, r_handler = hf\<rparr>],
                   p_rejectReactions := p_rejectReactions x @ [\<lparr>r_capability = cap, r_handler = hr\<rparr>]\<rparr>)\<rparr>
           | FulFilled \<Rightarrow> enqueueJob st (ReactionJob (env_context env) \<lparr>r_capability = cap, r_handler = hf\<rparr> (p_result x))
           | Rejected \<Rightarrow> enqueueJob st (ReactionJob (env_context env) \<lparr>r_capability = cap, r_handler = hr\<rparr> (p_result x))) in
      Some (st1, if resultCapability \<noteq> None then c_promise cap else None))"

section \<open>Jobs\<close>

text \<open>\<^verbatim>\<open>PromiseReactionJob::run\<close>: the handler runs inside the inner sandbox.\<close>

definition call_handler :: "'w penv \<Rightarrow> 'w pstate \<Rightarrow> capability \<Rightarrow> nat \<Rightarrow> jsval \<Rightarrow> 'w presult" where
  "call_handler env st cap h v =
     (case call_object env st (Some h) VUndefined [v] of
        Some (st1, Inr r) \<Rightarrow>
          if c_promise cap = None then Some (st1, Inr VUndefined)
          else call_object env st1 (c_resolve cap) VUndefined [r]
      | other \<Rightarrow> other)"

definition run_reaction_job :: "'w penv \<Rightarrow> 'w pstate \<Rightarrow> reaction \<Rightarrow> jsval \<Rightarrow> 'w presult" where
  "run_reaction_job env st r v =
     (case r_handler r of
        Identity \<Rightarrow> call_object env st (c_resolve (r_capability r)) VUndefined [v]
      | Thrower \<Rightarrow> call_object env st (c_reject (r_capability r)) VUndefined [v]
      | Handler h \<Rightarrow>
          (case call_handler env st (r_capability r) h v of
             Some (st1, Inl e) \<Rightarrow>
               if c_reject (r_capability r) \<noteq> None then call_object env st1 (c_reject (r_capability r)) VUndefined [e]
               else Some (st1, Inl e)
           | other \<Rightarrow> other))"

text \<open>\<^verbatim>\<open>PromiseResolveThenableJob::run\<close>.\<close>

definition run_thenable_job :: "'w penv \<Rightarrow> 'w pstate \<Rightarrow> nat \<Rightarrow> nat \<Rightarrow> nat \<Rightarrow> 'w presult" where
  "run_thenable_job env st p thenable t =
     (let (st1, cap) = createResolvingFunctions st p in
      case call_object env st1 (Some t) (VObject thenable)
             [VObject (the (c_resolve cap)), VObject (the (c_reject cap))] of
        Some (st2, Inl e) \<Rightarrow> call_object env st2 (c_reject cap) VUndefined [e]
      | other \<Rightarrow> other)"

fun run_job :: "'w penv \<Rightarrow> 'w pstate \<Rightarrow> job \<Rightarrow> 'w presult" where
  "run_job env st (ReactionJob c r v) = run_reaction_job env st r v"
| "run_job env st (ThenableJob c p r t) = run_thenable_job env st p r t"

definition executePendingJob :: "'w penv \<Rightarrow> 'w pstate \<Rightarrow> 'w presult" where
  "executePendingJob env st =
     (case nextJob st of None \<Rightarrow> None | Some (st1, j) \<Rightarrow> run_job (env\<lparr>env_context := j_context j\<rparr>) st1 j)"

section \<open>The constructor\<close>

text \<open>\<^verbatim>\<open>builtinPromiseConstructor\<close> called with \<^verbatim>\<open>new\<close>; the result is the promise.\<close>

definition builtinPromiseConstructor :: "'w penv \<Rightarrow> 'w pstate \<Rightarrow> jsval \<Rightarrow> 'w presult" where
  "builtinPromiseConstructor env st executor =
     (if \<not> is_callable env st executor then Some (st, Inl (env_typeError env))
      else let (st1, p) = new_promise st; (st2, cap) = createResolvingFunctions st1 p in
        case call_object env st2 (Some (obj_of executor)) VUndefined
               [VObject (the (c_resolve cap)), VObject (the (c_reject cap))] of
          None \<Rightarrow> None
        | Some (st3, Inr _) \<Rightarrow> Some (st3, Inr (VObject p))
        | Some (st3, Inl e) \<Rightarrow>
            (case call_object env st3 (c_reject cap) VUndefined [e] of
               None \<Rightarrow> None
             | Some (st4, Inr _) \<Rightarrow> Some (st4, Inr (VObject p))
             | Some (st4, Inl e') \<Rightarrow> Some (st4, Inl e')))"

end
