(* ===== verification/Promise_Proof.thy ===== *)
theory Promise_Proof
  imports Promise_Object
begin

text \<open>
  Promises settle at most once. The argument counts the means by which a promise can still be
  settled: the pairs of resolving functions whose flag is not set, and the jobs that will make
  a new pair. A pending promise has at most one, a settled one none.
\<close>

section \<open>Invariant\<close>

fun is_thenable_for :: "nat \<Rightarrow> job \<Rightarrow> bool" where
  "is_thenable_for p (ThenableJob c q r t) = (q = p)"
| "is_thenable_for p (ReactionJob c r v) = False"

definition open_pairs :: "(nat \<times> bool) list \<Rightarrow> nat \<Rightarrow> nat" where
  "open_pairs rs p = length (filter (\<lambda>r. fst r = p \<and> \<not> snd r) rs)"

definition thenables :: "job list \<Rightarrow> nat \<Rightarrow> nat" where
  "thenables js p = length (filter (is_thenable_for p) js)"

definition tickets :: "'w pstate \<Rightarrow> nat \<Rightarrow> nat" where
  "tickets st p = open_pairs (ps_resolvers st) p + thenables (ps_jobs st) p"

definition reaction_ok :: "reaction \<Rightarrow> bool" where
  "reaction_ok r \<longleftrightarrow>
     (c_promise (r_capability r) \<noteq> None \<or> (\<nexists>h. r_handler r = Handler h) \<longrightarrow>
        c_resolve (r_capability r) \<noteq> None \<and> c_reject (r_capability r) \<noteq> None)"

fun job_ok :: "'w pstate \<Rightarrow> job \<Rightarrow> bool" where
  "job_ok st (ReactionJob c r v) = reaction_ok r"
| "job_ok st (ThenableJob c p r t) = (ps_promises st p \<noteq> None)"

definition promise_ok :: "'w pstate \<Rightarrow> nat \<Rightarrow> promise \<Rightarrow> bool" where
  "promise_ok st p x \<longleftrightarrow> p < ps_next st \<and>
     (\<forall>r \<in> set (p_fulfillReactions x @ p_rejectReactions x). reaction_ok r) \<and>
     (if p_state x = Pending then tickets st p \<le> 1
      else tickets st p = 0 \<and> p_fulfillReactions x = [] \<and> p_rejectReactions x = [])"

definition pinv :: "'w pstate \<Rightarrow> bool" where
  "pinv st \<longleftrightarrow> (\<forall>p x. ps_promises st p = Some x \<longrightarrow> promise_ok st p x) \<and>
     (\<forall>r \<in> set (ps_resolvers st). ps_promises st (fst r) \<noteq> None) \<and>
     (\<forall>f i b. ps_fns st f = Some (i, b) \<longrightarrow> i < length (ps_resolvers st) \<and> f < ps_next st) \<and>
     (\<forall>j \<in> set (ps_jobs st). job_ok st j)"

text \<open>
  How a state may evolve: what is settled stays as it is, and a promise changes its state only by
  using up a means of settling it.
\<close>

definition evolves :: "'w pstate \<Rightarrow> 'w pstate \<Rightarrow> bool" where
  "evolves st st' \<longleftrightarrow>
     (\<forall>p x. ps_promises st p = Some x \<longrightarrow>
        tickets st' p \<le> tickets st p \<and>
        (\<exists>y. ps_promises st' p = Some y \<and> (p_state x \<noteq> Pending \<longrightarrow> y = x) \<and>
           (tickets st' p = tickets st p \<longrightarrow> p_state y = p_state x))) \<and>
     (length (ps_resolvers st) \<le> length (ps_resolvers st')) \<and>
     (\<forall>i < length (ps_resolvers st). fst (ps_resolvers st' ! i) = fst (ps_resolvers st ! i) \<and>
        (snd (ps_resolvers st ! i) \<longrightarrow> snd (ps_resolvers st' ! i))) \<and>
     (\<forall>f. ps_fns st f \<noteq> None \<longrightarrow> ps_fns st' f = ps_fns st f)"

definition safe_from :: "'w pstate \<Rightarrow> 'w presult \<Rightarrow> bool" where
  "safe_from st r \<longleftrightarrow> (\<exists>st' v. r = Some (st', v) \<and> pinv st' \<and> evolves st st')"

text \<open>
  What is relied on of user code: it reaches the promises only through the operations of this
  theory, each of which keeps the invariant and lets the state evolve as described.
\<close>

definition user_ok :: "'w penv \<Rightarrow> bool" where
  "user_ok env \<longleftrightarrow>
     (\<forall>st f this args. pinv st \<longrightarrow> safe_from st (Some (env_call env st f this args))) \<and>
     (\<forall>st r. pinv st \<longrightarrow> safe_from st (Some (env_get_then env st r)))"

lemma evolves_refl [simp]: "evolves st st"
  by (simp add: evolves_def)

lemma evolves_trans:
  assumes "evolves a b" "evolves b c"
  shows "evolves a c"
proof -
  have "tickets c p \<le> tickets a p \<and> (\<exists>z. ps_promises c p = Some z \<and> (p_state x \<noteq> Pending \<longrightarrow> z = x) \<and>
      (tickets c p = tickets a p \<longrightarrow> p_state z = p_state x))" if x: "ps_promises a p = Some x" for p x
  proof -
    obtain y where y: "ps_promises b p = Some y" "p_state x \<noteq> Pending \<longrightarrow> y = x" "tickets b p \<le> tickets a p"
      "tickets b p = tickets a p \<longrightarrow> p_state y = p_state x" using assms(1) x unfolding evolves_def by blast
    obtain z where z: "ps_promises c p = Some z" "p_state y \<noteq> Pending \<longrightarrow> z = y" "tickets c p \<le> tickets b p"
      "tickets c p = tickets b p \<longrightarrow> p_state z = p_state y" using assms(2) y(1) unfolding evolves_def by blast
    from y z show ?thesis by (metis le_antisym le_trans)
  qed
  moreover have "length (ps_resolvers a) \<le> length (ps_resolvers c)" using assms by (auto simp: evolves_def)
  moreover have "fst (ps_resolvers c ! i) = fst (ps_resolvers a ! i) \<and> (snd (ps_resolvers a ! i) \<longrightarrow> snd (ps_resolvers c ! i))"
    if "i < length (ps_resolvers a)" for i using that assms unfolding evolves_def by (metis le_trans linorder_not_le)
  moreover have "ps_fns c f = ps_fns a f" if "ps_fns a f \<noteq> None" for f using that assms unfolding evolves_def by metis
  ultimately show ?thesis unfolding evolves_def by blast
qed

lemma safe_from_step: "evolves st st1 \<Longrightarrow> safe_from st1 r \<Longrightarrow> safe_from st r"
  unfolding safe_from_def using evolves_trans by blast

section \<open>Counting\<close>

lemma thenables_simps [simp]:
  "thenables [] p = 0" "thenables (js @ ks) p = thenables js p + thenables ks p"
  "thenables (j # js) p = (if is_thenable_for p j then Suc (thenables js p) else thenables js p)"
  by (simp_all add: thenables_def)

lemma thenables_reactions [simp]: "thenables (map (\<lambda>r. ReactionJob c r v) rs) p = 0"
  by (induction rs) auto

lemma open_pairs_append [simp]: "open_pairs (rs @ [(q, b)]) p = open_pairs rs p + (if q = p \<and> \<not> b then 1 else 0)"
  by (simp add: open_pairs_def)

lemma open_pairs_resolve:
  assumes "i < length rs" "rs ! i = (q, False)"
  shows "open_pairs rs p = open_pairs (rs[i := (q, True)]) p + (if q = p then 1 else 0)"
  using assms
proof (induction rs arbitrary: i)
  case (Cons r rs)
  then show ?case by (cases i) (auto simp: open_pairs_def)
qed simp

lemma trigger_eq:
  "triggerPromiseReactions c st rs v = st\<lparr>ps_jobs := ps_jobs st @ map (\<lambda>r. ReactionJob c r v) rs\<rparr>"
  unfolding triggerPromiseReactions_def
  by (induction rs arbitrary: st) (auto simp: enqueueJob_def)

lemma reject_eq:
  "reject c st p v = (case ps_promises st p of None \<Rightarrow> None
     | Some x \<Rightarrow> Some (st\<lparr>ps_jobs := ps_jobs st @ map (\<lambda>r. ReactionJob c r v) (p_rejectReactions x),
         ps_promises := (ps_promises st)(p \<mapsto> settled_as Rejected v x)\<rparr>))"
  by (simp add: reject_def trigger_eq Let_def split: option.split)

lemma fulfill_eq:
  "fulfill c st p v = (case ps_promises st p of None \<Rightarrow> None
     | Some x \<Rightarrow> Some (st\<lparr>ps_jobs := ps_jobs st @ map (\<lambda>r. ReactionJob c r v) (p_fulfillReactions x),
         ps_promises := (ps_promises st)(p \<mapsto> settled_as FulFilled v x)\<rparr>))"
  by (simp add: fulfill_def trigger_eq Let_def split: option.split)


section \<open>Single operations\<close>

lemma pinv_promise: "pinv st \<Longrightarrow> ps_promises st p = Some x \<Longrightarrow> promise_ok st p x"
  by (simp add: pinv_def)

lemma pinv_fn: "pinv st \<Longrightarrow> ps_fns st f = Some (i, b) \<Longrightarrow> i < length (ps_resolvers st)"
  unfolding pinv_def by blast

lemma pinv_resolver: "pinv st \<Longrightarrow> r \<in> set (ps_resolvers st) \<Longrightarrow> ps_promises st (fst r) \<noteq> None"
  unfolding pinv_def by blast

text \<open>Settling a pending promise that nothing else can settle.\<close>

lemma settle_ok:
  assumes inv: "pinv st" and x: "ps_promises st p = Some x" "p_state x = Pending" "tickets st p = 0"
    and s: "s \<noteq> Pending" and rs: "\<forall>r \<in> set rs. reaction_ok r"
  shows "pinv (st\<lparr>ps_jobs := ps_jobs st @ map (\<lambda>r. ReactionJob c r v) rs,
      ps_promises := (ps_promises st)(p \<mapsto> settled_as s v x)\<rparr>)" (is "pinv ?st")
proof -
  have t: "tickets ?st q = tickets st q" for q by (simp add: tickets_def)
  have "promise_ok ?st q y" if y: "ps_promises ?st q = Some y" for q y
  proof (cases "q = p")
    case True
    with y s x pinv_promise [OF inv x(1)] show ?thesis
      by (auto simp: promise_ok_def tickets_def settled_as_def)
  next
    case False
    with y have "promise_ok st q y" using pinv_promise [OF inv] by simp
    with t [of q] show ?thesis unfolding promise_ok_def by (auto split: if_splits)
  qed
  moreover have "job_ok ?st j" if "j \<in> set (ps_jobs ?st)" for j
  proof -
    have "j \<in> set (ps_jobs st) \<or> (\<exists>r \<in> set rs. j = ReactionJob c r v)" using that by auto
    moreover have "job_ok st j' \<Longrightarrow> job_ok ?st j'" for j' by (cases j') auto
    ultimately show ?thesis using inv rs by (auto simp: pinv_def)
  qed
  moreover have "\<forall>r \<in> set (ps_resolvers ?st). ps_promises ?st (fst r) \<noteq> None" using inv by (simp add: pinv_def)
  ultimately show ?thesis using inv by (simp add: pinv_def)
qed

lemma promise_reactions:
  "pinv st \<Longrightarrow> ps_promises st p = Some x \<Longrightarrow>
   (\<forall>r \<in> set (p_fulfillReactions x). reaction_ok r) \<and> (\<forall>r \<in> set (p_rejectReactions x). reaction_ok r)"
  using pinv_promise [of st p x] by (auto simp: promise_ok_def)

text \<open>The state between the use of a pair and the settling: its promise waits for nothing else.\<close>

definition reserved :: "'w pstate \<Rightarrow> nat \<Rightarrow> 'w pstate \<Rightarrow> bool" where
  "reserved st p st' \<longleftrightarrow> pinv st' \<and> evolves st st' \<and> ps_promises st p \<noteq> None \<and>
     tickets st p = 1 \<and> tickets st' p = 0 \<and> (\<exists>x. ps_promises st' p = Some x \<and> p_state x = Pending)"

lemma settle_evolves:
  assumes ev: "evolves st st1" and p: "tickets st p = 1" "tickets st1 p = 0"
    and x: "ps_promises st1 p = Some x" "p_state x = Pending"
    and st2: "ps_promises st2 = (ps_promises st1)(p \<mapsto> y)" "ps_resolvers st2 = ps_resolvers st1" "ps_fns st2 = ps_fns st1"
      "\<And>q. tickets st2 q = tickets st1 q"
  shows "evolves st st2"
  unfolding evolves_def
proof (intro conjI allI impI)
  fix q z assume z: "ps_promises st q = Some z"
  have e: "tickets st1 q \<le> tickets st q" "\<exists>y. ps_promises st1 q = Some y \<and> (p_state z \<noteq> Pending \<longrightarrow> y = z) \<and>
      (tickets st1 q = tickets st q \<longrightarrow> p_state y = p_state z)" using ev z unfolding evolves_def by blast+
  then show "tickets st2 q \<le> tickets st q" using st2(4) by simp
  show "\<exists>y. ps_promises st2 q = Some y \<and> (p_state z \<noteq> Pending \<longrightarrow> y = z) \<and>
      (tickets st2 q = tickets st q \<longrightarrow> p_state y = p_state z)"
    using e(2) st2(1,4) p x by (cases "q = p") auto
next
  show "length (ps_resolvers st) \<le> length (ps_resolvers st2)" using ev st2(2) by (simp add: evolves_def)
next
  fix i assume "i < length (ps_resolvers st)"
  then show "fst (ps_resolvers st2 ! i) = fst (ps_resolvers st ! i)" "snd (ps_resolvers st ! i) \<Longrightarrow> snd (ps_resolvers st2 ! i)"
    using ev st2(2) by (auto simp: evolves_def)
next
  fix f assume "ps_fns st f \<noteq> None"
  then show "ps_fns st2 f = ps_fns st f" using ev st2(3) unfolding evolves_def by metis
qed

lemma settle_reserved:
  assumes r: "reserved st p st1"
  shows "safe_from st (returns_undefined (reject c st1 p v))" "safe_from st (returns_undefined (fulfill c st1 p v))"
proof -
  obtain x where x: "ps_promises st1 p = Some x" "p_state x = Pending" and inv: "pinv st1" and ev: "evolves st st1"
    and t: "tickets st p = 1" "tickets st1 p = 0" using r by (auto simp: reserved_def)
  let ?new = "\<lambda>rs s. st1\<lparr>ps_jobs := ps_jobs st1 @ map (\<lambda>r. ReactionJob c r v) rs,
      ps_promises := (ps_promises st1)(p \<mapsto> settled_as s v x)\<rparr>"
  have "pinv (?new rs s) \<and> evolves st (?new rs s)" if "s \<noteq> Pending" "\<forall>r \<in> set rs. reaction_ok r" for rs s
  proof
    show "pinv (?new rs s)" by (rule settle_ok [OF inv x t(2) that])
    show "evolves st (?new rs s)" by (rule settle_evolves [OF ev t x]) (auto simp: tickets_def)
  qed
  with promise_reactions [OF inv x(1)] x(1)
  show "safe_from st (returns_undefined (reject c st1 p v))" "safe_from st (returns_undefined (fulfill c st1 p v))"
    by (simp_all add: safe_from_def returns_undefined_def reject_eq fulfill_eq)
qed

lemma reserved_step:
  assumes r: "reserved st p st1" and ev: "evolves st1 st2" and inv: "pinv st2"
  shows "reserved st p st2"
proof -
  obtain x where x: "ps_promises st1 p = Some x" "p_state x = Pending" "tickets st1 p = 0" using r by (auto simp: reserved_def)
  then obtain y where "ps_promises st2 p = Some y" "tickets st2 p = 0" "p_state y = Pending"
    using ev unfolding evolves_def by (metis le_zero_eq)
  with r inv evolves_trans [OF _ ev] show ?thesis by (auto simp: reserved_def)
qed


section \<open>The resolving functions\<close>

lemma set_resolved_reserved:
  assumes inv: "pinv st" and i: "i < length (ps_resolvers st)" "ps_resolvers st ! i = (p, False)"
  shows "reserved st p (set_resolved st i)"
proof -
  let ?st = "set_resolved st i"
  have rs: "ps_resolvers ?st = (ps_resolvers st)[i := (p, True)]" using i(2) by (simp add: set_resolved_def)
  have other: "ps_promises ?st = ps_promises st" "ps_jobs ?st = ps_jobs st" "ps_fns ?st = ps_fns st" "ps_next ?st = ps_next st"
    by (simp_all add: set_resolved_def)
  have t: "tickets st q = tickets ?st q + (if p = q then 1 else 0)" for q
    using open_pairs_resolve [OF i, of q] by (simp add: tickets_def rs other)
  have "(p, False) \<in> set (ps_resolvers st)" using i nth_mem by metis
  then obtain x where x: "ps_promises st p = Some x" using inv by (fastforce simp: pinv_def)
  have "tickets st p \<ge> 1" using t [of p] by simp
  with pinv_promise [OF inv x] have px: "p_state x = Pending" "tickets st p = 1"
    by (auto simp: promise_ok_def split: if_splits)
  have "promise_ok ?st q y" if "ps_promises st q = Some y" for q y
    using pinv_promise [OF inv that] t [of q] px by (auto simp: promise_ok_def other split: if_splits)
  moreover have "job_ok st j \<Longrightarrow> job_ok ?st j" for j by (cases j) (auto simp: other)
  moreover have "\<forall>r \<in> set (ps_resolvers ?st). ps_promises st (fst r) \<noteq> None"
    using pinv_resolver [OF inv] x unfolding rs by (metis fst_conv insertE option.distinct(1) set_update_subset_insert subsetD)
  ultimately have inv': "pinv ?st" using inv by (simp add: pinv_def other rs)
  have "evolves st ?st"
    unfolding evolves_def
  proof (intro conjI allI impI)
    fix q z assume z: "ps_promises st q = Some z"
    then show "tickets ?st q \<le> tickets st q" using t [of q] by simp
    show "\<exists>y. ps_promises ?st q = Some y \<and> (p_state z \<noteq> Pending \<longrightarrow> y = z) \<and>
      (tickets ?st q = tickets st q \<longrightarrow> p_state y = p_state z)" using z by (simp add: other)
  qed (use i in \<open>auto simp: other rs nth_list_update\<close>)
  with inv' t [of p] px x show ?thesis by (auto simp: reserved_def other)
qed

lemma promiseRejectFunctions_ok:
  assumes "pinv st" "i < length (ps_resolvers st)"
  shows "safe_from st (promiseRejectFunctions env st i v)"
proof (cases "snd (ps_resolvers st ! i)")
  case True
  with assms show ?thesis by (auto simp: promiseRejectFunctions_def safe_from_def split_beta)
next
  case False
  then obtain p where p: "ps_resolvers st ! i = (p, False)" by (cases "ps_resolvers st ! i") auto
  with settle_reserved(1) [OF set_resolved_reserved [OF assms p]] assms show ?thesis
    by (simp add: promiseRejectFunctions_def)
qed

lemma enqueue_thenable:
  assumes r: "reserved st p st1"
  shows "safe_from st (Some (enqueueJob st1 (ThenableJob c p q t), Inr v))"
proof -
  let ?st = "enqueueJob st1 (ThenableJob c p q t)"
  have inv: "pinv st1" and ev: "evolves st st1" and tk: "tickets st p = 1" "tickets st1 p = 0"
    and ex: "\<exists>x. ps_promises st1 p = Some x \<and> p_state x = Pending" using r by (auto simp: reserved_def)
  have t: "tickets ?st s = tickets st1 s + (if p = s then 1 else 0)" for s
    by (simp add: tickets_def enqueueJob_def)
  have other: "ps_promises ?st = ps_promises st1" "ps_resolvers ?st = ps_resolvers st1" "ps_fns ?st = ps_fns st1"
    "ps_next ?st = ps_next st1" "ps_jobs ?st = ps_jobs st1 @ [ThenableJob c p q t]" by (simp_all add: enqueueJob_def)
  have "promise_ok ?st s y" if "ps_promises st1 s = Some y" for s y
    using pinv_promise [OF inv that] t [of s] tk ex that by (auto simp: promise_ok_def other split: if_splits)
  moreover have "job_ok st1 j \<Longrightarrow> job_ok ?st j" for j by (cases j) (auto simp: other)
  ultimately have "pinv ?st" using inv ex by (auto simp: pinv_def other)
  moreover have "evolves st ?st"
    unfolding evolves_def
  proof (intro conjI allI impI)
    fix s z assume z: "ps_promises st s = Some z"
    have e: "tickets st1 s \<le> tickets st s" "\<exists>y. ps_promises st1 s = Some y \<and> (p_state z \<noteq> Pending \<longrightarrow> y = z) \<and>
      (tickets st1 s = tickets st s \<longrightarrow> p_state y = p_state z)" using ev z unfolding evolves_def by blast+
    show "tickets ?st s \<le> tickets st s" using e(1) t [of s] tk by (auto split: if_splits)
    have "p_state z = Pending" if "s = p"
      using e(2) ex that by (metis option.inject)
    with e(2) ex show "\<exists>y. ps_promises ?st s = Some y \<and> (p_state z \<noteq> Pending \<longrightarrow> y = z) \<and>
      (tickets ?st s = tickets st s \<longrightarrow> p_state y = p_state z)"
      using t [of s] by (cases "s = p") (auto simp: other)
  qed (use ev in \<open>auto simp: evolves_def other\<close>)
  ultimately show ?thesis by (simp add: safe_from_def)
qed

lemma promiseResolveFunctions_ok:
  assumes u: "user_ok env" and inv: "pinv st" and i: "i < length (ps_resolvers st)"
  shows "safe_from st (promiseResolveFunctions env st i v)"
proof (cases "snd (ps_resolvers st ! i)")
  case True
  with inv i show ?thesis by (auto simp: promiseResolveFunctions_def safe_from_def split_beta)
next
  case False
  then obtain p where p: "ps_resolvers st ! i = (p, False)" by (cases "ps_resolvers st ! i") auto
  have r: "reserved st p (set_resolved st i)" by (rule set_resolved_reserved [OF inv i p])
  show ?thesis
  proof (cases "\<exists>o'. v = VObject o' \<and> o' \<noteq> p")
    case False
    with settle_reserved [OF r] i p show ?thesis by (cases v) (auto simp: promiseResolveFunctions_def)
  next
    case True
    then obtain q where v: "v = VObject q" "q \<noteq> p" by blast
    have "pinv (set_resolved st i)" using r by (simp add: reserved_def)
    with u have "safe_from (set_resolved st i) (Some (env_get_then env (set_resolved st i) q))" by (simp add: user_ok_def)
    then obtain st2 w where g: "env_get_then env (set_resolved st i) q = (st2, w)" "pinv st2" "evolves (set_resolved st i) st2"
      by (auto simp: safe_from_def)
    note r2 = reserved_step [OF r g(3,2)]
    show ?thesis
      using settle_reserved [OF r2] enqueue_thenable [OF r2] i p v g(1)
      by (cases w) (simp_all add: promiseResolveFunctions_def Let_def)
  qed
qed

lemma call_object_ok:
  assumes u: "user_ok env" and inv: "pinv st"
  shows "safe_from st (call_object env st (Some f) this args)"
proof (cases "ps_fns st f")
  case None
  with u inv show ?thesis by (simp add: call_object_def user_ok_def)
next
  case (Some r)
  then obtain i b where r: "ps_fns st f = Some (i, b)" by (cases r) auto
  then have "i < length (ps_resolvers st)" by (rule pinv_fn [OF inv])
  with r promiseResolveFunctions_ok [OF u inv] promiseRejectFunctions_ok [OF inv] show ?thesis
    by (simp add: call_object_def)
qed


section \<open>Jobs\<close>

lemma create_ok:
  assumes inv: "pinv st" and x: "ps_promises st p = Some x" "p_state x = Pending" "tickets st p = 0"
    and c: "createResolvingFunctions st p = (st', cap)"
  shows "pinv st' \<and> c_resolve cap \<noteq> None \<and> c_reject cap \<noteq> None \<and> ps_promises st' = ps_promises st \<and>
    ps_resolvers st' = ps_resolvers st @ [(p, False)] \<and> ps_jobs st' = ps_jobs st \<and>
    (\<forall>f. ps_fns st f \<noteq> None \<longrightarrow> ps_fns st' f = ps_fns st f)"
proof -
  have st': "ps_promises st' = ps_promises st" "ps_resolvers st' = ps_resolvers st @ [(p, False)]" "ps_jobs st' = ps_jobs st"
    "ps_next st' = ps_next st + 2"
    "ps_fns st' = (ps_fns st)(ps_next st \<mapsto> (length (ps_resolvers st), False), ps_next st + 1 \<mapsto> (length (ps_resolvers st), True))"
    and cap: "c_resolve cap \<noteq> None" "c_reject cap \<noteq> None"
    using c by (auto simp: createResolvingFunctions_def Let_def)
  have t: "tickets st' q = tickets st q + (if p = q then 1 else 0)" for q by (simp add: tickets_def st')
  have ok: "promise_ok st' q y" if "ps_promises st q = Some y" for q y
    using pinv_promise [OF inv that] t [of q] x that by (auto simp: promise_ok_def st' split: if_splits)
  have fresh: "ps_fns st f \<noteq> None \<Longrightarrow> f < ps_next st" for f using inv unfolding pinv_def by fast
  have job: "job_ok st j \<Longrightarrow> job_ok st' j" for j by (cases j) (auto simp: st')
  have fns: "i < length (ps_resolvers st') \<and> f < ps_next st'" if "ps_fns st' f = Some (i, b)" for f i b
    using that inv unfolding pinv_def by (auto simp: st' split: if_splits) (metis less_SucI, metis add_lessD1 less_SucI)
  have "\<forall>r \<in> set (ps_resolvers st'). ps_promises st' (fst r) \<noteq> None"
    using inv x(1) by (auto simp: st' pinv_def)
  moreover have "\<forall>j \<in> set (ps_jobs st'). job_ok st' j" using inv job unfolding pinv_def st' by blast
  ultimately have "pinv st'" unfolding pinv_def using ok fns st'(1) by metis
  moreover have "ps_fns st' f = ps_fns st f" if "ps_fns st f \<noteq> None" for f
    using fresh [OF that] by (simp add: st')
  ultimately show ?thesis using cap st' by blast
qed

text \<open>Calling a function after a state that was reached safely.\<close>

lemma safe_call:
  assumes u: "user_ok env" and r: "safe_from st (Some (st1, w))" and f: "f \<noteq> None"
  shows "safe_from st (call_object env st1 f this args)"
proof -
  obtain g where g: "f = Some g" using f by blast
  have s: "evolves st st1" "pinv st1" using r by (auto simp: safe_from_def)
  show ?thesis unfolding g by (rule safe_from_step [OF s(1) call_object_ok [OF u s(2)]])
qed

lemma run_reaction_job_ok:
  assumes u: "user_ok env" and inv: "pinv st" and r: "reaction_ok r"
  shows "safe_from st (run_reaction_job env st r v)"
proof -
  let ?cap = "r_capability r"
  have start: "safe_from st (Some (st, Inr VUndefined))" using inv by (simp add: safe_from_def)
  show ?thesis
  proof (cases "r_handler r")
    case (Handler h)
    obtain st1 w where c: "call_object env st (Some h) VUndefined [v] = Some (st1, w)" and s1: "safe_from st (Some (st1, w))"
      using call_object_ok [OF u inv, of h VUndefined "[v]"] by (auto simp: safe_from_def)
    have "safe_from st (call_handler env st ?cap h v)"
      using c s1 safe_call [OF u s1, of "c_resolve ?cap"] r by (cases w) (auto simp: call_handler_def reaction_ok_def safe_from_def)
    then obtain st2 w2 where h: "call_handler env st ?cap h v = Some (st2, w2)" and s2: "safe_from st (Some (st2, w2))"
      by (auto simp: safe_from_def)
    with Handler safe_call [OF u s2, of "c_reject ?cap"] show ?thesis
      by (cases w2) (auto simp: run_reaction_job_def safe_from_def)
  qed (use r safe_call [OF u start] in \<open>auto simp: run_reaction_job_def reaction_ok_def\<close>)
qed

lemma pop_ok:
  assumes inv: "pinv st" and j: "ps_jobs st = j # js"
  shows "pinv (st\<lparr>ps_jobs := js\<rparr>)" and "tickets st p = tickets (st\<lparr>ps_jobs := js\<rparr>) p + (if is_thenable_for p j then 1 else 0)"
proof -
  let ?st = "st\<lparr>ps_jobs := js\<rparr>"
  have t: "tickets st p = tickets ?st p + (if is_thenable_for p j then 1 else 0)" for p by (simp add: tickets_def j)
  then show "tickets st p = tickets ?st p + (if is_thenable_for p j then 1 else 0)" .
  have "promise_ok ?st q y" if "ps_promises st q = Some y" for q y
    using pinv_promise [OF inv that] t [of q] by (auto simp: promise_ok_def split: if_splits)
  moreover have "job_ok st i \<Longrightarrow> job_ok ?st i" for i by (cases i) auto
  ultimately show "pinv ?st" using inv by (simp add: pinv_def j)
qed

lemma run_thenable_job_ok:
  assumes u: "user_ok env" and inv: "pinv st" and j: "ps_jobs st = ThenableJob c p r t # js"
  shows "safe_from st (run_thenable_job env (st\<lparr>ps_jobs := js\<rparr>) p r t)"
proof -
  let ?st = "st\<lparr>ps_jobs := js\<rparr>"
  have tk: "tickets st q = tickets ?st q + (if p = q then 1 else 0)" for q using pop_ok(2) [OF inv j, of q] by simp
  obtain x where x: "ps_promises st p = Some x" using inv j by (auto simp: pinv_def)
  with pinv_promise [OF inv x] tk [of p] have px: "p_state x = Pending" "tickets ?st p = 0"
    by (auto simp: promise_ok_def split: if_splits)
  obtain st1 cap where c: "createResolvingFunctions ?st p = (st1, cap)" by (cases "createResolvingFunctions ?st p")
  have st1: "pinv st1" "c_resolve cap \<noteq> None" "c_reject cap \<noteq> None" "ps_promises st1 = ps_promises st"
    "ps_resolvers st1 = ps_resolvers st @ [(p, False)]" "ps_jobs st1 = js"
    "\<forall>f. ps_fns st f \<noteq> None \<longrightarrow> ps_fns st1 f = ps_fns st f"
    using create_ok [OF pop_ok(1) [OF inv j] _ px c] x by simp_all
  have "tickets st1 q = tickets st q" for q using tk [of q] by (simp add: tickets_def st1)
  then have "evolves st st1" using st1 by (auto simp: evolves_def nth_append)
  then have s1: "safe_from st (Some (st1, Inr VUndefined))" using st1(1) by (simp add: safe_from_def)
  obtain st2 w where k: "call_object env st1 (Some t) (VObject r) [VObject (the (c_resolve cap)), VObject (the (c_reject cap))] = Some (st2, w)"
    and s2: "safe_from st (Some (st2, w))"
    using safe_call [OF u s1, of "Some t" "VObject r" "[VObject (the (c_resolve cap)), VObject (the (c_reject cap))]"]
    by (auto simp: safe_from_def)
  with c safe_call [OF u s2 st1(3)] show ?thesis by (cases w) (simp_all add: run_thenable_job_def)
qed

lemma user_ok_context: "user_ok env \<Longrightarrow> user_ok (env\<lparr>env_context := c\<rparr>)"
  by (simp add: user_ok_def)

lemma executePendingJob_ok:
  assumes u: "user_ok env" and inv: "pinv st" and n: "hasNextJob st"
  shows "safe_from st (executePendingJob env st)"
proof -
  obtain j js where j: "ps_jobs st = j # js" using n by (cases "ps_jobs st") (auto simp: hasNextJob_def)
  have u': "user_ok (env\<lparr>env_context := c\<rparr>)" for c by (rule user_ok_context [OF u])
  show ?thesis
  proof (cases j)
    case (ThenableJob c p r t)
    with run_thenable_job_ok [OF u' inv] j show ?thesis by (simp add: executePendingJob_def nextJob_def)
  next
    case (ReactionJob c r v)
    have "tickets (st\<lparr>ps_jobs := js\<rparr>) p = tickets st p" for p using pop_ok(2) [OF inv j, of p] ReactionJob by simp
    then have "evolves st (st\<lparr>ps_jobs := js\<rparr>)" by (simp add: evolves_def)
    moreover have "reaction_ok r" using inv j ReactionJob by (auto simp: pinv_def)
    ultimately show ?thesis
      using run_reaction_job_ok [OF u' pop_ok(1) [OF inv j]] safe_from_step j ReactionJob
      by (fastforce simp: executePendingJob_def nextJob_def)
  qed
qed


section \<open>The other operations\<close>

lemma new_promise_ok:
  assumes inv: "pinv st" and n: "new_promise st = (st1, p)"
  shows "pinv st1 \<and> evolves st st1 \<and> tickets st1 p = 0 \<and>
    (\<exists>x. ps_promises st1 p = Some x \<and> p_state x = Pending) \<and> ps_promises st p = None"
proof -
  have p: "p = ps_next st" and st1: "ps_promises st1 = (ps_promises st)(p \<mapsto>
      \<lparr>p_state = Pending, p_result = VUndefined, p_fulfillReactions = [], p_rejectReactions = []\<rparr>)"
    "ps_resolvers st1 = ps_resolvers st" "ps_jobs st1 = ps_jobs st" "ps_fns st1 = ps_fns st" "ps_next st1 = ps_next st + 1"
    using n by (auto simp: new_promise_def)
  have none: "ps_promises st p = None"
  proof (rule ccontr)
    assume "ps_promises st p \<noteq> None"
    then obtain x where "ps_promises st p = Some x" by blast
    from pinv_promise [OF inv this] show False by (simp add: promise_ok_def p)
  qed
  have t: "tickets st1 q = tickets st q" for q by (simp add: tickets_def st1)
  have res: "fst r \<noteq> p" if "r \<in> set (ps_resolvers st)" for r using pinv_resolver [OF inv that] none by auto
  have job: "\<not> is_thenable_for p j" if "j \<in> set (ps_jobs st)" for j
    using inv that none by (cases j) (auto simp: pinv_def)
  have "open_pairs (ps_resolvers st) p = 0" using res by (auto simp: open_pairs_def filter_empty_conv)
  moreover have "thenables (ps_jobs st) p = 0" using job by (auto simp: thenables_def filter_empty_conv)
  ultimately have zero: "tickets st1 p = 0" by (simp add: tickets_def st1)
  have ok: "promise_ok st1 q y" if "ps_promises st1 q = Some y" for q y
  proof (cases "q = p")
    case True
    with that zero show ?thesis by (auto simp: promise_ok_def st1 p)
  next
    case False
    with that have "promise_ok st q y" using pinv_promise [OF inv] by (simp add: st1)
    with t [of q] show ?thesis by (auto simp: promise_ok_def st1 split: if_splits)
  qed
  have "job_ok st j \<Longrightarrow> job_ok st1 j" for j by (cases j) (auto simp: st1)
  moreover have "i < length (ps_resolvers st1) \<and> f < ps_next st1" if "ps_fns st1 f = Some (i, b)" for f i b
    using that inv unfolding pinv_def st1 by (metis less_add_one less_trans)
  ultimately have "pinv st1" unfolding pinv_def using ok inv by (auto simp: pinv_def st1)
  moreover have "evolves st st1" using t none by (auto simp: evolves_def st1)
  ultimately show ?thesis using zero none by (simp add: st1)
qed

lemma newPromiseCapability_ok:
  assumes inv: "pinv st" and n: "newPromiseCapability st = (st2, cap)"
  shows "pinv st2 \<and> evolves st st2 \<and> c_resolve cap \<noteq> None \<and> c_reject cap \<noteq> None"
proof -
  obtain st1 p where p: "new_promise st = (st1, p)" by (cases "new_promise st")
  have st1: "pinv st1" "evolves st st1" "tickets st1 p = 0" "\<exists>x. ps_promises st1 p = Some x \<and> p_state x = Pending"
    "ps_promises st p = None" using new_promise_ok [OF inv p] by auto
  have c: "createResolvingFunctions st1 p = (st2, cap)" using n p by (simp add: newPromiseCapability_def)
  obtain x where x: "ps_promises st1 p = Some x" "p_state x = Pending" using st1(4) by blast
  note st2 = create_ok [OF st1(1) x st1(3) c]
  have "tickets st2 q = tickets st1 q" if "ps_promises st q \<noteq> None" for q
    using st2 that st1(5) by (auto simp: tickets_def)
  moreover have "evolves st st1" by fact
  ultimately have "evolves st st2" using st2 unfolding evolves_def
    by (auto simp: nth_append)
  with st2 show ?thesis by blast
qed


lemma enqueue_reaction_ok:
  assumes inv: "pinv st" and r: "reaction_ok r"
  shows "pinv (enqueueJob st (ReactionJob c r v)) \<and> evolves st (enqueueJob st (ReactionJob c r v))"
proof -
  let ?st = "enqueueJob st (ReactionJob c r v)"
  have t: "tickets ?st q = tickets st q" for q by (simp add: tickets_def enqueueJob_def)
  have "promise_ok ?st q y" if "ps_promises st q = Some y" for q y
    using pinv_promise [OF inv that] t [of q] by (auto simp: promise_ok_def enqueueJob_def tickets_def)
  moreover have "job_ok st j \<Longrightarrow> job_ok ?st j" for j by (cases j) (auto simp: enqueueJob_def)
  ultimately have "pinv ?st" using inv r by (auto simp: pinv_def enqueueJob_def)
  moreover have "evolves st ?st" using t by (auto simp: evolves_def enqueueJob_def)
  ultimately show ?thesis ..
qed

text \<open>What the callers of \<^verbatim>\<open>then\<close> guarantee: a complete capability, or two functions and none.\<close>

definition then_args_ok :: "'w penv \<Rightarrow> 'w pstate \<Rightarrow> jsval \<Rightarrow> jsval \<Rightarrow> capability option \<Rightarrow> bool" where
  "then_args_ok env st a b k =
     (case k of
        Some cap \<Rightarrow> c_resolve cap \<noteq> None \<and> c_reject cap \<noteq> None
      | None \<Rightarrow> is_callable env st a \<and> is_callable env st b)"

lemma promise_then_ok:
  assumes inv: "pinv st" and x: "ps_promises st p = Some x" and a: "then_args_ok env st onF onR k"
  shows "\<exists>st' q. promise_then env st p onF onR k = Some (st', q) \<and> pinv st' \<and> evolves st st'"
proof -
  let ?cap = "case k of Some c \<Rightarrow> c | None \<Rightarrow> no_capability"
  let ?f = "\<lparr>r_capability = ?cap, r_handler = handler_of env st Identity onF\<rparr>"
  let ?r = "\<lparr>r_capability = ?cap, r_handler = handler_of env st Thrower onR\<rparr>"
  have ok: "reaction_ok ?f" "reaction_ok ?r"
    using a by (auto simp: then_args_ok_def reaction_ok_def handler_of_def no_capability_def split: option.splits)
  show ?thesis
  proof (cases "p_state x")
    case Pending
    let ?x = "x\<lparr>p_fulfillReactions := p_fulfillReactions x @ [?f], p_rejectReactions := p_rejectReactions x @ [?r]\<rparr>"
    let ?st = "st\<lparr>ps_promises := (ps_promises st)(p \<mapsto> ?x)\<rparr>"
    have t: "tickets ?st q = tickets st q" for q by (simp add: tickets_def)
    have po: "promise_ok ?st q y" if y: "ps_promises ?st q = Some y" for q y
    proof (cases "q = p")
      case True
      then have "y = ?x" using y by simp
      with True pinv_promise [OF inv x] ok Pending t [of p] show ?thesis
        by (auto simp: promise_ok_def tickets_def split: if_splits)
    next
      case False
      with y have "promise_ok st q y" using pinv_promise [OF inv] by simp
      with t [of q] show ?thesis by (auto simp: promise_ok_def split: if_splits)
    qed
    have "job_ok st j \<Longrightarrow> job_ok ?st j" for j by (cases j) auto
    with po inv have "pinv ?st" unfolding pinv_def by (auto simp del: fun_upd_apply) (auto)
    moreover have "evolves st ?st" using t x Pending by (auto simp: evolves_def)
    ultimately show ?thesis using x Pending by (simp add: promise_then_def Let_def)
  next
    case FulFilled
    with x enqueue_reaction_ok [OF inv ok(1)] show ?thesis by (simp add: promise_then_def Let_def)
  next
    case Rejected
    with x enqueue_reaction_ok [OF inv ok(2)] show ?thesis by (simp add: promise_then_def Let_def)
  qed
qed

lemma builtinPromiseConstructor_ok:
  assumes u: "user_ok env" and inv: "pinv st"
  shows "safe_from st (builtinPromiseConstructor env st e)"
proof (cases "is_callable env st e")
  case False
  with inv show ?thesis by (simp add: builtinPromiseConstructor_def safe_from_def)
next
  case True
  obtain st1 p where n: "new_promise st = (st1, p)" by (cases "new_promise st")
  obtain st2 cap where c: "createResolvingFunctions st1 p = (st2, cap)" by (cases "createResolvingFunctions st1 p")
  have "newPromiseCapability st = (st2, cap)" using n c by (simp add: newPromiseCapability_def)
  note ok = newPromiseCapability_ok [OF inv this]
  then have s2: "safe_from st (Some (st2, Inr VUndefined))" by (simp add: safe_from_def)
  let ?args = "[VObject (the (c_resolve cap)), VObject (the (c_reject cap))]"
  obtain st3 w where k: "call_object env st2 (Some (obj_of e)) VUndefined ?args = Some (st3, w)"
    and s3: "safe_from st (Some (st3, w))"
    using safe_call [OF u s2, of "Some (obj_of e)" VUndefined ?args] by (auto simp: safe_from_def)
  show ?thesis
  proof (cases w)
    case (Inr v)
    with True n c k s3 show ?thesis by (simp add: builtinPromiseConstructor_def safe_from_def)
  next
    case (Inl err)
    obtain st4 w4 where k4: "call_object env st3 (c_reject cap) VUndefined [err] = Some (st4, w4)"
      and s4: "safe_from st (Some (st4, w4))"
      using safe_call [OF u s3, of "c_reject cap" VUndefined "[err]"] ok by (auto simp: safe_from_def)
    with Inl True n c k show ?thesis by (cases w4) (simp_all add: builtinPromiseConstructor_def safe_from_def)
  qed
qed

lemma clear_jobs_filter: "clear_jobs c js = filter (\<lambda>j. j_context j \<noteq> c) js"
  by (induction js) auto

lemma clear_ok:
  assumes inv: "pinv st"
  shows "pinv (clearJobRelatedWithSpecificContext st c) \<and> evolves st (clearJobRelatedWithSpecificContext st c)"
proof -
  let ?st = "clearJobRelatedWithSpecificContext st c"
  have st: "ps_promises ?st = ps_promises st" "ps_resolvers ?st = ps_resolvers st" "ps_fns ?st = ps_fns st"
    "ps_next ?st = ps_next st" "ps_jobs ?st = filter (\<lambda>j. j_context j \<noteq> c) (ps_jobs st)"
    by (simp_all add: clearJobRelatedWithSpecificContext_def clear_jobs_filter)
  have "thenables (filter (\<lambda>j. j_context j \<noteq> c) js) q \<le> thenables js q" for js q by (induction js) auto
  then have t: "tickets ?st q \<le> tickets st q" for q by (simp add: tickets_def st)
  have "promise_ok ?st q y" if "ps_promises st q = Some y" for q y
    using pinv_promise [OF inv that] t [of q] by (auto simp: promise_ok_def st split: if_splits)
  moreover have "job_ok st j \<Longrightarrow> job_ok ?st j" for j by (cases j) (auto simp: st)
  ultimately have "pinv ?st" using inv by (simp add: pinv_def st)
  moreover have "evolves st ?st" using t by (auto simp: evolves_def st)
  ultimately show ?thesis ..
qed

section \<open>Runs\<close>

text \<open>
  A turn of the program: the event loop runs a job, a script makes a promise, calls any function
  object, registers handlers (with a fresh promise for their result, or, as \<^verbatim>\<open>await\<close> does, without
  one), or a realm goes away with its jobs.
\<close>

inductive turn :: "'w penv \<Rightarrow> 'w pstate \<Rightarrow> 'w pstate \<Rightarrow> bool" for env where
  turn_job: "executePendingJob env st = Some (st', v) \<Longrightarrow> turn env st st'"
| turn_new: "builtinPromiseConstructor env st e = Some (st', v) \<Longrightarrow> turn env st st'"
| turn_call: "call_object env st (Some f) this args = Some (st', v) \<Longrightarrow> turn env st st'"
| turn_then: "newPromiseCapability st = (st1, cap) \<Longrightarrow> promise_then env st1 p a b (Some cap) = Some (st', q) \<Longrightarrow> turn env st st'"
| turn_await: "is_callable env st a \<Longrightarrow> is_callable env st b \<Longrightarrow> promise_then env st p a b None = Some (st', q) \<Longrightarrow> turn env st st'"
| turn_clear: "turn env st (clearJobRelatedWithSpecificContext st c)"

inductive_cases turnE: "turn env st st'"

lemma turn_ok:
  assumes u: "user_ok env" and inv: "pinv st" and tr: "turn env st st'"
  shows "pinv st' \<and> evolves st st'"
  using tr
proof cases
  case (turn_job v)
  then have "hasNextJob st" by (auto simp: executePendingJob_def nextJob_def hasNextJob_def split: list.splits)
  with executePendingJob_ok [OF u inv] turn_job show ?thesis by (auto simp: safe_from_def)
next
  case (turn_new e v)
  with builtinPromiseConstructor_ok [OF u inv, of e] show ?thesis by (auto simp: safe_from_def)
next
  case (turn_call f this args v)
  with call_object_ok [OF u inv, of f this args] show ?thesis by (auto simp: safe_from_def)
next
  case (turn_then st1 cap p a b q)
  note n = newPromiseCapability_ok [OF inv turn_then(1)]
  obtain x where "ps_promises st1 p = Some x" using turn_then(2) by (auto simp: promise_then_def split: option.splits)
  moreover have "then_args_ok env st1 a b (Some cap)" using n by (simp add: then_args_ok_def)
  ultimately obtain st2 q' where "promise_then env st1 p a b (Some cap) = Some (st2, q')" "pinv st2" "evolves st1 st2"
    using promise_then_ok n by blast
  with n turn_then(2) evolves_trans show ?thesis by fastforce
next
  case (turn_await a b p q)
  obtain x where "ps_promises st p = Some x" using turn_await(3) by (auto simp: promise_then_def split: option.splits)
  with promise_then_ok [OF inv, of p x env a b None] turn_await show ?thesis by (auto simp: then_args_ok_def)
next
  case (turn_clear c)
  with clear_ok [OF inv] show ?thesis by simp
qed

lemma turns_ok:
  assumes u: "user_ok env" and tr: "(turn env)\<^sup>*\<^sup>* st st'" and inv: "pinv st"
  shows "pinv st' \<and> evolves st st'"
  using tr
proof (induction rule: rtranclp_induct)
  case (step y z)
  with turn_ok [OF u, of y z] evolves_trans [of st y z] show ?case by blast
qed (simp add: inv)

text \<open>
  C5. A promise settles at most once. From every state that satisfies the invariant (a state
  without promises, say), along every sequence of turns, with user code that reaches the promises
  only through their operations: the invariant holds, and a promise that is fulfilled or rejected
  keeps its state, its value and its empty lists of reactions for good.
\<close>

theorem promise_settles_once:
  assumes "user_ok env" "pinv st" "(turn env)\<^sup>*\<^sup>* st st'"
  shows "pinv st' \<and> (\<forall>p x. ps_promises st p = Some x \<longrightarrow> p_state x \<noteq> Pending \<longrightarrow> ps_promises st' p = Some x)"
proof -
  have "pinv st'" and ev: "evolves st st'" using turns_ok [OF assms(1,3,2)] by simp_all
  moreover have "ps_promises st' p = Some x" if "ps_promises st p = Some x" "p_state x \<noteq> Pending" for p x
    using that ev unfolding evolves_def by blast
  ultimately show ?thesis by blast
qed


text \<open>A program whose functions all return undefined, and a state with one fulfilled promise.\<close>

definition quiet_env :: "unit penv" where
  "quiet_env = \<lparr>env_call = (\<lambda>st f this args. (st, Inr VUndefined)), env_get_then = (\<lambda>st r. (st, Inr VUndefined)),
     env_callable = (\<lambda>f. True), env_typeError = VNull, env_context = 0\<rparr>"

definition done_promise :: promise where
  "done_promise = \<lparr>p_state = FulFilled, p_result = VBool True, p_fulfillReactions = [], p_rejectReactions = []\<rparr>"

definition done_state :: "unit pstate" where
  "done_state = \<lparr>ps_promises = [0 \<mapsto> done_promise], ps_resolvers = [], ps_fns = (\<lambda>f. None), ps_jobs = [],
     ps_next = 1, ps_world = ()\<rparr>"

lemma quiet_env_ok: "user_ok quiet_env"
  by (simp add: user_ok_def safe_from_def quiet_env_def)

lemma done_state_ok: "pinv done_state"
  by (auto simp: pinv_def done_state_def promise_ok_def done_promise_def tickets_def open_pairs_def split: if_splits)

theorem promise_settles_once_witness:
  "\<exists>st'. turn quiet_env done_state st' \<and> ps_jobs st' = [ReactionJob 0 \<lparr>r_capability = no_capability, r_handler = Handler 5\<rparr> (VBool True)] \<and>
     ps_promises st' 0 = Some done_promise"
proof -
  let ?st = "enqueueJob done_state (ReactionJob 0 \<lparr>r_capability = no_capability, r_handler = Handler 5\<rparr> (VBool True))"
  have "promise_then quiet_env done_state 0 (VObject 5) (VObject 6) None = Some (?st, None)"
    by (simp add: promise_then_def done_state_def done_promise_def handler_of_def is_callable_def quiet_env_def obj_of_def
        no_capability_def)
  then have tr: "turn quiet_env done_state ?st"
    by (rule turn_await [rotated 2]) (simp_all add: is_callable_def quiet_env_def)
  then have "(turn quiet_env)\<^sup>*\<^sup>* done_state ?st" by blast
  from promise_settles_once [OF quiet_env_ok done_state_ok this]
  have "ps_promises ?st 0 = Some done_promise" by (simp add: done_state_def done_promise_def)
  with tr show ?thesis by (auto simp: enqueueJob_def done_state_def)
qed

text \<open>
  C31. The event loop never calls a null function pointer and never loses track of a promise:
  when a job is pending in a state that satisfies the invariant, \<^verbatim>\<open>executePendingJob\<close> returns, with a
  value or an exception, in a state that satisfies it again.
\<close>

theorem executePendingJob_returns:
  assumes "user_ok env" "pinv st" "hasNextJob st"
  shows "\<exists>st' v. executePendingJob env st = Some (st', v) \<and> pinv st'"
  using executePendingJob_ok [OF assms] by (auto simp: safe_from_def)

theorem executePendingJob_returns_witness:
  "\<exists>st' v. executePendingJob quiet_env (enqueueJob done_state (ReactionJob 0 \<lparr>r_capability = no_capability, r_handler = Handler 5\<rparr> VNull)) =
     Some (st', v) \<and> pinv st'"
proof (rule executePendingJob_returns [OF quiet_env_ok])
  have "reaction_ok \<lparr>r_capability = no_capability, r_handler = Handler 5\<rparr>" by (simp add: reaction_ok_def no_capability_def)
  from enqueue_reaction_ok [OF done_state_ok this]
  show "pinv (enqueueJob done_state (ReactionJob 0 \<lparr>r_capability = no_capability, r_handler = Handler 5\<rparr> VNull))" by blast
qed (simp add: hasNextJob_def enqueueJob_def)

section \<open>Pairs of resolving functions\<close>

lemma used_pair_idle:
  assumes "pinv st" "ps_fns st g = Some (i, b)" "snd (ps_resolvers st ! i)"
  shows "call_object env st (Some g) this args = Some (st, Inr VUndefined)"
proof -
  have "i < length (ps_resolvers st)" by (rule pinv_fn [OF assms(1,2)])
  with assms(2,3) show ?thesis
    by (auto simp: call_object_def promiseResolveFunctions_def promiseRejectFunctions_def split_beta Let_def)
qed

text \<open>A call of either function of a pair leaves the flag of the pair set.\<close>

lemma reserved_flag:
  assumes "evolves (set_resolved st i) st'" "i < length (ps_resolvers st)"
  shows "snd (ps_resolvers st' ! i)"
proof -
  have "i < length (ps_resolvers (set_resolved st i))" "snd (ps_resolvers (set_resolved st i) ! i)"
    using assms(2) by (simp_all add: set_resolved_def)
  with assms(1) show ?thesis unfolding evolves_def by blast
qed

lemma returns_resolvers:
  "returns_undefined (reject c st p v) = Some (st', w) \<Longrightarrow> ps_resolvers st' = ps_resolvers st"
  "returns_undefined (fulfill c st p v) = Some (st', w) \<Longrightarrow> ps_resolvers st' = ps_resolvers st"
  by (auto simp: returns_undefined_def reject_eq fulfill_eq split: option.splits)

lemma call_sets_flag:
  assumes u: "user_ok env" and inv: "pinv st" and f: "ps_fns st f = Some (i, b)"
    and c: "call_object env st (Some f) this args = Some (st', v)"
  shows "snd (ps_resolvers st' ! i)"
proof -
  have i: "i < length (ps_resolvers st)" by (rule pinv_fn [OF inv f])
  show ?thesis
  proof (cases "snd (ps_resolvers st ! i)")
    case True
    with used_pair_idle [OF inv f True] c show ?thesis by simp
  next
    case False
    then obtain p where p: "ps_resolvers st ! i = (p, False)" by (cases "ps_resolvers st ! i") auto
    let ?st = "set_resolved st i"
    have flag: "snd (ps_resolvers ?st ! i)" using i by (simp add: set_resolved_def)
    have r: "reserved st p ?st" by (rule set_resolved_reserved [OF inv i p])
    show ?thesis
    proof (cases "b \<or> (\<nexists>q. arg0 args = VObject q \<and> q \<noteq> p)")
      case True
      with c f i p flag show ?thesis
        by (cases "arg0 args")
          (auto simp: call_object_def promiseRejectFunctions_def promiseResolveFunctions_def Let_def
            dest: returns_resolvers split: if_splits)
    next
      case False
      then obtain q where q: "arg0 args = VObject q" "q \<noteq> p" "\<not> b" by blast
      have "pinv ?st" using r by (simp add: reserved_def)
      with u obtain st2 w where g: "env_get_then env ?st q = (st2, w)" "evolves ?st st2"
        by (fastforce simp: user_ok_def safe_from_def)
      have "ps_resolvers st' = ps_resolvers st2"
        using c f i p q g(1)
        by (cases w) (auto simp: call_object_def promiseResolveFunctions_def Let_def enqueueJob_def
            dest: returns_resolvers split: if_splits)
      with reserved_flag [OF g(2) i] show ?thesis by simp
    qed
  qed
qed

text \<open>
  C30. The two functions of a pair act once, together: after either of them has been called, with
  whatever result and whatever user code ran inside, both do nothing and return undefined, then
  and after any further turns of the program.
\<close>

theorem resolving_functions_act_once:
  assumes u: "user_ok env" and inv: "pinv st"
    and f: "ps_fns st f = Some (i, b)" and g: "ps_fns st g = Some (i, b')"
    and c: "call_object env st (Some f) this args = Some (st', v)" and tr: "(turn env)\<^sup>*\<^sup>* st' st''"
  shows "call_object env st'' (Some g) this' args' = Some (st'', Inr VUndefined)"
proof -
  have s: "pinv st'" "evolves st st'" using call_object_ok [OF u inv, of f this args] c by (auto simp: safe_from_def)
  have s2: "pinv st''" "evolves st' st''" using turns_ok [OF u tr s(1)] by simp_all
  have i: "i < length (ps_resolvers st')" using pinv_fn [OF inv f] s(2) by (auto simp: evolves_def)
  have "snd (ps_resolvers st'' ! i)" using call_sets_flag [OF u inv f c] s2(2) i unfolding evolves_def by blast
  moreover have "ps_fns st'' g = Some (i, b')"
    using evolves_trans [OF s(2) s2(2)] g unfolding evolves_def by (metis option.distinct(1))
  ultimately show ?thesis using used_pair_idle [OF s2(1)] by blast
qed

definition fresh_state :: "unit pstate" where
  "fresh_state = \<lparr>ps_promises = [0 \<mapsto> done_promise\<lparr>p_state := Pending\<rparr>], ps_resolvers = [(0, False)],
     ps_fns = [1 \<mapsto> (0, False), 2 \<mapsto> (0, True)], ps_jobs = [], ps_next = 3, ps_world = ()\<rparr>"

lemma fresh_state_ok: "pinv fresh_state"
  by (auto simp: pinv_def fresh_state_def promise_ok_def done_promise_def tickets_def open_pairs_def split: if_splits)

theorem resolving_functions_act_once_witness:
  "\<exists>st'. call_object quiet_env fresh_state (Some 1) VUndefined [VNull] = Some (st', Inr VUndefined) \<and>
     call_object quiet_env st' (Some 2) VUndefined [VBool False] = Some (st', Inr VUndefined)"
proof -
  have fg: "ps_fns fresh_state 1 = Some (0, False)" "ps_fns fresh_state 2 = Some (0, True)" by (simp_all add: fresh_state_def)
  have "\<exists>st'. call_object quiet_env fresh_state (Some 1) VUndefined [VNull] = Some (st', Inr VUndefined)"
    by (simp add: call_object_def promiseResolveFunctions_def fresh_state_def arg0_def returns_undefined_def fulfill_eq set_resolved_def)
  then obtain st' where c: "call_object quiet_env fresh_state (Some 1) VUndefined [VNull] = Some (st', Inr VUndefined)" ..
  from resolving_functions_act_once [OF quiet_env_ok fresh_state_ok fg c, of st' VUndefined "[VBool False]"] c
  show ?thesis by blast
qed

lemma handler_of_update:
  "handler_of env (st\<lparr>ps_jobs := js, ps_promises := ps\<rparr>) d v = handler_of env st d v"
  by (simp add: handler_of_def is_callable_def cong: jsval.case_cong)

text \<open>
  C32. Registering before or after settling makes no difference: on a pending promise,
  registering handlers and then fulfilling (or rejecting) leads to the same state, with the same
  queue of jobs in the same order, as fulfilling (or rejecting) first and registering then.
\<close>

theorem then_commutes_with_settling:
  assumes x: "ps_promises st p = Some x" "p_state x = Pending"
  shows "(case promise_then env st p a b k of None \<Rightarrow> None | Some (st1, q) \<Rightarrow> fulfill (env_context env) st1 p v) =
       (case fulfill (env_context env) st p v of None \<Rightarrow> None | Some st1 \<Rightarrow> map_option fst (promise_then env st1 p a b k)) \<and>
     (case promise_then env st p a b k of None \<Rightarrow> None | Some (st1, q) \<Rightarrow> reject (env_context env) st1 p v) =
       (case reject (env_context env) st p v of None \<Rightarrow> None | Some st1 \<Rightarrow> map_option fst (promise_then env st1 p a b k))"
  using x by (simp add: promise_then_def fulfill_eq reject_eq Let_def settled_as_def enqueueJob_def handler_of_update)

theorem then_commutes_with_settling_witness:
  "map_option ps_jobs (case promise_then quiet_env fresh_state 0 (VObject 5) VNull None of None \<Rightarrow> None
     | Some (st1, q) \<Rightarrow> fulfill 0 st1 0 VNull) =
   Some [ReactionJob 0 \<lparr>r_capability = no_capability, r_handler = Handler 5\<rparr> VNull]"
proof -
  have x: "ps_promises fresh_state 0 = Some (done_promise\<lparr>p_state := Pending\<rparr>)"
    "p_state (done_promise\<lparr>p_state := Pending\<rparr>) = Pending" by (simp_all add: fresh_state_def)
  have e: "env_context quiet_env = 0" by (simp add: quiet_env_def)
  from then_commutes_with_settling [where env = quiet_env and a = "VObject 5" and b = VNull and k = None and v = VNull, OF x, unfolded e]
  show ?thesis
    by (simp add: fulfill_eq fresh_state_def promise_then_def settled_as_def done_promise_def enqueueJob_def handler_of_def
        is_callable_def quiet_env_def obj_of_def Let_def no_capability_def)
qed

end
