(* ===== verification/Lexer_Chars.thy ===== *)
theory Lexer_Chars
  imports Esc_Prelude
begin

text \<open>
  Character classes of the scanner (\<^verbatim>\<open>Lexer.h\<close>, \<^verbatim>\<open>Lexer.cpp\<close>): the table for the ASCII range
  and the predicates on code units built on it.
\<close>

definition LexerIsCharIdentStart :: u8 where "LexerIsCharIdentStart = push_bit 0 1"
definition LexerIsCharIdent :: u8 where "LexerIsCharIdent = push_bit 1 1"
definition LexerIsCharWhiteSpace :: u8 where "LexerIsCharWhiteSpace = push_bit 2 1"
definition LexerIsCharLineTerminator :: u8 where "LexerIsCharLineTerminator = push_bit 3 1"

definition g_asciiRangeCharMap :: "u8 list" where
  "g_asciiRangeCharMap =
     (let start = LexerIsCharIdentStart OR LexerIsCharIdent;
          part = LexerIsCharIdent;
          ws = LexerIsCharWhiteSpace;
          lt = LexerIsCharLineTerminator
      in [0, 0, 0, 0, 0, 0, 0, 0,
          0, ws, lt, ws, ws, lt, 0, 0,
          0, 0, 0, 0, 0, 0, 0, 0,
          0, 0, 0, 0, 0, 0, 0, 0,
          ws, 0, 0, 0, start, 0, 0, 0,
          0, 0, 0, 0, 0, 0, 0, 0,
          part, part, part, part, part, part, part, part,
          part, part, 0, 0, 0, 0, 0, 0,
          0, start, start, start, start, start, start, start,
          start, start, start, start, start, start, start, start,
          start, start, start, start, start, start, start, start,
          start, start, start, 0, start, 0, 0, start,
          0, start, start, start, start, start, start, start,
          start, start, start, start, start, start, start, start,
          start, start, start, start, start, start, start, start,
          start, start, start, 0, 0, 0, 0, 0])"

definition isWhiteSpaceSlowCase :: "u16 \<Rightarrow> bool" where
  "isWhiteSpaceSlowCase ch \<longleftrightarrow>
     (if ch < 0x1680 then ch = 0xA0
      else ch = 0x1680 \<or> ch = 0x2000 \<or> ch = 0x2001
        \<or> ch = 0x2002 \<or> ch = 0x2003 \<or> ch = 0x2004 \<or> ch = 0x2005 \<or> ch = 0x2006
        \<or> ch = 0x2007 \<or> ch = 0x2008 \<or> ch = 0x2009 \<or> ch = 0x200A \<or> ch = 0x202F
        \<or> ch = 0x205F \<or> ch = 0x3000 \<or> ch = 0xFEFF)"

definition isWhiteSpace :: "u16 \<Rightarrow> bool" where
  "isWhiteSpace ch \<longleftrightarrow>
     (if ch < 128 then g_asciiRangeCharMap ! unat ch AND LexerIsCharWhiteSpace \<noteq> 0
      else isWhiteSpaceSlowCase ch)"

definition isLineTerminator :: "u16 \<Rightarrow> bool" where
  "isLineTerminator ch \<longleftrightarrow>
     (if ch < 128 then g_asciiRangeCharMap ! unat ch AND LexerIsCharLineTerminator \<noteq> 0
      else ch = 0x2028 \<or> ch = 0x2029)"

definition isWhiteSpaceOrLineTerminator :: "u16 \<Rightarrow> bool" where
  "isWhiteSpaceOrLineTerminator ch \<longleftrightarrow>
     (if ch < 128 then
        g_asciiRangeCharMap ! unat ch AND (LexerIsCharWhiteSpace OR LexerIsCharLineTerminator) \<noteq> 0
      else ch = 0x2028 \<or> ch = 0x2029 \<or> isWhiteSpaceSlowCase ch)"

lemma length_char_map: "length g_asciiRangeCharMap = 128"
  by (simp add: g_asciiRangeCharMap_def Let_def)

lemma ascii_all:
  assumes "\<forall>n \<in> set [0..<128]. P (word_of_nat n :: u16)" and "ch < 128"
  shows "P ch"
proof -
  have "unat ch \<in> set [0..<128]" using assms(2) by (simp add: word_less_nat_alt)
  with assms(1) have "P (word_of_nat (unat ch))" by blast
  then show ?thesis by simp
qed

lemma ascii_classes:
  assumes "ch < 128"
  shows "isWhiteSpace ch \<longleftrightarrow> ch = 9 \<or> ch = 11 \<or> ch = 12 \<or> ch = 32"
    and "isLineTerminator ch \<longleftrightarrow> ch = 10 \<or> ch = 13"
    and "isWhiteSpaceOrLineTerminator ch \<longleftrightarrow> isWhiteSpace ch \<or> isLineTerminator ch"
proof -
  have "isWhiteSpace ch \<longleftrightarrow> ch = 9 \<or> ch = 11 \<or> ch = 12 \<or> ch = 32"
    by (rule ascii_all [OF _ assms, where P = "\<lambda>ch. isWhiteSpace ch \<longleftrightarrow> ch = 9 \<or> ch = 11 \<or> ch = 12 \<or> ch = 32"]) code_simp
  then show "isWhiteSpace ch \<longleftrightarrow> ch = 9 \<or> ch = 11 \<or> ch = 12 \<or> ch = 32" .
  show "isLineTerminator ch \<longleftrightarrow> ch = 10 \<or> ch = 13"
    by (rule ascii_all [OF _ assms, where P = "\<lambda>ch. isLineTerminator ch \<longleftrightarrow> ch = 10 \<or> ch = 13"]) code_simp
  show "isWhiteSpaceOrLineTerminator ch \<longleftrightarrow> isWhiteSpace ch \<or> isLineTerminator ch"
    by (rule ascii_all [OF _ assms, where P = "\<lambda>ch. isWhiteSpaceOrLineTerminator ch \<longleftrightarrow> isWhiteSpace ch \<or> isLineTerminator ch"]) code_simp
qed

end
