(* ===== verification/Js_String.thy ===== *)
theory Js_String
  imports Property_Name Lexer_Chars
begin

text \<open>
  Operations on string contents (\<^verbatim>\<open>String.cpp\<close>, \<^verbatim>\<open>String.h\<close>): construction from a code point,
  comparison, equality across the two widths, canonical array indices, search, and trimming.
  A string is an 8-bit or a 16-bit buffer; \<open>units\<close> is what \<^verbatim>\<open>charAt\<close> reads from it.
\<close>

datatype str_data = Str8 "u8 list" | Str16 "u16 list"

fun units :: "str_data \<Rightarrow> u16 list" where
  "units (Str8 b) = map ucast b"
| "units (Str16 c) = c"

definition fromCharCode :: "u32 \<Rightarrow> str_data" where
  "fromCharCode code =
     (if code < 128 then Str8 [ucast code]
      else if code < 0x10000 then Str16 [ucast code]
      else Str16 [ucast (0xD800 + drop_bit 10 (code - 0x10000)),
                  ucast (0xDC00 + ((code - 0x10000) AND 1023))])"

section \<open>Comparison\<close>

text \<open>The minimum length is kept in 32 bits.\<close>

function common_prefix :: "u16 list \<Rightarrow> u16 list \<Rightarrow> nat \<Rightarrow> nat \<Rightarrow> nat" where
  "common_prefix c1 c2 lmin pos =
     (if pos < lmin \<and> charAt c1 pos = charAt c2 pos then common_prefix c1 c2 lmin (Suc pos) else pos)"
  by pat_completeness auto

termination
  by (relation "measure (\<lambda>(c1, c2, lmin, pos). lmin - pos)") auto

declare common_prefix.simps [simp del]

definition stringCompare :: "nat \<Rightarrow> nat \<Rightarrow> u16 list \<Rightarrow> u16 list \<Rightarrow> int" where
  "stringCompare l1 l2 c1 c2 =
     (let lmin = (if l1 < l2 then l1 else l2) mod 2 ^ 32;
          pos = common_prefix c1 c2 lmin 0
      in if pos < lmin then (if charAt c1 pos > charAt c2 pos then 1 else - 1)
         else if l1 = l2 then 0
         else if l1 > l2 then 1 else - 1)"

section \<open>Equality\<close>

definition stringEqual :: "'a list \<Rightarrow> 'a list \<Rightarrow> nat \<Rightarrow> bool" where
  "stringEqual s s1 len \<longleftrightarrow> take len s = take len s1"

definition stringEqual_mixed :: "u16 list \<Rightarrow> u8 list \<Rightarrow> nat \<Rightarrow> bool" where
  "stringEqual_mixed s s1 len \<longleftrightarrow> (\<forall>i \<in> set [0..<len]. \<not> s ! i \<noteq> ucast (s1 ! i))"

fun string_equals :: "str_data \<Rightarrow> str_data \<Rightarrow> bool" where
  "string_equals s t \<longleftrightarrow>
     (if length (units s) \<noteq> length (units t) then False
      else case (s, t) of
        (Str8 a, Str8 b) \<Rightarrow> stringEqual a b (length a)
      | (Str8 a, Str16 b) \<Rightarrow> stringEqual_mixed b a (length a)
      | (Str16 a, Str8 b) \<Rightarrow> stringEqual_mixed a b (length a)
      | (Str16 a, Str16 b) \<Rightarrow> stringEqual a b (length a))"

section \<open>Array indices\<close>

fun index_digits :: "u64 \<Rightarrow> u64 \<Rightarrow> u16 list \<Rightarrow> u64" where
  "index_digits maxLimit number [] = number"
| "index_digits maxLimit number (c # cs) =
     (if c < 0x30 \<or> c > 0x39 then maxLimit
      else let cnum = ucast (c - 0x30) in
        if number > (maxLimit - cnum) div 10 then maxLimit
        else index_digits maxLimit (number * 10 + cnum) cs)"

definition convertToIndexNumber :: "u16 list \<Rightarrow> u64 \<Rightarrow> u64" where
  "convertToIndexNumber str maxLimit =
     (if length str = 0 then maxLimit
      else if length str > 1 \<and> str ! 0 = 0x30 then maxLimit
      else index_digits maxLimit 0 str)"

definition tryToUseAsIndex :: "u16 list \<Rightarrow> u64" where
  "tryToUseAsIndex str = convertToIndexNumber str (- 1)"

definition tryToUseAsIndex32 :: "u16 list \<Rightarrow> u32" where
  "tryToUseAsIndex32 str = ucast (convertToIndexNumber str (ucast (- 1 :: u32)))"

definition tryToUseAsIndexProperty :: "u16 list \<Rightarrow> u32" where
  "tryToUseAsIndexProperty str = tryToUseAsIndex32 str"

section \<open>Search\<close>

text \<open>\<open>None\<close> stands for \<^verbatim>\<open>SIZE_MAX\<close>. The inner loop compares from \<open>k\<close> on.\<close>

function same_from :: "u16 list \<Rightarrow> u16 list \<Rightarrow> nat \<Rightarrow> nat \<Rightarrow> bool" where
  "same_from s str pos k =
     (if k < length str then if charAt s (pos + k) \<noteq> charAt str k then False else same_from s str pos (Suc k)
      else True)"
  by pat_completeness auto

termination
  by (relation "measure (\<lambda>(s, str, pos, k). length str - k)") auto

declare same_from.simps [simp del]

function find_from :: "u16 list \<Rightarrow> u16 list \<Rightarrow> nat \<Rightarrow> nat option" where
  "find_from s str pos =
     (if pos \<le> length s - length str then
        if charAt s pos = charAt str 0 \<and> same_from s str pos 1 then Some pos
        else find_from s str (Suc pos)
      else None)"
  by pat_completeness auto

termination
  by (relation "measure (\<lambda>(s, str, pos). Suc (length s) - pos)") auto

declare find_from.simps [simp del]

definition string_find :: "u16 list \<Rightarrow> u16 list \<Rightarrow> nat \<Rightarrow> nat option" where
  "string_find s str pos =
     (if length str = 0 then (if pos \<le> length s then Some pos else None)
      else if length str \<le> length s then find_from s str pos
      else None)"

text \<open>
  The backward search reads the string behind its end when the candidate does not fit; such a
  read is the outer \<open>None\<close>, and the inner \<open>None\<close> is \<^verbatim>\<open>SIZE_MAX\<close>.
\<close>

function rfind_same :: "u16 list \<Rightarrow> u16 list \<Rightarrow> nat \<Rightarrow> nat \<Rightarrow> bool option" where
  "rfind_same s str pos k =
     (if k < length str then
        if pos + k < length s then
          if s ! (pos + k) \<noteq> str ! k then Some False else rfind_same s str pos (Suc k)
        else None
      else Some True)"
  by pat_completeness auto

termination
  by (relation "measure (\<lambda>(s, str, pos, k). length str - k)") auto

declare rfind_same.simps [simp del]

fun rfind_from :: "u16 list \<Rightarrow> u16 list \<Rightarrow> nat \<Rightarrow> nat option option" where
  "rfind_from s str pos =
     (let continue = (case pos of 0 \<Rightarrow> Some None | Suc pos' \<Rightarrow> rfind_from s str pos') in
      if pos \<ge> length s then continue
      else case rfind_same s str pos 0 of
          None \<Rightarrow> None
        | Some True \<Rightarrow> Some (Some pos)
        | Some False \<Rightarrow> continue)"

declare rfind_from.simps [simp del]

definition string_rfind :: "u16 list \<Rightarrow> u16 list \<Rightarrow> nat \<Rightarrow> nat option option" where
  "string_rfind s str pos =
     (if length str = 0 then Some (if pos \<le> length s then Some pos else None)
      else if length str \<le> length s then rfind_from s str pos
      else Some None)"

section \<open>Code points and white space\<close>

definition advanceStringIndex :: "u16 list \<Rightarrow> nat \<Rightarrow> bool \<Rightarrow> nat" where
  "advanceStringIndex s i unicode =
     (if \<not> unicode then i + 1
      else if i + 1 \<ge> length s then i + 1
      else let first = charAt s i in
        if first < 0xD800 \<or> first > 0xDBFF then i + 1
        else let second = charAt s (i + 1) in
          if second < 0xDC00 \<or> second > 0xDFFF then i + 1
          else i + 2)"

datatype trim_where = TrimStart | TrimEnd | TrimBoth

function trim_start :: "u16 list \<Rightarrow> int \<Rightarrow> int" where
  "trim_start str s =
     (if s < int (length str) \<and> isWhiteSpaceOrLineTerminator (charAt str (nat s))
      then trim_start str (s + 1) else s)"
  by pat_completeness auto

termination
  by (relation "measure (\<lambda>(str, s). nat (int (length str) - s))") auto

function trim_end :: "u16 list \<Rightarrow> int \<Rightarrow> int \<Rightarrow> int" where
  "trim_end str s e =
     (if e \<ge> s \<and> isWhiteSpaceOrLineTerminator (charAt str (nat e)) then trim_end str s (e - 1) else e)"
  by pat_completeness auto

termination
  by (relation "measure (\<lambda>(str, s, e). nat (e - s + 1))") auto

declare trim_start.simps [simp del] trim_end.simps [simp del]

text \<open>A \<^verbatim>\<open>StringView\<close> from \<open>s\<close> to \<open>e + 1\<close> is the sublist.\<close>

definition string_trim :: "u16 list \<Rightarrow> trim_where \<Rightarrow> u16 list" where
  "string_trim str wh =
     (let len = int (length str);
          s = (if wh = TrimStart \<or> wh = TrimBoth then trim_start str 0 else 0);
          e = (if wh = TrimEnd \<or> wh = TrimBoth then trim_end str s (len - 1) else len - 1)
      in if s = 0 \<and> e = len - 1 then str
         else take (nat (e + 1 - s)) (drop (nat s) str))"

section \<open>Correctness of comparison and equality\<close>

lemma common_prefix_bounds: "pos \<le> lmin \<Longrightarrow> pos \<le> common_prefix c1 c2 lmin pos \<and> common_prefix c1 c2 lmin pos \<le> lmin"
  by (induction c1 c2 lmin pos rule: common_prefix.induct)
    (subst common_prefix.simps, subst (2) common_prefix.simps, auto)

lemma common_prefix_equal:
  "\<forall>i. pos \<le> i \<and> i < common_prefix c1 c2 lmin pos \<longrightarrow> charAt c1 i = charAt c2 i"
proof (induction c1 c2 lmin pos rule: common_prefix.induct)
  case (1 c1 c2 lmin pos)
  show ?case
  proof (intro allI impI)
    fix i
    assume i: "pos \<le> i \<and> i < common_prefix c1 c2 lmin pos"
    then have here: "pos < lmin \<and> charAt c1 pos = charAt c2 pos"
      by (subst (asm) common_prefix.simps) (auto split: if_splits)
    then have "i < common_prefix c1 c2 lmin (Suc pos)"
      using i by (subst (asm) common_prefix.simps) simp
    then show "charAt c1 i = charAt c2 i"
      using 1 [OF here] here i by (cases "i = pos") auto
  qed
qed

lemma common_prefix_differ:
  "common_prefix c1 c2 lmin pos < lmin \<Longrightarrow>
     charAt c1 (common_prefix c1 c2 lmin pos) \<noteq> charAt c2 (common_prefix c1 c2 lmin pos)"
proof (induction c1 c2 lmin pos rule: common_prefix.induct)
  case (1 c1 c2 lmin pos)
  show ?case
  proof (cases "pos < lmin \<and> charAt c1 pos = charAt c2 pos")
    case True
    then have "common_prefix c1 c2 lmin pos = common_prefix c1 c2 lmin (Suc pos)"
      by (subst common_prefix.simps) simp
    with 1 True show ?thesis by simp
  next
    case False
    then have "common_prefix c1 c2 lmin pos = pos" by (subst common_prefix.simps) auto
    with False 1(2) show ?thesis by simp
  qed
qed

lemma lexordp_common_prefix:
  "ord_class.lexordp (us @ xs) (us @ ys) \<longleftrightarrow> ord_class.lexordp xs (ys :: u16 list)"
  by (induction us) auto

lemma split_at_prefix:
  assumes "r \<le> length a" "r \<le> length b" "\<forall>i. i < r \<longrightarrow> charAt a i = charAt b i"
  obtains us where "a = us @ drop r a" "b = us @ drop r b" "length us = r"
proof
  have "take r a = take r b"
    using assms by (intro nth_equalityI) (auto simp: charAt_def)
  then show "b = take r a @ drop r b" by simp
  show "a = take r a @ drop r a" "length (take r a) = r" using assms(1) by simp_all
qed

text \<open>
  The relational operators on strings order them lexicographically by code units.
\<close>

theorem stringCompare_is_lexicographic:
  assumes "length a < 2 ^ 32" "length b < 2 ^ 32"
  shows "stringCompare (length a) (length b) a b =
    (if a = b then 0 else if ord_class.lexordp a b then - 1 else 1)"
proof -
  define l where "l = min (length a) (length b)"
  define r where "r = common_prefix a b l 0"
  have lmin: "(if length a < length b then length a else length b) mod 2 ^ 32 = l"
    using assms by (simp add: l_def)
  have r: "r \<le> length a" "r \<le> length b" "r \<le> l"
    using common_prefix_bounds [of 0 l a b] by (simp_all add: r_def l_def)
  have eq: "\<forall>i. i < r \<longrightarrow> charAt a i = charAt b i"
    using common_prefix_equal [of 0 a b l] by (simp add: r_def)
  obtain us where us: "a = us @ drop r a" "b = us @ drop r b" "length us = r"
    using split_at_prefix [OF r(1, 2) eq] .
  note compare = stringCompare_def [of "length a" "length b" a b, unfolded lmin Let_def,
      folded r_def]
  show ?thesis
  proof (cases "r < l")
    case True
    have differ: "a ! r \<noteq> b ! r" "charAt a r = a ! r" "charAt b r = b ! r"
      using common_prefix_differ [of a b l 0] True by (auto simp: r_def l_def charAt_def)
    have "drop r a = a ! r # drop (Suc r) a" "drop r b = b ! r # drop (Suc r) b"
      using True by (simp_all add: Cons_nth_drop_Suc l_def)
    then have "ord_class.lexordp a b \<longleftrightarrow> a ! r < b ! r"
      using us differ(1) lexordp_common_prefix [of us "drop r a" "drop r b"] by auto
    moreover have "a \<noteq> b" using differ(1) by auto
    ultimately show ?thesis
      using True differ by (auto simp: compare)
  next
    case False
    then have "r = l" using r(3) by simp
    then have "drop r a = [] \<or> drop r b = []" by (auto simp: l_def min_def)
    then have lex: "ord_class.lexordp a b \<longleftrightarrow> length a < length b" "a = b \<longleftrightarrow> length a = length b"
      using us lexordp_common_prefix [of us "drop r a" "drop r b"]
      by (metis append_Nil2 length_append length_greater_0_conv lexordp_simps(1, 2) less_add_same_cancel1
          not_add_less1 add_left_cancel list.size(3))+
    then show ?thesis using False by (auto simp: compare)
  qed
qed

theorem stringCompare_is_lexicographic_witness:
  "stringCompare (length [97, 98 :: u16]) (length [97, 98, 99 :: u16]) [97, 98] [97, 98, 99] = - 1
   \<and> stringCompare (length [97, 99 :: u16]) (length [97, 98, 99 :: u16]) [97, 99] [97, 98, 99] = 1"
  using stringCompare_is_lexicographic [of "[97, 98]" "[97, 98, 99]"]
    stringCompare_is_lexicographic [of "[97, 99]" "[97, 98, 99]"]
  by simp

lemma widen_inject: "(ucast (a :: u8) :: u16) = ucast b \<longleftrightarrow> a = b"
proof
  assume "(ucast a :: u16) = ucast b"
  then have "(ucast (ucast a :: u16) :: u8) = ucast (ucast b :: u16)" by simp
  moreover have "(ucast (ucast x :: u16) :: u8) = x" for x :: u8
    by (rule bit_word_eqI) (auto simp: bit_simps dest: bit_imp_le_length)
  ultimately show "a = b" by simp
qed simp

lemma stringEqual_mixed_iff:
  "length s = length s1 \<Longrightarrow> stringEqual_mixed s s1 (length s1) \<longleftrightarrow> s = map ucast s1"
  unfolding stringEqual_mixed_def list_eq_iff_nth_eq [of s] by auto

text \<open>
  Equality of strings is equality of their code units, whichever widths the two buffers have.
\<close>

theorem string_equals_iff: "string_equals s t \<longleftrightarrow> units s = units t"
proof (cases s; cases t)
  fix a b
  assume "s = Str8 a" "t = Str8 b"
  moreover have "map ucast a = (map ucast b :: u16 list) \<longleftrightarrow> a = b"
    by (rule inj_map_eq_map) (simp add: inj_on_def widen_inject)
  ultimately show ?thesis by (cases "a = b") (simp_all add: stringEqual_def)
next
  fix a b
  assume "s = Str8 a" "t = Str16 b"
  then show ?thesis
    using stringEqual_mixed_iff [of b a] by (cases "length a = length b") (simp, force, force)
next
  fix a b
  assume "s = Str16 a" "t = Str8 b"
  then show ?thesis
    using stringEqual_mixed_iff [of a b] by (cases "length a = length b") (simp, force)
next
  fix a b
  assume "s = Str16 a" "t = Str16 b"
  then show ?thesis by (auto simp: stringEqual_def)
qed

section \<open>Correctness of array indices\<close>

text \<open>The decimal numeral a list of digits denotes, and the canonical numerals.\<close>

fun decimal_value :: "nat \<Rightarrow> u16 list \<Rightarrow> nat" where
  "decimal_value n [] = n"
| "decimal_value n (c # cs) = decimal_value (n * 10 + (unat c - 48)) cs"

definition is_digit :: "u16 \<Rightarrow> bool" where
  "is_digit c \<longleftrightarrow> 48 \<le> unat c \<and> unat c \<le> 57"

definition canonical_index :: "u16 list \<Rightarrow> bool" where
  "canonical_index s \<longleftrightarrow> s \<noteq> [] \<and> list_all is_digit s \<and> (hd s = 0x30 \<longrightarrow> length s = 1)"

lemma decimal_value_ge: "n \<le> decimal_value n cs"
  by (induction n cs rule: decimal_value.induct) auto

lemma digit_bounds:
  "\<not> (c < 0x30 \<or> c > 0x39) \<longleftrightarrow> is_digit c"
  by (auto simp: is_digit_def word_less_nat_alt)

lemma digit_value: "is_digit c \<Longrightarrow> unat (ucast (c - 0x30 :: u16) :: u64) = unat c - 48"
proof -
  assume "is_digit c"
  then have le: "(0x30 :: u16) \<le> c" by (simp add: is_digit_def word_le_nat_alt)
  have "unat (c - 0x30) < 2 ^ LENGTH(16)" by (rule unsigned_less)
  then have "unat (ucast (c - 0x30) :: u64) = unat (c - 0x30)"
    by (simp add: unsigned_ucast_eq take_bit_nat_eq_self)
  then show ?thesis using unat_sub [OF le] by simp
qed

lemma limit_test:
  fixes maxLimit number cnum :: u64
  assumes "unat cnum \<le> 9" "9 \<le> unat maxLimit"
  shows "number > (maxLimit - cnum) div 10 \<longleftrightarrow> unat maxLimit < unat number * 10 + unat cnum"
proof -
  have "unat (maxLimit - cnum) = unat maxLimit - unat cnum"
    using assms by (simp add: unat_sub word_le_nat_alt)
  then have "number > (maxLimit - cnum) div 10 \<longleftrightarrow> (unat maxLimit - unat cnum) div 10 < unat number"
    by (simp add: word_less_nat_alt unat_div)
  also have "\<dots> \<longleftrightarrow> unat maxLimit - unat cnum < unat number * 10"
    by (rule div_less_iff_less_mult) simp
  finally show ?thesis using assms by linarith
qed

lemma index_digits_value:
  assumes "list_all is_digit cs" "9 \<le> unat M" "unat n \<le> unat M"
  shows "index_digits M n cs =
    (if decimal_value (unat n) cs \<le> unat M then word_of_nat (decimal_value (unat n) cs) else M)"
  using assms
proof (induction M n cs rule: index_digits.induct)
  case (1 M n)
  then show ?case by simp
next
  case (2 M n c cs)
  define d where "d = (ucast (c - 0x30) :: u64)"
  have dig: "is_digit c" using 2(2) by simp
  then have range: "\<not> (c < 0x30 \<or> c > 0x39)" by (simp only: digit_bounds)
  have d: "unat d = unat c - 48" "unat d \<le> 9"
    using digit_value [OF dig] dig by (auto simp: d_def is_digit_def)
  show ?case
  proof (cases "n > (M - d) div 10")
    case True
    then have "unat M < unat n * 10 + unat d" using limit_test [OF d(2) 2(3)] by simp
    then have "\<not> decimal_value (unat n * 10 + unat d) cs \<le> unat M"
      using decimal_value_ge [of "unat n * 10 + unat d" cs] by linarith
    with True range show ?thesis by (simp add: d_def [symmetric] d(1) [symmetric])
  next
    case False
    then have le: "unat n * 10 + unat d \<le> unat M" using limit_test [OF d(2) 2(3)] by simp
    have "unat M < 2 ^ LENGTH(64)" by (rule unsigned_less)
    with le have "unat n * 10 < 2 ^ LENGTH(64)" "unat n * 10 + unat d < 2 ^ LENGTH(64)" by linarith+
    then have "unat (n * 10 + d) = unat n * 10 + unat d"
      by (simp add: unat_word_ariths)
    with False range le 2(1) [OF _ _ _ _ 2(3), of d] 2(2) show ?thesis
      by (simp add: d_def [symmetric] d(1) [symmetric])
  qed
qed

lemma index_digits_other:
  "\<not> list_all is_digit cs \<Longrightarrow> index_digits M n cs = M"
proof (induction M n cs rule: index_digits.induct)
  case (2 M n c cs)
  then show ?case using digit_bounds [of c] by (auto simp: Let_def)
qed simp

lemma convertToIndexNumber_spec:
  assumes "9 \<le> unat M"
  shows "convertToIndexNumber s M =
    (if canonical_index s \<and> decimal_value 0 s \<le> unat M then word_of_nat (decimal_value 0 s) else M)"
proof (cases "list_all is_digit s")
  case True
  then show ?thesis
    using index_digits_value [of s M 0] assms
    by (cases s) (auto simp: convertToIndexNumber_def canonical_index_def)
next
  case False
  then show ?thesis
    by (auto simp: convertToIndexNumber_def canonical_index_def index_digits_other)
qed

text \<open>
  C39. A string is used as an index exactly when it is a canonical decimal numeral that fits,
  and then as the number it denotes: no accumulation overflows, and the mark for
  \<^emph>\<open>no index\<close> is the only number that is not told apart.
\<close>

theorem tryToUseAsIndex_canonical:
  "tryToUseAsIndex s =
     (if canonical_index s \<and> decimal_value 0 s < 2 ^ 64 - 1 then word_of_nat (decimal_value 0 s) else - 1)
   \<and> tryToUseAsIndex32 s =
     (if canonical_index s \<and> decimal_value 0 s < 2 ^ 32 - 1 then word_of_nat (decimal_value 0 s) else - 1)"
proof
  have max: "unat (- 1 :: u64) = 2 ^ 64 - 1"
    by (simp add: unsigned_minus_1_eq_mask mask_eq_exp_minus_1)
  then show "tryToUseAsIndex s =
     (if canonical_index s \<and> decimal_value 0 s < 2 ^ 64 - 1 then word_of_nat (decimal_value 0 s) else - 1)"
    using convertToIndexNumber_spec [of "- 1" s]
    by (auto simp: tryToUseAsIndex_def le_less)
next
  have max: "unat (ucast (- 1 :: u32) :: u64) = 2 ^ 32 - 1"
    by (simp add: unsigned_ucast_eq unsigned_minus_1_eq_mask mask_eq_exp_minus_1 take_bit_nat_eq_self)
  have narrow: "(ucast (ucast (- 1 :: u32) :: u64) :: u32) = - 1"
    "(ucast (word_of_nat n :: u64) :: u32) = word_of_nat n" for n
    by (rule bit_word_eqI, simp add: bit_simps)+
  have top: "(word_of_nat (2 ^ 32 - 1) :: u32) = - 1" by simp
  define v where "v = decimal_value 0 s"
  have conv: "convertToIndexNumber s (ucast (- 1 :: u32)) =
      (if canonical_index s \<and> v \<le> 2 ^ 32 - 1 then word_of_nat v else ucast (- 1 :: u32))"
    using convertToIndexNumber_spec [of "ucast (- 1 :: u32)" s] unfolding max v_def by simp
  have "tryToUseAsIndex32 s = (if canonical_index s \<and> v \<le> 2 ^ 32 - 1 then word_of_nat v else - 1)"
    unfolding tryToUseAsIndex32_def conv by (simp only: narrow split: if_split) auto
  also have "\<dots> = (if canonical_index s \<and> v < 2 ^ 32 - 1 then word_of_nat v else - 1)"
    using top by (cases "v = 2 ^ 32 - 1") auto
  finally show "tryToUseAsIndex32 s =
     (if canonical_index s \<and> decimal_value 0 s < 2 ^ 32 - 1 then word_of_nat (decimal_value 0 s) else - 1)"
    by (simp only: v_def)
qed

section \<open>Correctness of the searches\<close>

definition occurs_at :: "u16 list \<Rightarrow> u16 list \<Rightarrow> nat \<Rightarrow> bool" where
  "occurs_at s str p \<longleftrightarrow> p + length str \<le> length s \<and> take (length str) (drop p s) = str"

lemma occurs_at_nth:
  "occurs_at s str p \<longleftrightarrow> p + length str \<le> length s \<and> (\<forall>k < length str. s ! (p + k) = str ! k)"
proof -
  have "take (length str) (drop p s) = str \<longleftrightarrow> (\<forall>k < length str. s ! (p + k) = str ! k)"
    if "p + length str \<le> length s"
    using that by (auto simp: list_eq_iff_nth_eq)
  then show ?thesis unfolding occurs_at_def by blast
qed

lemma same_from_iff:
  assumes "pos + length str \<le> length s"
  shows "same_from s str pos k \<longleftrightarrow> (\<forall>j. k \<le> j \<and> j < length str \<longrightarrow> s ! (pos + j) = str ! j)"
  using assms
proof (induction s str pos k rule: same_from.induct)
  case (1 s str pos k)
  have cases: "(\<forall>j. k \<le> j \<and> j < length str \<longrightarrow> P j)
      \<longleftrightarrow> (k < length str \<longrightarrow> P k \<and> (\<forall>j. Suc k \<le> j \<and> j < length str \<longrightarrow> P j))" for P
  proof -
    have "k \<le> j \<longleftrightarrow> j = k \<or> Suc k \<le> j" for j by auto
    then show ?thesis by auto
  qed
  show ?case
    unfolding cases using 1 by (subst same_from.simps) (auto simp: charAt_def)
qed

lemma match_is_occurrence:
  assumes "str \<noteq> []" "pos + length str \<le> length s"
  shows "charAt s pos = charAt str 0 \<and> same_from s str pos 1 \<longleftrightarrow> occurs_at s str pos"
proof -
  have "(\<forall>k < length str. P k) \<longleftrightarrow> P 0 \<and> (\<forall>j. 1 \<le> j \<and> j < length str \<longrightarrow> P j)" for P
    using assms(1) by (metis One_nat_def Suc_leI length_greater_0_conv not_gr_zero)
  from this [of "\<lambda>k. s ! (pos + k) = str ! k"] show ?thesis
    using assms by (cases str) (auto simp: occurs_at_nth same_from_iff charAt_def)
qed

lemma find_from_iff:
  assumes "str \<noteq> []" "length str \<le> length s"
  shows "find_from s str pos = Some p \<longleftrightarrow>
      pos \<le> p \<and> occurs_at s str p \<and> (\<forall>q. pos \<le> q \<and> q < p \<longrightarrow> \<not> occurs_at s str q)"
  using assms
proof (induction s str pos rule: find_from.induct)
  case (1 s str pos)
  show ?case
  proof (cases "pos \<le> length s - length str")
    case True
    then have fits: "pos + length str \<le> length s" using 1(3) by simp
    show ?thesis
    proof (cases "occurs_at s str pos")
      case True
      then have "find_from s str pos = Some pos"
        using \<open>pos \<le> length s - length str\<close> match_is_occurrence [OF 1(2) fits]
        by (subst find_from.simps) simp
      with True show ?thesis by (auto simp: nat_less_le)
    next
      case False
      then have step: "find_from s str pos = find_from s str (Suc pos)"
        using \<open>pos \<le> length s - length str\<close> match_is_occurrence [OF 1(2) fits]
        by (subst find_from.simps) auto
      show ?thesis
        unfolding step using False 1(1) [OF \<open>pos \<le> length s - length str\<close> _ 1(2, 3)]
          match_is_occurrence [OF 1(2) fits]
        by (metis Suc_leD Suc_leI le_eq_less_or_eq)
    qed
  next
    case False
    then have "find_from s str pos = None" by (subst find_from.simps) simp
    then show ?thesis using False 1(3) by (auto simp: occurs_at_def)
  qed
qed

lemma occurs_at_Nil: "occurs_at s [] p \<longleftrightarrow> p \<le> length s"
  by (simp add: occurs_at_def)

text \<open>
  The forward search returns the first occurrence from the given position on, and nothing
  exactly when there is none.
\<close>

theorem string_find_first_occurrence:
  "(string_find s str pos = Some p \<longleftrightarrow>
      pos \<le> p \<and> occurs_at s str p \<and> (\<forall>q. pos \<le> q \<and> q < p \<longrightarrow> \<not> occurs_at s str q))
   \<and> (string_find s str pos = None \<longleftrightarrow> (\<forall>q. pos \<le> q \<longrightarrow> \<not> occurs_at s str q))"
proof (cases "str = []")
  case True
  then show ?thesis
    by (auto simp: string_find_def occurs_at_Nil intro: le_antisym)
next
  case ne: False
  show ?thesis
  proof (cases "length str \<le> length s")
    case True
    have some: "string_find s str pos = Some p \<longleftrightarrow> pos \<le> p \<and> occurs_at s str p
        \<and> (\<forall>q. pos \<le> q \<and> q < p \<longrightarrow> \<not> occurs_at s str q)" for p
      using find_from_iff [OF ne True] ne True by (simp add: string_find_def)
    have "string_find s str pos \<noteq> None" if "pos \<le> q" "occurs_at s str q" for q
    proof -
      have "\<exists>q. pos \<le> q \<and> occurs_at s str q" using that by blast
      then obtain m where m: "pos \<le> m \<and> occurs_at s str m" "\<forall>k < m. \<not> (pos \<le> k \<and> occurs_at s str k)"
        using exists_least_iff [of "\<lambda>q. pos \<le> q \<and> occurs_at s str q"] by blast
      then have "string_find s str pos = Some m" unfolding some by blast
      then show ?thesis by simp
    qed
    then show ?thesis using some by (cases "string_find s str pos") auto
  next
    case False
    then show ?thesis using ne by (auto simp: string_find_def occurs_at_def)
  qed
qed

theorem string_find_first_occurrence_witness:
  "string_find [97, 98, 97, 98] [97, 98] 1 = Some 2"
proof -
  have "occurs_at [97, 98, 97, 98] [97, 98] 2" "\<not> occurs_at [97, 98, 97, 98] [97, 98] 1" by code_simp+
  then show ?thesis
    using string_find_first_occurrence [of "[97, 98, 97, 98]" "[97, 98]" 1 2]
    by (auto simp: le_less_Suc_eq numeral_2_eq_2)
qed

lemma rfind_same_fits:
  "pos + length str \<le> length s \<Longrightarrow> rfind_same s str pos k = Some (same_from s str pos k)"
proof (induction s str pos k rule: rfind_same.induct)
  case (1 s str pos k)
  then show ?case
    by (subst rfind_same.simps, subst same_from.simps) (auto simp: charAt_def)
qed

lemma same_from_occurs:
  "pos + length str \<le> length s \<Longrightarrow> same_from s str pos 0 \<longleftrightarrow> occurs_at s str pos"
  by (simp add: same_from_iff occurs_at_nth)

lemma rfind_from_last:
  assumes "str \<noteq> []" "pos + length str \<le> length s"
  shows "\<exists>r. rfind_from s str pos = Some r \<and>
    (case r of Some p \<Rightarrow> p \<le> pos \<and> occurs_at s str p \<and> (\<forall>q. p < q \<and> q \<le> pos \<longrightarrow> \<not> occurs_at s str q)
     | None \<Rightarrow> (\<forall>q \<le> pos. \<not> occurs_at s str q))"
  using assms(2)
proof (induction pos)
  case 0
  then have "0 < length s" using assms(1) by auto
  then show ?case
    using 0 rfind_same_fits [OF 0, of 0] same_from_occurs [OF 0]
    by (subst rfind_from.simps) (cases "occurs_at s str 0"; auto)
next
  case (Suc pos)
  then have len: "Suc pos < length s" using assms(1) by (cases str) auto
  show ?case
  proof (cases "occurs_at s str (Suc pos)")
    case True
    then have "rfind_from s str (Suc pos) = Some (Some (Suc pos))"
      using len rfind_same_fits [OF Suc(2), of 0] same_from_occurs [OF Suc(2)]
      by (subst rfind_from.simps) simp
    with True show ?thesis by auto
  next
    case False
    then have "rfind_from s str (Suc pos) = rfind_from s str pos"
      using len rfind_same_fits [OF Suc(2), of 0] same_from_occurs [OF Suc(2)]
      by (subst rfind_from.simps) simp
    moreover have "pos + length str \<le> length s" using Suc(2) by simp
    ultimately show ?thesis
      using Suc.IH False by (auto simp: le_Suc_eq split: option.splits)
  qed
qed

text \<open>
  The backward search from a position where the searched text still fits returns its last
  occurrence at or before that position.
\<close>

theorem string_rfind_last_occurrence:
  assumes "pos + length str \<le> length s"
  shows "\<exists>r. string_rfind s str pos = Some r \<and>
    (case r of Some p \<Rightarrow> p \<le> pos \<and> occurs_at s str p \<and> (\<forall>q. p < q \<and> q \<le> pos \<longrightarrow> \<not> occurs_at s str q)
     | None \<Rightarrow> (\<forall>q \<le> pos. \<not> occurs_at s str q))"
proof (cases "str = []")
  case True
  then show ?thesis using assms by (simp add: string_rfind_def occurs_at_Nil)
next
  case False
  then show ?thesis
    using rfind_from_last [OF False assms] assms by (simp add: string_rfind_def)
qed

theorem string_rfind_last_occurrence_witness:
  "string_rfind [97, 98, 97, 98, 99] [97, 98] 3 = Some (Some 2)
   \<and> (\<exists>r. string_rfind [97, 98, 97, 98, 99] [97, 98] 3 = Some r \<and>
    (case r of Some p \<Rightarrow> p \<le> 3 \<and> occurs_at [97, 98, 97, 98, 99] [97, 98] p
       \<and> (\<forall>q. p < q \<and> q \<le> 3 \<longrightarrow> \<not> occurs_at [97, 98, 97, 98, 99] [97, 98] q)
     | None \<Rightarrow> (\<forall>q \<le> 3. \<not> occurs_at [97, 98, 97, 98, 99] [97, 98] q)))"
proof
  show "string_rfind [97, 98, 97, 98, 99] [97, 98] 3 = Some (Some 2)" by code_simp
qed (rule string_rfind_last_occurrence, simp)

lemma rfind_same_runs_out:
  assumes "k \<le> length ys" "zs \<noteq> []"
  shows "rfind_same (xs @ ys) (ys @ zs) (length xs) k = None"
  using assms
proof (induction "length ys - k" arbitrary: k)
  case 0
  then show ?case by (subst rfind_same.simps) (auto simp: nth_append)
next
  case (Suc n)
  then have "rfind_same (xs @ ys) (ys @ zs) (length xs) (Suc k) = None" by simp
  then show ?case using Suc(2, 4) by (subst rfind_same.simps) (auto simp: nth_append)
qed

text \<open>
  A defect: \<^verbatim>\<open>lastIndexOf\<close> starts the backward search at the length of the string, not at
  the last position where the searched text fits; when a proper prefix of that text ends the
  string, the comparison reads behind the end of the buffer.
\<close>

theorem string_rfind_reads_behind_the_end:
  assumes "ys \<noteq> []" "zs \<noteq> []" "length zs \<le> length xs"
  shows "string_rfind (xs @ ys) (ys @ zs) (length xs) = None"
proof -
  have "rfind_same (xs @ ys) (ys @ zs) (length xs) 0 = None"
    by (rule rfind_same_runs_out [OF _ assms(2)]) simp
  then show ?thesis
    using assms by (subst string_rfind_def, subst rfind_from.simps) simp
qed

theorem string_rfind_reads_behind_the_end_witness:
  "string_rfind ([97] @ [98]) ([98] @ [99]) (length [97 :: u16]) = None"
  by (rule string_rfind_reads_behind_the_end) simp_all


section \<open>Correctness of trimming\<close>

lemma drop_while_at:
  "i \<le> length str \<Longrightarrow> drop (nat (trim_start str (int i))) str =
     dropWhile isWhiteSpaceOrLineTerminator (drop i str) \<and> int i \<le> trim_start str (int i)
     \<and> trim_start str (int i) \<le> int (length str)"
proof (induction "length str - i" arbitrary: i)
  case 0
  then show ?case by (subst trim_start.simps, subst (2 3) trim_start.simps) simp
next
  case (Suc n)
  then have i: "i < length str" by simp
  have d: "drop i str = str ! i # drop (Suc i) str" using i by (simp add: Cons_nth_drop_Suc)
  show ?case
  proof (cases "isWhiteSpaceOrLineTerminator (str ! i)")
    case True
    then have "trim_start str (int i) = trim_start str (int (Suc i))"
      using i by (subst trim_start.simps) (simp add: charAt_def add.commute)
    moreover have "n = length str - Suc i" using Suc(2) by simp
    ultimately show ?thesis using Suc(1) [of "Suc i"] i True by (auto simp: d)
  next
    case False
    then have "trim_start str (int i) = int i"
      using i by (subst trim_start.simps) (simp add: charAt_def)
    then show ?thesis using False i by (simp add: d)
  qed
qed

lemma take_while_back:
  assumes "s \<le> j" "j \<le> length str"
  shows "take (nat (trim_end str (int s) (int j - 1) + 1) - s) (drop s str) =
      rev (dropWhile isWhiteSpaceOrLineTerminator (rev (take (j - s) (drop s str))))
    \<and> int s - 1 \<le> trim_end str (int s) (int j - 1) \<and> trim_end str (int s) (int j - 1) \<le> int j - 1"
  using assms
proof (induction "j - s" arbitrary: j)
  case 0
  then show ?case by (subst trim_end.simps, subst (2 3) trim_end.simps) simp
next
  case (Suc n)
  then obtain i where j: "j = Suc i" and i: "s \<le> i" "i < length str" by (cases j) auto
  have snoc: "take (Suc i - s) (drop s str) = take (i - s) (drop s str) @ [str ! i]"
    using i take_Suc_conv_app_nth [of "i - s" "drop s str"] by (simp add: Suc_diff_le)
  show ?case
  proof (cases "isWhiteSpaceOrLineTerminator (str ! i)")
    case True
    then have "trim_end str (int s) (int j - 1) = trim_end str (int s) (int i - 1)"
      using i by (subst trim_end.simps) (simp add: charAt_def j)
    moreover have "n = i - s" using Suc(2) j by simp
    ultimately show ?thesis using Suc(1) [of i] i True by (auto simp: j snoc)
  next
    case False
    then have "trim_end str (int s) (int j - 1) = int i"
      using i by (subst trim_end.simps) (simp add: charAt_def j)
    then show ?thesis using False i by (simp add: j snoc nat_add_distrib)
  qed
qed

definition trimmed_start :: "u16 list \<Rightarrow> u16 list" where
  "trimmed_start str = dropWhile isWhiteSpaceOrLineTerminator str"

definition trimmed_end :: "u16 list \<Rightarrow> u16 list" where
  "trimmed_end str = rev (dropWhile isWhiteSpaceOrLineTerminator (rev str))"

text \<open>
  Trimming removes the longest run of white space and line terminators from the chosen ends
  and nothing else.
\<close>

theorem string_trim_spec:
  "string_trim str wh =
     (case wh of TrimStart \<Rightarrow> trimmed_start str | TrimEnd \<Rightarrow> trimmed_end str
      | TrimBoth \<Rightarrow> trimmed_end (trimmed_start str))"
proof -
  have start: "drop (nat (trim_start str 0)) str = trimmed_start str" "0 \<le> trim_start str 0"
      "trim_start str 0 \<le> int (length str)"
    using drop_while_at [of 0 str] by (simp_all add: trimmed_start_def)
  have behind: "take (nat (trim_end str (int s) (int (length str) - 1) + 1 - int s)) (drop s str)
      = trimmed_end (drop s str)" if "s \<le> length str" for s
    using take_while_back [OF that order.refl] that by (simp add: trimmed_end_def nat_diff_distrib)
  define s where "s = nat (trim_start str 0)"
  have s: "trim_start str 0 = int s" "s \<le> length str" "drop s str = trimmed_start str"
    using start by (auto simp: s_def)
  have len: "length (trimmed_start str) = length str - s" using s(3) by (metis length_drop)
  show ?thesis
  proof (cases wh)
    case TrimStart
    then show ?thesis using s len by (auto simp: string_trim_def Let_def)
  next
    case TrimEnd
    then show ?thesis using behind [of 0] by (auto simp: string_trim_def Let_def)
  next
    case TrimBoth
    then show ?thesis using behind [OF s(2)] s by (auto simp: string_trim_def Let_def)
  qed
qed

end
