(* ===== verification/Utf_Codec.thy ===== *)
theory Utf_Codec
  imports Esc_Prelude
begin

text \<open>
  Transcoding between UTF-8 bytes and the UTF-16 code units of the engine's strings
  (\<^verbatim>\<open>String.cpp\<close>, \<^verbatim>\<open>StringBufferAccessData::toUTF8String\<close> of \<^verbatim>\<open>String.h\<close>, the macros of
  \<^verbatim>\<open>Escargot.h\<close>). The decoder reads memory, not a list: it is given the bytes of the whole
  address space and a length, because it looks up to three bytes past the end of its buffer.
\<close>

section \<open>Encoding\<close>

definition U16_IS_LEAD :: "u32 \<Rightarrow> bool" where
  "U16_IS_LEAD c \<longleftrightarrow> c AND 0xfffffc00 = 0xd800"

definition U16_IS_TRAIL :: "u32 \<Rightarrow> bool" where
  "U16_IS_TRAIL c \<longleftrightarrow> c AND 0xfffffc00 = 0xdc00"

definition U16_SURROGATE_OFFSET :: u32 where
  "U16_SURROGATE_OFFSET = push_bit 10 0xd800 + 0xdc00 - 0x10000"

definition U16_GET_SUPPLEMENTARY :: "u32 \<Rightarrow> u32 \<Rightarrow> u32" where
  "U16_GET_SUPPLEMENTARY lead trail = push_bit 10 lead + trail - U16_SURROGATE_OFFSET"

text \<open>The bytes written to the buffer, without the terminating NUL; their number is the result.\<close>

function utf32ToUtf8 :: "u32 \<Rightarrow> u8 list" where
  "utf32ToUtf8 uc =
     (if uc \<le> 0x7f then [ucast uc]
      else if uc \<le> 0x7ff then
        [ucast (0xc0 + uc div 2 ^ 6), ucast (0x80 + uc mod 2 ^ 6)]
      else if uc \<le> 0xffff then
        [ucast (0xe0 + uc div 2 ^ 12), ucast (0x80 + uc div 2 ^ 6 mod 2 ^ 6),
         ucast (0x80 + uc mod 2 ^ 6)]
      else if uc \<le> 0x1fffff then
        [ucast (0xf0 + uc div 2 ^ 18), ucast (0x80 + uc div 2 ^ 12 mod 2 ^ 12),
         ucast (0x80 + uc div 2 ^ 6 mod 2 ^ 6), ucast (0x80 + uc mod 2 ^ 6)]
      else if uc \<le> 0x3ffffff then
        [ucast (0xf8 + uc div 2 ^ 24), ucast (0x80 + uc div 2 ^ 18 mod 2 ^ 18),
         ucast (0x80 + uc div 2 ^ 12 mod 2 ^ 12), ucast (0x80 + uc div 2 ^ 6 mod 2 ^ 6),
         ucast (0x80 + uc mod 2 ^ 6)]
      else if uc \<le> 0x7fffffff then
        [ucast (0xfc + uc div 2 ^ 30), ucast (0x80 + uc div 2 ^ 24 mod 2 ^ 24),
         ucast (0x80 + uc div 2 ^ 18 mod 2 ^ 18), ucast (0x80 + uc div 2 ^ 12 mod 2 ^ 12),
         ucast (0x80 + uc div 2 ^ 6 mod 2 ^ 6), ucast (0x80 + uc mod 2 ^ 6)]
      else utf32ToUtf8 0xFFFD)"
  by pat_completeness auto

termination
  by (relation "measure (\<lambda>uc. if uc \<le> 0x7fffffff then 0 else 1)") auto

declare utf32ToUtf8.simps [simp del]

definition utf32ToUtf16 :: "u32 \<Rightarrow> u16 list" where
  "utf32ToUtf16 i =
     (if i \<le> 0xffff then
        if i \<ge> 0xd800 \<and> i \<le> 0xdfff then [0xFFFD] else [ucast (i AND 0xffff)]
      else if i \<le> 0x10ffff then
        let i = i - 0x10000 in
        [ucast (0xd800 OR drop_bit 10 i), ucast (0xdc00 OR (i AND 0x3ff))]
      else [0xFFFD])"

text \<open>
  The loop over the code units; a lead surrogate looks at the next unit and consumes it when
  it is a trail surrogate.
\<close>

fun toUTF8String :: "bool \<Rightarrow> u16 list \<Rightarrow> u8 list" where
  "toUTF8String replaceInvalidUtf8 [] = []"
| "toUTF8String replaceInvalidUtf8 (u # us) =
     (let ch = (ucast u :: u32) in
      if ch < 0x80 then ucast ch # toUTF8String replaceInvalidUtf8 us
      else if U16_IS_LEAD ch then
        case us of
          [] \<Rightarrow> utf32ToUtf8 (if replaceInvalidUtf8 then 0xFFFD else ch)
        | c2 # us' \<Rightarrow>
            if U16_IS_TRAIL (ucast c2) then
              utf32ToUtf8 (U16_GET_SUPPLEMENTARY ch (ucast c2)) @ toUTF8String replaceInvalidUtf8 us'
            else utf32ToUtf8 (if replaceInvalidUtf8 then 0xFFFD else ch)
                   @ toUTF8String replaceInvalidUtf8 us
      else if replaceInvalidUtf8 \<and> U16_IS_TRAIL ch then
        utf32ToUtf8 0xFFFD @ toUTF8String replaceInvalidUtf8 us
      else utf32ToUtf8 ch @ toUTF8String replaceInvalidUtf8 us)"

definition latin1_toUTF8StringData :: "u8 list \<Rightarrow> u8 list" where
  "latin1_toUTF8StringData s =
     concat (map (\<lambda>ch. if ch < 0x80 then [ch] else utf32ToUtf8 (ucast ch)) s)"

section \<open>Decoding\<close>

definition offsetsFromUTF8 :: "u32 list" where
  "offsetsFromUTF8 = [0x00000000, 0x00003080, 0x000E2080, 0x03C82080, 0xFA082080, 0x82082080]"

text \<open>The fall-through switch that accumulates the bytes of one sequence.\<close>

fun utf8_accumulate :: "(nat \<Rightarrow> u8) \<Rightarrow> nat \<Rightarrow> nat \<Rightarrow> u32 \<Rightarrow> u32" where
  "utf8_accumulate mem p 0 ch = ch"
| "utf8_accumulate mem p (Suc 0) ch = ch + ucast (mem p)"
| "utf8_accumulate mem p (Suc (Suc n)) ch =
     utf8_accumulate mem (Suc p) (Suc n) (push_bit 6 (ch + ucast (mem p)))"

text \<open>The result: the character, \<open>valid\<close>, \<open>charlen\<close> and the advanced position.\<close>

definition readUTF8Sequence :: "(nat \<Rightarrow> u8) \<Rightarrow> nat \<Rightarrow> u32 \<times> bool \<times> nat \<times> nat" where
  "readUTF8Sequence mem p =
     (let sch = mem p; ch2 = mem (p + 1); ch3 = mem (p + 2); ch4 = mem (p + 3);
          length = (if sch AND 0x80 = 0 then Some 1
                    else if sch AND 0xE0 = 0xC0 \<and> ch2 AND 0xC0 = 0x80 then Some 2
                    else if sch AND 0xF0 = 0xE0 \<and> ch2 AND 0xC0 = 0x80 \<and> ch3 AND 0xC0 = 0x80 then Some 3
                    else if sch AND 0xF8 = 0xF0 \<and> ch2 AND 0xC0 = 0x80 \<and> ch3 AND 0xC0 = 0x80
                            \<and> ch4 AND 0xC0 = 0x80 then Some 4
                    else None)
      in case length of
           None \<Rightarrow> (- 1, False, 0, p + 1)
         | Some l \<Rightarrow> (utf8_accumulate mem p l 0 - offsetsFromUTF8 ! (l - 1), True, l, p + l))"

lemma readUTF8Sequence_advances:
  assumes "readUTF8Sequence mem p = (ch, valid, charlen, q)"
  shows "if valid then 1 \<le> charlen \<and> q = p + charlen else q = p + 1"
  using assms by (auto simp: readUTF8Sequence_def Let_def split: if_splits)

function utf8_decode_from :: "(nat \<Rightarrow> u8) \<Rightarrow> nat \<Rightarrow> nat \<Rightarrow> u16 list" where
  "utf8_decode_from mem len source =
     (if source < len then
        case readUTF8Sequence mem source of (ch, valid, charlen, q) \<Rightarrow>
          if \<not> valid then 0xFFFD # utf8_decode_from mem len q
          else if ch \<le> 0xffff then
            if ch AND 0xfffff800 = 0xd800 then
              0xFFFD # utf8_decode_from mem len (q - (charlen - 1))
            else ucast ch # utf8_decode_from mem len q
          else if ch - 0x10000 \<le> 0xfffff then
            ucast (drop_bit 10 ch + 0xd7c0) # ucast ((ch AND 0x3ff) OR 0xdc00)
              # utf8_decode_from mem len q
          else 0xFFFD # utf8_decode_from mem len (q - (charlen - 1))
      else [])"
  by pat_completeness auto

termination
  by (relation "measure (\<lambda>(mem, len, source). len - source)")
    (auto dest!: readUTF8Sequence_advances [OF sym] split: if_splits)

declare utf8_decode_from.simps [simp del]

definition utf8StringToUTF16StringNonGC :: "(nat \<Rightarrow> u8) \<Rightarrow> nat \<Rightarrow> u16 list" where
  "utf8StringToUTF16StringNonGC mem len = utf8_decode_from mem len 0"

section \<open>Bytes by their ranges\<close>

lemma byte_all:
  assumes "\<forall>n \<in> set [0..<256]. P (word_of_nat n :: u8)"
  shows "P b"
proof -
  have "unat b < 2 ^ LENGTH(8)" by (rule unsigned_less)
  then have "unat b \<in> set [0..<256]" by simp
  with assms have "P (word_of_nat (unat b))" by blast
  then show ?thesis by simp
qed

lemma lead_byte_1: "(b :: u8) AND 0x80 = 0 \<longleftrightarrow> unat b < 128"
  by (rule byte_all [where P = "\<lambda>b. b AND 0x80 = 0 \<longleftrightarrow> unat b < 128"]) code_simp

lemma lead_byte_2: "(b :: u8) AND 0xE0 = 0xC0 \<longleftrightarrow> 192 \<le> unat b \<and> unat b < 224"
  by (rule byte_all [where P = "\<lambda>b. b AND 0xE0 = 0xC0 \<longleftrightarrow> 192 \<le> unat b \<and> unat b < 224"]) code_simp

lemma lead_byte_3: "(b :: u8) AND 0xF0 = 0xE0 \<longleftrightarrow> 224 \<le> unat b \<and> unat b < 240"
  by (rule byte_all [where P = "\<lambda>b. b AND 0xF0 = 0xE0 \<longleftrightarrow> 224 \<le> unat b \<and> unat b < 240"]) code_simp

lemma lead_byte_4: "(b :: u8) AND 0xF8 = 0xF0 \<longleftrightarrow> 240 \<le> unat b \<and> unat b < 248"
  by (rule byte_all [where P = "\<lambda>b. b AND 0xF8 = 0xF0 \<longleftrightarrow> 240 \<le> unat b \<and> unat b < 248"]) code_simp

lemma continuation_byte: "(b :: u8) AND 0xC0 = 0x80 \<longleftrightarrow> 128 \<le> unat b \<and> unat b < 192"
  by (rule byte_all [where P = "\<lambda>b. b AND 0xC0 = 0x80 \<longleftrightarrow> 128 \<le> unat b \<and> unat b < 192"]) code_simp

lemmas byte_ranges = lead_byte_1 lead_byte_2 lead_byte_3 lead_byte_4 continuation_byte

section \<open>Reading one sequence\<close>

lemma read_sequence_1:
  assumes "unat (mem p) < 128"
  shows "readUTF8Sequence mem p = (word_of_nat (unat (mem p)), True, 1, p + 1)"
  using assms by (simp add: readUTF8Sequence_def byte_ranges offsetsFromUTF8_def)

lemma accumulate_2:
  "utf8_accumulate mem p (Suc (Suc 0)) 0 = word_of_nat (unat (mem p) * 64 + unat (mem (Suc p)))"
  by (simp add: push_bit_eq_mult)

lemma accumulate_3:
  "utf8_accumulate mem p (Suc (Suc (Suc 0))) 0 =
     word_of_nat ((unat (mem p) * 64 + unat (mem (Suc p))) * 64 + unat (mem (Suc (Suc p))))"
  by (simp add: push_bit_eq_mult algebra_simps)

lemma accumulate_4:
  "utf8_accumulate mem p (Suc (Suc (Suc (Suc 0)))) 0 =
     word_of_nat (((unat (mem p) * 64 + unat (mem (Suc p))) * 64 + unat (mem (Suc (Suc p)))) * 64
       + unat (mem (Suc (Suc (Suc p)))))"
  by (simp add: push_bit_eq_mult algebra_simps)

lemma four_Suc: "4 = Suc (Suc (Suc (Suc 0)))"
  by simp

lemma plus_three: "p + 3 = Suc (Suc (Suc p))"
  by simp

lemma word_of_nat_minus_offset:
  assumes "m = n + k"
  shows "word_of_nat m - word_of_nat k = (word_of_nat n :: u32)"
  using assms by simp

lemma read_sequence_2:
  assumes "unat (mem p) = 192 + a" "a < 32" "unat (mem (Suc p)) = 128 + b" "b < 64"
  shows "readUTF8Sequence mem p = (word_of_nat (a * 64 + b), True, 2, p + 2)"
proof -
  have "word_of_nat (unat (mem p) * 64 + unat (mem (Suc p))) - word_of_nat 0x3080
          = (word_of_nat (a * 64 + b) :: u32)"
    by (rule word_of_nat_minus_offset) (simp add: assms)
  then show ?thesis
    using assms by (simp add: readUTF8Sequence_def byte_ranges plus_three offsetsFromUTF8_def accumulate_2 [folded numeral_2_eq_2])
qed

lemma read_sequence_3:
  assumes "unat (mem p) = 224 + a" "a < 16" "unat (mem (Suc p)) = 128 + b" "b < 64"
    "unat (mem (Suc (Suc p))) = 128 + c" "c < 64"
  shows "readUTF8Sequence mem p = (word_of_nat ((a * 64 + b) * 64 + c), True, 3, p + 3)"
proof -
  have "word_of_nat ((unat (mem p) * 64 + unat (mem (Suc p))) * 64 + unat (mem (Suc (Suc p))))
          - word_of_nat 0xE2080 = (word_of_nat ((a * 64 + b) * 64 + c) :: u32)"
    by (rule word_of_nat_minus_offset) (simp add: assms)
  then show ?thesis
    using assms by (simp add: readUTF8Sequence_def byte_ranges plus_three offsetsFromUTF8_def accumulate_3 [folded numeral_3_eq_3])
qed

lemma read_sequence_4:
  assumes "unat (mem p) = 240 + a" "a < 8" "unat (mem (Suc p)) = 128 + b" "b < 64"
    "unat (mem (Suc (Suc p))) = 128 + c" "c < 64" "unat (mem (Suc (Suc (Suc p)))) = 128 + d" "d < 64"
  shows "readUTF8Sequence mem p = (word_of_nat (((a * 64 + b) * 64 + c) * 64 + d), True, 4, p + 4)"
proof -
  have "word_of_nat (((unat (mem p) * 64 + unat (mem (Suc p))) * 64 + unat (mem (Suc (Suc p)))) * 64
          + unat (mem (Suc (Suc (Suc p))))) - word_of_nat 0x3C82080
          = (word_of_nat (((a * 64 + b) * 64 + c) * 64 + d) :: u32)"
    by (rule word_of_nat_minus_offset) (simp add: assms)
  then show ?thesis
    using assms by (simp add: readUTF8Sequence_def byte_ranges plus_three offsetsFromUTF8_def accumulate_4 [folded four_Suc])
qed

section \<open>What the encoder writes\<close>

definition bytes_at :: "(nat \<Rightarrow> u8) \<Rightarrow> nat \<Rightarrow> u8 list \<Rightarrow> bool" where
  "bytes_at mem p bs \<longleftrightarrow> (\<forall>i < length bs. mem (p + i) = bs ! i)"

lemma bytes_at_Nil [simp]: "bytes_at mem p []"
  by (simp add: bytes_at_def)

lemma bytes_at_Cons [simp]: "bytes_at mem p (b # bs) \<longleftrightarrow> mem p = b \<and> bytes_at mem (Suc p) bs"
  by (auto simp: bytes_at_def less_Suc_eq_0_disj)

lemma bytes_at_append [simp]:
  "bytes_at mem p (xs @ ys) \<longleftrightarrow> bytes_at mem p xs \<and> bytes_at mem (p + length xs) ys"
  by (induction xs arbitrary: p) auto

lemma unat_byte_plus: "unat (ucast (a + w :: u32) :: u8) = (unat a + unat w) mod 256"
proof -
  have "unat (ucast (a + w) :: u8) = (unat a + unat w) mod 2 ^ 32 mod 2 ^ 8"
    by (simp add: unsigned_ucast_eq take_bit_eq_mod unat_word_ariths)
  also have "\<dots> = (unat a + unat w) mod 2 ^ 8"
    by (rule mod_mod_cancel) simp
  finally show ?thesis by simp
qed

text \<open>
  The code points whose encoding is right. The four-byte branch reduces the second byte modulo
  \<open>2 ^ 12\<close> instead of \<open>2 ^ 6\<close>, which after truncation to a byte is harmless below
  \<open>0x40000\<close> and from \<open>0x100000\<close> on only.
\<close>

definition encodable :: "u32 \<Rightarrow> bool" where
  "encodable c \<longleftrightarrow> c < 0x40000 \<or> 0x100000 \<le> c \<and> c \<le> 0x10ffff"

lemma split_code_point:
  fixes m :: nat
  shows "m div 64 * 64 + m mod 64 = m"
    and "(m div 4096 * 64 + m div 64 mod 64) * 64 + m mod 64 = m"
    and "((m div 262144 * 64 + m div 4096 mod 64) * 64 + m div 64 mod 64) * 64 + m mod 64 = m"
proof -
  have "m div 4096 = m div 64 div 64" "m div 262144 = m div 64 div 64 div 64"
    by (simp_all add: div_mult2_eq [symmetric])
  then show "m div 64 * 64 + m mod 64 = m"
    and "(m div 4096 * 64 + m div 64 mod 64) * 64 + m mod 64 = m"
    and "((m div 262144 * 64 + m div 4096 mod 64) * 64 + m div 64 mod 64) * 64 + m mod 64 = m"
    by (simp_all only: div_mult_mod_eq)
qed

lemma second_byte_of_four:
  fixes m :: nat
  assumes "m < 0x40000 \<or> 0x100000 \<le> m \<and> m \<le> 0x10ffff"
  shows "(128 + m div 4096 mod 4096) mod 256 = 128 + m div 4096 mod 64"
proof -
  define q where "q = m div 4096"
  have "q < 64 \<or> (\<exists>r. q = 256 + r \<and> r < 16)"
  proof (cases "m < 0x40000")
    case True
    then show ?thesis by (simp add: q_def less_mult_imp_div_less)
  next
    case False
    with assms have "0x100000 div 4096 \<le> q" "q < 272"
      by (auto simp only: q_def intro: div_le_mono less_mult_imp_div_less)
    then have "q = 256 + (q - 256) \<and> q - 256 < 16" by simp
    then show ?thesis by blast
  qed
  then show ?thesis
    unfolding q_def [symmetric] by (auto simp: le_mod_geq)
qed

lemma read_encoded:
  assumes "encodable c" and bytes: "bytes_at mem p (utf32ToUtf8 c)"
  shows "readUTF8Sequence mem p = (c, True, length (utf32ToUtf8 c), p + length (utf32ToUtf8 c))"
proof -
  define m where "m = unat c"
  have c: "word_of_nat m = c" by (simp add: m_def)
  have m: "m < 0x40000 \<or> 0x100000 \<le> m \<and> m \<le> 0x10ffff"
    using assms(1) by (simp add: encodable_def m_def word_less_nat_alt word_le_nat_alt)
  have le: "c \<le> 0x7f \<longleftrightarrow> m \<le> 0x7f" "c \<le> 0x7ff \<longleftrightarrow> m \<le> 0x7ff" "c \<le> 0xffff \<longleftrightarrow> m \<le> 0xffff"
    "c \<le> 0x1fffff \<longleftrightarrow> m \<le> 0x1fffff"
    by (simp_all add: m_def word_le_nat_alt)
  note arith = unat_byte_plus unat_div unat_mod m_def [symmetric]
  consider "m \<le> 0x7f" | "0x7f < m" "m \<le> 0x7ff" | "0x7ff < m" "m \<le> 0xffff" | "0xffff < m" "m \<le> 0x1fffff"
    using m by linarith
  then show ?thesis
  proof cases
    case 1
    have enc: "utf32ToUtf8 c = [ucast c]"
      using 1 by (simp add: utf32ToUtf8.simps [of c] le)
    have "unat (mem p) = m"
      using bytes 1 unat_byte_plus [of 0 c] by (simp add: enc m_def)
    then show ?thesis
      using 1 read_sequence_1 [of mem p] by (simp add: enc c)
  next
    case 2
    have enc: "utf32ToUtf8 c = [ucast (0xc0 + c div 2 ^ 6), ucast (0x80 + c mod 2 ^ 6)]"
      using 2 by (subst utf32ToUtf8.simps) (simp add: le)
    have "unat (mem p) = 192 + m div 64" "unat (mem (Suc p)) = 128 + m mod 64"
      using bytes 2 by (simp_all add: enc arith)
    then show ?thesis
      using 2 read_sequence_2 [of mem p "m div 64" "m mod 64", unfolded split_code_point c]
      by (simp add: enc)
  next
    case 3
    have enc: "utf32ToUtf8 c = [ucast (0xe0 + c div 2 ^ 12), ucast (0x80 + c div 2 ^ 6 mod 2 ^ 6),
        ucast (0x80 + c mod 2 ^ 6)]"
      using 3 by (subst utf32ToUtf8.simps) (simp add: le)
    have "unat (mem p) = 224 + m div 4096" "unat (mem (Suc p)) = 128 + m div 64 mod 64"
      "unat (mem (Suc (Suc p))) = 128 + m mod 64"
      using bytes 3 by (simp_all add: enc arith)
    then show ?thesis
      using 3 read_sequence_3 [of mem p "m div 4096" "m div 64 mod 64" "m mod 64",
          unfolded split_code_point c] by (simp add: enc)
  next
    case 4
    have enc: "utf32ToUtf8 c = [ucast (0xf0 + c div 2 ^ 18), ucast (0x80 + c div 2 ^ 12 mod 2 ^ 12),
        ucast (0x80 + c div 2 ^ 6 mod 2 ^ 6), ucast (0x80 + c mod 2 ^ 6)]"
      using 4 by (subst utf32ToUtf8.simps) (simp add: le)
    have "unat (mem p) = 240 + m div 262144" "unat (mem (Suc p)) = 128 + m div 4096 mod 64"
      "unat (mem (Suc (Suc p))) = 128 + m div 64 mod 64"
      "unat (mem (Suc (Suc (Suc p)))) = 128 + m mod 64"
      using bytes 4 second_byte_of_four [OF m] by (simp_all add: enc arith)
    then show ?thesis
      using 4 read_sequence_4 [of mem p "m div 262144" "m div 4096 mod 64" "m div 64 mod 64" "m mod 64",
          unfolded split_code_point c] by (simp add: enc)
  qed
qed

section \<open>Surrogate pairs\<close>

lemma masked_parts: "(c :: u32) = (c AND 0xfffffc00) + (c AND 0x3ff)"
proof -
  have "(c AND 0xfffffc00) AND (c AND 0x3ff) = c AND (0xfffffc00 AND 0x3ff)"
    by (simp only: ac_simps and.left_idem)
  then have disjoint: "(c AND 0xfffffc00) AND (c AND 0x3ff) = 0" by simp
  have "(c AND 0xfffffc00) OR (c AND 0x3ff) = c AND (0xfffffc00 OR 0x3ff)"
    by (simp only: bit.conj_disj_distrib)
  also have "(0xfffffc00 OR 0x3ff :: u32) = - 1" by simp
  finally show ?thesis
    using word_plus_and_or [of "c AND 0xfffffc00" "c AND 0x3ff"] disjoint by simp
qed

lemma unat_low_bits: "unat ((c :: u32) AND 0x3ff) = unat c mod 1024"
proof -
  have "c AND 0x3ff = take_bit 10 c" by (simp add: take_bit_eq_mask mask_eq_exp_minus_1)
  then show ?thesis by (simp add: unsigned_take_bit_eq take_bit_eq_mod unat_mod)
qed

lemma lead_parts: "U16_IS_LEAD c \<Longrightarrow> c = 0xd800 + (c AND 0x3ff)"
  using masked_parts [of c] by (simp add: U16_IS_LEAD_def)

lemma trail_parts: "U16_IS_TRAIL c \<Longrightarrow> c = 0xdc00 + (c AND 0x3ff)"
  using masked_parts [of c] by (simp add: U16_IS_TRAIL_def)

lemma or_trail_mark: "(c AND 0x3ff) OR (0xdc00 :: u32) = 0xdc00 + (c AND 0x3ff)"
proof -
  have "(c AND 0x3ff) AND (0xdc00 :: u32) = 0" by (simp add: and.assoc)
  then show ?thesis
    using word_plus_and_or [of "c AND 0x3ff" "0xdc00 :: u32"] by (simp add: add.commute)
qed

lemma supplementary_value:
  assumes "U16_IS_LEAD l" "U16_IS_TRAIL t"
  shows "U16_GET_SUPPLEMENTARY l t = 0x10000 + ((l AND 0x3ff) * 1024 + (t AND 0x3ff))"
proof -
  have "U16_GET_SUPPLEMENTARY l t = (0xd800 + (l AND 0x3ff)) * 1024 + (0xdc00 + (t AND 0x3ff)) - 0x35FDC00"
    using lead_parts [OF assms(1)] trail_parts [OF assms(2)]
    by (simp add: U16_GET_SUPPLEMENTARY_def U16_SURROGATE_OFFSET_def push_bit_eq_mult)
  then show ?thesis by (simp add: algebra_simps)
qed

lemma supplementary_unat:
  assumes "U16_IS_LEAD l" "U16_IS_TRAIL t"
  shows "unat (U16_GET_SUPPLEMENTARY l t) = 65536 + (unat (l AND 0x3ff) * 1024 + unat (t AND 0x3ff))"
proof -
  have "U16_GET_SUPPLEMENTARY l t =
      word_of_nat (65536 + (unat (l AND 0x3ff) * 1024 + unat (t AND 0x3ff)))"
    by (simp add: supplementary_value [OF assms])
  then show ?thesis
    by (simp only: unat_of_nat unat_low_bits) simp
qed

lemma ucast_up_down: "(ucast (ucast (u :: u16) :: u32) :: u16) = u"
  by (rule bit_word_eqI) (simp add: bit_simps)

lemma supplementary_roundtrip:
  assumes "U16_IS_LEAD (ucast (u :: u16))" "U16_IS_TRAIL (ucast (v :: u16))"
  defines "ch \<equiv> U16_GET_SUPPLEMENTARY (ucast u) (ucast v)"
  shows "ucast (drop_bit 10 ch + 0xd7c0) = u" "ucast ((ch AND 0x3ff) OR 0xdc00) = v"
    "\<not> ch \<le> 0xffff" "ch - 0x10000 \<le> 0xfffff" "ch \<le> 0x10ffff"
proof -
  define a where "a = unat (ucast u AND (0x3ff :: u32))"
  define b where "b = unat (ucast v AND (0x3ff :: u32))"
  have ab: "a < 1024" "b < 1024"
    by (simp_all add: a_def b_def unat_low_bits)
  have ch: "unat ch = 65536 + (a * 1024 + b)"
    using supplementary_unat [OF assms(1, 2)] by (simp add: a_def b_def ch_def)
  have "ucast u = (0xd800 + (ucast u AND 0x3ff) :: u32)"
    by (rule lead_parts [OF assms(1)])
  then have "unat (ucast u :: u32) = unat (0xd800 + (ucast u AND 0x3ff) :: u32)"
    by (rule arg_cong)
  also have "\<dots> = 0xd800 + a"
    using ab by (simp add: unat_word_ariths a_def)
  finally have u: "unat (ucast u :: u32) = 0xd800 + a" .
  have "unat (drop_bit 10 ch) = 64 + a"
    using ch ab by (simp add: drop_bit_eq_div unat_div)
  then have "unat (drop_bit 10 ch + 0xd7c0) = unat (ucast u :: u32)"
    using u ab by (simp add: unat_word_ariths)
  then have "drop_bit 10 ch + 0xd7c0 = ucast u" by (rule unsigned_word_eqI)
  then show "ucast (drop_bit 10 ch + 0xd7c0) = u" by (simp add: ucast_up_down)
  have "unat (ch AND 0x3ff) = unat (ucast v AND (0x3ff :: u32))"
    using ab mod_mult_self1 [of b "64 + a" 1024]
    by (simp add: unat_low_bits [of ch] ch b_def [symmetric] algebra_simps)
  then have "ch AND 0x3ff = ucast v AND 0x3ff" by (rule unsigned_word_eqI)
  then have "(ch AND 0x3ff) OR 0xdc00 = ucast v"
    using trail_parts [OF assms(2)] by (simp add: or_trail_mark)
  then show "ucast ((ch AND 0x3ff) OR 0xdc00) = v" by (simp add: ucast_up_down)
  show "\<not> ch \<le> 0xffff" "ch \<le> 0x10ffff"
    using ch ab by (simp_all add: word_le_nat_alt)
  show "ch - 0x10000 \<le> 0xfffff"
    using ch ab by (simp add: word_le_nat_alt unat_sub)
qed

section \<open>Round trip\<close>

text \<open>
  Well-formed UTF-16 whose code points the encoder handles: every surrogate is half of a pair.
\<close>

fun encodable_utf16 :: "u16 list \<Rightarrow> bool" where
  "encodable_utf16 [] = True"
| "encodable_utf16 (u # us) =
     (if U16_IS_LEAD (ucast u) then
        case us of [] \<Rightarrow> False
        | v # us' \<Rightarrow> U16_IS_TRAIL (ucast v) \<and> encodable (U16_GET_SUPPLEMENTARY (ucast u) (ucast v))
            \<and> encodable_utf16 us'
      else \<not> U16_IS_TRAIL (ucast u) \<and> encodable_utf16 us)"

lemma utf8_length_pos: "utf32ToUtf8 c \<noteq> []"
  by (induction c rule: utf32ToUtf8.induct) (simp add: utf32ToUtf8.simps)

lemma decode_bmp_unit:
  assumes "encodable c" "c \<le> 0xffff" "c AND 0xfffff800 \<noteq> 0xd800"
    "bytes_at mem p (utf32ToUtf8 c)" "p + length (utf32ToUtf8 c) \<le> len"
  shows "utf8_decode_from mem len p = ucast c # utf8_decode_from mem len (p + length (utf32ToUtf8 c))"
proof -
  have "p < len" using assms(5) utf8_length_pos [of c] by (cases "utf32ToUtf8 c") auto
  then show ?thesis
    using assms by (subst utf8_decode_from.simps) (simp add: read_encoded)
qed

lemma decode_pair:
  assumes "U16_IS_LEAD (ucast (u :: u16))" "U16_IS_TRAIL (ucast (v :: u16))"
    and c: "c = U16_GET_SUPPLEMENTARY (ucast u) (ucast v)"
    and "encodable c" "bytes_at mem p (utf32ToUtf8 c)" "p + length (utf32ToUtf8 c) \<le> len"
  shows "utf8_decode_from mem len p = u # v # utf8_decode_from mem len (p + length (utf32ToUtf8 c))"
proof -
  have "p < len" using assms(6) utf8_length_pos [of c] by (cases "utf32ToUtf8 c") auto
  then show ?thesis
    using assms supplementary_roundtrip [OF assms(1, 2)]
    by (subst utf8_decode_from.simps) (simp add: read_encoded)
qed

lemma surrogate_unit:
  assumes "(c :: u32) AND 0xfffff800 = 0xd800"
  shows "U16_IS_LEAD c \<or> U16_IS_TRAIL c"
proof -
  have "c AND 0xfffffc00 = c AND (0xfffff800 OR 0x400)" by simp
  also have "\<dots> = 0xd800 OR (c AND 0x400)"
    using assms by (simp only: bit.conj_disj_distrib)
  finally show ?thesis
    using and_pow2_cases [of c 10] by (auto simp: U16_IS_LEAD_def U16_IS_TRAIL_def)
qed

lemma unit_in_bmp: "(ucast (u :: u16) :: u32) \<le> 0xffff"
proof -
  have "unat u < 2 ^ LENGTH(16)" by (rule unsigned_less)
  then show ?thesis by (simp add: word_le_nat_alt unsigned_ucast_eq take_bit_nat_eq_self)
qed

lemma encodable_unit: "encodable (ucast (u :: u16))"
  using unit_in_bmp [of u] by (simp add: encodable_def word_le_nat_alt word_less_nat_alt)

lemma toUTF8String_unit:
  assumes "\<not> U16_IS_LEAD (ucast u)" "\<not> U16_IS_TRAIL (ucast u)"
  shows "toUTF8String r (u # us) = utf32ToUtf8 (ucast u) @ toUTF8String r us"
proof (cases "(ucast u :: u32) < 0x80")
  case True
  then have "(ucast u :: u32) \<le> 0x7f" by (simp add: word_le_nat_alt word_less_nat_alt)
  then show ?thesis using assms True by (simp add: utf32ToUtf8.simps)
next
  case False
  then show ?thesis using assms by simp
qed

lemma surrogate_range: "U16_IS_LEAD c \<or> U16_IS_TRAIL c \<Longrightarrow> 0xd800 \<le> unat c"
proof -
  assume "U16_IS_LEAD c \<or> U16_IS_TRAIL c"
  then have "c = 0xd800 + (c AND 0x3ff) \<or> c = 0xdc00 + (c AND 0x3ff)"
    using lead_parts trail_parts by blast
  then have "unat c = unat (0xd800 + (c AND 0x3ff)) \<or> unat c = unat (0xdc00 + (c AND 0x3ff))"
    by auto
  then show ?thesis by (auto simp: unat_word_ariths unat_low_bits)
qed

lemma lead_not_ascii: "U16_IS_LEAD c \<Longrightarrow> \<not> c < 0x80"
  using surrogate_range [of c] by (auto simp: word_less_nat_alt)

lemma decode_encoded:
  assumes "encodable_utf16 s" "bytes_at mem p (toUTF8String r s)" "len = p + length (toUTF8String r s)"
  shows "utf8_decode_from mem len p = s"
  using assms
proof (induction s arbitrary: p rule: encodable_utf16.induct)
  case 1
  then show ?case by (simp add: utf8_decode_from.simps)
next
  case (2 u us)
  show ?case
  proof (cases "U16_IS_LEAD (ucast u)")
    case True
    then obtain v us' where us: "us = v # us'" and v: "U16_IS_TRAIL (ucast v)"
      and enc: "encodable (U16_GET_SUPPLEMENTARY (ucast u) (ucast v))" "encodable_utf16 us'"
      using 2(3) by (auto split: list.splits)
    have s: "toUTF8String r (u # v # us') = utf32ToUtf8 (U16_GET_SUPPLEMENTARY (ucast u) (ucast v))
        @ toUTF8String r us'"
      using True v lead_not_ascii [OF True] by simp
    show ?thesis
      using decode_pair [OF True v refl enc(1), of mem p len] 2(1) [OF True us enc(2)] 2(4, 5)
      by (simp add: us s add.assoc del: toUTF8String.simps)
  next
    case False
    then have nt: "\<not> U16_IS_TRAIL (ucast u)" and enc: "encodable_utf16 us"
      using 2(3) by auto
    note s = toUTF8String_unit [OF False nt]
    have "(ucast u :: u32) AND 0xfffff800 \<noteq> 0xd800"
      using surrogate_unit False nt by blast
    then show ?thesis
      using decode_bmp_unit [OF encodable_unit unit_in_bmp, of u mem p len] 2(2) [OF False enc] 2(4, 5)
      by (simp add: s add.assoc ucast_up_down del: toUTF8String.simps)
  qed
qed

text \<open>
  C35. Decoding the UTF-8 bytes of a well-formed string gives the string back, whatever the
  memory holds after the bytes and whether or not invalid text is to be replaced, provided
  its code points are outside the planes 4 to 15.
\<close>

theorem utf8_roundtrip:
  assumes "encodable_utf16 s" and "bytes_at mem 0 (toUTF8String r s)"
  shows "utf8StringToUTF16StringNonGC mem (length (toUTF8String r s)) = s"
  using decode_encoded [OF assms] by (simp add: utf8StringToUTF16StringNonGC_def)

theorem utf8_roundtrip_witness:
  "utf8StringToUTF16StringNonGC (\<lambda>i. if i < 10 then toUTF8String False [0x61, 0xE9, 0x20AC, 0xD83D, 0xDE00] ! i else 0xFF)
     (length (toUTF8String False [0x61, 0xE9, 0x20AC, 0xD83D, 0xDE00])) = [0x61, 0xE9, 0x20AC, 0xD83D, 0xDE00]"
proof (rule utf8_roundtrip)
  show "encodable_utf16 [0x61, 0xE9, 0x20AC, 0xD83D, 0xDE00]" by code_simp
  show "bytes_at (\<lambda>i. if i < 10 then toUTF8String False [0x61, 0xE9, 0x20AC, 0xD83D, 0xDE00] ! i else 0xFF) 0
      (toUTF8String False [0x61, 0xE9, 0x20AC, 0xD83D, 0xDE00])" by code_simp
qed

text \<open>
  A defect: no code point of the planes 4 to 15 survives; the second byte that
  \<^verbatim>\<open>utf32ToUtf8\<close> writes for it is not a continuation byte, so that the decoder rejects the
  sequence.
\<close>

theorem utf8_planes_4_to_15_rejected:
  assumes "0x40000 \<le> c" "c < 0x100000" and "bytes_at mem p (utf32ToUtf8 c)"
  shows "readUTF8Sequence mem p = (- 1, False, 0, p + 1)"
proof -
  define m where "m = unat c"
  have m: "0x40000 \<le> m" "m < 0x100000"
    using assms(1, 2) by (simp_all add: m_def word_less_nat_alt word_le_nat_alt)
  have enc: "utf32ToUtf8 c = [ucast (0xf0 + c div 2 ^ 18), ucast (0x80 + c div 2 ^ 12 mod 2 ^ 12),
      ucast (0x80 + c div 2 ^ 6 mod 2 ^ 6), ucast (0x80 + c mod 2 ^ 6)]"
    using m by (subst utf32ToUtf8.simps) (simp add: m_def word_le_nat_alt)
  note arith = unat_byte_plus unat_div unat_mod m_def [symmetric]
  have q: "0x40000 div 4096 \<le> m div 4096" "m div 4096 < 256" "m div 262144 < 4"
    using m by (auto intro: div_le_mono less_mult_imp_div_less)
  have first: "unat (mem p) = 240 + m div 262144"
    using assms(3) q(3) by (simp add: enc arith)
  have "unat (mem (Suc p)) = (128 + m div 4096) mod 256"
    using assms(3) q(2) by (simp add: enc arith)
  also have "\<dots> < 128 \<or> \<dots> \<ge> 192"
    using q by (cases "m div 4096 < 128") (auto simp: le_mod_geq)
  finally have "\<not> (128 \<le> unat (mem (Suc p)) \<and> unat (mem (Suc p)) < 192)" by auto
  then show ?thesis
    using first by (auto simp: readUTF8Sequence_def byte_ranges Let_def)
qed

theorem utf8_planes_4_to_15_rejected_witness:
  "readUTF8Sequence (\<lambda>i. [0xF3, 0x60, 0x81, 0xA7] ! i) 0 = (- 1, False, 0, 1)"
  using utf8_planes_4_to_15_rejected [of "0xE0067" "\<lambda>i. [0xF3, 0x60, 0x81, 0xA7] ! i" 0]
  by (simp add: utf32ToUtf8.simps)

text \<open>The separate loop for Latin-1 contents agrees with the general one.\<close>

lemma latin1_is_general:
  "latin1_toUTF8StringData s = toUTF8String r (map ucast s)"
proof (induction s)
  case Nil
  then show ?case by (simp add: latin1_toUTF8StringData_def)
next
  case (Cons ch s)
  have up: "(ucast (ucast ch :: u16) :: u32) = ucast ch" "(ucast (ucast ch :: u32) :: u8) = ch"
    by (rule bit_word_eqI, auto simp: bit_simps dest: bit_imp_le_length)+
  have "unat ch < 2 ^ LENGTH(8)" by (rule unsigned_less)
  then have unat: "unat (ucast ch :: u32) = unat ch" and "unat (ucast ch :: u32) < 0xd800"
    by (simp_all add: unsigned_ucast_eq take_bit_nat_eq_self)
  then have "\<not> U16_IS_LEAD (ucast ch)" "\<not> U16_IS_TRAIL (ucast ch)"
    using surrogate_range [of "ucast ch"] by auto
  then show ?case
    using Cons unat by (simp add: latin1_toUTF8StringData_def up word_less_nat_alt)
qed

end
