(* ===== verification/Lexer_Keywords.thy ===== *)
theory Lexer_Keywords
  imports Property_Name
begin

text \<open>
  Recognition of keywords by the scanner (\<^verbatim>\<open>Lexer.h\<close>, \<^verbatim>\<open>Lexer.cpp\<close>): the enumeration, the
  texts of the keywords and the hand-written decision tree \<^verbatim>\<open>getKeyword\<close>, which switches on
  the first unit, the length and the second unit before it compares the remaining ones.
\<close>

datatype KeywordKind =
    NotKeyword | IfKeyword | InKeyword | DoKeyword | VarKeyword
  | ForKeyword | NewKeyword | TryKeyword | ThisKeyword | ElseKeyword
  | CaseKeyword | VoidKeyword | WithKeyword | EnumKeyword | WhileKeyword
  | BreakKeyword | CatchKeyword | ThrowKeyword | ConstKeyword | ClassKeyword
  | SuperKeyword | ReturnKeyword | TypeofKeyword | DeleteKeyword | SwitchKeyword
  | ExportKeyword | ImportKeyword | DefaultKeyword | FinallyKeyword | ExtendsKeyword
  | FunctionKeyword | ContinueKeyword | DebuggerKeyword | InstanceofKeyword | StrictModeReservedWord
  | ImplementsKeyword | InterfaceKeyword | PackageKeyword | PrivateKeyword | ProtectedKeyword
  | PublicKeyword | StaticKeyword | YieldKeyword | LetKeyword | OtherKeyword
  | NullKeyword | TrueKeyword | FalseKeyword | GetKeyword | SetKeyword
  | EvalKeyword | ArgumentsKeyword | OfKeyword | AsyncKeyword | AwaitKeyword
  | AsKeyword | FromKeyword | KeywordKindEnd

text \<open>The code units of an ASCII literal.\<close>

definition lit :: "string \<Rightarrow> u16 list" where
  "lit s = map of_char s"

text \<open>\<^verbatim>\<open>StringBufferAccessData::equalsSameLength\<close>; its assertion demands equal lengths.\<close>

definition equalsSameLength :: "u16 list \<Rightarrow> string \<Rightarrow> nat \<Rightarrow> bool" where
  "equalsSameLength data str compareStartAt \<longleftrightarrow>
     take (length data - compareStartAt) (drop compareStartAt data)
       = take (length data - compareStartAt) (drop compareStartAt (lit str))"

definition keywordToString :: "KeywordKind \<Rightarrow> u16 list" where
  "keywordToString keyword =
     (case keyword of
        IfKeyword \<Rightarrow> lit ''if''
      | InKeyword \<Rightarrow> lit ''in''
      | DoKeyword \<Rightarrow> lit ''do''
      | VarKeyword \<Rightarrow> lit ''var''
      | ForKeyword \<Rightarrow> lit ''for''
      | NewKeyword \<Rightarrow> lit ''new''
      | TryKeyword \<Rightarrow> lit ''try''
      | ThisKeyword \<Rightarrow> lit ''this''
      | ElseKeyword \<Rightarrow> lit ''else''
      | CaseKeyword \<Rightarrow> lit ''case''
      | VoidKeyword \<Rightarrow> lit ''void''
      | WithKeyword \<Rightarrow> lit ''with''
      | EnumKeyword \<Rightarrow> lit ''enum''
      | WhileKeyword \<Rightarrow> lit ''while''
      | BreakKeyword \<Rightarrow> lit ''break''
      | CatchKeyword \<Rightarrow> lit ''catch''
      | ThrowKeyword \<Rightarrow> lit ''throw''
      | ConstKeyword \<Rightarrow> lit ''const''
      | ClassKeyword \<Rightarrow> lit ''class''
      | SuperKeyword \<Rightarrow> lit ''super''
      | ReturnKeyword \<Rightarrow> lit ''return''
      | TypeofKeyword \<Rightarrow> lit ''typeof''
      | DeleteKeyword \<Rightarrow> lit ''delete''
      | SwitchKeyword \<Rightarrow> lit ''switch''
      | ExportKeyword \<Rightarrow> lit ''export''
      | ImportKeyword \<Rightarrow> lit ''import''
      | DefaultKeyword \<Rightarrow> lit ''default''
      | FinallyKeyword \<Rightarrow> lit ''finally''
      | ExtendsKeyword \<Rightarrow> lit ''extends''
      | FunctionKeyword \<Rightarrow> lit ''function''
      | ContinueKeyword \<Rightarrow> lit ''continue''
      | DebuggerKeyword \<Rightarrow> lit ''debugger''
      | InstanceofKeyword \<Rightarrow> lit ''instanceof''
      | ImplementsKeyword \<Rightarrow> lit ''implements''
      | InterfaceKeyword \<Rightarrow> lit ''interface''
      | PackageKeyword \<Rightarrow> lit ''package''
      | PrivateKeyword \<Rightarrow> lit ''private''
      | ProtectedKeyword \<Rightarrow> lit ''protected''
      | PublicKeyword \<Rightarrow> lit ''public''
      | StaticKeyword \<Rightarrow> lit ''static''
      | YieldKeyword \<Rightarrow> lit ''yield''
      | LetKeyword \<Rightarrow> lit ''let''
      | NullKeyword \<Rightarrow> lit ''null''
      | TrueKeyword \<Rightarrow> lit ''true''
      | FalseKeyword \<Rightarrow> lit ''false''
      | GetKeyword \<Rightarrow> lit ''get''
      | SetKeyword \<Rightarrow> lit ''set''
      | EvalKeyword \<Rightarrow> lit ''eval''
      | ArgumentsKeyword \<Rightarrow> lit ''arguments''
      | OfKeyword \<Rightarrow> lit ''of''
      | AsyncKeyword \<Rightarrow> lit ''async''
      | AwaitKeyword \<Rightarrow> lit ''await''
      | AsKeyword \<Rightarrow> lit ''as''
      | FromKeyword \<Rightarrow> lit ''from''
      | _ \<Rightarrow> lit ''error'')"

text \<open>The cases of the outer switch, in four groups.\<close>

definition getKeyword_a_d :: "u16 list \<Rightarrow> KeywordKind" where
  "getKeyword_a_d data =
     (if charAt data 0 = of_char (CHR ''a'') then (
         if length data = 2 then (
           if charAt data 1 = of_char (CHR ''s'') then AsKeyword
           else NotKeyword)
         else if length data = 5 then (
           if charAt data 1 = of_char (CHR ''s'') \<and> equalsSameLength data ''async'' 2 then AsyncKeyword
           else if charAt data 1 = of_char (CHR ''w'') \<and> equalsSameLength data ''await'' 2 then AwaitKeyword
           else NotKeyword)
         else if length data = 9 then (
           if equalsSameLength data ''arguments'' 1 then ArgumentsKeyword
           else NotKeyword)
         else NotKeyword)
     else if charAt data 0 = of_char (CHR ''b'') then (
         if length data = 5 \<and> equalsSameLength data ''break'' 1 then BreakKeyword
         else NotKeyword)
     else if charAt data 0 = of_char (CHR ''c'') then (
         if length data = 4 then (
           if equalsSameLength data ''case'' 1 then CaseKeyword
           else NotKeyword)
         else if length data = 5 then (
           if charAt data 1 = of_char (CHR ''a'') \<and> equalsSameLength data ''catch'' 2 then CatchKeyword
           else if charAt data 1 = of_char (CHR ''o'') \<and> equalsSameLength data ''const'' 2 then ConstKeyword
           else if charAt data 1 = of_char (CHR ''l'') \<and> equalsSameLength data ''class'' 2 then ClassKeyword
           else NotKeyword)
         else if length data = 8 \<and> equalsSameLength data ''continue'' 1 then ContinueKeyword
         else NotKeyword)
     else if charAt data 0 = of_char (CHR ''d'') then (
         if length data = 2 then (
           if charAt data 1 = of_char (CHR ''o'') then DoKeyword
           else NotKeyword)
         else if length data = 6 then (
           if equalsSameLength data ''delete'' 1 then DeleteKeyword
           else NotKeyword)
         else if length data = 7 then (
           if equalsSameLength data ''default'' 1 then DefaultKeyword
           else NotKeyword)
         else if length data = 8 then (
           if equalsSameLength data ''debugger'' 1 then DebuggerKeyword
           else NotKeyword)
         else NotKeyword)
     else NotKeyword)"

definition getKeyword_e_g :: "u16 list \<Rightarrow> KeywordKind" where
  "getKeyword_e_g data =
     (if charAt data 0 = of_char (CHR ''e'') then (
         if length data = 4 then (
           if charAt data 1 = of_char (CHR ''l'') \<and> equalsSameLength data ''else'' 2 then ElseKeyword
           else if charAt data 1 = of_char (CHR ''n'') \<and> equalsSameLength data ''enum'' 2 then EnumKeyword
           else if charAt data 1 = of_char (CHR ''v'') \<and> equalsSameLength data ''eval'' 2 then EvalKeyword
           else NotKeyword)
         else if length data = 6 then (
           if equalsSameLength data ''export'' 1 then ExportKeyword
           else NotKeyword)
         else if length data = 7 then (
           if equalsSameLength data ''extends'' 1 then ExtendsKeyword
           else NotKeyword)
         else NotKeyword)
     else if charAt data 0 = of_char (CHR ''f'') then (
         if length data = 3 then (
           if equalsSameLength data ''for'' 1 then ForKeyword
           else NotKeyword)
         else if length data = 4 then (
           if equalsSameLength data ''from'' 1 then FromKeyword
           else NotKeyword)
         else if length data = 5 then (
           if equalsSameLength data ''false'' 1 then FalseKeyword
           else NotKeyword)
         else if length data = 7 then (
           if equalsSameLength data ''finally'' 1 then FinallyKeyword
           else NotKeyword)
         else if length data = 8 then (
           if equalsSameLength data ''function'' 1 then FunctionKeyword
           else NotKeyword)
         else NotKeyword)
     else if charAt data 0 = of_char (CHR ''g'') then (
         if length data = 3 \<and> equalsSameLength data ''get'' 1 then GetKeyword
         else NotKeyword)
     else NotKeyword)"

definition getKeyword_i_p :: "u16 list \<Rightarrow> KeywordKind" where
  "getKeyword_i_p data =
     (if charAt data 0 = of_char (CHR ''i'') then (
         if length data = 2 then (
           if charAt data 1 = of_char (CHR ''f'') then IfKeyword
           else if charAt data 1 = of_char (CHR ''n'') then InKeyword
           else NotKeyword)
         else if length data = 6 then (
           if equalsSameLength data ''import'' 1 then ImportKeyword
           else NotKeyword)
         else if length data = 9 then (
           if equalsSameLength data ''interface'' 1 then InterfaceKeyword
           else NotKeyword)
         else if length data = 10 then (
           if charAt data 1 = of_char (CHR ''n'') \<and> equalsSameLength data ''instanceof'' 2 then InstanceofKeyword
           else if charAt data 1 = of_char (CHR ''m'') \<and> equalsSameLength data ''implements'' 2 then ImplementsKeyword
           else NotKeyword)
         else NotKeyword)
     else if charAt data 0 = of_char (CHR ''l'') then (
         if length data = 3 \<and> equalsSameLength data ''let'' 1 then LetKeyword
         else NotKeyword)
     else if charAt data 0 = of_char (CHR ''n'') then (
         if length data = 3 \<and> equalsSameLength data ''new'' 1 then NewKeyword
         else if length data = 4 \<and> equalsSameLength data ''null'' 1 then NullKeyword
         else NotKeyword)
     else if charAt data 0 = of_char (CHR ''o'') then (
         if length data = 2 \<and> charAt data 1 = of_char (CHR ''f'') then OfKeyword
         else NotKeyword)
     else if charAt data 0 = of_char (CHR ''p'') then (
         if length data = 6 then (
           if equalsSameLength data ''public'' 1 then PublicKeyword
           else NotKeyword)
         else if length data = 7 then (
           if charAt data 1 = of_char (CHR ''a'') \<and> equalsSameLength data ''package'' 2 then PackageKeyword
           else if charAt data 1 = of_char (CHR ''r'') \<and> equalsSameLength data ''private'' 2 then PrivateKeyword
           else NotKeyword)
         else if length data = 9 then (
           if equalsSameLength data ''protected'' 1 then ProtectedKeyword
           else NotKeyword)
         else NotKeyword)
     else NotKeyword)"

definition getKeyword_r_y :: "u16 list \<Rightarrow> KeywordKind" where
  "getKeyword_r_y data =
     (if charAt data 0 = of_char (CHR ''r'') then (
         if length data = 6 \<and> equalsSameLength data ''return'' 1 then ReturnKeyword
         else NotKeyword)
     else if charAt data 0 = of_char (CHR ''s'') then (
         if length data = 3 then (
           if equalsSameLength data ''set'' 1 then SetKeyword
           else NotKeyword)
         else if length data = 5 then (
           if equalsSameLength data ''super'' 1 then SuperKeyword
           else NotKeyword)
         else if length data = 6 then (
           if charAt data 1 = of_char (CHR ''w'') \<and> equalsSameLength data ''switch'' 2 then SwitchKeyword
           else if charAt data 1 = of_char (CHR ''t'') \<and> equalsSameLength data ''static'' 2 then StaticKeyword
           else NotKeyword)
         else NotKeyword)
     else if charAt data 0 = of_char (CHR ''t'') then (
         if length data = 3 then (
           if equalsSameLength data ''try'' 1 then TryKeyword
           else NotKeyword)
         else if length data = 4 then (
           if charAt data 1 = of_char (CHR ''h'') \<and> equalsSameLength data ''this'' 2 then ThisKeyword
           else if charAt data 1 = of_char (CHR ''r'') \<and> equalsSameLength data ''true'' 2 then TrueKeyword
           else NotKeyword)
         else if length data = 5 then (
           if equalsSameLength data ''throw'' 1 then ThrowKeyword
           else NotKeyword)
         else if length data = 6 then (
           if equalsSameLength data ''typeof'' 1 then TypeofKeyword
           else NotKeyword)
         else NotKeyword)
     else if charAt data 0 = of_char (CHR ''v'') then (
         if length data = 3 \<and> equalsSameLength data ''var'' 1 then VarKeyword
         else if length data = 4 \<and> equalsSameLength data ''void'' 1 then VoidKeyword
         else NotKeyword)
     else if charAt data 0 = of_char (CHR ''w'') then (
         if length data = 4 \<and> equalsSameLength data ''with'' 1 then WithKeyword
         else if length data = 5 \<and> equalsSameLength data ''while'' 1 then WhileKeyword
         else NotKeyword)
     else if charAt data 0 = of_char (CHR ''y'') then (
         if length data = 5 \<and> equalsSameLength data ''yield'' 1 then YieldKeyword
         else NotKeyword)
     else NotKeyword)"

text \<open>The groups are disjoint by their first unit, so they are tried one after the other.\<close>

definition getKeyword :: "u16 list \<Rightarrow> KeywordKind" where
  "getKeyword data =
     (let k = getKeyword_a_d data in if k \<noteq> NotKeyword then k
      else let k = getKeyword_e_g data in if k \<noteq> NotKeyword then k
      else let k = getKeyword_i_p data in if k \<noteq> NotKeyword then k
      else getKeyword_r_y data)"

definition isFutureReservedWord :: "u16 list \<Rightarrow> bool" where
  "isFutureReservedWord data \<longleftrightarrow>
     (if length data = 4 then equalsSameLength data ''enum'' 0
      else if length data = 5 then equalsSameLength data ''super'' 0
      else if length data = 6 then equalsSameLength data ''export'' 0 \<or> equalsSameLength data ''import'' 0
      else False)"

lemma length_lit [simp]: "length (lit s) = length s"
  by (simp add: lit_def)

lemma equalsSameLength_iff:
  "length data = length str \<Longrightarrow> equalsSameLength data str k \<longleftrightarrow> drop k data = drop k (lit str)"
  by (simp add: equalsSameLength_def)

lemma literal_from_0:
  "length data = length str \<Longrightarrow> equalsSameLength data str 0 \<longleftrightarrow> data = lit str"
  by (simp add: equalsSameLength_iff)

lemma literal_from_1:
  assumes "length data = length str" "str \<noteq> []" "charAt data 0 = of_char (hd str)"
    "equalsSameLength data str (Suc 0)"
  shows "data = lit str"
proof -
  obtain c cs where str: "str = c # cs" using assms(2) by (cases str) auto
  obtain d ds where data: "data = d # ds" using assms(1) str by (cases data) auto
  show ?thesis using assms by (simp add: equalsSameLength_iff charAt_def str data lit_def)
qed

lemma literal_from_2:
  assumes "length data = length str" "Suc 0 < length str" "charAt data 0 = of_char (hd str)"
    "charAt data (Suc 0) = of_char (hd (tl str))" "equalsSameLength data str 2"
  shows "data = lit str"
proof -
  obtain c c2 cs where str: "str = c # c2 # cs"
    using assms(2) by (cases str; cases "tl str") auto
  obtain d d2 ds where data: "data = d # d2 # ds"
    using assms(1) str by (cases data; cases "tl data") auto
  show ?thesis using assms by (simp add: equalsSameLength_iff charAt_def str data lit_def)
qed

lemma literal_of_two:
  assumes "length data = 2" "length str = 2" "charAt data 0 = of_char (hd str)"
    "charAt data (Suc 0) = of_char (hd (tl str))"
  shows "data = lit str"
proof -
  have "equalsSameLength data str 2" using assms by (simp add: equalsSameLength_iff)
  then show ?thesis using assms by (intro literal_from_2) auto
qed

lemma literal_match:
  assumes "length data = length str" "Suc 0 < length str" "charAt data 0 = of_char (hd str)"
    "equalsSameLength data str (Suc 0) \<or>
     charAt data (Suc 0) = of_char (hd (tl str)) \<and> (equalsSameLength data str 2 \<or> length str = 2)"
  shows "lit str = data"
  using assms literal_from_1 [of data str] literal_from_2 [of data str] literal_of_two [of data str]
  by fastforce

text \<open>The enumerators that stand for a keyword; the other four only delimit ranges.\<close>

definition keyword_kinds :: "KeywordKind list" where
  "keyword_kinds =
    [IfKeyword, InKeyword, DoKeyword, VarKeyword, ForKeyword,
     NewKeyword, TryKeyword, ThisKeyword, ElseKeyword, CaseKeyword,
     VoidKeyword, WithKeyword, EnumKeyword, WhileKeyword, BreakKeyword,
     CatchKeyword, ThrowKeyword, ConstKeyword, ClassKeyword, SuperKeyword,
     ReturnKeyword, TypeofKeyword, DeleteKeyword, SwitchKeyword, ExportKeyword,
     ImportKeyword, DefaultKeyword, FinallyKeyword, ExtendsKeyword, FunctionKeyword,
     ContinueKeyword, DebuggerKeyword, InstanceofKeyword, ImplementsKeyword, InterfaceKeyword,
     PackageKeyword, PrivateKeyword, ProtectedKeyword, PublicKeyword, StaticKeyword,
     YieldKeyword, LetKeyword, NullKeyword, TrueKeyword, FalseKeyword,
     GetKeyword, SetKeyword, EvalKeyword, ArgumentsKeyword, OfKeyword,
     AsyncKeyword, AwaitKeyword, AsKeyword, FromKeyword]"

text \<open>A result of the decision tree is right for \<open>data\<close> when it is the keyword with that text.\<close>

definition text_ok :: "u16 list \<Rightarrow> KeywordKind \<Rightarrow> bool" where
  "text_ok data k \<longleftrightarrow> k = NotKeyword \<or> k \<in> set keyword_kinds \<and> keywordToString k = data"

lemma text_ok_none: "text_ok data NotKeyword"
  by (simp add: text_ok_def)

lemma text_ok_if:
  "(c \<Longrightarrow> text_ok data a) \<Longrightarrow> text_ok data b \<Longrightarrow> text_ok data (if c then a else b)"
  by simp

lemma getKeyword_groups_text:
  "text_ok data (getKeyword_a_d data)" "text_ok data (getKeyword_e_g data)"
  "text_ok data (getKeyword_i_p data)" "text_ok data (getKeyword_r_y data)"
  unfolding getKeyword_a_d_def getKeyword_e_g_def getKeyword_i_p_def getKeyword_r_y_def
  by (intro text_ok_if text_ok_none; simp add: text_ok_def keyword_kinds_def keywordToString_def; rule literal_match; simp)+

lemma getKeyword_sound:
  "getKeyword data \<noteq> NotKeyword \<Longrightarrow>
     getKeyword data \<in> set keyword_kinds \<and> keywordToString (getKeyword data) = data"
  using getKeyword_groups_text [of data] by (auto simp: getKeyword_def text_ok_def Let_def)

lemma getKeyword_complete: "\<forall>k \<in> set keyword_kinds. getKeyword (keywordToString k) = k"
  unfolding keyword_kinds_def list.set ball_simps
  by (intro conjI TrueI; simp add: keywordToString_def lit_def getKeyword_def getKeyword_a_d_def getKeyword_e_g_def getKeyword_i_p_def getKeyword_r_y_def charAt_def equalsSameLength_def)

text \<open>
  The decision tree recognises exactly the keywords: it answers a keyword for a text if and
  only if the text is spelled like the keyword, and \<^verbatim>\<open>NotKeyword\<close> for every other text.
\<close>

theorem getKeyword_recognises_keywords:
  "(getKeyword data = k \<and> k \<noteq> NotKeyword) \<longleftrightarrow> (k \<in> set keyword_kinds \<and> keywordToString k = data)"
proof
  assume "getKeyword data = k \<and> k \<noteq> NotKeyword"
  then show "k \<in> set keyword_kinds \<and> keywordToString k = data"
    using getKeyword_sound by blast
next
  assume k: "k \<in> set keyword_kinds \<and> keywordToString k = data"
  then have "getKeyword data = k" using getKeyword_complete by blast
  moreover have "k \<noteq> NotKeyword" using k by (auto simp: keyword_kinds_def)
  ultimately show "getKeyword data = k \<and> k \<noteq> NotKeyword" by simp
qed

lemma isFutureReservedWord_iff:
  "isFutureReservedWord data \<longleftrightarrow> getKeyword data \<in> {EnumKeyword, SuperKeyword, ExportKeyword, ImportKeyword}"
proof -
  have "isFutureReservedWord data \<longleftrightarrow>
      data \<in> {lit ''enum'', lit ''super'', lit ''export'', lit ''import''}"
    by (auto simp: isFutureReservedWord_def literal_from_0)
  also have "\<dots> \<longleftrightarrow> data \<in> keywordToString ` {EnumKeyword, SuperKeyword, ExportKeyword, ImportKeyword}"
    by (simp add: keywordToString_def)
  also have "\<dots> \<longleftrightarrow> getKeyword data \<in> {EnumKeyword, SuperKeyword, ExportKeyword, ImportKeyword}"
    using getKeyword_sound [of data] getKeyword_complete by (auto simp: keyword_kinds_def)
  finally show ?thesis .
qed

end
