(* ===== verification/Lexer_State.thy ===== *)
theory Lexer_State
  imports Lexer_Identifiers Lexer_Keywords
begin

text \<open>
  The state of the scanner, its errors and its tokens (\<^verbatim>\<open>Lexer.h\<close>), and the functions that read
  the source. The source text is memory that can be read at
  every position, with a length: several functions of the scanner look behind the end of the text.
\<close>

abbreviation code :: "char \<Rightarrow> u16" where
  "code c \<equiv> of_char c"

section \<open>State, errors and tokens\<close>

record scanner =
  sc_source :: "nat \<Rightarrow> u16"
  sc_length :: nat
  sc_index :: nat
  sc_lineNumber :: nat
  sc_lineStart :: nat
  sc_isModule :: bool
  sc_await :: bool

datatype lex_error = LexError nat nat int string

datatype token_type =
    EOFToken | IdentifierToken | BooleanLiteralToken | KeywordToken | NullLiteralToken
  | NumericLiteralToken | PunctuatorToken | StringLiteralToken | RegularExpressionToken
  | TemplateToken | InvalidToken

datatype PunctuatorKind =
    Arrow | BitwiseAnd | BitwiseOr | BitwiseXor | Colon | Comma | Divide | Equal
  | ExclamationMark | Exponentiation | GuessDot | GuessMark | Hash | HashBang
  | InPunctuator | InstanceOfPunctuator | LeftBrace | LeftInequality | LeftParenthesis
  | LeftShift | LeftSquareBracket | LogicalAnd | LogicalOr | Minus | MinusMinus | Mod
  | Multiply | NotEqual | NotStrictEqual | NullishCoalescing | Period | PeriodPeriodPeriod
  | Plus | PlusPlus | RightBrace | RightInequality | RightParenthesis | RightShift
  | RightSquareBracket | SemiColon | StrictEqual | UnsignedRightShift | Wave
  | Substitution | BitwiseAndEqual | BitwiseOrEqual | BitwiseXorEqual | DivideEqual
  | ExponentiationEqual | LeftInequalityEqual | LeftShiftEqual | LogicalAndEqual
  | LogicalNullishEqual | LogicalOrEqual | MinusEqual | ModEqual | MultiplyEqual | PlusEqual
  | RightInequalityEqual | RightShiftEqual | UnsignedRightShiftEqual | SubstitutionEnd
  | PunctuatorKindEnd

text \<open>
  A numeric value is kept as the computation of the double: the conversion of a 64-bit integer,
  or one more step \<open>x * 16 + digit\<close> in double arithmetic.
\<close>

datatype number_term = OfUInt64 u64 | MulAdd16 number_term nat

datatype token_value =
    NoValue
  | PunctuatorValue PunctuatorKind
  | KeywordValue KeywordKind
  | StringRange nat nat
  | AllocatedString "u16 list option"
  | NumberValue number_term
  | TemplateValue "u16 list option" "u16 list" bool bool "lex_error option"
  | RegExpValue "u16 list" "u16 list"

record token =
  tk_type :: token_type
  tk_secondaryKeywordKind :: KeywordKind
  tk_startWithZero :: bool
  tk_octal :: bool
  tk_hasAllocatedString :: bool
  tk_hasNonComputedNumberLiteral :: bool
  tk_hasNumberSeparatorOnNumberLiteral :: bool
  tk_lineNumber :: nat
  tk_lineStart :: nat
  tk_start :: nat
  tk_end :: nat
  tk_value :: token_value

definition resetResult :: "token \<Rightarrow> token" where
  "resetResult t = t\<lparr>tk_type := InvalidToken, tk_startWithZero := False, tk_octal := False,
     tk_hasAllocatedString := False, tk_hasNonComputedNumberLiteral := False,
     tk_secondaryKeywordKind := NotKeyword\<rparr>"

definition set_position :: "token_type \<Rightarrow> scanner \<Rightarrow> nat \<Rightarrow> nat \<Rightarrow> token \<Rightarrow> token" where
  "set_position ty s st en t = t\<lparr>tk_type := ty, tk_lineNumber := sc_lineNumber s,
     tk_lineStart := sc_lineStart s, tk_start := st, tk_end := en\<rparr>"

definition setResult :: "token_type \<Rightarrow> scanner \<Rightarrow> nat \<Rightarrow> nat \<Rightarrow> token \<Rightarrow> token" where
  "setResult ty s st en t = (set_position ty s st en t)\<lparr>tk_value := NumberValue (OfUInt64 0)\<rparr>"

definition setPunctuatorResult :: "scanner \<Rightarrow> nat \<Rightarrow> nat \<Rightarrow> PunctuatorKind \<Rightarrow> token \<Rightarrow> token" where
  "setPunctuatorResult s st en p t =
     (set_position PunctuatorToken s st en t)\<lparr>tk_value := PunctuatorValue p\<rparr>"

definition setKeywordResult :: "scanner \<Rightarrow> nat \<Rightarrow> nat \<Rightarrow> KeywordKind \<Rightarrow> token \<Rightarrow> token" where
  "setKeywordResult s st en p t =
     (set_position KeywordToken s st en t)\<lparr>tk_value := KeywordValue p\<rparr>"

definition setResult_allocated ::
  "token_type \<Rightarrow> u16 list option \<Rightarrow> scanner \<Rightarrow> nat \<Rightarrow> nat \<Rightarrow> bool \<Rightarrow> token \<Rightarrow> token" where
  "setResult_allocated ty str s st en oct t =
     (set_position ty s st en t)\<lparr>tk_octal := oct, tk_hasAllocatedString := True,
        tk_value := AllocatedString str\<rparr>"

definition setResult_range ::
  "token_type \<Rightarrow> nat \<Rightarrow> nat \<Rightarrow> scanner \<Rightarrow> nat \<Rightarrow> nat \<Rightarrow> bool \<Rightarrow> token \<Rightarrow> token" where
  "setResult_range ty sfrom sto s st en oct t =
     (set_position ty s st en t)\<lparr>tk_octal := oct, tk_value := StringRange sfrom sto\<rparr>"

definition setNumericLiteralResult ::
  "number_term \<Rightarrow> scanner \<Rightarrow> nat \<Rightarrow> nat \<Rightarrow> bool \<Rightarrow> bool \<Rightarrow> token \<Rightarrow> token" where
  "setNumericLiteralResult v s st en nonComputed sep t =
     (set_position NumericLiteralToken s st en t)\<lparr>tk_hasNonComputedNumberLiteral := nonComputed,
        tk_hasNumberSeparatorOnNumberLiteral := sep, tk_value := NumberValue v\<rparr>"

definition setTemplateTokenResult :: "token_value \<Rightarrow> scanner \<Rightarrow> nat \<Rightarrow> nat \<Rightarrow> token \<Rightarrow> token" where
  "setTemplateTokenResult v s st en t = (set_position TemplateToken s st en t)\<lparr>tk_value := v\<rparr>"

section \<open>Reading the source\<close>

definition scanner_init :: "(nat \<Rightarrow> u16) \<Rightarrow> nat \<Rightarrow> bool \<Rightarrow> bool \<Rightarrow> nat \<Rightarrow> nat \<Rightarrow> scanner" where
  "scanner_init src len modul await startLine startColumn =
     \<lparr>sc_source = src, sc_length = len, sc_index = 0, sc_lineNumber = startLine,
      sc_lineStart = startColumn, sc_isModule = modul, sc_await = await\<rparr>"

definition eof :: "scanner \<Rightarrow> bool" where
  "eof s \<longleftrightarrow> sc_index s \<ge> sc_length s"

definition sourceCharAt :: "scanner \<Rightarrow> nat \<Rightarrow> u16" where
  "sourceCharAt s i = sc_source s i"

definition peekCharWithoutEOF :: "scanner \<Rightarrow> u16" where
  "peekCharWithoutEOF s = sourceCharAt s (sc_index s)"

definition peekChar :: "scanner \<Rightarrow> u16" where
  "peekChar s = (if eof s then 0 else sourceCharAt s (sc_index s))"

definition advance :: "nat \<Rightarrow> scanner \<Rightarrow> scanner" where
  "advance n s = s\<lparr>sc_index := sc_index s + n\<rparr>"

text \<open>\<^verbatim>\<open>++this->lineNumber; this->lineStart = this->index;\<close>\<close>

definition next_line :: "scanner \<Rightarrow> scanner" where
  "next_line s = s\<lparr>sc_lineNumber := sc_lineNumber s + 1, sc_lineStart := sc_index s\<rparr>"

definition throwUnexpectedToken :: "string \<Rightarrow> scanner \<Rightarrow> lex_error + 'a" where
  "throwUnexpectedToken message s =
     Inl (LexError (sc_index s) (sc_lineNumber s)
       (int (sc_index s) - int (sc_lineStart s) + 1) message)"

definition UnexpectedTokenIllegal :: string where
  "UnexpectedTokenIllegal = ''Unexpected token ILLEGAL''"

definition InvalidHexEscapeSequence :: string where
  "InvalidHexEscapeSequence = ''Invalid hexadecimal escape sequence''"

definition UnterminatedRegExp :: string where
  "UnterminatedRegExp = ''Invalid regular expression: missing /''"

definition TemplateOctalLiteral :: string where
  "TemplateOctalLiteral = ''Octal literals are not allowed in template strings.''"

definition KeywordMustNotContainEscapedCharacters :: string where
  "KeywordMustNotContainEscapedCharacters = ''Keyword must not contain escaped characters''"

text \<open>An error thrown at the start of a token.\<close>

definition throw_at :: "nat \<Rightarrow> string \<Rightarrow> scanner \<Rightarrow> lex_error + 'a" where
  "throw_at st message s =
     Inl (LexError st (sc_lineNumber s) (int st - int (sc_lineStart s) + 1) message)"

definition codePointAt :: "scanner \<Rightarrow> nat \<Rightarrow> u32" where
  "codePointAt s i =
     (let cp = (ucast (sourceCharAt s i) :: u32) in
      if cp \<ge> 0xD800 \<and> cp \<le> 0xDBFF then
        let second = ucast (sourceCharAt s (i + 1)) in
        if second \<ge> 0xDC00 \<and> second \<le> 0xDFFF
        then (cp - 0xD800) * 0x400 + second - 0xDC00 + 0x10000
        else cp
      else cp)"

definition ParserCharPiece :: "u32 \<Rightarrow> u16 list" where
  "ParserCharPiece a =
     (if a < 0x10000 then [ucast a]
      else [ucast (0xD800 + drop_bit 10 (a - 0x10000)), ucast (0xDC00 + ((a - 0x10000) AND 1023))])"

lemma scanner_simps [simp]:
  "sc_index (advance n s) = sc_index s + n" "sc_length (advance n s) = sc_length s"
  "sc_source (advance n s) = sc_source s" "sc_lineNumber (advance n s) = sc_lineNumber s"
  "sc_lineStart (advance n s) = sc_lineStart s" "sc_isModule (advance n s) = sc_isModule s"
  "sc_await (advance n s) = sc_await s"
  "sc_index (next_line s) = sc_index s" "sc_length (next_line s) = sc_length s"
  "sc_source (next_line s) = sc_source s" "sc_isModule (next_line s) = sc_isModule s"
  "sc_await (next_line s) = sc_await s"
  by (simp_all add: advance_def next_line_def)

end
