(* ===== verification/Lexer_Scanner.thy ===== *)
theory Lexer_Scanner
  imports Lexer_State Utf_Codec
begin

text \<open>
  The scanner (\<^verbatim>\<open>Lexer.h\<close>, \<^verbatim>\<open>Lexer.cpp\<close>): the skipping of white space and comments, and the
  scanning of every kind of token.
\<close>

section \<open>Progress\<close>

text \<open>
  The scanner only moves forward, and only its position changes. The loops below terminate
  because every iteration moves forward and none runs at the end of the text.
\<close>

definition ahead :: "scanner \<Rightarrow> scanner \<Rightarrow> bool" where
  "ahead s s' \<longleftrightarrow> sc_index s \<le> sc_index s' \<and> sc_length s' = sc_length s \<and> sc_source s' = sc_source s
     \<and> sc_isModule s' = sc_isModule s \<and> sc_await s' = sc_await s"

lemma ahead_refl [simp]: "ahead s s"
  by (simp add: ahead_def)

lemma ahead_trans: "ahead s s' \<Longrightarrow> ahead s' s'' \<Longrightarrow> ahead s s''"
  by (simp add: ahead_def)

lemma ahead_step [simp]: "ahead s (advance n s)" "ahead s (next_line s')  \<longleftrightarrow> ahead s s'"
  by (simp_all add: ahead_def)

lemma ahead_from_advance: "ahead (advance n s) s' \<Longrightarrow> ahead s s'"
  by (simp add: ahead_def)

lemma ahead_measure:
  "ahead (advance n s) s' \<Longrightarrow> \<not> eof s \<Longrightarrow> 0 < n \<Longrightarrow> sc_length s' - sc_index s' < sc_length s - sc_index s"
  by (auto simp: ahead_def eof_def)

section \<open>White space and comments\<close>

function skipSingleLineComment :: "scanner \<Rightarrow> scanner" where
  "skipSingleLineComment s =
     (if eof s then s
      else let ch = peekCharWithoutEOF s; s = advance 1 s in
        if isLineTerminator ch then
          next_line (if ch = 13 \<and> peekCharWithoutEOF s = 10 then advance 1 s else s)
        else skipSingleLineComment s)"
  by pat_completeness auto

termination
  by (relation "measure (\<lambda>s. sc_length s - sc_index s)") (auto simp: eof_def)

declare skipSingleLineComment.simps [simp del]

text \<open>\<^verbatim>\<open>skipSingleLine\<close>, used for the first line of a script, has the same body.\<close>

definition skipSingleLine :: "scanner \<Rightarrow> scanner" where
  "skipSingleLine s = skipSingleLineComment s"

function skipMultiLineComment :: "scanner \<Rightarrow> lex_error + scanner" where
  "skipMultiLineComment s =
     (if eof s then throwUnexpectedToken UnexpectedTokenIllegal s
      else let ch = peekCharWithoutEOF s; s = advance 1 s in
        if isLineTerminator ch then
          skipMultiLineComment
            (next_line (if ch = 0x0D \<and> peekCharWithoutEOF s = 0x0A then advance 1 s else s))
        else if ch = 0x2A \<and> peekCharWithoutEOF s = 0x2F then Inr (advance 1 s)
        else skipMultiLineComment s)"
  by pat_completeness auto

termination
  by (relation "measure (\<lambda>s. sc_length s - sc_index s)") (auto simp: eof_def)

declare skipMultiLineComment.simps [simp del]

lemma skipSingleLineComment_ahead: "ahead s (skipSingleLineComment s)"
proof (induction s rule: skipSingleLineComment.induct)
  case (1 s)
  show ?case
    using 1 [OF _ refl refl] by (subst skipSingleLineComment.simps) (auto simp: Let_def ahead_def)
qed

lemma skipMultiLineComment_ahead: "skipMultiLineComment s = Inr s' \<Longrightarrow> ahead s s'"
proof (induction s rule: skipMultiLineComment.induct)
  case (1 s)
  show ?case
    using 1(3) 1(1) [OF _ refl refl] 1(2) [OF _ refl refl]
    by (subst (asm) skipMultiLineComment.simps)
      (auto simp: Let_def ahead_def throwUnexpectedToken_def split: if_splits)
qed

text \<open>The loop of \<^verbatim>\<open>scanComments\<close>; \<open>start\<close> tells whether \<^verbatim>\<open>-->\<close> opens a comment.\<close>

function scan_comments_loop :: "bool \<Rightarrow> scanner \<Rightarrow> lex_error + scanner" where
  "scan_comments_loop start s =
     (if eof s then Inr s
      else let ch = sourceCharAt s (sc_index s) in
        if isWhiteSpace ch then scan_comments_loop start (advance 1 s)
        else if isLineTerminator ch then
          (let s = advance 1 s;
               s = (if ch = 0x0D \<and> sourceCharAt s (sc_index s) = 0x0A then advance 1 s else s)
           in scan_comments_loop True (next_line s))
        else if ch = 0x2F then
          (let ch = sourceCharAt s (sc_index s + 1) in
           if ch = 0x2F then scan_comments_loop True (skipSingleLineComment (advance 2 s))
           else if ch = 0x2A then
             (case skipMultiLineComment (advance 2 s) of
                Inl e \<Rightarrow> Inl e
              | Inr s' \<Rightarrow> scan_comments_loop start s')
           else Inr s)
        else if start \<and> ch = 0x2D then
          (if \<not> sc_isModule s \<and> sourceCharAt s (sc_index s + 1) = 0x2D
              \<and> sourceCharAt s (sc_index s + 2) = 0x3E
           then scan_comments_loop start (skipSingleLineComment (advance 3 s))
           else Inr s)
        else if ch = 0x3C then
          (if \<not> sc_isModule s \<and> sc_length s > sc_index s + 4 then
             if sourceCharAt s (sc_index s + 1) = code (CHR ''!'')
                \<and> sourceCharAt s (sc_index s + 2) = code (CHR ''-'')
                \<and> sourceCharAt s (sc_index s + 3) = code (CHR ''-'')
             then scan_comments_loop start (skipSingleLineComment (advance 4 s))
             else Inr s
           else Inr s)
        else Inr s)"
  by pat_completeness auto

termination
  by (relation "measure (\<lambda>(start, s). sc_length s - sc_index s)")
    (auto intro: ahead_measure [OF skipSingleLineComment_ahead] ahead_measure [OF skipMultiLineComment_ahead]
      simp: eof_def)

declare scan_comments_loop.simps [simp del]

definition scanComments :: "scanner \<Rightarrow> lex_error + scanner" where
  "scanComments s = scan_comments_loop (sc_index s = 0) s"

section \<open>Digits and escapes\<close>

definition isDecimalDigit :: "u16 \<Rightarrow> bool" where
  "isDecimalDigit ch \<longleftrightarrow> ch \<ge> code (CHR ''0'') \<and> ch \<le> code (CHR ''9'')"

definition isHexDigit :: "u16 \<Rightarrow> bool" where
  "isHexDigit ch \<longleftrightarrow> isDecimalDigit ch
     \<or> ch OR 0x20 \<ge> code (CHR ''a'') \<and> ch OR 0x20 \<le> code (CHR ''f'')"

definition isOctalDigit :: "u16 \<Rightarrow> bool" where
  "isOctalDigit ch \<longleftrightarrow> ch \<ge> code (CHR ''0'') \<and> ch \<le> code (CHR ''7'')"

definition octalValue :: "u16 \<Rightarrow> u16" where
  "octalValue ch = ch - code (CHR ''0'')"

definition toHexNumericValue :: "u16 \<Rightarrow> u8" where
  "toHexNumericValue ch =
     (if ch < code (CHR ''A'') then ucast (ch - code (CHR ''0''))
      else ucast ((ch - code (CHR ''A'') + 10) AND 0xF))"

definition hexValue :: "u16 \<Rightarrow> u32" where
  "hexValue ch =
     (if ch \<ge> code (CHR ''0'') \<and> ch \<le> code (CHR ''9'') then ucast (ch - code (CHR ''0''))
      else ucast ((ch OR 0x20) - (code (CHR ''a'') - 10)))"

definition EMPTY_CODE_POINT :: u32 where
  "EMPTY_CODE_POINT = - 1"

fun scan_hex_digits :: "nat \<Rightarrow> u32 \<Rightarrow> scanner \<Rightarrow> u32 \<times> scanner" where
  "scan_hex_digits 0 cp s = (cp, s)"
| "scan_hex_digits (Suc n) cp s =
     (if \<not> eof s \<and> isHexDigit (peekCharWithoutEOF s) then
        scan_hex_digits n (cp * 16 + hexValue (peekCharWithoutEOF s)) (advance 1 s)
      else (EMPTY_CODE_POINT, s))"

definition scanHexEscape :: "u16 \<Rightarrow> scanner \<Rightarrow> u32 \<times> scanner" where
  "scanHexEscape prefix s = scan_hex_digits (if prefix = code (CHR ''u'') then 4 else 2) 0 s"

text \<open>The loop of \<^verbatim>\<open>scanUnicodeCodePointEscape\<close>: the code, the last character read, the state.\<close>

function code_point_digits :: "u32 \<Rightarrow> u16 \<Rightarrow> scanner \<Rightarrow> u32 \<times> u16 \<times> scanner" where
  "code_point_digits cp ch s =
     (if eof s then (cp, ch, s)
      else let ch = peekCharWithoutEOF s; s = advance 1 s in
        if \<not> isHexDigit ch then (cp, ch, s)
        else code_point_digits (cp * 16 + hexValue ch) ch s)"
  by pat_completeness auto

termination
  by (relation "measure (\<lambda>(cp, ch, s). sc_length s - sc_index s)") (auto simp: eof_def)

declare code_point_digits.simps [simp del]

definition scanUnicodeCodePointEscape :: "scanner \<Rightarrow> lex_error + u32 \<times> scanner" where
  "scanUnicodeCodePointEscape s =
     (if eof s \<or> peekCharWithoutEOF s = code (CHR ''}'')
      then throwUnexpectedToken UnexpectedTokenIllegal s
      else case code_point_digits 0 0 s of (cp, ch, s') \<Rightarrow>
        if cp > 0x10FFFF \<or> ch \<noteq> code (CHR ''}'') then throwUnexpectedToken UnexpectedTokenIllegal s'
        else Inr (cp, s'))"

definition NON_OCTAL_VALUE :: u16 where
  "NON_OCTAL_VALUE = 256"

definition octalToDecimal :: "u16 \<Rightarrow> bool \<Rightarrow> scanner \<Rightarrow> u16 \<times> scanner" where
  "octalToDecimal ch octal s =
     (let cp = octalValue ch;
          octal = (octal \<or> ch \<noteq> code (CHR ''0''));
          (octal, cp, s) =
            (if \<not> eof s \<and> isOctalDigit (peekChar s) then
               let cp = cp * 8 + octalValue (peekChar s); s = advance 1 s in
               if (ch \<ge> code (CHR ''0'') \<and> ch \<le> code (CHR ''3'')) \<and> \<not> eof s \<and> isOctalDigit (peekChar s)
               then (True, cp * 8 + octalValue (peekChar s), advance 1 s)
               else (True, cp, s)
             else (octal, cp, s))
      in (if octal then cp else NON_OCTAL_VALUE, s))"

section \<open>Identifiers\<close>

text \<open>One escape in an identifier, after the backslash.\<close>

definition identifier_escape :: "(u32 \<Rightarrow> bool) \<Rightarrow> scanner \<Rightarrow> lex_error + u32 \<times> scanner" where
  "identifier_escape allowed s =
     (if peekChar s \<noteq> 0x75 then throwUnexpectedToken UnexpectedTokenIllegal s
      else let s = advance 1 s in
        if peekChar s = code (CHR ''{'') then scanUnicodeCodePointEscape (advance 1 s)
        else case scanHexEscape (code (CHR ''u'')) s of (ch, s) \<Rightarrow>
          if ch = EMPTY_CODE_POINT \<or> ch = 0x5C \<or> \<not> allowed (ucast (ucast ch :: u16))
          then throwUnexpectedToken UnexpectedTokenIllegal s
          else Inr (ch, s))"


lemma scan_hex_digits_ahead: "ahead s (snd (scan_hex_digits n cp s))"
  by (induction n cp s rule: scan_hex_digits.induct) (auto simp: ahead_def)

lemma scanHexEscape_ahead: "scanHexEscape prefix s = (cp, s') \<Longrightarrow> ahead s s'"
  by (metis scanHexEscape_def scan_hex_digits_ahead snd_conv)

lemma code_point_digits_ahead: "ahead s (snd (snd (code_point_digits cp ch s)))"
proof (induction cp ch s rule: code_point_digits.induct)
  case (1 cp ch s)
  show ?case
    using 1 [OF _ refl refl] by (subst code_point_digits.simps) (auto simp: Let_def ahead_def)
qed

lemma scanUnicodeCodePointEscape_ahead:
  "scanUnicodeCodePointEscape s = Inr (cp, s') \<Longrightarrow> ahead s s'"
  using code_point_digits_ahead [of s 0 0]
  by (auto simp: scanUnicodeCodePointEscape_def throwUnexpectedToken_def split: if_splits prod.splits)

lemma identifier_escape_ahead:
  assumes "identifier_escape allowed s = Inr (cp, s')"
  shows "ahead s s'"
proof (cases "peekChar (advance 1 s) = code (CHR ''{'')")
  case True
  then show ?thesis
    using assms scanUnicodeCodePointEscape_ahead [of "advance 1 (advance 1 s)" cp s']
    by (auto simp: identifier_escape_def Let_def throwUnexpectedToken_def ahead_def split: if_splits)
next
  case False
  then show ?thesis
    using assms scan_hex_digits_ahead [of "advance 1 s" 4 0]
    by (auto simp: identifier_escape_def Let_def throwUnexpectedToken_def scanHexEscape_def ahead_def
        split: if_splits prod.splits)
qed

lemma ParserCharPiece_nonempty [simp]: "ParserCharPiece a \<noteq> []"
  by (simp add: ParserCharPiece_def)

lemma piece_measure:
  "\<not> eof s \<Longrightarrow> sc_length s - (sc_index s + length (ParserCharPiece a)) < sc_length s - sc_index s"
  using ParserCharPiece_nonempty [of a] by (cases "ParserCharPiece a") (auto simp: eof_def)

text \<open>
  The loop of \<^verbatim>\<open>getComplexIdentifier\<close>. A backslash counts as an identifier character in the
  table; it is appended and erased again.
\<close>

function complex_identifier_loop :: "u16 list \<Rightarrow> scanner \<Rightarrow> lex_error + u16 list \<times> scanner" where
  "complex_identifier_loop ident s =
     (if eof s then Inr (ident, s)
      else let ch = codePointAt s (sc_index s) in
        if \<not> isIdentifierPart ch then Inr (ident, s)
        else let piece = ParserCharPiece ch; s' = advance (length piece) s in
          if ch = 0x5C then
            (case identifier_escape isIdentifierPart s' of
               Inl e \<Rightarrow> Inl e
             | Inr (ch, s'') \<Rightarrow>
                 if \<not> isIdentifierPart ch then Inr (ident, s'')
                 else complex_identifier_loop (ident @ ParserCharPiece ch) s'')
          else complex_identifier_loop (ident @ piece) s')"
  by pat_completeness auto

termination
  by (relation "measure (\<lambda>(ident, s). sc_length s - sc_index s)")
    (auto intro: ahead_measure [OF identifier_escape_ahead] piece_measure)

declare complex_identifier_loop.simps [simp del]

text \<open>
  The code point of the first character is kept in 16 bits. The result is the text, which is
  newly allocated.
\<close>

definition getComplexIdentifier :: "scanner \<Rightarrow> lex_error + u16 list \<times> scanner" where
  "getComplexIdentifier s =
     (let cp = (ucast (codePointAt s (sc_index s)) :: u16);
          ident = ParserCharPiece (ucast cp);
          s = advance (length ident) s;
          first = (if cp = 0x5C then
                     (case identifier_escape isIdentifierStart s of
                        Inl e \<Rightarrow> Inl e
                      | Inr (ch, s) \<Rightarrow> Inr ([ucast ch], s))
                   else Inr (ident, s))
      in case first of
           Inl e \<Rightarrow> Inl e
         | Inr (ident, s) \<Rightarrow>
             (case complex_identifier_loop ident s of
                Inl e \<Rightarrow> Inl e
              | Inr (ident, s) \<Rightarrow>
                  if sc_await s \<and> ident = lit ''await''
                  then throwUnexpectedToken KeywordMustNotContainEscapedCharacters s
                  else Inr (ident, s)))"

text \<open>\<open>None\<close>: the identifier has an escape or a surrogate and is scanned again.\<close>

function plain_identifier_loop :: "scanner \<Rightarrow> scanner option" where
  "plain_identifier_loop s =
     (if eof s then Some s
      else let ch = peekCharWithoutEOF s in
        if ch = 0x5C then None
        else if ch \<ge> 0xD800 \<and> ch < 0xDFFF then None
        else if isIdentifierPart (ucast ch) then plain_identifier_loop (advance 1 s)
        else Some s)"
  by pat_completeness auto

termination
  by (relation "measure (\<lambda>s. sc_length s - sc_index s)") (auto simp: eof_def)

declare plain_identifier_loop.simps [simp del]

text \<open>The result: the text, whether it was newly allocated, and the state.\<close>

definition getIdentifier :: "scanner \<Rightarrow> lex_error + u16 list \<times> bool \<times> scanner" where
  "getIdentifier s =
     (case plain_identifier_loop (advance 1 s) of
        None \<Rightarrow>
          (case getComplexIdentifier s of
             Inl e \<Rightarrow> Inl e
           | Inr (ident, s') \<Rightarrow> Inr (ident, True, s'))
      | Some s' \<Rightarrow> Inr (map (sc_source s) [sc_index s..<sc_index s'], False, s'))"

text \<open>The numeric order of the enumeration decides which keywords are reserved.\<close>

definition before_StrictModeReservedWord :: "KeywordKind \<Rightarrow> bool" where
  "before_StrictModeReservedWord k \<longleftrightarrow>
     k \<in> {NotKeyword, IfKeyword, InKeyword, DoKeyword, VarKeyword, ForKeyword, NewKeyword, TryKeyword,
       ThisKeyword, ElseKeyword, CaseKeyword, VoidKeyword, WithKeyword, EnumKeyword, WhileKeyword,
       BreakKeyword, CatchKeyword, ThrowKeyword, ConstKeyword, ClassKeyword, SuperKeyword,
       ReturnKeyword, TypeofKeyword, DeleteKeyword, SwitchKeyword, ExportKeyword, ImportKeyword,
       DefaultKeyword, FinallyKeyword, ExtendsKeyword, FunctionKeyword, ContinueKeyword,
       DebuggerKeyword, InstanceofKeyword}"

definition scanIdentifier :: "u16 \<Rightarrow> token \<Rightarrow> scanner \<Rightarrow> lex_error + token \<times> scanner" where
  "scanIdentifier ch0 t s =
     (let st = sc_index s;
          result = (if ch0 = 0x5C then
                      (case getComplexIdentifier s of
                         Inl e \<Rightarrow> Inl e
                       | Inr (ident, s') \<Rightarrow> Inr (ident, True, s'))
                    else getIdentifier s)
      in case result of
           Inl e \<Rightarrow> Inl e
         | Inr (data, allocated, s) \<Rightarrow>
             let k = (if length data > 1 then getKeyword data else NotKeyword);
                 t = (if length data > 1 then t\<lparr>tk_secondaryKeywordKind := k\<rparr> else t);
                 finish = (\<lambda>ty. if allocated
                   then setResult_allocated ty (Some data) s st (sc_index s) False t
                   else setResult_range ty st (sc_index s) s st (sc_index s) False t)
             in if length data > 1 \<and> (k = YieldKeyword \<or> k = LetKeyword
                    \<or> k \<notin> {NotKeyword, NullKeyword, TrueKeyword, FalseKeyword}
                      \<and> before_StrictModeReservedWord k)
                then Inr (setKeywordResult s st (sc_index s) k t, s)
                else Inr (finish (if k = NullKeyword then NullLiteralToken
                                  else if k = TrueKeyword \<or> k = FalseKeyword then BooleanLiteralToken
                                  else IdentifierToken), s))"


section \<open>Punctuators\<close>

text \<open>
  The cases of the switch in \<^verbatim>\<open>scanPunctuator\<close>, in three groups; the state is the one behind the
  first character, and \<open>None\<close> means that the character is not a case of the group.
\<close>

definition punctuator_brackets :: "u16 \<Rightarrow> scanner \<Rightarrow> (PunctuatorKind \<times> scanner) option" where
  "punctuator_brackets ch s =
     (if ch = code (CHR ''('') then Some (LeftParenthesis, s)
      else if ch = code (CHR ''{'') then Some (LeftBrace, s)
      else if ch = code (CHR ''.'') then
        (if peekChar s = code (CHR ''.'') \<and> sourceCharAt s (sc_index s + 1) = code (CHR ''.'')
         then Some (PeriodPeriodPeriod, advance 2 s)
         else Some (Period, s))
      else if ch = code (CHR ''}'') then Some (RightBrace, s)
      else if ch = code (CHR '')'') then Some (RightParenthesis, s)
      else if ch = code (CHR '';'') then Some (SemiColon, s)
      else if ch = code (CHR '','') then Some (Comma, s)
      else if ch = code (CHR ''['') then Some (LeftSquareBracket, s)
      else if ch = code (CHR '']'') then Some (RightSquareBracket, s)
      else if ch = code (CHR '':'') then Some (Colon, s)
      else if ch = code (CHR ''?'') then
        (if peekChar s = code (CHR ''?'') then
           let s = advance 1 s in
           if peekChar s = code (CHR ''='') then Some (LogicalNullishEqual, advance 1 s)
           else Some (NullishCoalescing, s)
         else if peekChar s = code (CHR ''.'') then Some (GuessDot, advance 1 s)
         else Some (GuessMark, s))
      else if ch = code (CHR ''~'') then Some (Wave, s)
      else None)"

definition punctuator_comparisons :: "u16 \<Rightarrow> scanner \<Rightarrow> (PunctuatorKind \<times> scanner) option" where
  "punctuator_comparisons ch s =
     (if ch = code (CHR ''>'') then
        (if peekChar s = code (CHR ''>'') then
           let s = advance 1 s in
           if peekChar s = code (CHR ''>'') then
             let s = advance 1 s in
             if peekChar s = code (CHR ''='') then Some (UnsignedRightShiftEqual, advance 1 s)
             else Some (UnsignedRightShift, s)
           else if peekChar s = code (CHR ''='') then Some (RightShiftEqual, advance 1 s)
           else Some (RightShift, s)
         else if peekChar s = code (CHR ''='') then Some (RightInequalityEqual, advance 1 s)
         else Some (RightInequality, s))
      else if ch = code (CHR ''<'') then
        (if peekChar s = code (CHR ''<'') then
           let s = advance 1 s in
           if peekChar s = code (CHR ''='') then Some (LeftShiftEqual, advance 1 s)
           else Some (LeftShift, s)
         else if peekChar s = code (CHR ''='') then Some (LeftInequalityEqual, advance 1 s)
         else Some (LeftInequality, s))
      else if ch = code (CHR ''='') then
        (if peekChar s = code (CHR ''='') then
           let s = advance 1 s in
           if peekChar s = code (CHR ''='') then Some (StrictEqual, advance 1 s)
           else Some (Equal, s)
         else if peekChar s = code (CHR ''>'') then Some (Arrow, advance 1 s)
         else Some (Substitution, s))
      else if ch = code (CHR ''!'') then
        (if peekChar s = code (CHR ''='') then
           let s = advance 1 s in
           if peekChar s = code (CHR ''='') then Some (NotStrictEqual, advance 1 s)
           else Some (NotEqual, s)
         else Some (ExclamationMark, s))
      else None)"

definition punctuator_operators :: "u16 \<Rightarrow> scanner \<Rightarrow> (PunctuatorKind \<times> scanner) option" where
  "punctuator_operators ch s =
     (if ch = code (CHR ''&'') then
        (if peekChar s = code (CHR ''&'') then
           let s = advance 1 s in
           if peekChar s = code (CHR ''='') then Some (LogicalAndEqual, advance 1 s)
           else Some (LogicalAnd, s)
         else if peekChar s = code (CHR ''='') then Some (BitwiseAndEqual, advance 1 s)
         else Some (BitwiseAnd, s))
      else if ch = code (CHR ''|'') then
        (if peekChar s = code (CHR ''|'') then
           let s = advance 1 s in
           if peekChar s = code (CHR ''='') then Some (LogicalOrEqual, advance 1 s)
           else Some (LogicalOr, s)
         else if peekChar s = code (CHR ''='') then Some (BitwiseOrEqual, advance 1 s)
         else Some (BitwiseOr, s))
      else if ch = code (CHR ''^'') then
        (if peekChar s = code (CHR ''='') then Some (BitwiseXorEqual, advance 1 s)
         else Some (BitwiseXor, s))
      else if ch = code (CHR ''+'') then
        (if peekChar s = code (CHR ''+'') then Some (PlusPlus, advance 1 s)
         else if peekChar s = code (CHR ''='') then Some (PlusEqual, advance 1 s)
         else Some (Plus, s))
      else if ch = code (CHR ''-'') then
        (if peekChar s = code (CHR ''-'') then Some (MinusMinus, advance 1 s)
         else if peekChar s = code (CHR ''='') then Some (MinusEqual, advance 1 s)
         else Some (Minus, s))
      else if ch = code (CHR ''*'') then
        (if peekChar s = code (CHR ''='') then Some (MultiplyEqual, advance 1 s)
         else if peekChar s = code (CHR ''*'') then
           let s = advance 1 s in
           if peekChar s = code (CHR ''='') then Some (ExponentiationEqual, advance 1 s)
           else Some (Exponentiation, s)
         else Some (Multiply, s))
      else if ch = code (CHR ''/'') then
        (if peekChar s = code (CHR ''='') then Some (DivideEqual, advance 1 s)
         else Some (Divide, s))
      else if ch = code (CHR ''%'') then
        (if peekChar s = code (CHR ''='') then Some (ModEqual, advance 1 s)
         else Some (Mod, s))
      else if ch = code (CHR ''#'') then
        (if sc_index s = 1 \<and> peekChar s = code (CHR ''!'') then Some (HashBang, advance 1 s)
         else Some (Hash, s))
      else None)"

definition punctuator_kind :: "u16 \<Rightarrow> scanner \<Rightarrow> (PunctuatorKind \<times> scanner) option" where
  "punctuator_kind ch s =
     (case punctuator_brackets ch s of
        Some r \<Rightarrow> Some r
      | None \<Rightarrow>
          (case punctuator_comparisons ch s of
             Some r \<Rightarrow> Some r
           | None \<Rightarrow> punctuator_operators ch s))"

definition scanPunctuator :: "u16 \<Rightarrow> token \<Rightarrow> scanner \<Rightarrow> lex_error + token \<times> scanner" where
  "scanPunctuator ch t s =
     (let st = sc_index s; s = advance 1 s in
      case punctuator_kind ch s of
        None \<Rightarrow> throwUnexpectedToken UnexpectedTokenIllegal s
      | Some (kind, s') \<Rightarrow> Inr (setPunctuatorResult s' st (sc_index s') kind t, s'))"

section \<open>Numeric literals\<close>

text \<open>
  The check of the separators; the loop stops one before the last character of the literal.
\<close>

definition testNumericSeparator ::
  "nat \<Rightarrow> bool \<Rightarrow> bool \<Rightarrow> bool \<Rightarrow> bool \<Rightarrow> scanner \<Rightarrow> lex_error + unit" where
  "testNumericSeparator st isBigInt isHex isBinary isOctal s =
     (let at = sourceCharAt s;
          bad = (\<lambda>i.
            if at i = code (CHR ''_'') \<and> at (i + 1) = code (CHR ''_'')
            then Some (throw_at st ''Only one underscore is allowed as numeric separator'' s)
            else if isHex \<and> (at i = code (CHR ''x'') \<or> at i = code (CHR ''X'')) \<and> at (i + 1) = code (CHR ''_'')
            then Some (throwUnexpectedToken UnexpectedTokenIllegal s)
            else if isBinary \<and> (at i = code (CHR ''b'') \<or> at i = code (CHR ''B'')) \<and> at (i + 1) = code (CHR ''_'')
            then Some (throwUnexpectedToken UnexpectedTokenIllegal s)
            else if isOctal \<and> (at i = code (CHR ''o'') \<or> at i = code (CHR ''O'')) \<and> at (i + 1) = code (CHR ''_'')
            then Some (throwUnexpectedToken UnexpectedTokenIllegal s)
            else None)
      in case List.find (\<lambda>i. bad i \<noteq> None) [st..<sc_index s - 1] of
           Some i \<Rightarrow> the (bad i)
         | None \<Rightarrow>
             if at (sc_index s - 1) = code (CHR ''_'') \<or> isBigInt \<and> at (sc_index s - 2) = code (CHR ''_'')
             then throw_at st ''Numeric separators are not allowed at the end of numeric literals'' s
             else Inr ())"

text \<open>The accumulator of \<^verbatim>\<open>scanHexLiteral\<close>: the integer, the double, the digits shifted in.\<close>

record hex_acc =
  hx_number :: u64
  hx_numberDouble :: "number_term option"
  hx_shiftCount :: nat
  hx_scanned :: bool
  hx_seenUnderscore :: bool

definition hex_digit_step :: "u16 \<Rightarrow> hex_acc \<Rightarrow> hex_acc" where
  "hex_digit_step ch a =
     (let d = toHexNumericValue ch;
          a = (case hx_numberDouble a of
                 Some x \<Rightarrow> a\<lparr>hx_numberDouble := Some (MulAdd16 x (unat d))\<rparr>
               | None \<Rightarrow>
                   let n = push_bit 4 (hx_number a) + ucast d; k = hx_shiftCount a + 1 in
                   if k \<ge> 16
                   then a\<lparr>hx_number := 0, hx_numberDouble := Some (OfUInt64 n), hx_shiftCount := k\<rparr>
                   else a\<lparr>hx_number := n, hx_shiftCount := k\<rparr>)
      in a\<lparr>hx_scanned := True\<rparr>)"

function scan_hex_loop :: "hex_acc \<Rightarrow> scanner \<Rightarrow> hex_acc \<times> scanner" where
  "scan_hex_loop a s =
     (if eof s then (a, s)
      else let ch = peekCharWithoutEOF s in
        if ch = code (CHR ''_'') then scan_hex_loop (a\<lparr>hx_seenUnderscore := True\<rparr>) (advance 1 s)
        else if \<not> isHexDigit ch then (a, s)
        else scan_hex_loop (hex_digit_step ch a) (advance 1 s))"
  by pat_completeness auto

termination
  by (relation "measure (\<lambda>(a, s). sc_length s - sc_index s)") (auto simp: eof_def)

declare scan_hex_loop.simps [simp del]

text \<open>
  What the three literals with a prefix have in common after their digits: the suffix of a
  BigInt, the character behind the literal, the separators. \<open>bad_next\<close> is the test of the
  character behind.
\<close>

definition finish_literal ::
  "(scanner \<Rightarrow> lex_error + unit) \<Rightarrow> bool \<Rightarrow> bool \<Rightarrow> scanner \<Rightarrow> lex_error + scanner" where
  "finish_literal separators bad_next seenUnderscore s =
     (if bad_next then throwUnexpectedToken UnexpectedTokenIllegal s
      else if seenUnderscore then
        (case separators s of Inl e \<Rightarrow> Inl e | Inr _ \<Rightarrow> Inr s)
      else Inr s)"

definition scanHexLiteral :: "nat \<Rightarrow> token \<Rightarrow> scanner \<Rightarrow> lex_error + token \<times> scanner" where
  "scanHexLiteral st t s =
     (case scan_hex_loop \<lparr>hx_number = 0, hx_numberDouble = None, hx_shiftCount = 0, hx_scanned = False,
         hx_seenUnderscore = False\<rparr> s of
        (a, s) \<Rightarrow>
          if \<not> hx_scanned a then throwUnexpectedToken UnexpectedTokenIllegal s
          else let isEof = eof s;
                   isBigInt = (\<not> isEof \<and> peekChar s = code (CHR ''n''));
                   s = (if isBigInt then advance 1 s else s)
            in case finish_literal (testNumericSeparator st isBigInt True False False)
                   (\<not> isEof \<and> isIdentifierStart (ucast (peekChar s))) (hx_seenUnderscore a) s of
                 Inl e \<Rightarrow> Inl e
               | Inr s \<Rightarrow>
                   Inr (setNumericLiteralResult
                     (case hx_numberDouble a of Some x \<Rightarrow> x | None \<Rightarrow> OfUInt64 (hx_number a))
                     s st (sc_index s) isBigInt (hx_seenUnderscore a) t, s))"

text \<open>The loops over binary and octal digits: the number, whether a digit and a separator was seen.\<close>

function scan_binary_loop :: "u64 \<Rightarrow> bool \<Rightarrow> bool \<Rightarrow> scanner \<Rightarrow> u64 \<times> bool \<times> bool \<times> scanner" where
  "scan_binary_loop number scanned seen s =
     (if eof s then (number, scanned, seen, s)
      else let ch = peekCharWithoutEOF s in
        if ch = code (CHR ''0'') \<or> ch = code (CHR ''1'') then
          scan_binary_loop (push_bit 1 number + ucast ch - of_char (CHR ''0'')) True seen (advance 1 s)
        else if ch = code (CHR ''_'') then scan_binary_loop number scanned True (advance 1 s)
        else (number, scanned, seen, s))"
  by pat_completeness auto

termination
  by (relation "measure (\<lambda>(n, a, b, s). sc_length s - sc_index s)") (auto simp: eof_def)

function scan_octal_loop :: "bool \<Rightarrow> u64 \<Rightarrow> bool \<Rightarrow> bool \<Rightarrow> scanner \<Rightarrow> u64 \<times> bool \<times> bool \<times> scanner" where
  "scan_octal_loop isLegacyOctal number scanned seen s =
     (if eof s then (number, scanned, seen, s)
      else let ch = peekCharWithoutEOF s in
        if \<not> isLegacyOctal \<and> ch = code (CHR ''_'') then
          scan_octal_loop isLegacyOctal number scanned True (advance 1 s)
        else if \<not> isOctalDigit ch then (number, scanned, seen, s)
        else scan_octal_loop isLegacyOctal (push_bit 3 number + ucast ch - of_char (CHR ''0'')) True seen
               (advance 1 s))"
  by pat_completeness auto

termination
  by (relation "measure (\<lambda>(l, n, a, b, s). sc_length s - sc_index s)") (auto simp: eof_def)

declare scan_binary_loop.simps [simp del] scan_octal_loop.simps [simp del]


definition scanBinaryLiteral :: "nat \<Rightarrow> token \<Rightarrow> scanner \<Rightarrow> lex_error + token \<times> scanner" where
  "scanBinaryLiteral st t s =
     (case scan_binary_loop 0 False False s of
        (number, scanned, seen, s) \<Rightarrow>
          if \<not> scanned then throwUnexpectedToken UnexpectedTokenIllegal s
          else let isEof = eof s;
                   isBigInt = (\<not> isEof \<and> peekChar s = code (CHR ''n''));
                   s = (if isBigInt then advance 1 s else s)
            in case finish_literal (testNumericSeparator st isBigInt False True False)
                   (\<not> isEof \<and> (isIdentifierStart (ucast (peekChar s)) \<or> isDecimalDigit (peekChar s))) seen s of
                 Inl e \<Rightarrow> Inl e
               | Inr s \<Rightarrow>
                   Inr (setNumericLiteralResult (OfUInt64 number) s st (sc_index s) isBigInt seen t, s))"

definition scanOctalLiteral ::
  "u16 \<Rightarrow> nat \<Rightarrow> bool \<Rightarrow> token \<Rightarrow> scanner \<Rightarrow> lex_error + token \<times> scanner" where
  "scanOctalLiteral prefix st isLegacyOctal t s =
     (case scan_octal_loop isLegacyOctal 0 False False s of
        (number, scanned, seen, s) \<Rightarrow>
          let octal = isOctalDigit prefix in
          if \<not> octal \<and> \<not> scanned then throwUnexpectedToken UnexpectedTokenIllegal s
          else let isEof = eof s;
                   isBigInt = (\<not> isEof \<and> \<not> isLegacyOctal \<and> peekChar s = code (CHR ''n''));
                   s = (if isBigInt then advance 1 s else s)
            in case finish_literal (testNumericSeparator st isBigInt False False True)
                   (isIdentifierStart (ucast (peekChar s)) \<or> isDecimalDigit (peekChar s)) seen s of
                 Inl e \<Rightarrow> Inl e
               | Inr s \<Rightarrow>
                   Inr ((setNumericLiteralResult (OfUInt64 number) s st (sc_index s) isBigInt seen t)
                          \<lparr>tk_octal := octal\<rparr>, s))"

function implicit_octal_from :: "nat \<Rightarrow> scanner \<Rightarrow> bool" where
  "implicit_octal_from i s =
     (if i < sc_length s then
        let ch = sourceCharAt s i in
        if ch = code (CHR ''8'') \<or> ch = code (CHR ''9'') then False
        else if \<not> isOctalDigit ch then True
        else implicit_octal_from (i + 1) s
      else True)"
  by pat_completeness auto

termination
  by (relation "measure (\<lambda>(i, s). sc_length s - i)") auto

declare implicit_octal_from.simps [simp del]

definition isImplicitOctalLiteral :: "scanner \<Rightarrow> bool" where
  "isImplicitOctalLiteral s = implicit_octal_from (sc_index s + 1) s"

text \<open>The loop over decimal digits and separators; it ends at the end, where \<^verbatim>\<open>peekChar\<close> is NUL.\<close>

function skip_decimal :: "bool \<Rightarrow> scanner \<Rightarrow> bool \<times> scanner" where
  "skip_decimal seen s =
     (if \<not> eof s \<and> peekChar s = code (CHR ''_'') then skip_decimal True (advance 1 s)
      else if \<not> eof s \<and> isDecimalDigit (peekChar s) then skip_decimal seen (advance 1 s)
      else (seen, s))"
  by pat_completeness auto

termination
  by (relation "measure (\<lambda>(seen, s). sc_length s - sc_index s)") (auto simp: eof_def)

declare skip_decimal.simps [simp del]

text \<open>The separators of a decimal literal.\<close>

definition decimal_separators :: "nat \<Rightarrow> bool \<Rightarrow> scanner \<Rightarrow> lex_error + unit" where
  "decimal_separators st isBigInt s =
     (let at = sourceCharAt s;
          bad = (\<lambda>i.
            if at i = code (CHR ''_'') \<and> at (i + 1) = code (CHR ''_'')
            then Some (throw_at st ''Only one underscore is allowed as numeric separator'' s)
            else if at i = code (CHR ''_'') \<and> (at (i + 1) = code (CHR ''e'') \<or> at (i + 1) = code (CHR ''E''))
            then Some (throw_at st ''Numeric separator may not appear adjacent to ExponentPart'' s)
            else if at i = code (CHR ''.'') \<and> at (i + 1) = code (CHR ''_'')
            then Some (throwUnexpectedToken UnexpectedTokenIllegal s)
            else None)
      in if at st = code (CHR ''0'')
         then throw_at st ''Numeric separator can not be used after leading 0'' s
         else case List.find (\<lambda>i. bad i \<noteq> None) [st..<sc_index s - 1] of
           Some i \<Rightarrow> the (bad i)
         | None \<Rightarrow>
             if at (sc_index s - 1) = code (CHR ''_'') \<or> isBigInt \<and> at (sc_index s - 2) = code (CHR ''_'')
             then throw_at st ''Numeric separators are not allowed at the end of numeric literals'' s
             else Inr ())"

text \<open>The fraction and the exponent: whether one was seen, whether a separator, the state.\<close>

definition scan_fraction :: "bool \<Rightarrow> scanner \<Rightarrow> bool \<times> bool \<times> scanner" where
  "scan_fraction seen s =
     (if peekChar s = code (CHR ''.'') then
        (case skip_decimal seen (advance 1 s) of (seen, s) \<Rightarrow> (True, seen, s))
      else (False, seen, s))"

definition scan_exponent :: "bool \<Rightarrow> bool \<Rightarrow> scanner \<Rightarrow> lex_error + bool \<times> bool \<times> scanner" where
  "scan_exponent seenDot seen s =
     (if peekChar s = code (CHR ''e'') \<or> peekChar s = code (CHR ''E'') then
        let s = advance 1 s;
            s = (if peekChar s = code (CHR ''+'') \<or> peekChar s = code (CHR ''-'') then advance 1 s else s)
        in if isDecimalDigit (peekChar s) then
             (case skip_decimal seen (advance 1 s) of (seen, s) \<Rightarrow> Inr (True, seen, s))
           else throwUnexpectedToken UnexpectedTokenIllegal s
      else Inr (seenDot, seen, s))"

text \<open>The part of \<^verbatim>\<open>scanNumericLiteral\<close> behind the integer digits.\<close>

definition scan_decimal_rest ::
  "nat \<Rightarrow> u16 \<Rightarrow> bool \<Rightarrow> token \<Rightarrow> scanner \<Rightarrow> lex_error + token \<times> scanner" where
  "scan_decimal_rest st startChar seen t s =
     (case scan_fraction seen s of (seenDot, seen, s) \<Rightarrow>
      case scan_exponent seenDot seen s of
        Inl e \<Rightarrow> Inl e
      | Inr (seenDotOrE, seen, s) \<Rightarrow>
          let isEof = eof s; isBigInt = (\<not> isEof \<and> peekChar s = code (CHR ''n'')) in
          if isBigInt \<and> (seenDotOrE \<or> startChar = code (CHR ''0'') \<and> sc_index s - st > 1)
          then throwUnexpectedToken UnexpectedTokenIllegal s
          else let s = (if isBigInt then advance 1 s else s) in
            case finish_literal (decimal_separators st isBigInt)
                (\<not> isEof \<and> isIdentifierStart (ucast (peekChar s))) seen s of
              Inl e \<Rightarrow> Inl e
            | Inr s \<Rightarrow>
                let t = setNumericLiteralResult (OfUInt64 0) s st (sc_index s) True seen t in
                Inr (if startChar = code (CHR ''0'') \<and> \<not> seenDotOrE
                        \<and> sc_index s - st > (if isBigInt then 2 else 1)
                     then t\<lparr>tk_startWithZero := True\<rparr> else t, s))"

definition scanNumericLiteral :: "token \<Rightarrow> scanner \<Rightarrow> lex_error + token \<times> scanner" where
  "scanNumericLiteral t s =
     (let st = sc_index s; startChar = peekChar s in
      if startChar \<noteq> code (CHR ''.'') then
        let s = advance 1 s; ch = peekChar s in
        if startChar = code (CHR ''0'') \<and> (ch = code (CHR ''x'') \<or> ch = code (CHR ''X''))
        then scanHexLiteral st t (advance 1 s)
        else if startChar = code (CHR ''0'') \<and> (ch = code (CHR ''b'') \<or> ch = code (CHR ''B''))
        then scanBinaryLiteral st t (advance 1 s)
        else if startChar = code (CHR ''0'') \<and> (ch = code (CHR ''o'') \<or> ch = code (CHR ''O''))
        then scanOctalLiteral ch st False t (advance 1 s)
        else if startChar = code (CHR ''0'') \<and> ch \<noteq> 0 \<and> isOctalDigit ch \<and> isImplicitOctalLiteral s
        then scanOctalLiteral ch st True t s
        else case skip_decimal False s of (seen, s) \<Rightarrow> scan_decimal_rest st startChar seen t s
      else scan_decimal_rest st startChar False t s)"

section \<open>String literals\<close>

text \<open>One escape, after the backslash and the character \<open>ch\<close>: whether it was octal.\<close>

definition skip_string_escape :: "u16 \<Rightarrow> scanner \<Rightarrow> lex_error + bool \<times> scanner" where
  "skip_string_escape ch s =
     (if ch = code (CHR ''u'') then
        if peekChar s = code (CHR ''{'') then
          (case scanUnicodeCodePointEscape (advance 1 s) of
             Inl e \<Rightarrow> Inl e
           | Inr (_, s) \<Rightarrow> Inr (False, s))
        else
          (case scanHexEscape ch s of (cp, s) \<Rightarrow>
             if cp = EMPTY_CODE_POINT then throwUnexpectedToken InvalidHexEscapeSequence s
             else Inr (False, s))
      else if ch = code (CHR ''x'') then
        (case scanHexEscape ch s of (cp, s) \<Rightarrow>
           if cp = EMPTY_CODE_POINT then throwUnexpectedToken InvalidHexEscapeSequence s
           else Inr (False, s))
      else if ch \<in> {code (CHR ''n''), code (CHR ''r''), code (CHR ''t''), code (CHR ''b''),
                    code (CHR ''f''), code (CHR ''v'')} then Inr (False, s)
      else if ch \<noteq> 0 \<and> isOctalDigit ch then
        (case octalToDecimal ch False s of (v, s) \<Rightarrow> Inr (v \<noteq> NON_OCTAL_VALUE, s))
      else if isDecimalDigit ch then Inr (True, s)
      else Inr (False, s))"

text \<open>An escaped line terminator, and the second half of a pair of them.\<close>

definition line_continuation :: "u16 \<Rightarrow> scanner \<Rightarrow> scanner" where
  "line_continuation ch s =
     next_line (if ch = 13 \<and> peekChar s = 10 then advance 1 s
                else if ch = 10 \<and> peekChar s = 13 then advance 1 s else s)"

lemma octalToDecimal_ahead: "octalToDecimal ch oct s = (v, s') \<Longrightarrow> ahead s s'"
  by (auto simp: octalToDecimal_def Let_def ahead_def split: if_splits)

lemma skip_string_escape_ahead:
  assumes "skip_string_escape ch s = Inr (oct, s')"
  shows "ahead s s'"
  using assms
  by (auto simp: skip_string_escape_def throwUnexpectedToken_def split: if_splits sum.splits prod.splits
      intro: scanHexEscape_ahead octalToDecimal_ahead ahead_from_advance [OF scanUnicodeCodePointEscape_ahead])

lemma line_continuation_ahead: "ahead s (line_continuation ch s)"
  by (simp add: line_continuation_def)

lemma advance_advance: "advance m (advance n s) = advance (n + m) s"
  by (simp add: advance_def)

text \<open>
  The first pass over the literal: whether it was closed, whether it has an octal escape,
  whether it has no escape at all.
\<close>

function string_literal_loop ::
  "u16 \<Rightarrow> bool \<Rightarrow> bool \<Rightarrow> scanner \<Rightarrow> lex_error + bool \<times> bool \<times> bool \<times> scanner" where
  "string_literal_loop quote octal isPlainCase s =
     (if eof s then Inr (False, octal, isPlainCase, s)
      else let ch = peekCharWithoutEOF s; s = advance 1 s in
        if ch = quote then Inr (True, octal, isPlainCase, s)
        else if ch = 0x5C then
          (let ch = peekChar s; s = advance 1 s in
           if ch = 0 \<or> \<not> isLineTerminator ch then
             (case skip_string_escape ch s of
                Inl e \<Rightarrow> Inl e
              | Inr (oct, s') \<Rightarrow> string_literal_loop quote (octal \<or> oct) False s')
           else string_literal_loop quote octal False (line_continuation ch s))
        else if ch < 128 \<and> g_asciiRangeCharMap ! unat ch AND LexerIsCharLineTerminator \<noteq> 0
        then Inr (False, octal, isPlainCase, s)
        else string_literal_loop quote octal isPlainCase s)"
  by pat_completeness auto

termination
  by (relation "measure (\<lambda>(q, b, c, s). sc_length s - sc_index s)")
    (auto simp: advance_advance eof_def intro: ahead_measure [OF skip_string_escape_ahead]
      ahead_measure [OF line_continuation_ahead])

declare string_literal_loop.simps [simp del]

definition scanStringLiteral :: "token \<Rightarrow> scanner \<Rightarrow> lex_error + token \<times> scanner" where
  "scanStringLiteral t s =
     (let st = sc_index s; quote = peekChar s in
      case string_literal_loop quote False True (advance 1 s) of
        Inl e \<Rightarrow> Inl e
      | Inr (closed, octal, isPlainCase, s) \<Rightarrow>
          if \<not> closed then throwUnexpectedToken UnexpectedTokenIllegal (s\<lparr>sc_index := st\<rparr>)
          else if isPlainCase then
            Inr (setResult_range StringLiteralToken (st + 1) (sc_index s - 1) s st (sc_index s) octal t, s)
          else Inr (setResult_allocated StringLiteralToken None s st (sc_index s) octal t, s))"


text \<open>
  The second pass, which builds the value of a literal with escapes when it is asked for.
  The source has no test for the end of the text; \<open>None\<close> means that the loop does not return.
\<close>

definition append_string_escape :: "u16 \<Rightarrow> scanner \<Rightarrow> lex_error + u16 list \<times> scanner" where
  "append_string_escape ch s =
     (if ch = code (CHR ''u'') \<or> ch = code (CHR ''x'') then
        if peekChar s = code (CHR ''{'') then
          (case scanUnicodeCodePointEscape (advance 1 s) of
             Inl e \<Rightarrow> Inl e
           | Inr (param, s) \<Rightarrow> Inr (ParserCharPiece param, s))
        else (case scanHexEscape ch s of (param, s) \<Rightarrow> Inr (ParserCharPiece param, s))
      else if ch = code (CHR ''n'') then Inr ([10], s)
      else if ch = code (CHR ''r'') then Inr ([13], s)
      else if ch = code (CHR ''t'') then Inr ([9], s)
      else if ch = code (CHR ''b'') then Inr ([8], s)
      else if ch = code (CHR ''f'') then Inr ([12], s)
      else if ch = code (CHR ''v'') then Inr ([0x0B], s)
      else if ch \<noteq> 0 \<and> isOctalDigit ch then
        (case octalToDecimal ch True s of (v, s) \<Rightarrow> Inr ([v], s))
      else Inr ([ch], s))"

text \<open>One iteration: \<open>Inl\<close> leaves the loop, \<open>Inr\<close> goes on with the string and the state.\<close>

definition construct_string_step ::
  "u16 \<Rightarrow> u16 list \<Rightarrow> scanner \<Rightarrow> (lex_error + u16 list \<times> scanner) + u16 list \<times> scanner" where
  "construct_string_step quote str s =
     (let ch = peekChar s; s = advance 1 s in
      if ch = quote then Inl (Inr (str, s))
      else if ch = 0x5C then
        (let ch = peekChar s; s = advance 1 s in
         if ch = 0 \<or> \<not> isLineTerminator ch then
           (case append_string_escape ch s of
              Inl e \<Rightarrow> Inl (Inl e)
            | Inr (piece, s) \<Rightarrow> Inr (str @ piece, s))
         else Inr (str,
                let bufferedChar = peekChar s in
                 next_line (if ch = 13 \<and> bufferedChar = 10 \<or> ch = 10 \<and> bufferedChar = 13
                            then advance 1 s else s)))
      else if isLineTerminator ch then Inl (Inr (str, s))
      else Inr (str @ [ch], s))"

partial_function (option) construct_string_loop ::
  "u16 \<Rightarrow> u16 list \<Rightarrow> scanner \<Rightarrow> (lex_error + u16 list \<times> scanner) option" where
  "construct_string_loop quote str s =
     (case construct_string_step quote str s of
        Inl r \<Rightarrow> Some r
      | Inr (str, s) \<Rightarrow> construct_string_loop quote str s)"

declare construct_string_loop.simps [code]

text \<open>The position of the scanner is saved and restored, so that only the string remains.\<close>

definition constructStringLiteral :: "token \<Rightarrow> scanner \<Rightarrow> (lex_error + token) option" where
  "constructStringLiteral t s =
     (let s = s\<lparr>sc_index := tk_start t\<rparr>; quote = peekChar s in
      case construct_string_loop quote [] (advance 1 s) of
        None \<Rightarrow> None
      | Some (Inl e) \<Rightarrow> Some (Inl e)
      | Some (Inr (str, _)) \<Rightarrow> Some (Inr (t\<lparr>tk_value := AllocatedString (Some str)\<rparr>)))"

section \<open>Templates\<close>

text \<open>
  One escape, after the backslash and the character \<open>ch\<close>: the cooked text. The code point of
  the braced form is appended as one 16-bit unit. An error carries the state it was thrown in.
\<close>

definition template_escape :: "u16 \<Rightarrow> scanner \<Rightarrow> lex_error + u16 list \<times> scanner" where
  "template_escape ch s =
     (if ch = code (CHR ''n'') then Inr ([10], s)
      else if ch = code (CHR ''r'') then Inr ([13], s)
      else if ch = code (CHR ''t'') then Inr ([9], s)
      else if ch = code (CHR ''u'') then
        if peekChar s = code (CHR ''{'') then
          (case scanUnicodeCodePointEscape (advance 1 s) of
             Inl e \<Rightarrow> Inl e
           | Inr (cp, s) \<Rightarrow> Inr ([ucast cp], s))
        else
          (case scanHexEscape ch s of (unescaped, s) \<Rightarrow>
             if unescaped \<noteq> EMPTY_CODE_POINT then Inr (ParserCharPiece unescaped, s)
             else throwUnexpectedToken InvalidHexEscapeSequence s)
      else if ch = code (CHR ''x'') then
        (case scanHexEscape ch s of (unescaped, s) \<Rightarrow>
           if unescaped = EMPTY_CODE_POINT then throwUnexpectedToken InvalidHexEscapeSequence s
           else Inr (ParserCharPiece unescaped, s))
      else if ch = code (CHR ''b'') then Inr ([8], s)
      else if ch = code (CHR ''f'') then Inr ([12], s)
      else if ch = code (CHR ''v'') then Inr ([11], s)
      else if ch = code (CHR ''0'') then
        (if isDecimalDigit (peekChar s) then throwUnexpectedToken TemplateOctalLiteral s
         else Inr ([0], s))
      else if isOctalDigit ch then throwUnexpectedToken TemplateOctalLiteral s
      else Inr ([ch], s))"

lemma template_escape_ahead: "template_escape ch s = Inr (u, s') \<Longrightarrow> ahead s s'"
  by (auto simp: template_escape_def throwUnexpectedToken_def split: if_splits sum.splits prod.splits
      intro: scanHexEscape_ahead ahead_from_advance [OF scanUnicodeCodePointEscape_ahead])

text \<open>
  The accumulated text of a template: the cooked and the raw units, whether the template was
  terminated and whether by the closing back quote.
\<close>

record template_acc =
  tp_cooked :: "u16 list"
  tp_raw :: "u16 list"
  tp_terminated :: bool
  tp_tail :: bool

definition tp_append :: "u16 list \<Rightarrow> u16 list \<Rightarrow> template_acc \<Rightarrow> template_acc" where
  "tp_append c r a = a\<lparr>tp_cooked := tp_cooked a @ c, tp_raw := tp_raw a @ r\<rparr>"

text \<open>A line terminator \<open>ch\<close> that was just read: the unit recorded for it and the state behind it.\<close>

definition template_line :: "u16 \<Rightarrow> scanner \<Rightarrow> u16 \<times> scanner" where
  "template_line ch s =
     (if ch = 0x2028 \<or> ch = 0x2029 then ch else 10,
      next_line (if ch = 13 \<and> peekChar s = 10 then advance 1 s else s))"

lemma template_line_ahead: "ahead s (snd (template_line ch s))"
  by (simp add: template_line_def)

lemma template_line_measure:
  "(u, s') = template_line ch (advance n s) \<Longrightarrow> \<not> eof s \<Longrightarrow> 0 < n
     \<Longrightarrow> sc_length s' - sc_index s' < sc_length s - sc_index s"
  using template_line_ahead [of "advance n s" ch] by (metis ahead_measure snd_conv)

text \<open>
  The body of the try block. An error is returned with the position to resume at
  (\<^verbatim>\<open>indexForError\<close>), the accumulated text and the state.
\<close>

function template_loop ::
  "nat \<Rightarrow> template_acc \<Rightarrow> scanner \<Rightarrow>
     (lex_error \<times> nat \<times> template_acc \<times> scanner) + template_acc \<times> scanner" where
  "template_loop indexForError a s =
     (if eof s then
        (case throwUnexpectedToken UnexpectedTokenIllegal s of
           Inl e \<Rightarrow> Inl (e, indexForError, a, s)
         | Inr r \<Rightarrow> Inr r)
      else let ch = peekCharWithoutEOF s; s = advance 1 s in
        if ch = code (CHR ''`'') then Inr (a\<lparr>tp_tail := True, tp_terminated := True\<rparr>, s)
        else if ch = code (CHR ''$'') then
          (if peekChar s = code (CHR ''{'') then Inr (a\<lparr>tp_terminated := True\<rparr>, advance 1 s)
           else template_loop (sc_index s) (tp_append [ch] [ch] a) s)
        else if ch = 0x5C then
          (let a = tp_append [] [ch] a; ch = peekChar s in
           if \<not> isLineTerminator ch then
             (case template_escape ch (advance 1 s) of
                Inl e \<Rightarrow> Inl (e, sc_index s, a, s)
              | Inr (cooked, s') \<Rightarrow>
                  template_loop (sc_index s)
                    (tp_append cooked (map (sourceCharAt s) [sc_index s..<sc_index s']) a) s')
           else
             (case template_line ch (advance 1 s) of
                (u, s') \<Rightarrow> template_loop (sc_index s') (tp_append [] [u] a) s'))
        else if isLineTerminator ch then
          (case template_line ch s of
             (u, s') \<Rightarrow> template_loop (sc_index s') (tp_append [u] [u] a) s')
        else template_loop (sc_index s) (tp_append [ch] [ch] a) s)"
  by pat_completeness auto

termination
  by (relation "measure (\<lambda>(i, a, s). sc_length s - sc_index s)")
    (auto simp: advance_advance eof_def intro: ahead_measure [OF template_escape_ahead]
      template_line_measure)

declare template_loop.simps [simp del]

text \<open>The loop of the catch block, which does not look at backslashes.\<close>

function template_recover :: "template_acc \<Rightarrow> scanner \<Rightarrow> template_acc \<times> scanner" where
  "template_recover a s =
     (if eof s then (a, s)
      else let ch = peekCharWithoutEOF s; s = advance 1 s in
        if ch = code (CHR ''`'') then (a\<lparr>tp_tail := True, tp_terminated := True\<rparr>, s)
        else if ch = code (CHR ''$'') then
          (if peekChar s = code (CHR ''{'') then (a\<lparr>tp_terminated := True\<rparr>, advance 1 s)
           else template_recover (tp_append [ch] [ch] a) s)
        else if isLineTerminator ch then
          (case template_line ch s of (u, s') \<Rightarrow> template_recover (tp_append [] [u] a) s')
        else template_recover (tp_append [] [ch] a) s)"
  by pat_completeness auto

termination
  by (relation "measure (\<lambda>(a, s). sc_length s - sc_index s)")
    (auto simp: eof_def intro: template_line_measure)

declare template_recover.simps [simp del]

definition scanTemplate :: "bool \<Rightarrow> token \<Rightarrow> scanner \<Rightarrow> token \<times> scanner" where
  "scanTemplate head t s =
     (let st = sc_index s;
          (err, a, s) =
            (case template_loop st \<lparr>tp_cooked = [], tp_raw = [], tp_terminated = False, tp_tail = False\<rparr> s of
               Inr (a, s) \<Rightarrow> (None, a, s)
             | Inl (e, resume, a, s) \<Rightarrow>
                 (case template_recover a (s\<lparr>sc_index := resume\<rparr>) of (a, s) \<Rightarrow> (Some e, a, s)));
          cooked = (if err = None then Some (tp_cooked a) else None);
          value = TemplateValue cooked (tp_raw a) head (tp_tail a) err
      in (setTemplateTokenResult value s (if head then st - 1 else st) (sc_index s) t, s))"

section \<open>Regular expressions\<close>

function regexp_body_loop :: "bool \<Rightarrow> u16 list \<Rightarrow> scanner \<Rightarrow> lex_error + u16 list \<times> scanner" where
  "regexp_body_loop classMarker str s =
     (if eof s then throwUnexpectedToken UnterminatedRegExp s
      else let ch = peekCharWithoutEOF s; s = advance 1 s; str = str @ [ch] in
        if ch = 0x5C then
          (let ch = peekChar s; s = advance 1 s in
           if isLineTerminator ch then throwUnexpectedToken UnterminatedRegExp s
           else regexp_body_loop classMarker (str @ [ch]) s)
        else if isLineTerminator ch then throwUnexpectedToken UnterminatedRegExp s
        else if classMarker then regexp_body_loop (ch \<noteq> code (CHR '']'')) str s
        else if ch = code (CHR ''/'') then Inr (str, s)
        else regexp_body_loop (ch = code (CHR ''['')) str s)"
  by pat_completeness auto

termination
  by (relation "measure (\<lambda>(c, str, s). sc_length s - sc_index s)") (auto simp: eof_def)

declare regexp_body_loop.simps [simp del]

text \<open>The slashes are collected and cut off again.\<close>

definition scanRegExpBody :: "scanner \<Rightarrow> lex_error + u16 list \<times> scanner" where
  "scanRegExpBody s =
     (let ch0 = peekChar s in
      case regexp_body_loop False [ch0] (advance 1 s) of
        Inl e \<Rightarrow> Inl e
      | Inr (str, s) \<Rightarrow> Inr (take (length str - 2) (drop 1 str), s))"

text \<open>An escape in the flags is an error, whatever it stands for.\<close>

function regexp_flags_loop :: "u16 list \<Rightarrow> scanner \<Rightarrow> lex_error + u16 list \<times> scanner" where
  "regexp_flags_loop flags s =
     (if eof s then Inr (flags, s)
      else let ch = peekCharWithoutEOF s in
        if \<not> isIdentifierPart (ucast ch) then Inr (flags, s)
        else let s = advance 1 s in
          if ch = 0x5C \<and> \<not> eof s then
            (if peekChar s = code (CHR ''u'') then
               let s = advance 1 s in
               case scanHexEscape (code (CHR ''u'')) s of (cp, s') \<Rightarrow>
                 throwUnexpectedToken UnexpectedTokenIllegal (if cp \<noteq> EMPTY_CODE_POINT then s' else s)
             else throwUnexpectedToken UnexpectedTokenIllegal s)
          else regexp_flags_loop (flags @ [ch]) s)"
  by pat_completeness auto

termination
  by (relation "measure (\<lambda>(f, s). sc_length s - sc_index s)") (auto simp: eof_def)

declare regexp_flags_loop.simps [simp del]

definition scanRegExp :: "token \<Rightarrow> scanner \<Rightarrow> lex_error + token \<times> scanner" where
  "scanRegExp t s =
     (let st = sc_index s in
      case scanRegExpBody s of
        Inl e \<Rightarrow> Inl e
      | Inr (body, s) \<Rightarrow>
          (case regexp_flags_loop [] s of
             Inl e \<Rightarrow> Inl e
           | Inr (flags, s) \<Rightarrow>
               Inr ((setResult RegularExpressionToken s st (sc_index s) t)\<lparr>tk_value := RegExpValue body flags\<rparr>,
                    s)))"

section \<open>The next token\<close>

text \<open>
  A surrogate pair is combined, but into a 16-bit variable and after the position has moved
  behind its first half.
\<close>

definition lex :: "token \<Rightarrow> scanner \<Rightarrow> lex_error + token \<times> scanner" where
  "lex t s =
     (let t = resetResult t in
      if eof s then Inr (setResult EOFToken s (sc_index s) (sc_index s) t, s)
      else
        let cp = peekCharWithoutEOF s;
            surrogate =
              (if cp \<ge> 0xD800 \<and> cp < 0xDFFF then
                 let s = advance 1 s; ch2 = (ucast (peekChar s) :: u32) in
                 if U16_IS_TRAIL ch2 then Inr (ucast (U16_GET_SUPPLEMENTARY (ucast cp) ch2), s)
                 else throwUnexpectedToken UnexpectedTokenIllegal s
               else Inr (cp, s))
        in case surrogate of
             Inl e \<Rightarrow> Inl e
           | Inr (cp, s) \<Rightarrow>
               if isIdentifierStart (ucast cp) then scanIdentifier cp t s
               else if cp = 0x27 \<or> cp = 0x22 then scanStringLiteral t s
               else if cp = 0x2E \<and> isDecimalDigit (sourceCharAt s (sc_index s + 1)) then scanNumericLiteral t s
               else if isDecimalDigit cp then scanNumericLiteral t s
               else if cp = code (CHR ''`'') then Inr (scanTemplate True t (advance 1 s))
               else if cp \<ge> 0xD800 \<and> cp < 0xDFFF \<and> isIdentifierStart (codePointAt s (sc_index s))
               then scanIdentifier cp t s
               else scanPunctuator cp t s)"

end
