(* ===== verification/Lexer_Progress.thy ===== *)
theory Lexer_Progress
  imports Lexer_Scanner
begin

text \<open>
  What the scanner does with punctuators and with its position: punctuators are taken by
  longest match, and every token consumes text.
\<close>

section \<open>Punctuators are scanned by longest match\<close>

text \<open>The spellings of the punctuators, longer ones first; \<^verbatim>\<open>#\<close> and \<^verbatim>\<open>#!\<close> depend on the position.\<close>

definition punctuator_spellings :: "(string \<times> PunctuatorKind) list" where
  "punctuator_spellings =
    [(''>>>='', UnsignedRightShiftEqual),
     (''...'', PeriodPeriodPeriod), (''??='', LogicalNullishEqual), (''>>>'', UnsignedRightShift),
     (''>>='', RightShiftEqual), (''<<='', LeftShiftEqual), (''==='', StrictEqual), (''!=='', NotStrictEqual),
     (''&&='', LogicalAndEqual), (''||='', LogicalOrEqual), (''**='', ExponentiationEqual),
     (''??'', NullishCoalescing), (''?.'', GuessDot), (''>>'', RightShift), (''>='', RightInequalityEqual),
     (''<<'', LeftShift), (''<='', LeftInequalityEqual), (''=='', Equal), (''=>'', Arrow),
     (''!='', NotEqual), (''&&'', LogicalAnd), (''&='', BitwiseAndEqual), (''||'', LogicalOr),
     (''|='', BitwiseOrEqual), (''^='', BitwiseXorEqual), (''++'', PlusPlus), (''+='', PlusEqual),
     (''--'', MinusMinus), (''-='', MinusEqual), (''*='', MultiplyEqual), (''**'', Exponentiation),
     (''/='', DivideEqual), (''%='', ModEqual),
     (''('', LeftParenthesis), (''{'', LeftBrace), (''.'', Period), (''}'', RightBrace),
     ('')'', RightParenthesis), ('';'', SemiColon), ('','', Comma), (''['', LeftSquareBracket),
     ('']'', RightSquareBracket), ('':'', Colon), (''?'', GuessMark), (''~'', Wave),
     (''>'', RightInequality), (''<'', LeftInequality), (''='', Substitution), (''!'', ExclamationMark),
     (''&'', BitwiseAnd), (''|'', BitwiseOr), (''^'', BitwiseXor), (''+'', Plus), (''-'', Minus),
     (''*'', Multiply), (''/'', Divide), (''%'', Mod)]"

text \<open>
  The text from the current position on, and the longest punctuator that begins it. The grammar
  takes \<^verbatim>\<open>?.\<close> for a punctuator only when no digit follows.
\<close>

definition rest_text :: "scanner \<Rightarrow> u16 list" where
  "rest_text s = map (sc_source s) [sc_index s..<sc_length s]"

definition digit_at :: "nat \<Rightarrow> u16 list \<Rightarrow> bool" where
  "digit_at i text \<longleftrightarrow> i < length text \<and> isDecimalDigit (text ! i)"

definition longest_punctuator :: "u16 list \<Rightarrow> (string \<times> PunctuatorKind) option" where
  "longest_punctuator text =
     List.find (\<lambda>(sp, k). take (length sp) text = lit sp \<and> \<not> (sp = ''?.'' \<and> digit_at 2 text)) punctuator_spellings"

lemma spellings_longest_first: "sorted_wrt (\<ge>) (map (length \<circ> fst) punctuator_spellings)"
  by (simp add: punctuator_spellings_def)

lemma rest_text_Cons:
  "rest_text s = (if eof s then [] else peekChar s # rest_text (advance 1 s))"
  by (auto simp: rest_text_def eof_def peekChar_def sourceCharAt_def upt_rec)

text \<open>A spelling begins the text when its characters are the next ones; none of them is NUL.\<close>

fun spelled :: "u16 list \<Rightarrow> scanner \<Rightarrow> bool" where
  "spelled [] s = True"
| "spelled (c # cs) s \<longleftrightarrow> peekChar s = c \<and> spelled cs (advance 1 s)"

lemma begins_iff_spelled:
  "0 \<notin> set cs \<Longrightarrow> take (length cs) (rest_text s) = cs \<longleftrightarrow> spelled cs s"
proof (induction cs arbitrary: s)
  case (Cons c cs)
  then show ?case
    by (subst rest_text_Cons) (auto simp: peekChar_def)
qed simp

lemma spelling_begins_iff:
  "(sp, k) \<in> set punctuator_spellings \<Longrightarrow> take (length sp) (rest_text s) = lit sp \<longleftrightarrow> spelled (lit sp) s"
proof -
  assume "(sp, k) \<in> set punctuator_spellings"
  then have "0 \<notin> set (lit sp)" by (auto simp: punctuator_spellings_def lit_def)
  from begins_iff_spelled [OF this] show ?thesis by simp
qed

lemma find_cong': "(\<And>x. x \<in> set xs \<Longrightarrow> P x = Q x) \<Longrightarrow> List.find P xs = List.find Q xs"
  by (induction xs) auto

lemma longest_punctuator_spelled:
  assumes "\<not> (take 2 (rest_text s) = lit ''?.'' \<and> digit_at 2 (rest_text s))"
  shows "longest_punctuator (rest_text s) = List.find (\<lambda>(sp, k). spelled (lit sp) s) punctuator_spellings"
  unfolding longest_punctuator_def
proof (rule find_cong')
  fix x assume x: "x \<in> set punctuator_spellings"
  obtain sp k where sp: "x = (sp, k)" by force
  have "take (length ''?.'') (rest_text s) = lit ''?.'' \<Longrightarrow> \<not> digit_at 2 (rest_text s)"
    using assms by (simp add: numeral_2_eq_2)
  then have "\<not> (sp = ''?.'' \<and> digit_at 2 (rest_text s))" if "take (length sp) (rest_text s) = lit sp" using that by blast
  then show "(case x of (sp, k) \<Rightarrow> take (length sp) (rest_text s) = lit sp \<and> \<not> (sp = ''?.'' \<and> digit_at 2 (rest_text s))) =
      (case x of (sp, k) \<Rightarrow> spelled (lit sp) s)"
    using spelling_begins_iff [of sp k s] x sp by auto
qed

lemma third_dot:
  assumes "sc_source s (sc_length s) \<noteq> code (CHR ''.'')" "peekChar (advance 1 s) = code (CHR ''.'')"
  shows "sourceCharAt (advance 1 s) (sc_index (advance 1 s) + 1) = code (CHR ''.'')
    \<longleftrightarrow> peekChar (advance (Suc (Suc 0)) s) = code (CHR ''.'')"
proof -
  have "sc_index s + 1 < sc_length s"
    using assms(2) by (auto simp: peekChar_def eof_def split: if_splits)
  then show ?thesis
    using assms(1) by (cases "sc_index s + 2 = sc_length s") (auto simp: peekChar_def eof_def sourceCharAt_def)
qed

lemmas punctuator_defs = punctuator_kind_def punctuator_brackets_def punctuator_comparisons_def
  punctuator_operators_def

lemma punctuator_kind_longest:
  assumes "sc_source s (sc_length s) \<noteq> code (CHR ''.'')" "peekChar s \<noteq> code (CHR ''#'')"
    and "\<not> (take 2 (rest_text s) = lit ''?.'' \<and> digit_at 2 (rest_text s))"
  shows "punctuator_kind (peekChar s) (advance 1 s) =
    map_option (\<lambda>(sp, k). (k, advance (length sp) s)) (longest_punctuator (rest_text s))"
proof (cases "peekChar s \<in> set (lit ''(){}.;,[]:?~><=!&|^+-*/%'')")
  case False
  then have "punctuator_kind (peekChar s) (advance 1 s) = None"
    using assms(2) by (simp add: punctuator_defs lit_def)
  moreover have "List.find (\<lambda>(sp, k). spelled (lit sp) s) punctuator_spellings = None"
    using False by (simp add: punctuator_spellings_def lit_def)
  ultimately show ?thesis by (simp add: longest_punctuator_spelled [OF assms(3)])
next
  case True
  then show ?thesis
    unfolding longest_punctuator_spelled [OF assms(3)] lit_def list.map list.set insert_iff empty_iff
    by (elim disjE)
      (auto simp: punctuator_defs punctuator_spellings_def lit_def advance_advance
        third_dot [OF assms(1), simplified])
qed

text \<open>
  C37. A punctuator is scanned by longest match: the scanner takes the longest punctuator of the
  grammar that begins the remaining text, and rejects the text when there is none. Three cases are
  excepted: \<^verbatim>\<open>?.\<close> in front of a digit, which the scanner takes although the grammar does not; texts
  behind whose end the memory has a dot, which is read as the third dot of \<^verbatim>\<open>...\<close>; and \<^verbatim>\<open>#\<close>, whose
  meaning depends on the position.
\<close>

theorem scanPunctuator_longest_match:
  assumes "sc_source s (sc_length s) \<noteq> code (CHR ''.'')" "peekChar s \<noteq> code (CHR ''#'')"
    and "\<not> (take 2 (rest_text s) = lit ''?.'' \<and> digit_at 2 (rest_text s))"
  shows "scanPunctuator (peekChar s) t s =
    (case longest_punctuator (rest_text s) of
       None \<Rightarrow> throwUnexpectedToken UnexpectedTokenIllegal (advance 1 s)
     | Some (sp, k) \<Rightarrow>
         let s' = advance (length sp) s in
         Inr (setPunctuatorResult s' (sc_index s) (sc_index s + length sp) k t, s'))"
  using punctuator_kind_longest [OF assms]
  by (auto simp: scanPunctuator_def Let_def split: option.splits)

definition demo_source :: "u16 list \<Rightarrow> scanner" where
  "demo_source text = scanner_init (\<lambda>i. if i < length text then text ! i else 0) (length text) False False 1 0"

definition demo_token :: token where
  "demo_token = \<lparr>tk_type = InvalidToken, tk_secondaryKeywordKind = NotKeyword, tk_startWithZero = False,
     tk_octal = False, tk_hasAllocatedString = False, tk_hasNonComputedNumberLiteral = False,
     tk_hasNumberSeparatorOnNumberLiteral = False, tk_lineNumber = 0, tk_lineStart = 0, tk_start = 0,
     tk_end = 0, tk_value = NoValue\<rparr>"

theorem scanPunctuator_longest_match_witness:
  "longest_punctuator (rest_text (demo_source (lit ''>>>1''))) = Some (''>>>'', UnsignedRightShift)
   \<and> scanPunctuator (peekChar (demo_source (lit ''>>>1''))) demo_token (demo_source (lit ''>>>1'')) =
    (case longest_punctuator (rest_text (demo_source (lit ''>>>1''))) of
       None \<Rightarrow> throwUnexpectedToken UnexpectedTokenIllegal (advance 1 (demo_source (lit ''>>>1'')))
     | Some (sp, k) \<Rightarrow>
         let s' = advance (length sp) (demo_source (lit ''>>>1'')) in
         Inr (setPunctuatorResult s' (sc_index (demo_source (lit ''>>>1'')))
           (sc_index (demo_source (lit ''>>>1'')) + length sp) k demo_token, s'))"
proof
  show "longest_punctuator (rest_text (demo_source (lit ''>>>1''))) = Some (''>>>'', UnsignedRightShift)"
    by code_simp
qed (rule scanPunctuator_longest_match; simp add: demo_source_def lit_def scanner_init_def peekChar_def eof_def
      sourceCharAt_def rest_text_def upt_rec)

text \<open>
  A defect: \<^verbatim>\<open>?.\<close> is scanned as one token even in front of a digit, where the standard takes
  \<^verbatim>\<open>?\<close> and a number, as in \<^verbatim>\<open>a?.5:1\<close>.
\<close>

theorem optional_chain_before_digit:
  "punctuator_kind (code (CHR ''?'')) (advance 1 (demo_source (lit ''?.5:1''))) =
     Some (GuessDot, advance 2 (demo_source (lit ''?.5:1'')))"
  by (simp add: punctuator_defs demo_source_def lit_def scanner_init_def peekChar_def eof_def sourceCharAt_def
      advance_def)

text \<open>A defect: two dots at the end of the text and a dot in the memory behind it make one token of three.\<close>

theorem spread_reads_behind_the_text:
  assumes "sc_index s + 2 = sc_length s" "sc_source s (sc_index s + 1) = code (CHR ''.'')"
    "sc_source s (sc_length s) = code (CHR ''.'')"
  shows "punctuator_kind (code (CHR ''.'')) (advance 1 s) = Some (PeriodPeriodPeriod, advance 3 s)"
proof -
  have "peekChar (advance 1 s) = code (CHR ''.'')" "sourceCharAt (advance 1 s) (sc_index (advance 1 s) + 1) = code (CHR ''.'')"
    using assms by (auto simp: peekChar_def eof_def sourceCharAt_def)
  then show ?thesis by (simp add: punctuator_defs advance_advance)
qed

section \<open>Every token consumes text\<close>

lemma complex_identifier_loop_ahead: "complex_identifier_loop ident s = Inr (u, s') \<Longrightarrow> ahead s s'"
proof (induction ident s rule: complex_identifier_loop.induct)
  case (1 ident s)
  show ?case
    using 1(3) 1(1, 2) [OF _ refl _ refl refl]
    by (subst (asm) complex_identifier_loop.simps)
      (auto simp: Let_def split: if_splits sum.splits prod.splits
        intro: ahead_from_advance ahead_trans [OF ahead_from_advance [OF identifier_escape_ahead]])
qed

lemma plain_identifier_loop_ahead: "plain_identifier_loop s = Some s' \<Longrightarrow> ahead s s'"
proof (induction s rule: plain_identifier_loop.induct)
  case (1 s)
  show ?case
    using 1(2) 1(1) [OF _ refl]
    by (subst (asm) plain_identifier_loop.simps)
      (auto simp: Let_def split: if_splits intro: ahead_from_advance)
qed

lemma scan_hex_loop_ahead: "ahead s (snd (scan_hex_loop a s))"
proof (induction a s rule: scan_hex_loop.induct)
  case (1 a s)
  show ?case
    using 1 [OF _ refl] by (subst scan_hex_loop.simps) (auto simp: Let_def intro: ahead_from_advance)
qed

lemma scan_binary_loop_ahead: "ahead s (snd (snd (snd (scan_binary_loop n a b s))))"
proof (induction n a b s rule: scan_binary_loop.induct)
  case (1 n a b s)
  show ?case
    using 1 [OF _ refl] by (subst scan_binary_loop.simps) (auto simp: Let_def intro: ahead_from_advance)
qed

lemma scan_octal_loop_ahead: "ahead s (snd (snd (snd (scan_octal_loop l n a b s))))"
proof (induction l n a b s rule: scan_octal_loop.induct)
  case (1 l n a b s)
  show ?case
    using 1 [OF _ refl] by (subst scan_octal_loop.simps) (auto simp: Let_def intro: ahead_from_advance)
qed

lemma skip_decimal_ahead: "ahead s (snd (skip_decimal seen s))"
proof (induction seen s rule: skip_decimal.induct)
  case (1 seen s)
  show ?case
    using 1 by (subst skip_decimal.simps) (auto intro: ahead_from_advance)
qed

lemma string_literal_loop_ahead: "string_literal_loop q b c s = Inr (x, y, z, s') \<Longrightarrow> ahead s s'"
proof (induction q b c s rule: string_literal_loop.induct)
  case (1 q b c s)
  show ?case
    using 1(4) 1(1, 2, 3) [OF _ refl refl]
    by (subst (asm) string_literal_loop.simps)
      (auto simp: Let_def split: if_splits sum.splits prod.splits
        intro: ahead_from_advance
          ahead_trans [OF ahead_from_advance [OF ahead_from_advance [OF skip_string_escape_ahead]]]
          ahead_trans [OF ahead_from_advance [OF ahead_from_advance [OF line_continuation_ahead]]])
qed

lemma template_loop_ahead:
  assumes "i \<le> sc_index s"
  shows "(template_loop i a s = Inl (e, r, a', s') \<longrightarrow> ahead s s' \<and> i \<le> r)
    \<and> (template_loop i a s = Inr (a', s') \<longrightarrow> ahead s s')"
  using assms
proof (induction i a s rule: template_loop.induct)
  case (1 i a s)
  define s1 where "s1 = advance 1 s"
  define ch where "ch = peekCharWithoutEOF s"
  note step = template_loop.simps [of i a s, folded ch_def s1_def]
  have s1: "ahead s s1" "sc_index s1 = Suc (sc_index s)" by (simp_all add: s1_def)
  have onward: "(template_loop j b u = Inl (e, r, a', s') \<longrightarrow> ahead s s' \<and> i \<le> r)
      \<and> (template_loop j b u = Inr (a', s') \<longrightarrow> ahead s s')"
    if "(template_loop j b u = Inl (e, r, a', s') \<longrightarrow> ahead u s' \<and> j \<le> r)
      \<and> (template_loop j b u = Inr (a', s') \<longrightarrow> ahead u s')" "ahead s u" "i \<le> j" for j b u
    using that by (auto intro: ahead_trans)
  show ?case
  proof (cases "eof s")
    case True
    then show ?thesis by (simp add: step throwUnexpectedToken_def)
  next
    case ne: False
    note IH = 1(1-5) [OF ne ch_def s1_def]
    consider "ch = code (CHR ''`'')" | "ch = code (CHR ''$'')" | "ch = 0x5C"
      | "ch \<noteq> code (CHR ''`'')" "ch \<noteq> code (CHR ''$'')" "ch \<noteq> 0x5C" by blast
    then show ?thesis
    proof cases
      case 1
      then show ?thesis using ne s1 by (auto simp: step)
    next
      case 2
      then show ?thesis
        using ne s1 "1.prems" IH(1) onward [of "sc_index s1" "tp_append [ch] [ch] a" s1]
        by (auto simp: step ahead_def)
    next
      case 3
      show ?thesis
      proof (cases "isLineTerminator (peekChar s1)")
        case True
        obtain u s2 where l: "template_line (peekChar s1) (advance 1 s1) = (u, s2)" by fastforce
        then have "ahead s s2"
          using template_line_ahead [of "advance 1 s1" "peekChar s1"] s1 by (auto simp: ahead_def)
        then show ?thesis
          using ne 3 True l s1 "1.prems" IH(3) [OF _ _ _ refl refl _ l [symmetric]]
            onward [of "sc_index s2" "tp_append [] [u] (tp_append [] [ch] a)" s2]
          by (auto simp: step Let_def ahead_def)
      next
        case False
        show ?thesis
        proof (cases "template_escape (peekChar s1) (advance 1 s1)")
          case (Inl er)
          then show ?thesis using ne 3 False s1 "1.prems" by (auto simp: step Let_def)
        next
          case (Inr p)
          obtain u s2 where l: "template_escape (peekChar s1) (advance 1 s1) = Inr (u, s2)"
            using Inr by (cases p) auto
          then have "ahead s s2" "ahead s1 s2"
            using template_escape_ahead [OF l] s1 by (auto simp: ahead_def)
          then show ?thesis
            using ne 3 False l s1 "1.prems" IH(2) [OF _ _ _ refl refl _ l refl]
              onward [of "sc_index s1"
                "tp_append u (map (sourceCharAt s1) [sc_index s1..<sc_index s2]) (tp_append [] [ch] a)" s2]
            by (auto simp: step Let_def ahead_def)
        qed
      qed
    next
      case 4
      show ?thesis
      proof (cases "isLineTerminator ch")
        case True
        obtain u s2 where l: "template_line ch s1 = (u, s2)" by fastforce
        then have "ahead s s2"
          using template_line_ahead [of s1 ch] s1 by (auto simp: ahead_def)
        then show ?thesis
          using ne 4 True l s1 "1.prems" IH(4) [OF _ _ _ _ l [symmetric]]
            onward [of "sc_index s2" "tp_append [u] [u] a" s2]
          by (auto simp: step ahead_def)
      next
        case False
        then show ?thesis
          using ne 4 s1 "1.prems" IH(5) onward [of "sc_index s1" "tp_append [ch] [ch] a" s1]
          by (auto simp: step ahead_def)
      qed
    qed
  qed
qed

lemma template_recover_ahead: "ahead s (snd (template_recover a s))"
proof (induction a s rule: template_recover.induct)
  case (1 a s)
  obtain u s2 where l: "template_line (peekCharWithoutEOF s) (advance 1 s) = (u, s2)" by fastforce
  then have "ahead s s2"
    using template_line_ahead [of "advance 1 s" "peekCharWithoutEOF s"] by (auto simp: ahead_def)
  then show ?case
    using 1(1, 3) [OF _ refl refl] 1(2) [OF _ refl refl _ _ _ l [symmetric]] l
    by (subst template_recover.simps)
      (auto simp: Let_def advance_advance intro: ahead_from_advance ahead_trans)
qed

text \<open>
  \<open>token_spans s r\<close>: a token that was scanned from \<open>s\<close> lies between the old and the new position
  and is not empty.
\<close>

definition token_spans :: "scanner \<Rightarrow> token \<times> scanner \<Rightarrow> bool" where
  "token_spans s r \<longleftrightarrow> (case r of (t, s') \<Rightarrow> ahead s s' \<and> sc_index s \<le> tk_start t
     \<and> tk_start t < tk_end t \<and> tk_end t = sc_index s')"

named_theorems token_simps \<open>where the tokens are placed\<close>

lemma set_position_simps [token_simps]:
  "tk_start (setPunctuatorResult s st en p t) = st" "tk_end (setPunctuatorResult s st en p t) = en"
  "tk_start (setKeywordResult s st en k t) = st" "tk_end (setKeywordResult s st en k t) = en"
  "tk_start (setResult_allocated ty v s st en oct t) = st" "tk_end (setResult_allocated ty v s st en oct t) = en"
  "tk_start (setResult_range ty x y s st en oct t) = st" "tk_end (setResult_range ty x y s st en oct t) = en"
  "tk_start (setNumericLiteralResult n s st en b c t) = st" "tk_end (setNumericLiteralResult n s st en b c t) = en"
  "tk_start (setTemplateTokenResult w s st en t) = st" "tk_end (setTemplateTokenResult w s st en t) = en"
  by (simp_all add: set_position_def setPunctuatorResult_def setKeywordResult_def setResult_allocated_def
      setResult_range_def setNumericLiteralResult_def setTemplateTokenResult_def)

lemma throw_not_Inr [simp]: "throwUnexpectedToken m s \<noteq> Inr r" "throw_at st m s \<noteq> Inr r"
  by (simp_all add: throwUnexpectedToken_def throw_at_def)

lemma punctuator_kind_ahead: "punctuator_kind ch s = Some (k, s') \<Longrightarrow> ahead s s'"
  unfolding punctuator_defs
  by (auto simp: Let_def advance_advance split: if_split_asm option.split_asm)

lemma scanPunctuator_spans: "scanPunctuator ch t s = Inr r \<Longrightarrow> token_spans s r"
  using punctuator_kind_ahead [of ch "advance 1 s"]
  by (auto simp: scanPunctuator_def token_spans_def Let_def token_simps ahead_def split: option.splits)

lemma getComplexIdentifier_ahead:
  assumes "getComplexIdentifier s = Inr (u, s')"
  shows "ahead (advance 1 s) s'"
proof -
  define c where "c = (ucast (codePointAt s (sc_index s)) :: u16)"
  define n where "n = length (ParserCharPiece (ucast c))"
  have n: "1 \<le> n" using ParserCharPiece_nonempty [of "ucast c"] by (auto simp: n_def Suc_le_eq)
  have loop: "ahead s1 s'" if "(case complex_identifier_loop ident s1 of
                Inl e \<Rightarrow> Inl e
              | Inr (ident, s) \<Rightarrow>
                  if sc_await s \<and> ident = lit ''await''
                  then throwUnexpectedToken KeywordMustNotContainEscapedCharacters s
                  else Inr (ident, s)) = Inr (u, s')" for ident s1
    using that complex_identifier_loop_ahead [of ident s1]
    by (auto split: sum.splits prod.splits if_splits)
  have "ahead (advance n s) s'"
    using assms loop identifier_escape_ahead [of isIdentifierStart "advance n s"]
    unfolding getComplexIdentifier_def Let_def c_def [symmetric] n_def [symmetric]
    by (fastforce split: sum.splits prod.splits if_splits intro: ahead_trans)
  then show ?thesis using n by (auto simp: ahead_def)
qed

lemma getIdentifier_ahead:
  assumes "getIdentifier s = Inr (u, b, s')"
  shows "ahead (advance 1 s) s'"
  using assms getComplexIdentifier_ahead [of s] plain_identifier_loop_ahead [of "advance 1 s"]
  by (auto simp: getIdentifier_def split: option.splits sum.splits prod.splits)

lemma finish_literal_same: "finish_literal sp bad seen s = Inr s' \<Longrightarrow> s' = s"
  by (auto simp: finish_literal_def split: if_splits sum.splits)

lemma numeric_token_spans:
  assumes "ahead (advance 1 s) s'" "tk_start t' = sc_index s" "tk_end t' = sc_index s'"
  shows "token_spans s (t', s')"
  using assms by (auto simp: token_spans_def ahead_def)

lemma digits_ahead:
  "scan_hex_loop a s = (a', s') \<Longrightarrow> ahead s s'"
  "scan_binary_loop n b c s = (n', b', c', s') \<Longrightarrow> ahead s s'"
  "scan_octal_loop l n b c s = (n', b', c', s') \<Longrightarrow> ahead s s'"
  "skip_decimal seen s = (seen', s') \<Longrightarrow> ahead s s'"
  using scan_hex_loop_ahead [of s a] scan_binary_loop_ahead [of s n b c]
    scan_octal_loop_ahead [of s l n b c] skip_decimal_ahead [of s seen] by auto

lemma ahead_weaken:
  assumes "ahead (advance n s) s'" "1 \<le> n"
  shows "ahead (advance (Suc 0) s) s'" "ahead (advance (Suc 0) s) (advance (Suc 0) s')"
  using assms by (auto simp: ahead_def)

lemma scanIdentifier_spans:
  assumes "scanIdentifier ch0 t s = Inr r"
  shows "token_spans s r"
proof -
  define res where "res = (if ch0 = 0x5C then
                      (case getComplexIdentifier s of
                         Inl e \<Rightarrow> Inl e
                       | Inr (ident, s') \<Rightarrow> Inr (ident, True, s'))
                    else getIdentifier s)"
  note scan = assms [unfolded scanIdentifier_def Let_def, folded res_def]
  obtain d al s1 where res: "res = Inr (d, al, s1)"
    using scan by (cases res) auto
  have "ahead (advance 1 s) s1"
    using res getComplexIdentifier_ahead [of s] getIdentifier_ahead [of s]
    by (auto simp: res_def split: if_splits sum.splits prod.splits)
  moreover obtain t' where "r = (t', s1)" "tk_start t' = sc_index s" "tk_end t' = sc_index s1"
    using scan unfolding res by (simp add: token_simps split: if_split_asm) (auto simp: token_simps)
  ultimately show ?thesis by (auto intro: numeric_token_spans)
qed

lemma scanHexLiteral_spans:
  "scanHexLiteral (sc_index s) t (advance n s) = Inr r \<Longrightarrow> 1 \<le> n \<Longrightarrow> token_spans s r"
  by (auto simp: scanHexLiteral_def Let_def token_simps dest!: finish_literal_same digits_ahead
      intro!: numeric_token_spans ahead_weaken split: prod.splits if_splits sum.splits)

lemma scanBinaryLiteral_spans:
  "scanBinaryLiteral (sc_index s) t (advance n s) = Inr r \<Longrightarrow> 1 \<le> n \<Longrightarrow> token_spans s r"
  by (auto simp: scanBinaryLiteral_def Let_def token_simps dest!: finish_literal_same digits_ahead
      intro!: numeric_token_spans ahead_weaken split: prod.splits if_splits sum.splits)

lemma scanOctalLiteral_spans:
  "scanOctalLiteral p (sc_index s) l t (advance n s) = Inr r \<Longrightarrow> 1 \<le> n \<Longrightarrow> token_spans s r"
  by (auto simp: scanOctalLiteral_def Let_def token_simps dest!: finish_literal_same digits_ahead
      intro!: numeric_token_spans ahead_weaken split: prod.splits if_splits sum.splits)

lemma scan_fraction_ahead: "scan_fraction seen s = (b, c, s') \<Longrightarrow> ahead s s'"
  by (auto simp: scan_fraction_def split: if_splits prod.splits
      intro: ahead_from_advance [OF digits_ahead(4)])

lemma scan_exponent_ahead: "scan_exponent b c s = Inr (b', c', s') \<Longrightarrow> ahead s s'"
  by (auto simp: scan_exponent_def Let_def advance_advance split: if_splits prod.splits
      intro: ahead_from_advance [OF digits_ahead(4)])

lemma scan_decimal_rest_spans:
  assumes "scan_decimal_rest (sc_index s) c seen t s0 = Inr r"
    and "ahead (advance 1 s) s0 \<or> s0 = s \<and> peekChar s = code (CHR ''.'')"
  shows "token_spans s r"
proof -
  obtain b1 c1 s1 where f: "scan_fraction seen s0 = (b1, c1, s1)" using prod_cases3 by blast
  obtain b2 c2 s2 where e: "scan_exponent b1 c1 s1 = Inr (b2, c2, s2)"
    using assms(1) f by (cases "scan_exponent b1 c1 s1") (auto simp: scan_decimal_rest_def)
  have "ahead (advance 1 s) s1"
    using assms(2)
  proof
    assume "ahead (advance 1 s) s0"
    then show ?thesis using scan_fraction_ahead [OF f] by (rule ahead_trans)
  next
    assume "s0 = s \<and> peekChar s = code (CHR ''.'')"
    then show ?thesis
      using f by (auto simp: scan_fraction_def dest: digits_ahead(4) split: prod.splits)
  qed
  then have "ahead (advance 1 s) s2"
    using scan_exponent_ahead [OF e] by (rule ahead_trans)
  then have a: "ahead (advance 1 s) s2" "ahead (advance 1 s) (advance 1 s2)"
    by (auto simp: ahead_def)
  obtain s3 t' where "s3 \<in> {s2, advance 1 s2}" "r = (t', s3)" "tk_start t' = sc_index s" "tk_end t' = sc_index s3"
    using assms(1) [unfolded scan_decimal_rest_def f prod.case e sum.case Let_def]
    by (auto simp: token_simps split: if_split_asm sum.splits dest!: finish_literal_same)
  then show ?thesis using a by (auto intro: numeric_token_spans)
qed

lemma scanNumericLiteral_spans:
  assumes "scanNumericLiteral t s = Inr r"
  shows "token_spans s r"
proof -
  obtain seen s1 where sk: "skip_decimal False (advance 1 s) = (seen, s1)" by fastforce
  then have "ahead (advance 1 s) s1" by (rule digits_ahead)
  then show ?thesis
    using assms sk scanHexLiteral_spans [of s t 2 r] scanBinaryLiteral_spans [of s t 2 r]
      scanOctalLiteral_spans [of _ s False t 2 r] scanOctalLiteral_spans [of _ s True t 1 r]
      scan_decimal_rest_spans [of s _ seen t s1 r] scan_decimal_rest_spans [of s _ False t s r]
    by (auto simp: scanNumericLiteral_def Let_def advance_advance numeral_2_eq_2 split: if_split_asm)
qed

lemma scanStringLiteral_spans:
  assumes "scanStringLiteral t s = Inr r"
  shows "token_spans s r"
proof -
  obtain cl oct pl s1 where l: "string_literal_loop (peekChar s) False True (advance 1 s) = Inr (cl, oct, pl, s1)"
    using assms by (cases "string_literal_loop (peekChar s) False True (advance 1 s)")
      (auto simp: scanStringLiteral_def Let_def)
  have "ahead (advance 1 s) s1" using l by (rule string_literal_loop_ahead)
  then show ?thesis
    using assms l by (auto simp: scanStringLiteral_def Let_def token_simps split: if_split_asm
        intro!: numeric_token_spans)
qed

lemma scanTemplate_spans: "token_spans s (scanTemplate True t (advance 1 s))"
proof -
  define a where "a = \<lparr>tp_cooked = [], tp_raw = [], tp_terminated = False, tp_tail = False\<rparr>"
  define st where "st = sc_index (advance 1 s)"
  have le: "st \<le> sc_index (advance 1 s)" by (simp add: st_def)
  show ?thesis
  proof (cases "template_loop st a (advance 1 s)")
    case (Inr p)
    then obtain a' s' where l: "template_loop st a (advance 1 s) = Inr (a', s')" by (cases p) auto
    then have "ahead (advance 1 s) s'" using template_loop_ahead [OF le] by blast
    then show ?thesis
      using l by (auto simp: scanTemplate_def Let_def a_def st_def token_simps intro!: numeric_token_spans)
  next
    case (Inl p)
    then obtain e i a' s' where l: "template_loop st a (advance 1 s) = Inl (e, i, a', s')" by (cases p) auto
    then have "ahead (advance 1 s) s' \<and> st \<le> i" using template_loop_ahead [OF le] by blast
    then have "ahead (advance 1 s) (s'\<lparr>sc_index := i\<rparr>)" by (auto simp: ahead_def st_def)
    moreover obtain b s'' where rc: "template_recover a' (s'\<lparr>sc_index := i\<rparr>) = (b, s'')" by fastforce
    moreover have "ahead (s'\<lparr>sc_index := i\<rparr>) s''"
      using template_recover_ahead [of "s'\<lparr>sc_index := i\<rparr>" a'] by (simp add: rc)
    ultimately have "ahead (advance 1 s) s''" by (blast intro: ahead_trans)
    then show ?thesis
      using l rc by (auto simp: scanTemplate_def Let_def a_def st_def token_simps intro!: numeric_token_spans)
  qed
qed

text \<open>
  C36. Every token but the one for the end of the text is not empty, lies between the old and the
  new position of the scanner and ends at the new one; the scanner moves forward and neither the
  text nor its length changes, so that repeated scanning comes to the end of the text. The new
  position may lie behind the end of the text (\<^verbatim>\<open>spread_reads_behind_the_text\<close>).
\<close>

theorem lex_consumes_text:
  assumes "lex t s = Inr (t', s')" "\<not> eof s"
  shows "sc_index s < sc_index s' \<and> sc_index s \<le> tk_start t' \<and> tk_start t' < tk_end t'
    \<and> tk_end t' = sc_index s' \<and> sc_source s' = sc_source s \<and> sc_length s' = sc_length s"
proof -
  have spans: "token_spans s1 (t', s') \<Longrightarrow> ahead s s1 \<Longrightarrow> token_spans s (t', s')" for s1
    by (auto simp: token_spans_def ahead_def)
  let ?cp = "peekCharWithoutEOF s"
  obtain cp s1 where sg: "(if ?cp \<ge> 0xD800 \<and> ?cp < 0xDFFF then
        let s = advance 1 s; ch2 = (ucast (peekChar s) :: u32) in
        if U16_IS_TRAIL ch2 then Inr (ucast (U16_GET_SUPPLEMENTARY (ucast ?cp) ch2), s)
        else throwUnexpectedToken UnexpectedTokenIllegal s
      else Inr (?cp, s)) = Inr (cp, s1)" (is "?sg = _")
    using assms by (cases ?sg) (auto simp: lex_def Let_def)
  have s1: "ahead s s1"
    using sg by (auto simp: Let_def split: if_splits)
  have "token_spans s1 (t', s')"
    using assms(1) [unfolded lex_def] assms(2) sg
    by (auto simp: Let_def simp del: throw_not_Inr split: if_split_asm
        intro: scanIdentifier_spans scanStringLiteral_spans scanNumericLiteral_spans scanPunctuator_spans
        dest!: sym [of "scanTemplate _ _ _"] intro!: scanTemplate_spans [unfolded One_nat_def])
  with s1 have "token_spans s (t', s')" by (rule spans [rotated])
  then show ?thesis by (auto simp: token_spans_def ahead_def)
qed

theorem lex_consumes_text_witness:
  "\<exists>t' s'. lex demo_token (demo_source (lit ''+1'')) = Inr (t', s') \<and> \<not> eof (demo_source (lit ''+1''))
    \<and> sc_index (demo_source (lit ''+1'')) < sc_index s' \<and> tk_start t' < tk_end t' \<and> tk_end t' = sc_index s'"
proof -
  have "\<exists>t' s'. lex demo_token (demo_source (lit ''+1'')) = Inr (t', s')"
    by (simp add: lex_def demo_source_def lit_def scanner_init_def eof_def peekCharWithoutEOF_def sourceCharAt_def
        isIdentifierStart_def g_asciiRangeCharMap_def LexerIsCharIdentStart_def isDecimalDigit_def
        scanPunctuator_def punctuator_defs peekChar_def Let_def)
  then obtain t' s' where l: "lex demo_token (demo_source (lit ''+1'')) = Inr (t', s')" by blast
  moreover have ne: "\<not> eof (demo_source (lit ''+1''))"
    by (simp add: demo_source_def lit_def scanner_init_def eof_def)
  ultimately show ?thesis using lex_consumes_text [OF l ne] by blast
qed

end
