(* ===== verification/Lexer_Literals.thy ===== *)
theory Lexer_Literals
  imports Lexer_Progress
begin

text \<open>
  The values of literals: the two passes over a string literal, the escapes for code points and
  binary numbers, with the inputs on which the values are not those of the standard.
\<close>

section \<open>The two passes over a string literal agree\<close>

lemma hex_digit_not_brace: "isHexDigit ch \<Longrightarrow> ch \<noteq> code (CHR ''{'')"
proof
  assume "isHexDigit ch" "ch = code (CHR ''{'')"
  moreover have "\<not> isHexDigit (code (CHR ''{''))" by code_simp
  ultimately show False by simp
qed

lemma scan_hex_digits_start:
  "scan_hex_digits n c s = (cp, s') \<Longrightarrow> 0 < n \<Longrightarrow> cp \<noteq> EMPTY_CODE_POINT
     \<Longrightarrow> \<not> eof s \<and> isHexDigit (peekCharWithoutEOF s)"
  by (cases n) (auto split: if_splits)

lemma scanHexEscape_starts_with_digit:
  assumes "scanHexEscape ch s = (cp, s')" "cp \<noteq> EMPTY_CODE_POINT"
  shows "peekChar s \<noteq> code (CHR ''{'')"
  using scan_hex_digits_start [OF assms(1) [unfolded scanHexEscape_def] _ assms(2)] hex_digit_not_brace
  by (auto simp: peekChar_def peekCharWithoutEOF_def split: if_splits)

lemma octalToDecimal_same_state: "snd (octalToDecimal ch a s) = snd (octalToDecimal ch b s)"
  by (auto simp: octalToDecimal_def Let_def)

lemma escape_passes_agree:
  assumes "skip_string_escape ch s = Inr (oct, s')"
  shows "\<exists>u. append_string_escape ch s = Inr (u, s')"
  using assms scanHexEscape_starts_with_digit [of ch s] octalToDecimal_same_state [of ch False s True]
  by (auto simp: skip_string_escape_def append_string_escape_def throwUnexpectedToken_def
      split: if_split_asm sum.splits prod.splits)

text \<open>
  The second pass runs with the line counters of the end of the token. They only matter for
  error messages: \<open>reline a b s\<close> is \<open>s\<close> with other counters.
\<close>

definition reline :: "nat \<Rightarrow> nat \<Rightarrow> scanner \<Rightarrow> scanner" where
  "reline a b s = s\<lparr>sc_lineNumber := a, sc_lineStart := b\<rparr>"

lemma reline_simps [simp]:
  "sc_index (reline a b s) = sc_index s" "eof (reline a b s) = eof s" "peekChar (reline a b s) = peekChar s"
  "peekCharWithoutEOF (reline a b s) = peekCharWithoutEOF s"
  "advance n (reline a b s) = reline a b (advance n s)"
  "next_line (reline a b s) = reline (a + 1) (sc_index s) s"
  by (simp_all add: reline_def eof_def peekChar_def peekCharWithoutEOF_def sourceCharAt_def advance_def
      next_line_def)

lemma reline_self: "reline (sc_lineNumber s) (sc_lineStart s) s = s"
  by (simp add: reline_def)

lemma reline_reline [simp]: "reline a b (reline c d s) = reline a b s"
  by (simp add: reline_def)

lemma reline_next_line [simp]: "reline a b (next_line s) = reline a b s"
  by (simp add: reline_def next_line_def)

lemma scan_hex_digits_reline:
  "scan_hex_digits n c (reline a b s) = apsnd (reline a b) (scan_hex_digits n c s)"
  by (induction n c s rule: scan_hex_digits.induct) auto

lemma code_point_digits_reline:
  "code_point_digits c ch (reline a b s) = apsnd (apsnd (reline a b)) (code_point_digits c ch s)"
proof (induction c ch s rule: code_point_digits.induct)
  case (1 c ch s)
  show ?case
    using 1 [OF _ refl refl] by (subst (1 2) code_point_digits.simps) (auto simp: Let_def)
qed

lemma octalToDecimal_reline:
  "octalToDecimal ch oct (reline a b s) = apsnd (reline a b) (octalToDecimal ch oct s)"
  by (auto simp: octalToDecimal_def Let_def)

lemma append_string_escape_reline:
  assumes "append_string_escape ch s = Inr (u, s')"
  shows "append_string_escape ch (reline a b s) = Inr (u, reline a b s')"
proof -
  have cp: "scanUnicodeCodePointEscape (reline a b q) = Inr (v, reline a b q')"
    if "scanUnicodeCodePointEscape q = Inr (v, q')" for q q' v
    using that by (auto simp: scanUnicodeCodePointEscape_def code_point_digits_reline split: if_splits prod.splits)
  show ?thesis
    using assms
    by (auto simp: append_string_escape_def scanHexEscape_def scan_hex_digits_reline octalToDecimal_reline cp
        split: if_split_asm sum.splits prod.splits)
qed

lemma ascii_line_terminator:
  "isLineTerminator ch \<Longrightarrow> ch \<noteq> 0x2028 \<Longrightarrow> ch \<noteq> 0x2029 \<Longrightarrow>
     ch < 128 \<and> g_asciiRangeCharMap ! unat ch AND LexerIsCharLineTerminator \<noteq> 0"
  by (auto simp: isLineTerminator_def split: if_splits)

lemma continue_construct:
  "construct_string_step quote str s = Inr (str', s') \<Longrightarrow>
     construct_string_loop quote str s = construct_string_loop quote str' s'"
  by (subst construct_string_loop.simps) simp

lemma string_literal_loop_moves:
  assumes "string_literal_loop q b c s = Inr (x, y, z, s')" "\<not> eof s"
  shows "ahead (advance 1 s) s'"
  using assms
  by (subst (asm) string_literal_loop.simps)
    (auto simp: Let_def split: if_splits sum.splits prod.splits
      intro: string_literal_loop_ahead
        ahead_trans [OF ahead_from_advance [OF skip_string_escape_ahead] string_literal_loop_ahead]
        ahead_trans [OF ahead_from_advance [OF line_continuation_ahead] string_literal_loop_ahead])

lemma string_passes_agree:
  assumes "string_literal_loop quote octal plain s = Inr (True, octal', plain', s')"
    and "\<forall>i. sc_index s \<le> i \<and> i < sc_index s' \<longrightarrow> sc_source s i \<noteq> 0x2028 \<and> sc_source s i \<noteq> 0x2029"
  shows "\<exists>str' a' b'. construct_string_loop quote str (reline a b s) = Some (Inr (str', reline a' b' s'))"
  using assms
proof (induction quote octal plain s arbitrary: str a b rule: string_literal_loop.induct)
  case (1 quote octal plain s)
  define s1 where "s1 = advance 1 s"
  define ch where "ch = peekCharWithoutEOF s"
  note loop = "1.prems"(1) [unfolded string_literal_loop.simps [of quote octal plain s], folded ch_def s1_def,
      unfolded Let_def, folded s1_def]
  have ne: "\<not> eof s" using "1.prems"(1) by (subst (asm) string_literal_loop.simps) (auto split: if_splits)
  note IH = 1(1-3) [OF ne ch_def s1_def]
  have peek: "peekChar s = ch" using ne by (simp add: peekChar_def ch_def peekCharWithoutEOF_def)
  have lt: "sc_index s < sc_index s'"
    using string_literal_loop_moves [OF "1.prems"(1) ne] by (simp add: ahead_def)
  then have ch: "ch \<noteq> 0x2028" "ch \<noteq> 0x2029"
    using "1.prems"(2) by (auto simp: ch_def peekCharWithoutEOF_def sourceCharAt_def)
  have rest: "\<forall>i. sc_index s2 \<le> i \<and> i < sc_index s' \<longrightarrow> sc_source s2 i \<noteq> 0x2028 \<and> sc_source s2 i \<noteq> 0x2029"
    if "ahead s s2" for s2
    using that "1.prems"(2) by (auto simp: ahead_def)
  note step = construct_string_step_def [of quote str "reline a b s", unfolded reline_simps peek Let_def, folded s1_def]
  consider "ch = quote" | "ch \<noteq> quote" "ch = 0x5C" | "ch \<noteq> quote" "ch \<noteq> 0x5C" by blast
  then show ?case
  proof cases
    case 1
    then have "construct_string_step quote str (reline a b s) = Inl (Inr (str, reline a b s1))" by (simp add: step)
    moreover have "s' = s1" using loop ne 1 by simp
    ultimately show ?thesis by (subst construct_string_loop.simps) auto
  next
    case 3
    then have nt: "\<not> isLineTerminator ch" using loop ne ascii_line_terminator [OF _ ch] by auto
    then have go: "string_literal_loop quote octal plain s1 = Inr (True, octal', plain', s')"
      using loop ne 3 by (auto simp: isLineTerminator_def split: if_splits)
    have "construct_string_step quote str (reline a b s) = Inr (str @ [ch], reline a b s1)" using 3 nt by (simp add: step)
    moreover have "\<exists>str' a' b'. construct_string_loop quote (str @ [ch]) (reline a b s1) = Some (Inr (str', reline a' b' s'))"
    proof (rule IH(3) [OF 3(1, 2) _ go])
      show "\<not> (ch < 128 \<and> g_asciiRangeCharMap ! unat ch AND LexerIsCharLineTerminator \<noteq> 0)"
        using nt by (auto simp: isLineTerminator_def split: if_splits)
    qed (rule rest, simp add: s1_def)
    ultimately show ?thesis by (simp only: continue_construct)
  next
    case 2
    define c2 where "c2 = peekChar s1"
    define s2 where "s2 = advance 1 s1"
    have a2: "ahead s s2" by (auto simp: s2_def s1_def ahead_def)
    note loop2 = loop [folded c2_def s2_def]
    note step2 = step [folded c2_def s2_def]
    show ?thesis
    proof (cases "c2 = 0 \<or> \<not> isLineTerminator c2")
      case True
      obtain oct s3 where esc: "skip_string_escape c2 s2 = Inr (oct, s3)"
        using loop2 ne 2 True by (cases "skip_string_escape c2 s2") auto
      then have go: "string_literal_loop quote (octal \<or> oct) False s3 = Inr (True, octal', plain', s')"
        using loop2 ne 2 True by simp
      obtain u where "append_string_escape c2 s2 = Inr (u, s3)" using escape_passes_agree [OF esc] by blast
      then have "construct_string_step quote str (reline a b s) = Inr (str @ u, reline a b s3)"
        using 2 True append_string_escape_reline [of c2 s2 u s3 a b] by (simp add: step2)
      moreover have "ahead s s3" using a2 skip_string_escape_ahead [OF esc] by (rule ahead_trans)
      then have "\<exists>str' a' b'. construct_string_loop quote (str @ u) (reline a b s3) = Some (Inr (str', reline a' b' s'))"
        by (intro IH(1) [OF 2 c2_def s2_def True esc refl go] rest)
      ultimately show ?thesis by (simp only: continue_construct)
    next
      case False
      then have go: "string_literal_loop quote octal False (line_continuation c2 s2) = Inr (True, octal', plain', s')"
        using loop2 ne 2 by simp
      define q where "q = (if c2 = 13 \<and> peekChar s2 = 10 \<or> c2 = 10 \<and> peekChar s2 = 13 then advance 1 s2 else s2)"
      have "line_continuation c2 s2 = next_line q"
        by (auto simp: line_continuation_def q_def)
      then have "construct_string_step quote str (reline a b s)
          = Inr (str, reline (a + 1) (sc_index q) (line_continuation c2 s2))"
        using 2 False by (auto simp: step2 q_def)
      moreover have "ahead s (line_continuation c2 s2)" using a2 line_continuation_ahead by (rule ahead_trans)
      then have "\<exists>str' a' b'. construct_string_loop quote str (reline (a + 1) (sc_index q) (line_continuation c2 s2)) = Some (Inr (str', reline a' b' s'))"
        by (intro IH(2) [OF 2 c2_def s2_def False go] rest)
      ultimately show ?thesis by (simp only: continue_construct)
    qed
  qed
qed
text \<open>
  C38. The value of a string literal with escapes is built in a second pass over the same text,
  which has no end check of its own: it returns, and it stops where the first pass stopped,
  for every literal that the first pass accepted and that has no raw U+2028 or U+2029 in it.
\<close>

theorem string_literal_second_pass_returns:
  assumes "scanStringLiteral t s = Inr (t', s')"
    and "\<forall>i. sc_index s \<le> i \<and> i < sc_index s' \<longrightarrow> sc_source s i \<noteq> 0x2028 \<and> sc_source s i \<noteq> 0x2029"
  shows "\<exists>str s''. construct_string_loop (peekChar s) [] (advance 1 (s'\<lparr>sc_index := tk_start t'\<rparr>))
        = Some (Inr (str, s'')) \<and> sc_index s'' = tk_end t'
      \<and> constructStringLiteral t' s' = Some (Inr (t'\<lparr>tk_value := AllocatedString (Some str)\<rparr>))"
proof -
  obtain oct pl where l: "string_literal_loop (peekChar s) False True (advance 1 s) = Inr (True, oct, pl, s')"
    using assms(1) by (auto simp: scanStringLiteral_def Let_def split: sum.splits if_splits)
  have pos: "tk_start t' = sc_index s" "tk_end t' = sc_index s'"
    using assms(1) by (auto simp: scanStringLiteral_def Let_def token_simps split: sum.splits if_splits)
  have a: "ahead (advance 1 s) s'" using l by (rule string_literal_loop_ahead)
  then have again: "s'\<lparr>sc_index := tk_start t'\<rparr> = reline (sc_lineNumber s') (sc_lineStart s') s"
    by (cases s, cases s') (simp add: pos ahead_def reline_def advance_def)
  have "\<forall>i. sc_index (advance 1 s) \<le> i \<and> i < sc_index s' \<longrightarrow>
      sc_source (advance 1 s) i \<noteq> 0x2028 \<and> sc_source (advance 1 s) i \<noteq> 0x2029"
    using assms(2) by simp
  from string_passes_agree [OF l this, of "[]" "sc_lineNumber s'" "sc_lineStart s'"] pos again
  show ?thesis by (auto simp: constructStringLiteral_def Let_def)
qed

theorem string_literal_second_pass_returns_witness:
  "\<exists>t' s' str s''. scanStringLiteral demo_token (demo_source [0x27, 0x61, 0x5C, 0x6E, 0x27]) = Inr (t', s')
     \<and> construct_string_loop (peekChar (demo_source [0x27, 0x61, 0x5C, 0x6E, 0x27])) []
         (advance 1 (s'\<lparr>sc_index := tk_start t'\<rparr>)) = Some (Inr (str, s'')) \<and> sc_index s'' = tk_end t'"
proof -
  let ?s = "demo_source [0x27, 0x61, 0x5C, 0x6E, 0x27]"
  have "case scanStringLiteral demo_token ?s of Inl _ \<Rightarrow> False
    | Inr (t', s') \<Rightarrow> sc_index s' = 5" by code_simp
  then obtain t' s' where sc: "scanStringLiteral demo_token ?s = Inr (t', s')" "sc_index s' = 5"
    by (auto split: sum.splits)
  have "\<forall>i \<in> set [0..<5]. sc_source ?s i \<noteq> 0x2028 \<and> sc_source ?s i \<noteq> 0x2029" by code_simp
  then have "\<forall>i. sc_index ?s \<le> i \<and> i < sc_index s' \<longrightarrow> sc_source ?s i \<noteq> 0x2028 \<and> sc_source ?s i \<noteq> 0x2029"
    using sc(2) by simp
  with sc string_literal_second_pass_returns [OF sc(1)] show ?thesis by blast
qed

text \<open>
  A defect: a raw U+2028 in a literal is accepted by the first pass, as ES2019 demands, but ends
  the second pass: in a literal that also has an escape, the value loses everything from there on.
\<close>

theorem line_separator_truncates_literal:
  "case scanStringLiteral demo_token (demo_source [0x27, 0x5C, 0x6E, 0x2028, 0x62, 0x27]) of
     Inl _ \<Rightarrow> False
   | Inr (t', s') \<Rightarrow> tk_end t' = 6 \<and>
       (case constructStringLiteral t' s' of
          Some (Inr t'') \<Rightarrow> tk_value t'' = AllocatedString (Some [10])
        | _ \<Rightarrow> False)"
  by code_simp

text \<open>
  A defect: in front of a supplementary character that starts an identifier, \<^verbatim>\<open>lex\<close> steps over the
  lead surrogate before the identifier is scanned. The identifiers U+20BB7 and U+203B7 are
  different, but the tokens for both consist of the trail surrogate only.
\<close>

lemma isIdentifierStart_in_range:
  assumes "in_range identRangeStart long_length (unat ch) i" "i < 532" "\<not> ch < 128"
  shows "isIdentifierStart ch"
  using assms range_search_iff [OF starts_ascending, of 532 long_length "unat ch" 0]
  by (auto simp: isIdentifierStart_def isIdentifierPartSlow_def table_sizes)

lemma identifier_start_examples: "isIdentifierStart 0xBB7" "isIdentifierStart 0x3B7"
proof -
  show "isIdentifierStart 0xBB7"
    by (rule isIdentifierStart_in_range [where i = 146])
      (simp_all add: in_range_def long_length_def identRangeStart_def identRangeLength_def IDENT_RANGE_LONG_def)
  show "isIdentifierStart 0x3B7"
    by (rule isIdentifierStart_in_range [where i = 19])
      (simp_all add: in_range_def long_length_def identRangeStart_def identRangeLength_def IDENT_RANGE_LONG_def)
qed

theorem supplementary_identifier_loses_lead:
  "\<forall>lead \<in> {0xD842, 0xD840}. \<exists>t' s'. lex demo_token (demo_source [lead, 0xDFB7]) = Inr (t', s')
     \<and> tk_type t' = IdentifierToken \<and> tk_value t' = StringRange 1 2"
proof -
  have "(ucast (U16_GET_SUPPLEMENTARY 0xD842 0xDFB7) :: u16) = 0xBB7"
    "(ucast (U16_GET_SUPPLEMENTARY 0xD840 0xDFB7) :: u16) = 0x3B7" "U16_IS_TRAIL 0xDFB7" by code_simp+
  then show ?thesis
    by (auto simp: lex_def demo_source_def scanner_init_def eof_def peekCharWithoutEOF_def sourceCharAt_def
        peekChar_def identifier_start_examples scanIdentifier_def getIdentifier_def plain_identifier_loop.simps
        setResult_range_def set_position_def Let_def)
qed

section \<open>Values of escapes and of binary literals\<close>

text \<open>\<open>text_at cs s\<close>: the text goes on with \<open>cs\<close>, within its length.\<close>

fun text_at :: "u16 list \<Rightarrow> scanner \<Rightarrow> bool" where
  "text_at [] s = True"
| "text_at (c # cs) s \<longleftrightarrow> \<not> eof s \<and> peekCharWithoutEOF s = c \<and> text_at cs (advance 1 s)"

fun hex_numeral :: "nat \<Rightarrow> u16 list \<Rightarrow> nat" where
  "hex_numeral n [] = n"
| "hex_numeral n (d # ds) = hex_numeral (n * 16 + unat (hexValue d)) ds"

fun binary_numeral :: "nat \<Rightarrow> u16 list \<Rightarrow> nat" where
  "binary_numeral n [] = n"
| "binary_numeral n (d # ds) = binary_numeral (n * 2 + (unat d - 48)) ds"

lemma code_point_digits_value:
  assumes "list_all isHexDigit ds" "\<not> isHexDigit c" "text_at (ds @ [c]) s"
  shows "code_point_digits (word_of_nat n) ch s =
    (word_of_nat (hex_numeral n ds), c, advance (length ds + 1) s)"
  using assms
proof (induction ds arbitrary: n ch s)
  case Nil
  then show ?case by (subst code_point_digits.simps) (simp add: Let_def)
next
  case (Cons d ds)
  have "(word_of_nat n * 16 + hexValue d :: u32) = word_of_nat (n * 16 + unat (hexValue d))" by simp
  then show ?case
    using Cons.prems Cons.IH [of "advance 1 s" "n * 16 + unat (hexValue d)" d]
    by (subst code_point_digits.simps) (simp add: Let_def advance_advance del: of_nat_add of_nat_mult)
qed

text \<open>
  The escape \<^verbatim>\<open>\\u{...}\<close> stands for the number its digits denote, computed modulo
  \<open>2 ^ 32\<close>; it is rejected when that remainder is above the last code point. Numerals
  behind \<open>2 ^ 32\<close> are therefore accepted when their remainder is small.
\<close>

theorem code_point_escape_value:
  assumes "ds \<noteq> []" "list_all isHexDigit ds" "text_at (ds @ [code (CHR ''}'')]) s"
  shows "scanUnicodeCodePointEscape s =
    (if hex_numeral 0 ds mod 2 ^ 32 \<le> 0x10FFFF
     then Inr (word_of_nat (hex_numeral 0 ds), advance (length ds + 1) s)
     else throwUnexpectedToken UnexpectedTokenIllegal (advance (length ds + 1) s))"
proof -
  have brace: "\<not> isHexDigit (code (CHR ''}''))" by code_simp
  have "hd ds \<noteq> code (CHR ''}'')" using assms(1, 2) brace by (cases ds) auto
  then have start: "\<not> (eof s \<or> peekCharWithoutEOF s = code (CHR ''}''))"
    using assms(1, 3) by (cases ds) auto
  have "(word_of_nat (hex_numeral 0 ds) :: u32) > 0x10FFFF \<longleftrightarrow> \<not> hex_numeral 0 ds mod 2 ^ 32 \<le> 0x10FFFF"
    by (simp add: word_less_nat_alt unat_of_nat not_le)
  then show ?thesis
    using start code_point_digits_value [OF assms(2) brace assms(3), of 0 0]
    by (simp add: scanUnicodeCodePointEscape_def)
qed

theorem code_point_escape_value_witness:
  "scanUnicodeCodePointEscape (demo_source (lit ''100000041}'')) =
     Inr (0x41, advance 10 (demo_source (lit ''100000041}'')))"
proof -
  have h: "hex_numeral 0 (lit ''100000041'') = 0x100000041"
    by (simp add: lit_def hexValue_def)
  have "text_at (lit ''100000041'' @ [code (CHR ''}'')]) (demo_source (lit ''100000041}''))"
    "list_all isHexDigit (lit ''100000041'')" by code_simp+
  moreover have "lit ''100000041'' \<noteq> []" by (simp add: lit_def)
  ultimately have "scanUnicodeCodePointEscape (demo_source (lit ''100000041}'')) =
      (if 0x100000041 mod 2 ^ 32 \<le> (0x10FFFF :: nat)
       then Inr (word_of_nat 0x100000041, advance (length (lit ''100000041'') + 1) (demo_source (lit ''100000041}'')))
       else throwUnexpectedToken UnexpectedTokenIllegal
         (advance (length (lit ''100000041'') + 1) (demo_source (lit ''100000041}''))))"
    using code_point_escape_value [of "lit ''100000041''"] unfolding h by blast
  moreover have "0x100000041 mod 2 ^ 32 \<le> (0x10FFFF :: nat)" "(word_of_nat 0x100000041 :: u32) = 0x41"
    "length (lit ''100000041'') + 1 = 10" by simp_all
  ultimately show ?thesis by (simp only: if_True)
qed

lemma scan_binary_loop_value:
  assumes "set ds \<subseteq> {code (CHR ''0''), code (CHR ''1'')}" "text_at ds s" "sc_length s = sc_index s + length ds"
  shows "scan_binary_loop (word_of_nat n) sc seen s =
    (word_of_nat (binary_numeral n ds), sc \<or> ds \<noteq> [], seen, advance (length ds) s)"
  using assms
proof (induction ds arbitrary: n sc s)
  case Nil
  then show ?case by (subst scan_binary_loop.simps) (simp add: eof_def advance_def)
next
  case (Cons d ds)
  have "unat d \<ge> 48" using Cons.prems(1) by auto
  then have "word_of_nat (unat d) = (word_of_nat (unat d - 48 + 48) :: u64)" by simp
  then have "(ucast d :: u64) = word_of_nat (unat d - 48) + 48" by simp
  then have "(push_bit 1 (word_of_nat n) + ucast d - of_char (CHR ''0'') :: u64)
      = word_of_nat (n * 2 + (unat d - 48))"
    by (simp add: push_bit_eq_mult)
  then show ?case
    using Cons.prems Cons.IH [of "advance 1 s" "n * 2 + (unat d - 48)" True]
    by (subst scan_binary_loop.simps) (auto simp: Let_def advance_advance simp del: of_nat_add of_nat_mult)
qed

text \<open>
  The value of a binary literal is accumulated in 64 bits: it is the number its digits
  denote modulo \<open>2 ^ 64\<close>, without the fallback to a double that hexadecimal literals have.
\<close>

theorem binary_literal_value:
  assumes "ds \<noteq> []" "set ds \<subseteq> {code (CHR ''0''), code (CHR ''1'')}" "text_at ds s"
    "sc_length s = sc_index s + length ds"
  shows "scanBinaryLiteral st t s =
    Inr (setNumericLiteralResult (OfUInt64 (word_of_nat (binary_numeral 0 ds))) (advance (length ds) s) st
      (sc_length s) False False t, advance (length ds) s)"
proof -
  have "eof (advance (length ds) s)" using assms(4) by (simp add: eof_def)
  then show ?thesis
    using scan_binary_loop_value [OF assms(2-4), of 0 False False] assms(1, 4)
    by (simp add: scanBinaryLiteral_def finish_literal_def Let_def)
qed

lemma text_at_demo: "i \<le> length text \<Longrightarrow> text_at (drop i text) (advance i (demo_source text))"
proof (induction "length text - i" arbitrary: i)
  case 0
  then show ?case by simp
next
  case (Suc n)
  then have i: "i < length text" by simp
  then have d: "drop i text = text ! i # drop (Suc i) text" by (simp add: Cons_nth_drop_Suc)
  have "text_at (drop (Suc i) text) (advance (Suc i) (demo_source text))"
    using Suc by simp
  then show ?case
    using i unfolding d
    by (simp add: advance_advance eof_def peekCharWithoutEOF_def sourceCharAt_def demo_source_def scanner_init_def)
qed

text \<open>A literal of 65 digits, whose value \<open>2 ^ 64\<close> is lost.\<close>

theorem binary_literal_value_witness:
  "scanBinaryLiteral 0 demo_token (demo_source (0x31 # replicate 64 0x30)) =
    Inr (setNumericLiteralResult (OfUInt64 0) (advance 65 (demo_source (0x31 # replicate 64 0x30)))
      0 65 False False demo_token, advance 65 (demo_source (0x31 # replicate 64 0x30)))"
proof -
  define ds where "ds = (0x31 :: u16) # replicate 64 0x30"
  have zeros: "binary_numeral n (replicate k 0x30) = n * 2 ^ k" for n k
    by (induction k arbitrary: n) auto
  have v: "binary_numeral 0 ds = 2 ^ 64"
    using zeros [of 1 64] by (simp add: ds_def)
  have len: "length ds = 65" by (simp add: ds_def)
  have "text_at ds (demo_source ds)" using text_at_demo [of 0 ds] by (simp add: advance_def)
  moreover have "set ds \<subseteq> {code (CHR ''0''), code (CHR ''1'')}" by (auto simp: ds_def)
  moreover have "sc_length (demo_source ds) = sc_index (demo_source ds) + length ds" "ds \<noteq> []"
    by (simp_all add: demo_source_def scanner_init_def ds_def)
  ultimately have "scanBinaryLiteral 0 demo_token (demo_source ds) =
      Inr (setNumericLiteralResult (OfUInt64 (word_of_nat (binary_numeral 0 ds))) (advance (length ds) (demo_source ds))
        0 (sc_length (demo_source ds)) False False demo_token, advance (length ds) (demo_source ds))"
    by (intro binary_literal_value)
  moreover have "(word_of_nat (2 ^ 64) :: u64) = 0" by simp
  moreover have "sc_length (demo_source ds) = 65"
    by (simp add: demo_source_def scanner_init_def len)
  ultimately show ?thesis by (simp only: v len ds_def [symmetric])
qed

text \<open>
  A defect: in a template the code point of the braced escape is appended as one 16-bit unit,
  so that U+1F600 is cooked to U+F600.
\<close>

theorem template_escape_truncates_code_point:
  "case template_escape (code (CHR ''u'')) (demo_source (lit ''{1F600}'')) of
     Inr (cooked, _) \<Rightarrow> cooked = [0xF600] | Inl _ \<Rightarrow> False"
  by code_simp

end
