(* ===== verification/C_Numbers.thy ===== *)
theory C_Numbers
  imports Esc_Prelude "HOL-Library.Signed_Division"
begin

text \<open>
  Arithmetic of C++ that the runtime relies on: signed integers of a fixed width, division that
  truncates, and quotients of doubles that are turned back into integers. A signed overflow is
  undefined in C++; it is written out here as the wrap-around of the usual targets, and the
  properties say on which inputs none occurs.
\<close>

section \<open>Signed integers\<close>

definition i32 :: "int \<Rightarrow> int" where "i32 x = signed_take_bit 31 x"

definition i64 :: "int \<Rightarrow> int" where "i64 x = signed_take_bit 63 x"

lemma i32_id: "- 2147483648 \<le> x \<Longrightarrow> x < 2147483648 \<Longrightarrow> i32 x = x"
  by (simp add: i32_def signed_take_bit_int_eq_self)

lemma i64_id: "- 9223372036854775808 \<le> x \<Longrightarrow> x < 9223372036854775808 \<Longrightarrow> i64 x = x"
  by (simp add: i64_def signed_take_bit_int_eq_self)

lemma sdiv_pos: "0 \<le> a \<Longrightarrow> 0 < b \<Longrightarrow> a sdiv b = a div (b :: int)"
  by (cases "a = 0") (simp_all add: signed_divide_int_def)

lemma smod_pos: "0 \<le> a \<Longrightarrow> 0 < b \<Longrightarrow> a smod b = a mod (b :: int)"
  by (cases "a = 0") (simp_all add: signed_modulo_int_def)

lemma sdiv_neg: "a < 0 \<Longrightarrow> 0 < b \<Longrightarrow> a sdiv b = - ((- a) div (b :: int))"
  by (simp add: signed_divide_int_def)

lemma smod_neg: "a < 0 \<Longrightarrow> 0 < b \<Longrightarrow> a smod b = - ((- a) mod (b :: int))"
  by (simp add: signed_modulo_int_def)

lemma smod_eq_0: "0 < b \<Longrightarrow> a smod b = 0 \<longleftrightarrow> a mod (b :: int) = 0"
  by (simp add: signed_modulo_int_def mod_eq_0_iff_dvd sgn_0_0) auto

text \<open>Truncating division of a number moved down by \<open>b - 1\<close> rounds down.\<close>

lemma sdiv_floor: "a < 0 \<Longrightarrow> 0 < b \<Longrightarrow> (a - (b - 1)) sdiv b = a div (b :: int)"
proof -
  assume a: "a < 0" and b: "0 < b"
  have "- (a - (b - 1)) = b - 1 - a" by simp
  moreover have "(b - 1 - a) div b = - (a div b)"
  proof -
    have m: "a = a div b * b + a mod b" by simp
    have "0 \<le> a mod b" "a mod b < b" using b by simp_all
    then have "0 \<le> b - 1 - a mod b" "b - 1 - a mod b < b" by simp_all
    moreover have "b - 1 - a = - (a div b) * b + (b - 1 - a mod b)" using m by (simp add: algebra_simps)
    ultimately show ?thesis using b by (metis add.right_neutral div_mult_self3 div_pos_pos_trivial less_irrefl add.commute)
  qed
  ultimately show ?thesis using a b by (simp add: sdiv_neg)
qed

lemma int_div_less: "0 < b \<Longrightarrow> a div b < c \<longleftrightarrow> a < c * (b :: int)"
proof
  assume b: "0 < b" and "a div b < c"
  then have "(a div b + 1) * b \<le> c * b" by (intro mult_right_mono) auto
  moreover have "a < (a div b + 1) * b"
    using b by (metis add_strict_left_mono distrib_right div_mult_mod_eq mult_1 pos_mod_bound)
  ultimately show "a < c * b" by simp
next
  assume b: "0 < b" and "a < c * b"
  then have "a div b * b < c * b"
    by (metis add_le_cancel_left add.right_neutral div_mult_mod_eq le_less_trans pos_mod_sign)
  with b show "a div b < c" by simp
qed

lemma int_le_div: "0 < b \<Longrightarrow> c \<le> a div b \<longleftrightarrow> c * b \<le> (a :: int)"
  using int_div_less [of b a c] by (simp flip: not_less)

section \<open>Quotients of doubles\<close>

text \<open>
  The quotient \<open>p / q\<close> of two positive numbers is rounded to a significand of 53 bits, a tie to
  the even one. \<open>scale p q 0\<close> is the least shift that brings the quotient to at least
  \<open>2 ^ 52\<close>; quotients of \<open>2 ^ 53\<close> and above, and subnormal ones, do not occur here.
\<close>

function scale :: "int \<Rightarrow> int \<Rightarrow> nat \<Rightarrow> nat" where
  "scale p q k = (if p \<le> 0 \<or> q \<le> 0 \<or> 2 ^ 52 * q \<le> p * 2 ^ k then k else scale p q (Suc k))"
  by pat_completeness auto

termination
  by (relation "measure (\<lambda>(p, q, k). nat (2 ^ 52 * q - p * 2 ^ k))") auto

declare scale.simps [simp del]

definition round_half_even :: "int \<Rightarrow> int \<Rightarrow> int" where
  "round_half_even n d =
     (let f = n div d; r = n mod d in if 2 * r < d \<or> 2 * r = d \<and> even f then f else f + 1)"

definition quotient_significand :: "int \<Rightarrow> int \<Rightarrow> int" where
  "quotient_significand p q = round_half_even (p * 2 ^ scale p q 0) q"

text \<open>The double \<open>p / q\<close> converted to an integer, which truncates, and its \<^verbatim>\<open>floor\<close>; \<open>0 < q\<close>.\<close>

definition double_div_trunc :: "int \<Rightarrow> int \<Rightarrow> int" where
  "double_div_trunc p q =
     (if p = 0 then 0 else sgn p * (quotient_significand \<bar>p\<bar> q div 2 ^ scale \<bar>p\<bar> q 0))"

definition double_div_floor :: "int \<Rightarrow> int \<Rightarrow> int" where
  "double_div_floor p q =
     (if p < 0 then - ((quotient_significand (- p) q + 2 ^ scale (- p) q 0 - 1) div 2 ^ scale (- p) q 0)
      else double_div_trunc p q)"

lemma scale_reaches: "0 < p \<Longrightarrow> 0 < q \<Longrightarrow> 2 ^ 52 * q \<le> p * 2 ^ scale p q k"
proof (induction p q k rule: scale.induct)
  case (1 p q k)
  then show ?case by (cases "2 ^ 52 * q \<le> p * 2 ^ k") (subst scale.simps, simp)+
qed

text \<open>For evaluation: the shift is found in steps of eight.\<close>

lemma scale_skip: "0 < p \<Longrightarrow> 0 < q \<Longrightarrow> p * 2 ^ (k + n) < 2 ^ 52 * q \<Longrightarrow> scale p q k = scale p q (k + n)"
proof (induction n)
  case (Suc n)
  have "p * 2 ^ (k + n) \<le> p * 2 ^ (k + Suc n)" using Suc.prems(1) by simp
  then have less: "p * 2 ^ (k + n) < 2 ^ 52 * q" using Suc.prems(3) by (rule le_less_trans)
  have "scale p q (k + n) = scale p q (Suc (k + n))" using Suc.prems(1, 2) less by (subst scale.simps) simp
  then show ?case using Suc.IH [OF Suc.prems(1, 2) less] by simp
qed simp

lemma scale_code [code]:
  "scale p q k =
     (if p \<le> 0 \<or> q \<le> 0 \<or> 2 ^ 52 * q \<le> p * 2 ^ k then k
      else if p * 2 ^ (k + 8) < 2 ^ 52 * q then scale p q (k + 8) else scale p q (Suc k))"
  using scale_skip [of p q k 8] scale.simps [of p q k] by auto

lemma round_half_even_error: "0 < d \<Longrightarrow> 2 * \<bar>round_half_even n d * d - n\<bar> \<le> d"
proof -
  assume d: "0 < d"
  have n: "n = n div d * d + n mod d" by simp
  have r: "0 \<le> n mod d" "n mod d < d" using d by simp_all
  have "round_half_even n d * d - n = - (n mod d) \<and> 2 * (n mod d) \<le> d
      \<or> round_half_even n d * d - n = d - n mod d \<and> d \<le> 2 * (n mod d)"
    using n by (auto simp: round_half_even_def Let_def algebra_simps)
  then show ?thesis using r by auto
qed

lemma round_half_even_ge: "0 < d \<Longrightarrow> n div d \<le> round_half_even n d"
  by (simp add: round_half_even_def Let_def)

lemma significand_error:
  assumes "0 < p" "0 < q"
  shows "2 * (quotient_significand p q * q) \<le> 2 * (p * 2 ^ scale p q 0) + q"
proof -
  have split: "2 * \<bar>a - b\<bar> \<le> q \<Longrightarrow> 2 * a \<le> 2 * b + q" for a b :: int by (cases "b \<le> a") auto
  show ?thesis unfolding quotient_significand_def by (rule split [OF round_half_even_error [OF assms(2)]])
qed

lemma floor_quotient_le:
  assumes "0 < p" "0 < q"
  shows "p div q \<le> quotient_significand p q div 2 ^ scale p q 0"
proof -
  let ?s = "2 ^ scale p q 0 :: int"
  have "p div q * ?s \<le> p * ?s div q"
  proof -
    have "p div q * q \<le> p" using assms by (metis add_le_cancel_left add.right_neutral div_mult_mod_eq pos_mod_sign)
    then have "p div q * ?s * q \<le> p * ?s" by (metis mult.assoc mult.commute mult_right_mono zero_le_power zero_le_numeral)
    then show ?thesis using assms by (metis nonzero_mult_div_cancel_right less_irrefl zdiv_mono1)
  qed
  also have "\<dots> \<le> quotient_significand p q"
    unfolding quotient_significand_def by (rule round_half_even_ge [OF assms(2)])
  finally show ?thesis by (metis nonzero_mult_div_cancel_right zdiv_mono1 zero_less_numeral zero_less_power less_irrefl)
qed

text \<open>
  Below \<open>2 ^ 53\<close> the rounding of a quotient of integers never crosses an integer, so that the
  integer part of the double is that of the exact quotient.
\<close>

lemma floor_quotient:
  assumes "0 < p" "p < 2 ^ 53" "0 < q"
  shows "quotient_significand p q div 2 ^ scale p q 0 = p div q"
proof (rule antisym)
  let ?s = "2 ^ scale p q 0 :: int" and ?m = "quotient_significand p q" and ?N = "p div q"
  have s: "0 < ?s" by simp
  have big: "2 ^ 52 * q \<le> p * ?s" using assms(1, 3) by (rule scale_reaches)
  have "p * ?s < 2 ^ 53 * ?s" using assms(2) s by (rule mult_strict_right_mono)
  with big have "2 ^ 52 * q < 2 ^ 53 * ?s" by (rule le_less_trans)
  then have q: "q < 2 * ?s" by simp
  have "p < (?N + 1) * q" using assms(3) by (metis div_mult_mod_eq mod_less pos_mod_bound add_strict_left_mono distrib_right mult_1)
  then have "p + 1 \<le> (?N + 1) * q" by simp
  then have "(p + 1) * ?s \<le> (?N + 1) * q * ?s" using s by (intro mult_right_mono) simp_all
  then have "2 * (p * ?s) + 2 * ?s \<le> 2 * ((?N + 1) * ?s) * q" by (simp add: algebra_simps)
  moreover have "2 * (?m * q) \<le> 2 * (p * ?s) + q" using assms(1, 3) by (rule significand_error)
  ultimately have "?m * q < (?N + 1) * ?s * q" using q by linarith
  then have "?m < (?N + 1) * ?s" using assms(3) by simp
  then show "?m div ?s \<le> ?N" using s by (simp add: int_div_less flip: zle_add1_eq_le)
qed (rule floor_quotient_le [OF assms(1, 3)])

lemma double_div_trunc_exact:
  assumes "\<bar>p\<bar> < 2 ^ 53" "0 < q"
  shows "double_div_trunc p q = p sdiv q"
  using assms floor_quotient [of "\<bar>p\<bar>" q]
  by (auto simp: double_div_trunc_def signed_divide_int_def)

text \<open>In general the integer part is off by one at most, and then upwards.\<close>

lemma floor_quotient_near:
  assumes "0 < p" "0 < q" "p < 2 ^ 52 * q"
  shows "quotient_significand p q div 2 ^ scale p q 0 \<in> {p div q, p div q + 1}"
    "(quotient_significand p q + 2 ^ scale p q 0 - 1) div 2 ^ scale p q 0 \<in> {p div q, p div q + 1}"
proof -
  let ?s = "2 ^ scale p q 0 :: int" and ?m = "quotient_significand p q" and ?N = "p div q"
  have s: "1 \<le> ?s" "0 < ?s" by simp_all
  have "p < (?N + 1) * q" using assms(2) by (metis div_mult_mod_eq mod_less pos_mod_bound add_strict_left_mono distrib_right mult_1)
  then have "p * ?s < (?N + 1) * q * ?s" using s by (intro mult_strict_right_mono)
  moreover have "2 * (?m * q) \<le> 2 * (p * ?s) + q" using assms(1, 2) by (rule significand_error)
  ultimately have "2 * (?m * q) < 2 * ((?N + 1) * q * ?s) + q" by linarith
  then have "(2 * ?m) * q < (2 * ((?N + 1) * ?s) + 1) * q" by (simp add: algebra_simps)
  then have "2 * ?m < 2 * ((?N + 1) * ?s) + 1" using assms(2) by (metis mult_less_cancel_right_pos)
  then have hi: "?m \<le> (?N + 1) * ?s" by linarith
  have lo: "?N * ?s \<le> ?m"
    using floor_quotient_le [OF assms(1, 2)] s(2) by (simp add: int_le_div)
  have d: "?N \<le> x div ?s \<and> x div ?s \<le> ?N + 1" if "?N * ?s \<le> x" "x < (?N + 2) * ?s" for x
    using that int_le_div [OF s(2), of ?N x] int_div_less [OF s(2), of x "?N + 2"] by simp
  have next_integer: "m \<le> (n + 1) * k \<Longrightarrow> 0 < k \<Longrightarrow> m < (n + 2) * k \<and> m + k - 1 < (n + 2) * k"
    for m n k :: int by (simp add: algebra_simps)
  note up = next_integer [OF hi s(2)]
  show "?m div ?s \<in> {?N, ?N + 1}" using d [OF lo] up by auto
  have "?N * ?s \<le> ?m + ?s - 1" using lo s(1) by linarith
  then show "(?m + ?s - 1) div ?s \<in> {?N, ?N + 1}" using d [of "?m + ?s - 1"] up by auto
qed

lemma round_half_even_lower: "0 < d \<Longrightarrow> 2 * n \<le> 2 * (round_half_even n d * d) + d"
proof -
  assume d: "0 < d"
  have split: "2 * \<bar>a - b\<bar> \<le> d \<Longrightarrow> 2 * b \<le> 2 * a + d" for a b :: int by (cases "b \<le> a") auto
  show ?thesis by (rule split [OF round_half_even_error [OF d]])
qed

text \<open>How close the integer part is to the exact quotient, up and down.\<close>

lemma floor_quotient_bounds:
  assumes "0 < p" "0 < q"
  defines "e \<equiv> quotient_significand p q div 2 ^ scale p q 0"
    and "c \<equiv> (quotient_significand p q + 2 ^ scale p q 0 - 1) div 2 ^ scale p q 0"
  shows "2 ^ 53 * (e * q) \<le> (2 ^ 53 + 1) * p" "p < (e + 1) * q"
    "2 ^ 53 * ((c - 1) * q) < (2 ^ 53 + 1) * p" "(2 ^ 53 - 1) * p \<le> 2 ^ 53 * (c * q)"
proof -
  define s where "s = (2 ^ scale p q 0 :: int)"
  define m where "m = quotient_significand p q"
  have s: "0 < s" by (simp add: s_def)
  have big: "2 ^ 52 * q \<le> p * s" unfolding s_def using assms(1, 2) by (rule scale_reaches)
  have up: "2 * (m * q) \<le> 2 * (p * s) + q" unfolding m_def s_def using assms(1, 2) by (rule significand_error)
  have low: "2 * (p * s) \<le> 2 * (m * q) + q"
    unfolding m_def s_def quotient_significand_def by (rule round_half_even_lower [OF assms(2)])
  have e: "e = m div s" "c = (m + s - 1) div s" by (simp_all add: e_def c_def m_def s_def)
  have "e * s \<le> m" using int_le_div [OF s, of e m] e(1) by simp
  then have "e * s * q \<le> m * q" using assms(2) by (simp add: mult_right_mono)
  then have "2 * (e * s * q) \<le> 2 * (p * s) + q" using up by linarith
  then have "2 ^ 53 * (e * q * s) \<le> (2 ^ 53 + 1) * p * s" using big by (simp add: algebra_simps)
  then have "2 ^ 53 * (e * q) * s \<le> (2 ^ 53 + 1) * p * s" by (simp add: mult.assoc)
  then show "2 ^ 53 * (e * q) \<le> (2 ^ 53 + 1) * p" using s by (rule mult_right_le_imp_le)
  show "p < (e + 1) * q"
    using floor_quotient_le [OF assms(1, 2)] int_div_less [OF assms(2), of p "e + 1"] by (simp add: e_def)
  have "\<not> c \<le> (m + s - 1) div s - 1" by (simp add: e(2))
  then have "(c - 1) * s < m"
    using int_le_div [OF s, of c "m + s - 1"] e(2) by (simp add: algebra_simps)
  then have "(c - 1) * s * q < m * q" using assms(2) by simp
  then have "2 * ((c - 1) * s * q) < 2 * (p * s) + q" using up by linarith
  then have "2 ^ 53 * ((c - 1) * q) * s < (2 ^ 53 + 1) * p * s" using big by (simp add: algebra_simps)
  then show "2 ^ 53 * ((c - 1) * q) < (2 ^ 53 + 1) * p" using s by simp
  have "m \<le> c * s"
    using int_div_less [OF s, of "m + s - 1" "c + 1"] e(2) by (simp add: algebra_simps)
  then have "m * q \<le> c * s * q" using assms(2) by (simp add: mult_right_mono)
  then have "2 * (p * s) \<le> 2 * (c * s * q) + q" using low by linarith
  then have "(2 ^ 53 - 1) * p * s \<le> 2 ^ 53 * (c * q) * s" using big by (simp add: algebra_simps)
  then show "(2 ^ 53 - 1) * p \<le> 2 ^ 53 * (c * q)" using s by (rule mult_right_le_imp_le)
qed

text \<open>The \<^verbatim>\<open>floor\<close> of a quotient of integers below \<open>2 ^ 53\<close> is exact, for negative ones too.\<close>

lemma double_div_floor_exact:
  assumes "\<bar>p\<bar> < 2 ^ 53" "0 < q"
  shows "double_div_floor p q = p div q"
proof (cases "p < 0")
  case False
  then show ?thesis
    using double_div_trunc_exact [OF assms] assms(2) by (simp add: double_div_floor_def sdiv_pos)
next
  case True
  define n c where "n = - p" and "c = (quotient_significand n q + 2 ^ scale n q 0 - 1) div 2 ^ scale n q 0"
  have n: "0 < n" "n < 2 ^ 53" using True assms(1) by (simp_all add: n_def)
  have b: "2 ^ 53 * ((c - 1) * q) < (2 ^ 53 + 1) * n" "(2 ^ 53 - 1) * n \<le> 2 ^ 53 * (c * q)"
    using floor_quotient_bounds (3, 4) [OF n(1) assms(2)] by (simp_all add: c_def)
  have "(c - 1) * q < n + 1"
  proof (rule ccontr)
    assume "\<not> (c - 1) * q < n + 1"
    then have "2 ^ 53 * (n + 1) \<le> 2 ^ 53 * ((c - 1) * q)" by simp
    then show False using b(1) n(2) by (simp add: algebra_simps)
  qed
  moreover have "(c - 1) * q \<noteq> n"
  proof
    assume "(c - 1) * q = n"
    then have "n * 2 ^ scale n q 0 = (c - 1) * 2 ^ scale n q 0 * q" by simp
    then have "quotient_significand n q = (c - 1) * 2 ^ scale n q 0"
      using assms(2) by (simp add: quotient_significand_def round_half_even_def)
    then have "c = ((c - 1) * 2 ^ scale n q 0 + (2 ^ scale n q 0 - 1)) div 2 ^ scale n q 0"
      by (simp add: c_def add_diff_eq)
    then show False by simp
  qed
  ultimately have lo: "(c - 1) * q < n" by simp
  have hi: "n \<le> c * q"
  proof (rule ccontr)
    assume "\<not> n \<le> c * q"
    then have "2 ^ 53 * (c * q) \<le> 2 ^ 53 * (n - 1)" by simp
    then show False using b(2) n(2) by (simp add: algebra_simps)
  qed
  have "p div q = - c"
  proof (rule antisym)
    show "p div q \<le> - c"
      using int_div_less [OF assms(2), of p "- c + 1"] lo by (simp add: n_def algebra_simps)
    show "- c \<le> p div q"
      using int_le_div [OF assms(2), of "- c" p] hi by (simp add: n_def algebra_simps)
  qed
  then show ?thesis using True by (simp add: double_div_floor_def c_def n_def)
qed

end
