(* ===== verification/Date_Arith.thy ===== *)
theory Date_Arith
  imports C_Numbers
begin

text \<open>
  The arithmetic of dates in \<^verbatim>\<open>runtime/DateObject.cpp\<close>: the static functions that turn a time
  value, in milliseconds from the start of 1970, into the fields of a date and back. Divisions by
  doubles are those of \<^verbatim>\<open>C_Numbers\<close>.
\<close>

section \<open>The code\<close>

abbreviation (input) msPerSecond :: int where "msPerSecond \<equiv> 1000"
abbreviation (input) msPerMinute :: int where "msPerMinute \<equiv> 60000"
abbreviation (input) msPerHour :: int where "msPerHour \<equiv> 3600000"
abbreviation (input) msPerDay :: int where "msPerDay \<equiv> 86400000"

definition MaximumDatePrimitiveValue :: int where
  "MaximumDatePrimitiveValue = 8640000000000000"

definition TIME64NAN :: int where
  "TIME64NAN = - 9223372036854775808"

definition IS_VALID_TIME :: "int \<Rightarrow> bool" where
  "IS_VALID_TIME t \<longleftrightarrow> t \<noteq> TIME64NAN"

definition IS_IN_TIME_RANGE :: "int \<Rightarrow> bool" where
  "IS_IN_TIME_RANGE t \<longleftrightarrow> t \<le> MaximumDatePrimitiveValue \<and> t \<ge> - MaximumDatePrimitiveValue"

definition daysInMonth :: "int list" where
  "daysInMonth = [31, 28, 31, 30, 31, 30, 31, 31, 30, 31, 30, 31]"

primrec firstDay :: "nat \<Rightarrow> int" where
  "firstDay 0 = 0"
| "firstDay (Suc mon) = firstDay mon + daysInMonth ! mon"

definition firstDayOfMonth :: "bool \<Rightarrow> int list" where
  "firstDayOfMonth leap = map (\<lambda>i. firstDay i + (if leap \<and> 2 \<le> i then 1 else 0)) [0..<13]"

definition monthNumberHelper :: "int list" where
  "monthNumberHelper = [31, 59, 90, 120, 151, 181, 212, 243, 273, 304, 334, 365]"

definition daysInYear :: "int \<Rightarrow> int" where
  "daysInYear year =
     (if year smod 4 \<noteq> 0 then 365 else if year smod 100 \<noteq> 0 then 366
      else if year smod 400 \<noteq> 0 then 365 else 366)"

definition inLeapYear :: "int \<Rightarrow> bool" where
  "inLeapYear year \<longleftrightarrow> daysInYear year - 365 \<noteq> 0"

definition daysFromYear :: "int \<Rightarrow> int" where
  "daysFromYear year =
     (if year \<ge> 1970 then
        i32 (365 * (year - 1970) + (year - 1969) sdiv 4 - (year - 1901) sdiv 100 + (year - 1601) sdiv 400)
      else
        i32 (i32 (365 * i32 (year - 1970)) + double_div_floor (i32 (year - 1969)) 4
             - double_div_floor (i32 (year - 1901)) 100 + double_div_floor (i32 (year - 1601)) 400))"

definition timeFromYear :: "int \<Rightarrow> int" where
  "timeFromYear year = i64 (msPerDay * daysFromYear year)"

definition daysFromMonth :: "int \<Rightarrow> nat \<Rightarrow> int" where
  "daysFromMonth year month = firstDayOfMonth (inLeapYear year) ! month"

definition daysToMs :: "int \<Rightarrow> nat \<Rightarrow> int \<Rightarrow> int" where
  "daysToMs year month date =
     (let t = i64 (timeFromYear year + daysFromMonth year month * msPerDay) in i64 (t + (date - 1) * msPerDay))"

definition timeinfoToMs :: "int \<Rightarrow> nat \<Rightarrow> int \<Rightarrow> int \<Rightarrow> int \<Rightarrow> int \<Rightarrow> int \<Rightarrow> int" where
  "timeinfoToMs year mon day hour minute second millisecond =
     i64 (daysToMs year mon day + hour * msPerHour + minute * msPerMinute + i64 (second * msPerSecond) + millisecond)"

text \<open>The double nearest to \<open>365.2425\<close> is \<open>6425414011327611 / 2 ^ 44\<close>.\<close>

definition year_estimate :: "int \<Rightarrow> int" where
  "year_estimate t = double_div_floor (t sdiv msPerDay * 2 ^ 44) 6425414011327611 + 1970"

definition yearFromTime :: "int \<Rightarrow> int" where
  "yearFromTime t =
     (let estimate = year_estimate t;
          yearAsMs = daysToMs estimate 0 1;
          estimate = (if yearAsMs > t then estimate - 1 else estimate)
      in if yearAsMs + daysInYear estimate * msPerDay \<le> t then estimate + 1 else estimate)"

definition daysFromTime :: "int \<Rightarrow> int" where
  "daysFromTime t = double_div_trunc (if t < 0 then t - (msPerDay - 1) else t) msPerDay"

definition weekDay :: "int \<Rightarrow> int" where
  "weekDay t = (daysFromTime t + 4) smod 7"

text \<open>
  The binary search of \<^verbatim>\<open>monthFromTime\<close>. Its test reads the element before the middle one; for
  the middle 0 this is memory outside the table, of value \<open>before\<close>.
\<close>

definition helper_before :: "int \<Rightarrow> nat \<Rightarrow> int" where
  "helper_before before m = (case m of 0 \<Rightarrow> before | Suc k \<Rightarrow> monthNumberHelper ! k)"

partial_function (option) month_search :: "int \<Rightarrow> int \<Rightarrow> int \<Rightarrow> int \<Rightarrow> int option" where
  "month_search before day l r =
     (let m = l + (r - l) sdiv 2 in
      if monthNumberHelper ! nat m \<ge> day \<and> helper_before before (nat m) < day
      then Some (m + (if monthNumberHelper ! nat m = day then 1 else 0))
      else if monthNumberHelper ! nat m < day then month_search before day (m + 1) r
      else month_search before day l (m - 1))"

definition monthFromTime :: "int \<Rightarrow> int \<Rightarrow> int option" where
  "monthFromTime before t =
     (let year = yearFromTime t; day = daysFromTime t - daysFromYear year in
      if day < 31 then Some 0
      else month_search before (day - (if inLeapYear year then 1 else 0)) 0 10)"

definition dateFromTime :: "int \<Rightarrow> int \<Rightarrow> int option" where
  "dateFromTime before t =
     (let leap = (if inLeapYear (yearFromTime t) then 1 else 0);
          dayWithinYear = daysFromTime t - daysFromYear (yearFromTime t) in
      case monthFromTime before t of
        None \<Rightarrow> None
      | Some monthNumber \<Rightarrow>
          Some (if monthNumber = 0 then dayWithinYear + 1
                else if monthNumber = 1 then dayWithinYear - (monthNumberHelper ! 0 - 1)
                else dayWithinYear - (monthNumberHelper ! nat (monthNumber - 1) - 1) - leap))"

definition hourFromTime :: "int \<Rightarrow> int" where
  "hourFromTime t =
     (if t \<ge> 0 then i32 (t sdiv msPerHour smod 24)
      else let hours = i32 ((t - (msPerHour - 1)) sdiv msPerHour smod 24) in if hours = 0 then 0 else 24 + hours)"

definition minFromTime :: "int \<Rightarrow> int" where
  "minFromTime t =
     (if t \<ge> 0 then i32 (t sdiv msPerMinute smod 60)
      else let minutes = i32 ((t - (msPerMinute - 1)) sdiv msPerMinute smod 60) in
        if minutes = 0 then 0 else 60 + minutes)"

text \<open>For times before 1970 the number of seconds is cut to 32 bits before the remainder is taken.\<close>

definition secFromTime :: "int \<Rightarrow> int" where
  "secFromTime t =
     (if t \<ge> 0 then i32 (t sdiv msPerSecond smod 60)
      else let seconds = i32 ((t - (msPerSecond - 1)) sdiv msPerSecond) smod 60 in
        if seconds = 0 then 0 else 60 + seconds)"

definition msFromTime :: "int \<Rightarrow> int" where
  "msFromTime t =
     (let milliseconds = i32 (t smod msPerSecond) in
      if milliseconds \<ge> 0 then milliseconds else msPerSecond + milliseconds)"

text \<open>
  The year, month and day of the month. The month stays \<open>old\<close> when the loop over the months finds
  none.
\<close>

definition getYMDFromTime :: "nat \<Rightarrow> int \<Rightarrow> int \<times> nat \<times> int" where
  "getYMDFromTime old t =
     (let estimate = year_estimate t;
          yearAsMs = daysToMs estimate 0 1;
          estimate = (if yearAsMs > t then estimate - 1 else estimate);
          year = (if yearAsMs + daysInYear estimate * msPerDay \<le> t then estimate + 1 else estimate);
          dayWithinYear = daysFromTime t - daysFromYear year;
          leap = inLeapYear year;
          month = (case find (\<lambda>i. dayWithinYear < firstDayOfMonth leap ! i) [1..<13] of
                     Some i \<Rightarrow> i - 1 | None \<Rightarrow> old)
      in (year, month, dayWithinYear + 1 - firstDayOfMonth leap ! month))"

definition equivalentYearForDST :: "int \<Rightarrow> int" where
  "equivalentYearForDST year =
     (if year > 2037 then year + (2010 - year) sdiv 28 * 28
      else if year < 2010 then year + (2037 - year) sdiv 28 * 28
      else year)"

section \<open>Years\<close>

text \<open>The day on which a year of the Gregorian calendar starts, counted from the start of 1970.\<close>

definition year_day :: "int \<Rightarrow> int" where
  "year_day y = 365 * (y - 1970) + (y - 1969) div 4 - (y - 1901) div 100 + (y - 1601) div 400"

definition leap_year :: "int \<Rightarrow> bool" where
  "leap_year y \<longleftrightarrow> 4 dvd y \<and> (\<not> 100 dvd y \<or> 400 dvd y)"

lemma daysInYear_leap: "daysInYear y = (if leap_year y then 366 else 365)"
proof -
  have chain: "100 dvd y \<longrightarrow> 4 dvd y" "400 dvd y \<longrightarrow> 100 dvd y" by (auto elim: dvd_trans [rotated])
  have "(if \<not> p then 365 else if \<not> q then 366 else if \<not> r then 365 else 366) =
      (if p \<and> (\<not> q \<or> r) then 366 else 365 :: int)" if "q \<longrightarrow> p" "r \<longrightarrow> q" for p q r
    using that by (cases p; cases q; cases r) simp_all
  from this [OF chain] show ?thesis
    unfolding daysInYear_def leap_year_def by (simp only: smod_eq_0 mod_eq_0_iff_dvd zero_less_numeral)
qed

lemma inLeapYear_iff [simp]: "inLeapYear y \<longleftrightarrow> leap_year y"
  by (simp add: inLeapYear_def daysInYear_leap)

lemma year_day_bounds:
  "3652425 * (y - 1970) - 12650 \<le> 10000 * year_day y" "10000 * year_day y \<le> 3652425 * (y - 1970) + 14725"
proof -
  define a b c where "a = (y - 1969) div 4" and "b = (y - 1901) div 100" and "c = (y - 1601) div 400"
  have div_bounds: "k * (n div k) \<le> n" "n < k * (n div k) + k" if "0 < k" for n k :: int
    using that pos_mod_sign [of k n] pos_mod_bound [of k n] mult_div_mod_eq [of k n] by linarith+
  have parts: "4 * a \<le> y - 1969" "y - 1969 < 4 * a + 4" "100 * b \<le> y - 1901" "y - 1901 < 100 * b + 100"
    "400 * c \<le> y - 1601" "y - 1601 < 400 * c + 400"
    unfolding a_def b_def c_def by (rule div_bounds; simp)+
  have d: "year_day y = 365 * (y - 1970) + a - b + c" by (simp add: year_day_def a_def b_def c_def)
  show "3652425 * (y - 1970) - 12650 \<le> 10000 * year_day y" using parts by (simp add: d)
  show "10000 * year_day y \<le> 3652425 * (y - 1970) + 14725" using parts by (simp add: d)
qed

lemma daysFromYear_year_day: "\<bar>y\<bar> \<le> 1000000 \<Longrightarrow> daysFromYear y = year_day y"
proof -
  assume y: "\<bar>y\<bar> \<le> 1000000"
  have small: "i32 (y - 1970) = y - 1970" "i32 (y - 1969) = y - 1969" "i32 (y - 1901) = y - 1901"
    "i32 (y - 1601) = y - 1601" "i32 (365 * (y - 1970)) = 365 * (y - 1970)" "i32 (year_day y) = year_day y"
    using y year_day_bounds [of y] by (auto intro!: i32_id)
  show ?thesis
  proof (cases "1970 \<le> y")
    case True
    then have "daysFromYear y = i32 (year_day y)" by (simp add: daysFromYear_def year_day_def sdiv_pos)
    then show ?thesis using small by simp
  next
    case False
    have "double_div_floor (y - 1969) 4 = (y - 1969) div 4"
      "double_div_floor (y - 1901) 100 = (y - 1901) div 100"
      "double_div_floor (y - 1601) 400 = (y - 1601) div 400"
      using y by (auto intro!: double_div_floor_exact)
    then have "daysFromYear y = i32 (year_day y)"
      using False by (simp only: daysFromYear_def small year_day_def if_False)
    then show ?thesis using small by simp
  qed
qed

lemma div_plus_one: "0 < b \<Longrightarrow> (a + 1) div b = a div b + (if b dvd a + 1 then 1 else 0)" for a b :: int
proof -
  assume b: "0 < b"
  define q r where "q = a div b" and "r = a mod b"
  have a: "a = q * b + r" "0 \<le> r" "r < b" using b by (simp_all add: q_def r_def)
  show ?thesis
  proof (cases "r + 1 = b")
    case True
    then have "a + 1 = (q + 1) * b" using a by (simp add: algebra_simps)
    then show ?thesis using b by (simp flip: q_def)
  next
    case False
    then have r: "0 \<le> r + 1" "r + 1 < b" using a by simp_all
    have "a + 1 = (r + 1) + q * b" using a by simp
    then have "(a + 1) div b = q" "(a + 1) mod b = r + 1"
      using b r div_mult_self1 [of b "r + 1" q] mod_mult_self1 [of "r + 1" q b] by (simp_all only:) simp_all
    then show ?thesis using a(2) by (auto simp: dvd_eq_mod_eq_0 simp flip: q_def)
  qed
qed

lemma year_day_Suc: "year_day (y + 1) = year_day y + daysInYear y"
proof -
  have shift: "k dvd y - n \<longleftrightarrow> k dvd y" if "k dvd n" for k n :: int
    using that by (metis diff_add_cancel dvd_add_left_iff)
  have "4 dvd y - 1968 \<longleftrightarrow> 4 dvd y" "100 dvd y - 1900 \<longleftrightarrow> 100 dvd y" "400 dvd y - 1600 \<longleftrightarrow> 400 dvd y"
    by (rule shift; simp)+
  then have parts: "(y + 1 - 1969) div 4 = (y - 1969) div 4 + (if 4 dvd y then 1 else 0)"
    "(y + 1 - 1901) div 100 = (y - 1901) div 100 + (if 100 dvd y then 1 else 0)"
    "(y + 1 - 1601) div 400 = (y - 1601) div 400 + (if 400 dvd y then 1 else 0)"
    using div_plus_one [of 4 "y - 1969"] div_plus_one [of 100 "y - 1901"] div_plus_one [of 400 "y - 1601"]
    by simp_all
  have chain: "100 dvd y \<longrightarrow> 4 dvd y" "400 dvd y \<longrightarrow> 100 dvd y" by (auto elim: dvd_trans [rotated])
  have count: "(if p then 1 else 0) - (if q then 1 else 0) + (if r then 1 else 0) =
      (if p \<and> (\<not> q \<or> r) then 1 else 0 :: int)" if "q \<longrightarrow> p" "r \<longrightarrow> q" for p q r
    using that by (cases p; cases q; cases r) simp_all
  have "year_day (y + 1) - year_day y =
      365 + ((if 4 dvd y then 1 else 0) - (if 100 dvd y then 1 else 0) + (if 400 dvd y then 1 else 0))"
    unfolding year_day_def parts by simp
  also have "\<dots> = 365 + (if leap_year y then 1 else 0)"
    unfolding count [OF chain] leap_year_def by (rule refl)
  also have "\<dots> = daysInYear y" by (simp add: daysInYear_leap)
  finally show ?thesis by simp
qed

text \<open>The estimate of the year is computed in doubles; it is off by one year at most.\<close>

lemma estimate_near:
  assumes "\<bar>n\<bar> \<le> 101000000"
  defines "e \<equiv> double_div_floor (n * 2 ^ 44) 6425414011327611"
  shows "3652425 * e \<le> 10000 * n + 3600000" "10000 * n \<le> 3652425 * e + 3660000"
proof -
  have "3652425 * e \<le> 10000 * n + 3600000 \<and> 10000 * n \<le> 3652425 * e + 3660000"
  proof (cases "n = 0 \<or> n < 0")
    case False
    then have p: "0 < n * 2 ^ 44" by simp
    have "e = quotient_significand (n * 2 ^ 44) 6425414011327611 div 2 ^ scale (n * 2 ^ 44) 6425414011327611 0"
      using p by (simp add: e_def double_div_floor_def double_div_trunc_def)
    then have "2 ^ 53 * (e * 6425414011327611) \<le> (2 ^ 53 + 1) * (n * 2 ^ 44)" "n * 2 ^ 44 < (e + 1) * 6425414011327611"
      using floor_quotient_bounds (1, 2) [OF p, of 6425414011327611] by simp_all
    then have "1096603991266578944 * e \<le> 3002399751580331 * n" "17592186044416 * n < 6425414011327611 * e + 6425414011327611"
      by simp_all
    moreover have "n \<le> 101000000" "0 \<le> n" using assms(1) False by simp_all
    ultimately show ?thesis by (simp; linarith)
  next
    case True
    show ?thesis
    proof (cases "n = 0")
      case False
      then have p: "0 < - n * 2 ^ 44" using True by simp
      define c where "c = - e"
      have "c = (quotient_significand (- n * 2 ^ 44) 6425414011327611 + 2 ^ scale (- n * 2 ^ 44) 6425414011327611 0 - 1)
          div 2 ^ scale (- n * 2 ^ 44) 6425414011327611 0"
        using p by (simp add: c_def e_def double_div_floor_def)
      then have "2 ^ 53 * ((c - 1) * 6425414011327611) < (2 ^ 53 + 1) * (- n * 2 ^ 44)"
        "(2 ^ 53 - 1) * (- n * 2 ^ 44) \<le> 2 ^ 53 * (c * 6425414011327611)"
        using floor_quotient_bounds (3, 4) [OF p, of 6425414011327611] by simp_all
      then have "1096603991266578944 * (c - 1) < - 3002399751580331 * n"
        "- 9007199254740991 * 17592186044416 * n \<le> 9007199254740992 * 6425414011327611 * c" by simp_all
      moreover have "- 101000000 \<le> n" "n \<le> 0" using assms(1) True by auto
      ultimately show ?thesis by (simp add: c_def; linarith)
    qed (simp add: e_def double_div_floor_def double_div_trunc_def)
  qed
  then show "3652425 * e \<le> 10000 * n + 3600000" "10000 * n \<le> 3652425 * e + 3660000" by simp_all
qed

text \<open>
  Time values are at most \<open>8.64e15\<close>; a local time may be a little outside.
\<close>

definition near_range :: "int \<Rightarrow> bool" where
  "near_range t \<longleftrightarrow> \<bar>t\<bar> \<le> 8650000000000000"

lemma in_range_near: "IS_IN_TIME_RANGE t \<Longrightarrow> near_range t"
  by (auto simp: IS_IN_TIME_RANGE_def MaximumDatePrimitiveValue_def near_range_def)

lemma daysFromTime_floor: "near_range t \<Longrightarrow> daysFromTime t = t div msPerDay"
proof -
  assume "near_range t"
  then have "\<bar>if t < 0 then t - (msPerDay - 1) else t\<bar> < 2 ^ 53" by (auto simp: near_range_def)
  then have "daysFromTime t = (if t < 0 then t - (msPerDay - 1) else t) sdiv msPerDay"
    unfolding daysFromTime_def by (rule double_div_trunc_exact) simp
  then show ?thesis using sdiv_floor [of t msPerDay] by (simp add: sdiv_pos)
qed

lemma month_day_bounds: "m < 13 \<Longrightarrow> 0 \<le> firstDayOfMonth leap ! m \<and> firstDayOfMonth leap ! m \<le> 366"
proof -
  have "list_all (\<lambda>m. list_all (\<lambda>leap. 0 \<le> firstDayOfMonth leap ! m \<and> firstDayOfMonth leap ! m \<le> 366) [False, True])
      [0..<13]" by code_simp
  then show "m < 13 \<Longrightarrow> ?thesis" by (cases leap) (auto simp: list_all_iff)
qed

lemma year_day_mono: "y < z \<Longrightarrow> year_day y + 365 * (z - y) \<le> year_day z"
proof (induction "nat (z - y)" arbitrary: z)
  case (Suc n)
  show ?case
  proof (cases "y = z - 1")
    case True
    then show ?thesis using year_day_Suc [of y] by (simp add: daysInYear_leap)
  next
    case False
    then have "year_day y + 365 * (z - 1 - y) \<le> year_day (z - 1)" using Suc(1) [of "z - 1"] Suc(2, 3) False by simp
    then show ?thesis using year_day_Suc [of "z - 1"] by (auto simp: daysInYear_leap split: if_splits)
  qed
qed simp

lemma daysToMs_eq:
  assumes "\<bar>y\<bar> \<le> 1000000" "m < 12" "\<bar>d\<bar> \<le> 2147483648"
  shows "daysToMs y m d = (year_day y + firstDayOfMonth (leap_year y) ! m + d - 1) * msPerDay"
proof -
  have b: "\<bar>year_day y\<bar> \<le> 1000000000"
    using year_day_bounds [of y] assms(1) by auto
  define f where "f = firstDayOfMonth (leap_year y) ! m"
  have f: "0 \<le> f" "f \<le> 366" using month_day_bounds [of m "leap_year y"] assms(2) by (simp_all add: f_def)
  have "timeFromYear y = msPerDay * year_day y"
    unfolding timeFromYear_def daysFromYear_year_day [OF assms(1)] using b by (intro i64_id) auto
  moreover have "i64 (msPerDay * year_day y + f * msPerDay) = msPerDay * year_day y + f * msPerDay"
    "i64 (msPerDay * year_day y + f * msPerDay + (d - 1) * msPerDay) = msPerDay * year_day y + f * msPerDay + (d - 1) * msPerDay"
    using b f assms(3) by (intro i64_id; simp)+
  ultimately show ?thesis by (simp add: daysToMs_def daysFromMonth_def f_def [symmetric] algebra_simps)
qed

lemma year_estimate_near:
  assumes "near_range t"
  defines "y \<equiv> year_estimate t" and "d \<equiv> t div msPerDay"
  shows "year_day (y - 1) \<le> d" "d < year_day (y + 2)" "\<bar>y\<bar> \<le> 280000"
proof -
  define n where "n = t sdiv msPerDay"
  have n: "\<bar>n\<bar> \<le> 101000000"
  proof -
    have "\<bar>t\<bar> div msPerDay \<le> 8650000000000000 div msPerDay"
      using assms(1) by (intro zdiv_mono1) (auto simp: near_range_def)
    moreover have "\<bar>n\<bar> \<le> \<bar>t\<bar> div msPerDay"
      by (cases "0 \<le> t") (auto simp: n_def sdiv_pos sdiv_neg abs_if pos_imp_zdiv_nonneg_iff)
    ultimately show ?thesis by simp
  qed
  have d: "d \<le> n" "n \<le> d + 1"
    by (simp_all add: d_def n_def signed_divide_int_eq_divide_int)
  define e where "e = y - 1970"
  have e: "3652425 * e \<le> 10000 * n + 3600000" "10000 * n \<le> 3652425 * e + 3660000"
    using estimate_near [OF n] by (simp_all add: e_def y_def year_estimate_def n_def)
  show "year_day (y - 1) \<le> d" using year_day_bounds(2) [of "y - 1"] e d by (simp add: e_def)
  show "d < year_day (y + 2)" using year_day_bounds(1) [of "y + 2"] e d by (simp add: e_def)
  show "\<bar>y\<bar> \<le> 280000" using e n by (simp add: e_def)
qed

lemma yearFromTime_spec:
  assumes "near_range t"
  shows "year_day (yearFromTime t) \<le> t div msPerDay" "t div msPerDay < year_day (yearFromTime t + 1)"
    "\<bar>yearFromTime t\<bar> \<le> 300000"
proof -
  note near = year_estimate_near [OF assms]
  let ?y = "year_estimate t" and ?d = "t div msPerDay"
  have ms: "daysToMs ?y 0 1 = year_day ?y * msPerDay"
    using daysToMs_eq [of ?y 0 1] near(3) by (simp add: firstDayOfMonth_def upt_rec)
  have le: "k * msPerDay \<le> t \<longleftrightarrow> k \<le> ?d" for k by (rule int_le_div [symmetric]) simp
  have cmp: "t < k * msPerDay \<longleftrightarrow> ?d < k" for k by (rule int_div_less [symmetric]) simp
  have "year_day (yearFromTime t) \<le> ?d \<and> ?d < year_day (yearFromTime t + 1) \<and> \<bar>yearFromTime t\<bar> \<le> 300000"
  proof (cases "?d < year_day ?y")
    case True
    then have "yearFromTime t = ?y - 1"
      using cmp [of "year_day ?y"] ms by (auto simp: yearFromTime_def Let_def daysInYear_leap)
    then show ?thesis using near True by simp
  next
    case False
    have s: "year_day (?y + 1) = year_day ?y + daysInYear ?y" by (rule year_day_Suc)
    have "yearFromTime t = (if ?d < year_day (?y + 1) then ?y else ?y + 1)"
      using cmp [of "year_day ?y"] le [of "year_day (?y + 1)"] ms False
      by (auto simp: yearFromTime_def Let_def s distrib_right)
    then show ?thesis using near False by (auto simp: not_less algebra_simps)
  qed
  then show "year_day (yearFromTime t) \<le> ?d" "?d < year_day (yearFromTime t + 1)" "\<bar>yearFromTime t\<bar> \<le> 300000"
    by simp_all
qed

lemma year_unique:
  assumes "year_day y \<le> d" "d < year_day (y + 1)" "year_day z \<le> d" "d < year_day (z + 1)"
  shows "y = z"
proof (rule ccontr)
  assume "y \<noteq> z"
  then consider "y + 1 \<le> z" | "z + 1 \<le> y" by linarith
  then show False
  proof cases
    case 1
    then have "year_day (y + 1) \<le> year_day z" using year_day_mono [of "y + 1" z] by (cases "y + 1 = z") auto
    then show False using assms by simp
  next
    case 2
    then have "year_day (z + 1) \<le> year_day y" using year_day_mono [of "z + 1" y] by (cases "z + 1 = y") auto
    then show False using assms by simp
  qed
qed

section \<open>Months and days\<close>

definition month_length :: "int \<Rightarrow> nat \<Rightarrow> int" where
  "month_length y m = (if m = 1 \<and> leap_year y then 29 else daysInMonth ! m)"

definition valid_date :: "int \<Rightarrow> nat \<Rightarrow> int \<Rightarrow> bool" where
  "valid_date y m d \<longleftrightarrow> m < 12 \<and> 1 \<le> d \<and> d \<le> month_length y m"

lemma month_table:
  "m < 12 \<Longrightarrow> firstDayOfMonth (leap_year y) ! Suc m = firstDayOfMonth (leap_year y) ! m + month_length y m"
  "m < 12 \<Longrightarrow> 28 \<le> month_length y m" "firstDayOfMonth leap ! 0 = 0"
  "firstDayOfMonth (leap_year y) ! 12 = daysInYear y"
proof -
  have "list_all (\<lambda>leap. list_all (\<lambda>m. firstDayOfMonth leap ! Suc m = firstDayOfMonth leap ! m
        + (if m = 1 \<and> leap then 29 else daysInMonth ! m) \<and> 28 \<le> daysInMonth ! m) [0..<12]
      \<and> firstDayOfMonth leap ! 0 = 0 \<and> firstDayOfMonth leap ! 12 = (if leap then 366 else 365)) [False, True]"
    by code_simp
  then show "m < 12 \<Longrightarrow> firstDayOfMonth (leap_year y) ! Suc m = firstDayOfMonth (leap_year y) ! m + month_length y m"
    "m < 12 \<Longrightarrow> 28 \<le> month_length y m" "firstDayOfMonth leap ! 0 = 0"
    "firstDayOfMonth (leap_year y) ! 12 = daysInYear y"
    by (cases "leap_year y"; cases leap; auto simp: list_all_iff month_length_def daysInYear_leap)+
qed

lemma first_day_mono:
  "m < n \<Longrightarrow> n \<le> 12 \<Longrightarrow> firstDayOfMonth (leap_year y) ! m < firstDayOfMonth (leap_year y) ! n"
proof (induction n)
  case (Suc n)
  then show ?case using month_table(1, 2) [of n y] by (cases "m = n") auto
qed simp

lemma month_found:
  assumes "0 \<le> d" "d < daysInYear y"
  obtains m where "find (\<lambda>i. d < firstDayOfMonth (leap_year y) ! i) [1..<13] = Some (Suc m)" "m < 12"
    "firstDayOfMonth (leap_year y) ! m \<le> d" "d < firstDayOfMonth (leap_year y) ! Suc m"
proof -
  let ?F = "firstDayOfMonth (leap_year y)" and ?P = "\<lambda>i. d < firstDayOfMonth (leap_year y) ! i"
  have "?P 12" using assms month_table(4) [of y] by simp
  then have "find ?P [1..<13] \<noteq> None" by (auto simp: find_None_iff intro!: exI [of _ 12])
  then obtain i where i: "find ?P [1..<13] = Some i" by blast
  then obtain k where k: "k < length [1..<13]" "?P ([1..<13] ! k)" "i = [1..<13] ! k"
    "\<forall>j<k. \<not> ?P ([1..<13] ! j)" by (auto simp: find_Some_iff)
  have b: "k < 12" "i = Suc k" using k by auto
  have "?F ! k \<le> d"
  proof (cases k)
    case 0
    then show ?thesis using assms(1) by (simp add: month_table(3))
  next
    case (Suc j)
    then have "\<not> ?P ([1..<13] ! j)" using k(4) by simp
    then show ?thesis using Suc b(1) by simp
  qed
  then show ?thesis using that [of k] i b k by simp
qed

lemma month_unique:
  assumes "m < 12" "n < 12" "firstDayOfMonth (leap_year y) ! m \<le> d" "d < firstDayOfMonth (leap_year y) ! Suc m"
    "firstDayOfMonth (leap_year y) ! n \<le> d" "d < firstDayOfMonth (leap_year y) ! Suc n"
  shows "m = n"
proof (rule ccontr)
  have mono: "firstDayOfMonth (leap_year y) ! a \<le> firstDayOfMonth (leap_year y) ! b" if "a \<le> b" "b \<le> 12" for a b
    using first_day_mono [of a b y] that by (cases "a = b") auto
  assume "m \<noteq> n"
  then consider "Suc m \<le> n" | "Suc n \<le> m" by linarith
  then show False using mono [of "Suc m" n] mono [of "Suc n" m] assms by cases auto
qed

lemma getYMDFromTime_eq:
  "getYMDFromTime old t =
     (let year = yearFromTime t; day = daysFromTime t - daysFromYear year;
          month = (case find (\<lambda>i. day < firstDayOfMonth (leap_year year) ! i) [1..<13] of Some i \<Rightarrow> i - 1 | None \<Rightarrow> old)
      in (year, month, day + 1 - firstDayOfMonth (leap_year year) ! month))"
  by (simp add: getYMDFromTime_def yearFromTime_def Let_def)

lemma ymd_spec:
  assumes "near_range t"
  shows "\<exists>m d. getYMDFromTime old t = (yearFromTime t, m, d) \<and> valid_date (yearFromTime t) m d
    \<and> t div msPerDay = year_day (yearFromTime t) + firstDayOfMonth (leap_year (yearFromTime t)) ! m + d - 1"
proof -
  let ?y = "yearFromTime t"
  note y = yearFromTime_spec [OF assms]
  define n where "n = t div msPerDay - year_day ?y"
  have "0 \<le> n" "n < daysInYear ?y" using y(1, 2) year_day_Suc [of ?y] by (simp_all add: n_def)
  then obtain m where m: "find (\<lambda>i. n < firstDayOfMonth (leap_year ?y) ! i) [1..<13] = Some (Suc m)" "m < 12"
    "firstDayOfMonth (leap_year ?y) ! m \<le> n" "n < firstDayOfMonth (leap_year ?y) ! Suc m" by (rule month_found)
  have "daysFromTime t - daysFromYear ?y = n"
    using daysFromTime_floor [OF assms] daysFromYear_year_day [of ?y] y(3) by (simp add: n_def)
  then have "getYMDFromTime old t = (?y, m, n + 1 - firstDayOfMonth (leap_year ?y) ! m)"
    using m(1) by (simp add: getYMDFromTime_eq Let_def)
  moreover have "valid_date ?y m (n + 1 - firstDayOfMonth (leap_year ?y) ! m)"
    using m month_table(1) [of m ?y] by (auto simp: valid_date_def)
  ultimately show ?thesis by (auto simp: n_def)
qed

lemma date_unique:
  assumes "valid_date y m d" "valid_date z n e"
    and "year_day y + firstDayOfMonth (leap_year y) ! m + d = year_day z + firstDayOfMonth (leap_year z) ! n + e"
  shows "y = z \<and> m = n \<and> d = e"
proof -
  have within: "0 \<le> firstDayOfMonth (leap_year x) ! k + i - 1 \<and> firstDayOfMonth (leap_year x) ! k \<le> firstDayOfMonth (leap_year x) ! k + i - 1
      \<and> firstDayOfMonth (leap_year x) ! k + i - 1 < firstDayOfMonth (leap_year x) ! Suc k
      \<and> year_day x + (firstDayOfMonth (leap_year x) ! k + i - 1) < year_day (x + 1) \<and> k < 12" if "valid_date x k i" for x k i
  proof -
    have k: "k < 12" "1 \<le> i" "i \<le> month_length x k" using that by (auto simp: valid_date_def)
    have "firstDayOfMonth (leap_year x) ! Suc k \<le> daysInYear x"
      using first_day_mono [of "Suc k" 12 x] month_table(4) [of x] k(1) by (cases "Suc k = 12") auto
    then show ?thesis
      using k month_table(1) [of k x] month_day_bounds [of k "leap_year x"] year_day_Suc [of x] by auto
  qed
  note a = within [OF assms(1)] and b = within [OF assms(2)]
  have yz: "y = z"
    by (rule year_unique [of y "year_day y + (firstDayOfMonth (leap_year y) ! m + d - 1)"]) (use a b assms(3) in auto)
  then have "m = n"
    by (intro month_unique [of m n y "firstDayOfMonth (leap_year y) ! m + d - 1"]) (use a b assms(3) in auto)
  with yz assms(3) show ?thesis by simp
qed

lemma helper_mono: "i < j \<Longrightarrow> j < 12 \<Longrightarrow> monthNumberHelper ! i < monthNumberHelper ! j"
proof -
  have "sorted_wrt (<) monthNumberHelper" by (simp add: monthNumberHelper_def)
  then show "i < j \<Longrightarrow> j < 12 \<Longrightarrow> ?thesis"
    by (rule sorted_wrt_nth_less) (simp_all add: monthNumberHelper_def)
qed

lemma helper_mono_le: "i \<le> j \<Longrightarrow> j < 12 \<Longrightarrow> monthNumberHelper ! i \<le> monthNumberHelper ! j"
  using helper_mono [of i j] by (cases "i = j") auto

lemma month_search_interval:
  assumes "m < 12" "0 < m" "monthNumberHelper ! (m - 1) < x" "x \<le> monthNumberHelper ! m"
    and "0 \<le> l" "r \<le> 10" "l \<le> int m" "int m \<le> r \<or> m = 11 \<and> r = 10"
  shows "month_search before x l r = Some (int m + (if monthNumberHelper ! m = x then 1 else 0))"
  using assms(5-)
proof (induction "nat (r - l + 1)" arbitrary: l r rule: less_induct)
  case less
  let ?H = "monthNumberHelper" and ?i = "l + (r - l) sdiv 2"
  define k where "k = nat ?i"
  have i: "l \<le> ?i" "?i \<le> r \<or> ?i = 11 \<and> l = 11 \<and> r = 10" "?i = int k"
  proof -
    have "l \<le> ?i \<and> (?i \<le> r \<or> ?i = 11 \<and> l = 11 \<and> r = 10)"
    proof (cases "l \<le> r")
      case True
      then have "(r - l) div 2 \<le> r - l" by linarith
      then show ?thesis using True by (simp add: sdiv_pos)
    next
      case False
      then have "l = 11" "r = 10" using less.prems assms(1) by auto
      then show ?thesis by (simp add: signed_divide_int_def)
    qed
    then show "l \<le> ?i" "?i \<le> r \<or> ?i = 11 \<and> l = 11 \<and> r = 10" by blast+
    then have "0 \<le> ?i" using less.prems(1) by linarith
    then show "?i = int k" unfolding k_def by (rule nat_0_le [symmetric])
  qed
  have "int k \<le> r \<or> int k = 11" using i(2) unfolding i(3) by blast
  then have k: "k < 12" "nat ?i = k" using less.prems(2) by (auto simp only: k_def)
  consider "k = m" | "k < m" | "m < k" by linarith
  then show ?case
  proof cases
    case 1
    then have "helper_before before k < x" using assms(2, 3) by (auto simp: helper_before_def split: nat.split)
    then show ?thesis
      using 1 assms(4) i(3) k(2) by (subst month_search.simps) (simp add: Let_def)
  next
    case 2
    then have "?H ! k \<le> ?H ! (m - 1)" using assms(1) by (intro helper_mono_le) auto
    then have "?H ! k < x" using assms(3) by simp
    then have "month_search before x l r = month_search before x (?i + 1) r"
      using k(2) by (subst month_search.simps) (simp add: Let_def)
    also have "\<dots> = Some (int m + (if ?H ! m = x then 1 else 0))"
      proof (rule less.hyps)
      show "nat (r - (?i + 1) + 1) < nat (r - l + 1)" using i(1, 2) 2 i(3) assms(1) by auto
      show "0 \<le> ?i + 1" "r \<le> 10" "?i + 1 \<le> int m" "int m \<le> r \<or> m = 11 \<and> r = 10"
        using i less.prems 2 by simp_all
    qed
    finally show ?thesis .
  next
    case 3
    then have "?H ! m \<le> ?H ! (k - 1)" "?H ! (k - 1) < ?H ! k"
      using k(1) by (auto intro!: helper_mono_le helper_mono)
    then have "\<not> ?H ! k < x" "\<not> helper_before before k < x"
      using assms(4) 3 by (auto simp: helper_before_def split: nat.split)
    then have "month_search before x l r = month_search before x l (?i - 1)"
      using k(2) by (subst month_search.simps) (simp add: Let_def)
    also have "\<dots> = Some (int m + (if ?H ! m = x then 1 else 0))"
      proof (rule less.hyps)
      show "nat (?i - 1 - l + 1) < nat (r - l + 1)" using i(1, 2) 3 i(3) less.prems(3) by auto
      show "0 \<le> l" "?i - 1 \<le> 10" "l \<le> int m" "int m \<le> ?i - 1 \<or> m = 11 \<and> ?i - 1 = 10"
        using i less.prems 3 by auto
    qed
    finally show ?thesis .
  qed
qed

lemma month_search_first:
  assumes "before < x" "0 < x" "x \<le> 31"
  shows "month_search before x 0 10 = Some (if x = 31 then 1 else 0)"
proof -
  have "month_search before x 0 10 = month_search before x 0 4" "month_search before x 0 4 = month_search before x 0 1"
    using assms by (subst month_search.simps; simp add: monthNumberHelper_def helper_before_def Let_def sdiv_pos split: nat.split)+
  moreover have "month_search before x 0 1 = Some (if x = 31 then 1 else 0)"
    using assms by (subst month_search.simps) (simp add: monthNumberHelper_def helper_before_def Let_def sdiv_pos split: nat.split)
  ultimately show ?thesis by simp
qed

lemma helper_table:
  "m < 12 \<Longrightarrow> 0 < m \<Longrightarrow> monthNumberHelper ! (m - 1) = firstDayOfMonth leap ! m - (if leap \<and> 2 \<le> m then 1 else 0)"
  "m < 12 \<Longrightarrow> monthNumberHelper ! m = firstDayOfMonth leap ! Suc m - (if leap \<and> 1 \<le> m then 1 else 0)"
proof -
  have table: "list_all (\<lambda>m. monthNumberHelper ! m = firstDayOfMonth True ! Suc m - (if 1 \<le> m then 1 else 0)) [0..<12]"
    "list_all (\<lambda>m. monthNumberHelper ! m = firstDayOfMonth False ! Suc m) [0..<12]" by code_simp+
  have "monthNumberHelper ! m = firstDayOfMonth leap ! Suc m - (if leap \<and> 1 \<le> m then 1 else 0)" if "m < 12" for m leap
  proof (cases leap)
    case True
    then show ?thesis using that bspec [OF table(1) [unfolded list_all_iff], of m] by simp
  next
    case False
    then show ?thesis using that bspec [OF table(2) [unfolded list_all_iff], of m] by simp
  qed
  from this [of m leap] this [of "m - 1" leap]
  show "m < 12 \<Longrightarrow> 0 < m \<Longrightarrow> monthNumberHelper ! (m - 1) = firstDayOfMonth leap ! m - (if leap \<and> 2 \<le> m then 1 else 0)"
    "m < 12 \<Longrightarrow> monthNumberHelper ! m = firstDayOfMonth leap ! Suc m - (if leap \<and> 1 \<le> m then 1 else 0)"
    by (cases m; simp)+
qed

lemma month_search_date:
  assumes "valid_date y m d" "0 < m" "before < 30"
  defines "x \<equiv> firstDayOfMonth (leap_year y) ! m + d - 1 - (if leap_year y then 1 else 0)"
  shows "month_search before x 0 10 = Some (if leap_year y \<and> m = 1 \<and> d = 1 then 0 else int m)"
proof -
  let ?H = "monthNumberHelper"
  have m: "m < 12" "1 \<le> d" "d \<le> month_length y m" using assms(1) by (auto simp: valid_date_def)
  have lo: "?H ! (m - 1) = firstDayOfMonth (leap_year y) ! m - (if leap_year y \<and> 2 \<le> m then 1 else 0)"
    using helper_table(1) m(1) assms(2) by blast
  have hi: "?H ! m = firstDayOfMonth (leap_year y) ! m + month_length y m - (if leap_year y then 1 else 0)"
    using helper_table(2) [of m "leap_year y"] month_table(1) [of m y] m(1) assms(2) by simp
  have x: "x \<le> ?H ! m - 1" using m hi by (simp add: x_def)
  show ?thesis
  proof (cases "?H ! (m - 1) < x")
    case True
    then show ?thesis
      using month_search_interval [of m x 0 10 before] m(1) assms(2) x lo m(2)
      by (cases "m = 11") (auto simp: x_def)
  next
    case False
    show ?thesis
    proof (cases "m = 1")
      case True
      have "?H ! 0 = 31" by (simp add: monthNumberHelper_def)
      then have "x = 31 \<or> leap_year y \<and> x = 30 \<and> d = 1" "0 < x"
        using False True lo m(2) by (auto simp: x_def split: if_splits)
      then show ?thesis using month_search_first [of before x] assms(3) True lo \<open>?H ! 0 = 31\<close>
        by (auto simp: x_def split: if_splits)
    next
      case m1: False
      then have "2 \<le> m" using assms(2) by simp
      then have eq: "x = ?H ! (m - 1)" using False lo m(2) by (auto simp: x_def split: if_splits)
      moreover have "?H ! (m - 1 - 1) < ?H ! (m - 1)" using helper_mono [of "m - 1 - 1" "m - 1"] \<open>2 \<le> m\<close> m(1) by simp
      ultimately show ?thesis
        using month_search_interval [of "m - 1" x 0 10 before] \<open>2 \<le> m\<close> m(1) by auto
    qed
  qed
qed

text \<open>
  The month of a time, for a table preceded in memory by a number below 30: right except for the
  first of February in a leap year.
\<close>

lemma monthFromTime_spec:
  assumes "near_range t" "before < 30" "getYMDFromTime old t = (y, m, d)"
  shows "monthFromTime before t = Some (if leap_year y \<and> m = 1 \<and> d = 1 then 0 else int m)"
proof -
  obtain m' d' where s: "getYMDFromTime old t = (yearFromTime t, m', d')" "valid_date (yearFromTime t) m' d'"
    "t div msPerDay = year_day (yearFromTime t) + firstDayOfMonth (leap_year (yearFromTime t)) ! m' + d' - 1"
    using ymd_spec [OF assms(1)] by blast
  then have e: "y = yearFromTime t" "m' = m" "d' = d" using assms(3) by auto
  have day: "daysFromTime t - daysFromYear y = firstDayOfMonth (leap_year y) ! m + d - 1"
    using s(3) e daysFromTime_floor [OF assms(1)] daysFromYear_year_day [of y] yearFromTime_spec(3) [OF assms(1)] by simp
  have v: "valid_date y m d" using s(2) e by simp
  show ?thesis
  proof (cases "m = 0")
    case True
    then have "d \<le> 31" using v by (simp add: valid_date_def month_length_def daysInMonth_def)
    then show ?thesis using True day e by (simp add: monthFromTime_def Let_def month_table(3))
  next
    case False
    then have "31 \<le> firstDayOfMonth (leap_year y) ! m"
      using first_day_mono [of 1 m y] v month_table(1) [of 0 y] month_table(3) [of "leap_year y"]
      by (cases "m = 1") (auto simp: valid_date_def month_length_def daysInMonth_def)
    then have "\<not> daysFromTime t - daysFromYear y < 31" using day v by (simp add: valid_date_def)
    then show ?thesis
      using month_search_date [OF v _ assms(2)] False day e by (simp add: monthFromTime_def Let_def)
  qed
qed

end
