(* ===== verification/Date_Time.thy ===== *)
theory Date_Time
  imports Date_Arith
begin

text \<open>
  The properties of the arithmetic of dates: the fields of a time value are those of the Gregorian
  calendar, and the defects of \<^verbatim>\<open>monthFromTime\<close> and \<^verbatim>\<open>secFromTime\<close>.
\<close>

text \<open>
  C17. The year, month and day computed for a time value are those of the Gregorian calendar: they
  are a date, and the time lies in the day that \<^verbatim>\<open>daysToMs\<close> computes for this date. No other
  date has this property, so that the two computations are inverse to each other.
\<close>

theorem getYMDFromTime_is_calendar_date:
  assumes "IS_IN_TIME_RANGE t" "\<bar>y\<bar> \<le> 1000000"
  shows "getYMDFromTime old t = (y, m, d) \<longleftrightarrow>
    valid_date y m d \<and> daysToMs y m d \<le> t \<and> t < daysToMs y m d + msPerDay"
proof -
  note near = in_range_near [OF assms(1)]
  define day where "day = (\<lambda>y m d. year_day y + firstDayOfMonth (leap_year y) ! m + d - 1)"
  have same_day: "daysToMs y m d \<le> t \<and> t < daysToMs y m d + msPerDay \<longleftrightarrow> t div msPerDay = day y m d"
    if "valid_date y m d" "\<bar>y\<bar> \<le> 1000000" for y m d
  proof -
    have "month_length y m \<le> 366"
      using that(1) month_table(1) [of m y] month_day_bounds [of m "leap_year y"] month_day_bounds [of "Suc m" "leap_year y"]
      by (auto simp: valid_date_def)
    then have "daysToMs y m d = day y m d * msPerDay"
      using that daysToMs_eq [of y m d] by (auto simp: valid_date_def day_def)
    then show ?thesis
      using int_le_div [of msPerDay "day y m d" t] int_div_less [of msPerDay t "day y m d + 1"]
      by (auto simp: distrib_right)
  qed
  obtain m' d' where s: "getYMDFromTime old t = (yearFromTime t, m', d')" "valid_date (yearFromTime t) m' d'"
    "t div msPerDay = day (yearFromTime t) m' d'" using ymd_spec [OF near, of old] by (auto simp: day_def)
  show ?thesis
  proof
    assume "getYMDFromTime old t = (y, m, d)"
    then show "valid_date y m d \<and> daysToMs y m d \<le> t \<and> t < daysToMs y m d + msPerDay"
      using s same_day assms(2) by auto
  next
    assume r: "valid_date y m d \<and> daysToMs y m d \<le> t \<and> t < daysToMs y m d + msPerDay"
    then have "day y m d = day (yearFromTime t) m' d'" using same_day [of y m d] assms(2) s(3) by simp
    then show "getYMDFromTime old t = (y, m, d)"
      using r s date_unique [of y m d "yearFromTime t" m' d'] by (simp add: day_def)
  qed
qed

theorem getYMDFromTime_is_calendar_date_witness:
  "getYMDFromTime 0 951782400000 = (2000, 1, 29) \<and> valid_date 2000 1 29"
proof -
  have "IS_IN_TIME_RANGE 951782400000" "valid_date 2000 1 29" by code_simp+
  moreover have "daysToMs 2000 1 29 = 951782400000" by code_simp
  ultimately show ?thesis using getYMDFromTime_is_calendar_date [of 951782400000 2000 0 1 29] by simp
qed

lemma negative_remainder: "q < 0 \<Longrightarrow> 0 < n \<Longrightarrow> (if q smod n = 0 then 0 else n + q smod n) = q mod (n :: int)"
  using zmod_zminus1_eq_if [of "- q" n] by (simp add: smod_neg)

text \<open>
  The hour, the minute and the millisecond of every time value are right, before 1970 too. The
  second is right from \<open>- 2 ^ 31\<close> seconds on.
\<close>

theorem time_fields_of_time:
  assumes "IS_IN_TIME_RANGE t"
  shows "hourFromTime t = t div msPerHour mod 24 \<and> minFromTime t = t div msPerMinute mod 60
    \<and> msFromTime t = t mod msPerSecond
    \<and> (- 2147483648000 \<le> t \<longrightarrow> secFromTime t = t div msPerSecond mod 60)"
proof (cases "0 \<le> t")
  case True
  have small: "i32 (a mod 24) = a mod 24" "i32 (a mod 60) = a mod 60" "i32 (a mod 1000) = a mod 1000" for a
    using pos_mod_sign [of 24 a] pos_mod_bound [of 24 a] pos_mod_sign [of 60 a] pos_mod_bound [of 60 a]
      pos_mod_sign [of 1000 a] pos_mod_bound [of 1000 a] by (auto intro!: i32_id)
  show ?thesis using True
    by (simp add: hourFromTime_def minFromTime_def secFromTime_def msFromTime_def sdiv_pos smod_pos
        pos_imp_zdiv_nonneg_iff small Let_def)
next
  case False
  have small: "i32 (q smod n) = q smod n" if "0 < n" "n \<le> 1000" for q n
  proof -
    have "0 \<le> a mod n" "a mod n < n" for a using that by simp_all
    from this [of q] this [of "- q"] show ?thesis
      using that by (cases "0 \<le> q") (auto simp: smod_pos smod_neg simp del: pos_mod_sign pos_mod_bound intro!: i32_id)
  qed
  have neg: "t div n < 0" if "0 < n" for n using that False int_div_less [of n t 0] by simp
  have down: "(t - (n - 1)) sdiv n = t div n" if "0 < n" for n using that False by (simp add: sdiv_floor)
  have "t div msPerSecond \<ge> - 2147483648" if "- 2147483648000 \<le> t"
    using int_le_div [of msPerSecond "- 2147483648" t] that by simp
  then have sec: "i32 (t div msPerSecond) = t div msPerSecond" if "- 2147483648000 \<le> t"
    using that neg [of msPerSecond] by (intro i32_id) auto
  have "msFromTime t = t mod msPerSecond"
    using False small [of 1000 t] zmod_zminus1_eq_if [of "- t" 1000] pos_mod_sign [of 1000 "- t"] pos_mod_bound [of 1000 "- t"]
    by (auto simp: msFromTime_def Let_def smod_neg)
  moreover have "hourFromTime t = t div msPerHour mod 24" "minFromTime t = t div msPerMinute mod 60"
    using False down [of msPerHour] down [of msPerMinute] small negative_remainder [OF neg]
    by (simp_all add: hourFromTime_def minFromTime_def Let_def)
  moreover have "secFromTime t = t div msPerSecond mod 60" if "- 2147483648000 \<le> t"
    using False down [of msPerSecond] sec [OF that] negative_remainder [OF neg, of 1000 60]
    by (simp add: secFromTime_def Let_def)
  ultimately show ?thesis by blast
qed

theorem time_fields_of_time_witness:
  "hourFromTime (- 1) = 23 \<and> minFromTime (- 1) = 59 \<and> msFromTime (- 1) = 999 \<and> secFromTime (- 1) = 59"
proof -
  have "IS_IN_TIME_RANGE (- 1)" by code_simp
  then show ?thesis using time_fields_of_time [of "- 1"] by simp
qed

text \<open>
  A defect: earlier than that the number of seconds does not fit the 32 bits it is cut to, and the
  second may even be above 59.
\<close>

theorem secFromTime_overflows: "secFromTime (- 2147483649000) = 67"
  by code_simp

text \<open>
  A defect: the first of February of a leap year is taken for a 32nd of January. Such a date is
  found only because the table happens to be preceded in memory by a small number.
\<close>

theorem first_of_february_in_leap_year:
  assumes "before < 30"
  shows "monthFromTime before 1580515200000 = Some 0 \<and> dateFromTime before 1580515200000 = Some 32"
proof -
  have ymd: "getYMDFromTime 0 1580515200000 = (2020, 1, 1)" "near_range 1580515200000" "leap_year 2020"
    "daysFromTime 1580515200000 - daysFromYear (yearFromTime 1580515200000) = 31" by code_simp+
  have "monthFromTime before 1580515200000 = Some 0"
    using monthFromTime_spec [OF ymd(2) assms ymd(1)] ymd(3) by simp
  then show ?thesis using ymd(4) by (simp add: dateFromTime_def Let_def)
qed

theorem first_of_february_in_leap_year_witness:
  "(0 :: int) < 30 \<and> monthFromTime 0 1580515200000 = Some 0 \<and> dateFromTime 0 1580515200000 = Some 32"
  using first_of_february_in_leap_year [of 0] by simp

text \<open>
  A defect: when the number before the table is 31 or more, the search for the first of February
  of any other year never returns.
\<close>

lemma month_search_diverges:
  assumes "month_search before x l r = Some v"
  shows "\<not> (31 \<le> before \<and> x = 31 \<and> l = 0 \<and> r \<in> {10, 4, 1, - 1})"
  using assms
proof (rule month_search.raw_induct [where P = "\<lambda>before x l r v. \<not> (31 \<le> before \<and> x = 31 \<and> l = 0 \<and> r \<in> {10, 4, 1, - 1})",
      rotated], goal_cases)
  case (1 search before x l r v)
  show ?case
  proof
    assume a: "31 \<le> before \<and> x = 31 \<and> l = 0 \<and> r \<in> {10, 4, 1, - 1}"
    have half: "(10 :: int) sdiv 2 = 5" "(4 :: int) sdiv 2 = 2" "(1 :: int) sdiv 2 = 0" "(- 1 :: int) sdiv 2 = 0"
      by (simp_all add: signed_divide_int_def)
    have table: "monthNumberHelper ! 5 = 181" "monthNumberHelper ! 2 = 90" "monthNumberHelper ! 0 = 31"
      "helper_before before 5 = 151" "helper_before before 2 = 59" "helper_before before 0 = before"
      by (simp_all add: monthNumberHelper_def helper_before_def split: nat.split)
    consider "r = 10" | "r = 4" | "r = 1" | "r = - 1" using a by blast
    then have "\<exists>r' \<in> {10, 4, 1, - 1}. search before 31 0 r' = Some v"
      by cases (use a 1(2) in \<open>simp_all add: Let_def half table\<close>)
    then show False using 1(1) a by blast
  qed
qed

theorem month_search_out_of_bounds:
  assumes "31 \<le> before"
  shows "monthFromTime before 1612137600000 = None"
proof -
  have "yearFromTime 1612137600000 = 2021" "daysFromTime 1612137600000 - daysFromYear 2021 = 31" "\<not> inLeapYear 2021"
    by code_simp+
  then have "monthFromTime before 1612137600000 = month_search before 31 0 10"
    by (simp add: monthFromTime_def Let_def del: inLeapYear_iff)
  then show ?thesis using month_search_diverges [of before 31 0 10] assms by (cases "month_search before 31 0 10") auto
qed

end
