(* ===== verification/Doubles.thy ===== *)
theory Doubles
  imports Js_Value C_Numbers Complex_Main
begin

text \<open>
  Doubles as bit patterns, with the rational number they stand for, and their conversions from and
  to integers: \<^verbatim>\<open>static_cast\<close>, \<^verbatim>\<open>Value::isInt32ConvertibleDouble\<close> of \<^verbatim>\<open>runtime/ValueInlines.h\<close>, and
  \<^verbatim>\<open>Value::toInt32SlowCase\<close> of \<^verbatim>\<open>runtime/Value.cpp\<close>, which works on the bits.
\<close>

section \<open>The number of a bit pattern\<close>

definition d_exponent :: "u64 \<Rightarrow> nat" where
  "d_exponent d = unat (drop_bit 52 d AND 0x7FF)"

definition d_mantissa :: "u64 \<Rightarrow> nat" where
  "d_mantissa d = unat (take_bit 52 d)"

definition d_finite :: "u64 \<Rightarrow> bool" where
  "d_finite d \<longleftrightarrow> d_exponent d \<noteq> 2047"

definition d_significand :: "u64 \<Rightarrow> nat" where
  "d_significand d = (if d_exponent d = 0 then 2 * d_mantissa d else 2 ^ 52 + d_mantissa d)"

definition double_value :: "u64 \<Rightarrow> rat" where
  "double_value d = (if signbit d then - 1 else 1) * (of_nat (d_significand d * 2 ^ d_exponent d) / 2 ^ 1075)"

definition trunc :: "rat \<Rightarrow> int" where
  "trunc x = (if x < 0 then - \<lfloor>- x\<rfloor> else \<lfloor>x\<rfloor>)"

lemma mantissa_bound: "d_mantissa d < 2 ^ 52"
proof -
  have "unat (take_bit 52 d) = take_bit 52 (unat d)" by (simp add: unsigned_take_bit_eq)
  then show ?thesis unfolding d_mantissa_def by (simp only: take_bit_nat_less_exp)
qed

lemma exponent_bound: "d_exponent d < 2048"
proof -
  have "drop_bit 52 d AND 0x7FF = take_bit 11 (drop_bit 52 d)" by (simp add: take_bit_eq_mask mask_eq_exp_minus_1)
  then have "d_exponent d = take_bit 11 (unat (drop_bit 52 d))" by (simp add: d_exponent_def unsigned_take_bit_eq)
  then show ?thesis using take_bit_nat_less_exp [of 11] by simp
qed

lemma significand_bound: "d_significand d < 2 ^ 53"
  using mantissa_bound [of d] by (simp add: d_significand_def)

lemma trunc_of_int: "trunc (of_int j) = j"
  by (simp add: trunc_def)

lemma trunc_minus: "trunc (- x) = - trunc x"
  by (auto simp: trunc_def not_less)

lemma trunc_double:
  "trunc (double_value d) = (if signbit d then - 1 else 1) * int (d_significand d * 2 ^ d_exponent d div 2 ^ 1075)"
proof -
  have "\<lfloor>rat_of_nat n / 2 ^ 1075\<rfloor> = int (n div 2 ^ 1075)" for n
    using floor_divide_of_nat_eq [of n "2 ^ 1075", where 'a = rat] by simp
  moreover have "0 \<le> rat_of_nat n / 2 ^ 1075" for n by simp
  ultimately have "trunc (rat_of_nat n / 2 ^ 1075) = int (n div 2 ^ 1075)" for n
    unfolding trunc_def by (metis not_less)
  then show ?thesis by (simp only: double_value_def trunc_minus mult_minus_left mult_1 split: if_split) auto
qed

text \<open>The integer part for the ranges of the exponent.\<close>

lemma shifted_down: "e \<le> k \<Longrightarrow> n * 2 ^ e div 2 ^ k = n div 2 ^ (k - e)" for n :: nat
proof -
  assume "e \<le> k"
  then have "(2::nat) ^ k = 2 ^ (k - e) * 2 ^ e" by (simp flip: power_add)
  then show ?thesis by simp
qed

lemma shifted_up: "k \<le> e \<Longrightarrow> n * 2 ^ e div 2 ^ k = n * 2 ^ (e - k)" for n :: nat
proof -
  assume "k \<le> e"
  then have "(2::nat) ^ e = 2 ^ (e - k) * 2 ^ k" by (simp flip: power_add)
  then have "n * 2 ^ e = n * 2 ^ (e - k) * 2 ^ k" by simp
  then show ?thesis by (simp only: nonzero_mult_div_cancel_right power_not_zero zero_neq_numeral not_False_eq_True)
qed

lemma double_parts:
  "\<exists>h. unat d = d_mantissa d + 2 ^ 52 * h" "\<exists>h. sint d = int (d_mantissa d) + 2 ^ 52 * h"
proof -
  have "d_mantissa d = unat d mod 2 ^ 52" unfolding d_mantissa_def by (subst unsigned_take_bit_eq) (simp_all only: take_bit_eq_mod)
  then show u: "\<exists>h. unat d = d_mantissa d + 2 ^ 52 * h" by (metis mod_mult_div_eq)
  then obtain h where "unat d = d_mantissa d + 2 ^ 52 * h" by blast
  then have "uint d = int (d_mantissa d) + 2 ^ 52 * int h" by (metis of_nat_add of_nat_mult of_nat_numeral of_nat_power uint_nat)
  moreover have "\<exists>k. sint d = uint d + 2 ^ 52 * k"
  proof -
    have "uint d = sint d mod 2 ^ 64" using uint_word_of_int [of "sint d", where 'a = 64] by simp
    then have "sint d = uint d + 2 ^ 52 * (2 ^ 12 * (sint d div 2 ^ 64))" by (simp add: algebra_simps)
    then show ?thesis by blast
  qed
  ultimately show "\<exists>h. sint d = int (d_mantissa d) + 2 ^ 52 * h" by (metis add.assoc distrib_left)
qed

section \<open>The conversion of the language to 32 bits\<close>

text \<open>The bits of the integer part that fit, for the exponent \<open>ex\<close>.\<close>

definition toInt32_select :: "int \<Rightarrow> u64 \<Rightarrow> u32" where
  "toInt32_select ex bits =
     (let result = (if ex > 52 then ucast (push_bit (nat (ex - 52)) bits)
                    else ucast (signed_drop_bit (nat (52 - ex)) bits))
      in if ex < 32 then let missingOne = push_bit (nat ex) 1 in (result AND (missingOne - 1)) + missingOne
         else result)"

definition toInt32SlowCase :: "u64 \<Rightarrow> u32" where
  "toInt32SlowCase bits =
     (let ex = uint ((ucast (signed_drop_bit 52 bits) :: u32) AND 0x7FF) - 0x3FF in
      if ex < 0 \<or> ex > 83 then 0
      else let result = toInt32_select ex bits in if bit bits 63 then - result else result)"

lemma exponent_read: "uint ((ucast (signed_drop_bit 52 d) :: u32) AND 0x7FF) = int (d_exponent d)"
proof -
  have m: "x AND 0x7FF = take_bit 11 x" for x :: "'a :: len word" by (simp add: take_bit_eq_mask mask_eq_exp_minus_1)
  have "(ucast (signed_drop_bit 52 d) :: u32) AND 0x7FF = ucast (drop_bit 52 d AND 0x7FF)"
    unfolding m by (rule bit_word_eqI) (auto simp: bit_simps)
  moreover have "uint (ucast w :: u32) = uint w" if "uint w < 2 ^ 32" for w :: u64
    using that by (simp add: unsigned_ucast_eq take_bit_int_eq_self)
  moreover have "uint (drop_bit 52 d AND 0x7FF) = int (d_exponent d)" by (simp only: d_exponent_def uint_nat)
  ultimately show ?thesis using exponent_bound [of d] by simp
qed


lemma ucast_push: "ucast (push_bit k d) = (of_nat (d_mantissa d * 2 ^ k) :: u32)"
proof -
  obtain h where h: "unat d = d_mantissa d + 2 ^ 52 * h" using double_parts(1) by blast
  have "(ucast (push_bit k d) :: u32) = push_bit k (ucast d)"
    by (rule bit_word_eqI) (auto simp: bit_simps)
  also have "\<dots> = of_nat (unat d * 2 ^ k)" by (simp add: push_bit_eq_mult)
  also have "\<dots> = of_nat (d_mantissa d * 2 ^ k) + of_nat (2 ^ 52) * of_nat (h * 2 ^ k)"
    unfolding h by (simp only: of_nat_mult [symmetric] of_nat_add [symmetric]) (simp add: algebra_simps)
  also have "(of_nat (2 ^ 52) :: u32) = 0" by simp
  finally show ?thesis by simp
qed

lemma ucast_drop: "\<exists>h. ucast (signed_drop_bit k d) = (of_int (int (d_mantissa d div 2 ^ k) + 2 ^ (52 - k) * h) :: u32)" if "k \<le> 52"
proof -
  obtain h where h: "sint d = int (d_mantissa d) + 2 ^ 52 * h" using double_parts(2) by blast
  have p: "(2::int) ^ 52 = 2 ^ k * 2 ^ (52 - k)" using that by (simp only: power_add [symmetric]) simp
  have "sint (signed_drop_bit k d) = sint d div 2 ^ k" by (simp add: sint_signed_drop_bit_eq drop_bit_eq_div)
  also have "\<dots> = int (d_mantissa d) div 2 ^ k + 2 ^ (52 - k) * h"
    unfolding h p by (simp add: mult.assoc)
  finally have s: "sint (signed_drop_bit k d) = int (d_mantissa d div 2 ^ k) + 2 ^ (52 - k) * h" by (simp add: zdiv_int)
  have "(ucast (signed_drop_bit k d) :: u32) = scast (signed_drop_bit k d)"
    by (rule fun_cong [OF down_cast_same]) (simp add: is_down)
  also have "\<dots> = of_int (sint (signed_drop_bit k d))" by simp
  finally show ?thesis unfolding s by blast
qed

lemma power_vanishes: "32 \<le> k \<Longrightarrow> (2 :: u32) ^ k = 0"
  by simp

lemma low_bits:
  assumes "q < 2 ^ k" "k < 32"
  shows "(of_int (int q + 2 ^ k * h) :: u32) AND (push_bit k 1 - 1) = of_nat q"
proof -
  have "(push_bit k 1 - 1 :: u32) = mask k" by (simp add: mask_eq_exp_minus_1 push_bit_eq_mult)
  then have "(of_int (int q + 2 ^ k * h) :: u32) AND (push_bit k 1 - 1) = take_bit k (of_int (int q + 2 ^ k * h))"
    by (simp add: take_bit_eq_mask)
  also have "\<dots> = of_int (take_bit k (int q + 2 ^ k * h))" by (simp only: take_bit_of_int)
  also have "take_bit k (int q + 2 ^ k * h) = int q"
  proof -
    have "int q < 2 ^ k" using assms(1) by (metis of_nat_less_iff of_nat_numeral of_nat_power)
    then show ?thesis by (simp add: take_bit_eq_mod)
  qed
  finally show ?thesis by simp
qed

lemma selected_bits:
  fixes d :: u64
  defines "e \<equiv> d_exponent d"
  assumes "1023 \<le> e" "e \<le> 1106"
  shows "toInt32_select (int e - 0x3FF) d = of_nat (d_significand d * 2 ^ e div 2 ^ 1075)"
proof (cases "1075 < e")
  case True
  define k where "k = e - 1075"
  have "d_significand d * 2 ^ e div 2 ^ 1075 = (2 ^ 52 + d_mantissa d) * 2 ^ k"
    using True shifted_up [of 1075 e] by (simp add: d_significand_def e_def k_def del: power_numeral)
  moreover have "(of_nat ((2 ^ 52 + d_mantissa d) * 2 ^ k) :: u32) = of_nat (d_mantissa d * 2 ^ k)"
  proof -
    have "(of_nat (2 ^ 52) :: u32) = 0" by simp
    then show ?thesis by (simp only: distrib_right of_nat_add of_nat_mult mult_zero_left add_0)
  qed
  moreover have "nat (int e - 0x3FF - 52) = k" "\<not> int e - 0x3FF < 32" "int e - 0x3FF > 52" using True by (auto simp: k_def)
  ultimately show ?thesis by (simp only: toInt32_select_def ucast_push Let_def if_True if_False)
next
  case False
  define k x where "k = 1075 - e" and "x = e - 1023"
  have k: "k \<le> 52" "52 - k = x" using False assms(2) by (auto simp: k_def x_def e_def)
  define q where "q = d_mantissa d div 2 ^ k"
  have "x + k = 52" using k by simp
  then have pk: "(2::nat) ^ 52 = 2 ^ x * 2 ^ k" by (simp only: power_add [symmetric])
  have sig: "d_significand d = 2 ^ 52 + d_mantissa d" using assms(2) by (simp add: d_significand_def e_def)
  have "d_significand d * 2 ^ e div 2 ^ 1075 = (2 ^ 52 + d_mantissa d) div 2 ^ k"
    unfolding sig k_def using False by (intro shifted_down) simp
  also have "\<dots> = 2 ^ x + q" unfolding pk q_def by simp
  finally have goal: "d_significand d * 2 ^ e div 2 ^ 1075 = 2 ^ x + q" .
  have "d_mantissa d < 2 ^ x * 2 ^ k" using mantissa_bound [of d] by (simp only: pk)
  then have q: "q < 2 ^ x" unfolding q_def by (simp add: less_mult_imp_div_less)
  obtain h where h: "ucast (signed_drop_bit k d) = (of_int (int q + 2 ^ x * h) :: u32)"
    using ucast_drop [OF k(1), of d] k(2) by (auto simp: q_def)
  have exp: "int e - 0x3FF = int x" "nat (52 - int x) = k" "\<not> int x > 52" using False k assms(2) by (auto simp: x_def k_def)
  show ?thesis
  proof (cases "x < 32")
    case True
    then show ?thesis unfolding exp goal using exp(2, 3) low_bits [OF q True, of h] by (simp add: toInt32_select_def h Let_def push_bit_eq_mult)
  next
    case False
    then have z: "(2 :: u32) ^ x = 0" by (simp add: power_vanishes)
    have "(of_int (int q + 2 ^ x * h) :: u32) = of_nat q + 2 ^ x * of_int h" "(of_nat (2 ^ x + q) :: u32) = 2 ^ x + of_nat q"
      by simp_all
    then have "(of_int (int q + 2 ^ x * h) :: u32) = of_nat (2 ^ x + q)" by (simp only: z mult_zero_left add_0 add_0_right)
    then show ?thesis unfolding exp goal using exp(2, 3) False by (simp add: toInt32_select_def h Let_def)
  qed
qed

lemma toInt32_modular:
  "toInt32SlowCase d = (if d_finite d then of_int (trunc (double_value d)) else 0)"
proof -
  let ?e = "d_exponent d" and ?n = "d_significand d * 2 ^ d_exponent d div 2 ^ 1075"
  have val: "(of_int (trunc (double_value d)) :: u32) = (if bit d 63 then - of_nat ?n else of_nat ?n)"
    unfolding trunc_double signbit_def by (simp add: of_int_minus)
  consider "?e < 1023" | "1023 \<le> ?e" "?e \<le> 1106" | "1106 < ?e" by linarith
  then show ?thesis
  proof cases
    case 1
    have "d_significand d < 2 ^ (1075 - ?e)"
      using significand_bound [of d] power_increasing [of 53 "1075 - ?e" "2 :: nat"] 1 by linarith
    moreover have "?n = d_significand d div 2 ^ (1075 - ?e)" using 1 by (intro shifted_down) simp
    ultimately have "?n = 0" by simp
    then show ?thesis using 1 by (simp add: toInt32SlowCase_def exponent_read val del: power_numeral)
  next
    case 2
    then have f: "d_finite d" by (simp add: d_finite_def)
    have "\<not> (int ?e - 1023 < 0 \<or> int ?e - 1023 > 83)" using 2 by auto
    then show ?thesis
      by (simp only: toInt32SlowCase_def exponent_read val Let_def selected_bits [OF 2] f if_True if_False)
  next
    case 3
    have "?n = d_significand d * 2 ^ (?e - 1075)" using 3 by (intro shifted_up) simp
    moreover have "(of_nat (2 ^ (?e - 1075)) :: u32) = 0" using 3 by (simp add: power_vanishes)
    ultimately have "(of_nat ?n :: u32) = 0" by (simp only: of_nat_mult mult_zero_right)
    then show ?thesis using 3 by (simp add: toInt32SlowCase_def exponent_read val del: power_numeral)
  qed
qed

text \<open>
  C14. The conversion to a 32-bit integer that selects and masks bits computes what the standard asks
  for: the integer part of the number modulo \<open>2 ^ 32\<close>, and zero for infinities and NaNs.
\<close>

theorem toInt32_is_modular:
  "toInt32SlowCase d = (if d_finite d then of_int (trunc (double_value d)) else 0)"
  by (rule toInt32_modular)

section \<open>Integers as doubles\<close>

fun top_bit :: "nat \<Rightarrow> nat" where
  "top_bit n = (if n < 2 then 0 else Suc (top_bit (n div 2)))"

declare top_bit.simps [simp del]

definition pack_double :: "bool \<Rightarrow> nat \<Rightarrow> nat \<Rightarrow> u64" where
  "pack_double negative e m = of_nat ((if negative then 2 ^ 63 else 0) + e * 2 ^ 52 + m)"

text \<open>The conversion of an integer to a double, which rounds integers of more than 53 bits.\<close>

definition double_of_int :: "int \<Rightarrow> u64" where
  "double_of_int i =
     (if i = 0 then 0
      else
        let n = nat \<bar>i\<bar>; k = top_bit n in
        if k \<le> 52 then pack_double (i < 0) (1023 + k) (n * 2 ^ (52 - k) - 2 ^ 52)
        else
          let q = nat (round_half_even (int n) (2 ^ (k - 52))) in
          if q = 2 ^ 53 then pack_double (i < 0) (1024 + k) 0 else pack_double (i < 0) (1023 + k) (q - 2 ^ 52))"

lemma top_bit_bounds: "0 < n \<Longrightarrow> 2 ^ top_bit n \<le> n \<and> n < 2 ^ Suc (top_bit n)"
proof (induction n rule: top_bit.induct)
  case (1 n)
  show ?case
  proof (cases "n < 2")
    case True
    then show ?thesis using 1(2) by (subst (1 2) top_bit.simps) simp
  next
    case False
    then have "top_bit n = Suc (top_bit (n div 2))" by (subst top_bit.simps) simp
    moreover have "2 ^ top_bit (n div 2) \<le> n div 2 \<and> n div 2 < 2 ^ Suc (top_bit (n div 2))" using 1(1) False by simp
    ultimately show ?thesis by auto
  qed
qed

lemma unat_bound: "unat (d :: u64) < 2 ^ 64"
  using unsigned_less [where 'a = nat, of d] by simp

lemma double_fields:
  "d_mantissa d = unat d mod 2 ^ 52" "d_exponent d = unat d div 2 ^ 52 mod 2 ^ 11" "signbit d \<longleftrightarrow> odd (unat d div 2 ^ 63)"
proof -
  show "d_mantissa d = unat d mod 2 ^ 52"
    unfolding d_mantissa_def by (subst unsigned_take_bit_eq) (simp_all only: take_bit_eq_mod)
  have "drop_bit 52 d AND 0x7FF = take_bit 11 (drop_bit 52 d)" by (simp add: take_bit_eq_mask mask_eq_exp_minus_1)
  then have "d_exponent d = take_bit 11 (drop_bit 52 (unat d))"
    using take_bit_nat_eq_self [of "unat d" 64] unat_bound [of d]
    by (simp add: d_exponent_def unsigned_take_bit_eq unsigned_drop_bit_eq)
  then show "d_exponent d = unat d div 2 ^ 52 mod 2 ^ 11" by (simp only: take_bit_eq_mod drop_bit_eq_div)
  show "signbit d \<longleftrightarrow> odd (unat d div 2 ^ 63)"
    using bit_unsigned_iff [where 'a = nat, of d 63] by (simp add: signbit_def bit_iff_odd)
qed

lemma pack_double_fields:
  assumes "e < 2048" "m < 2 ^ 52"
  shows "d_mantissa (pack_double b e m) = m" "d_exponent (pack_double b e m) = e" "signbit (pack_double b e m) = b"
proof -
  let ?n = "(if b then 2 ^ 63 else 0) + e * 2 ^ 52 + m :: nat"
  have "e * 2 ^ 52 \<le> 2047 * 2 ^ 52" using assms(1) by simp
  then have "?n < 2 ^ 64" "e * 2 ^ 52 + m < 2 ^ 63" using assms(2) by auto
  then have n: "unat (pack_double b e m) = ?n" unfolding pack_double_def by (simp add: unat_of_nat take_bit_nat_eq_self del: of_nat_add)
  define c where "c = (if b then 2 ^ 11 else 0) + e"
  have nc: "?n = m + c * 2 ^ 52" by (simp add: c_def)
  show "d_mantissa (pack_double b e m) = m" using assms(2) by (simp only: double_fields n nc mod_mult_self1 mod_less)
  have "(m + c * 2 ^ 52) div 2 ^ 52 = c" using assms(2) by simp
  then show "d_exponent (pack_double b e m) = e" using assms(1) by (simp only: double_fields n nc) (simp add: c_def)
  have "?n div 2 ^ 63 = (if b then 1 else 0)" using \<open>e * 2 ^ 52 + m < 2 ^ 63\<close> by auto
  then show "signbit (pack_double b e m) = b" by (simp add: double_fields n)
qed

text \<open>Integers of at most 53 bits are converted exactly.\<close>

lemma double_of_int_value:
  assumes "\<bar>i\<bar> < 2 ^ 53"
  shows "double_value (double_of_int i) = of_int i" "d_finite (double_of_int i)" "signbit (double_of_int i) \<longleftrightarrow> i < 0"
proof -
  define n k where "n = nat \<bar>i\<bar>" and "k = top_bit n"
  have "double_value (double_of_int i) = of_int i \<and> d_finite (double_of_int i) \<and> (signbit (double_of_int i) \<longleftrightarrow> i < 0)"
  proof (cases "i = 0")
    case True
    have "d_exponent 0 = 0" "d_mantissa 0 = 0" "\<not> signbit 0" by (simp_all add: d_exponent_def d_mantissa_def signbit_def)
    then show ?thesis using True by (simp add: double_of_int_def double_value_def d_significand_def d_finite_def)
  next
    case False
    then have b: "2 ^ k \<le> n" "n < 2 ^ Suc k" using top_bit_bounds [of n] by (auto simp: n_def k_def)
    have "n < 2 ^ 53" using assms by (auto simp: n_def)
    then have "(2::nat) ^ k < 2 ^ 53" by (rule le_less_trans [OF b(1)])
    then have k: "k \<le> 52" using power_less_imp_less_exp [of "2 :: nat" k 53] by simp
    have p: "(2::nat) ^ 52 = 2 ^ k * 2 ^ (52 - k)" using k by (simp only: power_add [symmetric]) simp
    define m where "m = n * 2 ^ (52 - k) - 2 ^ 52"
    have lo: "2 ^ 52 \<le> n * 2 ^ (52 - k)" unfolding p using b(1) by simp
    have "n * 2 ^ (52 - k) < 2 * 2 ^ 52" unfolding p using b(2) by simp
    then have m: "m < 2 ^ 52" using lo by (simp add: m_def)
    have d: "double_of_int i = pack_double (i < 0) (1023 + k) m" using False k by (simp add: double_of_int_def n_def k_def m_def Let_def)
    note f = pack_double_fields [OF _ m, of "1023 + k" "i < 0", folded d]
    have e: "1023 + k < 2048" using k by simp
    have "d_significand (double_of_int i) = n * 2 ^ (52 - k)" using f(1, 2) [OF e] lo by (simp add: d_significand_def m_def)
    then have "d_significand (double_of_int i) * 2 ^ d_exponent (double_of_int i) = n * (2 ^ (52 - k) * 2 ^ (1023 + k))"
      using f(2) [OF e] by simp
    also have "(2::nat) ^ (52 - k) * 2 ^ (1023 + k) = 2 ^ 1075"
    proof -
      have "52 - k + (1023 + k) = 1075" using k by simp
      then show ?thesis by (simp only: power_add [symmetric])
    qed
    finally have "double_value (double_of_int i) = (if i < 0 then - 1 else 1) * of_nat n"
      using f(3) [OF e] by (simp only: double_value_def of_nat_mult of_nat_power of_nat_numeral) simp
    moreover have "(if i < 0 then - 1 else 1) * of_nat n = (of_int i :: rat)" by (simp add: n_def)
    ultimately show ?thesis using f(2, 3) [OF e] e k by (simp add: d_finite_def)
  qed
  then show "double_value (double_of_int i) = of_int i" "d_finite (double_of_int i)" "signbit (double_of_int i) \<longleftrightarrow> i < 0" by blast+
qed

section \<open>Conversion to a 32-bit integer\<close>

text \<open>
  \<^verbatim>\<open>static_cast<int32_t>\<close> truncates; when the result does not fit, C++ leaves it undefined, and it
  is what the parameter \<open>wild\<close> says.
\<close>

definition double_to_int32 :: "(u64 \<Rightarrow> u32) \<Rightarrow> u64 \<Rightarrow> u32" where
  "double_to_int32 wild d =
     (if d_finite d \<and> - 2147483648 \<le> trunc (double_value d) \<and> trunc (double_value d) < 2147483648
      then of_int (trunc (double_value d)) else wild d)"

definition isInt32ConvertibleDouble :: "(u64 \<Rightarrow> u32) \<Rightarrow> u64 \<Rightarrow> u32 option" where
  "isInt32ConvertibleDouble wild d =
     (let asInt32 = double_to_int32 wild d in
      if \<not> double_eq (double_of_int (sint asInt32)) d \<or> asInt32 = 0 \<and> signbit d then None else Some asInt32)"

lemma sint32_bounds: "- 2147483648 \<le> sint (i :: u32)" "sint (i :: u32) < 2147483648"
  using sint_ge [of i] sint_lt [of i] by simp_all

lemma nan_exponent: "is_nan d \<Longrightarrow> d_exponent d = 2047"
proof -
  assume "is_nan d"
  have "d AND 0x7FFFFFFFFFFFFFFF = take_bit 63 d" by (simp add: take_bit_eq_mask mask_eq_exp_minus_1)
  then have "take_bit 63 d > 0x7FF0000000000000" using \<open>is_nan d\<close> by (simp add: is_nan_def)
  then have "0x7FF0000000000000 < unat (take_bit 63 d)" by (simp add: word_less_nat_alt)
  moreover have "unat (take_bit 63 d) = unat d mod 2 ^ 63" by (subst unsigned_take_bit_eq) (simp_all only: take_bit_eq_mod)
  ultimately have less: "0x7FF0000000000000 < unat d mod 2 ^ 63" by (simp only:)
  have "unat d mod 2 ^ 63 div 2 ^ 52 = unat d div 2 ^ 52 mod 2 ^ 11"
    by (simp only: take_bit_eq_mod [symmetric] drop_bit_eq_div [symmetric] drop_bit_take_bit) simp
  moreover have "2047 \<le> unat d mod 2 ^ 63 div 2 ^ 52"
    using less div_le_mono [of "0x7FF0000000000000" "unat d mod 2 ^ 63" "2 ^ 52"] by simp
  ultimately have "2047 \<le> d_exponent d" by (simp only: double_fields(2))
  then show ?thesis using exponent_bound [of d] by simp
qed

lemma zero_value: "is_zero w \<Longrightarrow> double_value w = 0"
  by (auto simp: is_zero_def double_value_def d_significand_def d_exponent_def d_mantissa_def)

lemma convertible_iff:
  "isInt32ConvertibleDouble wild d = Some i \<longleftrightarrow> d = double_of_int (sint i)"
proof
  assume "isInt32ConvertibleDouble wild d = Some i"
  then have r: "double_eq (double_of_int (sint i)) d" "\<not> (i = 0 \<and> signbit d)"
    by (auto simp: isInt32ConvertibleDouble_def Let_def split: if_splits)
  show "d = double_of_int (sint i)"
  proof (rule ccontr)
    assume "d \<noteq> double_of_int (sint i)"
    then have z: "is_zero (double_of_int (sint i))" "is_zero d" "d \<noteq> double_of_int (sint i)"
      using r(1) by (auto simp: double_eq_def)
    have v: "double_value (double_of_int (sint i)) = of_int (sint i)" "signbit (double_of_int (sint i)) \<longleftrightarrow> sint i < 0"
      using double_of_int_value [of "sint i"] sint32_bounds [of i] by auto
    have "sint i = 0" using zero_value [OF z(1)] v(1) by (metis of_int_eq_0_iff)
    moreover have "i = of_int (sint i)" by simp
    ultimately have "i = 0" by (simp only: of_int_0)
    moreover have "double_of_int (sint i) = 0" using \<open>sint i = 0\<close> by (simp add: double_of_int_def)
    ultimately show False using z(2, 3) r(2) by (auto simp: is_zero_def signbit_def)
  qed
next
  assume d: "d = double_of_int (sint i)"
  have v: "double_value d = of_int (sint i)" "d_finite d" "signbit d \<longleftrightarrow> sint i < 0"
    using double_of_int_value [of "sint i"] sint32_bounds [of i] by (auto simp: d)
  have "trunc (double_value d) = sint i" unfolding v(1) by (rule trunc_of_int)
  then have "double_to_int32 wild d = i" using v(2) sint32_bounds [of i] by (simp add: double_to_int32_def)
  moreover have "\<not> is_nan d"
  proof
    assume nan: "is_nan d"
    have "d_exponent d = 2047" by (rule nan_exponent [OF nan])
    then show False using v(2) by (simp add: d_finite_def)
  qed
  ultimately show "isInt32ConvertibleDouble wild d = Some i" using v(3) by (auto simp: isInt32ConvertibleDouble_def Let_def d double_eq_def)
qed

end
