(* ===== verification/Date_Object.thy ===== *)
theory Date_Object
  imports Date_Time Doubles
begin

text \<open>
  The state of a date of \<^verbatim>\<open>runtime/DateObject.cpp\<close> and its operations, and the setters of
  \<^verbatim>\<open>builtins/BuiltinDate.cpp\<close>. A date keeps its time value and, filled in on demand, the fields
  of the local time. Local time is that of a calendar of the ICU library, which is a parameter;
  the getters for UTC go through a second date, \<^verbatim>\<open>cachedUTC\<close>, whose local time is made to be the
  UTC time wanted.
\<close>

section \<open>The code\<close>

text \<open>
  What \<^verbatim>\<open>ucal_get\<close> gives for a time: the offset of the zone and that of daylight saving, in
  milliseconds, and whether an error is reported.
\<close>

record zone =
  zone_offset :: "int \<Rightarrow> int"
  dst_offset :: "int \<Rightarrow> int"
  zone_fails :: "int \<Rightarrow> bool"

record timeinfo =
  ti_year :: int
  ti_month :: nat
  ti_mday :: int
  ti_hour :: int
  ti_min :: int
  ti_sec :: int
  ti_millisec :: int
  ti_wday :: int
  ti_gmtoff :: int
  ti_isdst :: bool

record date_object =
  m_primitiveValue :: int
  m_cachedLocal :: timeinfo
  m_isCacheDirty :: bool

definition timeinfo_init :: timeinfo where
  "timeinfo_init = \<lparr>ti_year = 0, ti_month = 0, ti_mday = 0, ti_hour = 0, ti_min = 0, ti_sec = 0,
     ti_millisec = 0, ti_wday = 0, ti_gmtoff = 0, ti_isdst = False\<rparr>"

definition date_init :: date_object where
  "date_init = \<lparr>m_primitiveValue = TIME64NAN, m_cachedLocal = timeinfo_init, m_isCacheDirty = False\<rparr>"

definition date_isValid :: "date_object \<Rightarrow> bool" where
  "date_isValid d = IS_VALID_TIME (m_primitiveValue d)"

definition setTimeValueAsNaN :: "date_object \<Rightarrow> date_object" where
  "setTimeValueAsNaN d = d\<lparr>m_primitiveValue := TIME64NAN\<rparr>"

text \<open>The distance to the year whose rules for daylight saving are used.\<close>

definition msBetweenYears :: "int \<Rightarrow> int" where
  "msBetweenYears t =
     (let realYear = yearFromTime t; equivalentYear = equivalentYearForDST realYear in
      if realYear \<noteq> equivalentYear then timeFromYear equivalentYear - timeFromYear realYear else 0)"

definition applyLocalTimezoneOffset :: "zone \<Rightarrow> int \<Rightarrow> int" where
  "applyLocalTimezoneOffset z t =
     (if \<not> IS_IN_TIME_RANGE (t - zone_offset z t) then TIME64NAN
      else
        let t' = t + msBetweenYears t in
        if \<not> (zone_fails z t \<or> zone_fails z t') then t - i32 (zone_offset z t' + dst_offset z t')
        else TIME64NAN)"

definition setTimeValue :: "date_object \<Rightarrow> int \<Rightarrow> date_object" where
  "setTimeValue d t =
     (let d' = d\<lparr>m_primitiveValue := t\<rparr> in
      if IS_VALID_TIME t then d'\<lparr>m_isCacheDirty := True\<rparr> else d')"

definition setTimeValue_fields ::
    "zone \<Rightarrow> date_object \<Rightarrow> int \<Rightarrow> int \<Rightarrow> int \<Rightarrow> int \<Rightarrow> int \<Rightarrow> int \<Rightarrow> int \<Rightarrow> bool \<Rightarrow> date_object" where
  "setTimeValue_fields z d year month date hour minute second millisecond convertToUTC =
     (let yearComputed = i32 (year + double_div_floor month 12);
          monthComputed = month smod 12;
          monthComputed = (if monthComputed < 0 then (monthComputed + 12) smod 12 else monthComputed);
          primitiveValue = timeinfoToMs yearComputed (nat monthComputed) date hour minute second millisecond;
          primitiveValue = (if convertToUTC then applyLocalTimezoneOffset z primitiveValue else primitiveValue);
          d' = (if IS_VALID_TIME primitiveValue \<and> IS_IN_TIME_RANGE primitiveValue
                then d\<lparr>m_primitiveValue := primitiveValue\<rparr> else setTimeValueAsNaN d)
      in d'\<lparr>m_isCacheDirty := True\<rparr>)"

definition resolveCache :: "zone \<Rightarrow> date_object \<Rightarrow> date_object" where
  "resolveCache z d =
     (let t = m_primitiveValue d + msBetweenYears (m_primitiveValue d);
          stdOffset = zone_offset z t; dstOffset = dst_offset z t;
          t = t + i32 (stdOffset + dstOffset) - msBetweenYears (m_primitiveValue d);
          (year, month, mday) = getYMDFromTime (ti_month (m_cachedLocal d)) t;
          days = daysFromTime t;
          timeInDay = i32 (t - days * msPerDay);
          weekday = (days + 4) smod 7
      in d\<lparr>m_cachedLocal := \<lparr>ti_year = year, ti_month = month, ti_mday = mday,
             ti_hour = timeInDay sdiv msPerHour,
             ti_min = timeInDay sdiv msPerMinute smod 60,
             ti_sec = timeInDay sdiv msPerSecond smod 60,
             ti_millisec = timeInDay smod msPerSecond,
             ti_wday = (if weekday \<ge> 0 then weekday else weekday + 7),
             ti_gmtoff = (- 1 * i32 (stdOffset + dstOffset)) sdiv msPerMinute,
             ti_isdst = (dstOffset \<noteq> 0)\<rparr>,
           m_isCacheDirty := False\<rparr>)"

definition RESOLVECACHE :: "zone \<Rightarrow> date_object \<Rightarrow> date_object" where
  "RESOLVECACHE z d = (if m_isCacheDirty d then resolveCache z d else d)"

text \<open>The getters: a field of the local time. Reading it may fill in the cache.\<close>

definition get_field :: "zone \<Rightarrow> (timeinfo \<Rightarrow> 'a) \<Rightarrow> date_object \<Rightarrow> date_object \<times> 'a" where
  "get_field z field d = (let d' = RESOLVECACHE z d in (d', field (m_cachedLocal d')))"

definition getTimezoneOffset :: "zone \<Rightarrow> date_object \<Rightarrow> date_object \<times> int" where
  "getTimezoneOffset z d = get_field z ti_gmtoff d"

text \<open>\<^verbatim>\<open>DECLARE_DATE_UTC_GETTER\<close>, with the date \<open>cu\<close> that all dates of the VM share.\<close>

definition getUTC_field ::
    "zone \<Rightarrow> (timeinfo \<Rightarrow> 'a) \<Rightarrow> date_object \<Rightarrow> date_object \<Rightarrow> date_object \<times> date_object \<times> 'a" where
  "getUTC_field z field cu d =
     (let (d1, off) = getTimezoneOffset z d;
          primitiveValueUTC = m_primitiveValue d1 + off * msPerMinute;
          cu' = (if \<not> date_isValid cu \<or> m_primitiveValue cu \<noteq> primitiveValueUTC then
                   let cu1 = setTimeValue cu primitiveValueUTC; (cu2, off') = getTimezoneOffset z cu1 in
                   if off' \<noteq> off then setTimeValue cu2 (m_primitiveValue d1 + off' * msPerMinute) else cu2
                 else cu);
          (cu'', v) = get_field z field cu'
      in (cu'', d1, v))"

section \<open>The setters of the prototype\<close>

text \<open>
  Fields are numbers; \<open>None\<close> stands for a NaN or an infinity. The comparison with the largest
  64-bit integer is done in doubles, where that integer is \<open>2 ^ 63\<close>.
\<close>

type_synonym number_arg = "rat option"

definition timeClip :: "number_arg \<Rightarrow> int" where
  "timeClip V =
     (case V of
        None \<Rightarrow> TIME64NAN
      | Some v \<Rightarrow>
          if \<not> (v \<le> of_int MaximumDatePrimitiveValue \<and> v \<ge> - of_int MaximumDatePrimitiveValue) then TIME64NAN else trunc v)"

definition isInValidRange :: "number_arg list \<Rightarrow> bool" where
  "isInValidRange args \<longleftrightarrow>
     list_all (\<lambda>x. x \<noteq> None) args \<and>
     list_all (\<lambda>x. \<bar>the x\<bar> \<le> 2147483647) (take 5 args) \<and> list_all (\<lambda>x. \<bar>the x\<bar> \<le> 2 ^ 63) (drop 5 args)"

datatype DateSetterType = TimeSetter | DaySetter

text \<open>
  An argument of a setter is any value. Its conversion by \<^verbatim>\<open>toNumber\<close> may run a script, which can do
  anything to the date that is being set and to the one the UTC getters share, and may throw.
\<close>

datatype date_number = NumberNaN | NumberInf bool | NumberFinite rat

type_synonym 'e num_script =
  "date_object \<Rightarrow> date_object \<Rightarrow> date_object \<times> date_object \<times> ('e + date_number)"

fun field_of_number :: "date_number \<Rightarrow> number_arg" where
  "field_of_number (NumberFinite v) = Some v"
| "field_of_number _ = None"

text \<open>The conversions of the first \<open>n\<close> arguments, one after the other.\<close>

fun toNumbers ::
    "nat \<Rightarrow> 'e num_script list \<Rightarrow> date_object \<Rightarrow> date_object
       \<Rightarrow> date_object \<times> date_object \<times> ('e + number_arg list)" where
  "toNumbers (Suc n) (s # ss) cu d =
     (case s cu d of
        (cu, d, Inl e) \<Rightarrow> (cu, d, Inl e)
      | (cu, d, Inr v) \<Rightarrow>
          (case toNumbers n ss cu d of
             (cu, d, Inl e) \<Rightarrow> (cu, d, Inl e)
           | (cu, d, Inr vs) \<Rightarrow> (cu, d, Inr (field_of_number v # vs))))"
| "toNumbers _ _ cu d = (cu, d, Inr [])"

text \<open>
  The arguments of a setter with \<open>len\<close> parameters replace the fields from position
  \<open>first - len\<close> on, where \<open>first\<close> is the position behind its group of fields.
\<close>

definition replace_fields :: "nat \<Rightarrow> nat \<Rightarrow> number_arg list \<Rightarrow> number_arg list \<Rightarrow> number_arg list" where
  "replace_fields behind len args fs =
     (let i = behind - len in take i fs @ args @ drop (i + length args) fs)"

definition number_of_date :: "date_object \<Rightarrow> number_arg" where
  "number_of_date d = (if date_isValid d then Some (of_int (m_primitiveValue d)) else None)"

definition local_or_utc_fields ::
    "zone \<Rightarrow> bool \<Rightarrow> date_object \<Rightarrow> date_object \<Rightarrow> date_object \<times> date_object \<times> int list" where
  "local_or_utc_fields z utc cu d =
     (let all = (\<lambda>t. [ti_year t, int (ti_month t), ti_mday t, ti_hour t, ti_min t, ti_sec t, ti_millisec t]) in
      if utc then getUTC_field z all cu d
      else case get_field z all d of (d', v) \<Rightarrow> (cu, d', v))"

definition setTimeValue_args :: "zone \<Rightarrow> date_object \<Rightarrow> number_arg list \<Rightarrow> bool \<Rightarrow> date_object" where
  "setTimeValue_args z d args convertToUTC =
     (case map (\<lambda>x. trunc (the x)) args of
        [year, month, date, hour, minute, second, millisecond] \<Rightarrow>
          setTimeValue_fields z d year month date hour minute second millisecond convertToUTC
      | _ \<Rightarrow> d)"

text \<open>What \<^verbatim>\<open>setFullYear\<close> and \<^verbatim>\<open>setYear\<close> make of an invalid date first: the beginning of 1970, local time.\<close>

definition start_of_1970 :: "zone \<Rightarrow> date_object \<Rightarrow> date_object" where
  "start_of_1970 z d =
     (if \<not> date_isValid d then
        let (d', off) = getTimezoneOffset z (setTimeValue d (timeClip (Some 0))) in setTimeValue d' (off * msPerMinute)
      else d)"

definition builtinDateSetHelper ::
    "zone \<Rightarrow> DateSetterType \<Rightarrow> nat \<Rightarrow> bool \<Rightarrow> date_object \<Rightarrow> date_object \<Rightarrow> 'e num_script list
       \<Rightarrow> date_object \<times> date_object \<times> ('e + number_arg)" where
  "builtinDateSetHelper z setterType len utc cu d args =
     (let d = (if setterType = DaySetter \<and> len = 3 then start_of_1970 z d else d) in
      if args = [] then (cu, setTimeValueAsNaN d, Inr None)
      else
        let (cu, d, fs) = (if date_isValid d then local_or_utc_fields z utc cu d
                               else (cu, d, [0, 0, 0, 0, 0, 0, 0]))
        in case toNumbers len args cu d of
             (cu, d, Inl e) \<Rightarrow> (cu, d, Inl e)
           | (cu, d, Inr vs) \<Rightarrow>
               let fs = replace_fields (if setterType = DaySetter then 3 else 7) len vs (map (\<lambda>i. Some (of_int i)) fs);
                   d = (if \<not> isInValidRange fs then setTimeValueAsNaN d
                        else if date_isValid d then setTimeValue_args z d fs (\<not> utc)
                        else d)
               in (cu, d, Inr (number_of_date d)))"

definition builtinDateSetTime ::
    "date_object \<Rightarrow> date_object \<Rightarrow> 'e num_script list \<Rightarrow> date_object \<times> date_object \<times> ('e + number_arg)" where
  "builtinDateSetTime cu d args =
     (case args of
        s # _ \<Rightarrow>
          (case s cu d of
             (cu, d, Inl e) \<Rightarrow> (cu, d, Inl e)
           | (cu, d, Inr V) \<Rightarrow>
               let d = setTimeValue d (timeClip (field_of_number V)) in (cu, d, Inr (number_of_date d)))
      | [] \<Rightarrow> (cu, setTimeValueAsNaN d, Inr None))"

text \<open>
  \<^verbatim>\<open>setYear\<close> hands a double to an \<^verbatim>\<open>int\<close> parameter without checking its range; what C++ makes of
  a double that does not fit is not defined, and is the parameter \<open>u\<close>.
\<close>

definition int_of_double :: "(date_number \<Rightarrow> int) \<Rightarrow> date_number \<Rightarrow> int" where
  "int_of_double u x =
     (case x of
        NumberFinite v \<Rightarrow> if - (2 ^ 31) \<le> trunc v \<and> trunc v < 2 ^ 31 then trunc v else u x
      | _ \<Rightarrow> u x)"

definition full_year :: "date_number \<Rightarrow> date_number" where
  "full_year y =
     (case y of
        NumberFinite v \<Rightarrow> if 0 \<le> trunc v \<and> trunc v \<le> 99 then NumberFinite (of_int (1900 + trunc v)) else y
      | _ \<Rightarrow> y)"

definition builtinDateSetYear ::
    "(date_number \<Rightarrow> int) \<Rightarrow> zone \<Rightarrow> date_object \<Rightarrow> date_object \<Rightarrow> 'e num_script list
       \<Rightarrow> date_object \<times> date_object \<times> ('e + number_arg)" where
  "builtinDateSetYear u z cu d args =
     (let d = start_of_1970 z d in
      case args of
        [] \<Rightarrow> (cu, setTimeValueAsNaN d, Inr None)
      | s # _ \<Rightarrow>
          (case s cu d of
             (cu, d, Inl e) \<Rightarrow> (cu, d, Inl e)
           | (cu, d, Inr y) \<Rightarrow>
               if y = NumberNaN then (cu, setTimeValueAsNaN d, Inr None)
               else
                 let (d, f) = get_field z (\<lambda>f. f) d;
                     d = (if date_isValid d
                          then setTimeValue_fields z d (int_of_double u (full_year y)) (int (ti_month f)) (ti_mday f)
                                 (ti_hour f) (ti_min f) (ti_sec f) (ti_millisec f) True
                          else d)
                 in (cu, d, Inr (number_of_date d))))"

text \<open>The setters by name; those of \<^verbatim>\<open>FOR_EACH_DATE_VALUES\<close> are calls of the helper.\<close>

datatype date_setter =
    SetMilliseconds | SetUTCMilliseconds | SetSeconds | SetUTCSeconds | SetMinutes | SetUTCMinutes
  | SetHours | SetUTCHours | SetDate | SetUTCDate | SetMonth | SetUTCMonth | SetFullYear | SetUTCFullYear
  | SetTime | SetYear

definition call_setter ::
    "(date_number \<Rightarrow> int) \<Rightarrow> zone \<Rightarrow> date_setter \<Rightarrow> date_object \<Rightarrow> date_object \<Rightarrow> 'e num_script list
       \<Rightarrow> date_object \<times> date_object \<times> ('e + number_arg)" where
  "call_setter u z f =
     (case f of
        SetMilliseconds \<Rightarrow> builtinDateSetHelper z TimeSetter 1 False
      | SetUTCMilliseconds \<Rightarrow> builtinDateSetHelper z TimeSetter 1 True
      | SetSeconds \<Rightarrow> builtinDateSetHelper z TimeSetter 2 False
      | SetUTCSeconds \<Rightarrow> builtinDateSetHelper z TimeSetter 2 True
      | SetMinutes \<Rightarrow> builtinDateSetHelper z TimeSetter 3 False
      | SetUTCMinutes \<Rightarrow> builtinDateSetHelper z TimeSetter 3 True
      | SetHours \<Rightarrow> builtinDateSetHelper z TimeSetter 4 False
      | SetUTCHours \<Rightarrow> builtinDateSetHelper z TimeSetter 4 True
      | SetDate \<Rightarrow> builtinDateSetHelper z DaySetter 1 False
      | SetUTCDate \<Rightarrow> builtinDateSetHelper z DaySetter 1 True
      | SetMonth \<Rightarrow> builtinDateSetHelper z DaySetter 2 False
      | SetUTCMonth \<Rightarrow> builtinDateSetHelper z DaySetter 2 True
      | SetFullYear \<Rightarrow> builtinDateSetHelper z DaySetter 3 False
      | SetUTCFullYear \<Rightarrow> builtinDateSetHelper z DaySetter 3 True
      | SetTime \<Rightarrow> builtinDateSetTime
      | SetYear \<Rightarrow> builtinDateSetYear u z)"

section \<open>What the fields show\<close>

definition shows_time :: "timeinfo \<Rightarrow> int \<Rightarrow> bool" where
  "shows_time f t \<longleftrightarrow>
     valid_date (ti_year f) (ti_month f) (ti_mday f) \<and>
     t div msPerDay = year_day (ti_year f) + firstDayOfMonth (leap_year (ti_year f)) ! ti_month f + ti_mday f - 1 \<and>
     ti_hour f = t div msPerHour mod 24 \<and> ti_min f = t div msPerMinute mod 60 \<and>
     ti_sec f = t div msPerSecond mod 60 \<and> ti_millisec f = t mod msPerSecond \<and>
     ti_wday f = (t div msPerDay + 4) mod 7"

definition local_time :: "zone \<Rightarrow> int \<Rightarrow> int" where
  "local_time z t = t + i32 (zone_offset z (t + msBetweenYears t) + dst_offset z (t + msBetweenYears t))"

lemma time_in_day:
  fixes t :: int
  defines "r \<equiv> t - t div msPerDay * msPerDay"
  shows "r div msPerHour = t div msPerHour mod 24" "r div msPerMinute mod 60 = t div msPerMinute mod 60"
    "r div msPerSecond mod 60 = t div msPerSecond mod 60" "r mod msPerSecond = t mod msPerSecond" "0 \<le> r" "r < msPerDay"
proof -
  have r: "r = t mod msPerDay" by (simp add: r_def minus_div_mult_eq_mod)
  show "0 \<le> r" "r < msPerDay" by (simp_all add: r)
  have part: "t mod (k * n) div n = t div n mod k" if "0 < n" "0 < k" for k n :: int
    using that zmod_zmult2_eq [of k t n] by (simp add: mult.commute)
  show "r div msPerHour = t div msPerHour mod 24" using part [of msPerHour 24] by (simp add: r)
  have "r div msPerMinute = t div msPerMinute mod 1440" using part [of msPerMinute 1440] by (simp add: r)
  then show "r div msPerMinute mod 60 = t div msPerMinute mod 60" by (simp add: mod_mod_cancel)
  have "r div msPerSecond = t div msPerSecond mod 86400" using part [of msPerSecond 86400] by (simp add: r)
  then show "r div msPerSecond mod 60 = t div msPerSecond mod 60" by (simp add: mod_mod_cancel)
  show "r mod msPerSecond = t mod msPerSecond" by (simp add: r mod_mod_cancel)
qed

lemma weekday_eq: "(let w = (n + 4) smod 7 in if w \<ge> 0 then w else w + 7) = (n + 4) mod (7 :: int)"
proof (cases "0 \<le> n + 4")
  case True
  then show ?thesis by (simp add: smod_pos)
next
  case False
  then have "(if (n + 4) smod 7 = 0 then 0 else 7 + (n + 4) smod 7) = (n + 4) mod 7"
    by (intro negative_remainder) simp_all
  moreover have "(n + 4) smod 7 \<le> 0" using False by (simp add: smod_neg)
  ultimately show ?thesis by (auto simp: Let_def split: if_splits)
qed

lemma resolveCache_shows:
  assumes "near_range (local_time z (m_primitiveValue d))"
  shows "shows_time (m_cachedLocal (resolveCache z d)) (local_time z (m_primitiveValue d))"
proof -
  let ?t = "local_time z (m_primitiveValue d)"
  obtain m e where ymd: "getYMDFromTime (ti_month (m_cachedLocal d)) ?t = (yearFromTime ?t, m, e)"
    "valid_date (yearFromTime ?t) m e"
    "?t div msPerDay = year_day (yearFromTime ?t) + firstDayOfMonth (leap_year (yearFromTime ?t)) ! m + e - 1"
    using ymd_spec [OF assms, of "ti_month (m_cachedLocal d)"] by blast
  note days = daysFromTime_floor [OF assms]
  define r where "r = ?t - ?t div msPerDay * msPerDay"
  note in_day = time_in_day [of ?t, folded r_def]
  have r: "i32 (?t - daysFromTime ?t * msPerDay) = r"
    unfolding days r_def [symmetric] using in_day(5, 6) by (intro i32_id) simp_all
  have pos: "0 \<le> r div msPerMinute" "0 \<le> r div msPerSecond" using in_day(5) by (simp_all add: pos_imp_zdiv_nonneg_iff)
  have t: "m_primitiveValue d + msBetweenYears (m_primitiveValue d)
      + i32 (zone_offset z (m_primitiveValue d + msBetweenYears (m_primitiveValue d))
             + dst_offset z (m_primitiveValue d + msBetweenYears (m_primitiveValue d)))
      - msBetweenYears (m_primitiveValue d) = ?t" by (simp add: local_time_def)
  let ?c = "m_cachedLocal (resolveCache z d)"
  have c: "ti_year ?c = yearFromTime ?t" "ti_month ?c = m" "ti_mday ?c = e" "ti_hour ?c = r div msPerHour"
    "ti_min ?c = r div msPerMinute mod 60" "ti_sec ?c = r div msPerSecond mod 60" "ti_millisec ?c = r mod msPerSecond"
    "ti_wday ?c = (?t div msPerDay + 4) mod 7"
    using in_day(5) pos
    by (simp_all add: resolveCache_def Let_def t ymd(1) r [unfolded days] days sdiv_pos smod_pos
        weekday_eq [unfolded Let_def])
  show ?thesis unfolding shows_time_def c in_day by (intro conjI ymd(2, 3) refl)
qed

lemma time_of_fields:
  "(t :: int) = t div msPerDay * msPerDay + t div msPerHour mod 24 * msPerHour + t div msPerMinute mod 60 * msPerMinute
      + t div msPerSecond mod 60 * msPerSecond + t mod msPerSecond"
proof -
  have step: "a div n = a div (n * k) * k + a div n mod k" if "0 < n" "0 < k" for a n k :: int
    using that by (simp add: zdiv_zmult2_eq)
  have "t = t div msPerSecond * msPerSecond + t mod msPerSecond" by simp
  moreover have "t div msPerSecond = t div msPerMinute * 60 + t div msPerSecond mod 60" using step [of msPerSecond 60 t] by simp
  moreover have "t div msPerMinute = t div msPerHour * 60 + t div msPerMinute mod 60" using step [of msPerMinute 60 t] by simp
  moreover have "t div msPerHour = t div msPerDay * 24 + t div msPerHour mod 24" using step [of msPerHour 24 t] by simp
  ultimately show ?thesis by linarith
qed

lemma timeinfoToMs_shows:
  assumes "shows_time f t" "\<bar>ti_year f\<bar> \<le> 1000000" "\<bar>t\<bar> \<le> 8700000000000000"
  shows "timeinfoToMs (ti_year f) (ti_month f) (ti_mday f) (ti_hour f) (ti_min f) (ti_sec f) (ti_millisec f) = t"
proof -
  have v: "ti_month f < 12" "1 \<le> ti_mday f" "ti_mday f \<le> month_length (ti_year f) (ti_month f)"
    using assms(1) by (auto simp: shows_time_def valid_date_def)
  have "month_length (ti_year f) (ti_month f) \<le> 366"
    using v(1) month_table(1) [of "ti_month f" "ti_year f"] month_day_bounds [of "ti_month f" "leap_year (ti_year f)"]
      month_day_bounds [of "Suc (ti_month f)" "leap_year (ti_year f)"] by simp
  then have days: "daysToMs (ti_year f) (ti_month f) (ti_mday f) = t div msPerDay * msPerDay"
    using daysToMs_eq [OF assms(2) v(1)] v assms(1) by (simp add: shows_time_def)
  have "0 \<le> ti_sec f" "ti_sec f < 60" using assms(1) by (simp_all add: shows_time_def)
  then have "i64 (ti_sec f * msPerSecond) = ti_sec f * msPerSecond" by (intro i64_id) auto
  moreover have "i64 t = t" using assms(3) by (intro i64_id) auto
  moreover have "t div msPerDay * msPerDay + ti_hour f * msPerHour + ti_min f * msPerMinute + ti_sec f * msPerSecond
      + ti_millisec f = t"
  proof -
    have "ti_hour f = t div msPerHour mod 24" "ti_min f = t div msPerMinute mod 60" "ti_sec f = t div msPerSecond mod 60"
      "ti_millisec f = t mod msPerSecond" using assms(1) by (simp_all add: shows_time_def)
    then show ?thesis by (simp only: time_of_fields [symmetric])
  qed
  ultimately show ?thesis by (simp only: timeinfoToMs_def days)
qed

section \<open>Zones with a fixed offset\<close>

definition fixed_zone :: "zone \<Rightarrow> int \<Rightarrow> bool" where
  "fixed_zone z c \<longleftrightarrow> \<bar>c\<bar> \<le> 1440 \<and> (\<forall>t. zone_offset z t = c * msPerMinute \<and> dst_offset z t = 0 \<and> \<not> zone_fails z t)"

lemma fixed_local_time: "fixed_zone z c \<Longrightarrow> local_time z t = t + c * msPerMinute"
  by (auto simp: fixed_zone_def local_time_def intro!: i32_id)

lemma fixed_near: "fixed_zone z c \<Longrightarrow> IS_IN_TIME_RANGE t \<Longrightarrow> near_range (t + c * msPerMinute)"
  by (auto simp: fixed_zone_def near_range_def IS_IN_TIME_RANGE_def MaximumDatePrimitiveValue_def)

lemma shows_year: "shows_time f t \<Longrightarrow> near_range t \<Longrightarrow> ti_year f = yearFromTime t"
proof -
  assume f: "shows_time f t" and t: "near_range t"
  obtain m e where ymd: "valid_date (yearFromTime t) m e"
    "t div msPerDay = year_day (yearFromTime t) + firstDayOfMonth (leap_year (yearFromTime t)) ! m + e - 1"
    using ymd_spec [OF t] by blast
  then show ?thesis
    using f date_unique [of "ti_year f" "ti_month f" "ti_mday f" "yearFromTime t" m e] by (simp add: shows_time_def)
qed

lemma shows_year_bound: "shows_time f t \<Longrightarrow> near_range t \<Longrightarrow> \<bar>ti_year f\<bar> \<le> 1000000"
  using shows_year [of f t] yearFromTime_spec(3) [of t] by simp

text \<open>
  Setting the fields of the local time that a date shows gives the date back, in a zone with a
  fixed offset.
\<close>

theorem set_shown_fields:
  assumes "fixed_zone z c" "IS_IN_TIME_RANGE t" "shows_time f (local_time z t)"
  shows "m_primitiveValue (setTimeValue_fields z d (ti_year f) (int (ti_month f)) (ti_mday f) (ti_hour f) (ti_min f)
    (ti_sec f) (ti_millisec f) True) = t"
proof -
  note near = fixed_near [OF assms(1, 2)]
  have f: "shows_time f (t + c * msPerMinute)" using assms(3) fixed_local_time [OF assms(1)] by simp
  have y: "\<bar>ti_year f\<bar> \<le> 1000000" using shows_year_bound [OF f near] .
  have m: "ti_month f < 12" using f by (simp add: shows_time_def valid_date_def)
  have "double_div_floor (int (ti_month f)) 12 = 0" using m by (subst double_div_floor_exact) auto
  then have year: "i32 (ti_year f + double_div_floor (int (ti_month f)) 12) = ti_year f" using y by (simp add: i32_id)
  have month: "int (ti_month f) smod 12 = int (ti_month f)" using m by (simp add: smod_pos)
  have ms: "timeinfoToMs (ti_year f) (ti_month f) (ti_mday f) (ti_hour f) (ti_min f) (ti_sec f) (ti_millisec f) = t + c * msPerMinute"
    using timeinfoToMs_shows [OF f y] near by (simp add: near_range_def)
  have off: "i32 (c * msPerMinute) = c * msPerMinute" using assms(1) by (intro i32_id) (auto simp: fixed_zone_def)
  have "applyLocalTimezoneOffset z (t + c * msPerMinute) = t"
    using assms(1, 2) off by (simp add: applyLocalTimezoneOffset_def fixed_zone_def Let_def)
  then show ?thesis
    using assms(2) by (auto simp: setTimeValue_fields_def Let_def year month ms IS_VALID_TIME_def TIME64NAN_def
        IS_IN_TIME_RANGE_def MaximumDatePrimitiveValue_def)
qed

definition zone_of_minutes :: "int \<Rightarrow> zone" where
  "zone_of_minutes c = \<lparr>zone_offset = (\<lambda>_. c * msPerMinute), dst_offset = (\<lambda>_. 0), zone_fails = (\<lambda>_. False)\<rparr>"

lemma zone_of_minutes_fixed: "\<bar>c\<bar> \<le> 1440 \<Longrightarrow> fixed_zone (zone_of_minutes c) c"
  by (simp add: fixed_zone_def zone_of_minutes_def)

theorem set_shown_fields_witness:
  "\<exists>f. shows_time f (1582934400000 + 540 * 60000) \<and>
     m_primitiveValue (setTimeValue_fields (zone_of_minutes 540)
       date_init (ti_year f) (int (ti_month f)) (ti_mday f) (ti_hour f) (ti_min f) (ti_sec f) (ti_millisec f) True) = 1582934400000"
proof -
  have z: "fixed_zone (zone_of_minutes 540) 540" by (rule zone_of_minutes_fixed) simp
  have t: "IS_IN_TIME_RANGE 1582934400000" by code_simp
  define d where "d = setTimeValue date_init 1582934400000"
  have d: "m_primitiveValue d = 1582934400000" by (simp add: d_def setTimeValue_def Let_def)
  have "near_range (local_time (zone_of_minutes 540) (m_primitiveValue d))"
    unfolding d fixed_local_time [OF z] by (rule fixed_near [OF z t])
  then have f: "shows_time (m_cachedLocal (resolveCache (zone_of_minutes 540) d)) (local_time (zone_of_minutes 540) 1582934400000)"
    using resolveCache_shows by (fastforce simp: d)
  then show ?thesis
    using set_shown_fields [OF z t f, of date_init] fixed_local_time [OF z, of 1582934400000] by metis
qed

section \<open>The cached fields\<close>

definition zone_ok :: "zone \<Rightarrow> bool" where
  "zone_ok z \<longleftrightarrow> (\<forall>t. \<bar>zone_offset z t + dst_offset z t\<bar> \<le> msPerDay)"

definition offset_minutes :: "zone \<Rightarrow> int \<Rightarrow> int" where
  "offset_minutes z t = (t - local_time z t) sdiv msPerMinute"

definition date_ok :: "zone \<Rightarrow> date_object \<Rightarrow> bool" where
  "date_ok z d \<longleftrightarrow>
     (date_isValid d \<longrightarrow>
        \<bar>m_primitiveValue d\<bar> \<le> MaximumDatePrimitiveValue + msPerDay \<and>
        (\<not> m_isCacheDirty d \<longrightarrow>
           shows_time (m_cachedLocal d) (local_time z (m_primitiveValue d)) \<and>
           ti_gmtoff (m_cachedLocal d) = offset_minutes z (m_primitiveValue d)))"

definition date_in_range :: "date_object \<Rightarrow> bool" where
  "date_in_range d \<longleftrightarrow> (date_isValid d \<longrightarrow> IS_IN_TIME_RANGE (m_primitiveValue d))"

lemma offset_bound:
  assumes "zone_ok z"
  shows "\<bar>local_time z t - t\<bar> \<le> msPerDay" "\<bar>offset_minutes z t\<bar> \<le> 1440"
proof -
  show b: "\<bar>local_time z t - t\<bar> \<le> msPerDay"
  proof -
    let ?s = "zone_offset z (t + msBetweenYears t) + dst_offset z (t + msBetweenYears t)"
    have "\<bar>?s\<bar> \<le> msPerDay" using assms by (simp add: zone_ok_def)
    moreover from this have "i32 ?s = ?s" by (intro i32_id) auto
    ultimately show ?thesis by (simp add: local_time_def)
  qed
  have "\<bar>t - local_time z t\<bar> div msPerMinute \<le> msPerDay div msPerMinute" using b by (intro zdiv_mono1) auto
  then show "\<bar>offset_minutes z t\<bar> \<le> 1440"
    by (auto simp: offset_minutes_def signed_divide_int_def abs_mult sgn_if)
qed

lemma resolveCache_gmtoff:
  "m_primitiveValue (resolveCache z d) = m_primitiveValue d" "\<not> m_isCacheDirty (resolveCache z d)"
  "ti_gmtoff (m_cachedLocal (resolveCache z d)) = offset_minutes z (m_primitiveValue d)"
  by (simp_all add: resolveCache_def Let_def offset_minutes_def local_time_def split: prod.split)

lemma RESOLVECACHE_ok:
  assumes "zone_ok z" "date_ok z d"
  shows "date_ok z (RESOLVECACHE z d)" "m_primitiveValue (RESOLVECACHE z d) = m_primitiveValue d"
    "\<not> m_isCacheDirty (RESOLVECACHE z d)"
proof -
  have "near_range (local_time z (m_primitiveValue d))" if "date_isValid d"
    using that assms(2) offset_bound(1) [OF assms(1), of "m_primitiveValue d"]
    by (auto simp: date_ok_def near_range_def MaximumDatePrimitiveValue_def)
  then show "date_ok z (RESOLVECACHE z d)" "m_primitiveValue (RESOLVECACHE z d) = m_primitiveValue d"
    "\<not> m_isCacheDirty (RESOLVECACHE z d)"
    using assms(2) resolveCache_shows [of z d] resolveCache_gmtoff [of z d]
    by (auto simp: RESOLVECACHE_def date_ok_def date_isValid_def)
qed

lemma setTimeValue_ok:
  "\<bar>t\<bar> \<le> MaximumDatePrimitiveValue + msPerDay \<Longrightarrow> date_ok z (setTimeValue d t)"
  "m_primitiveValue (setTimeValue d t) = t"
  by (auto simp: setTimeValue_def Let_def date_ok_def date_isValid_def IS_VALID_TIME_def TIME64NAN_def
      MaximumDatePrimitiveValue_def)

lemma setTimeValue_fields_store:
  "\<exists>p. setTimeValue_fields z d y m dd h mi s ms b =
     (if IS_VALID_TIME p \<and> IS_IN_TIME_RANGE p then d\<lparr>m_primitiveValue := p\<rparr> else setTimeValueAsNaN d)\<lparr>m_isCacheDirty := True\<rparr>"
  unfolding setTimeValue_fields_def Let_def by blast

lemma setTimeValue_fields_ok:
  "date_ok z (setTimeValue_fields z d y m dd h mi s ms b)" "date_in_range (setTimeValue_fields z d y m dd h mi s ms b)"
  using setTimeValue_fields_store [of z d y m dd h mi s ms b]
  by (auto simp: date_ok_def date_in_range_def date_isValid_def setTimeValueAsNaN_def IS_VALID_TIME_def IS_IN_TIME_RANGE_def)

lemma getUTC_ok:
  assumes "zone_ok z" "date_ok z cu" "date_ok z d" "date_in_range d" "date_isValid d"
    and "getUTC_field z field cu d = (cu', d', v)"
  shows "date_ok z cu' \<and> date_ok z d' \<and> m_primitiveValue d' = m_primitiveValue d \<and> \<not> m_isCacheDirty d'
    \<and> date_isValid cu' \<and> \<not> m_isCacheDirty cu' \<and> v = field (m_cachedLocal cu')
    \<and> (let off = offset_minutes z (m_primitiveValue d); p = m_primitiveValue d + off * msPerMinute in
         offset_minutes z p = off \<longrightarrow> m_primitiveValue cu' = p)"
proof -
  define d1 off where "d1 = RESOLVECACHE z d" and "off = ti_gmtoff (m_cachedLocal d1)"
  note d1 = RESOLVECACHE_ok [OF assms(1, 3), folded d1_def]
  have off: "off = offset_minutes z (m_primitiveValue d)"
    using d1 assms(5) by (auto simp: off_def date_ok_def date_isValid_def)
  have p: "\<bar>m_primitiveValue d + k * msPerMinute\<bar> \<le> MaximumDatePrimitiveValue + msPerDay" if "\<bar>k\<bar> \<le> 1440" for k
    using that assms(4, 5) by (auto simp: date_in_range_def IS_IN_TIME_RANGE_def)
  have pv: "IS_VALID_TIME (m_primitiveValue d + k * msPerMinute)" if "\<bar>k\<bar> \<le> 1440" for k
    using p [OF that] by (auto simp: IS_VALID_TIME_def TIME64NAN_def MaximumDatePrimitiveValue_def)
  define cu1 where "cu1 = setTimeValue cu (m_primitiveValue d + off * msPerMinute)"
  define cu2 where "cu2 = RESOLVECACHE z cu1"
  define cu3 where "cu3 = (if \<not> date_isValid cu \<or> m_primitiveValue cu \<noteq> m_primitiveValue d + off * msPerMinute then
      if ti_gmtoff (m_cachedLocal cu2) \<noteq> off
      then setTimeValue cu2 (m_primitiveValue d + ti_gmtoff (m_cachedLocal cu2) * msPerMinute) else cu2
    else cu)"
  have o1: "\<bar>off\<bar> \<le> 1440" using offset_bound(2) [OF assms(1)] off by simp
  have cu1: "date_ok z cu1" unfolding cu1_def by (rule setTimeValue_ok(1) [OF p [OF o1]])
  note cu2 = RESOLVECACHE_ok [OF assms(1) cu1, folded cu2_def]
  have v2: "date_isValid cu2" using cu2(2) pv [OF o1] by (simp add: date_isValid_def cu1_def setTimeValue_ok(2))
  have p2: "m_primitiveValue cu2 = m_primitiveValue d + off * msPerMinute"
    using cu2(2) by (simp add: cu1_def setTimeValue_ok(2))
  have g2: "ti_gmtoff (m_cachedLocal cu2) = offset_minutes z (m_primitiveValue cu2)"
    using cu2 v2 by (simp add: date_ok_def)
  then have o2: "\<bar>ti_gmtoff (m_cachedLocal cu2)\<bar> \<le> 1440" using offset_bound(2) [OF assms(1)] by simp
  have cu3: "date_ok z cu3" "date_isValid cu3"
    using cu2(1) v2 assms(2) setTimeValue_ok(1) [OF p [OF o2]] pv [OF o2] by (auto simp: cu3_def date_isValid_def setTimeValue_ok(2))
  have "offset_minutes z (m_primitiveValue d + off * msPerMinute) = off \<longrightarrow>
      m_primitiveValue cu3 = m_primitiveValue d + off * msPerMinute"
    using g2 p2 by (simp add: cu3_def)
  moreover note last = RESOLVECACHE_ok [OF assms(1) cu3(1)]
  moreover have "getUTC_field z field cu d = (RESOLVECACHE z cu3, d1, field (m_cachedLocal (RESOLVECACHE z cu3)))"
    using d1(2) by (simp add: getUTC_field_def getTimezoneOffset_def get_field_def Let_def cu3_def cu2_def cu1_def
        off_def d1_def split: if_split)
  ultimately show ?thesis using assms(6) d1 cu3(2) off by (auto simp: date_isValid_def Let_def)
qed

lemma trunc_bounds: "\<bar>v\<bar> \<le> of_int b \<Longrightarrow> \<bar>trunc v\<bar> \<le> b"
proof (cases "v < 0")
  case True
  assume "\<bar>v\<bar> \<le> of_int b"
  then have "0 \<le> \<lfloor>- v\<rfloor>" "\<lfloor>- v\<rfloor> \<le> b" using True by (auto simp: floor_le_iff le_floor_iff)
  then show ?thesis using True by (simp add: trunc_def)
next
  case False
  assume "\<bar>v\<bar> \<le> of_int b"
  then have "0 \<le> \<lfloor>v\<rfloor>" "\<lfloor>v\<rfloor> \<le> b" using False by (auto simp: floor_le_iff le_floor_iff)
  then show ?thesis using False by (simp add: trunc_def)
qed

lemma timeClip_range: "IS_VALID_TIME (timeClip V) \<Longrightarrow> IS_IN_TIME_RANGE (timeClip V)"
proof (cases V)
  case (Some v)
  assume valid: "IS_VALID_TIME (timeClip V)"
  then have "\<bar>v\<bar> \<le> of_int MaximumDatePrimitiveValue" using Some
    by (auto simp: timeClip_def IS_VALID_TIME_def abs_le_iff split: if_splits)
  from trunc_bounds [OF this] show ?thesis using Some valid
    by (auto simp: timeClip_def IS_IN_TIME_RANGE_def IS_VALID_TIME_def abs_le_iff split: if_splits)
qed (simp add: timeClip_def IS_VALID_TIME_def)

text \<open>A date that is given a time, and that keeps the state valid.\<close>

lemma setTimeValue_in_range:
  assumes "IS_VALID_TIME t \<longrightarrow> IS_IN_TIME_RANGE t"
  shows "date_ok z (setTimeValue d t)" "date_in_range (setTimeValue d t)"
  using assms
  by (auto simp: setTimeValue_def Let_def date_ok_def date_in_range_def date_isValid_def IS_IN_TIME_RANGE_def)

section \<open>The setters keep dates\<close>

text \<open>
  What every piece of the program keeps: the cache of the shared date and of the date itself, and
  the range. A script that is run by a conversion keeps it too when it reaches dates through
  their methods only.
\<close>

definition dates_ok :: "zone \<Rightarrow> date_object \<Rightarrow> date_object \<Rightarrow> bool" where
  "dates_ok z cu d \<longleftrightarrow> date_ok z cu \<and> date_ok z d \<and> date_in_range d"

definition keeps_dates :: "zone \<Rightarrow> 'e num_script \<Rightarrow> bool" where
  "keeps_dates z s \<longleftrightarrow> (\<forall>cu d cu' d' r. dates_ok z cu d \<longrightarrow> s cu d = (cu', d', r) \<longrightarrow> dates_ok z cu' d')"

lemma invalid_ok: "dates_ok z cu d \<Longrightarrow> dates_ok z cu (setTimeValueAsNaN e)" "number_of_date (setTimeValueAsNaN e) = None"
  by (simp_all add: dates_ok_def date_ok_def date_in_range_def number_of_date_def date_isValid_def setTimeValueAsNaN_def IS_VALID_TIME_def)

lemma start_of_1970_ok:
  assumes "zone_ok z" "dates_ok z cu d"
  shows "dates_ok z cu (start_of_1970 z d)"
proof -
  have zero: "date_ok z (setTimeValue d 0)" by (rule setTimeValue_ok(1)) (simp add: MaximumDatePrimitiveValue_def)
  have clip: "timeClip (Some 0) = 0" by (simp add: timeClip_def trunc_def MaximumDatePrimitiveValue_def)
  have "\<bar>snd (getTimezoneOffset z (setTimeValue d 0))\<bar> \<le> 1440"
    using RESOLVECACHE_ok [OF assms(1) zero] offset_bound(2) [OF assms(1)]
    by (simp add: getTimezoneOffset_def get_field_def Let_def date_ok_def date_isValid_def setTimeValue_ok(2)
        IS_VALID_TIME_def TIME64NAN_def)
  then show ?thesis
    using assms(2) by (auto simp: start_of_1970_def clip dates_ok_def date_in_range_def setTimeValue_ok Let_def
        MaximumDatePrimitiveValue_def IS_IN_TIME_RANGE_def split: prod.split)
qed

lemma local_or_utc_fields_ok:
  assumes "zone_ok z" "dates_ok z cu d" "date_isValid d" "local_or_utc_fields z utc cu d = (cu', d', fs)"
  shows "dates_ok z cu' d'"
proof (cases utc)
  case True
  then have "getUTC_field z (\<lambda>t. [ti_year t, int (ti_month t), ti_mday t, ti_hour t, ti_min t, ti_sec t, ti_millisec t]) cu d = (cu', d', fs)"
    using assms(4) by (simp add: local_or_utc_fields_def)
  from getUTC_ok [OF assms(1) _ _ _ assms(3) this] assms(2) show ?thesis
    by (simp add: dates_ok_def date_in_range_def date_isValid_def)
next
  case False
  then show ?thesis
    using assms(2, 4) RESOLVECACHE_ok [OF assms(1), of d]
    by (auto simp: dates_ok_def local_or_utc_fields_def get_field_def Let_def date_in_range_def date_isValid_def)
qed

lemma setTimeValue_args_ok: "dates_ok z cu d \<Longrightarrow> dates_ok z cu (setTimeValue_args z d fs b)"
  using setTimeValue_fields_ok by (auto simp: dates_ok_def setTimeValue_args_def split: list.split)

lemma toNumbers_ok:
  "list_all (keeps_dates z) ss \<Longrightarrow> dates_ok z cu d \<Longrightarrow> toNumbers n ss cu d = (cu', d', r) \<Longrightarrow> dates_ok z cu' d'"
proof (induction n ss cu d arbitrary: cu' d' r rule: toNumbers.induct)
  case (1 n s ss cu d)
  obtain cu1 d1 x where s: "s cu d = (cu1, d1, x)" by (metis prod_cases3)
  with 1 have ok: "dates_ok z cu1 d1" by (simp add: keeps_dates_def)
  show ?case
  proof (cases x)
    case (Inr v)
    obtain cu2 d2 y where ss: "toNumbers n ss cu1 d1 = (cu2, d2, y)" by (metis prod_cases3)
    then have "dates_ok z cu2 d2" using "1.IH" [OF s [symmetric] refl Inr] "1.prems"(1) ok by simp
    then show ?thesis using "1.prems"(3) s ss Inr by (auto split: sum.splits)
  qed (use "1.prems"(3) s ok in simp)
qed simp_all

lemma builtinDateSetHelper_ok:
  assumes "zone_ok z" "dates_ok z cu d" "list_all (keeps_dates z) args"
    and "builtinDateSetHelper z setter len utc cu d args = (cu', d', r)"
  shows "dates_ok z cu' d' \<and> (\<forall>v. r = Inr v \<longrightarrow> v = number_of_date d')"
proof -
  define d0 where "d0 = (if setter = DaySetter \<and> len = 3 then start_of_1970 z d else d)"
  have d0: "dates_ok z cu d0" using start_of_1970_ok [OF assms(1, 2)] assms(2) by (simp add: d0_def)
  obtain cu1 d1 fs where f: "(if date_isValid d0 then local_or_utc_fields z utc cu d0 else (cu, d0, [0, 0, 0, 0, 0, 0, 0])) = (cu1, d1, fs)"
    by (metis prod_cases3)
  then have d1: "dates_ok z cu1 d1" using local_or_utc_fields_ok [OF assms(1) d0] d0 by (auto split: if_splits)
  obtain cu2 d2 x where n: "toNumbers len args cu1 d1 = (cu2, d2, x)" by (metis prod_cases3)
  then have d2: "dates_ok z cu2 d2" by (rule toNumbers_ok [OF assms(3) d1])
  have "args \<noteq> [] \<Longrightarrow> (cu', d', r) = (case x of Inl e \<Rightarrow> (cu2, d2, Inl e) | Inr vs \<Rightarrow>
      let gs = replace_fields (if setter = DaySetter then 3 else 7) len vs (map (\<lambda>i. Some (of_int i)) fs);
          e = (if \<not> isInValidRange gs then setTimeValueAsNaN d2
            else if date_isValid d2 then setTimeValue_args z d2 gs (\<not> utc) else d2) in (cu2, e, Inr (number_of_date e)))"
    using assms(4) unfolding builtinDateSetHelper_def d0_def [symmetric] Let_def f by (simp add: n split: sum.split)
  moreover have "args = [] \<Longrightarrow> (cu', d', r) = (cu, setTimeValueAsNaN d0, Inr None)"
    using assms(4) by (simp add: builtinDateSetHelper_def d0_def Let_def)
  ultimately show ?thesis
    using d2 invalid_ok(1) [OF d0] invalid_ok(1) [OF d2] setTimeValue_args_ok [OF d2]
    by (cases "args = []"; cases x) (auto simp: Let_def invalid_ok(2))
qed

lemma builtinDateSetTime_ok:
  assumes "dates_ok z cu d" "list_all (keeps_dates z) args" "builtinDateSetTime cu d args = (cu', d', r)"
  shows "dates_ok z cu' d' \<and> (\<forall>v. r = Inr v \<longrightarrow> v = number_of_date d')"
proof (cases args)
  case Nil
  then show ?thesis using assms invalid_ok by (auto simp: builtinDateSetTime_def)
next
  case (Cons s ss)
  obtain cu1 d1 x where s: "s cu d = (cu1, d1, x)" by (metis prod_cases3)
  with assms(1, 2) Cons have "dates_ok z cu1 d1" by (simp add: keeps_dates_def)
  then show ?thesis
    using assms(3) Cons s setTimeValue_in_range timeClip_range
    by (auto simp: builtinDateSetTime_def dates_ok_def Let_def split: sum.splits)
qed

lemma builtinDateSetYear_ok:
  assumes "zone_ok z" "dates_ok z cu d" "list_all (keeps_dates z) args"
    and "builtinDateSetYear u z cu d args = (cu', d', r)"
  shows "dates_ok z cu' d' \<and> (\<forall>v. r = Inr v \<longrightarrow> v = number_of_date d')"
proof (cases args)
  case Nil
  then show ?thesis using assms(4) invalid_ok(1) [OF assms(2)] by (auto simp: builtinDateSetYear_def invalid_ok(2) Let_def)
next
  case (Cons s ss)
  obtain cu1 d1 x where s: "s cu (start_of_1970 z d) = (cu1, d1, x)" by (metis prod_cases3)
  have ok: "dates_ok z cu1 d1"
    using assms(3) Cons s start_of_1970_ok [OF assms(1, 2)] by (simp add: keeps_dates_def)
  then have "dates_ok z cu1 (RESOLVECACHE z d1)"
    using RESOLVECACHE_ok [OF assms(1), of d1] by (simp add: dates_ok_def date_in_range_def date_isValid_def)
  then show ?thesis
    using assms(4) Cons s ok invalid_ok(1) [OF ok] setTimeValue_fields_ok
    by (auto simp: invalid_ok(2) builtinDateSetYear_def get_field_def dates_ok_def Let_def split: sum.splits if_splits)
qed

section \<open>Properties\<close>

text \<open>
  C19. Whichever setter of the prototype is called, \<^verbatim>\<open>setTime\<close> and \<^verbatim>\<open>setYear\<close> included, and whatever
  its arguments are: the date is invalid or within the range of the standard afterwards, the
  fields it has cached are those of its local time, and the date that the UTC getters share has
  a coherent cache too. This holds also when the conversion of an argument runs a script that
  sets this date meanwhile, or throws, as long as the script itself keeps dates so. A setter
  that does not throw returns the time value.
\<close>

theorem date_setters_keep_dates:
  assumes "zone_ok z" "date_ok z cu" "date_ok z d" "date_in_range d"
    and "list_all (keeps_dates z) args" "call_setter u z f cu d args = (cu', d', r)"
  shows "date_ok z cu' \<and> date_ok z d' \<and> date_in_range d' \<and> (\<forall>v. r = Inr v \<longrightarrow> v = number_of_date d')"
proof -
  have d: "dates_ok z cu d" using assms(2-4) by (simp add: dates_ok_def)
  have "dates_ok z cu' d' \<and> (\<forall>v. r = Inr v \<longrightarrow> v = number_of_date d')"
    using assms(6) builtinDateSetHelper_ok [OF assms(1) d assms(5)] builtinDateSetTime_ok [OF d assms(5)]
      builtinDateSetYear_ok [OF assms(1) d assms(5)]
    by (cases f) (simp_all add: call_setter_def)
  then show ?thesis by (simp add: dates_ok_def)
qed

lemma fixed_zone_ok: "fixed_zone z c \<Longrightarrow> zone_ok z"
  by (auto simp: fixed_zone_def zone_ok_def)

lemma date_init_ok: "date_ok z date_init" "date_in_range date_init"
  by (simp_all add: date_ok_def date_in_range_def date_init_def date_isValid_def IS_VALID_TIME_def)

lemma number_keeps_dates: "keeps_dates z (\<lambda>cu d. (cu, d, x))"
  by (simp add: keeps_dates_def)

text \<open>An argument whose conversion calls \<^verbatim>\<open>setTime\<close> on the date that is being set, and yields 2020.\<close>

definition meddling_year :: "rat \<Rightarrow> unit num_script" where
  "meddling_year t = (\<lambda>cu d.
     let (cu, d, _) = builtinDateSetTime cu d [\<lambda>cu d. (cu, d, Inr (NumberFinite t) :: unit + date_number)]
     in (cu, d, Inr (NumberFinite 2020)))"

lemma meddling_year_keeps_dates: "keeps_dates z (meddling_year t)"
  using builtinDateSetTime_ok [of z _ _ "[\<lambda>cu d. (cu, d, Inr (NumberFinite t))]"] number_keeps_dates [of z]
  by (fastforce simp: keeps_dates_def meddling_year_def Let_def split: prod.splits)

theorem date_setters_keep_dates_witness:
  "\<exists>cu' d' r. call_setter (\<lambda>_. 0) (zone_of_minutes 540) SetFullYear date_init date_init [meddling_year 7] = (cu', d', r)
     \<and> date_ok (zone_of_minutes 540) d' \<and> date_in_range d' \<and> (\<forall>v. r = Inr v \<longrightarrow> v = number_of_date d')"
proof -
  have z: "zone_ok (zone_of_minutes 540)" by (rule fixed_zone_ok [OF zone_of_minutes_fixed]) simp
  have args: "list_all (keeps_dates (zone_of_minutes 540)) [meddling_year 7]" by (simp add: meddling_year_keeps_dates)
  obtain cu' d' r where r: "call_setter (\<lambda>_. 0) (zone_of_minutes 540) SetFullYear date_init date_init [meddling_year 7] = (cu', d', r)"
    by (metis prod_cases3)
  from date_setters_keep_dates [OF z date_init_ok(1) date_init_ok args r] r show ?thesis by blast
qed

text \<open>
  A defect: \<^verbatim>\<open>setYear\<close> does not check the year, so that the date it makes of infinity depends on a
  conversion that C++ leaves undefined; with \<open>0\<close> for it the date is a valid one of the year 0.
\<close>

theorem set_year_of_infinity:
  "snd (snd (call_setter (\<lambda>_. 0) (zone_of_minutes 0) SetYear date_init (setTimeValue date_init 0)
     [\<lambda>cu d. (cu, d, Inr (NumberInf True) :: unit + date_number)])) = Inr (Some (- 62167219200000))"
proof -
  let ?d = "RESOLVECACHE (zone_of_minutes 0) (setTimeValue date_init 0)"
  have d: "?d = \<lparr>m_primitiveValue = 0, m_cachedLocal = \<lparr>ti_year = 1970, ti_month = 0, ti_mday = 1, ti_hour = 0, ti_min = 0,
      ti_sec = 0, ti_millisec = 0, ti_wday = 4, ti_gmtoff = 0, ti_isdst = False\<rparr>, m_isCacheDirty = False\<rparr>" by code_simp
  have y: "m_primitiveValue (setTimeValue_fields (zone_of_minutes 0) ?d 0 0 1 0 0 0 0 True) = - 62167219200000"
    unfolding d by code_simp
  have "date_isValid (setTimeValue date_init 0)" "date_isValid ?d" unfolding d by code_simp+
  then show ?thesis
    using y by (simp add: call_setter_def builtinDateSetYear_def start_of_1970_def get_field_def Let_def full_year_def
        int_of_double_def number_of_date_def d date_isValid_def IS_VALID_TIME_def TIME64NAN_def)
qed

lemma getUTC_shows:
  assumes "zone_ok z" "date_ok z cu" "date_ok z d" "date_in_range d" "date_isValid d"
    and "local_time z (m_primitiveValue d + offset_minutes z (m_primitiveValue d) * msPerMinute) = m_primitiveValue d"
  shows "\<exists>cu' d' f. getUTC_field z field cu d = (cu', d', field f) \<and> shows_time f (m_primitiveValue d)
    \<and> date_ok z cu' \<and> date_ok z d' \<and> m_primitiveValue d' = m_primitiveValue d"
proof -
  obtain cu' d' v where r: "getUTC_field z field cu d = (cu', d', v)" by (metis prod_cases3)
  let ?off = "offset_minutes z (m_primitiveValue d)" and ?p = "m_primitiveValue d + offset_minutes z (m_primitiveValue d) * msPerMinute"
  note ok = getUTC_ok [OF assms(1-5) r]
  have "offset_minutes z ?p = ?off * msPerMinute sdiv msPerMinute" unfolding offset_minutes_def [of z ?p] assms(6) by simp
  also have "\<dots> = ?off" by (simp add: signed_divide_int_def abs_mult sgn_mult mult_sgn_abs)
  finally have "m_primitiveValue cu' = ?p" using ok by (simp add: Let_def)
  then have "shows_time (m_cachedLocal cu') (m_primitiveValue d)" using ok assms(6) by (simp add: date_ok_def)
  then show ?thesis using ok r by blast
qed

text \<open>
  The UTC getters return the fields of the time value itself, provided that the offset of the zone
  at the time they look up is the one it has at the time of the date, and is whole minutes.
\<close>

theorem utc_getters_show_time:
  assumes "zone_ok z" "date_ok z cu" "date_ok z d" "date_in_range d" "date_isValid d"
    and "local_time z (m_primitiveValue d + offset_minutes z (m_primitiveValue d) * msPerMinute) = m_primitiveValue d"
  shows "\<exists>cu' d' f. getUTC_field z (\<lambda>f. f) cu d = (cu', d', f) \<and> shows_time f (m_primitiveValue d)"
  using getUTC_shows [OF assms, of "\<lambda>f. f"] by blast

theorem utc_getters_show_time_witness:
  "\<exists>cu' d' f. getUTC_field (zone_of_minutes 540) (\<lambda>f. f) date_init (setTimeValue date_init 951782400000) = (cu', d', f)
     \<and> shows_time f 951782400000"
proof -
  have z: "fixed_zone (zone_of_minutes 540) 540" by (rule zone_of_minutes_fixed) simp
  let ?d = "setTimeValue date_init 951782400000"
  have d: "date_ok (zone_of_minutes 540) ?d" by (rule setTimeValue_ok(1)) (simp add: MaximumDatePrimitiveValue_def)
  have "date_in_range ?d" "date_isValid ?d" by code_simp+
  moreover have "offset_minutes (zone_of_minutes 540) 951782400000 = - 540"
    by (simp add: offset_minutes_def fixed_local_time [OF z] signed_divide_int_def)
  ultimately show ?thesis
    using utc_getters_show_time [OF fixed_zone_ok [OF z] date_init_ok(1) d] by (simp add: setTimeValue_ok(2) fixed_local_time [OF z])
qed

text \<open>New York in 2021: the clocks are put forward on March 14 at 7:00 UTC and back on November 7 at 6:00 UTC.\<close>

definition new_york :: zone where
  "new_york = \<lparr>zone_offset = (\<lambda>_. - 18000000),
     dst_offset = (\<lambda>t. if 1615705200000 \<le> t \<and> t < 1636264800000 then 3600000 else 0), zone_fails = (\<lambda>_. False)\<rparr>"

text \<open>
  A defect: no local time of March 14 equals 2:30, so that the UTC getters of the time 2:30 UTC of
  that day find none, and say 1:30.
\<close>

lemma new_york_local:
  "RESOLVECACHE new_york \<lparr>m_primitiveValue = 1615689000000, m_cachedLocal = timeinfo_init, m_isCacheDirty = True\<rparr> =
   \<lparr>m_primitiveValue = 1615689000000, m_cachedLocal = \<lparr>ti_year = 2021, ti_month = 2, ti_mday = 13, ti_hour = 21, ti_min = 30,
      ti_sec = 0, ti_millisec = 0, ti_wday = 6, ti_gmtoff = 300, ti_isdst = False\<rparr>, m_isCacheDirty = False\<rparr>"
  "RESOLVECACHE new_york \<lparr>m_primitiveValue = 1615707000000, m_cachedLocal = timeinfo_init, m_isCacheDirty = True\<rparr> =
   \<lparr>m_primitiveValue = 1615707000000, m_cachedLocal = \<lparr>ti_year = 2021, ti_month = 2, ti_mday = 14, ti_hour = 3, ti_min = 30,
      ti_sec = 0, ti_millisec = 0, ti_wday = 0, ti_gmtoff = 240, ti_isdst = True\<rparr>, m_isCacheDirty = False\<rparr>"
  "RESOLVECACHE new_york \<lparr>m_primitiveValue = 1615703400000, m_cachedLocal = \<lparr>ti_year = 2021, ti_month = 2, ti_mday = 14,
      ti_hour = 3, ti_min = 30, ti_sec = 0, ti_millisec = 0, ti_wday = 0, ti_gmtoff = 240, ti_isdst = True\<rparr>, m_isCacheDirty = True\<rparr> =
   \<lparr>m_primitiveValue = 1615703400000, m_cachedLocal = \<lparr>ti_year = 2021, ti_month = 2, ti_mday = 14, ti_hour = 1, ti_min = 30,
      ti_sec = 0, ti_millisec = 0, ti_wday = 0, ti_gmtoff = 300, ti_isdst = False\<rparr>, m_isCacheDirty = False\<rparr>"
  by code_simp+

theorem utc_getters_in_the_gap:
  "snd (snd (getUTC_field new_york (\<lambda>f. (ti_hour f, ti_min f)) date_init (setTimeValue date_init 1615689000000))) = (1, 30)
   \<and> (1615689000000 div msPerHour mod 24, 1615689000000 div msPerMinute mod 60) = (2, 30 :: int)"
  by (simp add: getUTC_field_def getTimezoneOffset_def get_field_def setTimeValue_def date_init_def Let_def
      IS_VALID_TIME_def TIME64NAN_def date_isValid_def new_york_local)

text \<open>
  A defect: the offset that is subtracted from local fields is the one at the time obtained by
  reading them as UTC. A date made for 3:30 on March 14 is then shown as 4:30.
\<close>

theorem local_fields_near_the_gap:
  "snd (get_field new_york (\<lambda>f. (ti_hour f, ti_min f)) (setTimeValue_fields new_york date_init 2021 2 14 3 30 0 0 True)) = (4, 30)"
  by code_simp

text \<open>
  A defect: fields far outside the range of dates are accepted and overflow. The year 11761191
  and the second \<open>2 ^ 61\<close> make valid dates, of the years 1969 and 1970.
\<close>

theorem overflowing_fields_make_dates:
  "m_primitiveValue (setTimeValue_args z date_init (map Some [11761191, 0, 1, 0, 0, 0, 0]) False) = - 1728000000
   \<and> m_primitiveValue (setTimeValue_args z date_init (map Some [1970, 0, 1, 0, 0, 2 ^ 61, 0]) False) = 0
   \<and> isInValidRange (map Some [11761191, 0, 1, 0, 0, 0, 0]) \<and> isInValidRange (map Some [1970, 0, 1, 0, 0, 2 ^ 61, 0])"
proof -
  have year: "i32 (11761191 + double_div_floor 0 12) = 11761191" "i32 (1970 + double_div_floor 0 12) = 1970"
    by (simp_all add: double_div_floor_def double_div_trunc_def i32_id)
  have ms: "timeinfoToMs 11761191 0 1 0 0 0 0 = - 1728000000" "timeinfoToMs 1970 0 1 0 0 (2 ^ 61) 0 = 0" by code_simp+
  have "trunc (2 ^ 61) = 2 ^ 61" by (simp add: trunc_def)
  then show ?thesis
    using year ms
    by (simp add: setTimeValue_args_def setTimeValue_fields_def trunc_def Let_def IS_VALID_TIME_def IS_IN_TIME_RANGE_def
        TIME64NAN_def MaximumDatePrimitiveValue_def isInValidRange_def)
qed

end
