(* ===== verification/C_Text.thy ===== *)
theory C_Text
  imports C_Numbers "HOL-Library.Monad_Syntax"
begin

text \<open>
  The parts of the C library that read and write numbers in text. A position in a C string is the
  rest of the string from there on; the terminating zero is not part of the list, and \<open>deref\<close> reads
  it at the end.
\<close>

section \<open>Reading\<close>

definition deref :: "string \<Rightarrow> char" where
  "deref s = (case s of [] \<Rightarrow> CHR 0x00 | c # _ \<Rightarrow> c)"

definition isASCIIDigit :: "char \<Rightarrow> bool" where
  "isASCIIDigit c \<longleftrightarrow> 48 \<le> (of_char c :: nat) \<and> (of_char c :: nat) \<le> 57"

definition isASCIISpace :: "char \<Rightarrow> bool" where
  "isASCIISpace c \<longleftrightarrow> (of_char c :: nat) \<le> 32 \<and> (c = CHR '' '' \<or> (of_char c :: nat) \<le> 0xD \<and> 9 \<le> (of_char c :: nat))"

text \<open>The value of decimal digits behind the digits read so far.\<close>

definition decimal :: "int \<Rightarrow> string \<Rightarrow> int" where
  "decimal n ds = foldl (\<lambda>n c. n * 10 + (of_char c - 48)) n ds"

abbreviation (input) LONG_MAX :: int where "LONG_MAX \<equiv> 9223372036854775807"
abbreviation (input) LONG_MIN :: int where "LONG_MIN \<equiv> - 9223372036854775808"

text \<open>
  \<^verbatim>\<open>strtol\<close> in base ten: the number, and the position behind it. Without digits the position is that
  of the argument; numbers that do not fit are clamped.
\<close>

definition strtol :: "string \<Rightarrow> int \<times> string" where
  "strtol s =
     (let t = dropWhile isASCIISpace s;
          u = (if deref t = CHR ''-'' \<or> deref t = CHR ''+'' then tl t else t);
          n = decimal 0 (takeWhile isASCIIDigit u)
      in if takeWhile isASCIIDigit u = [] then (0, s)
         else (max LONG_MIN (min LONG_MAX (if deref t = CHR ''-'' then - n else n)), dropWhile isASCIIDigit u))"

text \<open>A comparison without regard to case of as many characters as the second text has.\<close>

definition ascii_lower :: "char \<Rightarrow> nat" where
  "ascii_lower c = (if 65 \<le> (of_char c :: nat) \<and> (of_char c :: nat) \<le> 90 then of_char c + 32 else of_char c)"

definition strncasecmp_eq :: "string \<Rightarrow> string \<Rightarrow> bool" where
  "strncasecmp_eq s t \<longleftrightarrow> map ascii_lower (take (length t) s) = map ascii_lower t"

section \<open>Writing\<close>

fun decimal_digits :: "nat \<Rightarrow> string" where
  "decimal_digits n = (if n < 10 then [char_of (48 + n)] else decimal_digits (n div 10) @ [char_of (48 + n mod 10)])"

declare decimal_digits.simps [simp del]

definition zero_pad :: "nat \<Rightarrow> string \<Rightarrow> string" where
  "zero_pad w ds = replicate (w - length ds) (CHR ''0'') @ ds"

text \<open>The formats \<^verbatim>\<open>%0wd\<close> and \<^verbatim>\<open>%+0wd\<close>; a sign counts for the width.\<close>

definition fmt_0d :: "nat \<Rightarrow> int \<Rightarrow> string" where
  "fmt_0d w i =
     (if i < 0 then CHR ''-'' # zero_pad (w - 1) (decimal_digits (nat (- i))) else zero_pad w (decimal_digits (nat i)))"

definition fmt_plus_0d :: "nat \<Rightarrow> int \<Rightarrow> string" where
  "fmt_plus_0d w i =
     (if i < 0 then CHR ''-'' else CHR ''+'') # zero_pad (w - 1) (decimal_digits (nat \<bar>i\<bar>))"

text \<open>\<^verbatim>\<open>snprintf\<close> keeps what fits into the buffer with the terminating zero.\<close>

definition snprintf :: "nat \<Rightarrow> string \<Rightarrow> string" where
  "snprintf n txt = take (n - 1) txt"

section \<open>What is written is read back\<close>

lemma deref_simps [simp]: "deref [] = CHR 0x00" "deref (c # s) = c"
  by (simp_all add: deref_def)

lemma digit_char [simp]: "n < 10 \<Longrightarrow> isASCIIDigit (char_of (48 + n :: nat))"
  by (simp add: isASCIIDigit_def)

lemma digit_char_value [simp]: "n < 10 \<Longrightarrow> of_char (char_of (48 + n :: nat)) = (48 + int n)"
proof -
  assume "n < 10"
  then have "of_char (char_of (48 + n)) = (48 + n :: nat)" by simp
  moreover have "(of_char (char_of (48 + n)) :: int) = int (of_char (char_of (48 + n)))" by (simp only: of_nat_of_char)
  ultimately show ?thesis by (simp only: of_nat_add of_nat_numeral)
qed

lemma decimal_append: "decimal n (ds @ es) = decimal (decimal n ds) es"
  by (simp add: decimal_def)

lemma decimal_Cons: "decimal n (c # es) = decimal (n * 10 + (of_char c - 48)) es"
  by (simp add: decimal_def)

lemma decimal_Nil [simp]: "decimal n [] = n"
  by (simp add: decimal_def)

lemma decimal_digits_all: "list_all isASCIIDigit (decimal_digits n)"
  by (induction n rule: decimal_digits.induct) (subst decimal_digits.simps, simp)

lemma decimal_digits_nonempty [simp]: "decimal_digits n \<noteq> []"
  by (subst decimal_digits.simps) simp

lemma decimal_of_digits: "decimal 0 (decimal_digits n) = int n"
proof (induction n rule: decimal_digits.induct)
  case (1 n)
  show ?case
  proof (cases "n < 10")
    case True
    then show ?thesis by (subst decimal_digits.simps) (simp add: decimal_Cons)
  next
    case False
    then have "decimal 0 (decimal_digits n) = int (n div 10) * 10 + int (n mod 10)"
      using 1 by (subst decimal_digits.simps) (simp add: decimal_append decimal_Cons)
    also have "\<dots> = int (n div 10 * 10 + n mod 10)" by (simp only: of_nat_add of_nat_mult of_nat_numeral)
    finally show ?thesis by simp
  qed
qed

lemma length_decimal_digits: "0 < k \<Longrightarrow> n < 10 ^ k \<Longrightarrow> length (decimal_digits n) \<le> k"
proof (induction n arbitrary: k rule: decimal_digits.induct)
  case (1 n)
  show ?case
  proof (cases "n < 10")
    case True
    then show ?thesis using 1(2) by (subst decimal_digits.simps) simp
  next
    case False
    then obtain k' where k: "k = Suc k'" "0 < k'" using 1(2, 3) by (cases k; cases "k - 1") auto
    then have "n div 10 < 10 ^ k'" using 1(3) by (simp add: less_mult_imp_div_less mult.commute)
    then show ?thesis using 1(1) [OF False k(2)] False k(1) by (subst decimal_digits.simps) simp
  qed
qed

lemma zero_pad_all: "list_all isASCIIDigit ds \<Longrightarrow> list_all isASCIIDigit (zero_pad w ds)"
  by (auto simp: zero_pad_def list_all_iff isASCIIDigit_def)

lemma decimal_zero_pad: "decimal 0 (zero_pad w ds) = decimal 0 ds"
proof -
  have "decimal 0 (replicate k (CHR ''0'')) = 0" for k by (induction k) (simp_all add: decimal_Cons)
  then show ?thesis by (simp add: zero_pad_def decimal_append)
qed

lemma length_zero_pad: "length (zero_pad w ds) = max w (length ds)"
  by (simp add: zero_pad_def)

lemma length_padded_digits: "0 < w \<Longrightarrow> n < 10 ^ w \<Longrightarrow> length (zero_pad w (decimal_digits n)) = w"
  using length_decimal_digits [of w n] by (simp add: length_zero_pad)

definition stops_number :: "string \<Rightarrow> bool" where
  "stops_number r \<longleftrightarrow> \<not> isASCIIDigit (deref r)"

lemma take_digits:
  assumes "list_all isASCIIDigit ds" "stops_number r"
  shows "takeWhile isASCIIDigit (ds @ r) = ds" "dropWhile isASCIIDigit (ds @ r) = r"
proof -
  have "takeWhile isASCIIDigit r = [] \<and> dropWhile isASCIIDigit r = r"
    using assms(2) by (cases r) (auto simp: stops_number_def)
  then show "takeWhile isASCIIDigit (ds @ r) = ds" "dropWhile isASCIIDigit (ds @ r) = r"
    using assms(1) by (auto simp: list_all_iff takeWhile_append2 dropWhile_append2)
qed

lemma digit_not_sign: "isASCIIDigit c \<Longrightarrow> c \<noteq> CHR ''-'' \<and> c \<noteq> CHR ''+'' \<and> \<not> isASCIISpace c"
  by (auto simp: isASCIIDigit_def isASCIISpace_def)

lemma strtol_digits:
  assumes "list_all isASCIIDigit ds" "ds \<noteq> []" "stops_number r" "decimal 0 ds \<le> LONG_MAX" "0 \<le> decimal 0 ds"
  shows "strtol (ds @ r) = (decimal 0 ds, r)"
    "strtol (CHR ''-'' # ds @ r) = (- decimal 0 ds, r)" "strtol (CHR ''+'' # ds @ r) = (decimal 0 ds, r)"
proof -
  note td = take_digits [OF assms(1, 3)]
  obtain c cs where ds: "ds = c # cs" using assms(2) by (cases ds) auto
  then have c: "isASCIIDigit c" using assms(1) by simp
  have d0: "dropWhile isASCIISpace (ds @ r) = ds @ r" "deref (ds @ r) = c"
    using digit_not_sign [OF c] by (simp_all add: ds)
  show "strtol (ds @ r) = (decimal 0 ds, r)"
    unfolding strtol_def d0 Let_def using digit_not_sign [OF c] assms(2, 4, 5) td by simp
  show "strtol (CHR ''-'' # ds @ r) = (- decimal 0 ds, r)" "strtol (CHR ''+'' # ds @ r) = (decimal 0 ds, r)"
    using assms(2, 4, 5) td by (simp_all add: strtol_def isASCIISpace_def Let_def)
qed

lemma strtol_padded:
  assumes "stops_number r" "int n \<le> LONG_MAX"
  shows "strtol (zero_pad w (decimal_digits n) @ r) = (int n, r)"
    "strtol (CHR ''-'' # zero_pad w (decimal_digits n) @ r) = (- int n, r)"
    "strtol (CHR ''+'' # zero_pad w (decimal_digits n) @ r) = (int n, r)"
proof -
  have "list_all isASCIIDigit (zero_pad w (decimal_digits n))" by (rule zero_pad_all [OF decimal_digits_all])
  moreover have "zero_pad w (decimal_digits n) \<noteq> []" by (simp add: zero_pad_def)
  moreover have "decimal 0 (zero_pad w (decimal_digits n)) = int n" by (simp add: decimal_zero_pad decimal_of_digits)
  ultimately show "strtol (zero_pad w (decimal_digits n) @ r) = (int n, r)"
    "strtol (CHR ''-'' # zero_pad w (decimal_digits n) @ r) = (- int n, r)"
    "strtol (CHR ''+'' # zero_pad w (decimal_digits n) @ r) = (int n, r)"
    using strtol_digits [of "zero_pad w (decimal_digits n)" r] assms by simp_all
qed

lemma strtol_fmt_0d: "stops_number r \<Longrightarrow> \<bar>i\<bar> \<le> LONG_MAX \<Longrightarrow> strtol (fmt_0d w i @ r) = (i, r)"
  by (auto simp: fmt_0d_def strtol_padded)

lemma strtol_fmt_plus_0d: "stops_number r \<Longrightarrow> \<bar>i\<bar> \<le> LONG_MAX \<Longrightarrow> strtol (fmt_plus_0d w i @ r) = (i, r)"
  by (auto simp: fmt_plus_0d_def strtol_padded)

lemma fmt_0d_digits:
  assumes "0 < w" "0 \<le> i" "i < 10 ^ w"
  shows "length (fmt_0d w i) = w" "list_all isASCIIDigit (fmt_0d w i)" "fmt_0d w i \<noteq> []" "isASCIIDigit (deref (fmt_0d w i @ r))"
proof -
  have "nat i < 10 ^ w" using assms(2, 3) by (simp add: nat_less_iff)
  then show l: "length (fmt_0d w i) = w" using assms by (simp add: fmt_0d_def length_padded_digits)
  show a: "list_all isASCIIDigit (fmt_0d w i)" using assms(2) by (simp add: fmt_0d_def zero_pad_all decimal_digits_all)
  show n: "fmt_0d w i \<noteq> []" using l assms(1) by auto
  show "isASCIIDigit (deref (fmt_0d w i @ r))" using a n by (cases "fmt_0d w i") auto
qed

end
