(* ===== verification/Date_Parse.thy ===== *)
theory Date_Parse
  imports Date_Object C_Text
begin

text \<open>
  Dates as text: the two parsers of \<^verbatim>\<open>runtime/DateObject.cpp\<close>, one for the format of the standard
  and one for everything else, and the texts that dates are turned into. The argument of a
  parser is the content of the string in UTF-8. A return of \<^verbatim>\<open>TIME64NAN\<close> or of a null position is
  \<open>None\<close> inside the parsers.
\<close>

section \<open>Words and numbers\<close>

definition known_zones :: "(string \<times> int) list" where
  "known_zones = [(''UT'', 0), (''GMT'', 0), (''EST'', - 300), (''EDT'', - 240), (''CST'', - 360),
     (''CDT'', - 300), (''MST'', - 420), (''MDT'', - 360), (''PST'', - 480), (''PDT'', - 420)]"

definition month_haystack :: string where
  "month_haystack = ''janfebmaraprmayjunjulaugsepoctnovdec''"

fun strstr :: "nat \<Rightarrow> string \<Rightarrow> string \<Rightarrow> nat option" where
  "strstr i [] needle = (if needle = [] then Some i else None)"
| "strstr i (c # cs) needle =
     (if take (length needle) (c # cs) = needle then Some i else strstr (Suc i) cs needle)"

definition set_bit_5 :: "char \<Rightarrow> char" where
  "set_bit_5 c = char_of (or (of_char c) 32 :: nat)"

definition findMonth :: "string \<Rightarrow> int" where
  "findMonth monthStr =
     (if length (takeWhile (\<lambda>c. c \<noteq> CHR 0x00) monthStr) < 3 then - 1
      else case strstr 0 month_haystack (map set_bit_5 (take 3 monthStr)) of
        Some position \<Rightarrow> if position mod 3 = 0 then int (position div 3) else - 1
      | None \<Rightarrow> - 1)"

fun skip_spaces_and_comments :: "nat \<Rightarrow> string \<Rightarrow> string" where
  "skip_spaces_and_comments nesting [] = []"
| "skip_spaces_and_comments nesting (ch # s) =
     (if ch = CHR 0x00 then ch # s
      else if isASCIISpace ch then skip_spaces_and_comments nesting s
      else if ch = CHR ''('' then skip_spaces_and_comments (Suc nesting) s
      else if ch = CHR '')'' \<and> nesting > 0 then skip_spaces_and_comments (nesting - 1) s
      else if nesting = 0 then ch # s
      else skip_spaces_and_comments nesting s)"

abbreviation (input) skipSpacesAndComments :: "string \<Rightarrow> string" where
  "skipSpacesAndComments \<equiv> skip_spaces_and_comments 0"

definition parseInt :: "string \<Rightarrow> (int \<times> string) option" where
  "parseInt s =
     (let (longResult, stopPosition) = strtol s in
      if s = stopPosition \<or> longResult \<le> - 2147483648 \<or> longResult \<ge> 2147483647 then None
      else Some (longResult, stopPosition))"

definition parseLong :: "string \<Rightarrow> (int \<times> string) option" where
  "parseLong s =
     (let (result, stopPosition) = strtol s in
      if s = stopPosition \<or> result = LONG_MIN \<or> result = LONG_MAX then None else Some (result, stopPosition))"

text \<open>The value of at most three digits; the position is behind all digits.\<close>

definition parseLong_3 :: "string \<Rightarrow> (int \<times> string) option" where
  "parseLong_3 s =
     (let (_, stopPosition) = strtol s; (result, _) = strtol (take 3 s) in
      if s = stopPosition \<or> result = LONG_MIN \<or> result = LONG_MAX then None else Some (result, stopPosition))"

text \<open>The steps that both portions of the format repeat: a digit, a number, two characters.\<close>

definition two_digits :: "string \<Rightarrow> (int \<times> string) option" where
  "two_digits s =
     (if \<not> isASCIIDigit (deref s) then None
      else do {
        (n, p) \<leftarrow> parseLong s;
        if length s - length p \<noteq> 2 then None else Some (n, p)
      })"

section \<open>The format of the standard\<close>

definition parseES5DatePortion :: "string \<Rightarrow> (int \<times> int \<times> int \<times> string) option" where
  "parseES5DatePortion s = do {
     (year, p) \<leftarrow> parseInt s;
     if deref p \<noteq> CHR ''-'' then Some (year, 1, 1, p)
     else do {
       (month, p) \<leftarrow> two_digits (tl p);
       if deref p \<noteq> CHR ''-'' then Some (year, month, 1, p)
       else do {
         (day, p) \<leftarrow> two_digits (tl p);
         Some (year, month, day, p)
       }
     }
   }"

text \<open>The seconds with their fraction, in milliseconds.\<close>

definition parse_seconds :: "string \<Rightarrow> (int \<times> string) option" where
  "parse_seconds s = do {
     (intSeconds, p) \<leftarrow> two_digits s;
     if deref p = CHR ''.'' then
       let q = tl p in
       if \<not> isASCIIDigit (deref q) then None
       else do {
         (fracSeconds, r) \<leftarrow> parseLong_3 q;
         let numFracDigits = min (length q - length r) 3 in
         Some (intSeconds * msPerSecond + fracSeconds * 10 ^ (3 - numFracDigits), r)
       }
     else Some (intSeconds * msPerSecond, p)
   }"

text \<open>The offset of a time zone behind its sign, in hours and minutes.\<close>

definition parse_zone_offset :: "string \<Rightarrow> (int \<times> int \<times> string) option" where
  "parse_zone_offset s =
     (if \<not> isASCIIDigit (deref s) then None
      else do {
        (tzHours, p) \<leftarrow> parseLong s;
        if length s - length p = 4 then Some (\<bar>tzHours sdiv 100\<bar>, tzHours smod 100, p)
        else if length s - length p = 2 then
          if deref p \<noteq> CHR '':'' then None
          else do {
            (tzMinutes, q) \<leftarrow> two_digits (tl p);
            Some (\<bar>tzHours\<bar>, tzMinutes, q)
          }
        else None
      })"

definition parse_zone :: "string \<Rightarrow> (int \<times> bool \<times> string) option" where
  "parse_zone s =
     (if deref s = CHR ''Z'' then Some (0, True, tl s)
      else if deref s = CHR ''-'' \<or> deref s = CHR ''+'' then do {
        (tzHoursAbs, tzMinutes, p) \<leftarrow> parse_zone_offset (tl s);
        if tzHoursAbs > 24 \<or> tzMinutes < 0 \<or> tzMinutes > 59 then None
        else let timeZoneSeconds = 60 * (tzMinutes + 60 * tzHoursAbs) in
          Some (if deref s = CHR ''-'' then - timeZoneSeconds else timeZoneSeconds, True, p)
      }
      else Some (0, False, s))"

definition parseES5TimePortion :: "string \<Rightarrow> (int \<times> int \<times> int \<times> int \<times> bool \<times> string) option" where
  "parseES5TimePortion s = do {
     (hours, p) \<leftarrow> two_digits s;
     if deref p \<noteq> CHR '':'' then None
     else do {
       (minutes, p) \<leftarrow> two_digits (tl p);
       (milliSeconds, p) \<leftarrow> (if deref p = CHR '':'' then parse_seconds (tl p) else Some (0, p));
       (timeZoneSeconds, haveTZ, p) \<leftarrow> parse_zone p;
       Some (hours, minutes, milliSeconds, timeZoneSeconds, haveTZ, p)
     }
   }"

definition daysPerMonth :: "int list" where
  "daysPerMonth = [31, 29, 31, 30, 31, 30, 31, 31, 30, 31, 30, 31]"

text \<open>The checks of the fields, and the time.\<close>

definition es5_time :: "int \<Rightarrow> int \<Rightarrow> int \<Rightarrow> int \<Rightarrow> int \<Rightarrow> int \<Rightarrow> int \<Rightarrow> int option" where
  "es5_time year month day hours minutes milliSeconds timeZoneSeconds =
     (if month < 1 \<or> month > 12 then None
      else if day < 1 \<or> day > daysPerMonth ! nat (month - 1) then None
      else if month = 2 \<and> day > 28 \<and> daysInYear year \<noteq> 366 then None
      else if hours < 0 \<or> hours > 24 then None
      else if hours = 24 \<and> (minutes \<noteq> 0 \<or> milliSeconds \<noteq> 0) then None
      else if minutes < 0 \<or> minutes > 59 then None
      else if milliSeconds < 0 \<or> milliSeconds \<ge> msPerMinute + msPerSecond then None
      else
        let milliSeconds = (if milliSeconds > msPerMinute then msPerMinute else milliSeconds) in
        Some (timeinfoToMs year (nat (month - 1)) day hours minutes (milliSeconds sdiv msPerSecond) (milliSeconds smod msPerSecond)
                - timeZoneSeconds * msPerSecond))"

definition parseStringToDate_2 :: "string \<Rightarrow> (int \<times> bool) option" where
  "parseStringToDate_2 s = do {
     (year, month, day, p) \<leftarrow> parseES5DatePortion s;
     (hours, minutes, milliSeconds, timeZoneSeconds, haveTZ, p) \<leftarrow>
       (if deref p = CHR ''T'' then parseES5TimePortion (tl p) else Some (0, 0, 0, 0, True, p));
     if deref (dropWhile isASCIISpace p) \<noteq> CHR 0x00 then None
     else do {
       t \<leftarrow> es5_time year month day hours minutes milliSeconds timeZoneSeconds;
       Some (t, haveTZ)
     }
   }"

section \<open>Every other format\<close>

lemma skip_le: "length (skip_spaces_and_comments n s) \<le> length s"
  by (induction s arbitrary: n) (auto intro: le_SucI)

lemma skip_less:
  "isASCIISpace c \<or> c = CHR ''('' \<Longrightarrow> c \<noteq> CHR 0x00 \<Longrightarrow> length (skip_spaces_and_comments n (c # s)) < Suc (length s)"
  using skip_le [of n s] skip_le [of "Suc n" s] by auto

text \<open>The words in front of the first number; the last one that is followed by a space may be a month.\<close>

function month_words :: "int \<Rightarrow> string \<Rightarrow> string \<Rightarrow> int \<times> string \<times> string" where
  "month_words month wordStart dateString =
     (if deref dateString = CHR 0x00 \<or> isASCIIDigit (deref dateString) then (month, wordStart, dateString)
      else if isASCIISpace (deref dateString) \<or> deref dateString = CHR ''('' then
        let month = (if length wordStart - length dateString \<ge> 3 then findMonth wordStart else month);
            rest = skipSpacesAndComments dateString
        in month_words month rest rest
      else month_words month wordStart (tl dateString))"
  by pat_completeness auto

termination
proof (relation "measure (\<lambda>(month, wordStart, dateString). length dateString)", goal_cases)
  case (2 month wordStart dateString x xa)
  then show ?case by (cases dateString) (auto simp: skip_less simp del: skip_spaces_and_comments.simps)
next
  case (3 month wordStart dateString)
  then show ?case by (cases dateString) auto
qed simp

declare month_words.simps [simp del]

text \<open>The fields read so far, the position, and the position behind the number read last.\<close>

record legacy =
  lg_day :: int
  lg_month :: int
  lg_year :: int
  lg_pos :: string
  lg_newPos :: string

text \<open>\<^verbatim>\<open>YYYY/MM/DD\<close>\<close>

definition legacy_year_first :: "int \<Rightarrow> string \<Rightarrow> legacy option" where
  "legacy_year_first day s =
     (if deref s \<noteq> CHR ''/'' \<or> deref (tl s) = CHR 0x00 then None
      else if day \<le> - 2147483648 \<or> day \<ge> 2147483647 then None
      else do {
        (month, p) \<leftarrow> parseLong (tl s);
        if deref p \<noteq> CHR ''/'' \<or> deref (tl p) = CHR 0x00 then None
        else do {
          (day', q) \<leftarrow> parseLong (tl p);
          Some \<lparr>lg_day = day', lg_month = month - 1, lg_year = day, lg_pos = q, lg_newPos = q\<rparr>
        }
      })"

text \<open>\<^verbatim>\<open>MM/DD/YYYY\<close>\<close>

definition legacy_month_first :: "int \<Rightarrow> string \<Rightarrow> legacy option" where
  "legacy_month_first day s = do {
     (day', p) \<leftarrow> parseLong (tl s);
     if day' < 1 \<or> day' > 31 then None
     else
       let q = (if deref p = CHR ''/'' then tl p else p) in
       if deref q = CHR 0x00 then None
       else Some \<lparr>lg_day = day', lg_month = day - 1, lg_year = 0, lg_pos = q, lg_newPos = p\<rparr>
   }"

text \<open>A day, and a month by its name unless one was found already.\<close>

definition legacy_named_month :: "int \<Rightarrow> int \<Rightarrow> string \<Rightarrow> legacy option" where
  "legacy_named_month day month s =
     (let p = (if deref s = CHR ''-'' then tl s else s);
          p = skipSpacesAndComments p;
          p = (if deref p = CHR '','' then tl p else p)
      in if month \<noteq> - 1 then Some \<lparr>lg_day = day, lg_month = month, lg_year = 0, lg_pos = p, lg_newPos = s\<rparr>
      else if findMonth p = - 1 then None
      else
        let q = dropWhile (\<lambda>c. c \<noteq> CHR 0x00 \<and> c \<noteq> CHR ''-'' \<and> c \<noteq> CHR '','' \<and> \<not> isASCIISpace c) p in
        if deref q = CHR 0x00 then None
        else if deref q \<noteq> CHR ''-'' \<and> deref q \<noteq> CHR ''/'' \<and> deref q \<noteq> CHR '','' \<and> \<not> isASCIISpace (deref q) then None
        else Some \<lparr>lg_day = day, lg_month = findMonth p, lg_year = 0, lg_pos = tl q, lg_newPos = s\<rparr>)"

text \<open>The position \<open>s\<close> is behind the number \<open>day\<close>, and so is \<^verbatim>\<open>newPosStr\<close>.\<close>

definition parseStringToDate_1_1 :: "int \<Rightarrow> int \<Rightarrow> string \<Rightarrow> legacy option" where
  "parseStringToDate_1_1 day month s = do {
     g \<leftarrow> (if day > 31 then legacy_year_first day s
          else if deref s = CHR ''/'' \<and> month = - 1 then legacy_month_first day s
          else legacy_named_month day month s);
     if lg_month g < 0 \<or> lg_month g > 11 then None
     else if lg_year g \<le> 0 \<and> deref (lg_pos g) \<noteq> CHR 0x00 then do {
       (year, p) \<leftarrow> parseInt (lg_pos g);
       Some (g\<lparr>lg_year := year, lg_newPos := p\<rparr>)
     }
     else Some g
   }"

text \<open>Hours, minutes and seconds, and the position behind them.\<close>

definition legacy_seconds :: "string \<Rightarrow> (int \<times> string) option" where
  "legacy_seconds s =
     (if deref s = CHR '':'' then do {
        (second, p) \<leftarrow> parseLong (tl s);
        if second < 0 \<or> second > 59 then None else Some (second, p)
      }
      else Some (0, s))"

definition legacy_am_pm :: "int \<Rightarrow> string \<Rightarrow> (int \<times> string) option" where
  "legacy_am_pm hour s =
     (if strncasecmp_eq s ''AM'' then
        if hour > 12 then None
        else Some (if hour = 12 then 0 else hour, skipSpacesAndComments (drop 2 s))
      else if strncasecmp_eq s ''PM'' then
        if hour > 12 then None
        else Some (if hour \<noteq> 12 then hour + 12 else hour, skipSpacesAndComments (drop 2 s))
      else Some (hour, s))"

definition legacy_time :: "int \<Rightarrow> string \<Rightarrow> (int \<times> int \<times> int \<times> string) option" where
  "legacy_time hour s =
     (if hour < 0 \<or> hour > 23 then None
      else if deref s \<noteq> CHR '':'' then None
      else do {
        (minute, p) \<leftarrow> parseLong (tl s);
        if minute < 0 \<or> minute > 59 then None
        else if deref p \<noteq> CHR 0x00 \<and> deref p \<noteq> CHR '':'' \<and> \<not> isASCIISpace (deref p) then None
        else do {
          (second, q) \<leftarrow> legacy_seconds p;
          (hour, r) \<leftarrow> legacy_am_pm hour (skipSpacesAndComments q);
          Some (hour, minute, second, r)
        }
      })"

text \<open>The year, which is \<open>-1\<close> when the number taken for it was the hour, the time and the position.\<close>

definition parseStringToDate_1_2 :: "legacy \<Rightarrow> (int \<times> int \<times> int \<times> int \<times> string) option" where
  "parseStringToDate_1_2 g =
     (if deref (lg_newPos g) = CHR 0x00 then Some (lg_year g, 0, 0, 0, lg_newPos g)
      else
        let c = deref (lg_newPos g); separated = (isASCIISpace c \<or> c = CHR '','') in
        if \<not> separated \<and> c \<noteq> CHR '':'' then None
        else
          let year = (if separated then lg_year g else - 1);
              p = (if separated then skipSpacesAndComments (tl (lg_newPos g)) else lg_pos g);
              (hour, q) = strtol p
          in if q \<noteq> p then do {
               (hour, minute, second, r) \<leftarrow> legacy_time hour q;
               Some (year, hour, minute, second, r)
             }
             else Some (year, hour, 0, 0, p))"

text \<open>A numeric offset to UTC, in minutes.\<close>

definition legacy_offset :: "string \<Rightarrow> (int \<times> string) option" where
  "legacy_offset s = do {
     (n, p) \<leftarrow> parseInt s;
     if n < - 9959 \<or> n > 9959 then None
     else
       let sgn = (if n < 0 then - 1 else 1); n = \<bar>n\<bar> in
       if deref p \<noteq> CHR '':'' then
         Some (if n \<ge> 24 then (n sdiv 100 * 60 + n smod 100) * sgn else n * 60 * sgn, p)
       else do {
         (m, q) \<leftarrow> parseInt (tl p);
         Some (i32 (i32 (n * 60 + m) * sgn), q)
       }
   }"

definition legacy_zone :: "string \<Rightarrow> (bool \<times> int \<times> string) option" where
  "legacy_zone s =
     (if deref s = CHR 0x00 then Some (False, 0, s)
      else
        let utc = (strncasecmp_eq s ''GMT'' \<or> strncasecmp_eq s ''UTC'');
            p = (if utc then drop 3 s else s)
        in if deref p = CHR ''+'' \<or> deref p = CHR ''-'' then do {
             (n, q) \<leftarrow> legacy_offset p;
             Some (True, n, q)
           }
           else case find (\<lambda>(name, n). strncasecmp_eq p name) known_zones of
             Some (name, n) \<Rightarrow> Some (True, n, drop (length name) p)
           | None \<Rightarrow> Some (utc, 0, p))"

text \<open>A year that was not found in front of the time.\<close>

definition legacy_late_year :: "string \<Rightarrow> (int \<times> string) option" where
  "legacy_late_year s = do {
     (year, p) \<leftarrow> parseInt s;
     Some (year, skipSpacesAndComments p)
   }"

definition parseStringToDate_1_3 :: "int \<Rightarrow> string \<Rightarrow> (int \<times> bool \<times> int \<times> string) option" where
  "parseStringToDate_1_3 year s = do {
     (year, p) \<leftarrow> (if isASCIIDigit (deref s) \<and> year = - 1 then legacy_late_year s else Some (year, s));
     (haveTZ, offset, p) \<leftarrow> legacy_zone p;
     let p = skipSpacesAndComments p;
     (year, p) \<leftarrow> (if deref p \<noteq> CHR 0x00 \<and> year = - 1 then legacy_late_year p else Some (year, p));
     Some (year, haveTZ, offset, p)
   }"

definition parseStringToDate_1 :: "string \<Rightarrow> (int \<times> bool \<times> int) option" where
  "parseStringToDate_1 s =
     (let (month, wordStart, p) = month_words (- 1) s (skipSpacesAndComments s);
          month = (if month = - 1 \<and> wordStart \<noteq> p then findMonth wordStart else month);
          p = skipSpacesAndComments p
      in if deref p = CHR 0x00 then None
      else do {
        (day, p) \<leftarrow> parseLong p;
        if deref p = CHR 0x00 \<or> day < 0 then None
        else do {
          g \<leftarrow> parseStringToDate_1_1 day month p;
          (year, hour, minute, second, p) \<leftarrow> parseStringToDate_1_2 g;
          (year, haveTZ, offset, p) \<leftarrow> parseStringToDate_1_3 year p;
          if deref p \<noteq> CHR 0x00 then None
          else
            let year = (if year \<ge> 0 \<and> year < 100 then if year < 50 then year + 2000 else year + 1900 else year) in
            Some (timeinfoToMs year (nat (lg_month g)) (i32 (lg_day g)) hour minute second 0, haveTZ, offset)
        }
      })"

section \<open>Parsing a date\<close>

definition parseStringToDate :: "zone \<Rightarrow> string \<Rightarrow> int" where
  "parseStringToDate z s =
     (let primitiveValue =
        (case parseStringToDate_2 s of
           Some (t, haveTZ) \<Rightarrow>
             if IS_VALID_TIME t then if haveTZ then Some t else Some (applyLocalTimezoneOffset z t) else None
         | None \<Rightarrow> None);
      primitiveValue =
        (case primitiveValue of
           Some t \<Rightarrow> t
         | None \<Rightarrow>
             (case parseStringToDate_1 s of
                Some (t, haveTZ, offset) \<Rightarrow>
                  if IS_VALID_TIME t then
                    if haveTZ then t - offset * msPerMinute else applyLocalTimezoneOffset z t
                  else TIME64NAN
              | None \<Rightarrow> TIME64NAN))
      in if IS_VALID_TIME primitiveValue \<and> IS_IN_TIME_RANGE primitiveValue then primitiveValue else TIME64NAN)"

text \<open>\<^verbatim>\<open>Date.parse\<close> and the constructor with a string.\<close>

definition setTimeValue_string :: "zone \<Rightarrow> date_object \<Rightarrow> string \<Rightarrow> date_object" where
  "setTimeValue_string z d s = setTimeValue d (parseStringToDate z s)"

section \<open>Dates as text\<close>

definition days :: "string list" where
  "days = [''Sun'', ''Mon'', ''Tue'', ''Wed'', ''Thu'', ''Fri'', ''Sat'']"

definition months :: "string list" where
  "months = [''Jan'', ''Feb'', ''Mar'', ''Apr'', ''May'', ''Jun'', ''Jul'', ''Aug'', ''Sep'', ''Oct'', ''Nov'', ''Dec'']"

definition invalidDate :: string where
  "invalidDate = ''Invalid Date''"

datatype date_error = RangeError

text \<open>The part of \<^verbatim>\<open>toISOString\<close> behind the year.\<close>

definition iso_rest :: "timeinfo \<Rightarrow> string" where
  "iso_rest f =
     ''-'' @ fmt_0d 2 (int (ti_month f) + 1) @ ''-'' @ fmt_0d 2 (ti_mday f) @ ''T'' @ fmt_0d 2 (ti_hour f) @ '':''
     @ fmt_0d 2 (ti_min f) @ '':'' @ fmt_0d 2 (ti_sec f) @ ''.'' @ fmt_0d 3 (ti_millisec f) @ ''Z''"

definition iso_text :: "timeinfo \<Rightarrow> string" where
  "iso_text f =
     snprintf 64 (if ti_year f \<ge> 0 \<and> ti_year f \<le> 9999 then fmt_0d 4 (ti_year f) @ iso_rest f
                  else fmt_plus_0d 7 (ti_year f) @ iso_rest f)"

definition toISOString ::
    "zone \<Rightarrow> date_object \<Rightarrow> date_object \<Rightarrow> date_object \<times> date_object \<times> (date_error + string)" where
  "toISOString z cu d =
     (if date_isValid d then
        case getUTC_field z iso_text cu d of (cu', d', txt) \<Rightarrow> (cu', d', Inr txt)
      else (cu, d, Inl RangeError))"

definition utc_text :: "timeinfo \<Rightarrow> string" where
  "utc_text f =
     snprintf 64 (days ! nat (ti_wday f) @ '', '' @ fmt_0d 2 (ti_mday f) @ '' '' @ months ! ti_month f @ '' ''
       @ fmt_0d (if ti_year f < 0 then 5 else 4) (ti_year f) @ '' '' @ fmt_0d 2 (ti_hour f) @ '':'' @ fmt_0d 2 (ti_min f) @ '':''
       @ fmt_0d 2 (ti_sec f) @ '' GMT'')"

definition toUTCString :: "zone \<Rightarrow> date_object \<Rightarrow> date_object \<Rightarrow> date_object \<times> date_object \<times> string" where
  "toUTCString z cu d = (if date_isValid d then getUTC_field z utc_text cu d else (cu, d, invalidDate))"

definition date_text :: "timeinfo \<Rightarrow> string" where
  "date_text f =
     snprintf 32 (days ! nat (ti_wday f) @ '' '' @ months ! ti_month f @ '' '' @ fmt_0d 2 (ti_mday f) @ '' ''
       @ fmt_0d (if ti_year f < 0 then 5 else 4) (ti_year f))"

definition toDateString :: "zone \<Rightarrow> date_object \<Rightarrow> date_object \<times> string" where
  "toDateString z d =
     (let d' = RESOLVECACHE z d in
      if date_isValid d' then get_field z date_text d' else (d', invalidDate))"

end
