(* ===== verification/Date_Text.thy ===== *)
theory Date_Text
  imports Date_Parse
begin

text \<open>
  What the texts of dates mean to the parsers: the text of \<^verbatim>\<open>toISOString\<close> is read back by the
  parser for the format of the standard, the text of \<^verbatim>\<open>toUTCString\<close> by the other one.
\<close>

section \<open>Numbers in the formats\<close>

lemma stops_number_Cons [simp]: "stops_number (c # s) \<longleftrightarrow> \<not> isASCIIDigit c"
  by (simp add: stops_number_def)

lemma stops_number_Nil [simp]: "stops_number []"
  by (simp add: stops_number_def isASCIIDigit_def)

lemma not_digit [simp]:
  "\<not> isASCIIDigit (CHR ''-'')" "\<not> isASCIIDigit (CHR '':'')" "\<not> isASCIIDigit (CHR ''T'')" "\<not> isASCIIDigit (CHR ''Z'')"
  "\<not> isASCIIDigit (CHR ''.'')" "\<not> isASCIIDigit (CHR '' '')" "\<not> isASCIIDigit (CHR 0x00)" "\<not> isASCIIDigit (CHR '','')"
  by (simp_all add: isASCIIDigit_def)

lemma not_space [simp]:
  "\<not> isASCIISpace (CHR 0x00)" "\<not> isASCIISpace (CHR '','')" "\<not> isASCIISpace (CHR '':'')" "\<not> isASCIISpace (CHR ''-'')"
  "isASCIISpace (CHR '' '')"
  by (simp_all add: isASCIISpace_def)

lemma parseLong_fmt: "stops_number r \<Longrightarrow> 0 < w \<Longrightarrow> 0 \<le> i \<Longrightarrow> i < 10 ^ w \<Longrightarrow> i < LONG_MAX \<Longrightarrow> parseLong (fmt_0d w i @ r) = Some (i, r)"
  using fmt_0d_digits(3) [of w i] by (simp add: parseLong_def strtol_fmt_0d)

lemma two_digits_fmt:
  assumes "stops_number r" "0 \<le> i" "i < 100"
  shows "two_digits (fmt_0d 2 i @ r) = Some (i, r)"
proof -
  have i: "i < 10 ^ 2" using assms(3) by simp
  show ?thesis using parseLong_fmt [OF assms(1) _ assms(2) i] fmt_0d_digits(1) [OF _ assms(2) i] fmt_0d_digits(4) [OF _ assms(2) i] assms(3)
    by (simp add: two_digits_def)
qed

lemma parseLong_3_fmt:
  assumes "stops_number r" "0 \<le> i" "i < 1000"
  shows "parseLong_3 (fmt_0d 3 i @ r) = Some (i, r)"
proof -
  have i: "i < 10 ^ 3" using assms(3) by simp
  have "take 3 (fmt_0d 3 i @ r) = fmt_0d 3 i @ []" using fmt_0d_digits(1) [OF _ assms(2) i] by simp
  moreover have "strtol (fmt_0d 3 i @ []) = (i, [])" using assms by (intro strtol_fmt_0d) auto
  moreover have "strtol (fmt_0d 3 i @ r) = (i, r)" using assms by (intro strtol_fmt_0d) auto
  ultimately show ?thesis using fmt_0d_digits(3) [OF _ assms(2) i] assms(2, 3) by (simp add: parseLong_3_def)
qed

lemma parseInt_year:
  assumes "stops_number r" "\<bar>y\<bar> \<le> 1000000"
  shows "parseInt (fmt_0d w y @ r) = Some (y, r)" "parseInt (fmt_plus_0d w y @ r) = Some (y, r)"
proof -
  have "fmt_0d w y \<noteq> []" "fmt_plus_0d w y \<noteq> []" by (simp_all add: fmt_0d_def fmt_plus_0d_def zero_pad_def)
  moreover have "\<not> y \<le> - 2147483648" "\<not> 2147483647 \<le> y" using assms(2) by auto
  ultimately show "parseInt (fmt_0d w y @ r) = Some (y, r)" "parseInt (fmt_plus_0d w y @ r) = Some (y, r)"
    using assms by (simp_all add: parseInt_def strtol_fmt_0d strtol_fmt_plus_0d)
qed

section \<open>The format of the standard\<close>

lemma parse_seconds_fmt:
  assumes "0 \<le> s" "s < 60" "0 \<le> ms" "ms < 1000" "stops_number r"
  shows "parse_seconds (fmt_0d 2 s @ CHR ''.'' # fmt_0d 3 ms @ r) = Some (s * msPerSecond + ms, r)"
proof -
  have l: "length (fmt_0d 3 ms) = 3" "isASCIIDigit (deref (fmt_0d 3 ms @ r))" using assms by (simp_all add: fmt_0d_digits)
  show ?thesis using assms l by (simp add: parse_seconds_def two_digits_fmt parseLong_3_fmt)
qed

lemma parseES5TimePortion_fmt:
  assumes "0 \<le> h" "h < 24" "0 \<le> mi" "mi < 60" "0 \<le> s" "s < 60" "0 \<le> ms" "ms < 1000"
  shows "parseES5TimePortion (fmt_0d 2 h @ CHR '':'' # fmt_0d 2 mi @ CHR '':'' # fmt_0d 2 s @ CHR ''.'' # fmt_0d 3 ms @ ''Z'')
    = Some (h, mi, s * msPerSecond + ms, 0, True, [])"
  using assms by (simp add: parseES5TimePortion_def two_digits_fmt parse_seconds_fmt parse_zone_def)

lemma parseES5DatePortion_fmt:
  assumes "parseInt (txt @ r) = Some (y, r)" "r = CHR ''-'' # fmt_0d 2 m @ CHR ''-'' # fmt_0d 2 dd @ p"
    and "0 \<le> m" "m < 100" "0 \<le> dd" "dd < 100" "stops_number p"
  shows "parseES5DatePortion (txt @ r) = Some (y, m, dd, p)"
  using assms by (simp add: parseES5DatePortion_def two_digits_fmt)

lemma es5_time_eq:
  assumes "valid_date y m dd" "0 \<le> h" "h < 24" "0 \<le> mi" "mi < 60" "0 \<le> s" "s < 60" "0 \<le> ms" "ms < 1000"
  shows "es5_time y (int m + 1) dd h mi (s * msPerSecond + ms) 0 = Some (timeinfoToMs y m dd h mi s ms)"
proof -
  have table: "daysPerMonth ! m = (if m = 1 then 29 else daysInMonth ! m)" if "m < 12" for m
  proof -
    have "list_all (\<lambda>m. daysPerMonth ! m = (if m = 1 then 29 else daysInMonth ! m)) [0..<12]" by code_simp
    then show ?thesis using that by (simp add: list_all_iff)
  qed
  have "daysInMonth ! 1 = 28" by (simp add: daysInMonth_def)
  then have v: "m < 12" "1 \<le> dd" "dd \<le> daysPerMonth ! m" "m = 1 \<and> dd > 28 \<longrightarrow> daysInYear y = 366"
    using assms(1) table [of m] by (auto simp: valid_date_def month_length_def daysInYear_leap split: if_splits)
  have ms: "0 \<le> s * msPerSecond + ms" "s * msPerSecond + ms < msPerMinute" "(s * msPerSecond + ms) div msPerSecond = s"
    "(s * msPerSecond + ms) mod msPerSecond = ms" using assms by auto
  then have "(s * msPerSecond + ms) sdiv msPerSecond = s" "(s * msPerSecond + ms) smod msPerSecond = ms"
    by (simp_all add: sdiv_pos smod_pos)
  then show ?thesis using v ms(1, 2) assms by (auto simp: es5_time_def Let_def)
qed

lemma month_length_le: "m < 12 \<Longrightarrow> month_length y m \<le> 31"
proof -
  have "list_all (\<lambda>m. daysInMonth ! m \<le> 31) [0..<12]" by code_simp
  then show "m < 12 \<Longrightarrow> month_length y m \<le> 31" by (simp add: list_all_iff month_length_def)
qed

lemma shows_bounds:
  assumes "shows_time f t"
  shows "valid_date (ti_year f) (ti_month f) (ti_mday f)" "ti_month f < 12" "1 \<le> ti_mday f" "ti_mday f \<le> 31" "0 \<le> ti_hour f" "ti_hour f < 24"
    "0 \<le> ti_min f" "ti_min f < 60" "0 \<le> ti_sec f" "ti_sec f < 60" "0 \<le> ti_millisec f" "ti_millisec f < 1000"
    "0 \<le> ti_wday f" "ti_wday f < 7"
  using assms month_length_le [of "ti_month f" "ti_year f"] by (auto simp: shows_time_def valid_date_def)

lemma iso_rest_length: "shows_time f t \<Longrightarrow> length (iso_rest f) = 20"
  using shows_bounds [of f t] by (simp add: iso_rest_def fmt_0d_digits)

lemma year_text_length:
  assumes "\<bar>y\<bar> \<le> 1000000"
  shows "length (fmt_0d w y) \<le> w + 8" "length (fmt_plus_0d w y) \<le> w + 8"
proof -
  have "length (decimal_digits (nat y)) \<le> 7" "length (decimal_digits (nat (- y))) \<le> 7" "length (decimal_digits (nat \<bar>y\<bar>)) \<le> 7"
    using assms by (auto intro!: length_decimal_digits)
  then show "length (fmt_0d w y) \<le> w + 8" "length (fmt_plus_0d w y) \<le> w + 8"
    by (auto simp: fmt_0d_def fmt_plus_0d_def length_zero_pad)
qed

lemma iso_text_complete:
  assumes "shows_time f t" "\<bar>ti_year f\<bar> \<le> 1000000"
  shows "iso_text f = (if ti_year f \<ge> 0 \<and> ti_year f \<le> 9999 then fmt_0d 4 (ti_year f) else fmt_plus_0d 7 (ti_year f)) @ iso_rest f"
  using iso_rest_length [OF assms(1)] year_text_length(1) [OF assms(2), of 4] year_text_length(2) [OF assms(2), of 7]
  by (simp add: iso_text_def snprintf_def)

lemma parse_iso_text:
  assumes "shows_time f t" "near_range t"
  shows "parseStringToDate_2 (iso_text f) = Some (t, True)"
proof -
  note year = shows_year_bound [OF assms]
  note b = shows_bounds [OF assms(1)]
  define time where "time = fmt_0d 2 (ti_hour f) @ CHR '':'' # fmt_0d 2 (ti_min f) @ CHR '':'' # fmt_0d 2 (ti_sec f)
    @ CHR ''.'' # fmt_0d 3 (ti_millisec f) @ ''Z''"
  have rest: "iso_rest f = CHR ''-'' # fmt_0d 2 (int (ti_month f) + 1) @ CHR ''-'' # fmt_0d 2 (ti_mday f) @ CHR ''T'' # time"
    by (simp add: iso_rest_def time_def)
  have "parseES5DatePortion (iso_text f) = Some (ti_year f, int (ti_month f) + 1, ti_mday f, CHR ''T'' # time)"
    unfolding iso_text_complete [OF assms(1) year]
    using b(2-4) parseInt_year [OF _ year, of "iso_rest f"] by (intro parseES5DatePortion_fmt [OF _ rest]) (auto simp: rest)
  moreover have "parseES5TimePortion time = Some (ti_hour f, ti_min f, ti_sec f * msPerSecond + ti_millisec f, 0, True, [])"
    unfolding time_def by (rule parseES5TimePortion_fmt) (use b in auto)
  moreover have "\<bar>t\<bar> \<le> 8700000000000000" using assms(2) by (auto simp: near_range_def)
  then have "timeinfoToMs (ti_year f) (ti_month f) (ti_mday f) (ti_hour f) (ti_min f) (ti_sec f) (ti_millisec f) = t"
    by (rule timeinfoToMs_shows [OF assms(1) year])
  ultimately show ?thesis using es5_time_eq [OF b(1, 5-12)] by (simp add: parseStringToDate_2_def)
qed

text \<open>
  C18. Where the zone of the writer is not near a change of its clocks, \<^verbatim>\<open>toISOString\<close> makes its text
  without an error for every valid date and \<^verbatim>\<open>Date.parse\<close> gives the date back from it, to the
  millisecond, in whatever zone it runs. The last hypothesis says so: the time that the UTC getters
  shift by the offset of the zone, in whole minutes, is shifted back by the offset that the zone
  has there. \<open>utc_getters_in_the_gap\<close> shows what the getters deliver otherwise.
\<close>

theorem iso_text_roundtrip:
  assumes "zone_ok z" "date_ok z cu" "date_ok z d" "date_in_range d" "date_isValid d"
    and "local_time z (m_primitiveValue d + offset_minutes z (m_primitiveValue d) * msPerMinute) = m_primitiveValue d"
  shows "\<exists>cu' d' txt. toISOString z cu d = (cu', d', Inr txt) \<and> parseStringToDate z' txt = m_primitiveValue d"
proof -
  obtain cu' d' f where r: "getUTC_field z iso_text cu d = (cu', d', iso_text f)" "shows_time f (m_primitiveValue d)"
    using getUTC_shows [OF assms, of iso_text] by blast
  have t: "IS_IN_TIME_RANGE (m_primitiveValue d)" "IS_VALID_TIME (m_primitiveValue d)"
    using assms(4, 5) by (simp_all add: date_in_range_def date_isValid_def)
  have "parseStringToDate z' (iso_text f) = m_primitiveValue d"
    using parse_iso_text [OF r(2) in_range_near [OF t(1)]] t by (simp add: parseStringToDate_def)
  then show ?thesis using assms(5) r(1) by (simp add: toISOString_def)
qed

lemma fixed_zone_offset:
  assumes "fixed_zone z c"
  shows "local_time z (t + offset_minutes z t * msPerMinute) = t"
proof -
  have "offset_minutes z t = (- c * msPerMinute) sdiv msPerMinute" by (simp add: offset_minutes_def fixed_local_time [OF assms])
  also have "\<dots> = - c" by (simp add: signed_divide_int_def abs_mult sgn_mult mult_sgn_abs)
  finally show ?thesis by (simp add: fixed_local_time [OF assms])
qed

theorem iso_text_roundtrip_witness:
  "\<exists>cu' d' txt. toISOString (zone_of_minutes 540) date_init (setTimeValue date_init 951782400000) = (cu', d', Inr txt)
     \<and> parseStringToDate (zone_of_minutes 60) txt = 951782400000"
proof -
  have z: "fixed_zone (zone_of_minutes 540) 540" by (rule zone_of_minutes_fixed) simp
  let ?d = "setTimeValue date_init 951782400000"
  have d: "date_ok (zone_of_minutes 540) ?d" by (rule setTimeValue_ok(1)) (simp add: MaximumDatePrimitiveValue_def)
  have v: "date_in_range ?d" "date_isValid ?d" by code_simp+
  show ?thesis
    using iso_text_roundtrip [OF fixed_zone_ok [OF z] date_init_ok(1) d v fixed_zone_offset [OF z], of "zone_of_minutes 60"]
    by (simp add: setTimeValue_ok(2))
qed

section \<open>The other format\<close>

lemma findMonth_name:
  assumes "c1 \<noteq> CHR 0x00" "c2 \<noteq> CHR 0x00" "c3 \<noteq> CHR 0x00"
  shows "findMonth ([c1, c2, c3] @ s) = findMonth [c1, c2, c3]"
  using assms by (simp add: findMonth_def numeral_3_eq_3)

text \<open>\<^verbatim>\<open>findMonth\<close> knows the names of the months, and takes no name of a weekday for one.\<close>

lemma findMonth_months: "m < 12 \<Longrightarrow> findMonth (months ! m @ s) = int m"
proof -
  have "list_all (\<lambda>m. length (months ! m) = 3 \<and> list_all (\<lambda>c. c \<noteq> CHR 0x00) (months ! m) \<and> findMonth (months ! m) = int m) [0..<12]"
    by code_simp
  then have "m < 12 \<Longrightarrow> length (months ! m) = 3 \<and> list_all (\<lambda>c. c \<noteq> CHR 0x00) (months ! m) \<and> findMonth (months ! m) = int m"
    by (simp add: list_all_iff)
  then show "m < 12 \<Longrightarrow> findMonth (months ! m @ s) = int m"
    using findMonth_name [of "months ! m ! 0" "months ! m ! 1" "months ! m ! 2" s] by (auto simp: numeral_3_eq_3 length_Suc_conv)
qed

lemma findMonth_days: "n < 7 \<Longrightarrow> findMonth (days ! n @ s) = - 1"
proof -
  have "list_all (\<lambda>n. length (days ! n) = 3 \<and> list_all (\<lambda>c. c \<noteq> CHR 0x00) (days ! n) \<and> findMonth (days ! n) = - 1) [0..<7]"
    by code_simp
  then have "n < 7 \<Longrightarrow> length (days ! n) = 3 \<and> list_all (\<lambda>c. c \<noteq> CHR 0x00) (days ! n) \<and> findMonth (days ! n) = - 1"
    by (simp add: list_all_iff)
  then show "n < 7 \<Longrightarrow> findMonth (days ! n @ s) = - 1"
    using findMonth_name [of "days ! n ! 0" "days ! n ! 1" "days ! n ! 2" s] by (auto simp: numeral_3_eq_3 length_Suc_conv)
qed

definition word_char :: "char \<Rightarrow> bool" where
  "word_char c \<longleftrightarrow> (65 \<le> (of_char c :: nat) \<and> (of_char c :: nat) \<le> 90) \<or> (97 \<le> (of_char c :: nat) \<and> (of_char c :: nat) \<le> 122)"

lemma word_charD:
  "word_char c \<Longrightarrow> c \<noteq> CHR 0x00 \<and> \<not> isASCIISpace c \<and> \<not> isASCIIDigit c \<and> c \<noteq> CHR ''('' \<and> c \<noteq> CHR ''-'' \<and> c \<noteq> CHR '',''
     \<and> c \<noteq> CHR '')'' \<and> c \<noteq> CHR ''+'' \<and> c \<noteq> CHR ''/''"
  by (auto simp: word_char_def isASCIISpace_def isASCIIDigit_def)

lemma names_are_words:
  "n < 7 \<Longrightarrow> \<exists>a b c. days ! n = [a, b, c] \<and> word_char a \<and> word_char b \<and> word_char c"
  "m < 12 \<Longrightarrow> \<exists>a b c. months ! m = [a, b, c] \<and> word_char a \<and> word_char b \<and> word_char c"
proof -
  have "list_all (\<lambda>w. length w = 3 \<and> list_all word_char w) days" "list_all (\<lambda>w. length w = 3 \<and> list_all word_char w) months"
    by code_simp+
  moreover have "length days = 7" "length months = 12" by (simp_all add: days_def months_def)
  moreover have "\<exists>a b c. w = [a, b, c] \<and> word_char a \<and> word_char b \<and> word_char c" if "length w = 3" "list_all word_char w" for w
    using that by (auto simp: numeral_3_eq_3 length_Suc_conv)
  ultimately show "n < 7 \<Longrightarrow> \<exists>a b c. days ! n = [a, b, c] \<and> word_char a \<and> word_char b \<and> word_char c"
    "m < 12 \<Longrightarrow> \<exists>a b c. months ! m = [a, b, c] \<and> word_char a \<and> word_char b \<and> word_char c"
    by (simp_all add: list_all_length)
qed

lemma skip_at:
  "c \<noteq> CHR 0x00 \<Longrightarrow> \<not> isASCIISpace c \<Longrightarrow> c \<noteq> CHR ''('' \<Longrightarrow> c \<noteq> CHR '')'' \<Longrightarrow> skipSpacesAndComments (c # s) = c # s"
  by simp

lemma skip_digit: "isASCIIDigit (deref s) \<Longrightarrow> skipSpacesAndComments s = s"
proof -
  assume d: "isASCIIDigit (deref s)"
  then obtain c r where s: "s = c # r" by (cases s) auto
  have "\<not> isASCIISpace c" "c \<noteq> CHR 0x00" "c \<noteq> CHR ''(''" "c \<noteq> CHR '')''"
    using d by (auto simp: s isASCIISpace_def isASCIIDigit_def)
  then show ?thesis by (simp add: s)
qed

text \<open>The weekday in front of the date is passed over.\<close>

lemma month_words_weekday:
  assumes "n < 7" "isASCIIDigit (deref r)"
  shows "month_words (- 1) (days ! n @ CHR '','' # CHR '' '' # r) (days ! n @ CHR '','' # CHR '' '' # r) = (- 1, r, r)"
proof -
  obtain a b c where n: "days ! n = [a, b, c]" "word_char a" "word_char b" "word_char c" using names_are_words(1) [OF assms(1)] by blast
  have step: "month_words m w (x # s) = month_words m w s"
    if "x \<noteq> CHR 0x00" "\<not> isASCIISpace x" "\<not> isASCIIDigit x" "x \<noteq> CHR ''(''" for x m w s
    using that by (subst month_words.simps) simp
  have "findMonth (days ! n @ CHR '','' # CHR '' '' # r) = - 1" by (rule findMonth_days [OF assms(1)])
  moreover have "month_words (- 1) r r = (- 1, r, r)" using assms(2) by (subst month_words.simps) simp
  moreover have "skipSpacesAndComments (CHR '' '' # r) = r" using skip_digit [OF assms(2)] by simp
  ultimately have "month_words (- 1) (days ! n @ CHR '','' # CHR '' '' # r) (CHR '' '' # r) = (- 1, r, r)"
    by (subst month_words.simps) (simp add: n(1) del: skip_spaces_and_comments.simps)
  then show ?thesis using n word_charD by (simp add: step)
qed

lemma named_month_fmt:
  assumes "m < 12"
  shows "legacy_named_month dd (- 1) (CHR '' '' # months ! m @ CHR '' '' # r)
    = Some \<lparr>lg_day = dd, lg_month = int m, lg_year = 0, lg_pos = r, lg_newPos = CHR '' '' # months ! m @ CHR '' '' # r\<rparr>"
proof -
  obtain a b c where n: "months ! m = [a, b, c]" "word_char a" "word_char b" "word_char c" using names_are_words(2) [OF assms] by blast
  have "findMonth (months ! m @ CHR '' '' # r) = int m" by (rule findMonth_months [OF assms])
  then show ?thesis using n word_charD [of a] word_charD [of b] word_charD [of c] by (simp add: legacy_named_month_def)
qed

lemma legacy_time_fmt:
  assumes "0 \<le> h" "h < 24" "0 \<le> mi" "mi < 60" "0 \<le> s" "s < 60"
  shows "legacy_time h (CHR '':'' # fmt_0d 2 mi @ CHR '':'' # fmt_0d 2 s @ '' GMT'') = Some (h, mi, s, ''GMT'')"
proof -
  have "parseLong (fmt_0d 2 mi @ CHR '':'' # fmt_0d 2 s @ '' GMT'') = Some (mi, CHR '':'' # fmt_0d 2 s @ '' GMT'')"
    "parseLong (fmt_0d 2 s @ '' GMT'') = Some (s, '' GMT'')" using assms by (simp_all add: parseLong_fmt)
  moreover have "legacy_am_pm h ''GMT'' = Some (h, ''GMT'')" by (simp add: legacy_am_pm_def strncasecmp_eq_def ascii_lower_def)
  moreover have "skipSpacesAndComments '' GMT'' = ''GMT''" by code_simp
  ultimately show ?thesis using assms by (simp add: legacy_time_def legacy_seconds_def del: skip_spaces_and_comments.simps)
qed

lemma zone_gmt: "parseStringToDate_1_3 y ''GMT'' = Some (y, True, 0, [])"
proof -
  have "legacy_zone ''GMT'' = Some (True, 0, [])" by code_simp
  moreover have "\<not> isASCIIDigit (CHR ''G'')" by (simp add: isASCIIDigit_def)
  ultimately show ?thesis by (simp add: parseStringToDate_1_3_def)
qed

lemma fmt_0d_not_end: "deref (fmt_0d w y @ r) \<noteq> CHR 0x00"
proof (cases "y < 0")
  case False
  have "list_all isASCIIDigit (zero_pad w (decimal_digits (nat y)))" "zero_pad w (decimal_digits (nat y)) \<noteq> []"
    using decimal_digits_nonempty [of "nat y"] by (simp_all only: zero_pad_all decimal_digits_all) (simp add: zero_pad_def)
  then show ?thesis using False by (cases "zero_pad w (decimal_digits (nat y))") (auto simp: fmt_0d_def)
qed (simp add: fmt_0d_def)

text \<open>What a year below 100 is taken for.\<close>

definition two_digit_year :: "int \<Rightarrow> int" where
  "two_digit_year year = (if year \<ge> 0 \<and> year < 100 then if year < 50 then year + 2000 else year + 1900 else year)"

lemma parse_1_fmt:
  assumes n: "n < 7" and dd: "1 \<le> dd" "dd \<le> 31" and m: "m < 12" and y: "\<bar>y\<bar> \<le> 1000000"
    and time: "0 \<le> h" "h < 24" "0 \<le> mi" "mi < 60" "0 \<le> s" "s < 60"
  shows "parseStringToDate_1 (days ! n @ '', '' @ fmt_0d 2 dd @ '' '' @ months ! m @ '' '' @ fmt_0d w y @ '' '' @ fmt_0d 2 h @ '':''
      @ fmt_0d 2 mi @ '':'' @ fmt_0d 2 s @ '' GMT'') = Some (timeinfoToMs (two_digit_year y) m dd h mi s 0, True, 0)"
proof -
  define clock where "clock = fmt_0d 2 h @ CHR '':'' # fmt_0d 2 mi @ CHR '':'' # fmt_0d 2 s @ '' GMT''"
  define year where "year = fmt_0d w y @ CHR '' '' # clock"
  define date where "date = fmt_0d 2 dd @ CHR '' '' # months ! m @ CHR '' '' # year"
  let ?s = "days ! n @ CHR '','' # CHR '' '' # date"
  have i: "isASCIIDigit (deref date)" "isASCIIDigit (deref clock)"
    unfolding date_def clock_def using dd time by (intro fmt_0d_digits(4); simp)+
  obtain a b c where d3: "days ! n = [a, b, c]" "word_char a" using names_are_words(1) [OF n] by blast
  have "skipSpacesAndComments ?s = ?s" using word_charD [OF d3(2)] by (simp add: d3(1))
  then have words: "month_words (- 1) ?s (skipSpacesAndComments ?s) = (- 1, date, date)"
    using month_words_weekday [OF n i(1)] by simp
  have skip: "skipSpacesAndComments date = date" "skipSpacesAndComments clock = clock" using i by (simp_all add: skip_digit)
  have nz: "deref date \<noteq> CHR 0x00" "deref year \<noteq> CHR 0x00"
    using i by (auto simp: isASCIIDigit_def year_def fmt_0d_not_end)
  have day: "parseLong date = Some (dd, CHR '' '' # months ! m @ CHR '' '' # year)"
    unfolding date_def using dd by (intro parseLong_fmt) auto
  define g where "g = \<lparr>lg_day = dd, lg_month = int m, lg_year = y, lg_pos = year, lg_newPos = CHR '' '' # clock\<rparr>"
  have "parseInt year = Some (y, CHR '' '' # clock)" unfolding year_def by (intro parseInt_year(1)) (use y in auto)
  then have 1: "parseStringToDate_1_1 dd (- 1) (CHR '' '' # months ! m @ CHR '' '' # year) = Some g"
    using dd m nz(2) by (simp add: parseStringToDate_1_1_def named_month_fmt g_def)
  have "strtol clock = (h, CHR '':'' # fmt_0d 2 mi @ CHR '':'' # fmt_0d 2 s @ '' GMT'')"
    unfolding clock_def by (rule strtol_fmt_0d) (use time in auto)
  moreover have "CHR '':'' # fmt_0d 2 mi @ CHR '':'' # fmt_0d 2 s @ '' GMT'' \<noteq> clock"
    using i(2) by (metis deref_simps(2) not_digit(2))
  ultimately have 2: "parseStringToDate_1_2 g = Some (y, h, mi, s, ''GMT'')"
    using legacy_time_fmt [OF time] skip(2) by (simp add: parseStringToDate_1_2_def g_def)
  have "i32 dd = dd" using dd by (intro i32_id) auto
  then have "parseStringToDate_1 ?s = Some (timeinfoToMs (two_digit_year y) m dd h mi s 0, True, 0)"
    using dd by (simp add: parseStringToDate_1_def words skip nz day 1 2 zone_gmt two_digit_year_def)
      (simp add: g_def)
  then show ?thesis by (simp add: date_def year_def clock_def)
qed

lemma shows_whole_second:
  assumes "shows_time f t"
  shows "shows_time (f\<lparr>ti_millisec := 0\<rparr>) (t - t mod msPerSecond)"
proof -
  define u where "u = t - t mod msPerSecond"
  have part: "u div n = t div n" if "n = msPerSecond * k" "0 < k" for n k
    unfolding that(1)
  proof -
    have "u = msPerSecond * (t div msPerSecond)" by (simp only: u_def minus_mod_eq_mult_div)
    then have "u div (msPerSecond * k) = t div msPerSecond div k" by simp
    also have "\<dots> = t div (msPerSecond * k)" using that(2) by (simp only: zdiv_zmult2_eq [of k t msPerSecond, OF less_imp_le])
    finally show "u div (msPerSecond * k) = t div (msPerSecond * k)" .
  qed
  have eqs: "u div msPerDay = t div msPerDay" "u div msPerHour = t div msPerHour" "u div msPerMinute = t div msPerMinute"
    "u div msPerSecond = t div msPerSecond"
    by (rule part [of _ 86400], simp_all) (rule part [of _ 3600], simp_all, rule part [of _ 60], simp_all, rule part [of _ 1], simp_all)
  have ms: "u mod msPerSecond = 0" by (simp add: u_def minus_mod_eq_mult_div)
  let ?f = "f\<lparr>ti_millisec := 0\<rparr>"
  have sel: "ti_year ?f = ti_year f" "ti_month ?f = ti_month f" "ti_mday ?f = ti_mday f" "ti_hour ?f = ti_hour f"
    "ti_min ?f = ti_min f" "ti_sec ?f = ti_sec f" "ti_millisec ?f = 0" "ti_wday ?f = ti_wday f" by simp_all
  show ?thesis using assms unfolding u_def [symmetric] shows_time_def eqs ms sel by (elim conjE) (intro conjI; assumption?; simp only:)
qed

lemma parse_utc_text:
  assumes "shows_time f t" "near_range t"
  shows "parseStringToDate_2 (utc_text f) = None"
    "parseStringToDate_1 (utc_text f) =
       Some (timeinfoToMs (two_digit_year (ti_year f)) (ti_month f) (ti_mday f) (ti_hour f) (ti_min f) (ti_sec f) 0, True, 0)"
proof -
  note year = shows_year_bound [OF assms]
  note b = shows_bounds [OF assms(1)]
  have n: "nat (ti_wday f) < 7" using b(13, 14) by simp
  obtain a c e where d3: "days ! nat (ti_wday f) = [a, c, e]" "word_char a" using names_are_words(1) [OF n] by blast
  have m3: "length (months ! ti_month f) = 3" using names_are_words(2) [OF b(2)] by auto
  have "length (fmt_0d (if ti_year f < 0 then 5 else 4) (ti_year f)) \<le> 13"
    using year_text_length(1) [OF year, of 5] year_text_length(1) [OF year, of 4] by simp
  then have whole: "utc_text f = days ! nat (ti_wday f) @ '', '' @ fmt_0d 2 (ti_mday f) @ '' '' @ months ! ti_month f @ '' ''
       @ fmt_0d (if ti_year f < 0 then 5 else 4) (ti_year f) @ '' '' @ fmt_0d 2 (ti_hour f) @ '':'' @ fmt_0d 2 (ti_min f) @ '':''
       @ fmt_0d 2 (ti_sec f) @ '' GMT''"
    unfolding utc_text_def snprintf_def using b m3 by (intro take_all) (simp add: d3(1) fmt_0d_digits(1))
  show "parseStringToDate_2 (utc_text f) = None"
    using word_charD [OF d3(2)] by (simp add: whole d3(1) parseStringToDate_2_def parseES5DatePortion_def parseInt_def strtol_def Let_def)
  show "parseStringToDate_1 (utc_text f) =
       Some (timeinfoToMs (two_digit_year (ti_year f)) (ti_month f) (ti_mday f) (ti_hour f) (ti_min f) (ti_sec f) 0, True, 0)"
    unfolding whole by (rule parse_1_fmt [OF n b(3, 4, 2) year b(5-10)])
qed

text \<open>
  The text of \<^verbatim>\<open>toUTCString\<close> is read back, by the parser for other formats, as the date without its
  milliseconds, for years that are not below 100.
\<close>

theorem utc_text_roundtrip:
  assumes "zone_ok z" "date_ok z cu" "date_ok z d" "date_in_range d" "date_isValid d"
    and "local_time z (m_primitiveValue d + offset_minutes z (m_primitiveValue d) * msPerMinute) = m_primitiveValue d"
    and "yearFromTime (m_primitiveValue d) < 0 \<or> 99 < yearFromTime (m_primitiveValue d)"
  shows "\<exists>cu' d' txt. toUTCString z cu d = (cu', d', txt)
    \<and> parseStringToDate z' txt = m_primitiveValue d - m_primitiveValue d mod msPerSecond"
proof -
  let ?t = "m_primitiveValue d" and ?u = "m_primitiveValue d - m_primitiveValue d mod msPerSecond"
  obtain cu' d' f where r: "getUTC_field z utc_text cu d = (cu', d', utc_text f)" "shows_time f ?t"
    using getUTC_shows [OF assms(1-6), of utc_text] by blast
  have t: "IS_IN_TIME_RANGE ?t" using assms(4, 5) by (simp add: date_in_range_def)
  note near = in_range_near [OF t]
  have "0 \<le> ?t mod msPerSecond" "?u = ?t div msPerSecond * msPerSecond" by (simp_all add: minus_mod_eq_div_mult)
  moreover have "- 8640000000000 \<le> ?t div msPerSecond"
    using t by (subst int_le_div) (simp_all add: IS_IN_TIME_RANGE_def MaximumDatePrimitiveValue_def)
  ultimately have u: "IS_IN_TIME_RANGE ?u" "IS_VALID_TIME ?u"
    using t by (auto simp: IS_IN_TIME_RANGE_def IS_VALID_TIME_def TIME64NAN_def MaximumDatePrimitiveValue_def)
  have "ti_year f = yearFromTime ?t" by (rule shows_year [OF r(2) near])
  then have y: "two_digit_year (ti_year f) = ti_year f" using assms(7) by (auto simp: two_digit_year_def)
  have "\<bar>?u\<bar> \<le> 8700000000000000" using u(1) by (auto simp: IS_IN_TIME_RANGE_def MaximumDatePrimitiveValue_def)
  then have "timeinfoToMs (ti_year f) (ti_month f) (ti_mday f) (ti_hour f) (ti_min f) (ti_sec f) 0 = ?u"
    using timeinfoToMs_shows [OF shows_whole_second [OF r(2)]] shows_year_bound [OF r(2) near] by simp
  then have "parseStringToDate z' (utc_text f) = ?u"
    using parse_utc_text [OF r(2) near] u y by (simp add: parseStringToDate_def)
  then show ?thesis using assms(5) r(1) by (simp add: toUTCString_def)
qed

theorem utc_text_roundtrip_witness:
  "\<exists>cu' d' txt. toUTCString (zone_of_minutes 540) date_init (setTimeValue date_init 951782400123) = (cu', d', txt)
     \<and> parseStringToDate (zone_of_minutes 60) txt = 951782400000"
proof -
  have z: "fixed_zone (zone_of_minutes 540) 540" by (rule zone_of_minutes_fixed) simp
  let ?d = "setTimeValue date_init 951782400123"
  have d: "date_ok (zone_of_minutes 540) ?d" by (rule setTimeValue_ok(1)) (simp add: MaximumDatePrimitiveValue_def)
  have v: "date_in_range ?d" "date_isValid ?d" by code_simp+
  have y: "yearFromTime (m_primitiveValue ?d) < 0 \<or> 99 < yearFromTime (m_primitiveValue ?d)" by code_simp
  show ?thesis
    using utc_text_roundtrip [OF fixed_zone_ok [OF z] date_init_ok(1) d v fixed_zone_offset [OF z] y, of "zone_of_minutes 60"]
    by (simp add: setTimeValue_ok(2))
qed

text \<open>
  A defect: the year of a date of the first century is printed with four digits but read as a year
  of two, so that the text of the first of January 42 is read as a date of 2042.
\<close>

theorem utc_text_first_century:
  "utc_text \<lparr>ti_year = 42, ti_month = 0, ti_mday = 1, ti_hour = 0, ti_min = 0, ti_sec = 0, ti_millisec = 0, ti_wday = 3,
     ti_gmtoff = 0, ti_isdst = False\<rparr> = ''Wed, 01 Jan 0042 00:00:00 GMT''
   \<and> parseStringToDate z ''Wed, 01 Jan 0042 00:00:00 GMT'' = timeinfoToMs 2042 0 1 0 0 0 0"
proof -
  have "utc_text \<lparr>ti_year = 42, ti_month = 0, ti_mday = 1, ti_hour = 0, ti_min = 0, ti_sec = 0, ti_millisec = 0, ti_wday = 3,
     ti_gmtoff = 0, ti_isdst = False\<rparr> = ''Wed, 01 Jan 0042 00:00:00 GMT''" by code_simp
  moreover have "parseStringToDate_2 ''Wed, 01 Jan 0042 00:00:00 GMT'' = None" by code_simp
  moreover have "parseStringToDate_1 ''Wed, 01 Jan 0042 00:00:00 GMT'' = Some (2272147200000, True, 0)" by code_simp
  moreover have "timeinfoToMs 2042 0 1 0 0 0 0 = 2272147200000" by code_simp
  ultimately show ?thesis
    by (simp add: parseStringToDate_def IS_VALID_TIME_def TIME64NAN_def IS_IN_TIME_RANGE_def MaximumDatePrimitiveValue_def)
qed

text \<open>
  A defect: the day of \<^verbatim>\<open>YYYY/MM/DD\<close> is not checked and loses its upper 32 bits: the day
  \<open>2 ^ 32 + 1\<close> is the first.
\<close>

theorem slash_date_day_wraps:
  "parseStringToDate_1 ''2000/01/4294967297'' = parseStringToDate_1 ''2000/01/01'' \<and> parseStringToDate_1 ''2000/01/01'' \<noteq> None"
proof -
  have "parseStringToDate_1 ''2000/01/4294967297'' = Some (946684800000, False, 0)" by code_simp
  moreover have "parseStringToDate_1 ''2000/01/01'' = Some (946684800000, False, 0)" by code_simp
  ultimately show ?thesis by simp
qed

end
