(* ===== verification/Date_Builtins.thy ===== *)
theory Date_Builtins
  imports Date_Text
begin

text \<open>
  The constructor \<^verbatim>\<open>Date\<close>, \<^verbatim>\<open>Date.UTC\<close>, \<^verbatim>\<open>Date.parse\<close> and \<^verbatim>\<open>getYear\<close> of \<^verbatim>\<open>builtins/BuiltinDate.cpp\<close>. Arguments
  are given after their conversion to a primitive value; the current time is a parameter.
\<close>

section \<open>The code\<close>

text \<open>
  The sum of a double between \<open>-1\<close> and \<open>100\<close> and \<open>1900\<close>: doubles between 1024 and 2048 are the
  multiples of \<open>2 ^ -42\<close>.
\<close>

definition add_1900 :: "rat \<Rightarrow> rat" where
  "add_1900 year =
     (case quotient_of (year + 1900) of (n, d) \<Rightarrow> of_int (round_half_even (n * 2 ^ 42) d) / 2 ^ 42)"

text \<open>The arguments in front of the defaults, at most seven.\<close>

definition with_defaults :: "number_arg list \<Rightarrow> number_arg list \<Rightarrow> number_arg list" where
  "with_defaults defaults args = (let n = min 7 (length args) in take n args @ drop n defaults)"

definition store_fields :: "zone \<Rightarrow> number_arg list \<Rightarrow> bool \<Rightarrow> date_object" where
  "store_fields z fs convertToUTC =
     (if \<not> isInValidRange fs then setTimeValueAsNaN date_init else setTimeValue_args z date_init fs convertToUTC)"

definition constructor_fields :: "zone \<Rightarrow> number_arg list \<Rightarrow> date_object" where
  "constructor_fields z args =
     (let fs = with_defaults (map Some [0, 0, 1, 0, 0, 0, 0]) args;
          year = map_option (\<lambda>y. if 0 \<le> trunc y \<and> trunc y \<le> 99 then add_1900 y else y) (hd fs)
      in store_fields z (year # tl fs) True)"

datatype date_arg = DateArg date_object | StringArg string | NumberArg number_arg

text \<open>
  \<^verbatim>\<open>new Date\<close>. The NaN that an invalid date gives is converted back to its time value, as the usual
  targets convert it.
\<close>

datatype constructor_args = NoArgs | OneArg date_arg | Fields "number_arg list"

definition builtinDateConstructor :: "zone \<Rightarrow> int \<Rightarrow> constructor_args \<Rightarrow> date_object" where
  "builtinDateConstructor z currentTime args =
     (case args of
        NoArgs \<Rightarrow> setTimeValue date_init currentTime
      | OneArg (DateArg d) \<Rightarrow> setTimeValue date_init (m_primitiveValue d)
      | OneArg (StringArg s) \<Rightarrow> setTimeValue_string z date_init s
      | OneArg (NumberArg V) \<Rightarrow> setTimeValue date_init (timeClip V)
      | Fields fs \<Rightarrow> constructor_fields z fs)"

definition builtinDateUTC :: "zone \<Rightarrow> number_arg list \<Rightarrow> number_arg" where
  "builtinDateUTC z args =
     (let fs = with_defaults (None # map Some [0, 1, 0, 0, 0, 0]) args;
          year = map_option (\<lambda>y. if 0 \<le> trunc y \<and> trunc y \<le> 99 then of_int (trunc y + 1900) else y) (hd fs)
      in number_of_date (store_fields z (year # tl fs) False))"

definition builtinDateParse :: "zone \<Rightarrow> string \<Rightarrow> number_arg" where
  "builtinDateParse z s = number_of_date (setTimeValue_string z date_init s)"

definition builtinDateGetYear :: "zone \<Rightarrow> date_object \<Rightarrow> date_object \<times> int option" where
  "builtinDateGetYear z d =
     (if \<not> date_isValid d then (d, None)
      else case get_field z ti_year d of (d', y) \<Rightarrow> (d', Some (i32 (y - 1900))))"

section \<open>Properties\<close>

lemma parse_range: "IS_VALID_TIME (parseStringToDate z s) \<Longrightarrow> IS_IN_TIME_RANGE (parseStringToDate z s)"
  by (simp add: parseStringToDate_def Let_def IS_VALID_TIME_def split: if_splits)

lemma store_fields_ok: "date_ok z (store_fields z fs b)" "date_in_range (store_fields z fs b)"
  using setTimeValue_fields_ok [of z date_init] date_init_ok
  by (auto simp: store_fields_def setTimeValue_args_def date_ok_def date_in_range_def date_isValid_def
      setTimeValueAsNaN_def IS_VALID_TIME_def split: list.split)

text \<open>
  Every date that the constructor makes, from whatever arguments, is invalid or in the range of
  the standard; \<^verbatim>\<open>Date.parse\<close> and \<^verbatim>\<open>Date.UTC\<close> return numbers in that range.
\<close>

theorem constructor_makes_dates:
  assumes "IS_IN_TIME_RANGE currentTime" "\<And>d. args = OneArg (DateArg d) \<Longrightarrow> date_in_range d"
  shows "date_ok z (builtinDateConstructor z currentTime args) \<and> date_in_range (builtinDateConstructor z currentTime args)
    \<and> (\<forall>t \<in> set_option (builtinDateParse z s) \<union> set_option (builtinDateUTC z nums).
         \<bar>t\<bar> \<le> of_int MaximumDatePrimitiveValue)"
proof -
  have number: "\<bar>t\<bar> \<le> of_int MaximumDatePrimitiveValue" if "date_in_range d" "t \<in> set_option (number_of_date d)" for d t
    using that by (auto simp: number_of_date_def date_in_range_def IS_IN_TIME_RANGE_def abs_le_iff
        simp flip: of_int_minus split: if_splits)
  have made: "date_ok z (builtinDateConstructor z currentTime args)" "date_in_range (builtinDateConstructor z currentTime args)"
    using assms store_fields_ok [of z] setTimeValue_in_range timeClip_range parse_range
    by (auto simp: builtinDateConstructor_def constructor_fields_def setTimeValue_string_def Let_def date_in_range_def date_isValid_def
        split: constructor_args.split date_arg.split)
  have "date_in_range (setTimeValue_string z date_init s)"
    using parse_range by (auto simp: setTimeValue_string_def intro!: setTimeValue_in_range)
  then have "\<forall>t \<in> set_option (builtinDateParse z s). \<bar>t\<bar> \<le> of_int MaximumDatePrimitiveValue"
    unfolding builtinDateParse_def using number by blast
  moreover have "\<forall>t \<in> set_option (builtinDateUTC z nums). \<bar>t\<bar> \<le> of_int MaximumDatePrimitiveValue"
    unfolding builtinDateUTC_def Let_def using number [OF store_fields_ok(2)] by blast
  ultimately show ?thesis using made by blast
qed

theorem constructor_makes_dates_witness:
  "date_in_range (builtinDateConstructor (zone_of_minutes 540) 0 (Fields [Some 2020, Some 1])) \<and> IS_IN_TIME_RANGE 0"
proof -
  have now: "IS_IN_TIME_RANGE 0" by code_simp
  show ?thesis
    using constructor_makes_dates [OF now, of "Fields [Some 2020, Some 1]" "zone_of_minutes 540" "[]" "[]"] now by simp
qed

text \<open>
  \<^verbatim>\<open>Date.UTC\<close> of a date of the calendar and a time of day is the time of that day, for years that
  are not below 100.
\<close>

theorem date_utc_of_calendar_date:
  assumes "valid_date y m d" "y < 0 \<or> 99 < y" "0 \<le> h" "h < 24" "0 \<le> mi" "mi < 60" "0 \<le> s" "s < 60" "0 \<le> ms" "ms < 1000"
    and "\<bar>y\<bar> \<le> 1000000" "t = daysToMs y m d + ((h * 60 + mi) * 60 + s) * 1000 + ms" "IS_IN_TIME_RANGE t"
  shows "builtinDateUTC z (map (\<lambda>i. Some (of_int i)) [y, int m, d, h, mi, s, ms]) = Some (of_int t)"
proof -
  have m: "m < 12" "1 \<le> d" "d \<le> 31" using assms(1) month_length_le [of m y] by (auto simp: valid_date_def)
  have tr: "trunc (of_int i) = i" for i by (simp add: trunc_def)
  have v: "isInValidRange (map (\<lambda>i. Some (of_int i)) [y, int m, d, h, mi, s, ms])"
  proof -
    have le: "\<bar>of_int i :: rat\<bar> \<le> of_int b" if "\<bar>i\<bar> \<le> b" for i b
      using that by (simp only: of_int_abs [symmetric] of_int_le_iff)
    have 5: "\<bar>of_int i :: rat\<bar> \<le> 2147483647" if "\<bar>i\<bar> \<le> 1000000" for i using le [of i 2147483647] that by simp
    have 7: "\<bar>of_int i :: rat\<bar> \<le> 2 ^ 63" if "\<bar>i\<bar> \<le> 1000" for i using le [of i "2 ^ 63"] that by simp
    have "\<bar>int m\<bar> \<le> 1000000" "\<bar>d\<bar> \<le> 1000000" "\<bar>h\<bar> \<le> 1000000" "\<bar>mi\<bar> \<le> 1000000" using assms(3-10) m by auto
    note b5 = this [THEN 5]
    have "\<bar>s\<bar> \<le> 1000" "\<bar>ms\<bar> \<le> 1000" using assms(3-10) by auto
    note b7 = this [THEN 7]
    show ?thesis unfolding isInValidRange_def using b5 b7 5 [OF assms(11)] by simp
  qed
  have yc: "i32 (y + double_div_floor (int m) 12) = y"
  proof -
    have "double_div_floor (int m) 12 = 0"
      using m(1) by (subst double_div_floor_exact) auto
    moreover have "i32 y = y" using assms(11) by (intro i32_id) auto
    ultimately show ?thesis by simp
  qed
  have mc: "int m smod 12 = int m" using m(1) by (simp add: smod_pos)
  have "i64 (s * msPerSecond) = s * msPerSecond" using assms by (intro i64_id) auto
  moreover have tm: "daysToMs y m d + h * msPerHour + mi * msPerMinute + s * msPerSecond + ms = t" using assms(12) by simp
  moreover have "i64 t = t" using assms(13) by (intro i64_id) (auto simp: IS_IN_TIME_RANGE_def MaximumDatePrimitiveValue_def)
  ultimately have "timeinfoToMs y m d h mi s ms = t" by (simp add: timeinfoToMs_def)
  moreover have "IS_VALID_TIME t"
    using assms(13) by (auto simp: IS_VALID_TIME_def TIME64NAN_def IS_IN_TIME_RANGE_def MaximumDatePrimitiveValue_def)
  ultimately show ?thesis
    using assms(2, 13) v yc mc
    by (auto simp: builtinDateUTC_def with_defaults_def store_fields_def setTimeValue_args_def tr tr [of "int _", simplified]
        setTimeValue_fields_def number_of_date_def date_isValid_def Let_def)
qed

theorem date_utc_of_calendar_date_witness:
  "builtinDateUTC (zone_of_minutes 540) (map (\<lambda>i. Some (of_int i)) [2000, 1, 29, 12, 34, 56, 789]) = Some 951827696789"
proof -
  have "valid_date 2000 1 29" "IS_IN_TIME_RANGE 951827696789" by code_simp+
  moreover have "daysToMs 2000 1 29 = 951782400000" by code_simp
  ultimately show ?thesis
    using date_utc_of_calendar_date [of 2000 1 29 12 34 56 789 951827696789 "zone_of_minutes 540"] by simp
qed

text \<open>
  A defect: the constructor adds 1900 to a year between \<open>-1\<close> and \<open>0\<close> before its fraction is cut off,
  which makes it 1899; \<^verbatim>\<open>Date.UTC\<close> cuts it off first.
\<close>

theorem fractional_year_of_constructor:
  "add_1900 (- 1 / 2) = 1899 + 1 / 2 \<and> trunc (add_1900 (- 1 / 2)) = 1899 \<and> trunc (- 1 / 2) + 1900 = 1900"
proof -
  have "add_1900 (- 1 / 2) = 1899 + 1 / 2" by code_simp
  moreover from this have "trunc (add_1900 (- 1 / 2)) = 1899" by (simp add: trunc_def floor_eq_iff)
  moreover have "trunc (- 1 / 2) = 0" by (simp add: trunc_def floor_eq_iff)
  ultimately show ?thesis by simp
qed

end
