(* ===== verification/Boxed_Value.thy ===== *)
theory Boxed_Value
  imports Doubles
begin

text \<open>
  The words that represent values on 64-bit targets (\<^verbatim>\<open>runtime/Value.h\<close>, \<^verbatim>\<open>runtime/ValueInlines.h\<close>):
  pointers as they are, integers under the tag \<^verbatim>\<open>0xFFFF\<close>, doubles moved up by \<open>2 ^ 48\<close>, and a few
  small numbers for the rest. Doubles are bit patterns throughout.
\<close>

section \<open>The code\<close>

definition TagBitTypeOther :: u64 where "TagBitTypeOther = 0x2"
definition ValueFalse :: u64 where "ValueFalse = TagBitTypeOther OR push_bit 2 0"
definition ValueTrue :: u64 where "ValueTrue = TagBitTypeOther OR push_bit 2 1"
definition ValueNull :: u64 where "ValueNull = TagBitTypeOther OR push_bit 2 2"
definition ValueUndefined :: u64 where "ValueUndefined = TagBitTypeOther OR push_bit 2 3"
definition ValueEmpty :: u64 where "ValueEmpty = 0"
definition DoubleEncodeOffset :: u64 where "DoubleEncodeOffset = 0x1000000000000"
definition DoubleInvalidBeginning :: u64 where "DoubleInvalidBeginning = 0xfffe000000000000"
definition TagTypeNumber :: u64 where "TagTypeNumber = 0xffff000000000000"
definition TagMask :: u64 where "TagMask = TagTypeNumber OR TagBitTypeOther"

lemmas value_words = TagBitTypeOther_def ValueFalse_def ValueTrue_def ValueNull_def ValueUndefined_def ValueEmpty_def
  DoubleEncodeOffset_def DoubleInvalidBeginning_def TagTypeNumber_def TagMask_def

text \<open>The constructors.\<close>

definition value_of_bool :: "bool \<Rightarrow> u64" where
  "value_of_bool b = TagBitTypeOther OR push_bit 2 (of_bool b)"

definition value_of_double :: "u64 \<Rightarrow> u64" where
  "value_of_double d = d + DoubleEncodeOffset"

definition value_of_int32 :: "u32 \<Rightarrow> u64" where
  "value_of_int32 i = TagTypeNumber OR ucast i"

definition quiet_NaN :: u64 where "quiet_NaN = 0x7FF8000000000000"

definition value_of_number :: "(u64 \<Rightarrow> u32) \<Rightarrow> u64 \<Rightarrow> u64" where
  "value_of_number wild d =
     (case isInt32ConvertibleDouble wild d of
        Some asInt32 \<Rightarrow> value_of_int32 asInt32
      | None \<Rightarrow>
          if d AND DoubleInvalidBeginning = DoubleInvalidBeginning then value_of_double quiet_NaN
          else value_of_double d)"

definition value_of_unsigned :: "u32 \<Rightarrow> u64" where
  "value_of_unsigned i = (if sint i < 0 then value_of_double (double_of_int (uint i)) else value_of_int32 i)"

definition value_of_long :: "u64 \<Rightarrow> u64" where
  "value_of_long i =
     (let asInt32 = ucast i :: u32 in
      if sint asInt32 \<noteq> sint i then value_of_double (double_of_int (sint i)) else value_of_int32 asInt32)"

definition value_of_unsigned_long :: "u64 \<Rightarrow> u64" where
  "value_of_unsigned_long i =
     (let asInt32 = ucast i :: u32 in
      if uint asInt32 \<noteq> uint i then value_of_double (double_of_int (uint i)) else value_of_unsigned asInt32)"

text \<open>The tests and the readers.\<close>

definition v_isInt32 :: "u64 \<Rightarrow> bool" where "v_isInt32 v \<longleftrightarrow> drop_bit 48 v = 0xFFFF"
definition v_isNumber :: "u64 \<Rightarrow> bool" where "v_isNumber v \<longleftrightarrow> drop_bit 48 v \<noteq> 0"
definition v_isDouble :: "u64 \<Rightarrow> bool" where "v_isDouble v \<longleftrightarrow> v_isNumber v \<and> \<not> v_isInt32 v"
definition v_isEmpty :: "u64 \<Rightarrow> bool" where "v_isEmpty v \<longleftrightarrow> v = ValueEmpty"
definition v_isPointerValue :: "u64 \<Rightarrow> bool" where "v_isPointerValue v \<longleftrightarrow> v AND TagMask = 0"
definition v_isUndefined :: "u64 \<Rightarrow> bool" where "v_isUndefined v \<longleftrightarrow> v = ValueUndefined"
definition v_isNull :: "u64 \<Rightarrow> bool" where "v_isNull v \<longleftrightarrow> v = ValueNull"
definition v_isBoolean :: "u64 \<Rightarrow> bool" where "v_isBoolean v \<longleftrightarrow> v OR push_bit 2 1 = ValueTrue"
definition v_isTrue :: "u64 \<Rightarrow> bool" where "v_isTrue v \<longleftrightarrow> v = ValueTrue"
definition v_isFalse :: "u64 \<Rightarrow> bool" where "v_isFalse v \<longleftrightarrow> v = ValueFalse"
definition v_asInt32 :: "u64 \<Rightarrow> u32" where "v_asInt32 v = ucast v"
definition v_asBoolean :: "u64 \<Rightarrow> bool" where "v_asBoolean v \<longleftrightarrow> v = ValueTrue"
definition v_asDouble :: "u64 \<Rightarrow> u64" where "v_asDouble v = v - DoubleEncodeOffset"

definition v_asNumber :: "u64 \<Rightarrow> u64" where
  "v_asNumber v = (if v_isInt32 v then double_of_int (sint (v_asInt32 v)) else v_asDouble v)"

definition v_isUInt32 :: "u64 \<Rightarrow> bool" where "v_isUInt32 v \<longleftrightarrow> v_isInt32 v \<and> 0 \<le> sint (v_asInt32 v)"

section \<open>Kinds of values\<close>

datatype boxed = BEmpty | BUndefined | BNull | BBool bool | BInt u32 | BDouble u64 | BPointer u64

fun box :: "boxed \<Rightarrow> u64" where
  "box BEmpty = ValueEmpty"
| "box BUndefined = ValueUndefined"
| "box BNull = ValueNull"
| "box (BBool b) = value_of_bool b"
| "box (BInt i) = value_of_int32 i"
| "box (BDouble d) = value_of_double d"
| "box (BPointer p) = p"

text \<open>
  Doubles whose first 15 bits are set, which are NaNs, cannot be boxed. Pointers have 48 bits, and
  are aligned.
\<close>

fun boxable :: "boxed \<Rightarrow> bool" where
  "boxable (BDouble d) \<longleftrightarrow> d AND DoubleInvalidBeginning \<noteq> DoubleInvalidBeginning"
| "boxable (BPointer p) \<longleftrightarrow> p \<noteq> 0 \<and> drop_bit 48 p = 0 \<and> \<not> bit p 1"
| "boxable _ \<longleftrightarrow> True"

lemma boxed_int:
  "drop_bit 48 (value_of_int32 i) = 0xFFFF" "ucast (value_of_int32 i) = i"
proof -
  have "drop_bit 48 (ucast i :: u64) = 0" by (rule bit_word_eqI) (auto simp: bit_simps dest: bit_imp_le_length)
  then show "drop_bit 48 (value_of_int32 i) = 0xFFFF" by (simp add: value_of_int32_def value_words)
  have "(ucast (value_of_int32 i) :: u32) = ucast TagTypeNumber OR ucast (ucast i :: u64)"
    unfolding value_of_int32_def by (rule bit_word_eqI) (auto simp: bit_simps)
  also have "(ucast TagTypeNumber :: u32) = 0" by (simp add: value_words)
  also have "(ucast (ucast i :: u64) :: u32) = i" by (rule bit_word_eqI) (auto simp: bit_simps dest: bit_imp_le_length)
  finally show "ucast (value_of_int32 i) = i" by simp
qed

lemma unat_drop: "unat (drop_bit k d) = unat d div 2 ^ k" for d :: u64
proof -
  have "take_bit 64 (unat d) = unat d" by (rule take_bit_nat_eq_self [OF unat_bound])
  then show ?thesis by (subst unsigned_drop_bit_eq) (simp only: len_num1 len_bit0 len_bit1 drop_bit_eq_div mult_1_right numeral_times_numeral semiring_norm)
qed

lemma invalid_bits: "bit DoubleInvalidBeginning n \<longleftrightarrow> 49 \<le> n \<and> n < 64"
proof -
  have "DoubleInvalidBeginning = push_bit 49 (mask 15)" by (simp add: value_words mask_eq_exp_minus_1)
  moreover have "bit (push_bit 49 (mask 15) :: u64) n \<longleftrightarrow> 49 \<le> n \<and> n < 64" by (auto simp: bit_simps)
  ultimately show ?thesis by simp
qed

lemma invalid_beginning: "d AND DoubleInvalidBeginning = DoubleInvalidBeginning \<longleftrightarrow> 0xFFFE * 2 ^ 48 \<le> unat d"
proof -
  have inv: "DoubleInvalidBeginning = push_bit 49 (mask 15)" by (simp add: value_words mask_eq_exp_minus_1)
  have "d AND push_bit 49 (mask 15) = push_bit 49 (mask 15) \<longleftrightarrow> drop_bit 49 d = mask 15"
  proof
    assume "d AND push_bit 49 (mask 15) = push_bit 49 (mask 15)"
    then have b: "bit (d AND push_bit 49 (mask 15)) n = bit (push_bit 49 (mask 15) :: u64) n" for n by simp
    show "drop_bit 49 d = mask 15"
    proof (rule bit_word_eqI)
      fix n :: nat
      show "bit (drop_bit 49 d) n = bit (mask 15 :: u64) n"
        using b [of "49 + n"] bit_imp_le_length [of d "49 + n"] by (auto simp: bit_simps)
    qed
  next
    assume "drop_bit 49 d = mask 15"
    then have b: "bit (drop_bit 49 d) n = bit (mask 15 :: u64) n" for n by simp
    show "d AND push_bit 49 (mask 15) = push_bit 49 (mask 15)"
    proof (rule bit_word_eqI)
      fix n :: nat
      show "bit (d AND push_bit 49 (mask 15)) n = bit (push_bit 49 (mask 15) :: u64) n"
        using b [of "n - 49"] by (auto simp: bit_simps)
    qed
  qed
  also have "\<dots> \<longleftrightarrow> unat (drop_bit 49 d) = unat (mask 15 :: u64)" by (simp only: word_eq_iff_unsigned [where 'a = nat])
  also have "unat (mask 15 :: u64) = 0x7FFF" by (simp add: mask_eq_exp_minus_1)
  also have "unat (drop_bit 49 d) = unat d div 2 ^ 49" by (rule unat_drop)
  also have "unat d div 2 ^ 49 = 0x7FFF \<longleftrightarrow> 0xFFFE * 2 ^ 48 \<le> unat d"
  proof
    assume "unat d div 2 ^ 49 = 0x7FFF"
    then show "0xFFFE * 2 ^ 48 \<le> unat d" using div_times_less_eq_dividend [of "unat d" "2 ^ 49"] by simp
  next
    assume "0xFFFE * 2 ^ 48 \<le> unat d"
    then have "0x7FFF \<le> unat d div 2 ^ 49" using div_le_mono [of "0xFFFE * 2 ^ 48" "unat d" "2 ^ 49"] by simp
    moreover have "unat d div 2 ^ 49 < 0x8000" using unat_bound [of d] by (intro less_mult_imp_div_less) simp
    ultimately show "unat d div 2 ^ 49 = 0x7FFF" by linarith
  qed
  finally show ?thesis by (simp only: inv)
qed

lemma invalid_is_nan: "d AND DoubleInvalidBeginning = DoubleInvalidBeginning \<Longrightarrow> d_exponent d = 2047"
proof -
  assume "d AND DoubleInvalidBeginning = DoubleInvalidBeginning"
  then have b: "bit d n" if "49 \<le> n" "n < 64" for n
    using that invalid_bits [of n] by (metis bit_and_iff)
  have "drop_bit 52 d AND 0x7FF = 0x7FF"
  proof -
    have "drop_bit 52 d AND mask 11 = mask 11" by (rule bit_word_eqI) (use b in \<open>auto simp: bit_simps\<close>)
    then show ?thesis by (simp add: mask_eq_exp_minus_1)
  qed
  then show ?thesis by (simp add: d_exponent_def)
qed

lemma boxed_double:
  assumes "d AND DoubleInvalidBeginning \<noteq> DoubleInvalidBeginning"
  shows "drop_bit 48 (value_of_double d) \<noteq> 0" "drop_bit 48 (value_of_double d) \<noteq> 0xFFFF"
proof -
  have d: "unat d < 0xFFFE * 2 ^ 48" using assms invalid_beginning [of d] by simp
  have "unat (value_of_double d) = unat d + 2 ^ 48"
    unfolding value_of_double_def DoubleEncodeOffset_def using d by (subst unat_add_lem [THEN iffD1]) simp_all
  then have "unat (drop_bit 48 (value_of_double d)) = unat d div 2 ^ 48 + 1" by (simp add: unat_drop)
  moreover have "unat d div 2 ^ 48 < 0xFFFE" using d by (simp add: less_mult_imp_div_less)
  ultimately have "unat (drop_bit 48 (value_of_double d)) \<noteq> unat (0 :: u64)"
    "unat (drop_bit 48 (value_of_double d)) \<noteq> unat (0xFFFF :: u64)" by simp_all
  then show "drop_bit 48 (value_of_double d) \<noteq> 0" "drop_bit 48 (value_of_double d) \<noteq> 0xFFFF" by metis+
qed

lemma boxed_pointer: "drop_bit 48 p = 0 \<Longrightarrow> \<not> bit p 1 \<Longrightarrow> p AND TagMask = 0"
proof -
  assume p: "drop_bit 48 p = 0" "\<not> bit p 1"
  have m: "TagMask = push_bit 48 (mask 16) OR push_bit 1 1" by (simp add: value_words mask_eq_exp_minus_1)
  show "p AND TagMask = 0"
  proof (rule bit_word_eqI)
    fix n :: nat
    have "\<not> bit p n" if "48 \<le> n" using that arg_cong [OF p(1), of "\<lambda>w. bit w (n - 48)"] by (simp add: bit_simps)
    then show "bit (p AND TagMask) n = bit (0 :: u64) n" using p(2) unfolding m by (auto simp: bit_simps)
  qed
qed

lemma not_pointer: "drop_bit 48 v \<noteq> 0 \<Longrightarrow> v AND TagMask \<noteq> 0"
proof
  assume v: "drop_bit 48 v \<noteq> 0" "v AND TagMask = 0"
  have m: "TagMask = push_bit 48 (mask 16) OR push_bit 1 1" by (simp add: value_words mask_eq_exp_minus_1)
  have "drop_bit 48 v = 0"
  proof (rule bit_word_eqI)
    fix n :: nat
    show "bit (drop_bit 48 v) n = bit (0 :: u64) n"
      using arg_cong [OF v(2), of "\<lambda>w. bit w (48 + n)"] bit_imp_le_length [of v "48 + n"] unfolding m by (auto simp: bit_simps)
  qed
  with v(1) show False by simp
qed

text \<open>The words of the other kinds.\<close>

lemma other_words:
  "ValueEmpty = 0" "ValueFalse = 2" "ValueTrue = 6" "ValueNull = 10" "ValueUndefined = 14"
  "value_of_bool b = (if b then 6 else 2)"
  by (simp_all add: value_words value_of_bool_def)

lemma tag_of_other: "drop_bit 48 (0 :: u64) = 0" "drop_bit 48 (2 :: u64) = 0" "drop_bit 48 (6 :: u64) = 0"
  "drop_bit 48 (10 :: u64) = 0" "drop_bit 48 (14 :: u64) = 0"
  by simp_all

definition boxed_kind :: "u64 \<Rightarrow> bool \<times> bool \<times> bool \<times> bool \<times> bool \<times> bool \<times> bool" where
  "boxed_kind v = (v_isEmpty v, v_isUndefined v, v_isNull v, v_isBoolean v, v_isInt32 v, v_isDouble v,
     v_isPointerValue v)"

lemma number_not_other:
  assumes "drop_bit 48 v \<noteq> 0"
  shows "\<not> v_isEmpty v" "\<not> v_isUndefined v" "\<not> v_isNull v" "\<not> v_isBoolean v" "\<not> v_isPointerValue v"
proof -
  have "v \<noteq> 0" "v \<noteq> 14" "v \<noteq> 10" using assms by auto
  then show "\<not> v_isEmpty v" "\<not> v_isUndefined v" "\<not> v_isNull v"
    by (simp_all add: v_isEmpty_def v_isUndefined_def v_isNull_def other_words)
  show "\<not> v_isBoolean v"
  proof
    assume "v_isBoolean v"
    then have "drop_bit 48 (v OR push_bit 2 1) = drop_bit 48 (6 :: u64)" by (simp only: v_isBoolean_def other_words)
    then have "drop_bit 48 v OR drop_bit 48 (push_bit 2 1) = 0" by (simp only: drop_bit_or tag_of_other)
    then show False using assms by (simp add: or_eq_0_iff)
  qed
  show "\<not> v_isPointerValue v" using not_pointer [OF assms] by (simp add: v_isPointerValue_def)
qed

lemma pointer_not_other:
  assumes "p \<noteq> 0" "drop_bit 48 p = 0" "\<not> bit p 1"
  shows "\<not> v_isEmpty p" "\<not> v_isUndefined p" "\<not> v_isNull p" "\<not> v_isBoolean p" "v_isPointerValue p"
proof -
  have b: "bit (14 :: u64) 1" "bit (10 :: u64) 1" by simp_all
  have "p \<noteq> 14" "p \<noteq> 10" using assms(3) b by auto
  then show "\<not> v_isEmpty p" "\<not> v_isUndefined p" "\<not> v_isNull p" using assms(1)
    by (simp_all add: v_isEmpty_def v_isUndefined_def v_isNull_def other_words)
  have "bit (p OR push_bit 2 1) 1 \<noteq> bit (6 :: u64) 1" using assms(3) by (simp add: bit_simps)
  then show "\<not> v_isBoolean p" by (auto simp: v_isBoolean_def other_words)
  show "v_isPointerValue p" using boxed_pointer [OF assms(2, 3)] by (simp add: v_isPointerValue_def)
qed

lemma other_is_itself:
  "boxed_kind 0 = (True, False, False, False, False, False, True)" "boxed_kind 14 = (False, True, False, False, False, False, False)"
  "boxed_kind 10 = (False, False, True, False, False, False, False)" "boxed_kind 6 = (False, False, False, True, False, False, False)"
  "boxed_kind 2 = (False, False, False, True, False, False, False)"
  by (simp_all add: boxed_kind_def v_isEmpty_def v_isUndefined_def v_isNull_def v_isBoolean_def v_isInt32_def v_isDouble_def
      v_isNumber_def v_isPointerValue_def other_words value_words)

text \<open>
  C10. Every boxed value passes the test of the kind it was made of and no other, and the readers
  give back what was boxed; the one exception is the empty value, whose word is the null pointer
  and which passes \<^verbatim>\<open>isPointerValue\<close> besides \<^verbatim>\<open>isEmpty\<close>.
\<close>

theorem box_has_one_kind:
  assumes "boxable x"
  shows "boxed_kind (box x) =
      (x = BEmpty, x = BUndefined, x = BNull, x \<in> range BBool, x \<in> range BInt, x \<in> range BDouble,
       x \<in> range BPointer \<or> x = BEmpty)
    \<and> (case x of BBool b \<Rightarrow> v_asBoolean (box x) = b | BInt i \<Rightarrow> v_asInt32 (box x) = i
        | BDouble d \<Rightarrow> v_asDouble (box x) = d | BPointer p \<Rightarrow> box x = p | _ \<Rightarrow> True)"
proof (cases x)
  case (BInt i)
  have "drop_bit 48 (value_of_int32 i) \<noteq> 0" by (simp add: boxed_int)
  from number_not_other [OF this] show ?thesis
    using BInt boxed_int [of i] by (auto simp: boxed_kind_def v_isInt32_def v_isDouble_def v_isNumber_def v_asInt32_def)
next
  case (BDouble d)
  then have d: "drop_bit 48 (value_of_double d) \<noteq> 0" "drop_bit 48 (value_of_double d) \<noteq> 0xFFFF"
    using assms boxed_double [of d] by simp_all
  from number_not_other [OF this(1)] show ?thesis
    using BDouble d by (auto simp: boxed_kind_def v_isInt32_def v_isDouble_def v_isNumber_def v_asDouble_def value_of_double_def)
next
  case (BPointer p)
  then show ?thesis using assms pointer_not_other [of p]
    by (auto simp: boxed_kind_def v_isInt32_def v_isDouble_def v_isNumber_def)
qed (auto simp: other_words other_is_itself v_asBoolean_def)

theorem box_has_one_kind_witness:
  "boxed_kind (box (BDouble 0x3FF8000000000000)) = (False, False, False, False, False, True, False)"
proof -
  have "boxable (BDouble 0x3FF8000000000000)" by (simp add: value_words)
  from box_has_one_kind [OF this] show ?thesis by auto
qed

text \<open>
  C13. A value made from a double is a number and reads as that double, bit by bit, and it is stored as
  an integer exactly when it is one that fits. Only the NaNs whose first fifteen bits are set, which
  would collide with the tag of integers, are replaced by the quiet NaN; the other NaNs keep their
  bits. How the machine converts doubles that do not fit is of no consequence.
\<close>

theorem value_of_number_reads_back:
  "v_isNumber (value_of_number wild d) \<and>
   v_asNumber (value_of_number wild d) = (if d AND DoubleInvalidBeginning = DoubleInvalidBeginning then quiet_NaN else d) \<and>
   (v_isInt32 (value_of_number wild d) \<longleftrightarrow> (\<exists>i :: u32. d = double_of_int (sint i)))"
proof (cases "isInt32ConvertibleDouble wild d")
  case (Some i)
  then have d: "d = double_of_int (sint i)" using convertible_iff by blast
  have "d_exponent d \<noteq> 2047" using double_of_int_value(2) [of "sint i"] sint32_bounds [of i] by (simp add: d d_finite_def)
  then have "d AND DoubleInvalidBeginning \<noteq> DoubleInvalidBeginning" using invalid_is_nan by blast
  then show ?thesis using Some d boxed_int [of i]
    by (auto simp: value_of_number_def v_isNumber_def v_asNumber_def v_isInt32_def v_asInt32_def)
next
  case None
  then have n: "d \<noteq> double_of_int (sint i)" for i :: u32 using convertible_iff [of wild d i] by simp
  have q: "quiet_NaN AND DoubleInvalidBeginning \<noteq> DoubleInvalidBeginning" by (simp add: quiet_NaN_def value_words)
  show ?thesis using None n boxed_double [of d] boxed_double [OF q]
    by (auto simp: value_of_number_def v_isNumber_def v_asNumber_def v_isInt32_def v_asDouble_def value_of_double_def)
qed

section \<open>Integers as values\<close>

lemma round_half_even_le: "0 < b \<Longrightarrow> a < c * b \<Longrightarrow> round_half_even a b \<le> c"
proof -
  assume "0 < b" "a < c * b"
  then have "a div b < c" by (simp add: int_div_less)
  then show ?thesis by (auto simp: round_half_even_def Let_def)
qed

lemma double_of_int_finite: "\<bar>i\<bar> < 2 ^ 64 \<Longrightarrow> d_finite (double_of_int i)"
proof -
  assume i: "\<bar>i\<bar> < 2 ^ 64"
  define n k where "n = nat \<bar>i\<bar>" and "k = top_bit n"
  show ?thesis
  proof (cases "i = 0 \<or> k \<le> 52")
    case True
    then have "\<bar>i\<bar> < 2 ^ 53"
    proof
      assume k: "k \<le> 52"
      show ?thesis
      proof (cases "n = 0")
        case False
        then have "n < 2 ^ Suc k" using top_bit_bounds [of n] by (simp add: k_def)
        moreover have "(2::nat) ^ Suc k \<le> 2 ^ 53" using k by (intro power_increasing) simp_all
        ultimately have "n < 2 ^ 53" by (rule less_le_trans)
        then show ?thesis by (auto simp: n_def)
      qed (simp add: n_def)
    qed simp
    then show ?thesis by (rule double_of_int_value(2))
  next
    case False
    then have n: "0 < n" by (simp add: n_def)
    have "n < 2 ^ 64" using i by (auto simp: n_def)
    then have "(2::nat) ^ k < 2 ^ 64" using le_less_trans [OF conjunct1 [OF top_bit_bounds [OF n]]] by (simp only: k_def)
    then have k: "k < 64" using power_less_imp_less_exp [of "2 :: nat" k 64] by simp
    define q where "q = nat (round_half_even (int n) (2 ^ (k - 52)))"
    have "n < 2 ^ Suc k" using top_bit_bounds [OF n] by (simp add: k_def)
    moreover have "Suc k = 53 + (k - 52)" using False by simp
    ultimately have "n < 2 ^ 53 * 2 ^ (k - 52)" by (simp only: power_add)
    then have "int n < int (2 ^ 53 * 2 ^ (k - 52))" by (simp only: of_nat_less_iff)
    then have "int n < 2 ^ 53 * 2 ^ (k - 52)" by (simp only: of_nat_mult of_nat_power of_nat_numeral)
    then have "round_half_even (int n) (2 ^ (k - 52)) \<le> 2 ^ 53" by (intro round_half_even_le) simp_all
    then have q: "q \<le> 2 ^ 53" by (simp add: q_def)
    have d: "double_of_int i = (if q = 2 ^ 53 then pack_double (i < 0) (1024 + k) 0 else pack_double (i < 0) (1023 + k) (q - 2 ^ 52))"
      using False by (simp add: double_of_int_def n_def k_def q_def Let_def)
    have "d_exponent (double_of_int i) = (if q = 2 ^ 53 then 1024 + k else 1023 + k)"
      unfolding d using k q pack_double_fields(2) [of "1024 + k" 0 "i < 0"] pack_double_fields(2) [of "1023 + k" "q - 2 ^ 52" "i < 0"] by auto
    then show ?thesis using k by (simp add: d_finite_def)
  qed
qed

lemma boxed_finite:
  assumes "d_finite d"
  shows "v_asNumber (value_of_double d) = d" "v_isNumber (value_of_double d)"
proof -
  have "d AND DoubleInvalidBeginning \<noteq> DoubleInvalidBeginning" using assms invalid_is_nan [of d] by (auto simp: d_finite_def)
  from boxed_double [OF this] show "v_asNumber (value_of_double d) = d" "v_isNumber (value_of_double d)"
    by (simp_all add: v_asNumber_def v_isInt32_def v_isNumber_def v_asDouble_def value_of_double_def)
qed

lemma boxed_int_number: "v_asNumber (value_of_int32 i) = double_of_int (sint i)" "v_isNumber (value_of_int32 i)"
  using boxed_int [of i] by (simp_all add: v_asNumber_def v_isInt32_def v_isNumber_def v_asInt32_def)

lemma uint_of_positive: "0 \<le> sint (i :: u32) \<Longrightarrow> uint i = sint i"
proof -
  assume i: "0 \<le> sint i"
  have "uint i = sint i mod 2 ^ 32" using uint_word_of_int [of "sint i", where 'a = 32] by simp
  also have "\<dots> = sint i" using i sint32_bounds(2) [of i] by simp
  finally show ?thesis .
qed

text \<open>A value made from an integer of any type is the number that C++ converts it to, as a double.\<close>

theorem integers_read_back:
  "v_asNumber (value_of_unsigned u) = double_of_int (uint u) \<and> v_asNumber (value_of_long l) = double_of_int (sint l) \<and>
   v_asNumber (value_of_unsigned_long l) = double_of_int (uint l)"
proof (intro conjI)
  have fin: "d_finite (double_of_int (uint w))" "d_finite (double_of_int (sint w))" for w :: u64
    using unsigned_less [where 'a = int, of w] sint_ge [of w] sint_lt [of w] by (auto intro!: double_of_int_finite)
  have "d_finite (double_of_int (uint w))" for w :: u32
    using unsigned_less [where 'a = int, of w] by (auto intro!: double_of_int_finite)
  then show u: "v_asNumber (value_of_unsigned u) = double_of_int (uint u)" for u
    by (auto simp: value_of_unsigned_def boxed_finite boxed_int_number uint_of_positive)
  show "v_asNumber (value_of_long l) = double_of_int (sint l)"
    by (auto simp: value_of_long_def Let_def boxed_finite fin boxed_int_number)
  show "v_asNumber (value_of_unsigned_long l) = double_of_int (uint l)"
    using u by (auto simp: value_of_unsigned_long_def Let_def boxed_finite fin)
qed

text \<open>
  The fast path of the equalities: two integers are the same number exactly when their words are
  equal.
\<close>

theorem integer_words_compare:
  "value_of_int32 i = value_of_int32 j \<longleftrightarrow> double_eq (v_asNumber (value_of_int32 i)) (v_asNumber (value_of_int32 j))"
proof -
  have v: "double_value (double_of_int (sint w)) = of_int (sint w)" "\<not> is_nan (double_of_int (sint w))" for w :: u32
  proof -
    have b: "\<bar>sint w\<bar> < 2 ^ 53" using sint32_bounds [of w] by auto
    show "double_value (double_of_int (sint w)) = of_int (sint w)" by (rule double_of_int_value(1) [OF b])
    show "\<not> is_nan (double_of_int (sint w))" using double_of_int_value(2) [OF b] nan_exponent by (auto simp: d_finite_def)
  qed
  have "value_of_int32 i = value_of_int32 j \<longleftrightarrow> i = j" using boxed_int(2) by metis
  also have "\<dots> \<longleftrightarrow> double_eq (double_of_int (sint i)) (double_of_int (sint j))"
  proof
    assume "double_eq (double_of_int (sint i)) (double_of_int (sint j))"
    then have "double_value (double_of_int (sint i)) = double_value (double_of_int (sint j))"
      using zero_value by (auto simp: double_eq_def)
    then have "sint i = sint j" by (simp only: v(1) of_int_eq_iff)
    moreover have "i = of_int (sint i)" "j = of_int (sint j)" by simp_all
    ultimately show "i = j" by (simp only:)
  qed (simp add: double_eq_def v(2))
  finally show ?thesis by (simp add: boxed_int_number)
qed

end
