(* ===== verification/Encoded_Value.thy ===== *)
theory Encoded_Value
  imports Boxed_Value
begin

text \<open>
  Values on the heap (\<^verbatim>\<open>runtime/EncodedValue.h\<close>): a word that is a pointer, an odd small integer or a
  small constant; other numbers live in cells of their own. Assigning a number to a word that
  refers to such a cell overwrites the cell. The memory has, for each address, the byte that tells
  the kind of what is stored there, and the number of a cell; the address of a new cell is a
  parameter.
\<close>

section \<open>The code\<close>

record memory =
  type_tag :: "u64 \<Rightarrow> u8"
  number_cell :: "u64 \<Rightarrow> u64"

definition POINTER_VALUE_NUMBER_TAG_IN_DATA :: u8 where
  "POINTER_VALUE_NUMBER_TAG_IN_DATA = push_bit 1 1 OR push_bit 2 1"

definition new_NumberInEncodedValue :: "memory \<Rightarrow> u64 \<Rightarrow> u64 \<Rightarrow> memory" where
  "new_NumberInEncodedValue mem a v =
     mem\<lparr>type_tag := (type_tag mem)(a := POINTER_VALUE_NUMBER_TAG_IN_DATA), number_cell := (number_cell mem)(a := v)\<rparr>"

definition number_setValue :: "memory \<Rightarrow> u64 \<Rightarrow> u64 \<Rightarrow> memory" where
  "number_setValue mem a v = mem\<lparr>number_cell := (number_cell mem)(a := v)\<rparr>"

definition readPointerIsNumberEncodedValue :: "memory \<Rightarrow> u64 \<Rightarrow> bool" where
  "readPointerIsNumberEncodedValue mem p \<longleftrightarrow> type_tag mem p = POINTER_VALUE_NUMBER_TAG_IN_DATA"

definition IntToSmi :: "u32 \<Rightarrow> u64" where
  "IntToSmi i = scast (ucast (push_bit 1 (scast i :: u64) OR 1) :: u32)"

definition SmiToInt :: "u64 \<Rightarrow> u32" where
  "SmiToInt w = ucast (signed_drop_bit 1 w)"

definition IsValidSmi :: "u64 \<Rightarrow> bool" where
  "IsValidSmi w \<longleftrightarrow> w + 0x40000000 < 0x80000000"

definition HAS_SMI_TAG :: "u64 \<Rightarrow> bool" where
  "HAS_SMI_TAG w \<longleftrightarrow> w AND 1 = 1"

definition ValueLast :: u64 where "ValueLast = ValueUndefined"

definition fromValueForCtor :: "(u64 \<Rightarrow> u32) \<Rightarrow> memory \<Rightarrow> u64 \<Rightarrow> u64 \<Rightarrow> memory \<times> u64" where
  "fromValueForCtor wild mem a v =
     (if v_isPointerValue v then (mem, v)
      else if v_isInt32 v \<and> IsValidSmi (scast (v_asInt32 v)) then (mem, IntToSmi (v_asInt32 v))
      else if v_isNumber v then
        (case isInt32ConvertibleDouble wild (v_asNumber v) of
           Some i \<Rightarrow> if IsValidSmi (scast i) then (mem, IntToSmi i) else (new_NumberInEncodedValue mem a v, a)
         | None \<Rightarrow> (new_NumberInEncodedValue mem a v, a))
      else (mem, v))"

definition encoded_of_uint32 :: "(u64 \<Rightarrow> u32) \<Rightarrow> memory \<Rightarrow> u64 \<Rightarrow> u32 \<Rightarrow> memory \<times> u64" where
  "encoded_of_uint32 wild mem a i =
     (if IsValidSmi (ucast i) then (mem, IntToSmi i) else fromValueForCtor wild mem a (value_of_unsigned i))"

definition toValue :: "bool \<Rightarrow> memory \<Rightarrow> u64 \<Rightarrow> u64" where
  "toValue shouldTreatEmptyAsUndefined mem payload =
     (if HAS_SMI_TAG payload then value_of_int32 (SmiToInt payload)
      else if payload \<le> ValueLast then
        if shouldTreatEmptyAsUndefined \<and> payload = ValueEmpty then ValueUndefined else payload
      else if readPointerIsNumberEncodedValue mem payload then number_cell mem payload
      else payload)"

text \<open>Assignment, which reuses the cell of a number.\<close>

definition assign :: "(u64 \<Rightarrow> u32) \<Rightarrow> memory \<Rightarrow> u64 \<Rightarrow> u64 \<Rightarrow> u64 \<Rightarrow> memory \<times> u64" where
  "assign wild mem a payload v =
     (if v_isPointerValue v then (mem, v)
      else if v_isInt32 v \<and> IsValidSmi (scast (v_asInt32 v)) then (mem, IntToSmi (v_asInt32 v))
      else if v_isNumber v then
        let mutableFrom = (case isInt32ConvertibleDouble wild (v_asNumber v) of Some i \<Rightarrow> value_of_int32 i | None \<Rightarrow> v) in
        if \<not> HAS_SMI_TAG payload \<and> payload > ValueLast \<and> readPointerIsNumberEncodedValue mem payload
        then (number_setValue mem payload mutableFrom, payload)
        else (new_NumberInEncodedValue mem a mutableFrom, a)
      else (mem, v))"

definition isStoredInHeap :: "u64 \<Rightarrow> bool" where
  "isStoredInHeap payload \<longleftrightarrow> \<not> HAS_SMI_TAG payload \<and> payload > ValueLast"

section \<open>Small integers\<close>

lemma smi_range: "IsValidSmi (scast i) \<longleftrightarrow> - (2 ^ 30) \<le> sint i \<and> sint i < 2 ^ 30" for i :: u32
proof -
  have "scast i + 0x40000000 = (word_of_int (sint i + 2 ^ 30) :: u64)" by simp
  then have "uint (scast i + 0x40000000 :: u64) = (sint i + 2 ^ 30) mod 2 ^ 64"
    using uint_word_of_int [of "sint i + 2 ^ 30", where 'a = 64] by simp
  moreover have "(sint i + 2 ^ 30) mod 2 ^ 64 = (if sint i + 2 ^ 30 < 0 then sint i + 2 ^ 30 + 2 ^ 64 else sint i + 2 ^ 30)"
    using sint32_bounds [of i] zmod_trivial_iff [of "sint i + 2 ^ 30 + 2 ^ 64" "2 ^ 64"] mod_add_self2 [of "sint i + 2 ^ 30" "2 ^ 64"] by auto
  moreover have "(scast i + 0x40000000 :: u64) < 0x80000000 \<longleftrightarrow> uint (scast i + 0x40000000 :: u64) < 0x80000000"
    by (simp add: word_less_def)
  ultimately show ?thesis using sint32_bounds [of i] by (auto simp: IsValidSmi_def split: if_splits)
qed

lemma smi_tag_bit: "HAS_SMI_TAG p \<longleftrightarrow> bit p 0"
  by (simp add: HAS_SMI_TAG_def and_one_eq mod_2_eq_odd bit_0)

lemma smi_roundtrip:
  assumes "IsValidSmi (scast i)"
  shows "SmiToInt (IntToSmi i) = i" "HAS_SMI_TAG (IntToSmi i)"
proof -
  have b: "- (2 ^ 30) \<le> sint i" "sint i < 2 ^ 30" using assms by (simp_all add: smi_range)
  have "push_bit 1 (scast i :: u64) AND 1 = 0" by (simp add: and_one_eq mod_2_eq_odd)
  then have "push_bit 1 (scast i :: u64) OR 1 = push_bit 1 (scast i) + 1" by (simp only: disjunctive_add_eq_or)
  also have "\<dots> = word_of_int (2 * sint i + 1)" by (simp add: push_bit_eq_mult)
  finally have "(ucast (push_bit 1 (scast i :: u64) OR 1) :: u32) = ucast (word_of_int (2 * sint i + 1) :: u64)" by (rule arg_cong)
  also have "\<dots> = word_of_int (2 * sint i + 1)" by (rule ucast_down_wi) (simp add: is_down)
  finally have "IntToSmi i = scast (word_of_int (2 * sint i + 1) :: u32)" by (simp only: IntToSmi_def)
  moreover have "sint (word_of_int (2 * sint i + 1) :: u32) = 2 * sint i + 1"
    using b by (simp only: sint_sbintrunc') (simp add: signed_take_bit_int_eq_self)
  ultimately have p: "IntToSmi i = word_of_int (2 * sint i + 1)" by (simp only: scast_eq)
  have "sint (IntToSmi i) = 2 * sint i + 1"
    unfolding p using b by (simp only: sint_sbintrunc') (simp add: signed_take_bit_int_eq_self)
  then have "sint (signed_drop_bit 1 (IntToSmi i)) = sint i" by (simp add: sint_signed_drop_bit_eq drop_bit_eq_div)
  moreover have "SmiToInt (IntToSmi i) = of_int (sint (signed_drop_bit 1 (IntToSmi i)))"
  proof -
    have "SmiToInt (IntToSmi i) = scast (signed_drop_bit 1 (IntToSmi i))"
      unfolding SmiToInt_def by (rule fun_cong [OF down_cast_same]) (simp add: is_down)
    then show ?thesis by (simp only: scast_eq)
  qed
  ultimately show "SmiToInt (IntToSmi i) = i" by simp
  have "bit (IntToSmi i) 0" unfolding IntToSmi_def by (simp add: bit_simps)
  then show "HAS_SMI_TAG (IntToSmi i)" by (simp only: smi_tag_bit)
qed

section \<open>Slots\<close>

text \<open>
  What may be stored: a value made by a constructor, whose pointer does not point to a cell of a
  number, and the address of a new cell, which is aligned and is no pointer in use.
\<close>

definition cell_address :: "u64 \<Rightarrow> bool" where
  "cell_address a \<longleftrightarrow> \<not> bit a 0 \<and> a > ValueLast"

definition is_number_cell :: "memory \<Rightarrow> u64 \<Rightarrow> bool" where
  "is_number_cell mem p \<longleftrightarrow> \<not> HAS_SMI_TAG p \<and> p > ValueLast \<and> readPointerIsNumberEncodedValue mem p"

definition storable :: "memory \<Rightarrow> boxed \<Rightarrow> bool" where
  "storable mem x \<longleftrightarrow> boxable x \<and>
     (\<forall>p. x = BPointer p \<longrightarrow> cell_address p \<and> \<not> readPointerIsNumberEncodedValue mem p)"

text \<open>A value read back is the value stored, or the integer that is the same number.\<close>

definition same_number :: "u64 \<Rightarrow> u64 \<Rightarrow> bool" where
  "same_number v w \<longleftrightarrow> v = w \<or> v_isNumber v \<and> v_isNumber w \<and> v_asNumber v = v_asNumber w"

lemma cell_not_smi: "cell_address a \<Longrightarrow> \<not> HAS_SMI_TAG a \<and> a > ValueLast"
  by (simp add: cell_address_def smi_tag_bit)

lemma toValue_smi: "IsValidSmi (scast i) \<Longrightarrow> toValue b mem (IntToSmi i) = value_of_int32 i"
  by (simp add: toValue_def smi_roundtrip)

lemma toValue_cell: "is_number_cell mem p \<Longrightarrow> toValue b mem p = number_cell mem p"
  by (auto simp: toValue_def is_number_cell_def)

text \<open>Values that are neither numbers nor pointers.\<close>

lemma toValue_other:
  assumes "v \<in> {ValueUndefined, ValueNull, ValueTrue, ValueFalse}"
  shows "toValue b mem v = v" "\<not> v_isPointerValue v" "\<not> v_isNumber v" "\<not> v_isInt32 v"
  using assms by (auto simp: toValue_def smi_tag_bit other_words ValueLast_def v_isPointerValue_def v_isNumber_def v_isInt32_def value_words)

lemma box_cases:
  assumes "storable mem x"
  obtains "box x \<in> {ValueUndefined, ValueNull, ValueTrue, ValueFalse}"
    | "v_isPointerValue (box x)" "toValue False mem (box x) = box x" "\<not> is_number_cell mem (box x)"
    | i where "box x = value_of_int32 i" "\<not> v_isPointerValue (box x)"
    | d where "box x = value_of_double d" "v_isDouble (box x)" "v_asNumber (box x) = d" "\<not> v_isPointerValue (box x)"
proof (cases x)
  case BEmpty
  then show ?thesis using that(2)
    by (simp add: toValue_def smi_tag_bit other_words ValueLast_def v_isPointerValue_def is_number_cell_def)
next
  case (BBool b)
  then show ?thesis using that(1) by (auto simp: other_words)
next
  case (BInt i)
  have "drop_bit 48 (value_of_int32 i) \<noteq> 0" by (simp add: boxed_int)
  from number_not_other(5) [OF this] show ?thesis using BInt that(3) by simp
next
  case (BDouble d)
  then have d: "drop_bit 48 (value_of_double d) \<noteq> 0" "drop_bit 48 (value_of_double d) \<noteq> 0xFFFF"
    using assms boxed_double [of d] by (simp_all add: storable_def)
  then have "v_isDouble (value_of_double d)" "v_asNumber (value_of_double d) = d"
    by (simp_all add: v_isDouble_def v_isNumber_def v_isInt32_def v_asNumber_def v_asDouble_def value_of_double_def)
  then show ?thesis using BDouble that(4) number_not_other(5) [OF d(1)] by simp
next
  case (BPointer p)
  then have p: "p \<noteq> 0" "drop_bit 48 p = 0" "\<not> bit p 1" "cell_address p" "\<not> readPointerIsNumberEncodedValue mem p"
    using assms by (simp_all add: storable_def)
  then show ?thesis using that(2) BPointer pointer_not_other(5) [OF p(1-3)] cell_not_smi [OF p(4)]
    by (simp add: toValue_def is_number_cell_def)
qed (use that(1) in simp_all)

lemma new_cell:
  "cell_address a \<Longrightarrow> toValue b (new_NumberInEncodedValue mem a v) a = v"
  "q \<noteq> a \<Longrightarrow> toValue b (new_NumberInEncodedValue mem a v) q = toValue b mem q"
  "is_number_cell (new_NumberInEncodedValue mem a v) q \<longleftrightarrow> (if q = a then \<not> HAS_SMI_TAG a \<and> a > ValueLast else is_number_cell mem q)"
  by (auto simp: toValue_def new_NumberInEncodedValue_def readPointerIsNumberEncodedValue_def is_number_cell_def cell_not_smi
      dest: cell_not_smi)

lemma set_cell:
  "is_number_cell mem p \<Longrightarrow> toValue b (number_setValue mem p v) p = v"
  "q \<noteq> p \<Longrightarrow> toValue b (number_setValue mem p v) q = toValue b mem q"
  "is_number_cell (number_setValue mem p v) q \<longleftrightarrow> is_number_cell mem q"
  by (auto simp: toValue_def number_setValue_def readPointerIsNumberEncodedValue_def is_number_cell_def)

text \<open>The integer that a number is turned into is the same number.\<close>

lemma convertible_same:
  assumes "v_isNumber v" "isInt32ConvertibleDouble wild (v_asNumber v) = Some i"
  shows "same_number (value_of_int32 i) v"
  using assms by (simp add: same_number_def convertible_iff boxed_int_number)

text \<open>
  A value stored on the heap reads back as itself, or as the integer that is the same number; its
  own cell apart, no stored value changes.
\<close>

theorem encoded_reads_back:
  assumes "storable mem x" "cell_address a" "fromValueForCtor wild mem a (box x) = (mem', p)"
  shows "same_number (toValue False mem' p) (box x) \<and> (\<forall>q b. q \<noteq> a \<longrightarrow> toValue b mem' q = toValue b mem q)"
proof -
  have int: "v_isInt32 (value_of_int32 i)" "v_asInt32 (value_of_int32 i) = i" for i
    using boxed_int [of i] by (simp_all add: v_isInt32_def v_asInt32_def)
  from assms(1) show ?thesis
  proof (cases rule: box_cases)
    case 1
    then have "fromValueForCtor wild mem a (box x) = (mem, box x)" "toValue False mem (box x) = box x"
      using toValue_other(1) [OF 1, of False mem] toValue_other(2-4) [OF 1] by (simp_all add: fromValueForCtor_def)
    then show ?thesis using assms(3) by (simp add: same_number_def)
  next
    case 2
    then show ?thesis using assms(3) by (simp add: fromValueForCtor_def same_number_def)
  next
    case (3 i)
    have conv: "isInt32ConvertibleDouble wild (v_asNumber (value_of_int32 i)) = Some i" by (simp add: convertible_iff boxed_int_number)
    show ?thesis
    proof (cases "IsValidSmi (scast i)")
      case True
      then have "mem' = mem" "p = IntToSmi i" using assms(3) 3 int [of i] by (simp_all add: fromValueForCtor_def)
      then show ?thesis using True 3 by (simp add: toValue_smi same_number_def)
    next
      case False
      then have "mem' = new_NumberInEncodedValue mem a (box x)" "p = a"
        using assms(3) 3 int [of i] conv boxed_int_number(2) [of i] by (auto simp: fromValueForCtor_def)
      then show ?thesis using new_cell(1) [OF assms(2)] new_cell(2) by (simp add: same_number_def)
    qed
  next
    case (4 d)
    have n: "v_isNumber (box x)" "\<not> v_isInt32 (box x)" using 4 by (simp_all add: v_isDouble_def)
    show ?thesis
    proof (cases "\<exists>i. isInt32ConvertibleDouble wild d = Some i \<and> IsValidSmi (scast i)")
      case True
      then obtain i where i: "isInt32ConvertibleDouble wild d = Some i" "IsValidSmi (scast i)" by blast
      then have "mem' = mem" "p = IntToSmi i" using assms(3) 4 n by (simp_all add: fromValueForCtor_def)
      then show ?thesis using i convertible_same [OF n(1)] 4(3) by (simp add: toValue_smi)
    next
      case False
      then have "mem' = new_NumberInEncodedValue mem a (box x)" "p = a"
        using assms(3) 4 n by (auto simp: fromValueForCtor_def split: option.splits)
      then show ?thesis using new_cell(1) [OF assms(2)] new_cell(2) by (simp add: same_number_def)
    qed
  qed
qed

section \<open>Slots that hold encoded values\<close>

type_synonym slots = "memory \<times> (nat \<Rightarrow> u64)"

definition read_slot :: "nat \<Rightarrow> slots \<Rightarrow> u64" where
  "read_slot i st = toValue False (fst st) (snd st i)"

definition write_slot :: "(u64 \<Rightarrow> u32) \<Rightarrow> u64 \<Rightarrow> nat \<Rightarrow> u64 \<Rightarrow> slots \<Rightarrow> slots" where
  "write_slot wild a i v st = (case assign wild (fst st) a (snd st i) v of (mem', p) \<Rightarrow> (mem', (snd st)(i := p)))"

text \<open>No two slots have the cell of a number in common.\<close>

definition unshared :: "slots \<Rightarrow> bool" where
  "unshared st \<longleftrightarrow> (\<forall>i j. i \<noteq> j \<longrightarrow> is_number_cell (fst st) (snd st i) \<longrightarrow> snd st i \<noteq> snd st j)"

lemma assign_cases:
  assumes "storable mem x" "cell_address a" "assign wild mem a p (box x) = (mem', p')"
  obtains "mem' = mem" "\<not> is_number_cell mem p'" "same_number (toValue False mem p') (box x)"
    | v where "is_number_cell mem p" "mem' = number_setValue mem p v" "p' = p" "same_number v (box x)"
    | v where "mem' = new_NumberInEncodedValue mem a v" "p' = a" "same_number v (box x)"
proof -
  have int: "v_isInt32 (value_of_int32 i)" "v_asInt32 (value_of_int32 i) = i" for i
    using boxed_int [of i] by (simp_all add: v_isInt32_def v_asInt32_def)
  let ?v = "case isInt32ConvertibleDouble wild (v_asNumber (box x)) of Some i \<Rightarrow> value_of_int32 i | None \<Rightarrow> box x"
  have number: thesis if "v_isNumber (box x)" "\<not> v_isPointerValue (box x)" "\<not> (v_isInt32 (box x) \<and> IsValidSmi (scast (v_asInt32 (box x))))"
  proof -
    have "same_number ?v (box x)" using convertible_same [OF that(1)] by (auto simp: same_number_def split: option.split)
    moreover have "assign wild mem a p (box x) =
        (if is_number_cell mem p then (number_setValue mem p ?v, p) else (new_NumberInEncodedValue mem a ?v, a))"
      unfolding assign_def is_number_cell_def Let_def using that by (simp only: if_True if_False simp_thms)
    ultimately show thesis using that assms(3) \<open>\<And>v. is_number_cell mem p \<Longrightarrow> mem' = number_setValue mem p v \<Longrightarrow> p' = p \<Longrightarrow> same_number v (box x) \<Longrightarrow> thesis\<close>
        \<open>\<And>v. mem' = new_NumberInEncodedValue mem a v \<Longrightarrow> p' = a \<Longrightarrow> same_number v (box x) \<Longrightarrow> thesis\<close>
      by (cases "is_number_cell mem p") auto
  qed
  from assms(1) show thesis
  proof (cases rule: box_cases)
    case 1
    then have "p' = box x" "mem' = mem" using assms(3) toValue_other(1) [OF 1, of False mem] toValue_other(2-4) [OF 1] by (simp_all add: assign_def)
    moreover have "\<not> is_number_cell mem (box x)" using 1 by (auto simp: is_number_cell_def other_words ValueLast_def)
    ultimately show thesis using that(1) toValue_other(1) [OF 1, of False mem] by (simp add: same_number_def)
  next
    case 2
    then show thesis using that(1) assms(3) by (simp add: assign_def same_number_def)
  next
    case (3 i)
    show thesis
    proof (cases "IsValidSmi (scast i)")
      case True
      then have "p' = IntToSmi i" "mem' = mem" using assms(3) 3 int [of i] by (simp_all add: assign_def)
      then show thesis using that(1) True 3 by (simp add: toValue_smi same_number_def is_number_cell_def smi_roundtrip)
    next
      case False
      then show thesis using number 3 int [of i] boxed_int_number(2) [of i] by simp
    qed
  next
    case (4 d)
    then show thesis using number by (simp add: v_isDouble_def)
  qed
qed

text \<open>
  C12. Slots behave as variables: an assignment to one changes what it reads to the value assigned, as
  a number, and leaves all others as they were, although cells of numbers are overwritten in
  place; no cell comes to be shared.
\<close>

theorem slots_are_private:
  assumes "unshared st" "storable (fst st) x" "cell_address a" "\<And>j. snd st j \<noteq> a"
  shows "unshared (write_slot wild a i (box x) st) \<and> same_number (read_slot i (write_slot wild a i (box x) st)) (box x)
    \<and> (\<forall>j. j \<noteq> i \<longrightarrow> read_slot j (write_slot wild a i (box x) st) = read_slot j st)"
proof -
  obtain mem sl where st: "st = (mem, sl)" by fastforce
  obtain mem' p where r: "assign wild mem a (sl i) (box x) = (mem', p)" by fastforce
  have w: "write_slot wild a i (box x) st = (mem', sl(i := p))" "read_slot j st = toValue False mem (sl j)" for j
    by (simp_all add: write_slot_def read_slot_def st r)
  note share = assms(1) [unfolded unshared_def st fst_conv snd_conv]
  have x: "storable mem x" "\<And>j. sl j \<noteq> a" using assms(2, 4) by (simp_all add: st)
  from x(1) assms(3) r show ?thesis
  proof (cases rule: assign_cases)
    case 1
    then show ?thesis using share by (auto simp: w unshared_def read_slot_def [of _ "(_, _)"])
  next
    case (2 v)
    then have "sl j \<noteq> p" if "j \<noteq> i" for j using share that by metis
    then show ?thesis using 2 share set_cell(1) [of mem p] set_cell(2) by (auto simp: w unshared_def read_slot_def [of _ "(_, _)"] set_cell(3))
  next
    case (3 v)
    then show ?thesis using share x(2) new_cell(1) [OF assms(3)] new_cell(2)
      by (auto simp: w unshared_def read_slot_def [of _ "(_, _)"] new_cell(3))
  qed
qed

theorem encoded_reads_back_witness:
  "\<exists>mem' p. fromValueForCtor (\<lambda>_. 0) \<lparr>type_tag = \<lambda>_. 0, number_cell = \<lambda>_. 0\<rparr> 4096 (box (BDouble 0x3FF8000000000000)) = (mem', p)
     \<and> same_number (toValue False mem' p) (box (BDouble 0x3FF8000000000000))"
proof -
  let ?mem = "\<lparr>type_tag = \<lambda>_. 0, number_cell = \<lambda>_. 0\<rparr>"
  have s: "storable ?mem (BDouble 0x3FF8000000000000)" "cell_address 4096"
    by (simp_all add: storable_def value_words cell_address_def ValueLast_def other_words)
  obtain mem' p where r: "fromValueForCtor (\<lambda>_. 0) ?mem 4096 (box (BDouble 0x3FF8000000000000)) = (mem', p)" by fastforce
  from encoded_reads_back [OF s r] r show ?thesis by blast
qed

theorem slots_are_private_witness:
  "let st = (\<lparr>type_tag = \<lambda>_. 0, number_cell = \<lambda>_. 0\<rparr>, \<lambda>_. ValueUndefined);
       st1 = write_slot (\<lambda>_. 0) 4096 3 (box (BDouble 0x3FF8000000000000)) st;
       st2 = write_slot (\<lambda>_. 0) 8192 4 (box (BDouble 0x4004000000000000)) st1
   in same_number (read_slot 4 st2) (box (BDouble 0x4004000000000000)) \<and>
      same_number (read_slot 3 st2) (box (BDouble 0x3FF8000000000000))"
proof -
  define st where "st = ((\<lparr>type_tag = \<lambda>_. 0, number_cell = \<lambda>_. 0\<rparr>, \<lambda>_. ValueUndefined) :: slots)"
  define st1 where "st1 = write_slot (\<lambda>_. 0) 4096 3 (box (BDouble 0x3FF8000000000000)) st"
  have ok: "unshared st" "\<And>j. snd st j \<noteq> 4096" "cell_address 4096" "cell_address 8192"
    by (simp_all add: st_def unshared_def is_number_cell_def cell_address_def ValueLast_def other_words)
  have d: "storable mem (BDouble 0x3FF8000000000000)" "storable mem (BDouble 0x4004000000000000)" for mem
    by (simp_all add: storable_def value_words)
  note one = slots_are_private [OF ok(1) d(1) ok(3) ok(2), of "\<lambda>_. 0" 3, folded st1_def]
  have "v_isNumber (box (BDouble 0x3FF8000000000000))" "\<not> v_isPointerValue (box (BDouble 0x3FF8000000000000))"
    "\<not> v_isInt32 (box (BDouble 0x3FF8000000000000))" by code_simp+
  moreover have "\<not> ValueUndefined > ValueLast" by (simp add: ValueLast_def)
  ultimately have "snd (assign (\<lambda>_. 0) (fst st) 4096 ValueUndefined (box (BDouble 0x3FF8000000000000))) = 4096"
    unfolding assign_def Let_def by (simp only: if_True if_False simp_thms snd_conv)
  then have "snd st1 j \<noteq> 8192" for j
    by (cases "j = 3") (simp_all add: st1_def write_slot_def split_beta st_def other_words)
  from slots_are_private [OF _ d(2) ok(4) this, of "\<lambda>_. 0" 4] one show ?thesis
    unfolding Let_def st_def [symmetric] st1_def [symmetric] by simp
qed

text \<open>
  A comment says that no double that is an integer exists among the encoded values, but the
  constructor keeps those outside the range of small integers: \<open>2 ^ 30\<close> as a double is stored and
  read as a double.
\<close>

theorem constructor_keeps_convertible_double:
  "toValue False (fst (fromValueForCtor wild mem 4096 (value_of_double (double_of_int (2 ^ 30)))))
     (snd (fromValueForCtor wild mem 4096 (value_of_double (double_of_int (2 ^ 30))))) = value_of_double (double_of_int (2 ^ 30))
   \<and> v_isDouble (value_of_double (double_of_int (2 ^ 30)))
   \<and> isInt32ConvertibleDouble wild (double_of_int (2 ^ 30)) = Some (2 ^ 30)"
proof -
  let ?d = "double_of_int (2 ^ 30)"
  have fin: "d_finite ?d" by (rule double_of_int_finite) simp
  have "?d AND DoubleInvalidBeginning \<noteq> DoubleInvalidBeginning" using fin invalid_is_nan [of ?d] by (auto simp: d_finite_def)
  note dbl = boxed_double [OF this]
  have v: "\<not> v_isPointerValue (value_of_double ?d)" "\<not> v_isInt32 (value_of_double ?d)" "v_isNumber (value_of_double ?d)"
    using dbl number_not_other(5) [OF dbl(1)] by (simp_all add: v_isInt32_def v_isNumber_def)
  have c: "isInt32ConvertibleDouble wild ?d = Some (2 ^ 30)" unfolding convertible_iff by simp
  have "\<not> IsValidSmi (scast (2 ^ 30 :: u32))" unfolding smi_range by simp
  then have "fromValueForCtor wild mem 4096 (value_of_double ?d) = (new_NumberInEncodedValue mem 4096 (value_of_double ?d), 4096)"
    using v c boxed_finite(1) [OF fin] by (simp add: fromValueForCtor_def)
  moreover have "cell_address 4096" by (simp add: cell_address_def ValueLast_def other_words)
  ultimately show ?thesis using v c new_cell(1) by (simp add: v_isDouble_def)
qed

end
