(* ===== verification/Merge_Sort.thy ===== *)
theory Merge_Sort
  imports Js_String Js_Value "HOL-Library.Sorting_Algorithms" "HOL-Library.List_Lexorder"
begin

text \<open>
  The merge sort of \<^verbatim>\<open>util/Util.h\<close> that \<^verbatim>\<open>Array.prototype.sort\<close> runs on, and the comparison that
  \<^verbatim>\<open>builtins/BuiltinArray.cpp\<close> gives it. The comparator may run code of the script: it takes and
  returns a state and may stop the sort (an exception, or the result false). Indices are
  unbounded: an array of values in memory has fewer than \<open>2 ^ 61\<close> elements, and no index exceeds
  four times that number. An access outside a buffer is the error \<open>OutOfBounds\<close>.
\<close>

datatype sort_error = OutOfBounds | Stopped

type_synonym ('a, 's) comp_fun = "'a \<Rightarrow> 'a \<Rightarrow> 's \<Rightarrow> bool option \<times> 's"
type_synonym ('a, 's) sort_result = "(sort_error \<times> 's) + ('a \<times> 's)"

section \<open>The code\<close>

text \<open>The assignment \<^verbatim>\<open>dst[j] = src[i]\<close>.\<close>

definition move :: "'a list \<Rightarrow> nat \<Rightarrow> 'a list \<Rightarrow> nat \<Rightarrow> 'a list option" where
  "move src i dst j = (if i < length src \<and> j < length dst then Some (dst[j := src ! i]) else None)"

function merge_loop ::
  "('a, 's) comp_fun \<Rightarrow> 'a list \<Rightarrow> nat \<Rightarrow> nat \<Rightarrow> nat \<Rightarrow> nat \<Rightarrow> nat \<Rightarrow> 'a list \<Rightarrow> 's \<Rightarrow> ('a list, 's) sort_result"
where
  "merge_loop c src leftEnd rightEnd left right dstIndex dst s =
     (if \<not> dstIndex < rightEnd then Inr (dst, s)
      else
        let from_right = (case move src right dst dstIndex of None \<Rightarrow> (\<lambda>s. Inl (OutOfBounds, s))
              | Some dst' \<Rightarrow> merge_loop c src leftEnd rightEnd left (Suc right) (Suc dstIndex) dst');
            from_left = (case move src left dst dstIndex of None \<Rightarrow> (\<lambda>s. Inl (OutOfBounds, s))
              | Some dst' \<Rightarrow> merge_loop c src leftEnd rightEnd (Suc left) right (Suc dstIndex) dst')
        in if right < rightEnd then
             if left \<ge> leftEnd then from_right s
             else if \<not> (right < length src \<and> left < length src) then Inl (OutOfBounds, s)
             else (case c (src ! right) (src ! left) s of
                 (None, s') \<Rightarrow> Inl (Stopped, s')
               | (Some lessOrEqual, s') \<Rightarrow> if lessOrEqual then from_right s' else from_left s')
           else from_left s)"
  by pat_completeness auto
termination
  by (relation "measure (\<lambda>(c, src, le, re, l, r, d, dst, s). re - d)") auto

declare merge_loop.simps [simp del]

definition merge :: "('a, 's) comp_fun \<Rightarrow> 'a list \<Rightarrow> 'a list \<Rightarrow> nat \<Rightarrow> nat \<Rightarrow> nat \<Rightarrow> 's \<Rightarrow> ('a list, 's) sort_result" where
  "merge c dst src srcIndex srcEnd width s =
     (let left = srcIndex;
          leftEnd = min (left + width) srcEnd;
          right = leftEnd;
          rightEnd = min (right + width) srcEnd
      in merge_loop c src leftEnd rightEnd left right left dst s)"

text \<open>The inner loop over the pairs of runs, and the outer loop that doubles their width.\<close>

function merge_pass :: "('a, 's) comp_fun \<Rightarrow> nat \<Rightarrow> nat \<Rightarrow> 'a list \<Rightarrow> nat \<Rightarrow> 'a list \<Rightarrow> 's \<Rightarrow> ('a list, 's) sort_result" where
  "merge_pass c nelems width src srcIndex dst s =
     (if srcIndex < nelems \<and> 0 < width then
        case merge c dst src srcIndex nelems width s of
          Inl e \<Rightarrow> Inl e
        | Inr (dst', s') \<Rightarrow> merge_pass c nelems width src (srcIndex + 2 * width) dst' s'
      else Inr (dst, s))"
  by pat_completeness auto
termination
  by (relation "measure (\<lambda>(c, n, w, src, i, dst, s). n - i)") auto

declare merge_pass.simps [simp del]

function sort_loop ::
  "('a, 's) comp_fun \<Rightarrow> nat \<Rightarrow> nat \<Rightarrow> bool \<Rightarrow> 'a list \<Rightarrow> 'a list \<Rightarrow> 's \<Rightarrow> (bool \<times> 'a list \<times> 'a list, 's) sort_result"
where
  "sort_loop c nelems width swapped src dst s =
     (if width < nelems \<and> 0 < width then
        case merge_pass c nelems width src 0 dst s of
          Inl e \<Rightarrow> Inl e
        | Inr (dst', s') \<Rightarrow> sort_loop c nelems (width * 2) (\<not> swapped) dst' src s'
      else Inr ((swapped, src, dst), s))"
  by pat_completeness auto
termination
  by (relation "measure (\<lambda>(c, n, w, f, src, dst, s). n - w)") auto

declare sort_loop.simps [simp del]

fun copy_from :: "nat \<Rightarrow> nat \<Rightarrow> 'a list \<Rightarrow> 'a list \<Rightarrow> 'a list option" where
  "copy_from i 0 src array = Some array"
| "copy_from i (Suc n) src array =
     (case move src i array i of None \<Rightarrow> None | Some array' \<Rightarrow> copy_from (Suc i) n src array')"

definition mergeSort :: "('a, 's) comp_fun \<Rightarrow> 'a list \<Rightarrow> nat \<Rightarrow> 'a list \<Rightarrow> 's \<Rightarrow> ('a list, 's) sort_result" where
  "mergeSort c array nelems scratch s =
     (case sort_loop c nelems 1 False array scratch s of
        Inl e \<Rightarrow> Inl e
      | Inr ((swapped, src, dst), s') \<Rightarrow>
          if \<not> swapped then Inr (src, s')
          else (case copy_from 0 nelems src dst of
              None \<Rightarrow> Inl (OutOfBounds, s')
            | Some array' \<Rightarrow> Inr (array', s')))"

section \<open>Runs as lists\<close>

fun merge_lists :: "('a, 's) comp_fun \<Rightarrow> 'a list \<Rightarrow> 'a list \<Rightarrow> 's \<Rightarrow> ('a list, 's) sort_result" where
  "merge_lists c xs [] s = Inr (xs, s)"
| "merge_lists c [] ys s = Inr (ys, s)"
| "merge_lists c (x # xs) (y # ys) s =
     (case c y x s of
        (None, s') \<Rightarrow> Inl (Stopped, s')
      | (Some b, s') \<Rightarrow>
          if b then map_sum id (map_prod (Cons y) id) (merge_lists c (x # xs) ys s')
          else map_sum id (map_prod (Cons x) id) (merge_lists c xs (y # ys) s'))"

lemma merge_lists_Nil [simp]: "merge_lists c [] ys s = Inr (ys, s)"
  by (cases ys) simp_all

function pass_lists :: "('a, 's) comp_fun \<Rightarrow> nat \<Rightarrow> 'a list \<Rightarrow> 's \<Rightarrow> ('a list, 's) sort_result" where
  "pass_lists c w xs s =
     (if xs = [] \<or> w = 0 then Inr (xs, s)
      else case merge_lists c (take w xs) (take w (drop w xs)) s of
        Inl e \<Rightarrow> Inl e
      | Inr (zs, s') \<Rightarrow> map_sum id (map_prod (append zs) id) (pass_lists c w (drop (2 * w) xs) s'))"
  by pat_completeness auto
termination
  by (relation "measure (\<lambda>(c, w, xs, s). length xs)") auto

declare pass_lists.simps [simp del]

lemma result_map_Inl [simp]: "map_sum id f r = Inl e \<longleftrightarrow> r = Inl e"
  by (cases r) simp_all

lemma result_map_Inr [simp]: "map_sum id f r = Inr z \<longleftrightarrow> (\<exists>y. r = Inr y \<and> z = f y)"
  by (cases r) auto

lemma result_map_fuse [simp]:
  "map_sum id (map_prod f id) (map_sum id (map_prod g id) r) = map_sum id (map_prod (\<lambda>z. f (g z)) id) r"
  by (cases r) auto

lemma result_map_id [simp]: "map_sum id (map_prod (\<lambda>z. z) id) r = r"
  by (cases r) auto

lemma merge_lists_error: "merge_lists c xs ys s = Inl (e, s') \<Longrightarrow> e = Stopped"
  by (induction c xs ys s rule: merge_lists.induct) (auto split: prod.splits option.splits if_splits)

lemma merge_lists_mset:
  "merge_lists c xs ys s = Inr (zs, s') \<Longrightarrow> mset zs = mset xs + mset ys"
  by (induction c xs ys s arbitrary: zs rule: merge_lists.induct)
     (auto split: prod.splits option.splits if_splits)

lemma merge_lists_length:
  "merge_lists c xs ys s = Inr (zs, s') \<Longrightarrow> length zs = length xs + length ys"
  by (drule merge_lists_mset) (metis mset_append size_mset length_append)

section \<open>The code works on runs\<close>

definition segment :: "nat \<Rightarrow> nat \<Rightarrow> 'a list \<Rightarrow> 'a list" where
  "segment i j xs = drop i (take j xs)"

lemma segment_Cons: "i < j \<Longrightarrow> j \<le> length xs \<Longrightarrow> segment i j xs = xs ! i # segment (Suc i) j xs"
  by (simp add: segment_def Cons_nth_drop_Suc [symmetric])

lemma segment_empty: "j \<le> i \<Longrightarrow> segment i j xs = []"
  by (simp add: segment_def)

lemma write_next: "k < length dst \<Longrightarrow> take (Suc k) (dst[k := x]) = take k dst @ [x]"
  by (simp add: take_Suc_conv_app_nth)

lemma merge_loop_lists:
  assumes "left \<le> leftEnd" "leftEnd \<le> right" "right \<le> rightEnd" "rightEnd \<le> length src"
    "rightEnd \<le> length dst" "k + (leftEnd - left) + (rightEnd - right) = rightEnd"
  shows "merge_loop c src leftEnd rightEnd left right k dst s =
    map_sum id (map_prod (\<lambda>zs. take k dst @ zs @ drop rightEnd dst) id)
      (merge_lists c (segment left leftEnd src) (segment right rightEnd src) s)"
  using assms
proof (induction "rightEnd - k" arbitrary: left right k dst s)
  case 0
  then have "left = leftEnd" "right = rightEnd" "k = rightEnd" by auto
  then show ?case by (simp add: merge_loop.simps segment_empty)
next
  case (Suc n)
  have k: "k < rightEnd" "k < length dst" using Suc by auto
  have IHr: "merge_loop c src leftEnd rightEnd left (Suc right) (Suc k) (dst[k := src ! right]) s' =
      map_sum id (map_prod (\<lambda>zs. take k dst @ src ! right # zs @ drop rightEnd dst) id)
        (merge_lists c (segment left leftEnd src) (segment (Suc right) rightEnd src) s')"
    if "right < rightEnd" for s'
    using Suc.hyps(1) [of "Suc k" left "Suc right" "dst[k := src ! right]" s'] Suc.hyps(2) Suc.prems that k
    by (simp add: write_next)
  have IHl: "merge_loop c src leftEnd rightEnd (Suc left) right (Suc k) (dst[k := src ! left]) s' =
      map_sum id (map_prod (\<lambda>zs. take k dst @ src ! left # zs @ drop rightEnd dst) id)
        (merge_lists c (segment (Suc left) leftEnd src) (segment right rightEnd src) s')"
    if "left < leftEnd" for s'
    using Suc.hyps(1) [of "Suc k" "Suc left" right "dst[k := src ! left]" s'] Suc.hyps(2) Suc.prems that k
    by (simp add: write_next)
  have mv: "i < rightEnd \<Longrightarrow> move src i dst k = Some (dst[k := src ! i])" for i
    using k Suc.prems(4) by (simp add: move_def)
  note segments = segment_Cons [of left leftEnd src] segment_Cons [of right rightEnd src]
  consider "\<not> right < rightEnd" "left < leftEnd" | "right < rightEnd" "\<not> left < leftEnd"
    | "right < rightEnd" "left < leftEnd" using Suc.prems k by linarith
  then show ?case
  proof cases
    case 1
    then have "left < rightEnd" using Suc.prems by simp
    then show ?thesis
      using 1 k Suc.prems IHl by (subst merge_loop.simps) (simp add: mv segment_empty segments)
  next
    case 2
    then show ?thesis
      using k Suc.prems IHr by (subst merge_loop.simps) (simp add: mv segment_empty segments)
  next
    case 3
    then have "left < rightEnd" "right < length src" "left < length src" using Suc.prems by simp_all
    then show ?thesis
      using 3 k Suc.prems
      by (subst merge_loop.simps) (auto simp: mv IHr IHl segments split: prod.splits option.splits)
  qed
qed

lemma merge_merges_runs:
  assumes "i < n" "n = length src" "n \<le> length dst"
  shows "merge c dst src i n w s =
    map_sum id (map_prod (\<lambda>zs. take i dst @ zs @ drop (min (i + 2 * w) n) dst) id)
      (merge_lists c (take w (drop i src)) (take w (drop w (drop i src))) s)"
proof -
  have ends: "min (min (i + w) n + w) n = min (i + 2 * w) n" by auto
  have segs: "segment i (min (i + w) n) src = take w (drop i src)"
    "segment (min (i + w) n) (min (i + 2 * w) n) src = take w (drop w (drop i src))"
    using assms by (auto simp: segment_def drop_take min_def algebra_simps)
  show ?thesis
    unfolding merge_def Let_def ends segs [symmetric]
    using assms by (intro merge_loop_lists) auto
qed

lemma merge_pass_lists:
  assumes "0 < w" "n = length src" "n = length dst"
  shows "merge_pass c n w src i dst s =
    map_sum id (map_prod (\<lambda>zs. take i dst @ zs) id) (pass_lists c w (drop i src) s)"
  using assms(3)
proof (induction "n - i" arbitrary: i dst s rule: less_induct)
  case less
  show ?case
  proof (cases "i < n")
    case False
    then show ?thesis using assms(2) less.prems by (simp add: merge_pass.simps pass_lists.simps)
  next
    case True
    let ?m = "merge_lists c (take w (drop i src)) (take w (drop w (drop i src))) s"
    have IH: "merge_pass c n w src (i + 2 * w) (take i dst @ zs @ drop (min (i + 2 * w) n) dst) s' =
        map_sum id (map_prod (\<lambda>ys. take i dst @ zs @ ys) id) (pass_lists c w (drop (2 * w) (drop i src)) s')"
      if m: "?m = Inr (zs, s')" for zs s'
    proof -
      let ?d = "take i dst @ zs @ drop (min (i + 2 * w) n) dst"
      have len: "length zs = min (2 * w) (n - i)"
        using merge_lists_length [OF m] assms(2) by (auto simp: min_def)
      then have "length ?d = n" using less.prems True by auto
      moreover have "take (i + 2 * w) ?d = take i dst @ zs"
        using len less.prems True by (cases "i + 2 * w \<le> n") auto
      moreover have "(\<lambda>ys. take i dst @ zs @ ys) = append (take i dst @ zs)" by auto
      ultimately show ?thesis
        using less.hyps [of "i + 2 * w" ?d s'] assms(1) True
        by (simp add: add.commute)
    qed
    have "drop i src \<noteq> []" using True assms(2) by simp
    then show ?thesis
      using True assms less.prems IH
      by (subst merge_pass.simps, subst pass_lists.simps)
         (auto simp: merge_merges_runs split: sum.splits)
  qed
qed


lemma whole_pass:
  assumes "0 < w" "n = length src" "n = length dst"
  shows "merge_pass c n w src 0 dst s = pass_lists c w src s"
  using merge_pass_lists [OF assms, of c 0 s] by simp

lemma pass_lists_error: "pass_lists c w xs s = Inl (e, s') \<Longrightarrow> e = Stopped"
proof (induction c w xs s rule: pass_lists.induct)
  case (1 c w xs s)
  then show ?case
    by (subst (asm) (2) pass_lists.simps)
       (auto split: if_splits sum.splits dest: merge_lists_error)
qed

lemma pass_lists_mset: "pass_lists c w xs s = Inr (zs, s') \<Longrightarrow> mset zs = mset xs"
proof (induction c w xs s arbitrary: zs rule: pass_lists.induct)
  case (1 c w xs s)
  show ?case
  proof (cases "xs = [] \<or> w = 0")
    case True
    then show ?thesis using "1.prems" by (simp add: pass_lists.simps)
  next
    case False
    then obtain us s1 vs where us: "merge_lists c (take w xs) (take w (drop w xs)) s = Inr (us, s1)"
      and vs: "pass_lists c w (drop (2 * w) xs) s1 = Inr (vs, s')" "zs = us @ vs"
      using "1.prems" by (subst (asm) pass_lists.simps) (auto split: sum.splits)
    have "mset vs = mset (drop (2 * w) xs)"
      using "1.IH" [OF False us refl vs(1)] .
    moreover have "xs = take w xs @ take w (drop w xs) @ drop (2 * w) xs"
      by (metis append_take_drop_id drop_drop mult_2)
    ultimately show ?thesis
      using merge_lists_mset [OF us] vs(2) by (metis mset_append union_assoc)
  qed
qed

lemma sort_loop_permutes:
  assumes "n = length src" "n = length dst" "0 < w"
  shows "case sort_loop c n w b src dst s of
      Inl (e, s') \<Rightarrow> e = Stopped
    | Inr ((b', src', dst'), s') \<Rightarrow> mset src' = mset src \<and> length dst' = n"
  using assms
proof (induction c n w b src dst s rule: sort_loop.induct)
  case (1 c n w b src dst s)
  have pass: "merge_pass c n w src 0 dst s = pass_lists c w src s"
    using "1.prems" by (intro whole_pass)
  show ?case
  proof (cases "w < n \<and> 0 < w")
    case False
    then show ?thesis using "1.prems" by (subst sort_loop.simps) simp
  next
    case True
    show ?thesis
    proof (cases "pass_lists c w src s")
      case (Inl e)
      then show ?thesis
        using True by (subst sort_loop.simps) (cases e; auto simp: pass dest: pass_lists_error)
    next
      case (Inr r)
      obtain zs s1 where r: "r = (zs, s1)" by (cases r)
      have m: "mset zs = mset src" using Inr r by (simp add: pass_lists_mset)
      then have len: "length zs = n" using "1.prems"(1) by (metis size_mset)
      have "case sort_loop c n (w * 2) (\<not> b) zs src s1 of
          Inl (e, s') \<Rightarrow> e = Stopped
        | Inr ((b', src', dst'), s') \<Rightarrow> mset src' = mset src \<and> length dst' = n"
        using pass "1.IH" [OF True, of "(zs, s1)" zs s1, unfolded m] Inr r len "1.prems" by simp
      then show ?thesis
        using True Inr r by (subst sort_loop.simps) (simp add: pass)
    qed
  qed
qed

lemma copy_from_copies:
  "i + n = length src \<Longrightarrow> length array = length src \<Longrightarrow>
   copy_from i n src array = Some (take i array @ drop i src)"
proof (induction n arbitrary: i array)
  case 0
  then show ?case by simp
next
  case (Suc n)
  then have "copy_from (Suc i) n src (array[i := src ! i]) = Some (take (Suc i) (array[i := src ! i]) @ drop (Suc i) src)"
    by simp
  then show ?case
    using Suc.prems by (simp add: move_def write_next Cons_nth_drop_Suc)
qed

text \<open>
  The merge sort permutes the elements whatever the comparator answers, and in particular if the
  comparison function of the script is inconsistent or changes its mind: unless the comparator
  stops it, it ends with a permutation of the array, and it never reads or writes outside the
  array and the scratch buffer.
\<close>

lemma mergeSort_permutes:
  assumes "length array = nelems" "length scratch = nelems"
  shows "case mergeSort c array nelems scratch s of
      Inl (e, s') \<Rightarrow> e = Stopped
    | Inr (array', s') \<Rightarrow> mset array' = mset array"
proof -
  have loop: "case sort_loop c nelems 1 False array scratch s of
      Inl (e, s') \<Rightarrow> e = Stopped
    | Inr ((b', src', dst'), s') \<Rightarrow> mset src' = mset array \<and> length dst' = nelems"
    by (rule sort_loop_permutes) (simp_all add: assms)
  show ?thesis
  proof (cases "sort_loop c nelems 1 False array scratch s")
    case (Inl e)
    then show ?thesis using loop by (simp add: mergeSort_def)
  next
    case (Inr r)
    obtain b src dst s' where r: "r = ((b, src, dst), s')" by (metis prod.exhaust)
    have p: "mset src = mset array" "length dst = nelems" using loop Inr r by simp_all
    then have "length src = nelems" using assms by (metis size_mset)
    then have "copy_from 0 nelems src dst = Some src"
      using p(2) copy_from_copies [of 0 nelems src dst] by simp
    then show ?thesis using Inr r p(1) by (simp add: mergeSort_def)
  qed
qed

text \<open>The sort changes the state only by calling the comparator.\<close>

definition result_state :: "('a, 's) sort_result \<Rightarrow> 's" where
  "result_state r = (case r of Inl (e, s) \<Rightarrow> s | Inr (x, s) \<Rightarrow> s)"

definition keeps_state :: "('s \<Rightarrow> bool) \<Rightarrow> ('a, 's) comp_fun \<Rightarrow> bool" where
  "keeps_state Q c \<longleftrightarrow> (\<forall>a b s. Q s \<longrightarrow> Q (snd (c a b s)))"

lemma result_state_simps [simp]:
  "result_state (Inl (e, s)) = s" "result_state (Inr (x, s)) = s"
  "result_state (map_sum id (map_prod f id) r) = result_state r"
  by (auto simp: result_state_def split: sum.splits)

lemma merge_lists_keeps_state: "keeps_state Q c \<Longrightarrow> Q s \<Longrightarrow> Q (result_state (merge_lists c xs ys s))"
proof (induction c xs ys s rule: merge_lists.induct)
  case (3 c x xs y ys s)
  have "Q (snd (c y x s))" using "3.prems" by (simp add: keeps_state_def)
  then show ?case using 3 by (auto split: prod.splits option.splits)
qed simp_all

lemma pass_lists_keeps_state: "keeps_state Q c \<Longrightarrow> Q s \<Longrightarrow> Q (result_state (pass_lists c w xs s))"
proof (induction c w xs s rule: pass_lists.induct)
  case (1 c w xs s)
  have "Q (result_state (merge_lists c (take w xs) (take w (drop w xs)) s))"
    using "1.prems" by (rule merge_lists_keeps_state)
  then show ?case
    using 1 by (subst pass_lists.simps) (auto split: sum.splits)
qed

lemma sort_loop_keeps_state:
  "keeps_state Q c \<Longrightarrow> Q s \<Longrightarrow> n = length src \<Longrightarrow> n = length dst \<Longrightarrow> 0 < w \<Longrightarrow>
   Q (result_state (sort_loop c n w b src dst s))"
proof (induction c n w b src dst s rule: sort_loop.induct)
  case (1 c n w b src dst s)
  have pass: "merge_pass c n w src 0 dst s = pass_lists c w src s"
    using "1.prems"(3-5) by (intro whole_pass)
  have Q: "Q (result_state (pass_lists c w src s))" using "1.prems"(1, 2) by (rule pass_lists_keeps_state)
  show ?case
  proof (cases "w < n \<and> 0 < w")
    case False
    then show ?thesis using "1.prems" by (subst sort_loop.simps) simp
  next
    case True
    show ?thesis
    proof (cases "pass_lists c w src s")
      case (Inl e)
      then show ?thesis using True Q by (subst sort_loop.simps) (cases e; simp add: pass)
    next
      case (Inr r)
      obtain zs s1 where r: "r = (zs, s1)" by (cases r)
      have "length zs = n" using Inr r "1.prems"(3) by (metis pass_lists_mset size_mset)
      then have "Q (result_state (sort_loop c n (w * 2) (\<not> b) zs src s1))"
        using "1.IH" [OF True, of "(zs, s1)" zs s1] pass Inr r Q "1.prems" by simp
      then show ?thesis using True Inr r by (subst sort_loop.simps) (simp add: pass)
    qed
  qed
qed

lemma mergeSort_keeps_state:
  assumes "keeps_state Q c" "Q s" "length array = nelems" "length scratch = nelems"
  shows "Q (result_state (mergeSort c array nelems scratch s))"
proof -
  have Q: "Q (result_state (sort_loop c nelems 1 False array scratch s))"
    by (rule sort_loop_keeps_state) (use assms in simp_all)
  show ?thesis
  proof (cases "sort_loop c nelems 1 False array scratch s")
    case (Inl e)
    then show ?thesis using Q by (cases e) (simp add: mergeSort_def)
  next
    case (Inr r)
    obtain b src dst s' where r: "r = ((b, src, dst), s')" by (metis prod.exhaust)
    then show ?thesis
      using Inr Q by (auto simp: mergeSort_def split: option.splits)
  qed
qed

section \<open>A consistent comparator\<close>

text \<open>
  With a comparator that answers whether its first argument is smaller in some order
  (\<^typ>\<open>'a comparator\<close>, with classes of equivalent elements), the result is the stable sort of the
  library.
\<close>

definition consistent :: "'a comparator \<Rightarrow> ('a, 's) comp_fun" where
  "consistent cmp = (\<lambda>a b s. (Some (compare cmp a b = Less), s))"

fun merge_plain :: "'a comparator \<Rightarrow> 'a list \<Rightarrow> 'a list \<Rightarrow> 'a list" where
  "merge_plain cmp xs [] = xs"
| "merge_plain cmp [] ys = ys"
| "merge_plain cmp (x # xs) (y # ys) =
     (if compare cmp y x = Less then y # merge_plain cmp (x # xs) ys else x # merge_plain cmp xs (y # ys))"

lemma merge_lists_consistent: "merge_lists (consistent cmp) xs ys s = Inr (merge_plain cmp xs ys, s)"
  by (induction cmp xs ys rule: merge_plain.induct) (simp_all add: consistent_def)

lemma merge_plain_mset: "mset (merge_plain cmp xs ys) = mset xs + mset ys"
  by (induction cmp xs ys rule: merge_plain.induct) auto

lemma merge_plain_set: "set (merge_plain cmp xs ys) = set xs \<union> set ys"
  using merge_plain_mset [of cmp xs ys] by (metis set_mset_mset set_mset_union)

lemma sorted_Cons_iff:
  "Sorting_Algorithms.sorted cmp (x # xs) \<longleftrightarrow>
     Sorting_Algorithms.sorted cmp xs \<and> (\<forall>y \<in> set xs. compare cmp x y \<noteq> Greater)"
  using sorted_append_iff [of cmp "[x]" xs] by auto

lemma less_than_all:
  "compare cmp y x = Less \<Longrightarrow> \<forall>z \<in> set xs. compare cmp x z \<noteq> Greater \<Longrightarrow> z \<in> set (x # xs) \<Longrightarrow>
   compare cmp y z = Less"
  by (metis set_ConsD compare.trans_not_less compare.greater_iff_sym_less compare.asym_less)

lemma merge_plain_sorted:
  "Sorting_Algorithms.sorted cmp xs \<Longrightarrow> Sorting_Algorithms.sorted cmp ys \<Longrightarrow>
   Sorting_Algorithms.sorted cmp (merge_plain cmp xs ys)"
proof (induction cmp xs ys rule: merge_plain.induct)
  case (3 cmp x xs y ys)
  show ?case
  proof (cases "compare cmp y x = Less")
    case True
    then show ?thesis
      using 3 less_than_all [OF True] by (auto simp: sorted_Cons_iff merge_plain_set)
  next
    case False
    then have xy: "compare cmp x y \<noteq> Greater" by (simp add: compare.greater_iff_sym_less)
    then show ?thesis
      using 3 False by (auto simp: sorted_Cons_iff merge_plain_set dest: compare.trans_not_greater [OF xy])
  qed
qed simp_all

lemma merge_plain_stable:
  "Sorting_Algorithms.sorted cmp xs \<Longrightarrow>
   filter (\<lambda>z. compare cmp v z = Equiv) (merge_plain cmp xs ys) =
     filter (\<lambda>z. compare cmp v z = Equiv) (xs @ ys)"
proof (induction cmp xs ys rule: merge_plain.induct)
  case (3 cmp x xs y ys)
  show ?case
  proof (cases "compare cmp y x = Less")
    case True
    have "compare cmp v z \<noteq> Equiv" if "compare cmp v y = Equiv" "z \<in> set (x # xs)" for z
      using less_than_all [OF True _ that(2)] 3(3) compare.trans_equiv_less [OF that(1)]
      by (force simp: sorted_Cons_iff)
    then have "compare cmp v y = Equiv \<Longrightarrow> filter (\<lambda>z. compare cmp v z = Equiv) (x # xs) = []"
      by (simp add: filter_empty_conv)
    then show ?thesis using 3 True by (auto simp: sorted_Cons_iff)
  next
    case False
    then show ?thesis using 3 by (auto simp: sorted_Cons_iff)
  qed
qed simp_all

lemma merge_plain_sort:
  "merge_plain cmp (Sorting_Algorithms.sort cmp xs) (Sorting_Algorithms.sort cmp ys) =
     Sorting_Algorithms.sort cmp (xs @ ys)"
  by (rule sort_eqI [symmetric])
     (simp_all add: merge_plain_mset merge_plain_sorted merge_plain_stable stable_sort)

text \<open>The array after a pass of width \<open>w\<close>: its aligned runs of that width are sorted.\<close>

function sorted_runs :: "'a comparator \<Rightarrow> nat \<Rightarrow> 'a list \<Rightarrow> 'a list" where
  "sorted_runs cmp w xs =
     (if xs = [] \<or> w = 0 then xs
      else Sorting_Algorithms.sort cmp (take w xs) @ sorted_runs cmp w (drop w xs))"
  by pat_completeness auto
termination
  by (relation "measure (\<lambda>(cmp, w, xs). length xs)") auto

declare sorted_runs.simps [simp del]

lemma sorted_runs_length [simp]: "length (sorted_runs cmp w xs) = length xs"
  by (induction cmp w xs rule: sorted_runs.induct) (subst sorted_runs.simps, auto)

lemma sorted_runs_1: "sorted_runs cmp 1 xs = xs"
  by (induction xs) (simp_all add: sorted_runs.simps [of _ _ "_ # _"] sorted_runs.simps [of _ _ "[]"])

lemma sorted_runs_whole: "length xs \<le> w \<Longrightarrow> sorted_runs cmp w xs = Sorting_Algorithms.sort cmp xs"
  by (cases "w = 0") (simp_all add: sorted_runs.simps)

lemma take_sorted_runs:
  "0 < w \<Longrightarrow> take w (sorted_runs cmp w xs) = Sorting_Algorithms.sort cmp (take w xs)"
  "0 < w \<Longrightarrow> drop w (sorted_runs cmp w xs) = sorted_runs cmp w (drop w xs)"
  by (subst sorted_runs.simps; cases "length xs \<le> w"; simp add: sorted_runs.simps [of _ _ "[]"])+

lemma double_run: "drop (2 * w) ys = drop w (drop w ys)" "take (2 * w) ys = take w ys @ take w (drop w ys)"
  by (simp_all add: mult_2 take_add)

lemma pass_lists_consistent:
  "0 < w \<Longrightarrow> pass_lists (consistent cmp) w (sorted_runs cmp w xs) s = Inr (sorted_runs cmp (2 * w) xs, s)"
proof (induction "length xs" arbitrary: xs rule: less_induct)
  case less
  show ?case
  proof (cases "xs = []")
    case True
    then show ?thesis by (simp add: pass_lists.simps sorted_runs.simps)
  next
    case False
    then have ne: "sorted_runs cmp w xs \<noteq> []" by (metis length_0_conv sorted_runs_length)
    let ?R = "sorted_runs cmp w xs" and ?rest = "drop (2 * w) xs"
    have parts: "take w ?R = Sorting_Algorithms.sort cmp (take w xs)"
      "take w (drop w ?R) = Sorting_Algorithms.sort cmp (take w (drop w xs))" "drop (2 * w) ?R = sorted_runs cmp w ?rest"
      by (simp_all only: take_sorted_runs [OF less.prems] double_run(1))
    have "sorted_runs cmp (2 * w) xs =
        Sorting_Algorithms.sort cmp (take w xs @ take w (drop w xs)) @ sorted_runs cmp (2 * w) ?rest"
      using False less.prems by (subst sorted_runs.simps) (simp add: double_run(2))
    moreover have "pass_lists (consistent cmp) w (sorted_runs cmp w ?rest) s = Inr (sorted_runs cmp (2 * w) ?rest, s)"
      using less False by simp
    ultimately show ?thesis
      using ne less.prems
      by (subst pass_lists.simps) (simp add: parts merge_lists_consistent merge_plain_sort del: drop_drop)
  qed
qed

lemma sort_loop_consistent:
  assumes "0 < w" "length dst = length array"
  shows "\<exists>b dst'. sort_loop (consistent cmp) (length array) w swapped (sorted_runs cmp w array) dst s =
      Inr ((b, Sorting_Algorithms.sort cmp array, dst'), s) \<and> length dst' = length array"
  using assms
proof (induction "length array - w" arbitrary: w dst swapped rule: less_induct)
  case less
  show ?case
  proof (cases "w < length array")
    case False
    then show ?thesis using less.prems by (subst sort_loop.simps) (auto simp: sorted_runs_whole)
  next
    case True
    have "merge_pass (consistent cmp) (length array) w (sorted_runs cmp w array) 0 dst s =
        Inr (sorted_runs cmp (2 * w) array, s)"
      by (subst whole_pass) (use less.prems in \<open>simp_all add: pass_lists_consistent\<close>)
    then have "sort_loop (consistent cmp) (length array) w swapped (sorted_runs cmp w array) dst s =
        sort_loop (consistent cmp) (length array) (2 * w) (\<not> swapped) (sorted_runs cmp (2 * w) array)
          (sorted_runs cmp w array) s"
      using True less.prems by (subst sort_loop.simps) (simp add: mult.commute)
    moreover have "length array - 2 * w < length array - w" "0 < 2 * w"
      "length (sorted_runs cmp w array) = length array" using True less.prems by simp_all
    ultimately show ?thesis
      using less.hyps [of "2 * w" "sorted_runs cmp w array" "\<not> swapped"] by presburger
  qed
qed

text \<open>
  With a consistent comparator the merge sort ends with the stable sort of the array: elements the
  comparator does not tell apart keep their order.
\<close>

lemma mergeSort_sorts_stably:
  assumes "length scratch = length array"
  shows "mergeSort (consistent cmp) array (length array) scratch s = Inr (Sorting_Algorithms.sort cmp array, s)"
proof -
  obtain b dst where "sort_loop (consistent cmp) (length array) 1 False (sorted_runs cmp 1 array) scratch s =
      Inr ((b, Sorting_Algorithms.sort cmp array, dst), s)" "length dst = length array"
    using sort_loop_consistent [of 1 scratch array cmp False s] assms by auto
  then show ?thesis
    using copy_from_copies [of 0 "length array" "Sorting_Algorithms.sort cmp array" dst]
    by (simp add: mergeSort_def sorted_runs_1 del: One_nat_def)
qed

section \<open>The comparison of Array.prototype.sort\<close>

text \<open>
  The function that \<^verbatim>\<open>builtinArraySort\<close> passes on. An element is \<open>None\<close> for a hole. The values
  that are neither holes nor undefined are compared by their strings, or by the function of the
  script, whose result has to be less than 0; \<open>toString\<close> and \<open>call\<close> (with the conversion of its
  result to a number) may run code of the script and may throw.
\<close>

definition string_less :: "u16 list \<Rightarrow> u16 list \<Rightarrow> bool" where
  "string_less a b \<longleftrightarrow> stringCompare (length a) (length b) a b < 0"

definition less_than_zero :: "u64 \<Rightarrow> bool" where
  "less_than_zero d \<longleftrightarrow> \<not> is_nan d \<and> \<not> is_zero d \<and> signbit d"

definition default_less :: "(jsval \<Rightarrow> 's \<Rightarrow> u16 list option \<times> 's) \<Rightarrow> (jsval, 's) comp_fun" where
  "default_less toString a b s =
     (case toString a s of
        (None, s1) \<Rightarrow> (None, s1)
      | (Some vala, s1) \<Rightarrow> (case toString b s1 of
            (None, s2) \<Rightarrow> (None, s2)
          | (Some valb, s2) \<Rightarrow> (Some (string_less vala valb), s2)))"

definition custom_less :: "(jsval \<Rightarrow> jsval \<Rightarrow> 's \<Rightarrow> u64 option \<times> 's) \<Rightarrow> (jsval, 's) comp_fun" where
  "custom_less call a b s =
     (case call a b s of (None, s1) \<Rightarrow> (None, s1) | (Some ret, s1) \<Rightarrow> (Some (less_than_zero ret), s1))"

definition sort_less :: "(jsval, 's) comp_fun \<Rightarrow> (jsval option, 's) comp_fun" where
  "sort_less order a b s =
     (if a = None \<and> b = Some VUndefined then (Some False, s)
      else if a = Some VUndefined \<and> b = None then (Some True, s)
      else if a = None \<or> a = Some VUndefined then (Some False, s)
      else if b = None \<or> b = Some VUndefined then (Some True, s)
      else order (the a) (the b) s)"

text \<open>The order of the elements: values, then undefined, then holes.\<close>

fun element_rank :: "jsval option \<Rightarrow> nat" where
  "element_rank None = 2"
| "element_rank (Some v) = (if v = VUndefined then 1 else 0)"

lift_definition element_order :: "jsval comparator \<Rightarrow> jsval option comparator" is
  "\<lambda>cmp a b. if element_rank a < element_rank b then Less else if element_rank b < element_rank a then Greater
     else if element_rank a = 0 then cmp (the a) (the b) else Equiv"
proof -
  fix cmp :: "jsval \<Rightarrow> jsval \<Rightarrow> comp"
  assume c: "comparator cmp"
  show "comparator (\<lambda>a b. if element_rank a < element_rank b then Less
      else if element_rank b < element_rank a then Greater
      else if element_rank a = 0 then cmp (the a) (the b) else Equiv)"
    by (rule comparator.intro)
       (auto simp: comparator.refl [OF c] comparator.greater_iff_sym_less [OF c]
          split: if_splits intro: comparator.trans_equiv [OF c] comparator.trans_less [OF c])
qed

lemma rank_cases:
  obtains "a = None" "element_rank a = 2" | "a = Some VUndefined" "element_rank a = 1"
  | v where "a = Some v" "v \<noteq> VUndefined" "element_rank a = 0"
  by (cases a) (auto split: if_splits)

lemma sort_less_consistent: "sort_less (consistent cmp) = consistent (element_order cmp)"
proof (intro ext)
  fix a b :: "jsval option" and s :: 'a
  show "sort_less (consistent cmp) a b s = consistent (element_order cmp) a b s"
    by (cases a rule: rank_cases; cases b rule: rank_cases)
       (simp_all add: sort_less_def consistent_def element_order.rep_eq)
qed

definition proper_values :: "jsval option list \<Rightarrow> jsval list" where
  "proper_values els = [v. Some v \<leftarrow> els, v \<noteq> VUndefined]"

lemma rank_of_value: "v \<noteq> VUndefined \<Longrightarrow> element_rank (Some v) = 0"
  by simp

lemma proper_values_no_undefined: "VUndefined \<notin> set (proper_values els)"
  by (auto simp: proper_values_def split: option.splits)

lemma insort_values:
  assumes "v \<noteq> VUndefined" "VUndefined \<notin> set vs" "\<forall>r \<in> set rest. 0 < element_rank r"
  shows "insort (element_order cmp) (Some v) (map Some vs @ rest) = map Some (insort cmp v vs) @ rest"
  using assms(2)
proof (induction vs)
  case Nil
  then show ?case using assms(1, 3) by (cases rest) (simp_all add: element_order.rep_eq)
next
  case (Cons w vs)
  then show ?case using assms(1) by (auto simp: element_order.rep_eq)
qed

lemma insort_behind:
  "\<forall>x \<in> set xs. element_rank x < element_rank e \<Longrightarrow>
   insort (element_order cmp) e (xs @ rest) = xs @ insort (element_order cmp) e rest"
  by (induction xs) (simp_all add: element_order.rep_eq)

lemma insort_equal:
  "0 < element_rank e \<Longrightarrow> \<forall>r \<in> set rest. element_rank e \<le> element_rank r \<Longrightarrow>
   insort (element_order cmp) e rest = e # rest"
  by (cases rest) (simp_all add: element_order.rep_eq)

lemma sort_elements:
  "Sorting_Algorithms.sort (element_order cmp) els =
     map Some (Sorting_Algorithms.sort cmp (proper_values els))
       @ replicate (count_list els (Some VUndefined)) (Some VUndefined) @ replicate (count_list els None) None"
proof (induction els)
  case Nil
  then show ?case by (simp add: proper_values_def)
next
  case (Cons e els)
  let ?vs = "Sorting_Algorithms.sort cmp (proper_values els)"
  let ?us = "replicate (count_list els (Some VUndefined)) (Some VUndefined)"
  let ?hs = "replicate (count_list els None) None :: jsval option list"
  have vals: "VUndefined \<notin> set ?vs" by (simp add: proper_values_no_undefined)
  then have low: "\<forall>x \<in> set (map Some ?vs). element_rank x = 0" by (auto intro: rank_of_value)
  show ?case
  proof (cases e rule: rank_cases)
    case 1
    have "insort (element_order cmp) e ((map Some ?vs @ ?us) @ ?hs) = (map Some ?vs @ ?us) @ e # ?hs"
      using low 1 by (subst insort_behind) (auto intro!: insort_equal)
    then show ?thesis using Cons.IH 1 by (simp add: proper_values_def)
  next
    case 2
    have "insort (element_order cmp) e (map Some ?vs @ ?us @ ?hs) = map Some ?vs @ e # ?us @ ?hs"
      using low 2 by (subst insort_behind) (auto intro!: insort_equal)
    then show ?thesis using Cons.IH 2 by (simp add: proper_values_def)
  next
    case (3 v)
    have "insort (element_order cmp) e (map Some ?vs @ ?us @ ?hs) = map Some (insort cmp v ?vs) @ ?us @ ?hs"
      unfolding 3(1) using 3(2) vals by (rule insort_values) auto
    then show ?thesis using Cons.IH 3 by (simp add: proper_values_def)
  qed
qed

text \<open>
  \<^verbatim>\<open>Array.prototype.sort\<close> with a consistent comparison function: the values in stable order, then
  the undefined elements, then the holes.
\<close>

lemma array_sort_elements:
  assumes "length scratch = length els"
  shows "mergeSort (sort_less (consistent cmp)) els (length els) scratch s =
    Inr (map Some (Sorting_Algorithms.sort cmp (proper_values els))
      @ replicate (count_list els (Some VUndefined)) (Some VUndefined) @ replicate (count_list els None) None, s)"
  unfolding sort_less_consistent sort_elements [symmetric]
  using assms by (rule mergeSort_sorts_stably)

lemma string_less_iff:
  assumes "length a < 2 ^ 32" "length b < 2 ^ 32"
  shows "string_less a b \<longleftrightarrow> a < b"
  unfolding string_less_def stringCompare_is_lexicographic [OF assms]
  using lexord_irreflexive [of "{(u, v :: u16). u < v}" b] by (auto simp: list_less_def lexordp_conv_lexord)

lemma default_less_consistent:
  assumes "\<forall>v. length (str v) < 2 ^ 32"
  shows "default_less (\<lambda>v s. (Some (str v), s)) = consistent (key str default)"
  using assms by (intro ext) (simp add: default_less_def consistent_def string_less_iff)

text \<open>
  Without a comparison function, and if conversion to a string neither throws nor has effects,
  the values end up in the lexicographic order of their strings; values with the same string keep
  their order.
\<close>

lemma default_sort_orders_by_string:
  assumes "length scratch = length els" "\<forall>v. length (str v) < 2 ^ 32"
  shows "\<exists>vs. mergeSort (sort_less (default_less (\<lambda>v s. (Some (str v), s)))) els (length els) scratch s =
      Inr (map Some vs @ replicate (count_list els (Some VUndefined)) (Some VUndefined)
        @ replicate (count_list els None) None, s) \<and>
    mset vs = mset (proper_values els) \<and> sorted_wrt (\<lambda>v w. str v \<le> str w) vs \<and>
    (\<forall>t. filter (\<lambda>v. str v = t) vs = filter (\<lambda>v. str v = t) (proper_values els))"
proof -
  let ?cmp = "key str default"
  let ?vs = "Sorting_Algorithms.sort ?cmp (proper_values els)"
  have sorted: "sorted_wrt (\<lambda>v w. str v \<le> str w) vs" if "Sorting_Algorithms.sorted ?cmp vs" for vs
    using that by (induction vs) (auto simp: sorted_Cons_iff not_less)
  have "filter (\<lambda>v. str v = t) ?vs = filter (\<lambda>v. str v = t) (proper_values els)" for t
  proof (cases "\<exists>w. str w = t")
    case True
    then obtain w where "str w = t" ..
    then show ?thesis
      using stable_sort [of ?cmp w "proper_values els"] by (simp add: eq_commute [of "str w"])
  next
    case False
    then show ?thesis by (simp add: filter_False)
  qed
  then show ?thesis
    using assms sorted [of ?vs] array_sort_elements [of scratch els ?cmp s]
    by (intro exI [of _ ?vs]) (simp add: default_less_consistent)
qed

text \<open>
  The comment of \<^verbatim>\<open>mergeSort\<close> asks for a comparator that answers \<^verbatim>\<open>a <= b\<close>. With such a comparator
  the sort is not stable: two equal elements change places. All callers pass a strict comparison.
\<close>

theorem less_or_equal_is_unstable:
  "mergeSort (\<lambda>a b s. (Some (fst a \<le> fst b), s)) [(0 :: nat, 0 :: nat), (0, 1)] 2 [(0, 0), (0, 0)] () =
     Inr ([(0, 1), (0, 0)], ())"
  by (simp add: mergeSort_def sort_loop.simps merge_pass.simps merge_def merge_loop.simps move_def
      numeral_2_eq_2)

end
