(* ===== verification/Array_Object.thy ===== *)
theory Array_Object
  imports Define_Own_Property Doubles
begin

text \<open>
  Arrays in their fast mode (\<^verbatim>\<open>runtime/ArrayObject.cpp\<close>): the elements are in a buffer of values in
  which the empty value marks a hole, with a length and, in the rare data of the object, the
  capacity of the buffer. An array leaves the fast mode for good when an element gets attributes of
  its own, when it becomes sparse, or when it stops being extensible; its elements are then
  properties of the object. The buffer is modelled cell by cell: what the allocator returns, what
  \<^verbatim>\<open>memcpy\<close> and \<^verbatim>\<open>memset\<close> write, and that both stay inside it. The build is the one without
  \<^verbatim>\<open>ESCARGOT_USE_32BIT_IN_64BIT\<close>.
\<close>

section \<open>State\<close>

text \<open>A cell is \<open>None\<close> for the empty value. \<open>a_data\<close> is \<open>None\<close> for the marker \<^verbatim>\<open>DummyArrayElement\<close> of
  the slow mode; a null pointer is the empty buffer.\<close>

type_synonym cell = "jsval option"

record rare_data =
  r_isExtensible :: bool
  r_isArrayObjectLengthWritable :: bool
  r_expandCount :: nat
  r_capacity :: nat

record array_object =
  a_length :: nat
  a_data :: "cell list option"
  a_rare :: "rare_data option"

definition new_rare_data :: rare_data where
  "new_rare_data = \<lparr>r_isExtensible = True, r_isArrayObjectLengthWritable = True, r_expandCount = 0, r_capacity = 0\<rparr>"

definition ensureRareData :: "array_object \<Rightarrow> rare_data" where
  "ensureRareData arr = (case a_rare arr of None \<Rightarrow> new_rare_data | Some r \<Rightarrow> r)"

definition isFastModeArray :: "array_object \<Rightarrow> bool" where
  "isFastModeArray arr \<longleftrightarrow> a_data arr \<noteq> None"

definition isLengthPropertyWritable :: "array_object \<Rightarrow> bool" where
  "isLengthPropertyWritable arr = (case a_rare arr of None \<Rightarrow> True | Some r \<Rightarrow> r_isArrayObjectLengthWritable r)"

definition array_isExtensible :: "array_object \<Rightarrow> bool" where
  "array_isExtensible arr = (case a_rare arr of None \<Rightarrow> True | Some r \<Rightarrow> r_isExtensible r)"

text \<open>
  An operation returns, fails outside the buffer, or goes on in the slow mode with a method of
  \<^verbatim>\<open>Object\<close>; \<open>defs\<close> are the elements that were defined as properties when it left the fast mode.
\<close>

datatype slow_call =
    SlowShrink nat
  | SlowDefine nat prop_request
  | SlowDelete nat
  | SlowSet nat jsval

datatype array_result =
    HeapError
  | RangeError
  | Returned bool array_object "(nat \<times> jsval) list"
  | Continues slow_call array_object "(nat \<times> jsval) list"

section \<open>Memory\<close>

text \<open>\<open>mem i\<close> is what cell \<open>i\<close> of newly obtained memory holds.\<close>

definition gc_malloc :: "(nat \<Rightarrow> cell) \<Rightarrow> nat \<Rightarrow> cell list" where
  "gc_malloc mem n = map mem [0..<n]"

definition gc_realloc :: "(nat \<Rightarrow> cell) \<Rightarrow> cell list \<Rightarrow> nat \<Rightarrow> cell list" where
  "gc_realloc mem buf n = take n buf @ map mem [length buf..<n]"

definition clear_cells :: "nat \<Rightarrow> nat \<Rightarrow> cell list \<Rightarrow> cell list option" where
  "clear_cells i j buf =
     (if i < j then if j \<le> length buf then Some (take i buf @ replicate (j - i) None @ drop j buf) else None
      else Some buf)"

definition copy_cells :: "cell list \<Rightarrow> cell list \<Rightarrow> nat \<Rightarrow> cell list option" where
  "copy_cells dst src n = (if n \<le> length dst \<and> n \<le> length src then Some (take n src @ drop n dst) else None)"

text \<open>
  The capacities of \<^verbatim>\<open>util/Vector.h\<close>. The product with \<^verbatim>\<open>130 / 100.f\<close> is computed in single
  precision: both the length and the product are rounded to 24 bits, to even in case of a tie; the
  factor is the float 10905190 / 2 ^ 23.
\<close>

definition round_even :: "nat \<Rightarrow> nat \<Rightarrow> nat" where
  "round_even n d =
     (let q = n div d; r = n mod d in if 2 * r > d \<or> 2 * r = d \<and> odd q then Suc q else q)"

definition float_round :: "nat \<Rightarrow> nat" where
  "float_round n = (if n < 2 ^ 24 then n else let k = top_bit n - 23 in round_even n (2 ^ k) * 2 ^ k)"

definition reserve_percent_130 :: "nat \<Rightarrow> nat" where
  "reserve_percent_130 newSize = float_round (float_round newSize * 10905190) div 2 ^ 23"

definition reserve_log2 :: "nat \<Rightarrow> nat" where
  "reserve_log2 newSize = (if newSize = 0 then 0 else 2 ^ (top_bit newSize + 1))"

section \<open>Changing the length\<close>

definition convertIntoNonFastMode :: "array_object \<Rightarrow> array_object \<times> (nat \<times> jsval) list" where
  "convertIntoNonFastMode arr =
     (case a_data arr of
        None \<Rightarrow> (arr, [])
      | Some buf \<Rightarrow> (arr\<lparr>a_data := None\<rparr>,
          [(i, v). i \<leftarrow> [0..<a_length arr], v \<leftarrow> (case buf ! i of None \<Rightarrow> [] | Some v \<Rightarrow> [v])]))"

definition fit_storage :: "(nat \<Rightarrow> cell) \<Rightarrow> nat \<Rightarrow> nat \<Rightarrow> cell list \<Rightarrow> rare_data option \<Rightarrow> (cell list \<times> rare_data option) option" where
  "fit_storage mem oldLength newLength buf rare =
     (let oldCapacity = (case rare of None \<Rightarrow> 0 | Some r \<Rightarrow> r_capacity r);
          buf1 = gc_realloc mem buf newLength;
          cleared = (if oldCapacity \<noteq> 0
            then (if newLength > oldCapacity then clear_cells oldLength newLength buf1 else Some buf1)
            else clear_cells oldLength newLength buf1)
      in case cleared of None \<Rightarrow> None
         | Some buf2 \<Rightarrow> Some (buf2, map_option (\<lambda>r. r\<lparr>r_capacity := 0\<rparr>) rare))"

definition reserved_storage :: "(nat \<Rightarrow> cell) \<Rightarrow> nat \<Rightarrow> nat \<Rightarrow> cell list \<Rightarrow> rare_data option \<Rightarrow> (cell list \<times> rare_data option) option" where
  "reserved_storage mem oldLength newLength buf rare =
     (let oldCapacity = (case rare of None \<Rightarrow> oldLength | Some r \<Rightarrow> r_capacity r);
          rd = (case rare of None \<Rightarrow> new_rare_data | Some r \<Rightarrow> r)
      in if newLength > oldCapacity then
           let newCapacity = (if r_expandCount rd \<ge> 3 then reserve_log2 newLength else reserve_percent_130 newLength)
           in case copy_cells (gc_malloc mem newCapacity) buf oldLength of
                None \<Rightarrow> None
              | Some buf1 \<Rightarrow> (case clear_cells oldLength newLength buf1 of
                    None \<Rightarrow> None
                  | Some buf2 \<Rightarrow> Some (buf2, Some (rd\<lparr>r_capacity := newCapacity,
                      r_expandCount := (if r_expandCount rd < 3 then r_expandCount rd + 1 else r_expandCount rd)\<rparr>)))
         else case clear_cells oldLength newLength buf of
                None \<Rightarrow> None
              | Some buf1 \<Rightarrow> Some (buf1, Some (rd\<lparr>r_capacity := oldCapacity\<rparr>)))"

definition becomes_sparse :: "array_object \<Rightarrow> nat \<Rightarrow> bool" where
  "becomes_sparse arr newLength \<longleftrightarrow> newLength > 65536 * 16 \<and>
     newLength > a_length arr \<and> (newLength - a_length arr > 1024 \<or> newLength \<ge> (2 ^ 32 - 1) div 2)"

definition setArrayLength :: "(nat \<Rightarrow> cell) \<Rightarrow> nat \<Rightarrow> bool \<Rightarrow> bool \<Rightarrow> array_object \<Rightarrow> array_result" where
  "setArrayLength mem newLength useFitStorage considerHole arr0 =
     (let (arr, defs) = (if isFastModeArray arr0 \<and> considerHole \<and> becomes_sparse arr0 newLength
            then convertIntoNonFastMode arr0 else (arr0, []))
      in case a_data arr of
           Some buf \<Rightarrow>
             (let oldLength = a_length arr in
              if oldLength = newLength then Returned True arr defs
              else case (if useFitStorage \<or> oldLength = 0 \<or> newLength \<le> 128
                  then fit_storage mem oldLength newLength buf (a_rare arr)
                  else reserved_storage mem oldLength newLength buf (a_rare arr)) of
                None \<Rightarrow> HeapError
              | Some (buf', rare') \<Rightarrow>
                  (let arr' = \<lparr>a_length = newLength, a_data = Some buf', a_rare = rare'\<rparr> in
                   if \<not> isLengthPropertyWritable arr'
                   then (let (arr2, defs2) = convertIntoNonFastMode arr' in Returned True arr2 defs2)
                   else Returned True arr' []))
         | None \<Rightarrow>
             if newLength < a_length arr then Continues (SlowShrink newLength) arr defs
             else Returned True (arr\<lparr>a_length := newLength\<rparr>) defs)"

text \<open>
  \<^verbatim>\<open>setArrayLength(ExecutionState&, const Value&)\<close>, the assignment to \<^verbatim>\<open>length\<close>, and the branch of
  \<^verbatim>\<open>defineOwnProperty\<close> for \<^verbatim>\<open>length\<close>. Both convert the value twice, by \<^verbatim>\<open>toUint32\<close> and by
  \<^verbatim>\<open>toNumber\<close>; \<open>num1\<close> and \<open>num2\<close> are the numbers the value gives the first and the second time.
\<close>

definition toUint32 :: "u64 \<Rightarrow> nat" where
  "toUint32 num = unat (toInt32SlowCase num)"

definition differs_from_number :: "nat \<Rightarrow> u64 \<Rightarrow> bool" where
  "differs_from_number n num \<longleftrightarrow> \<not> double_eq (double_of_int (int n)) num"

definition setArrayLength_value :: "(nat \<Rightarrow> cell) \<Rightarrow> bool \<Rightarrow> u64 \<Rightarrow> u64 \<Rightarrow> array_object \<Rightarrow> array_result" where
  "setArrayLength_value mem isPrimitiveValue num1 num2 arr =
     (let newLen = toUint32 num1 in
      if differs_from_number newLen num2 then RangeError
      else if \<not> isPrimitiveValue \<and> \<not> isLengthPropertyWritable arr then Returned False arr []
      else setArrayLength mem newLen True True arr)"

definition define_length :: "(nat \<Rightarrow> cell) \<Rightarrow> prop_request \<Rightarrow> u64 \<Rightarrow> u64 \<Rightarrow> array_object \<Rightarrow> array_result" where
  "define_length mem desc num1 num2 arr =
     (let newLen = (if pr_isValuePresent desc then toUint32 num1 else 0) in
      if pr_isValuePresent desc \<and> differs_from_number newLen num2 then RangeError
      else if \<not> isLengthPropertyWritable arr \<and> pr_isValuePresent desc \<and> a_length arr \<noteq> newLen then Returned False arr []
      else if pr_isConfigurablePresent desc \<and> pr_isConfigurable desc then Returned False arr []
      else if pr_isEnumerablePresent desc \<and> pr_isEnumerable desc then Returned False arr []
      else if pr_isAccessorDescriptor desc then Returned False arr []
      else if \<not> isLengthPropertyWritable arr \<and> pr_isWritable desc then Returned False arr []
      else
        let arr1 = (if pr_isWritablePresent desc \<and> \<not> pr_isWritable desc
              then arr\<lparr>a_rare := Some ((ensureRareData arr)\<lparr>r_isArrayObjectLengthWritable := False\<rparr>)\<rparr> else arr)
        in if pr_isValuePresent desc \<and> a_length arr1 \<noteq> newLen then setArrayLength mem newLen False True arr1
           else Returned True arr1 [])"

section \<open>Elements\<close>

text \<open>\<^verbatim>\<open>getVirtualValue\<close> and \<^verbatim>\<open>getOwnProperty\<close> for an index; \<open>None\<close> is the answer of the slow mode.\<close>

definition get_element :: "nat \<Rightarrow> array_object \<Rightarrow> cell option" where
  "get_element idx arr =
     (case a_data arr of
        None \<Rightarrow> None
      | Some buf \<Rightarrow> Some (if idx < a_length arr then buf ! idx else None))"

definition isValuePresentAlone :: "prop_request \<Rightarrow> bool" where
  "isValuePresentAlone desc \<longleftrightarrow> pr_property desc = 0x80"

definition isDataWritableEnumerableConfigurable :: "prop_request \<Rightarrow> bool" where
  "isDataWritableEnumerableConfigurable desc \<longleftrightarrow> pr_isDataProperty desc \<and> pr_isValuePresent desc \<and>
     pr_isWritable desc \<and> pr_isEnumerable desc \<and> pr_isConfigurable desc"

definition write_cell :: "nat \<Rightarrow> jsval \<Rightarrow> array_object \<Rightarrow> (nat \<times> jsval) list \<Rightarrow> array_result" where
  "write_cell idx v arr defs =
     (case a_data arr of
        None \<Rightarrow> HeapError
      | Some buf \<Rightarrow> if idx < length buf then Returned True (arr\<lparr>a_data := Some (buf[idx := Some v])\<rparr>) defs else HeapError)"

text \<open>
  The branch of \<^verbatim>\<open>defineOwnProperty\<close> for an index up to \<^verbatim>\<open>NonFastPath\<close>. A call of
  \<^verbatim>\<open>setArrayLength\<close> that makes the array longer returns true.
\<close>

definition define_element :: "(nat \<Rightarrow> cell) \<Rightarrow> nat \<Rightarrow> prop_request \<Rightarrow> array_object \<Rightarrow> array_result" where
  "define_element mem idx desc arr =
     (case a_data arr of
        None \<Rightarrow> Continues (SlowDefine idx desc) arr []
      | Some buf \<Rightarrow>
          (let len = a_length arr;
               leave = (let (arr', defs) = convertIntoNonFastMode arr in Continues (SlowDefine idx desc) arr' defs)
           in if len > idx \<and> buf ! idx \<noteq> None \<and>
                 \<not> (isValuePresentAlone desc \<or> isDataWritableEnumerableConfigurable desc) then leave
              else if \<not> (len > idx \<and> buf ! idx \<noteq> None) \<and> \<not> isDataWritableEnumerableConfigurable desc then leave
              else if \<not> pr_isValuePresent desc then leave
              else if len \<le> idx then
                if \<not> array_isExtensible arr then Continues (SlowDefine idx desc) arr []
                else (case setArrayLength mem (idx + 1) False True arr of
                    Returned ok arr' defs \<Rightarrow>
                      if \<not> ok \<or> \<not> isFastModeArray arr' then Continues (SlowDefine idx desc) arr' defs
                      else write_cell idx (pr_value desc) arr' defs
                  | r \<Rightarrow> r)
              else write_cell idx (pr_value desc) arr []))"

definition delete_element :: "nat \<Rightarrow> array_object \<Rightarrow> array_result" where
  "delete_element idx arr =
     (case a_data arr of
        Some buf \<Rightarrow>
          if idx < a_length arr then
            if \<not> idx < length buf then HeapError
            else if buf ! idx \<noteq> None then Returned True (arr\<lparr>a_data := Some (buf[idx := None])\<rparr>) []
            else Returned True arr []
          else Continues (SlowDelete idx) arr []
      | None \<Rightarrow> Continues (SlowDelete idx) arr [])"

definition setIndexedProperty :: "(nat \<Rightarrow> cell) \<Rightarrow> nat \<Rightarrow> jsval \<Rightarrow> array_object \<Rightarrow> array_result" where
  "setIndexedProperty mem idx v arr =
     (if \<not> isFastModeArray arr then Continues (SlowSet idx v) arr []
      else if a_length arr \<le> idx then
        if \<not> array_isExtensible arr then Returned False arr []
        else (case setArrayLength mem (idx + 1) False True arr of
            Returned ok arr' defs \<Rightarrow>
              if \<not> ok \<or> \<not> isFastModeArray arr' then Continues (SlowSet idx v) arr' defs
              else write_cell idx v arr' defs
          | r \<Rightarrow> r)
      else write_cell idx v arr [])"

definition array_preventExtensions :: "array_object \<Rightarrow> array_object \<times> (nat \<times> jsval) list" where
  "array_preventExtensions arr =
     (let (arr', defs) = convertIntoNonFastMode arr
      in (arr'\<lparr>a_rare := Some ((ensureRareData arr')\<lparr>r_isExtensible := False\<rparr>)\<rparr>, defs))"

text \<open>The constructors; \<open>slow\<close> is \<^verbatim>\<open>didSomePrototypeObjectDefineIndexedProperty\<close>.\<close>

definition new_array :: "bool \<Rightarrow> array_object" where
  "new_array slow = \<lparr>a_length = 0, a_data = (if slow then None else Some []), a_rare = None\<rparr>"

definition new_array_size :: "(nat \<Rightarrow> cell) \<Rightarrow> bool \<Rightarrow> nat \<Rightarrow> bool \<Rightarrow> array_result" where
  "new_array_size mem slow n shouldConsiderHole =
     (if n > 2 ^ 32 - 1 then RangeError else setArrayLength mem n True shouldConsiderHole (new_array slow))"

section \<open>Rounding of capacities\<close>

lemma round_even_bound:
  assumes "0 < d"
  shows "2 * n \<le> 2 * (round_even n d * d) + d \<and> 2 * (round_even n d * d) \<le> 2 * n + d"
proof -
  define q r where "q = n div d * d" and "r = n mod d"
  have "n = q + r" "r < d" using assms by (simp_all add: q_def r_def)
  moreover have "round_even n d * d = (if 2 * r > d \<or> 2 * r = d \<and> odd (n div d) then q + d else q)"
    by (simp add: round_even_def Let_def q_def r_def)
  ultimately show ?thesis by (auto split: if_splits)
qed

lemma float_round_bound: "16777215 * n \<le> 16777216 * float_round n \<and> 16777216 * float_round n \<le> 16777217 * n"
proof (cases "n < 2 ^ 24")
  case False
  define t k where "t = top_bit n" and "k = t - 23"
  have b: "2 ^ t \<le> n" "n < 2 ^ Suc t" using top_bit_bounds [of n] False by (auto simp: t_def)
  then have "(2 :: nat) ^ 24 < 2 ^ Suc t" using False by linarith
  then have "24 < Suc t" by (rule power_less_imp_less_exp [rotated]) simp
  then have "t = k + 23" by (simp add: k_def)
  then have "8388608 * 2 ^ k \<le> n" using b(1) by (simp add: power_add)
  moreover have "2 * n \<le> 2 * float_round n + 2 ^ k" "2 * float_round n \<le> 2 * n + 2 ^ k"
    using round_even_bound [of "2 ^ k" n] False by (simp_all add: float_round_def Let_def k_def t_def)
  ultimately show ?thesis by linarith
qed (simp add: float_round_def)

lemma reserve_percent_130_bounds: "n \<le> reserve_percent_130 n" "reserve_percent_130 n \<le> 2 * n"
proof -
  define f p where "f = float_round n" and "p = float_round (f * 10905190)"
  have "16777215 * n \<le> 16777216 * f" "16777216 * f \<le> 16777217 * n"
    using float_round_bound [of n] by (simp_all only: f_def)
  moreover have "16777215 * (f * 10905190) \<le> 16777216 * p" "16777216 * p \<le> 16777217 * (f * 10905190)"
    using float_round_bound [of "f * 10905190"] by (simp_all only: p_def)
  ultimately have "n * 8388608 \<le> p" "p \<le> 2 * n * 8388608" by linarith+
  then show "n \<le> reserve_percent_130 n" "reserve_percent_130 n \<le> 2 * n"
    using div_le_mono [of p "2 * n * 8388608" 8388608]
    by (simp_all add: reserve_percent_130_def f_def p_def less_eq_div_iff_mult_less_eq)
qed

lemma reserve_log2_bounds: "n \<le> reserve_log2 n" "reserve_log2 n \<le> 2 * n"
  using top_bit_bounds [of n] by (auto simp: reserve_log2_def)

section \<open>Invariant\<close>

text \<open>
  In the fast mode the buffer holds the elements, it is as long as the recorded capacity says, and
  the cells behind the elements are empty.
\<close>

fun array_ok :: "array_object \<Rightarrow> bool" where
  "array_ok arr \<longleftrightarrow> (case a_data arr of None \<Rightarrow> True
     | Some buf \<Rightarrow> a_length arr \<le> length buf \<and> (\<forall>c \<in> set (drop (a_length arr) buf). c = None) \<and>
         (case a_rare arr of None \<Rightarrow> True | Some r \<Rightarrow> r_capacity r \<le> length buf))"

definition elements :: "array_object \<Rightarrow> cell list" where
  "elements arr = (case a_data arr of None \<Rightarrow> [] | Some buf \<Rightarrow> take (a_length arr) buf)"

definition resized :: "nat \<Rightarrow> cell list \<Rightarrow> cell list" where
  "resized n xs = take n xs @ replicate (n - length xs) None"

definition shrinks_safely :: "array_object \<Rightarrow> nat \<Rightarrow> bool \<Rightarrow> bool" where
  "shrinks_safely arr newLength useFitStorage \<longleftrightarrow>
     useFitStorage \<or> newLength \<le> 128 \<or> a_length arr \<le> newLength \<or>
     (\<forall>c \<in> set (drop newLength (elements arr)). c = None) \<and>
       (case a_rare arr of None \<Rightarrow> True | Some r \<Rightarrow> newLength \<le> r_capacity r)"

declare array_ok.simps [simp del]

lemma empty_cells: "\<forall>c \<in> set cs. c = None \<Longrightarrow> cs = replicate (length cs) None"
  by (simp add: replicate_length_same)

lemma length_gc_realloc [simp]: "length (gc_realloc mem buf n) = n"
  by (simp add: gc_realloc_def)

lemma length_gc_malloc [simp]: "length (gc_malloc mem n) = n"
  by (simp add: gc_malloc_def)

lemma resized_length [simp]: "length (resized n xs) = n"
  by (simp add: resized_def)

lemma take_gc_realloc: "k \<le> n \<Longrightarrow> k \<le> length buf \<Longrightarrow> take k (gc_realloc mem buf n) = take k buf"
  by (simp add: gc_realloc_def)

lemma clear_cells_grow:
  "i \<le> j \<Longrightarrow> j \<le> length buf \<Longrightarrow> clear_cells i j buf = Some (take i buf @ replicate (j - i) None @ drop j buf)"
  by (simp add: clear_cells_def)

lemma clear_cells_none: "j \<le> i \<Longrightarrow> clear_cells i j buf = Some buf"
  by (simp add: clear_cells_def)

lemma take_empty_tail:
  assumes "\<forall>c \<in> set (drop k buf). c = None" "k \<le> length buf" "n \<le> length buf"
  shows "take n buf = resized n (take k buf)"
proof -
  have "buf = take k buf @ replicate (length buf - k) None"
    using empty_cells [OF assms(1)] by (metis append_take_drop_id length_drop)
  then have "take n buf = take n (take k buf @ replicate (length buf - k) None)" by simp
  then show ?thesis using assms(2, 3) by (auto simp: resized_def min_def)
qed

lemma fit_storage_resizes:
  assumes "oldLength \<le> length buf" "\<forall>c \<in> set (drop oldLength buf). c = None"
    "\<And>r. rare = Some r \<Longrightarrow> r_capacity r \<le> length buf"
  shows "fit_storage mem oldLength newLength buf rare =
    Some (resized newLength (take oldLength buf), map_option (\<lambda>r. r\<lparr>r_capacity := 0\<rparr>) rare)"
proof -
  have grow: "clear_cells oldLength newLength (gc_realloc mem buf newLength) = Some (resized newLength (take oldLength buf))"
  proof (cases "oldLength \<le> newLength")
    case True
    then show ?thesis
      using assms(1) by (simp add: clear_cells_grow take_gc_realloc resized_def)
  next
    case False
    then show ?thesis
      using assms(1) by (simp add: clear_cells_none gc_realloc_def resized_def min_def)
  qed
  have keep: "gc_realloc mem buf newLength = resized newLength (take oldLength buf)"
    if "newLength \<le> length buf"
    using that take_empty_tail [OF assms(2, 1) that] by (simp add: gc_realloc_def)
  show ?thesis
  proof (cases rare)
    case None
    then show ?thesis by (simp add: fit_storage_def grow)
  next
    case (Some r)
    then show ?thesis using assms(3) [OF Some] grow keep by (simp add: fit_storage_def Let_def)
  qed
qed

lemma copy_into_malloc:
  assumes "n \<le> m" "n \<le> length src"
  shows "copy_cells (gc_malloc mem m) src n = Some (take n src @ map mem [n..<m])"
  using assms by (simp add: copy_cells_def gc_malloc_def drop_map)

lemma reserved_storage_resizes:
  assumes "oldLength \<le> length buf" "\<forall>c \<in> set (drop oldLength buf). c = None"
    "\<And>r. rare = Some r \<Longrightarrow> r_capacity r \<le> length buf" "\<forall>i. mem i = None"
    "oldLength \<le> newLength \<or> (\<forall>c \<in> set (drop newLength (take oldLength buf)). c = None) \<and>
       (\<forall>r. rare = Some r \<longrightarrow> newLength \<le> r_capacity r)"
  shows "\<exists>buf' r'. reserved_storage mem oldLength newLength buf rare = Some (buf', Some r') \<and>
    newLength \<le> length buf' \<and> take newLength buf' = resized newLength (take oldLength buf) \<and>
    (\<forall>c \<in> set (drop newLength buf'). c = None) \<and> r_capacity r' \<le> length buf' \<and>
    r_isExtensible r' = (case rare of None \<Rightarrow> True | Some r \<Rightarrow> r_isExtensible r) \<and>
    r_isArrayObjectLengthWritable r' = (case rare of None \<Rightarrow> True | Some r \<Rightarrow> r_isArrayObjectLengthWritable r)"
proof -
  define cap where "cap = (case rare of None \<Rightarrow> oldLength | Some r \<Rightarrow> r_capacity r)"
  define rd where "rd = (case rare of None \<Rightarrow> new_rare_data | Some r \<Rightarrow> r)"
  have cap: "cap \<le> length buf" using assms(1, 3) by (auto simp: cap_def split: option.splits)
  have attrs: "r_isExtensible rd = (case rare of None \<Rightarrow> True | Some r \<Rightarrow> r_isExtensible r)"
    "r_isArrayObjectLengthWritable rd = (case rare of None \<Rightarrow> True | Some r \<Rightarrow> r_isArrayObjectLengthWritable r)"
    by (simp_all add: rd_def new_rare_data_def split: option.splits)
  show ?thesis
  proof (cases "newLength > cap")
    case True
    define new where "new = (if r_expandCount rd \<ge> 3 then reserve_log2 newLength else reserve_percent_130 newLength)"
    have new: "newLength \<le> new" using reserve_log2_bounds(1) reserve_percent_130_bounds(1) by (simp add: new_def)
    have old: "oldLength \<le> newLength"
      using assms(5) True by (auto simp: cap_def split: option.splits)
    have "copy_cells (gc_malloc mem new) buf oldLength = Some (take oldLength buf @ map mem [oldLength..<new])"
      using old new assms(1) by (intro copy_into_malloc) auto
    moreover have "clear_cells oldLength newLength (take oldLength buf @ map mem [oldLength..<new]) =
        Some (resized newLength (take oldLength buf) @ map mem [newLength..<new])"
      using old new assms(1) by (simp add: clear_cells_grow resized_def drop_map)
    ultimately show ?thesis
      using True new attrs assms(4)
      by (auto simp: reserved_storage_def Let_def cap_def [symmetric] rd_def [symmetric] new_def [symmetric])
  next
    case False
    then have le: "newLength \<le> length buf" using cap by simp
    show ?thesis
    proof (cases "oldLength \<le> newLength")
      case True
      have "take newLength (take oldLength buf @ replicate (newLength - oldLength) None @ drop newLength buf) =
          resized newLength (take oldLength buf)"
        using True assms(1) by (simp add: resized_def)
      moreover have "\<forall>c \<in> set (drop newLength buf). c = None"
        using assms(2) set_drop_subset_set_drop [OF True, of buf] by auto
      ultimately show ?thesis
        using False True attrs assms(1) cap le
        by (auto simp: reserved_storage_def Let_def cap_def [symmetric] rd_def [symmetric] clear_cells_grow)
    next
      case shrink: False
      have "drop newLength (take oldLength buf @ drop oldLength buf) =
          drop newLength (take oldLength buf) @ drop oldLength buf"
        using shrink assms(1) by (subst drop_append) simp
      then have "drop newLength buf = drop newLength (take oldLength buf) @ drop oldLength buf" by simp
      then have "\<forall>c \<in> set (drop newLength buf). c = None"
        using assms(2, 5) shrink by auto
      moreover have "take newLength buf = resized newLength (take oldLength buf)"
        using shrink assms(1) by (simp add: resized_def min_def)
      ultimately show ?thesis
        using False shrink attrs cap le
        by (auto simp: reserved_storage_def Let_def cap_def [symmetric] rd_def [symmetric] clear_cells_none)
    qed
  qed
qed

section \<open>The length\<close>

definition definitions_of :: "cell list \<Rightarrow> (nat \<times> jsval) list" where
  "definitions_of xs = [(i, v). i \<leftarrow> [0..<length xs], v \<leftarrow> (case xs ! i of None \<Rightarrow> [] | Some v \<Rightarrow> [v])]"

lemma convert_definitions:
  assumes "array_ok arr" "isFastModeArray arr"
  shows "convertIntoNonFastMode arr = (arr\<lparr>a_data := None\<rparr>, definitions_of (elements arr))"
proof -
  obtain buf where buf: "a_data arr = Some buf" "a_length arr \<le> length buf"
    using assms by (auto simp: array_ok.simps isFastModeArray_def)
  then have "[0..<a_length arr] = [0..<length (take (a_length arr) buf)]"
    "\<And>i. i \<in> set [0..<a_length arr] \<Longrightarrow> buf ! i = take (a_length arr) buf ! i"
    by simp_all
  then show ?thesis
    using buf(1) unfolding convertIntoNonFastMode_def definitions_of_def elements_def
    by (auto intro!: arg_cong [where f = concat] map_cong)
qed

lemma setArrayLength_resizes:
  assumes "array_ok arr" "isFastModeArray arr" "isLengthPropertyWritable arr" "\<forall>i. mem i = None"
    "shrinks_safely arr newLength fit" "\<not> (hole \<and> becomes_sparse arr newLength)"
  shows "\<exists>arr'. setArrayLength mem newLength fit hole arr = Returned True arr' [] \<and>
    a_length arr' = newLength \<and> elements arr' = resized newLength (elements arr) \<and>
    array_ok arr' \<and> isFastModeArray arr' \<and> isLengthPropertyWritable arr' \<and>
    array_isExtensible arr' = array_isExtensible arr"
proof -
  obtain buf where buf: "a_data arr = Some buf" "a_length arr \<le> length buf"
    "\<forall>c \<in> set (drop (a_length arr) buf). c = None" "\<And>r. a_rare arr = Some r \<Longrightarrow> r_capacity r \<le> length buf"
    using assms(1, 2) by (auto simp: array_ok.simps isFastModeArray_def split: option.splits)
  let ?fit = "fit \<or> a_length arr = 0 \<or> newLength \<le> 128"
  have el: "elements arr = take (a_length arr) buf" by (simp add: elements_def buf(1))
  have "\<exists>buf' rare'. (if ?fit then fit_storage mem (a_length arr) newLength buf (a_rare arr)
        else reserved_storage mem (a_length arr) newLength buf (a_rare arr)) = Some (buf', rare') \<and>
      newLength \<le> length buf' \<and> take newLength buf' = resized newLength (elements arr) \<and>
      (\<forall>c \<in> set (drop newLength buf'). c = None) \<and> (\<forall>r. rare' = Some r \<longrightarrow> r_capacity r \<le> length buf') \<and>
      (case rare' of None \<Rightarrow> True | Some r \<Rightarrow> r_isExtensible r) = array_isExtensible arr \<and>
      (case rare' of None \<Rightarrow> True | Some r \<Rightarrow> r_isArrayObjectLengthWritable r) = isLengthPropertyWritable arr"
  proof (cases ?fit)
    case True
    have "fit_storage mem (a_length arr) newLength buf (a_rare arr) =
        Some (resized newLength (elements arr), map_option (\<lambda>r. r\<lparr>r_capacity := 0\<rparr>) (a_rare arr))"
      unfolding el by (rule fit_storage_resizes) (use buf in auto)
    then show ?thesis
      using True by (auto simp: array_isExtensible_def isLengthPropertyWritable_def split: option.splits)
  next
    case False
    have "a_length arr \<le> newLength \<or> (\<forall>c \<in> set (drop newLength (take (a_length arr) buf)). c = None) \<and>
        (\<forall>r. a_rare arr = Some r \<longrightarrow> newLength \<le> r_capacity r)"
      using assms(5) False by (auto simp: shrinks_safely_def el split: option.splits)
    from reserved_storage_resizes [OF buf(2-4) assms(4) this] False show ?thesis
      by (auto simp: array_isExtensible_def isLengthPropertyWritable_def el)
  qed
  then obtain buf' rare' where new: "(if ?fit then fit_storage mem (a_length arr) newLength buf (a_rare arr)
        else reserved_storage mem (a_length arr) newLength buf (a_rare arr)) = Some (buf', rare')"
      "newLength \<le> length buf'" "take newLength buf' = resized newLength (elements arr)"
      "\<forall>c \<in> set (drop newLength buf'). c = None" "\<forall>r. rare' = Some r \<longrightarrow> r_capacity r \<le> length buf'"
      "(case rare' of None \<Rightarrow> True | Some r \<Rightarrow> r_isExtensible r) = array_isExtensible arr"
      "(case rare' of None \<Rightarrow> True | Some r \<Rightarrow> r_isArrayObjectLengthWritable r) = isLengthPropertyWritable arr"
    by blast
  show ?thesis
  proof (cases "a_length arr = newLength")
    case True
    then show ?thesis
      using assms buf(1, 2) by (auto simp: setArrayLength_def elements_def resized_def)
  next
    case False
    let ?arr' = "\<lparr>a_length = newLength, a_data = Some buf', a_rare = rare'\<rparr>"
    have "isLengthPropertyWritable ?arr'" using new(7) assms(3) by (simp add: isLengthPropertyWritable_def)
    moreover have "setArrayLength mem newLength fit hole arr = Returned True ?arr' []"
      using new(1) assms(2, 6) False buf(1) calculation unfolding setArrayLength_def Let_def
      by (auto split: if_splits)
    ultimately show ?thesis
      using new by (intro exI [of _ ?arr'])
        (simp add: elements_def array_ok.simps isFastModeArray_def array_isExtensible_def split: option.splits)
  qed
qed

lemma setArrayLength_sparse:
  assumes "array_ok arr" "isFastModeArray arr" "becomes_sparse arr newLength"
  shows "setArrayLength mem newLength fit True arr =
    Returned True (arr\<lparr>a_data := None, a_length := newLength\<rparr>) (definitions_of (elements arr))"
  using assms convert_definitions [OF assms(1, 2)]
  by (simp add: setArrayLength_def becomes_sparse_def)

text \<open>Numbers as lengths.\<close>

lemma toUint32_of_length:
  assumes "n < 2 ^ 32" "double_eq (double_of_int (int n)) d"
  shows "toUint32 d = n"
proof -
  have v: "double_value (double_of_int (int n)) = of_int (int n)" "d_finite (double_of_int (int n))"
    using double_of_int_value [of "int n"] assms(1) by simp_all
  have "double_value d = of_int (int n) \<and> d_finite d"
  proof (cases "d = double_of_int (int n)")
    case False
    then have z: "is_zero (double_of_int (int n))" "is_zero d" using assms(2) by (auto simp: double_eq_def)
    then have "double_value d = of_int (int n)" using zero_value [OF z(1)] zero_value [OF z(2)] v(1) by simp
    moreover have "d_finite d" using z(2) by (auto simp: is_zero_def d_finite_def d_exponent_def)
    ultimately show ?thesis by simp
  qed (use v in simp)
  then have "toInt32SlowCase d = of_int (int n)" using trunc_of_int [of "int n"] by (simp add: toInt32_modular)
  moreover have "unat (of_nat n :: u32) = n" using assms(1) by (simp add: unat_of_nat take_bit_eq_mod)
  ultimately show ?thesis by (simp add: toUint32_def)
qed

lemma toUint32_bound: "toUint32 d < 2 ^ 32"
  unfolding toUint32_def using unsigned_less [of "toInt32SlowCase d"] by simp

section \<open>Elements\<close>

definition array_state :: "array_object \<Rightarrow> bool" where
  "array_state arr \<longleftrightarrow> array_ok arr \<and> isFastModeArray arr \<and> isLengthPropertyWritable arr \<and> array_isExtensible arr"

lemma array_state_buffer:
  assumes "array_state arr"
  obtains buf where "a_data arr = Some buf" "a_length arr \<le> length buf" "elements arr = take (a_length arr) buf"
  using assms by (auto simp: array_state_def array_ok.simps isFastModeArray_def elements_def)

lemma array_state_length: "array_state arr \<Longrightarrow> length (elements arr) = a_length arr"
  by (erule array_state_buffer) simp

lemma update_cell:
  assumes "array_state arr" "a_data arr = Some buf" "idx < a_length arr"
  shows "array_state (arr\<lparr>a_data := Some (buf[idx := c])\<rparr>) \<and>
    elements (arr\<lparr>a_data := Some (buf[idx := c])\<rparr>) = (elements arr)[idx := c]"
  using assms
  by (auto simp: array_state_def array_ok.simps isFastModeArray_def isLengthPropertyWritable_def
      array_isExtensible_def elements_def take_update_swap split: option.splits)

lemma write_cell_writes:
  assumes "array_state arr" "idx < a_length arr"
  shows "\<exists>arr'. write_cell idx v arr defs = Returned True arr' defs \<and> array_state arr' \<and>
    elements arr' = (elements arr)[idx := Some v]"
proof -
  obtain buf where buf: "a_data arr = Some buf" "a_length arr \<le> length buf"
    using array_state_buffer [OF assms(1)] by blast
  then show ?thesis
    using update_cell [OF assms(1) buf(1) assms(2), of "Some v"] assms(2) by (simp add: write_cell_def)
qed

definition put_at :: "nat \<Rightarrow> jsval \<Rightarrow> cell list \<Rightarrow> cell list" where
  "put_at i v xs = (resized (max (Suc i) (length xs)) xs)[i := Some v]"

lemma put_at_inside: "i < length xs \<Longrightarrow> put_at i v xs = xs[i := Some v]"
  by (simp add: put_at_def resized_def max_def)

lemma grows_safely: "a_length arr \<le> n \<Longrightarrow> shrinks_safely arr n fit"
  by (simp add: shrinks_safely_def)

lemma grow_and_write:
  assumes "array_state arr" "a_length arr \<le> idx" "\<forall>i. mem i = None" "\<not> becomes_sparse arr (idx + 1)"
  shows "\<exists>arr1 arr'. setArrayLength mem (idx + 1) False True arr = Returned True arr1 [] \<and> isFastModeArray arr1 \<and>
    write_cell idx v arr1 [] = Returned True arr' [] \<and> array_state arr' \<and> elements arr' = put_at idx v (elements arr)"
proof -
  obtain arr1 where arr1: "setArrayLength mem (idx + 1) False True arr = Returned True arr1 []"
    "a_length arr1 = idx + 1" "elements arr1 = resized (idx + 1) (elements arr)" "array_state arr1"
    using setArrayLength_resizes [of arr mem "idx + 1" False True] assms grows_safely [of arr "idx + 1" False]
    by (auto simp: array_state_def)
  have "elements arr1 = resized (max (Suc idx) (length (elements arr))) (elements arr)"
    using arr1(3) array_state_length [OF assms(1)] assms(2) by (simp add: max_def)
  moreover obtain arr' where "write_cell idx v arr1 [] = Returned True arr' []" "array_state arr'"
    "elements arr' = (elements arr1)[idx := Some v]"
    using write_cell_writes [OF arr1(4), of idx v "[]"] arr1(2) by auto
  ultimately show ?thesis
    using arr1 by (intro exI [of _ arr1] exI [of _ arr']) (simp add: put_at_def array_state_def)
qed

lemma setIndexedProperty_puts:
  assumes "array_state arr" "\<forall>i. mem i = None" "\<not> becomes_sparse arr (idx + 1)"
  shows "\<exists>arr'. setIndexedProperty mem idx v arr = Returned True arr' [] \<and> array_state arr' \<and>
    elements arr' = put_at idx v (elements arr)"
proof (cases "a_length arr \<le> idx")
  case True
  then show ?thesis
    using grow_and_write [OF assms(1) True assms(2, 3), of v] assms(1)
    by (auto simp: setIndexedProperty_def array_state_def)
next
  case False
  then show ?thesis
    using write_cell_writes [OF assms(1), of idx v "[]"] assms(1) put_at_inside [of idx "elements arr" v]
      array_state_length [OF assms(1)]
    by (auto simp: setIndexedProperty_def array_state_def)
qed

lemma setIndexedProperty_sparse:
  assumes "array_state arr" "becomes_sparse arr (idx + 1)"
  shows "setIndexedProperty mem idx v arr = Continues (SlowSet idx v)
    (arr\<lparr>a_data := None, a_length := idx + 1\<rparr>) (definitions_of (elements arr))"
  using assms setArrayLength_sparse [of arr "idx + 1" mem False]
  by (auto simp: setIndexedProperty_def array_state_def isFastModeArray_def becomes_sparse_def)

lemma delete_element_deletes:
  assumes "array_state arr" "idx < a_length arr"
  shows "\<exists>arr'. delete_element idx arr = Returned True arr' [] \<and> array_state arr' \<and>
    elements arr' = (elements arr)[idx := None]"
proof -
  obtain buf where buf: "a_data arr = Some buf" "a_length arr \<le> length buf" "elements arr = take (a_length arr) buf"
    using array_state_buffer [OF assms(1)] by blast
  show ?thesis
  proof (cases "buf ! idx = None")
    case True
    then have "(elements arr)[idx := None] = elements arr"
      using assms(2) buf by (metis list_update_id nth_take)
    then show ?thesis using True assms buf by (simp add: delete_element_def)
  next
    case False
    then show ?thesis
      using update_cell [OF assms(1) buf(1) assms(2), of None] assms(2) buf(1, 2) by (simp add: delete_element_def)
  qed
qed

section \<open>Definition of an element\<close>

text \<open>The property at an index: all three attributes of an element in the fast mode are true.\<close>

definition property_at :: "nat \<Rightarrow> array_object \<Rightarrow> js_prop option" where
  "property_at i arr = (if i < length (elements arr) then map_option (\<lambda>v. DataProp v True True True) (elements arr ! i) else None)"

lemma alone_bits:
  assumes "isValuePresentAlone desc"
  shows "pr_isValuePresent desc" "\<not> pr_isWritablePresent desc" "\<not> pr_isEnumerablePresent desc" "\<not> pr_isConfigurablePresent desc"
  using assms unfolding isValuePresentAlone_def pr_isValuePresent_def pr_isWritablePresent_def
    pr_isEnumerablePresent_def pr_isConfigurablePresent_def
  by simp_all

lemma standard_put:
  assumes "request_ok desc" "pr_isValuePresent desc"
    "isDataWritableEnumerableConfigurable desc \<or> isValuePresentAlone desc \<and> old \<noteq> None"
    "old = None \<or> old = Some (DataProp w True True True)"
  shows "validate_and_apply True old (spec_of_request desc) = (True, Some (DataProp (pr_value desc) True True True))"
proof -
  note ok = request_okD [OF assms(1)]
  have data: "pr_isDataProperty desc" using ok(2) assms(2) by blast
  show ?thesis
    using assms(3)
  proof
    assume "isDataWritableEnumerableConfigurable desc"
    then show ?thesis
      using assms(4) ok data
      by (auto simp: isDataWritableEnumerableConfigurable_def spec_of_request_def create_desc_def sd_isAccessor_def)
  next
    assume "isValuePresentAlone desc \<and> old \<noteq> None"
    then show ?thesis
      using assms(4) ok data alone_bits [of desc]
      by (auto simp: spec_of_request_def create_desc_def sd_isAccessor_def)
  qed
qed

lemma length_put_at [simp]: "length (put_at i v xs) = max (length xs) (Suc i)"
  by (simp add: put_at_def max.commute)

lemma nth_put_at:
  "j < length (put_at i v xs) \<Longrightarrow> put_at i v xs ! j = (if j = i then Some v else if j < length xs then xs ! j else None)"
  by (auto simp: put_at_def resized_def nth_append nth_list_update max_def split: if_splits)

lemma property_put:
  assumes "elements arr' = put_at idx v (elements arr)"
  shows "property_at idx arr' = Some (DataProp v True True True)" "j \<noteq> idx \<Longrightarrow> property_at j arr' = property_at j arr"
  using assms by (auto simp: property_at_def nth_put_at)

lemma define_puts:
  assumes "array_state arr" "\<forall>i. mem i = None" "pr_isValuePresent desc"
    "isDataWritableEnumerableConfigurable desc \<or> isValuePresentAlone desc \<and> property_at idx arr \<noteq> None"
    "\<not> becomes_sparse arr (idx + 1)"
  shows "\<exists>arr'. define_element mem idx desc arr = Returned True arr' [] \<and> array_state arr' \<and>
    elements arr' = put_at idx (pr_value desc) (elements arr)"
proof -
  obtain buf where buf: "a_data arr = Some buf" "a_length arr \<le> length buf" "elements arr = take (a_length arr) buf"
    using array_state_buffer [OF assms(1)] by blast
  have present: "property_at idx arr \<noteq> None \<longleftrightarrow> idx < a_length arr \<and> buf ! idx \<noteq> None"
    using buf by (auto simp: property_at_def)
  have ext: "array_isExtensible arr" using assms(1) by (simp add: array_state_def)
  show ?thesis
  proof (cases "a_length arr \<le> idx")
    case True
    obtain arr1 arr' where w: "setArrayLength mem (idx + 1) False True arr = Returned True arr1 []" "isFastModeArray arr1"
      "write_cell idx (pr_value desc) arr1 [] = Returned True arr' []" "array_state arr'"
      "elements arr' = put_at idx (pr_value desc) (elements arr)"
      using grow_and_write [OF assms(1) True assms(2, 5), of "pr_value desc"] by blast
    have "isDataWritableEnumerableConfigurable desc" using assms(4) present True by auto
    then have "define_element mem idx desc arr = Returned True arr' []"
      using True w(1-3) ext assms(3) buf(1) by (simp add: define_element_def)
    then show ?thesis using w(4, 5) by simp
  next
    case False
    then obtain arr' where w: "write_cell idx (pr_value desc) arr [] = Returned True arr' []" "array_state arr'"
      "elements arr' = (elements arr)[idx := Some (pr_value desc)]"
      using write_cell_writes [OF assms(1), of idx "pr_value desc" "[]"] by auto
    have "define_element mem idx desc arr = Returned True arr' []"
      using False w(1) assms(3, 4) present buf(1) by (auto simp: define_element_def)
    then show ?thesis
      using w False put_at_inside [of idx "elements arr"] array_state_length [OF assms(1)] by simp
  qed
qed

lemma define_leaves:
  assumes "array_state arr"
    "\<not> (pr_isValuePresent desc \<and> (isDataWritableEnumerableConfigurable desc \<or> isValuePresentAlone desc \<and> property_at idx arr \<noteq> None))
      \<or> becomes_sparse arr (idx + 1)"
  shows "\<exists>arr'. define_element mem idx desc arr = Continues (SlowDefine idx desc) arr' (definitions_of (elements arr)) \<and>
    \<not> isFastModeArray arr'"
proof -
  obtain buf where buf: "a_data arr = Some buf" "a_length arr \<le> length buf" "elements arr = take (a_length arr) buf"
    using array_state_buffer [OF assms(1)] by blast
  have present: "property_at idx arr \<noteq> None \<longleftrightarrow> idx < a_length arr \<and> buf ! idx \<noteq> None"
    using buf by (auto simp: property_at_def)
  have st: "array_ok arr" "isFastModeArray arr" "array_isExtensible arr" using assms(1) by (simp_all add: array_state_def)
  show ?thesis
  proof (cases "\<not> (pr_isValuePresent desc \<and> (isDataWritableEnumerableConfigurable desc \<or>
      isValuePresentAlone desc \<and> property_at idx arr \<noteq> None))")
    case True
    then show ?thesis
      using present buf(1) convert_definitions [OF st(1, 2)]
      by (auto simp: define_element_def isFastModeArray_def Let_def)
  next
    case False
    then have sparse: "becomes_sparse arr (idx + 1)" using assms(2) by blast
    then have "a_length arr \<le> idx" by (simp add: becomes_sparse_def)
    then show ?thesis
      using False present buf(1) st(3) setArrayLength_sparse [OF st(1, 2) sparse, of mem False]
      by (auto simp: define_element_def isFastModeArray_def)
  qed
qed

text \<open>
  C11. Defining an element of a fast array does what \<^verbatim>\<open>ValidateAndApplyPropertyDescriptor\<close> of the standard
  does, leaves the other elements alone, extends the length as needed and stays inside the buffer.
  When the request does not fit the fast mode, all elements become properties of the object in
  order, and the request goes on as it is.
\<close>

theorem define_element_follows_standard:
  assumes "array_state arr" "request_ok desc" "\<forall>i. mem i = None"
  shows "case define_element mem idx desc arr of
      Returned b arr' defs \<Rightarrow> b \<and> defs = [] \<and> array_state arr' \<and>
        validate_and_apply True (property_at idx arr) (spec_of_request desc) = (True, property_at idx arr') \<and>
        (\<forall>j. j \<noteq> idx \<longrightarrow> property_at j arr' = property_at j arr) \<and>
        a_length arr' = max (a_length arr) (idx + 1)
    | Continues call arr' defs \<Rightarrow> call = SlowDefine idx desc \<and> \<not> isFastModeArray arr' \<and>
        defs = definitions_of (elements arr) \<and>
        (becomes_sparse arr (idx + 1) \<or> \<not> isDataWritableEnumerableConfigurable desc)
    | _ \<Rightarrow> False"
proof -
  let ?fits = "pr_isValuePresent desc \<and> (isDataWritableEnumerableConfigurable desc \<or>
      isValuePresentAlone desc \<and> property_at idx arr \<noteq> None)"
  show ?thesis
  proof (cases "?fits \<and> \<not> becomes_sparse arr (idx + 1)")
    case True
    then obtain arr' where r: "define_element mem idx desc arr = Returned True arr' []" "array_state arr'"
      "elements arr' = put_at idx (pr_value desc) (elements arr)"
      using define_puts [OF assms(1, 3), of desc idx] by blast
    have "property_at idx arr = None \<or> (\<exists>w. property_at idx arr = Some (DataProp w True True True))"
      by (auto simp: property_at_def)
    then have "validate_and_apply True (property_at idx arr) (spec_of_request desc) =
        (True, Some (DataProp (pr_value desc) True True True))"
      using standard_put [OF assms(2)] True by metis
    then show ?thesis
      using r property_put [OF r(3)] array_state_length [OF r(2)] array_state_length [OF assms(1)] by simp
  next
    case False
    then obtain arr' where "define_element mem idx desc arr = Continues (SlowDefine idx desc) arr' (definitions_of (elements arr))"
      "\<not> isFastModeArray arr'"
      using define_leaves [OF assms(1), of desc idx mem] by blast
    moreover have "becomes_sparse arr (idx + 1) \<or> \<not> isDataWritableEnumerableConfigurable desc"
      using False by (auto simp: isDataWritableEnumerableConfigurable_def)
    ultimately show ?thesis by simp
  qed
qed

section \<open>Sequences of operations\<close>

text \<open>
  What a script does to the elements of an array: an assignment to an index, the deletion of an
  element, and an assignment of a number to \<^verbatim>\<open>length\<close>.
\<close>

text \<open>
  The request that \<^verbatim>\<open>Object.defineProperty(a, "length", {value: n})\<close> makes; the number that its
  value converts to is handed to \<open>define_length\<close> beside it.
\<close>

definition value_only :: prop_request where
  "value_only = \<lparr>pr_property = 0x80, pr_payload = ValuePayload VUndefined\<rparr>"

lemma value_only_alone: "isValuePresentAlone value_only" "pr_isDataProperty value_only"
  by (simp_all add: value_only_def isValuePresentAlone_def pr_isDataProperty_def)

datatype array_event = Put nat jsval | Remove nat | Resize nat | DefineLength nat

definition number :: "nat \<Rightarrow> u64" where
  "number n = double_of_int (int n)"

fun array_step :: "(nat \<Rightarrow> cell) \<Rightarrow> array_event \<Rightarrow> array_object \<Rightarrow> array_result" where
  "array_step mem (Put i v) arr = setIndexedProperty mem i v arr"
| "array_step mem (Remove i) arr = delete_element i arr"
| "array_step mem (Resize n) arr = setArrayLength_value mem True (number n) (number n) arr"
| "array_step mem (DefineLength n) arr = define_length mem value_only (number n) (number n) arr"

text \<open>
  A run stops when the array leaves the fast mode; \<open>rest\<close> are the events that are left. The only
  operation that goes on in the object while the array stays in the fast mode is the deletion of an
  index behind the elements, which the object does not have.
\<close>

fun array_run :: "(nat \<Rightarrow> cell) \<Rightarrow> array_event list \<Rightarrow> array_object \<Rightarrow>
    (array_object \<times> (nat \<times> jsval) list \<times> array_event list) option" where
  "array_run mem [] arr = Some (arr, [], [])"
| "array_run mem (e # es) arr =
     (case array_step mem e arr of
        HeapError \<Rightarrow> None
      | RangeError \<Rightarrow> array_run mem es arr
      | Returned b arr' defs \<Rightarrow> if isFastModeArray arr' then array_run mem es arr' else Some (arr', defs, es)
      | Continues call arr' defs \<Rightarrow> if isFastModeArray arr' then array_run mem es arr' else Some (arr', defs, es))"

fun list_step :: "cell list \<Rightarrow> array_event \<Rightarrow> cell list" where
  "list_step xs (Put i v) = put_at i v xs"
| "list_step xs (Remove i) = xs[i := None]"
| "list_step xs (Resize n) = resized n xs"
| "list_step xs (DefineLength n) = resized n xs"

text \<open>
  Lengths are 32-bit numbers. A definition of \<^verbatim>\<open>length\<close> makes the array longer, or not longer than 128
  elements: one that cuts an array down to more than 128 elements may write behind the buffer.
\<close>

fun event_ok :: "cell list \<Rightarrow> array_event \<Rightarrow> bool" where
  "event_ok xs (Resize n) \<longleftrightarrow> n < 2 ^ 32"
| "event_ok xs (DefineLength n) \<longleftrightarrow> n < 2 ^ 32 \<and> (length xs \<le> n \<or> n \<le> 128)"
| "event_ok xs _ \<longleftrightarrow> True"

fun events_ok :: "cell list \<Rightarrow> array_event list \<Rightarrow> bool" where
  "events_ok xs [] \<longleftrightarrow> True"
| "events_ok xs (e # es) \<longleftrightarrow> event_ok xs e \<and> events_ok (list_step xs e) es"

lemma number_of_length:
  assumes "n < 2 ^ 32"
  shows "toUint32 (number n) = n" "\<not> differs_from_number n (number n)"
proof -
  have "d_finite (double_of_int (int n))" using double_of_int_value [of "int n"] assms by simp
  then have "\<not> is_nan (double_of_int (int n))" by (metis d_finite_def nan_exponent)
  then have eq: "double_eq (double_of_int (int n)) (number n)" by (simp add: double_eq_def number_def)
  then show "toUint32 (number n) = n" using assms by (intro toUint32_of_length)
  show "\<not> differs_from_number n (number n)" using eq by (simp add: differs_from_number_def)
qed

lemma setArrayLength_value_number:
  assumes "n < 2 ^ 32"
  shows "setArrayLength_value mem True (number n) (number n) arr = setArrayLength mem n True True arr"
  using number_of_length [OF assms] by (simp add: setArrayLength_value_def)

lemma define_length_value:
  assumes "isValuePresentAlone desc" "pr_isDataProperty desc" "n < 2 ^ 32" "isLengthPropertyWritable arr" "a_length arr \<noteq> n"
  shows "define_length mem desc (number n) (number n) arr = setArrayLength mem n False True arr"
  using assms(2-5) alone_bits [OF assms(1)] number_of_length [OF assms(3)]
  by (simp add: define_length_def pr_isAccessorDescriptor_def Let_def)

lemma array_step_cases:
  assumes "array_state arr" "\<forall>i. mem i = None" "event_ok (elements arr) e"
  shows "(\<exists>arr'. (array_step mem e arr = Returned True arr' [] \<or> (\<exists>call. array_step mem e arr = Continues call arr' [])) \<and>
      array_state arr' \<and> elements arr' = list_step (elements arr) e) \<or>
    (\<exists>arr' defs. (array_step mem e arr = Returned True arr' defs \<or> (\<exists>call. array_step mem e arr = Continues call arr' defs)) \<and>
      \<not> isFastModeArray arr' \<and> defs = definitions_of (elements arr) \<and> a_length arr' = length (list_step (elements arr) e))"
proof (cases e)
  case (Put i v)
  show ?thesis
  proof (cases "becomes_sparse arr (i + 1)")
    case True
    then have "length (elements arr) \<le> i" using array_state_length [OF assms(1)] by (simp add: becomes_sparse_def)
    then show ?thesis
      using setIndexedProperty_sparse [OF assms(1) True, of mem v] Put by (simp add: isFastModeArray_def max_def)
  next
    case False
    then show ?thesis using setIndexedProperty_puts [OF assms(1, 2) False, of v] Put by (intro disjI1) auto
  qed
next
  case (Remove i)
  show ?thesis
  proof (cases "i < a_length arr")
    case True
    then show ?thesis using delete_element_deletes [OF assms(1) True] Remove by (intro disjI1) auto
  next
    case False
    then have "(elements arr)[i := None] = elements arr"
      using array_state_length [OF assms(1)] by (intro list_update_beyond) simp
    then show ?thesis
      using False Remove assms(1) by (auto simp: delete_element_def split: option.splits)
  qed
next
  case (Resize n)
  then have step: "array_step mem e arr = setArrayLength mem n True True arr"
    using assms(3) by (simp add: setArrayLength_value_number)
  show ?thesis
  proof (cases "becomes_sparse arr n")
    case True
    then show ?thesis
      using setArrayLength_sparse [of arr n mem True] assms(1) Resize step by (simp add: array_state_def isFastModeArray_def)
  next
    case False
    then show ?thesis
      using setArrayLength_resizes [of arr mem n True True] assms(1, 2) Resize step
      by (auto simp: array_state_def shrinks_safely_def)
  qed
next
  case (DefineLength n)
  show ?thesis
  proof (cases "a_length arr = n")
    case True
    then have "array_step mem e arr = Returned True arr []"
      using DefineLength assms(1, 3) alone_bits [OF value_only_alone(1)] number_of_length [of n] value_only_alone(2)
      by (simp add: define_length_def pr_isAccessorDescriptor_def array_state_def Let_def)
    then show ?thesis
      using True DefineLength assms(1) array_state_length [OF assms(1)] by (intro disjI1) (auto simp: resized_def)
  next
    case other: False
    then have step: "array_step mem e arr = setArrayLength mem n False True arr"
      using DefineLength assms(1, 3) define_length_value [OF value_only_alone] by (simp add: array_state_def)
    show ?thesis
    proof (cases "becomes_sparse arr n")
      case True
      then show ?thesis
        using setArrayLength_sparse [of arr n mem False] assms(1) DefineLength step by (simp add: array_state_def isFastModeArray_def)
    next
      case False
      have "shrinks_safely arr n False"
        using DefineLength assms(3) array_state_length [OF assms(1)] by (auto simp: shrinks_safely_def)
      then show ?thesis
        using setArrayLength_resizes [of arr mem n False True] False assms(1, 2) DefineLength step
        by (auto simp: array_state_def)
    qed
  qed
qed

text \<open>
  C7. A fast array behaves as the list of its elements under every sequence of assignments to
  indices, deletions, assignments to \<^verbatim>\<open>length\<close> and definitions of \<^verbatim>\<open>length\<close> by a value: nothing is read
  or written outside the buffer, and when the array leaves the fast mode the elements it had are
  defined as properties, in order. Excluded is a definition of \<^verbatim>\<open>length\<close> that cuts the array down to
  a length above 128; \<open>shrinking_overflows_buffer\<close> and \<open>cut_elements_reappear\<close> below show what it does.
\<close>

theorem array_refines_list:
  assumes "array_state arr" "\<forall>i. mem i = None" "events_ok (elements arr) events"
  shows "\<exists>past rest arr' defs. events = past @ rest \<and> array_run mem events arr = Some (arr', defs, rest) \<and>
    (if isFastModeArray arr'
     then rest = [] \<and> array_state arr' \<and> elements arr' = foldl list_step (elements arr) past
     else \<exists>es e. past = es @ [e] \<and> defs = definitions_of (foldl list_step (elements arr) es) \<and>
       a_length arr' = length (foldl list_step (elements arr) past))"
  using assms(1, 3)
proof (induction events arbitrary: arr)
  case Nil
  then show ?case by (simp add: array_state_def)
next
  case (Cons e events)
  have ok: "event_ok (elements arr) e" "events_ok (list_step (elements arr) e) events" using Cons.prems(2) by simp_all
  have stay: ?case if run: "array_run mem (e # events) arr = array_run mem events arr1"
    and st: "array_state arr1" "elements arr1 = list_step (elements arr) e" for arr1
  proof -
    obtain past rest arr' defs where IH: "events = past @ rest" "array_run mem events arr1 = Some (arr', defs, rest)"
      "if isFastModeArray arr'
       then rest = [] \<and> array_state arr' \<and> elements arr' = foldl list_step (elements arr1) past
       else \<exists>es e. past = es @ [e] \<and> defs = definitions_of (foldl list_step (elements arr1) es) \<and>
         a_length arr' = length (foldl list_step (elements arr1) past)"
      using Cons.IH [OF st(1)] ok(2) st(2) by metis
    have "if isFastModeArray arr'
       then rest = [] \<and> array_state arr' \<and> elements arr' = foldl list_step (elements arr) (e # past)
       else \<exists>es e'. e # past = es @ [e'] \<and> defs = definitions_of (foldl list_step (elements arr) es) \<and>
         a_length arr' = length (foldl list_step (elements arr) (e # past))"
      using IH(3) st(2) by (auto intro: exI [of _ "e # _"] split: if_splits)
    then show ?thesis
      using IH(1, 2) run by (intro exI [of _ "e # past"] exI [of _ rest] exI [of _ arr'] exI [of _ defs]) simp
  qed
  show ?case
    using array_step_cases [OF Cons.prems(1) assms(2) ok(1)]
  proof (elim disjE exE conjE)
    fix arr1 defs
    assume "array_step mem e arr = Returned True arr1 defs" "\<not> isFastModeArray arr1"
      "defs = definitions_of (elements arr)" "a_length arr1 = length (list_step (elements arr) e)"
    then show ?thesis by (intro exI [of _ "[e]"] exI [of _ events]) simp
  next
    fix arr1 defs call
    assume "array_step mem e arr = Continues call arr1 defs" "\<not> isFastModeArray arr1"
      "defs = definitions_of (elements arr)" "a_length arr1 = length (list_step (elements arr) e)"
    then show ?thesis by (intro exI [of _ "[e]"] exI [of _ events]) simp
  next
    fix arr1
    assume "array_step mem e arr = Returned True arr1 []" "array_state arr1" "elements arr1 = list_step (elements arr) e"
    then show ?thesis by (intro stay [of arr1]) (simp_all add: array_state_def)
  next
    fix arr1 call
    assume "array_step mem e arr = Continues call arr1 []" "array_state arr1" "elements arr1 = list_step (elements arr) e"
    then show ?thesis by (intro stay [of arr1]) (simp_all add: array_state_def)
  qed
qed

section \<open>Numbers that are lengths\<close>

lemma setArrayLength_no_range_error: "setArrayLength mem n fit hole arr \<noteq> RangeError"
proof -
  obtain a defs where a: "(if isFastModeArray arr \<and> hole \<and> becomes_sparse arr n
      then convertIntoNonFastMode arr else (arr, [])) = (a, defs)" by fastforce
  show ?thesis
  proof (cases "a_data a")
    case None
    then show ?thesis unfolding setArrayLength_def a by simp
  next
    case (Some buf)
    show ?thesis
    proof (cases "if fit \<or> a_length a = 0 \<or> n \<le> 128 then fit_storage mem (a_length a) n buf (a_rare a)
        else reserved_storage mem (a_length a) n buf (a_rare a)")
      case None
      then show ?thesis using Some unfolding setArrayLength_def a Let_def by (simp only: option.case prod.case) simp
    next
      case storage: (Some st)
      then show ?thesis
        using Some unfolding setArrayLength_def a Let_def
        by (simp only: option.case prod.case) (simp split: prod.split)
    qed
  qed
qed

text \<open>
  C34. An assignment to \<^verbatim>\<open>length\<close> throws a range error exactly for the numbers that are no integers from
  0 to \<open>2 ^ 32 - 1\<close>.
\<close>

theorem length_must_be_uint32:
  "setArrayLength_value mem isPrimitiveValue num num arr = RangeError \<longleftrightarrow>
     (\<nexists>n. n < 2 ^ 32 \<and> double_eq (double_of_int (int n)) num)"
proof -
  have "differs_from_number (toUint32 num) num \<longleftrightarrow> (\<nexists>n. n < 2 ^ 32 \<and> double_eq (double_of_int (int n)) num)"
    using toUint32_bound [of num] toUint32_of_length [of _ num] by (auto simp: differs_from_number_def)
  then show ?thesis
    using setArrayLength_no_range_error by (auto simp: setArrayLength_value_def Let_def)
qed

section \<open>Defects of the buffer\<close>

lemma setArrayLength_storage:
  assumes "array_state arr" "a_data arr = Some buf" "a_length arr \<noteq> n" "\<not> becomes_sparse arr n"
    "(if fit \<or> a_length arr = 0 \<or> n \<le> 128 then fit_storage mem (a_length arr) n buf (a_rare arr)
      else reserved_storage mem (a_length arr) n buf (a_rare arr)) = Some (buf', rare')"
    "isLengthPropertyWritable \<lparr>a_length = n, a_data = Some buf', a_rare = rare'\<rparr>"
  shows "setArrayLength mem n fit True arr = Returned True \<lparr>a_length = n, a_data = Some buf', a_rare = rare'\<rparr> []"
  using assms unfolding setArrayLength_def Let_def by (auto split: if_splits)

lemma reserved_storage_overflow:
  assumes "r_capacity r = 0" "0 < n" "2 * n < oldLength"
  shows "reserved_storage mem oldLength n buf (Some r) = None"
proof -
  let ?new = "if r_expandCount r \<ge> 3 then reserve_log2 n else reserve_percent_130 n"
  have "?new < oldLength" using reserve_log2_bounds(2) [of n] reserve_percent_130_bounds(2) [of n] assms(3) by auto
  then have "copy_cells (gc_malloc mem ?new) buf oldLength = None" by (simp add: copy_cells_def)
  then show ?thesis using assms(1, 2) by (simp add: reserved_storage_def Let_def)
qed

lemma array_state_rare:
  assumes "array_state arr" "a_rare arr = Some r"
  shows "r_isArrayObjectLengthWritable r" "r_isExtensible r"
  using assms by (simp_all add: array_state_def isLengthPropertyWritable_def array_isExtensible_def)

lemma fit_forgets_capacity:
  assumes "array_state arr" "a_rare arr = Some r" "a_length arr \<noteq> n" "\<not> becomes_sparse arr n"
  shows "\<exists>arr' r'. setArrayLength mem n True True arr = Returned True arr' [] \<and> array_state arr' \<and> a_length arr' = n \<and>
    a_rare arr' = Some r' \<and> r_capacity r' = 0"
proof -
  obtain buf where buf: "a_data arr = Some buf" "a_length arr \<le> length buf"
    "\<forall>c \<in> set (drop (a_length arr) buf). c = None" "r_capacity r \<le> length buf"
    using assms(1, 2) by (auto simp: array_state_def array_ok.simps isFastModeArray_def)
  let ?r = "r\<lparr>r_capacity := 0\<rparr>"
  let ?buf = "resized n (take (a_length arr) buf)"
  let ?arr = "\<lparr>a_length = n, a_data = Some ?buf, a_rare = Some ?r\<rparr>"
  have "fit_storage mem (a_length arr) n buf (a_rare arr) = Some (?buf, Some ?r)"
    using fit_storage_resizes [of "a_length arr" buf "a_rare arr" mem n] buf assms(2) by simp
  moreover have "isLengthPropertyWritable ?arr" "array_state ?arr"
    using array_state_rare [OF assms(1, 2)]
    by (simp_all add: array_state_def array_ok.simps isFastModeArray_def isLengthPropertyWritable_def array_isExtensible_def)
  ultimately show ?thesis
    using setArrayLength_storage [OF assms(1) buf(1) assms(3, 4), of True mem ?buf "Some ?r"]
    by (intro exI [of _ ?arr] exI [of _ ?r]) simp
qed

lemma reserved_has_rare:
  "reserved_storage mem oldLength n buf rare = Some (buf', rare') \<Longrightarrow> \<exists>r. rare' = Some r"
  by (auto simp: reserved_storage_def Let_def split: option.splits if_splits)

lemma append_has_rare:
  assumes "array_state arr" "128 < a_length arr" "\<forall>i. mem i = None" "\<not> becomes_sparse arr (a_length arr + 1)"
  shows "\<exists>arr' r. setIndexedProperty mem (a_length arr) v arr = Returned True arr' [] \<and> array_state arr' \<and>
    a_length arr' = a_length arr + 1 \<and> a_rare arr' = Some r"
proof -
  obtain arr1 where arr1: "setArrayLength mem (a_length arr + 1) False True arr = Returned True arr1 []"
    "isFastModeArray arr1" "a_length arr1 = a_length arr + 1" "array_state arr1"
    using setArrayLength_resizes [of arr mem "a_length arr + 1" False True] assms grows_safely [of arr "a_length arr + 1" False]
    by (auto simp: array_state_def)
  obtain buf where buf: "a_data arr = Some buf" using array_state_buffer [OF assms(1)] by blast
  have "\<exists>y. reserved_storage mem (a_length arr) (a_length arr + 1) buf (a_rare arr) = Some (y, a_rare arr1)"
    using arr1(1, 2) buf assms(2, 4) unfolding setArrayLength_def Let_def
    by (auto simp: convertIntoNonFastMode_def isFastModeArray_def split: option.splits if_splits)
  then have "\<exists>r. a_rare arr1 = Some r" by (elim exE reserved_has_rare)
  moreover obtain buf1 where buf1: "a_data arr1 = Some buf1" "a_length arr1 \<le> length buf1"
    using array_state_buffer [OF arr1(4)] by blast
  ultimately show ?thesis
    using arr1 assms(1) update_cell [OF arr1(4) buf1(1), of "a_length arr" "Some v"]
    by (auto simp: setIndexedProperty_def array_state_def write_cell_def)
qed

text \<open>
  A defect. An array of more than 128 elements gets one element more (which records the capacity
  of the buffer), then \<^verbatim>\<open>length\<close> is assigned a larger number (which resets the recorded capacity to
  0), then \<^verbatim>\<open>Object.defineProperty\<close> makes the array shorter than half. The code takes the recorded
  0 for the capacity, allocates a buffer for the new length, and copies all old elements into it.
\<close>

theorem shrinking_overflows_buffer:
  assumes "array_state arr" "\<forall>i. mem i = None" "128 < a_length arr" "a_length arr + 1 < m" "m \<le> 2 ^ 20"
    "128 < n" "2 * n < m" "isValuePresentAlone desc" "pr_isDataProperty desc"
  shows "\<exists>arr1 arr2. setIndexedProperty mem (a_length arr) v arr = Returned True arr1 [] \<and>
    setArrayLength_value mem True (number m) (number m) arr1 = Returned True arr2 [] \<and>
    array_state arr2 \<and> define_length mem desc (number n) (number n) arr2 = HeapError"
proof -
  obtain arr1 r1 where arr1: "setIndexedProperty mem (a_length arr) v arr = Returned True arr1 []" "array_state arr1"
    "a_length arr1 = a_length arr + 1" "a_rare arr1 = Some r1"
    using append_has_rare [OF assms(1, 3, 2), of v] assms(4, 5) by (auto simp: becomes_sparse_def)
  obtain arr2 r2 where arr2: "setArrayLength mem m True True arr1 = Returned True arr2 []" "array_state arr2"
    "a_length arr2 = m" "a_rare arr2 = Some r2" "r_capacity r2 = 0"
    using fit_forgets_capacity [OF arr1(2, 4), of m mem] arr1(3) assms(4, 5) by (auto simp: becomes_sparse_def)
  obtain buf where buf: "a_data arr2 = Some buf" using array_state_buffer [OF arr2(2)] by blast
  have "setArrayLength mem n False True arr2 = HeapError"
    using reserved_storage_overflow [OF arr2(5), of n m mem buf] arr2(3, 4) buf assms(6, 7)
    by (simp add: setArrayLength_def becomes_sparse_def)
  moreover have "define_length mem desc (number n) (number n) arr2 = setArrayLength mem n False True arr2"
    using assms(5-9) arr2(2, 3) by (intro define_length_value) (simp_all add: array_state_def)
  ultimately show ?thesis
    using arr1(1) arr2(1, 2) setArrayLength_value_number [of m mem arr1] assms(5)
    by (intro exI [of _ arr1] exI [of _ arr2]) simp
qed

text \<open>
  A defect. When \<^verbatim>\<open>Object.defineProperty\<close> makes an array with recorded capacity shorter and an
  assignment to \<^verbatim>\<open>length\<close> makes it as long as before, the elements that were cut off are back: the
  first leaves them in the buffer and the second does not clear cells below the capacity.
\<close>

theorem cut_elements_reappear:
  assumes "array_state arr" "a_rare arr = Some r" "a_length arr \<le> r_capacity r" "a_length arr \<le> 2 ^ 20"
    "128 < n" "n < a_length arr" "isValuePresentAlone desc" "pr_isDataProperty desc"
  shows "\<exists>arr1 arr2. define_length mem desc (number n) (number n) arr = Returned True arr1 [] \<and> a_length arr1 = n \<and>
    setArrayLength_value mem True (number (a_length arr)) (number (a_length arr)) arr1 = Returned True arr2 [] \<and>
    elements arr2 = elements arr"
proof -
  obtain buf where buf: "a_data arr = Some buf" "a_length arr \<le> length buf" "elements arr = take (a_length arr) buf"
    using array_state_buffer [OF assms(1)] by blast
  define arr1 where "arr1 = \<lparr>a_length = n, a_data = Some buf, a_rare = Some r\<rparr>"
  have w: "isLengthPropertyWritable arr1" using array_state_rare [OF assms(1, 2)] by (simp add: arr1_def isLengthPropertyWritable_def)
  have "reserved_storage mem (a_length arr) n buf (a_rare arr) = Some (buf, Some r)"
    using assms(2, 3, 6) by (simp add: reserved_storage_def Let_def clear_cells_none)
  then have "setArrayLength mem n False True arr = Returned True arr1 []"
    using setArrayLength_storage [OF assms(1) buf(1), of n False mem buf "Some r"] assms(5, 6) w
    by (simp add: becomes_sparse_def arr1_def)
  moreover have "define_length mem desc (number n) (number n) arr = setArrayLength mem n False True arr"
    using assms by (intro define_length_value) (simp_all add: array_state_def)
  moreover have "setArrayLength mem (a_length arr) True True arr1 = Returned True
      \<lparr>a_length = a_length arr, a_data = Some (take (a_length arr) buf), a_rare = Some (r\<lparr>r_capacity := 0\<rparr>)\<rparr> []"
    using assms(3, 4, 6) buf(2) array_state_rare [OF assms(1, 2)]
    by (simp add: setArrayLength_def arr1_def isFastModeArray_def becomes_sparse_def fit_storage_def Let_def
        gc_realloc_def isLengthPropertyWritable_def)
  ultimately show ?thesis
    using setArrayLength_value_number [of "a_length arr" mem arr1] assms(4) buf(3)
    by (simp add: elements_def arr1_def)
qed

text \<open>
  A defect. \<^verbatim>\<open>Object.defineProperty\<close> can make \<^verbatim>\<open>length\<close> of a fast array read only without taking the
  array out of the fast mode, and the assignment of a number to \<^verbatim>\<open>length\<close> does not look at the
  attribute: the length changes all the same.
\<close>

theorem read_only_length_changes:
  assumes "array_state arr" "\<forall>i. mem i = None" "n \<noteq> a_length arr" "n \<le> 2 ^ 20" "pr_property desc = 0x10" "pr_isDataProperty desc"
  shows "\<exists>arr1 arr2 defs. define_length mem desc num1 num2 arr = Returned True arr1 [] \<and> isFastModeArray arr1 \<and>
    \<not> isLengthPropertyWritable arr1 \<and>
    setArrayLength_value mem True (number n) (number n) arr1 = Returned True arr2 defs \<and> a_length arr2 = n"
proof -
  define arr1 where "arr1 = arr\<lparr>a_rare := Some ((ensureRareData arr)\<lparr>r_isArrayObjectLengthWritable := False\<rparr>)\<rparr>"
  have d: "define_length mem desc num1 num2 arr = Returned True arr1 []"
    using assms(1, 5, 6)
    by (simp add: define_length_def arr1_def array_state_def pr_isValuePresent_def pr_isConfigurablePresent_def
        pr_isEnumerablePresent_def pr_isWritablePresent_def pr_isWritable_def pr_isAccessorDescriptor_def)
  obtain buf where buf: "a_data arr = Some buf" "a_length arr \<le> length buf"
    "\<forall>c \<in> set (drop (a_length arr) buf). c = None" "\<And>r. a_rare arr = Some r \<Longrightarrow> r_capacity r \<le> length buf"
    using assms(1) by (auto simp: array_state_def array_ok.simps isFastModeArray_def split: option.splits)
  have "\<And>r. a_rare arr1 = Some r \<Longrightarrow> r_capacity r \<le> length buf"
    using buf(4) by (auto simp: arr1_def ensureRareData_def new_rare_data_def split: option.splits)
  then have "fit_storage mem (a_length arr1) n buf (a_rare arr1) =
      Some (resized n (take (a_length arr) buf), map_option (\<lambda>r. r\<lparr>r_capacity := 0\<rparr>) (a_rare arr1))"
    using fit_storage_resizes [of "a_length arr" buf "a_rare arr1" mem n] buf by (simp add: arr1_def)
  then have "\<exists>arr2 defs. setArrayLength mem n True True arr1 = Returned True arr2 defs \<and> a_length arr2 = n"
    using buf(1) assms(3, 4)
    by (simp add: setArrayLength_def arr1_def isFastModeArray_def becomes_sparse_def isLengthPropertyWritable_def
        convertIntoNonFastMode_def)
  then show ?thesis
    using d buf(1) setArrayLength_value_number [of n mem arr1] assms(4)
    by (auto simp: arr1_def isFastModeArray_def isLengthPropertyWritable_def)
qed

section \<open>Examples\<close>

definition holes :: "nat \<Rightarrow> array_object" where
  "holes n = \<lparr>a_length = n, a_data = Some (replicate n None), a_rare = None\<rparr>"

lemma holes_state: "array_state (holes n)"
  by (simp add: holes_def array_state_def array_ok.simps isFastModeArray_def isLengthPropertyWritable_def array_isExtensible_def)

theorem define_element_follows_standard_witness:
  "case define_element (\<lambda>_. None) 2 (data_request VNull 0xE) (new_array False) of
      Returned b arr' defs \<Rightarrow> b \<and> defs = [] \<and> array_state arr' \<and>
        validate_and_apply True None (spec_of_request (data_request VNull 0xE)) = (True, property_at 2 arr')
    | _ \<Rightarrow> False"
proof -
  have ok: "array_state (new_array False)" "a_length (new_array False) = 0"
    by (simp_all add: new_array_def array_state_def array_ok.simps isFastModeArray_def isLengthPropertyWritable_def array_isExtensible_def)
  have req: "request_ok (data_request VNull 0xE)" "isDataWritableEnumerableConfigurable (data_request VNull 0xE)"
    by (simp_all add: request_ok_def data_request_def isDataWritableEnumerableConfigurable_def pr_isDataProperty_def
        pr_isValuePresent_def pr_isWritable_def pr_isEnumerable_def pr_isConfigurable_def pr_getter_def pr_setter_def pr_value_def
        pr_isWritablePresent_def checkProperty_def request_defs bit_simps)
  have "property_at 2 (new_array False) = None" by (simp add: property_at_def new_array_def elements_def)
  then show ?thesis
    using define_element_follows_standard [OF ok(1) req(1), of "\<lambda>_. None" 2] ok(2) req(2)
    by (simp add: becomes_sparse_def split: array_result.splits)
qed

theorem array_refines_list_witness:
  "\<exists>past rest arr' defs. [Put 1 VNull, Resize 3, DefineLength 5, Put 4 VNull, DefineLength 2, Remove 1] = past @ rest \<and>
    array_run (\<lambda>_. None) [Put 1 VNull, Resize 3, DefineLength 5, Put 4 VNull, DefineLength 2, Remove 1] (holes 2) = Some (arr', defs, rest) \<and>
    (if isFastModeArray arr'
     then rest = [] \<and> array_state arr' \<and> elements arr' = foldl list_step (elements (holes 2)) past
     else \<exists>es e. past = es @ [e] \<and> defs = definitions_of (foldl list_step (elements (holes 2)) es) \<and>
       a_length arr' = length (foldl list_step (elements (holes 2)) past))"
  by (rule array_refines_list [OF holes_state]) (simp_all add: holes_def elements_def put_at_def resized_def)

theorem shrinking_overflows_buffer_witness:
  "\<exists>arr1 arr2. setIndexedProperty (\<lambda>_. None) 200 VNull (holes 200) = Returned True arr1 [] \<and>
    setArrayLength_value (\<lambda>_. None) True (number 1000) (number 1000) arr1 = Returned True arr2 [] \<and>
    define_length (\<lambda>_. None) value_only (number 300) (number 300) arr2 = HeapError"
  using shrinking_overflows_buffer [OF holes_state [of 200], of "\<lambda>_. None" 1000 300 value_only VNull] value_only_alone
  by (auto simp: holes_def)

theorem cut_elements_reappear_witness:
  "let arr = \<lparr>a_length = 300, a_data = Some (replicate 300 (Some VNull)), a_rare = Some (new_rare_data\<lparr>r_capacity := 300\<rparr>)\<rparr> in
   \<exists>arr1 arr2. define_length (\<lambda>_. None) value_only (number 200) (number 200) arr = Returned True arr1 [] \<and> a_length arr1 = 200 \<and>
    setArrayLength_value (\<lambda>_. None) True (number 300) (number 300) arr1 = Returned True arr2 [] \<and> elements arr2 = elements arr"
  using cut_elements_reappear [of "\<lparr>a_length = 300, a_data = Some (replicate 300 (Some VNull)),
      a_rare = Some (new_rare_data\<lparr>r_capacity := 300\<rparr>)\<rparr>" "new_rare_data\<lparr>r_capacity := 300\<rparr>" 200 value_only "\<lambda>_. None"]
    value_only_alone
  by (simp add: array_state_def array_ok.simps isFastModeArray_def isLengthPropertyWritable_def array_isExtensible_def new_rare_data_def)

theorem read_only_length_changes_witness:
  "\<exists>arr1 arr2 defs. define_length (\<lambda>_. None) (generic_request 0x10) 0 0 (holes 5) = Returned True arr1 [] \<and>
    \<not> isLengthPropertyWritable arr1 \<and>
    setArrayLength_value (\<lambda>_. None) True (number 0) (number 0) arr1 = Returned True arr2 defs \<and> a_length arr2 = 0"
  using read_only_length_changes [OF holes_state [of 5], of "\<lambda>_. None" 0 "generic_request 0x10" 0 0]
  by (auto simp: holes_def generic_request_def pr_isDataProperty_def)

end
