(* ===== verification/Array_Sort.thy ===== *)
theory Array_Sort
  imports Merge_Sort Array_Object
begin

text \<open>
  \<^verbatim>\<open>ArrayObject::sort\<close>: the elements of a fast array are copied, sorted, and written back. The
  comparator runs code of the script, which may change the array meanwhile: the array is a part
  of the state \<open>'s\<close> of the comparator, read by \<open>get\<close> and replaced by \<open>put\<close>.
\<close>

datatype 's sort_outcome =
    SortHeapError
  | SortThrows 's
  | SortSlow 's
  | SortDone 's "(nat \<times> jsval) list"
  | SortSlowShrink nat 's "(nat \<times> jsval) list"

definition write_back :: "cell list \<Rightarrow> array_object \<Rightarrow> array_object option" where
  "write_back tempBuffer arr =
     (case a_data arr of
        None \<Rightarrow> Some arr
      | Some buf \<Rightarrow> if length tempBuffer \<le> length buf
          then Some (arr\<lparr>a_data := Some (tempBuffer @ drop (length tempBuffer) buf)\<rparr>) else None)"

definition array_sort :: "(nat \<Rightarrow> cell) \<Rightarrow> ('s \<Rightarrow> array_object) \<Rightarrow> (array_object \<Rightarrow> 's \<Rightarrow> 's) \<Rightarrow>
    (cell, 's) comp_fun \<Rightarrow> nat \<Rightarrow> 's \<Rightarrow> 's sort_outcome" where
  "array_sort mem get put cfn orgLength s =
     (case a_data (get s) of
        None \<Rightarrow> SortSlow s
      | Some buf \<Rightarrow>
          if orgLength = 0 then SortDone s []
          else if length buf < orgLength then SortHeapError
          else (case mergeSort cfn (take orgLength buf) orgLength (gc_malloc mem orgLength) s of
              Inl (Stopped, s1) \<Rightarrow> SortThrows s1
            | Inl (OutOfBounds, s1) \<Rightarrow> SortHeapError
            | Inr (tempBuffer, s1) \<Rightarrow>
                (case (if a_length (get s1) \<noteq> orgLength then setArrayLength mem orgLength False True (get s1)
                       else Returned True (get s1) []) of
                   Returned b arr defs \<Rightarrow> (case write_back tempBuffer arr of
                       None \<Rightarrow> SortHeapError
                     | Some arr' \<Rightarrow> SortDone (put arr' s1) defs)
                 | Continues call arr defs \<Rightarrow> SortSlowShrink orgLength (put arr s1) defs
                 | _ \<Rightarrow> SortHeapError)))"

text \<open>
  What is asked of a comparison function: after it the array is in the slow mode, or it is a fast
  array that the call of \<^verbatim>\<open>setArrayLength\<close> behind the sort gives its old length again inside the
  buffer. The function must not make a long array so short that its old length counts as sparse;
  and when it makes the array longer than it was, with an old length above 128, the elements it
  added must be holes and the recorded capacity, if any, must be no smaller than the old length.
  Without the latter that call is the one of \<open>shrinking_overflows_buffer\<close>.
\<close>

definition sort_state :: "('s \<Rightarrow> array_object) \<Rightarrow> nat \<Rightarrow> 's \<Rightarrow> bool" where
  "sort_state get orgLength s \<longleftrightarrow> \<not> isFastModeArray (get s) \<or>
     array_state (get s) \<and> shrinks_safely (get s) orgLength False \<and> \<not> becomes_sparse (get s) orgLength"

lemma write_back_writes:
  assumes "array_state arr" "length xs = a_length arr"
  shows "\<exists>arr'. write_back xs arr = Some arr' \<and> array_state arr' \<and> elements arr' = xs"
proof -
  obtain buf where buf: "a_data arr = Some buf" "a_length arr \<le> length buf"
    using array_state_buffer [OF assms(1)] by blast
  then have "write_back xs arr = Some (arr\<lparr>a_data := Some (xs @ drop (length xs) buf)\<rparr>)"
    using assms(2) by (simp add: write_back_def)
  moreover have "array_state (arr\<lparr>a_data := Some (xs @ drop (length xs) buf)\<rparr>)"
    using assms buf by (auto simp: array_state_def array_ok.simps isFastModeArray_def isLengthPropertyWritable_def
        array_isExtensible_def split: option.splits)
  ultimately show ?thesis using assms(2) by (simp add: elements_def)
qed

lemma restored_length:
  assumes "sort_state get n s" "isFastModeArray (get s)" "\<forall>i. mem i = None"
  shows "\<exists>arr. (if a_length (get s) \<noteq> n then setArrayLength mem n False True (get s) else Returned True (get s) []) =
      Returned True arr [] \<and> array_state arr \<and> a_length arr = n"
  using assms setArrayLength_resizes [of "get s" mem n False True]
  by (auto simp: sort_state_def array_state_def)

lemma slow_length:
  assumes "\<not> isFastModeArray arr"
  shows "setArrayLength mem n False True arr =
    (if n < a_length arr then Continues (SlowShrink n) arr [] else Returned True (arr\<lparr>a_length := n\<rparr>) [])"
  using assms by (simp add: setArrayLength_def isFastModeArray_def)

lemma sort_writes_back:
  assumes "array_state (get s)" "0 < a_length (get s)" "\<forall>i. mem i = None"
    "mergeSort cfn (elements (get s)) (a_length (get s)) (gc_malloc mem (a_length (get s))) s = Inr (xs, s1)"
    "length xs = a_length (get s)" "sort_state get (a_length (get s)) s1" "isFastModeArray (get s1)"
  shows "\<exists>arr'. array_sort mem get put cfn (a_length (get s)) s = SortDone (put arr' s1) [] \<and>
    array_state arr' \<and> elements arr' = xs"
proof -
  obtain buf where buf: "a_data (get s) = Some buf" "a_length (get s) \<le> length buf"
    "elements (get s) = take (a_length (get s)) buf"
    using array_state_buffer [OF assms(1)] by blast
  obtain arr where arr: "(if a_length (get s1) \<noteq> a_length (get s) then setArrayLength mem (a_length (get s)) False True (get s1)
      else Returned True (get s1) []) = Returned True arr []" "array_state arr" "a_length arr = a_length (get s)"
    using restored_length [OF assms(6, 7, 3)] by blast
  obtain arr' where w: "write_back xs arr = Some arr'" "array_state arr'" "elements arr' = xs"
    using write_back_writes [OF arr(2), of xs] assms(5) arr(3) by auto
  have "array_sort mem get put cfn (a_length (get s)) s = SortDone (put arr' s1) []"
    using assms(2, 4) buf w(1) arr(1) by (auto simp: array_sort_def split: if_splits)
  then show ?thesis using w(2, 3) by blast
qed

text \<open>
  C16. Whatever a comparison function answers, sorting a fast array never leaves its buffers, and an
  array that is still fast afterwards holds exactly the elements it had before. The function may
  also throw and change the array in any way that leaves it in a \<open>sort_state\<close>: in the slow mode, or
  fast and able to get its old length back. A function that makes the array longer, without
  leaving such a state, is excluded: then the code may write behind the buffer.
\<close>

theorem array_sort_keeps_elements:
  assumes "array_state (get s)" "\<And>a t. get (put a t) = a" "\<forall>i. mem i = None"
    "keeps_state (sort_state get (a_length (get s))) cfn"
  shows "case array_sort mem get put cfn (a_length (get s)) s of
      SortHeapError \<Rightarrow> False
    | SortThrows s' \<Rightarrow> sort_state get (a_length (get s)) s'
    | SortSlow s' \<Rightarrow> False
    | SortDone s' defs \<Rightarrow> isFastModeArray (get s') \<longrightarrow>
        array_state (get s') \<and> mset (elements (get s')) = mset (elements (get s))
    | SortSlowShrink n s' defs \<Rightarrow> \<not> isFastModeArray (get s')"
proof -
  let ?n = "a_length (get s)"
  obtain buf where buf: "a_data (get s) = Some buf" "?n \<le> length buf" "elements (get s) = take ?n buf"
    using array_state_buffer [OF assms(1)] by blast
  have start: "sort_state get ?n s"
    using assms(1) by (simp add: sort_state_def shrinks_safely_def becomes_sparse_def)
  let ?r = "mergeSort cfn (take ?n buf) ?n (gc_malloc mem ?n) s"
  have perm: "case ?r of Inl (e, s') \<Rightarrow> e = Stopped | Inr (xs, s') \<Rightarrow> mset xs = mset (take ?n buf)"
    by (rule mergeSort_permutes) (simp_all add: buf(2))
  have kept: "sort_state get ?n (result_state ?r)"
    by (rule mergeSort_keeps_state [OF assms(4) start]) (simp_all add: buf(2))
  show ?thesis
  proof (cases "?n = 0")
    case True
    then show ?thesis using assms(1) buf(1) by (simp add: array_sort_def)
  next
    case False
    show ?thesis
    proof (cases ?r)
      case (Inl e)
      then show ?thesis
        using perm kept False buf(1, 2) by (cases e) (simp add: array_sort_def)
    next
      case (Inr p)
      obtain xs s1 where p: "p = (xs, s1)" by (cases p)
      have xs: "mset xs = mset (take ?n buf)" "sort_state get ?n s1" using perm kept Inr p by simp_all
      then have len: "length xs = ?n" using buf(2) by (metis length_take min.absorb2 size_mset)
      show ?thesis
      proof (cases "isFastModeArray (get s1)")
        case True
        then obtain arr' where "array_sort mem get put cfn ?n s = SortDone (put arr' s1) []"
          "array_state arr'" "elements arr' = xs"
          using sort_writes_back [of get s mem cfn xs s1 put] assms(1, 3) False Inr p buf(3) len xs(2) by auto
        then show ?thesis using xs(1) buf(3) assms(2) by simp
      next
        case slow: False
        then have "write_back xs arr = Some arr" if "\<not> isFastModeArray arr" for arr
          using that by (simp add: write_back_def isFastModeArray_def)
        then show ?thesis
          using slow slow_length [OF slow, of mem ?n] Inr p False buf(1, 2) assms(2)
          by (simp add: array_sort_def isFastModeArray_def)
      qed
    qed
  qed
qed

text \<open>
  C15. Sorting a fast array without a comparison function, when conversion to a string neither throws
  nor has effects: the values come first, in the lexicographic order of their strings and with
  equal strings in their old order, then the undefined elements, then the holes.
\<close>

theorem array_sort_orders_by_string:
  assumes "array_state (get s)" "\<And>a t. get (put a t) = a" "\<forall>i. mem i = None" "\<forall>v. length (str v) < 2 ^ 32"
  shows "\<exists>s' vs. array_sort mem get put (sort_less (default_less (\<lambda>v t. (Some (str v), t)))) (a_length (get s)) s = SortDone s' [] \<and>
    array_state (get s') \<and>
    elements (get s') = map Some vs @ replicate (count_list (elements (get s)) (Some VUndefined)) (Some VUndefined)
      @ replicate (count_list (elements (get s)) None) None \<and>
    mset vs = mset (proper_values (elements (get s))) \<and> sorted_wrt (\<lambda>v w. str v \<le> str w) vs \<and>
    (\<forall>t. filter (\<lambda>v. str v = t) vs = filter (\<lambda>v. str v = t) (proper_values (elements (get s))))"
proof (cases "a_length (get s) = 0")
  case True
  obtain buf where "a_data (get s) = Some buf" "elements (get s) = take (a_length (get s)) buf"
    using array_state_buffer [OF assms(1)] by blast
  then show ?thesis
    using True assms(1) by (intro exI [of _ s] exI [of _ "[]"]) (simp add: array_sort_def proper_values_def)
next
  case False
  let ?n = "a_length (get s)" and ?less = "sort_less (default_less (\<lambda>v t. (Some (str v), t))) :: (cell, 'a) comp_fun"
  have len: "length (elements (get s)) = ?n" using assms(1) by (rule array_state_length)
  obtain vs where vs: "mergeSort ?less (elements (get s)) ?n (gc_malloc mem ?n) s =
      Inr (map Some vs @ replicate (count_list (elements (get s)) (Some VUndefined)) (Some VUndefined)
        @ replicate (count_list (elements (get s)) None) None, s)"
    "mset vs = mset (proper_values (elements (get s)))" "sorted_wrt (\<lambda>v w. str v \<le> str w) vs"
    "\<forall>t. filter (\<lambda>v. str v = t) vs = filter (\<lambda>v. str v = t) (proper_values (elements (get s)))"
    using default_sort_orders_by_string [of "gc_malloc mem ?n" "elements (get s)" str s] assms(4) len by auto
  let ?xs = "map Some vs @ replicate (count_list (elements (get s)) (Some VUndefined)) (Some VUndefined)
        @ replicate (count_list (elements (get s)) None) None"
  have "case mergeSort ?less (elements (get s)) ?n (gc_malloc mem ?n) s of
      Inl (e, s') \<Rightarrow> e = Stopped | Inr (xs, s') \<Rightarrow> mset xs = mset (elements (get s))"
    by (rule mergeSort_permutes) (simp_all add: len)
  then have "length ?xs = ?n" using vs(1) len by (metis (mono_tags, lifting) case_prod_conv old.sum.simps(6) size_mset)
  moreover have "sort_state get ?n s" "isFastModeArray (get s)"
    using assms(1) by (simp_all add: sort_state_def array_state_def shrinks_safely_def becomes_sparse_def)
  ultimately obtain arr' where "array_sort mem get put ?less ?n s = SortDone (put arr' s) []" "array_state arr'" "elements arr' = ?xs"
    using sort_writes_back [of get s mem ?less ?xs s put] assms(1, 3) False vs(1) by auto
  then show ?thesis using vs(2-4) assms(2) by (intro exI [of _ "put arr' s"] exI [of _ vs]) simp
qed

text \<open>
  A defect. When the comparator takes the array out of the fast mode (by giving an element an
  attribute, say), the result of the sort is thrown away: the array stays as the comparator left it.
\<close>

theorem slow_array_is_not_sorted:
  assumes "array_state (get s)" "0 < a_length (get s)" "a_length (get s1) = a_length (get s)" "\<not> isFastModeArray (get s1)"
    "mergeSort cfn (elements (get s)) (a_length (get s)) (gc_malloc mem (a_length (get s))) s = Inr (xs, s1)"
  shows "array_sort mem get put cfn (a_length (get s)) s = SortDone (put (get s1) s1) []"
proof -
  obtain buf where buf: "a_data (get s) = Some buf" "a_length (get s) \<le> length buf"
    "elements (get s) = take (a_length (get s)) buf"
    using array_state_buffer [OF assms(1)] by blast
  have "write_back xs (get s1) = Some (get s1)" using assms(4) by (simp add: write_back_def isFastModeArray_def)
  then show ?thesis using assms(2, 3, 5) buf by (simp add: array_sort_def)
qed

section \<open>Examples\<close>

text \<open>The array \<^verbatim>\<open>["b", undefined, , "a"]\<close>, and a comparison function that empties the array it sorts.\<close>

definition letters :: array_object where
  "letters = \<lparr>a_length = 4, a_data = Some [Some (VString [98]), Some VUndefined, None, Some (VString [97])], a_rare = None\<rparr>"

lemma letters_state:
  "array_state letters" "a_length letters = 4"
  "elements letters = [Some (VString [98]), Some VUndefined, None, Some (VString [97])]"
  by (simp_all add: letters_def array_state_def array_ok.simps isFastModeArray_def isLengthPropertyWritable_def
      array_isExtensible_def elements_def)

definition emptying :: "(cell, array_object) comp_fun" where
  "emptying = (\<lambda>a b arr. (Some (a = None), holes 0))"

lemma emptying_keeps: "keeps_state (sort_state id 4) emptying"
  using holes_state [of 0]
  by (simp add: keeps_state_def emptying_def sort_state_def shrinks_safely_def becomes_sparse_def holes_def)

theorem array_sort_keeps_elements_witness:
  "case array_sort (\<lambda>_. None) id (\<lambda>a _. a) emptying 4 letters of
      SortHeapError \<Rightarrow> False
    | SortThrows s' \<Rightarrow> sort_state id 4 s'
    | SortSlow s' \<Rightarrow> False
    | SortDone s' defs \<Rightarrow> isFastModeArray s' \<longrightarrow> array_state s' \<and> mset (elements s') = mset (elements letters)
    | SortSlowShrink n s' defs \<Rightarrow> \<not> isFastModeArray s'"
  using array_sort_keeps_elements [of id letters "\<lambda>a _. a" "\<lambda>_. None" emptying] letters_state(1, 2) emptying_keeps
  by (auto split: sort_outcome.splits)

theorem array_sort_orders_by_string_witness:
  "\<exists>arr'. array_sort (\<lambda>_. None) id (\<lambda>a _. a)
      (sort_less (default_less (\<lambda>v t. (Some (case v of VString u \<Rightarrow> take 9 u | _ \<Rightarrow> []), t)))) 4 letters = SortDone arr' [] \<and>
    elements arr' = [Some (VString [97]), Some (VString [98]), Some VUndefined, None]"
proof -
  let ?str = "\<lambda>v. case v of VString u \<Rightarrow> take 9 u | _ \<Rightarrow> []"
  have "length (?str v) < 2 ^ 32" for v :: jsval by (cases v) (simp_all add: min_def)
  then obtain arr' vs where r: "array_sort (\<lambda>_. None) id (\<lambda>a _. a) (sort_less (default_less (\<lambda>v t. (Some (?str v), t)))) 4 letters = SortDone arr' []"
    "elements arr' = map Some vs @ [Some VUndefined, None]" "mset vs = {#VString [98], VString [97]#}"
    "sorted_wrt (\<lambda>v w. ?str v \<le> ?str w) vs"
    using array_sort_orders_by_string [of id letters "\<lambda>a _. a" "\<lambda>_. None" ?str] letters_state
    by (auto simp: proper_values_def)
  have "vs = [VString [98], VString [97]] \<or> vs = [VString [97], VString [98]]"
    using r(3) by (cases vs rule: remdups_adj.cases) (auto simp: add_eq_conv_ex)
  then have "vs = [VString [97], VString [98]]" using r(4) by auto
  then show ?thesis using r(1, 2) by simp
qed

end
