(* ===== verification/Proxy_Object.thy ===== *)
theory Proxy_Object
  imports Define_Own_Property
begin

text \<open>
  Proxies (\<^verbatim>\<open>runtime/ProxyObject.cpp\<close>): every internal method looks up a trap of the handler, calls
  it, and checks its answer against the target, so that a script can rely on what an object says
  of its non-configurable properties and of its extensibility. The handler and its traps are code
  of the script; the target is given by what its own methods observe.
\<close>

section \<open>The world of a proxy\<close>

text \<open>
  \<open>w_method\<close> is \<^verbatim>\<open>GetMethod\<close> on the handler and \<open>w_call\<close> the call of a trap; both may throw (\<open>Inl\<close>)
  and change the state. \<open>w_own\<close>, \<open>w_extensible\<close>, \<open>w_prototype\<close> and \<open>w_keys\<close> are what the target answers
  to \<^verbatim>\<open>getOwnProperty\<close>, \<^verbatim>\<open>isExtensible\<close>, \<^verbatim>\<open>getPrototype\<close> and \<^verbatim>\<open>ownPropertyKeys\<close>; the target is no proxy,
  so these neither throw nor run code. \<open>w_getter\<close> calls a getter, \<open>w_native\<close> reads a native property.
  \<open>w_same_word\<close> is \<^verbatim>\<open>Value::operator==\<close>, which compares two strings by their address. The other
  four convert descriptors and lists from and to objects of the script.
\<close>

type_synonym 's step = "'s \<Rightarrow> (jsval + jsval) \<times> 's"

record 's world =
  w_method :: "string \<Rightarrow> 's step"
  w_call :: "jsval \<Rightarrow> jsval list \<Rightarrow> 's step"
  w_target :: jsval
  w_own :: "'s \<Rightarrow> property_key \<Rightarrow> get_result"
  w_extensible :: "'s \<Rightarrow> bool"
  w_prototype :: "'s \<Rightarrow> jsval"
  w_keys :: "'s \<Rightarrow> property_key list"
  w_getter :: "jsval option \<Rightarrow> 's step"
  w_native :: "'s \<Rightarrow> get_result \<Rightarrow> jsval"
  w_same_word :: "jsval \<Rightarrow> jsval \<Rightarrow> bool"
  w_fromDescriptor :: "prop_request \<Rightarrow> 's \<Rightarrow> jsval \<times> 's"
  w_toDescriptor :: "jsval \<Rightarrow> 's \<Rightarrow> (jsval + prop_request) \<times> 's"
  w_keyList :: "jsval \<Rightarrow> 's \<Rightarrow> (jsval + property_key list) \<times> 's"
  w_array :: "jsval list \<Rightarrow> 's \<Rightarrow> jsval \<times> 's"

text \<open>An internal method throws, forwards the call to the target as it is, or answers.\<close>

datatype 'a proxy_result = TypeError | Throws jsval | Forward | Answer 'a

type_synonym ('a, 's) proxy_method = "'s \<Rightarrow> 'a proxy_result \<times> 's"

fun key_value :: "property_key \<Rightarrow> jsval" where
  "key_value (KString cs) = VString cs"
| "key_value (KSymbol a) = VSymbol a"

fun toBoolean :: "jsval \<Rightarrow> bool" where
  "toBoolean (VBool b) = b"
| "toBoolean (VNumber d) = (if is_nan d then False else if is_zero d then False else True)"
| "toBoolean VUndefined = False"
| "toBoolean VNull = False"
| "toBoolean (VString s) = (length s \<noteq> 0)"
| "toBoolean (VBigInt i) = (i \<noteq> 0)"
| "toBoolean _ = True"

fun is_object :: "jsval \<Rightarrow> bool" where
  "is_object (VObject _) = True"
| "is_object _ = False"

text \<open>The beginning of every method; \<open>revoked\<close> says that the handler is null.\<close>

definition call_trap :: "'s world \<Rightarrow> bool \<Rightarrow> string \<Rightarrow> ('s \<Rightarrow> jsval list \<times> 's) \<Rightarrow>
    (jsval \<Rightarrow> ('a, 's) proxy_method) \<Rightarrow> ('a, 's) proxy_method" where
  "call_trap w revoked name args k s =
     (if revoked then (TypeError, s)
      else case w_method w name s of
        (Inl e, s1) \<Rightarrow> (Throws e, s1)
      | (Inr trap, s1) \<Rightarrow>
          if trap = VUndefined then (Forward, s1)
          else
            let (arguments, s2) = args s1 in
            case w_call w trap arguments s2 of (Inl e, s3) \<Rightarrow> (Throws e, s3) | (Inr v, s3) \<Rightarrow> k v s3)"

fun gr_isData :: "get_result \<Rightarrow> bool" where
  "gr_isData (AccessorResult _ _ _ _) = False"
| "gr_isData _ = True"

fun gr_isWritable :: "get_result \<Rightarrow> bool" where
  "gr_isWritable (DataResult _ wr _ _) = wr"
| "gr_isWritable (NativeResult _ _ _ wr _ _) = wr"
| "gr_isWritable _ = False"

fun gr_isEnumerable :: "get_result \<Rightarrow> bool" where
  "gr_isEnumerable (DataResult _ _ en _) = en"
| "gr_isEnumerable (NativeResult _ _ _ _ en _) = en"
| "gr_isEnumerable (AccessorResult _ _ en _) = en"
| "gr_isEnumerable NoProperty = False"

fun gr_getter :: "get_result \<Rightarrow> jsval option" where
  "gr_getter (AccessorResult g _ _ _) = g"
| "gr_getter _ = None"

fun gr_setter :: "get_result \<Rightarrow> jsval option" where
  "gr_setter (AccessorResult _ s _ _) = s"
| "gr_setter _ = None"

fun data_value :: "'s world \<Rightarrow> 's \<Rightarrow> get_result \<Rightarrow> jsval" where
  "data_value w s (DataResult v _ _ _) = v"
| "data_value w s NoProperty = VUndefined"
| "data_value w s r = w_native w s r"

fun read_value :: "'s world \<Rightarrow> get_result \<Rightarrow> 's step" where
  "read_value w (AccessorResult g _ _ _) s = w_getter w g s"
| "read_value w r s = (Inr (data_value w s r), s)"

section \<open>Compatibility of descriptors\<close>

definition or_undefined :: "jsval option \<Rightarrow> jsval" where
  "or_undefined p = (case p of None \<Rightarrow> VUndefined | Some v \<Rightarrow> v)"

definition isCompatiblePropertyDescriptor :: "'s world \<Rightarrow> 's \<Rightarrow> bool \<Rightarrow> prop_request \<Rightarrow> get_result \<Rightarrow> bool" where
  "isCompatiblePropertyDescriptor w s ext desc current =
     (if \<not> gr_hasValue current then ext
      else if \<not> gr_isConfigurable current \<and> pr_isConfigurable desc then False
      else if \<not> gr_isConfigurable current \<and> pr_isEnumerablePresent desc \<and>
        pr_isEnumerable desc \<noteq> gr_isEnumerable current then False
      else if pr_isGenericDescriptor desc then True
      else if gr_isData current \<noteq> pr_isDataDescriptor desc then gr_isConfigurable current
      else if gr_isData current \<and> pr_isDataDescriptor desc then
        if \<not> gr_isConfigurable current then
          if \<not> gr_isWritable current \<and> pr_isWritable desc then False
          else if \<not> gr_isWritable current \<and> pr_isValuePresent desc \<and>
            \<not> same_value (pr_value desc) (data_value w s current) then False
          else True
        else True
      else if \<not> gr_isData current \<and> pr_isAccessorDescriptor desc then
        if \<not> gr_isConfigurable current then
          if pr_setter desc \<noteq> None \<and> \<not> w_same_word w (or_undefined (pr_setter desc)) (or_undefined (gr_setter current)) then False
          else if pr_getter desc \<noteq> None \<and> \<not> w_same_word w (or_undefined (pr_getter desc)) (or_undefined (gr_getter current)) then False
          else True
        else True
      else True)"

section \<open>The internal methods\<close>

definition proxy_defineOwnProperty :: "'s world \<Rightarrow> bool \<Rightarrow> property_key \<Rightarrow> prop_request \<Rightarrow> (bool, 's) proxy_method" where
  "proxy_defineOwnProperty w revoked P desc =
     call_trap w revoked ''defineProperty''
       (\<lambda>s. let (descObj, s') = w_fromDescriptor w desc s in ([w_target w, key_value P, descObj], s')) (\<lambda>v s.
        if \<not> toBoolean v then (Answer False, s)
        else
          let targetDesc = w_own w s P;
              extensibleTarget = w_extensible w s;
              settingConfigFalse = pr_isConfigurablePresent desc \<and> \<not> pr_isConfigurable desc
          in if \<not> gr_hasValue targetDesc then
               if \<not> extensibleTarget \<or> settingConfigFalse then (TypeError, s) else (Answer True, s)
             else if \<not> isCompatiblePropertyDescriptor w s extensibleTarget desc targetDesc \<or>
                 settingConfigFalse \<and> gr_isConfigurable targetDesc then (TypeError, s)
             else if gr_isData targetDesc \<and> \<not> gr_isConfigurable targetDesc \<and> gr_isWritable targetDesc \<and>
                 pr_isWritablePresent desc \<and> \<not> pr_isWritable desc then (TypeError, s)
             else (Answer True, s))"

definition proxy_deleteOwnProperty :: "'s world \<Rightarrow> bool \<Rightarrow> property_key \<Rightarrow> (bool, 's) proxy_method" where
  "proxy_deleteOwnProperty w revoked P =
     call_trap w revoked ''deleteProperty'' (\<lambda>s. ([w_target w, key_value P], s)) (\<lambda>v s.
       if \<not> toBoolean v then (Answer False, s)
       else
         let targetDesc = w_own w s P in
         case read_value w targetDesc s of
           (Inl e, s1) \<Rightarrow> (Throws e, s1)
         | (Inr u, s1) \<Rightarrow>
             if u = VUndefined then (Answer True, s1)
             else if \<not> gr_isConfigurable targetDesc then (TypeError, s1)
             else if \<not> w_extensible w s1 then (TypeError, s1)
             else (Answer True, s1))"

text \<open>The property a complete descriptor describes.\<close>

definition result_of_request :: "prop_request \<Rightarrow> get_result" where
  "result_of_request d =
     (if pr_isDataDescriptor d then DataResult (pr_value d) (pr_isWritable d) (pr_isEnumerable d) (pr_isConfigurable d)
      else AccessorResult (pr_getter d) (pr_setter d) (pr_isEnumerable d) (pr_isConfigurable d))"

definition proxy_getOwnProperty :: "'s world \<Rightarrow> bool \<Rightarrow> property_key \<Rightarrow> (get_result, 's) proxy_method" where
  "proxy_getOwnProperty w revoked P =
     call_trap w revoked ''getOwnPropertyDescriptor'' (\<lambda>s. ([w_target w, key_value P], s)) (\<lambda>trapResultObj s.
       if \<not> is_object trapResultObj \<and> trapResultObj \<noteq> VUndefined then (TypeError, s)
       else
         let targetDesc = w_own w s P in
         if trapResultObj = VUndefined then
           (case read_value w targetDesc s of
              (Inl e, s1) \<Rightarrow> (Throws e, s1)
            | (Inr u, s1) \<Rightarrow>
                if u = VUndefined then (Answer NoProperty, s1)
                else if \<not> gr_isConfigurable targetDesc then (TypeError, s1)
                else if \<not> w_extensible w s1 then (TypeError, s1)
                else (Answer NoProperty, s1))
         else (case w_toDescriptor w trapResultObj s of
             (Inl e, s1) \<Rightarrow> (Throws e, s1)
           | (Inr d, s1) \<Rightarrow>
               let resultDesc = completePropertyDescriptor d in
               if \<not> isCompatiblePropertyDescriptor w s1 (w_extensible w s1) resultDesc targetDesc then (TypeError, s1)
               else if \<not> pr_isConfigurable resultDesc \<and> (\<not> gr_hasValue targetDesc \<or> gr_isConfigurable targetDesc) then (TypeError, s1)
               else if \<not> pr_isConfigurable resultDesc \<and> pr_isWritablePresent resultDesc \<and> \<not> pr_isWritable resultDesc \<and>
                   gr_isWritable targetDesc then (TypeError, s1)
               else (Answer (result_of_request resultDesc), s1)))"

definition proxy_preventExtensions :: "'s world \<Rightarrow> bool \<Rightarrow> (bool, 's) proxy_method" where
  "proxy_preventExtensions w revoked =
     call_trap w revoked ''preventExtensions'' (\<lambda>s. ([w_target w], s)) (\<lambda>v s.
       if toBoolean v \<and> w_extensible w s then (TypeError, s) else (Answer (toBoolean v), s))"

definition proxy_hasProperty :: "'s world \<Rightarrow> bool \<Rightarrow> property_key \<Rightarrow> (bool, 's) proxy_method" where
  "proxy_hasProperty w revoked P =
     call_trap w revoked ''has'' (\<lambda>s. ([w_target w, key_value P], s)) (\<lambda>v s.
       let targetDesc = w_own w s P in
       if \<not> toBoolean v \<and> gr_hasValue targetDesc \<and> \<not> gr_isConfigurable targetDesc then (TypeError, s)
       else if \<not> toBoolean v \<and> gr_hasValue targetDesc \<and> \<not> w_extensible w s then (TypeError, s)
       else (Answer (toBoolean v), s))"

text \<open>The search for a key, which removes every occurrence from the unchecked keys.\<close>

fun check_keys :: "property_key list \<Rightarrow> property_key list \<Rightarrow> property_key list option" where
  "check_keys [] unchecked = Some unchecked"
| "check_keys (key # keys) unchecked =
     (if \<exists>k \<in> set unchecked. k = key then check_keys keys (filter (\<lambda>k. k \<noteq> key) unchecked) else None)"

fun has_duplicates :: "property_key list \<Rightarrow> bool" where
  "has_duplicates [] = False"
| "has_duplicates (k # ks) = ((\<exists>k' \<in> set ks. k = k') \<or> has_duplicates ks)"

definition proxy_ownPropertyKeys :: "'s world \<Rightarrow> bool \<Rightarrow> (property_key list, 's) proxy_method" where
  "proxy_ownPropertyKeys w revoked =
     call_trap w revoked ''ownKeys'' (\<lambda>s. ([w_target w], s)) (\<lambda>trapResultArray s.
       case w_keyList w trapResultArray s of
         (Inl e, s1) \<Rightarrow> (Throws e, s1)
       | (Inr trapResult, s1) \<Rightarrow>
           if has_duplicates trapResult then (TypeError, s1)
           else
             let extensibleTarget = w_extensible w s1;
                 targetKeys = w_keys w s1;
                 nonconfigurable = (\<lambda>key. gr_hasValue (w_own w s1 key) \<and> \<not> gr_isConfigurable (w_own w s1 key));
                 targetNonconfigurableKeys = filter nonconfigurable targetKeys;
                 targetConfigurableKeys = filter (\<lambda>key. \<not> nonconfigurable key) targetKeys
             in if extensibleTarget \<and> length targetNonconfigurableKeys = 0 then (Answer trapResult, s1)
                else case check_keys targetNonconfigurableKeys trapResult of
                  None \<Rightarrow> (TypeError, s1)
                | Some unchecked \<Rightarrow>
                    if extensibleTarget then (Answer trapResult, s1)
                    else (case check_keys targetConfigurableKeys unchecked of
                        None \<Rightarrow> (TypeError, s1)
                      | Some unchecked' \<Rightarrow>
                          if length unchecked' \<noteq> 0 then (TypeError, s1) else (Answer trapResult, s1)))"

definition proxy_isExtensible :: "'s world \<Rightarrow> bool \<Rightarrow> (bool, 's) proxy_method" where
  "proxy_isExtensible w revoked =
     call_trap w revoked ''isExtensible'' (\<lambda>s. ([w_target w], s)) (\<lambda>v s.
       if w_extensible w s \<noteq> toBoolean v then (TypeError, s) else (Answer (toBoolean v), s))"

definition proxy_setPrototype :: "'s world \<Rightarrow> bool \<Rightarrow> jsval \<Rightarrow> (bool, 's) proxy_method" where
  "proxy_setPrototype w revoked V =
     call_trap w revoked ''setPrototypeOf'' (\<lambda>s. ([w_target w, V], s)) (\<lambda>v s.
       if \<not> toBoolean v then (Answer False, s)
       else if w_extensible w s then (Answer True, s)
       else if \<not> w_same_word w V (w_prototype w s) then (TypeError, s)
       else (Answer True, s))"

definition proxy_getPrototype :: "'s world \<Rightarrow> bool \<Rightarrow> (jsval, 's) proxy_method" where
  "proxy_getPrototype w revoked =
     call_trap w revoked ''getPrototypeOf'' (\<lambda>s. ([w_target w], s)) (\<lambda>handlerProto s.
       if \<not> is_object handlerProto \<and> handlerProto \<noteq> VNull then (TypeError, s)
       else if w_extensible w s then (Answer handlerProto, s)
       else if \<not> w_same_word w handlerProto (w_prototype w s) then (TypeError, s)
       else (Answer handlerProto, s))"

definition no_function :: "jsval option \<Rightarrow> bool" where
  "no_function p \<longleftrightarrow> p = None \<or> p = Some VUndefined"

text \<open>The trap is handed the proxy itself, \<open>self\<close>, and not the receiver of the read.\<close>

definition proxy_get :: "'s world \<Rightarrow> bool \<Rightarrow> jsval \<Rightarrow> property_key \<Rightarrow> jsval \<Rightarrow> (jsval, 's) proxy_method" where
  "proxy_get w revoked self P receiver =
     call_trap w revoked ''get'' (\<lambda>s. ([w_target w, key_value P, self], s)) (\<lambda>trapResult s.
       let targetDesc = w_own w s P in
       if gr_hasValue targetDesc \<and> gr_isData targetDesc \<and> \<not> gr_isConfigurable targetDesc \<and> \<not> gr_isWritable targetDesc \<and>
          \<not> w_same_word w trapResult (data_value w s targetDesc) then (TypeError, s)
       else if gr_hasValue targetDesc \<and> \<not> gr_isData targetDesc \<and> \<not> gr_isConfigurable targetDesc \<and>
          no_function (gr_getter targetDesc) \<and> trapResult \<noteq> VUndefined then (TypeError, s)
       else (Answer trapResult, s))"

definition proxy_set :: "'s world \<Rightarrow> bool \<Rightarrow> property_key \<Rightarrow> jsval \<Rightarrow> jsval \<Rightarrow> (bool, 's) proxy_method" where
  "proxy_set w revoked P V receiver =
     call_trap w revoked ''set'' (\<lambda>s. ([w_target w, key_value P, V, receiver], s)) (\<lambda>v s.
       let targetDesc = w_own w s P in
       if \<not> toBoolean v then (Answer False, s)
       else if gr_hasValue targetDesc \<and> gr_isData targetDesc \<and> \<not> gr_isConfigurable targetDesc \<and> \<not> gr_isWritable targetDesc \<and>
          \<not> w_same_word w V (data_value w s targetDesc) then (TypeError, s)
       else if gr_hasValue targetDesc \<and> \<not> gr_isData targetDesc \<and> \<not> gr_isConfigurable targetDesc \<and>
          no_function (gr_setter targetDesc) then (TypeError, s)
       else (Answer True, s))"

definition proxy_call :: "'s world \<Rightarrow> bool \<Rightarrow> bool \<Rightarrow> jsval \<Rightarrow> jsval list \<Rightarrow> (jsval, 's) proxy_method" where
  "proxy_call w m_isCallable revoked receiver argv s =
     (if \<not> m_isCallable then (TypeError, s)
      else call_trap w revoked ''apply''
        (\<lambda>s. let (argArray, s') = w_array w argv s in ([w_target w, receiver, argArray], s'))
        (\<lambda>v s. (Answer v, s)) s)"

definition proxy_construct :: "'s world \<Rightarrow> bool \<Rightarrow> jsval list \<Rightarrow> jsval \<Rightarrow> (jsval, 's) proxy_method" where
  "proxy_construct w revoked argv newTarget =
     call_trap w revoked ''construct''
       (\<lambda>s. let (argArray, s') = w_array w argv s in ([w_target w, argArray, newTarget], s'))
       (\<lambda>newObj s. if \<not> is_object newObj then (TypeError, s) else (Answer newObj, s))"

section \<open>Invariants\<close>

text \<open>A method that answers has found its trap, which has returned a value.\<close>

lemma call_trap_run:
  assumes "call_trap w revoked name args k s = (Answer a, s')"
  obtains trap s1 arguments s2 v t where "w_method w name s = (Inr trap, s1)" "trap \<noteq> VUndefined"
    "args s1 = (arguments, s2)" "w_call w trap arguments s2 = (Inr v, t)" "k v t = (Answer a, s')"
  using assms by (auto simp: call_trap_def Let_def split: if_splits prod.splits sum.splits)

lemma call_trap_answer:
  assumes "call_trap w revoked name args k s = (Answer a, s')"
  shows "\<exists>v s2. k v s2 = (Answer a, s')"
  using call_trap_run [OF assms] by blast

text \<open>
  What the world has to be: \<^verbatim>\<open>operator==\<close> compares words, so that it holds for equal values only and
  for an object and itself; and the constructor of \<^verbatim>\<open>ObjectPropertyDescriptor\<close> makes well-formed
  descriptors of the objects that traps return. The scripts that run meanwhile may do anything, to
  the target too.
\<close>

definition world_ok :: "'s world \<Rightarrow> bool" where
  "world_ok w \<longleftrightarrow> (\<forall>a b. w_same_word w a b \<longrightarrow> a = b) \<and> (\<forall>a. is_object a \<or> a = VUndefined \<longrightarrow> w_same_word w a a) \<and>
     (\<forall>v s d s'. w_toDescriptor w v s = (Inr d, s') \<longrightarrow> request_ok d)"

definition is_native :: "get_result \<Rightarrow> bool" where
  "is_native r = (case r of NativeResult _ _ _ _ _ _ \<Rightarrow> True | _ \<Rightarrow> False)"

lemma check_keys_Some:
  "check_keys keys us = Some rest \<Longrightarrow> set keys \<subseteq> set us \<and> rest = filter (\<lambda>k. k \<notin> set keys) us"
proof (induction keys us rule: check_keys.induct)
  case (2 key keys us)
  then show ?case by (auto split: if_splits intro: filter_cong)
qed simp

lemma has_duplicates_iff: "has_duplicates ks \<longleftrightarrow> \<not> distinct ks"
  by (induction ks) auto

text \<open>
  C25. The keys a proxy reports: no key twice, every non-configurable property of the target, and
  exactly the keys of a target that is not extensible.
\<close>

theorem proxy_keys_invariant:
  assumes "proxy_ownPropertyKeys w revoked s = (Answer ks, s')"
  shows "distinct ks \<and>
    (\<forall>key \<in> set (w_keys w s'). gr_hasValue (w_own w s' key) \<and> \<not> gr_isConfigurable (w_own w s' key) \<longrightarrow> key \<in> set ks) \<and>
    (\<not> w_extensible w s' \<longrightarrow> set ks = set (w_keys w s'))"
proof -
  define nc where "nc = (\<lambda>key. gr_hasValue (w_own w s' key) \<and> \<not> gr_isConfigurable (w_own w s' key))"
  have "distinct ks \<and> (w_extensible w s' \<and> filter nc (w_keys w s') = [] \<or>
     (\<exists>u. check_keys (filter nc (w_keys w s')) ks = Some u \<and>
       (w_extensible w s' \<or> check_keys (filter (\<lambda>key. \<not> nc key) (w_keys w s')) u = Some [])))"
    using call_trap_answer [OF assms [unfolded proxy_ownPropertyKeys_def]]
    by (elim exE) (auto simp: has_duplicates_iff nc_def Let_def split: prod.splits sum.splits if_splits option.splits)
  note r = conjunct1 [OF this] conjunct2 [OF this]
  show ?thesis
    using r(2)
  proof (elim disjE exE conjE)
    assume "w_extensible w s'" "filter nc (w_keys w s') = []"
    then show ?thesis using r(1) by (auto simp: filter_empty_conv nc_def)
  next
    fix u
    assume u: "check_keys (filter nc (w_keys w s')) ks = Some u" "w_extensible w s'"
    then show ?thesis using r(1) check_keys_Some [OF u(1)] by (auto simp: nc_def)
  next
    fix u
    assume u: "check_keys (filter nc (w_keys w s')) ks = Some u" "check_keys (filter (\<lambda>key. \<not> nc key) (w_keys w s')) u = Some []"
    have "set (filter nc (w_keys w s')) \<subseteq> set ks" "u = filter (\<lambda>k. k \<notin> set (filter nc (w_keys w s'))) ks"
      using check_keys_Some [OF u(1)] by blast+
    moreover have "set (filter (\<lambda>key. \<not> nc key) (w_keys w s')) \<subseteq> set u"
      "[] = filter (\<lambda>k. k \<notin> set (filter (\<lambda>key. \<not> nc key) (w_keys w s'))) u"
      using check_keys_Some [OF u(2)] by blast+
    moreover from this(2) have "\<forall>k \<in> set u. k \<in> set (filter (\<lambda>key. \<not> nc key) (w_keys w s'))"
      by (simp only: eq_commute [of "[]"] filter_empty_conv not_not)
    ultimately have "set ks = set (w_keys w s')" by auto
    then show ?thesis using r(1) by auto
  qed
qed

text \<open>Compatibility is what the standard calls so.\<close>

fun prop_of_result :: "get_result \<Rightarrow> js_prop option" where
  "prop_of_result (DataResult v wr en c) = Some (DataProp v wr en c)"
| "prop_of_result (AccessorResult g st en c) = Some (AccProp (or_undefined g) (or_undefined st) en c)"
| "prop_of_result _ = None"

lemma compatible_iff_standard:
  assumes "world_ok w" "request_ok desc" "\<not> is_native cur"
  shows "isCompatiblePropertyDescriptor w s ext desc cur \<longleftrightarrow>
    fst (validate_and_apply ext (prop_of_result cur) (spec_of_request desc))"
proof -
  note ok = request_okD [OF assms(2)]
  have word: "w_same_word w a b \<longleftrightarrow> same_value a b" if "accessor_part (Some a)" for a b
  proof -
    have "w_same_word w a b \<longleftrightarrow> a = b"
      using that assms(1) by (cases a) (auto simp: world_ok_def accessor_part_def)
    moreover have "same_value a b \<longleftrightarrow> a = b"
      using that by (cases a; cases b) (auto simp: accessor_part_def)
    ultimately show ?thesis by simp
  qed
  show ?thesis
  proof (cases cur)
    case NoProperty
    then show ?thesis by (simp add: isCompatiblePropertyDescriptor_def)
  next
    case (DataResult v wr en c)
    then show ?thesis
      using ok
      by (cases "pr_isDataProperty desc")
         (auto simp: isCompatiblePropertyDescriptor_def spec_of_request_def sd_isAccessor_def pr_isGenericDescriptor_def
            pr_isDataDescriptor_def pr_isAccessorDescriptor_def keeps_def)
  next
    case (AccessorResult g st en c)
    show ?thesis
    proof (cases "pr_isDataProperty desc")
      case True
      then show ?thesis
        using ok AccessorResult
        by (auto simp: isCompatiblePropertyDescriptor_def spec_of_request_def sd_isData_def pr_isGenericDescriptor_def
            pr_isDataDescriptor_def pr_isAccessorDescriptor_def keeps_def)
    next
      case False
      then show ?thesis
        using ok AccessorResult word
        by (auto simp: isCompatiblePropertyDescriptor_def spec_of_request_def sd_isData_def pr_isGenericDescriptor_def
            pr_isDataDescriptor_def pr_isAccessorDescriptor_def keeps_def or_undefined_def split: option.splits)
    qed
  next
    case NativeResult
    then show ?thesis using assms(3) by (simp add: is_native_def)
  qed
qed

text \<open>
  C26. A proxy that says it defined a property: the standard lets the target have the definition, and a
  property is reported as not configurable only if the target has it so.
\<close>

theorem proxy_define_invariant:
  assumes "world_ok w" "request_ok desc" "\<forall>t. \<not> is_native (w_own w t P)"
    "proxy_defineOwnProperty w revoked P desc s = (Answer True, s')"
  shows "fst (validate_and_apply (w_extensible w s') (prop_of_result (w_own w s' P)) (spec_of_request desc)) \<and>
    (pr_isConfigurablePresent desc \<and> \<not> pr_isConfigurable desc \<longrightarrow>
      gr_hasValue (w_own w s' P) \<and> \<not> gr_isConfigurable (w_own w s' P)) \<and>
    (gr_isWritable (w_own w s' P) \<and> \<not> gr_isConfigurable (w_own w s' P) \<and> gr_hasValue (w_own w s' P) \<longrightarrow>
      pr_isWritablePresent desc \<longrightarrow> pr_isWritable desc)"
proof -
  let ?own = "w_own w s' P" and ?no = "pr_isConfigurablePresent desc \<and> \<not> pr_isConfigurable desc"
  let ?K = "\<lambda>t. (if \<not> gr_hasValue (w_own w t P) then if \<not> w_extensible w t \<or> ?no then (TypeError, t) else (Answer True, t)
    else if \<not> isCompatiblePropertyDescriptor w t (w_extensible w t) desc (w_own w t P) \<or> ?no \<and> gr_isConfigurable (w_own w t P)
    then (TypeError, t)
    else if gr_isData (w_own w t P) \<and> \<not> gr_isConfigurable (w_own w t P) \<and> gr_isWritable (w_own w t P) \<and>
      pr_isWritablePresent desc \<and> \<not> pr_isWritable desc then (TypeError, t) else (Answer True, t)) :: bool proxy_result \<times> _"
  obtain v t where run: "(if \<not> toBoolean v then (Answer False, t) else ?K t) = (Answer True, s')"
    using call_trap_answer [OF assms(4) [unfolded proxy_defineOwnProperty_def Let_def]] by blast
  then have K: "?K t = (Answer True, s')" by (cases "toBoolean v") simp_all
  then have t: "t = s'" by (simp split: if_splits)
  have k: "if \<not> gr_hasValue ?own then w_extensible w s' \<and> \<not> ?no
    else isCompatiblePropertyDescriptor w s' (w_extensible w s') desc ?own \<and> \<not> (?no \<and> gr_isConfigurable ?own) \<and>
      \<not> (gr_isData ?own \<and> \<not> gr_isConfigurable ?own \<and> gr_isWritable ?own \<and> pr_isWritablePresent desc \<and> \<not> pr_isWritable desc)"
    using K unfolding t by (simp split: if_splits)
  have "isCompatiblePropertyDescriptor w s' (w_extensible w s') desc ?own"
    using k by (auto simp: isCompatiblePropertyDescriptor_def split: if_splits)
  then have "fst (validate_and_apply (w_extensible w s') (prop_of_result ?own) (spec_of_request desc))"
    using compatible_iff_standard [OF assms(1, 2)] assms(3) by blast
  moreover have "gr_isWritable ?own \<Longrightarrow> gr_isData ?own" by (cases ?own) simp_all
  ultimately show ?thesis using k by (auto split: if_splits)
qed

text \<open>A property that is not configurable and its report: equal but for the value of a writable property.\<close>

fun agrees :: "get_result \<Rightarrow> get_result \<Rightarrow> bool" where
  "agrees (DataResult v wr en c) (DataResult v' wr' en' c') \<longleftrightarrow> en = en' \<and> \<not> c' \<and> wr' = wr \<and> (wr \<or> same_value v' v)"
| "agrees (AccessorResult g st en c) (AccessorResult g' st' en' c') \<longleftrightarrow> en = en' \<and> \<not> c' \<and>
     or_undefined g' = or_undefined g \<and> or_undefined st' = or_undefined st"
| "agrees _ _ \<longleftrightarrow> False"

lemma set_attribute_ok:
  assumes "request_ok d"
  shows "request_ok (setEnumerable b d)" "request_ok (setConfigurable b d)"
    "pr_isDataProperty d \<Longrightarrow> request_ok (setWritable b d)" "\<not> is_gs v \<Longrightarrow> pr_isDataProperty d \<Longrightarrow> request_ok (setValue v d)"
  using assms
  by (auto simp: request_ok_def checkProperty_def setEnumerable_def setConfigurable_def setWritable_def setValue_def
      pr_isDataProperty_def bit_simps split: request_payload.splits)

definition complete_payload :: "prop_request \<Rightarrow> prop_request" where
  "complete_payload d =
     (if pr_isGenericDescriptor d \<or> pr_isDataDescriptor d then
        let d' = (if \<not> pr_isValuePresent d then setValue VUndefined d else d) in
        if \<not> pr_isWritablePresent d' then setWritable False d' else d'
      else d\<lparr>pr_payload := GetterSetterPayload
         (if pr_getter d = None then Some VUndefined else pr_getter d)
         (if pr_setter d = None then Some VUndefined else pr_setter d)\<rparr>)"

lemma complete_payload_ok:
  assumes "request_ok d"
  defines "r \<equiv> complete_payload d"
  shows "request_ok r" "pr_isDataProperty r \<Longrightarrow> pr_isValuePresent r \<and> pr_isWritablePresent r"
    "\<not> pr_isDataProperty r \<Longrightarrow> pr_getter r \<noteq> None \<and> pr_setter r \<noteq> None"
proof -
  have "request_ok r \<and> (pr_isDataProperty r \<longrightarrow> pr_isValuePresent r \<and> pr_isWritablePresent r) \<and>
      (\<not> pr_isDataProperty r \<longrightarrow> pr_getter r \<noteq> None \<and> pr_setter r \<noteq> None)"
  proof (cases "pr_isDataProperty d")
    case True
    then have "pr_isGenericDescriptor d \<or> pr_isDataDescriptor d"
      by (simp add: pr_isGenericDescriptor_def pr_isAccessorDescriptor_def)
    then show ?thesis
      using True assms(1) by (auto simp: r_def complete_payload_def Let_def desc_simps intro!: set_attribute_ok)
  next
    case False
    note ok = request_okD [OF assms(1)]
    have "\<not> (pr_isGenericDescriptor d \<or> pr_isDataDescriptor d)"
      using False ok(2) by (simp add: pr_isGenericDescriptor_def pr_isAccessorDescriptor_def pr_isDataDescriptor_def)
    moreover have "request_ok (d\<lparr>pr_payload := GetterSetterPayload g h\<rparr>)"
      if "accessor_part g" "accessor_part h" "g \<noteq> None" for g h
      using assms(1) that False by (auto simp: request_ok_def checkProperty_def pr_isDataProperty_def split: request_payload.splits)
    ultimately show ?thesis
      using ok(3, 4) by (auto simp: r_def complete_payload_def pr_isDataProperty_def pr_getter_def pr_setter_def accessor_part_def)
  qed
  then show "request_ok r" "pr_isDataProperty r \<Longrightarrow> pr_isValuePresent r \<and> pr_isWritablePresent r"
    "\<not> pr_isDataProperty r \<Longrightarrow> pr_getter r \<noteq> None \<and> pr_setter r \<noteq> None" by blast+
qed

lemma complete_request:
  assumes "request_ok d"
  defines "r \<equiv> completePropertyDescriptor d"
  shows "request_ok r" "pr_isConfigurablePresent r" "pr_isEnumerablePresent r"
    "pr_isDataProperty r \<Longrightarrow> pr_isValuePresent r \<and> pr_isWritablePresent r"
    "\<not> pr_isDataProperty r \<Longrightarrow> pr_getter r \<noteq> None \<and> pr_setter r \<noteq> None"
proof -
  have r: "r = (let d2 = (if \<not> pr_isEnumerablePresent (complete_payload d) then setEnumerable False (complete_payload d) else complete_payload d)
      in if \<not> pr_isConfigurablePresent d2 then setConfigurable False d2 else d2)"
    by (simp add: r_def completePropertyDescriptor_def complete_payload_def Let_def)
  note c = complete_payload_ok [OF assms(1)]
  show "request_ok r" unfolding r using c(1) by (simp add: Let_def set_attribute_ok)
  show "pr_isConfigurablePresent r" "pr_isEnumerablePresent r" unfolding r by (simp_all add: Let_def desc_simps)
  show "pr_isDataProperty r \<Longrightarrow> pr_isValuePresent r \<and> pr_isWritablePresent r"
    "\<not> pr_isDataProperty r \<Longrightarrow> pr_getter r \<noteq> None \<and> pr_setter r \<noteq> None"
    unfolding r using c(2, 3) by (auto simp: Let_def desc_simps split: if_splits)
qed

text \<open>A complete descriptor that is compatible with a property, and the property it describes.\<close>

lemma compatible_report:
  assumes w: "world_ok w" and d: "request_ok d" and n: "\<not> is_native cur"
  defines "r \<equiv> completePropertyDescriptor d"
  assumes c: "isCompatiblePropertyDescriptor w s ext r cur"
    and nc: "\<not> pr_isConfigurable r \<Longrightarrow> gr_hasValue cur \<and> \<not> gr_isConfigurable cur"
    and nw: "\<not> (\<not> pr_isConfigurable r \<and> pr_isWritablePresent r \<and> \<not> pr_isWritable r \<and> gr_isWritable cur)"
  shows "gr_hasValue cur \<Longrightarrow> \<not> gr_isConfigurable cur \<Longrightarrow> agrees cur (result_of_request r)"
    "\<not> gr_hasValue cur \<Longrightarrow> ext \<and> gr_isConfigurable (result_of_request r)"
    "gr_isConfigurable (result_of_request r) = pr_isConfigurable r" "gr_hasValue (result_of_request r)"
proof -
  note k = complete_request [OF d, folded r_def]
  note ok = request_okD [OF k(1)]
  show rc: "gr_isConfigurable (result_of_request r) = pr_isConfigurable r" and "gr_hasValue (result_of_request r)"
    by (simp_all add: result_of_request_def)
  show "\<not> gr_hasValue cur \<Longrightarrow> ext \<and> gr_isConfigurable (result_of_request r)"
    using c nc rc by (auto simp: isCompatiblePropertyDescriptor_def)
  assume fixed: "gr_hasValue cur" "\<not> gr_isConfigurable cur"
  have data: "pr_isDataDescriptor r = pr_isDataProperty r" "\<not> pr_isGenericDescriptor r"
    "pr_isAccessorDescriptor r = (\<not> pr_isDataProperty r)"
    using k(4, 5) ok(1, 2)
    by (cases "pr_isDataProperty r";
        simp add: pr_isDataDescriptor_def pr_isGenericDescriptor_def pr_isAccessorDescriptor_def)+
  have conf: "\<not> pr_isConfigurable r" and en: "pr_isEnumerable r = gr_isEnumerable cur"
    and kind: "gr_isData cur = pr_isDataProperty r"
    using c fixed k(3) data by (auto simp: isCompatiblePropertyDescriptor_def split: if_splits)
  show "agrees cur (result_of_request r)"
  proof (cases cur)
    case (DataResult v wr e cf)
    then show ?thesis
      using c fixed conf en kind data nw k(4)
      by (auto simp: isCompatiblePropertyDescriptor_def result_of_request_def split: if_splits)
  next
    case (AccessorResult g h e cf)
    have "w_same_word w a b \<Longrightarrow> a = b" for a b using w by (simp add: world_ok_def)
    then show ?thesis
      using c fixed conf en kind data k(5) AccessorResult
      by (auto simp: isCompatiblePropertyDescriptor_def result_of_request_def split: if_splits)
  next
    case NativeResult
    then show ?thesis using n by (simp add: is_native_def)
  qed (use fixed in simp)
qed

text \<open>
  C24. The report of a property by a proxy, compared with the property that the target has when the
  trap has returned: when a property is reported and the target has one that is not configurable,
  the report has its attributes, its functions and, when it is not writable, its value; a property
  that the target does not have is reported only when the target is extensible, and as configurable;
  and only a property that is not configurable on the target is reported so. When no property is
  reported although the target has a data property with a value other than undefined, it is
  configurable and the target is extensible. For a property with the value undefined and for
  accessors the code does not ensure this.
\<close>

theorem proxy_descriptor_invariant:
  assumes "world_ok w" "\<forall>t. \<not> is_native (w_own w t P)"
    "proxy_getOwnProperty w revoked P s = (Answer report, s')"
  shows "\<exists>trap s1 v t. w_method w ''getOwnPropertyDescriptor'' s = (Inr trap, s1) \<and>
    w_call w trap [w_target w, key_value P] s1 = (Inr v, t) \<and>
    (gr_hasValue report \<longrightarrow>
      (gr_hasValue (w_own w t P) \<and> \<not> gr_isConfigurable (w_own w t P) \<longrightarrow> agrees (w_own w t P) report) \<and>
      (\<not> gr_hasValue (w_own w t P) \<longrightarrow> w_extensible w s' \<and> gr_isConfigurable report) \<and>
      (\<not> gr_isConfigurable report \<longrightarrow> gr_hasValue (w_own w t P) \<and> \<not> gr_isConfigurable (w_own w t P))) \<and>
    (report = NoProperty \<longrightarrow>
      (\<forall>u wr en c. w_own w t P = DataResult u wr en c \<and> u \<noteq> VUndefined \<longrightarrow> c \<and> w_extensible w s'))"
proof -
  obtain trap s1 v t where call: "w_method w ''getOwnPropertyDescriptor'' s = (Inr trap, s1)"
      "w_call w trap [w_target w, key_value P] s1 = (Inr v, t)"
    and run: "(report = NoProperty \<and> (\<exists>u. read_value w (w_own w t P) t = (Inr u, s') \<and>
      (u = VUndefined \<or> gr_isConfigurable (w_own w t P) \<and> w_extensible w s'))) \<or>
    (\<exists>d. w_toDescriptor w v t = (Inr d, s') \<and> report = result_of_request (completePropertyDescriptor d) \<and>
      isCompatiblePropertyDescriptor w s' (w_extensible w s') (completePropertyDescriptor d) (w_own w t P) \<and>
      (\<not> pr_isConfigurable (completePropertyDescriptor d) \<longrightarrow> gr_hasValue (w_own w t P) \<and> \<not> gr_isConfigurable (w_own w t P)) \<and>
      \<not> (\<not> pr_isConfigurable (completePropertyDescriptor d) \<and> pr_isWritablePresent (completePropertyDescriptor d) \<and>
        \<not> pr_isWritable (completePropertyDescriptor d) \<and> gr_isWritable (w_own w t P)))" (is "?absent \<or> ?present")
    using assms(3) unfolding proxy_getOwnProperty_def
    by (rule call_trap_run) (auto simp: Let_def split: prod.splits sum.splits if_splits)
  show ?thesis
    using run
  proof
    assume ?absent
    then have "c \<and> w_extensible w s'" if "w_own w t P = DataResult u wr en c" "u \<noteq> VUndefined" for u wr en c
      using that by auto
    with \<open>?absent\<close> call show ?thesis by auto
  next
    assume ?present
    then obtain d where d: "w_toDescriptor w v t = (Inr d, s')" "report = result_of_request (completePropertyDescriptor d)"
      and checks: "isCompatiblePropertyDescriptor w s' (w_extensible w s') (completePropertyDescriptor d) (w_own w t P)"
      "\<not> pr_isConfigurable (completePropertyDescriptor d) \<Longrightarrow> gr_hasValue (w_own w t P) \<and> \<not> gr_isConfigurable (w_own w t P)"
      "\<not> (\<not> pr_isConfigurable (completePropertyDescriptor d) \<and> pr_isWritablePresent (completePropertyDescriptor d) \<and>
        \<not> pr_isWritable (completePropertyDescriptor d) \<and> gr_isWritable (w_own w t P))"
      by blast
    have ok: "request_ok d" using assms(1) d(1) unfolding world_ok_def by blast
    note r = compatible_report [OF assms(1) ok assms(2) [rule_format] checks]
    have "report \<noteq> NoProperty" using r(4) d(2) by auto
    with call r checks(2) d(2) show ?thesis by (cases "gr_hasValue (w_own w t P)") auto
  qed
qed

text \<open>
  C27. What a proxy answers about a property of the target that is not configurable: a read of a
  property that is not writable gives its value, a read without a getter gives undefined, and a
  write that succeeds assigned the value the property has.
\<close>

theorem proxy_access_invariant:
  assumes "world_ok w"
  shows "(proxy_get w revoked self P receiver s = (Answer v, s') \<longrightarrow>
      (case w_own w s' P of DataResult u False en False \<Rightarrow> v = u
       | AccessorResult g h en False \<Rightarrow> no_function g \<longrightarrow> v = VUndefined
       | _ \<Rightarrow> True)) \<and>
    (proxy_set w revoked P V receiver s = (Answer True, s') \<longrightarrow>
      (case w_own w s' P of DataResult u False en False \<Rightarrow> V = u
       | AccessorResult g h en False \<Rightarrow> \<not> no_function h
       | _ \<Rightarrow> True)) \<and>
    (proxy_hasProperty w revoked P s = (Answer False, s') \<longrightarrow>
      gr_hasValue (w_own w s' P) \<longrightarrow> gr_isConfigurable (w_own w s' P) \<and> w_extensible w s')"
proof (intro conjI impI)
  have word: "w_same_word w a b \<Longrightarrow> a = b" for a b using assms by (simp add: world_ok_def)
  show "case w_own w s' P of DataResult u False en False \<Rightarrow> v = u
       | AccessorResult g h en False \<Rightarrow> no_function g \<longrightarrow> v = VUndefined | _ \<Rightarrow> True"
    if "proxy_get w revoked self P receiver s = (Answer v, s')"
    using call_trap_answer [OF that [unfolded proxy_get_def]]
    by (auto simp: Let_def dest!: word split: if_splits get_result.splits bool.splits)
  show "case w_own w s' P of DataResult u False en False \<Rightarrow> V = u
       | AccessorResult g h en False \<Rightarrow> \<not> no_function h | _ \<Rightarrow> True"
    if "proxy_set w revoked P V receiver s = (Answer True, s')"
    using call_trap_answer [OF that [unfolded proxy_set_def]]
    by (auto simp: Let_def dest!: word split: if_splits get_result.splits bool.splits)
  show "gr_isConfigurable (w_own w s' P)" "w_extensible w s'"
    if "proxy_hasProperty w revoked P s = (Answer False, s')" "gr_hasValue (w_own w s' P)"
    using call_trap_answer [OF that(1) [unfolded proxy_hasProperty_def]] that(2) by (auto simp: Let_def split: if_splits)
qed

text \<open>
  What a proxy answers about extensibility and the prototype: the truth about extensibility,
  success of \<^verbatim>\<open>preventExtensions\<close> only when the target is not extensible, and of a target that is not
  extensible the prototype it has.
\<close>

lemma proxy_extensibility_invariant:
  assumes "world_ok w"
  shows "\<forall>s b s'. proxy_isExtensible w revoked s = (Answer b, s') \<longrightarrow> b = w_extensible w s'"
    "\<forall>s s'. proxy_preventExtensions w revoked s = (Answer True, s') \<longrightarrow> \<not> w_extensible w s'"
    "\<forall>s v s'. proxy_getPrototype w revoked s = (Answer v, s') \<longrightarrow>
      (is_object v \<or> v = VNull) \<and> (w_extensible w s' \<or> v = w_prototype w s')"
    "\<forall>s s'. proxy_setPrototype w revoked V s = (Answer True, s') \<longrightarrow> w_extensible w s' \<or> V = w_prototype w s'"
proof -
  have word: "w_same_word w a b \<Longrightarrow> a = b" for a b using assms by (simp add: world_ok_def)
  show "\<forall>s b s'. proxy_isExtensible w revoked s = (Answer b, s') \<longrightarrow> b = w_extensible w s'"
    by (auto simp: proxy_isExtensible_def dest!: call_trap_answer split: if_splits)
  show "\<forall>s s'. proxy_preventExtensions w revoked s = (Answer True, s') \<longrightarrow> \<not> w_extensible w s'"
    by (auto simp: proxy_preventExtensions_def dest!: call_trap_answer split: if_splits)
  show "\<forall>s v s'. proxy_getPrototype w revoked s = (Answer v, s') \<longrightarrow>
      (is_object v \<or> v = VNull) \<and> (w_extensible w s' \<or> v = w_prototype w s')"
    by (auto simp: proxy_getPrototype_def dest!: call_trap_answer word split: if_splits)
  show "\<forall>s s'. proxy_setPrototype w revoked V s = (Answer True, s') \<longrightarrow> w_extensible w s' \<or> V = w_prototype w s'"
    by (auto simp: proxy_setPrototype_def dest!: call_trap_answer word split: if_splits)
qed

section \<open>Defects\<close>

text \<open>
  A defect: a property that is not configurable and has the value undefined: the check for absence asks for
  its value, so that its deletion can be reported, and its absence too.
\<close>

theorem proxy_hides_undefined_property:
  assumes "\<forall>t. w_own w t P = DataResult VUndefined wr en False"
    "w_method w ''deleteProperty'' s = (Inr trap, s1)" "trap \<noteq> VUndefined"
    "w_call w trap [w_target w, key_value P] s1 = (Inr v, s2)" "toBoolean v"
  shows "proxy_deleteOwnProperty w False P s = (Answer True, s2)"
  using assms by (simp add: proxy_deleteOwnProperty_def call_trap_def)

theorem proxy_reports_undefined_property_absent:
  assumes "\<forall>t. w_own w t P = DataResult VUndefined wr en False"
    "w_method w ''getOwnPropertyDescriptor'' s = (Inr trap, s1)" "trap \<noteq> VUndefined"
    "w_call w trap [w_target w, key_value P] s1 = (Inr VUndefined, s2)"
  shows "proxy_getOwnProperty w False P s = (Answer NoProperty, s2)"
  using assms by (simp add: proxy_getOwnProperty_def call_trap_def)

text \<open>A defect: a trap that returns the value of the property, as an equal string at another address, is refused.\<close>

theorem proxy_refuses_equal_string:
  assumes "\<forall>t. w_own w t P = DataResult (VString cs) False en False" "\<not> w_same_word w (VString cs) (VString cs)"
    "w_method w ''get'' s = (Inr trap, s1)" "trap \<noteq> VUndefined"
    "w_call w trap [w_target w, key_value P, self] s1 = (Inr (VString cs), s2)"
  shows "proxy_get w False self P receiver s = (TypeError, s2)"
  using assms by (simp add: proxy_get_def call_trap_def)

section \<open>An example\<close>

text \<open>A frozen target with one property, whose traps all return the object 9.\<close>

definition frozen_world :: "unit world" where
  "frozen_world =
     \<lparr>w_method = (\<lambda>name s. (Inr (VObject 7), s)), w_call = (\<lambda>trap args s. (Inr (VObject 9), s)), w_target = VObject 1,
      w_own = (\<lambda>s P. if P = KString [97] then DataResult (VObject 9) False False False else NoProperty),
      w_extensible = (\<lambda>s. False), w_prototype = (\<lambda>s. VObject 9), w_keys = (\<lambda>s. [KString [97]]),
      w_getter = (\<lambda>g s. (Inr VUndefined, s)), w_native = (\<lambda>s r. VUndefined), w_same_word = (\<lambda>a b. a = b),
      w_fromDescriptor = (\<lambda>d s. (VObject 8, s)), w_toDescriptor = (\<lambda>v s. (Inr (data_request (VObject 9) 0), s)),
      w_keyList = (\<lambda>v s. (Inr [KString [97]], s)), w_array = (\<lambda>vs s. (VObject 8, s))\<rparr>"

lemma frozen_request_ok: "request_ok (data_request (VObject 9) 0)"
  by (simp add: request_ok_def checkProperty_def data_request_def bit_simps pr_isDataProperty_def)

lemma frozen_world_ok: "world_ok frozen_world" "\<not> is_native (w_own frozen_world t P)"
  using frozen_request_ok by (auto simp: world_ok_def frozen_world_def is_native_def)

text \<open>The keys of the frozen target can be reported as they are.\<close>

theorem proxy_keys_invariant_witness:
  "proxy_ownPropertyKeys frozen_world False () = (Answer [KString [97]], ()) \<and> distinct [KString [97]] \<and>
   set [KString [97]] = set (w_keys frozen_world ())"
proof -
  have "proxy_ownPropertyKeys frozen_world False () = (Answer [KString [97]], ())"
    by (simp add: proxy_ownPropertyKeys_def call_trap_def frozen_world_def)
  then show ?thesis
    using proxy_keys_invariant [of frozen_world False "()" "[KString [97]]" "()"] by (simp add: frozen_world_def)
qed

text \<open>So can its property.\<close>

theorem proxy_descriptor_invariant_witness:
  "proxy_getOwnProperty frozen_world False (KString [97]) () = (Answer (DataResult (VObject 9) False False False), ()) \<and>
   agrees (w_own frozen_world () (KString [97])) (DataResult (VObject 9) False False False)"
proof -
  have "proxy_getOwnProperty frozen_world False (KString [97]) () = (Answer (DataResult (VObject 9) False False False), ())"
    by (simp add: proxy_getOwnProperty_def call_trap_def frozen_world_def completePropertyDescriptor_def Let_def
        isCompatiblePropertyDescriptor_def result_of_request_def pr_isDataDescriptor_def pr_isGenericDescriptor_def
        pr_isAccessorDescriptor_def desc_simps bit_simps)
  then show ?thesis
    using proxy_descriptor_invariant [OF frozen_world_ok(1), of "KString [97]" False "()" "DataResult (VObject 9) False False False" "()"]
      frozen_world_ok(2) by (simp add: frozen_world_def)
qed

text \<open>It can be defined again as it is.\<close>

theorem proxy_define_invariant_witness:
  "proxy_defineOwnProperty frozen_world False (KString [97]) (data_request (VObject 9) 0) () = (Answer True, ()) \<and>
   fst (validate_and_apply False (Some (DataProp (VObject 9) False False False)) (spec_of_request (data_request (VObject 9) 0)))"
proof -
  have "proxy_defineOwnProperty frozen_world False (KString [97]) (data_request (VObject 9) 0) () = (Answer True, ())"
    by (simp add: proxy_defineOwnProperty_def call_trap_def frozen_world_def Let_def
        isCompatiblePropertyDescriptor_def pr_isDataDescriptor_def pr_isGenericDescriptor_def
        pr_isAccessorDescriptor_def desc_simps bit_simps)
  then show ?thesis
    using proxy_define_invariant [OF frozen_world_ok(1) frozen_request_ok, of "KString [97]" False "()" "()"]
      frozen_world_ok(2) by (simp add: frozen_world_def is_native_def split: if_splits)
qed

text \<open>And read and written with the value it has.\<close>

theorem proxy_access_invariant_witness:
  "proxy_get frozen_world False (VObject 2) (KString [97]) (VObject 2) () = (Answer (VObject 9), ()) \<and>
   (case w_own frozen_world () (KString [97]) of DataResult u False en False \<Rightarrow> VObject 9 = u | _ \<Rightarrow> False)"
proof -
  have "proxy_get frozen_world False (VObject 2) (KString [97]) (VObject 2) () = (Answer (VObject 9), ())"
    by (simp add: proxy_get_def call_trap_def frozen_world_def)
  then show ?thesis
    using proxy_access_invariant [OF frozen_world_ok(1), of False "VObject 2" "KString [97]" "VObject 2" "()" "VObject 9" "()"]
    by (simp add: frozen_world_def)
qed

end
