(* ===== verification/Spec2Isabelle.thy ===== *)
theory Spec2Isabelle
  imports
    Structure_Properties
    Object_Properties
    Prototype_Chain
    Inline_Cache_Proof
    Map_Object
    Set_Object
    Promise_Proof
    Js_String
    Utf_Codec
    Lexer_Literals
    Date_Builtins
    Encoded_Value
    Array_Sort
    Proxy_Object
begin

text \<open>
  A verification of the core of Escargot, an ECMAScript engine in C++.

  \<^bold>\<open>The program.\<close> Source text is scanned (\<^verbatim>\<open>src/parser/Lexer.*\<close>), parsed and compiled to byte
  code, which the interpreter runs on objects. An object (\<^verbatim>\<open>runtime/Object.*\<close>) is a vector of
  slots with a \<^emph>\<open>hidden class\<close> (\<^verbatim>\<open>runtime/ObjectStructure.*\<close>), which lists the names
  (\<^verbatim>\<open>ObjectStructurePropertyName.h\<close>) and the attributes (\<^verbatim>\<open>ObjectStructurePropertyDescriptor.h\<close>)
  of the slots and is shared among objects; names are interned strings (\<^verbatim>\<open>AtomicString.*\<close>), so
  that they compare by pointer. The interpreter caches the hidden classes it met at a property
  read (\<^verbatim>\<open>interpreter/ByteCodeInterpreter.cpp\<close>). Values are tagged 64-bit words (\<^verbatim>\<open>Value.*\<close>) and
  are stored in slots in a form that the garbage collector can follow (\<^verbatim>\<open>EncodedValue.h\<close>). On top of
  the objects are the builtins: arrays with a fast mode, maps and sets with iterators that survive
  changes, promises with the queue of their jobs, and dates. Strings (\<^verbatim>\<open>runtime/String.*\<close>) have
  8-bit or 16-bit contents.

  \<^bold>\<open>Names, hidden classes and objects.\<close>
  \<^item> \<^verbatim>\<open>Esc_Prelude\<close>: word types, collections of simplification rules, searches in lists.
  \<^item> \<^verbatim>\<open>Atomic_String\<close>: \<^verbatim>\<open>AtomicString::init*\<close> on a heap of tagged strings; interned pointers are
    equal exactly when the texts are (locale \<^verbatim>\<open>string_interner\<close>).
  \<^item> \<^verbatim>\<open>Property_Name\<close>: the tagged word of a name, its constructors, equalities and hash; a name
    denotes one property key (locale \<^verbatim>\<open>property_names\<close>).
  \<^item> \<^verbatim>\<open>Property_Descriptor\<close>: the tagged word of a descriptor, bit by bit, with round trips.
  \<^item> \<^verbatim>\<open>Object_Structure\<close>: the three structure classes with all operations on one heap of
    structures, item vectors and name maps; vectors are moved as the code moves them, and a read
    of a moved vector is the error \<^verbatim>\<open>None\<close>. \<^verbatim>\<open>Structure_Invariant\<close> has the invariant of this heap,
    \<^verbatim>\<open>Hidden_Class\<close> the refinement of a private list of properties (locale \<^verbatim>\<open>shape_store\<close>),
    \<^verbatim>\<open>Structure_Properties\<close> the properties.
  \<^item> \<^verbatim>\<open>Js_Value\<close>: values and the equalities of \<^verbatim>\<open>Value.cpp\<close>. \<^verbatim>\<open>Property_Request\<close>:
    \<^verbatim>\<open>ObjectPropertyDescriptor\<close>.
  \<^item> \<^verbatim>\<open>Plain_Object\<close>: own properties of ordinary objects; \<^verbatim>\<open>Define_Own_Property\<close>: the
    specification \<^verbatim>\<open>validate_and_apply\<close> of ECMA-262 and the agreement of each step with it;
    \<^verbatim>\<open>Object_Invariant\<close>: the invariant of the object heap; \<^verbatim>\<open>Object_Properties\<close>: the properties.
  \<^item> \<^verbatim>\<open>Prototype_Chain\<close>: \<^verbatim>\<open>setPrototype\<close>, \<^verbatim>\<open>get\<close>, \<^verbatim>\<open>hasProperty\<close>. The walks along prototypes are
    partial functions; they return on chains that end (\<^verbatim>\<open>grounded\<close>), and \<^verbatim>\<open>setPrototype\<close> keeps
    all chains so.
  \<^item> \<^verbatim>\<open>Inline_Cache\<close>: \<^verbatim>\<open>getObjectPrecomputedCaseOperation\<close> with both shapes of the cache;
    \<^verbatim>\<open>Inline_Cache_Proof\<close>: hits and misses agree with the general lookup.
  \<^item> \<^verbatim>\<open>Proxy_Object\<close>: the internal methods of \<^verbatim>\<open>ProxyObject.cpp\<close>. The handler, the traps and the target
    are one record of functions on a state (\<^verbatim>\<open>world\<close>); a method throws, forwards to the target, or
    answers, and what it answers about fixed properties and extensibility is true of the target.

  \<^bold>\<open>Collections and promises.\<close>
  \<^item> \<^verbatim>\<open>Ordered_Store\<close>: the ordered dictionary with iterators that the standard prescribes, and the
    locales \<^verbatim>\<open>keyed_vector\<close> (the vectors with holes of both collections) and \<^verbatim>\<open>event_simulation\<close>;
    \<^verbatim>\<open>Map_Object\<close> and \<^verbatim>\<open>Set_Object\<close>: \<^verbatim>\<open>MapObject.cpp\<close> and \<^verbatim>\<open>SetObject.cpp\<close> refine it.
  \<^item> \<^verbatim>\<open>Promise_Object\<close>: \<^verbatim>\<open>PromiseObject.cpp\<close>, \<^verbatim>\<open>Job.cpp\<close>, \<^verbatim>\<open>JobQueue.cpp\<close> and the constructor of
    \<^verbatim>\<open>BuiltinPromise.cpp\<close>; \<^verbatim>\<open>Promise_Proof\<close>: the step relation \<^verbatim>\<open>turn\<close>, the invariant that a pending
    promise has at most one means of being settled, and what follows from it.

  \<^bold>\<open>Numbers and the representation of values.\<close>
  \<^item> \<^verbatim>\<open>Doubles\<close>: a double is its 64 bits; its value as a rational number, \<^verbatim>\<open>toInt32SlowCase\<close> and
    \<^verbatim>\<open>isInt32ConvertibleDouble\<close>. \<^verbatim>\<open>C_Numbers\<close>: C++ integers as integers that wrap around, and
    division of doubles as the date code uses it.
  \<^item> \<^verbatim>\<open>Boxed_Value\<close>: the words of \<^verbatim>\<open>Value\<close> with constructors, predicates and readers; every value has
    exactly one kind and reads back. \<^verbatim>\<open>Encoded_Value\<close>: \<^verbatim>\<open>EncodedValue\<close> with the cells of large numbers,
    which are changed in place and yet belong to one slot.

  \<^bold>\<open>Arrays.\<close>
  \<^item> \<^verbatim>\<open>Array_Object\<close>: the buffer of a fast array with allocation, copying and clearing, the capacities
    (one of them computed in single precision), the length, and definition, deletion and assignment
    of elements. An operation that goes on in the slow mode ends with the call it makes
    (\<^verbatim>\<open>Continues\<close>), and the elements that become properties are listed. The array refines the list of
    its elements; defining an element refines \<^verbatim>\<open>validate_and_apply\<close>.
  \<^item> \<^verbatim>\<open>Merge_Sort\<close>: \<^verbatim>\<open>mergeSort\<close> of \<^verbatim>\<open>util/Util.h\<close> over its two buffers and the comparator of
    \<^verbatim>\<open>Array.prototype.sort\<close>; \<^verbatim>\<open>Array_Sort\<close>: \<^verbatim>\<open>ArrayObject::sort\<close> with a comparator that may change the
    array. The order is the stable sort of \<^verbatim>\<open>HOL-Library.Sorting_Algorithms\<close>.

  \<^bold>\<open>Dates.\<close>
  \<^item> \<^verbatim>\<open>Date_Arith\<close>, \<^verbatim>\<open>Date_Time\<close>: the conversions between times and fields of \<^verbatim>\<open>DateObject.cpp\<close>, and that
    they are the calendar. \<^verbatim>\<open>Date_Object\<close>: the object with its cache of local fields, getters and
    all setters; the time zone is a parameter. \<^verbatim>\<open>C_Text\<close>, \<^verbatim>\<open>Date_Parse\<close>, \<^verbatim>\<open>Date_Text\<close>, \<^verbatim>\<open>Date_Builtins\<close>: the
    C functions on characters, both parsers, the texts with their round trips, and the constructor.

  \<^bold>\<open>Strings and the scanner.\<close>
  \<^item> \<^verbatim>\<open>Utf_Codec\<close>: the transcoding of \<^verbatim>\<open>String.cpp\<close> in both directions, over a memory in which
    reads behind the buffer have some value; the round trip, and the planes for which it fails.
  \<^item> \<^verbatim>\<open>Js_String\<close>: comparison, equality of contents of either width, array indices, searches and
    trimming.
  \<^item> \<^verbatim>\<open>Lexer_Chars\<close>, \<^verbatim>\<open>Lexer_Identifiers\<close>, \<^verbatim>\<open>Lexer_Keywords\<close>: character classes, the tables of
    identifier characters with their binary searches, and the decision tree for keywords.
  \<^item> \<^verbatim>\<open>Lexer_State\<close>: the scanner and the token as records; \<^verbatim>\<open>Lexer_Scanner\<close>: comments, escapes,
    identifiers, punctuators, the literals, regular expressions and \<^verbatim>\<open>lex\<close>. Errors are values.
  \<^item> \<^verbatim>\<open>Lexer_Progress\<close>: longest match of punctuators and progress of every token;
    \<^verbatim>\<open>Lexer_Literals\<close>: the second pass over string literals ends and agrees with the first, and
    the values of escapes and binary literals.

  \<^bold>\<open>Parameters and hypotheses.\<close> Allocation takes the address of the new object as an argument and
  the properties assume it unused. The hash of names is that of the code, in which only the hash of a
  pointer, of the standard library, is a parameter. As it differs for an interned and a plain
  string of the same text, the properties that search an object by name assume that a structure
  with a name map has the property stored in the form in which it is looked up (\<^verbatim>\<open>same_form\<close>;
  \<^verbatim>\<open>same_form_short\<close> shows it for interned names where only long numerals are stored as plain
  strings, as the constructor of names does). The collector returns cleared memory (\<^verbatim>\<open>mem\<close>). A
  conversion of a double to an integer that C++ leaves undefined is the parameter \<^verbatim>\<open>wild\<close>. The offset
  of the time zone is a function of the time (\<^verbatim>\<open>zone_ok\<close>, \<^verbatim>\<open>fixed_zone\<close>). Getters, setters, native property hooks, handlers
  of promises and executors are functions of the state; for promises they may do whatever a
  script can do to promises (\<^verbatim>\<open>user_ok\<close>), and the conversion of an argument of a date setter
  whatever the methods of dates can do to dates (\<^verbatim>\<open>keeps_dates\<close>). A comparison function may change the
  array that is sorted as far as it can get its length back (\<^verbatim>\<open>sort_state\<close>). Those on proxies assume
  that words compare equal for equal values only and that a descriptor read from an object is
  well-formed (\<^verbatim>\<open>world_ok\<close>); traps and getters may do anything, to the target too. The theorem on cache misses is for hidden classes
  whose indices fit the 16 bits of an entry (\<^verbatim>\<open>small_shapes\<close>). A decimal literal is left as the
  term that the double-conversion library evaluates.

  \<^bold>\<open>Recursion.\<close> No definition uses fuel. Loops are recursive functions with a measure; the walks
  along prototypes and the second pass over string literals, which may run forever on some
  states, are \<^verbatim>\<open>partial_function\<close>s, and the properties say when they return.

  \<^bold>\<open>Defects.\<close> Theorems whose text begins with \<^emph>\<open>a defect\<close> show a place where the code does not do
  what the standard or its own comments ask for: cached absences and slot 65535 in the read
  cache, stale flags and hashes, UTF-8 for the planes 4 to 15, the backwards search that reads
  behind the string, the identifier tables, several literals, and a spread that is read behind the
  text; in
  arrays, a copy behind the end of a new buffer, elements that come back, a read-only length that
  changes and a sort whose result is lost; in dates, the month and the second of some times, the
  hours around a change of the clocks, fields and texts that overflow, and a year that is not
  checked; in proxies, fixed
  properties with the value undefined, which count as absent, and equal strings that count as
  different.

  \<^bold>\<open>Not modelled.\<close> The parser, the compiler to byte code and the interpreter loop, which need a
  semantics of the language as their specification; the transcendental functions and the printing
  of doubles, for which the library has no executable counterpart; BigInt, regular expressions,
  internationalisation, WebAssembly and garbage collection, which wrap vendored libraries; the
  debugger, the shell, the code cache and the public interface, which are input and output or thin
  wrappers. Of the runtime: \<^verbatim>\<open>Object::set\<close> with the caches of property writes, integrity levels,
  arrays in the slow mode, the combinators of promises, weak collections, environment records,
  typed arrays, and proxies whose target is a proxy.
\<close>

end
